(* ===== verification/Go_Prelude.thy ===== *)
theory Go_Prelude
  imports Main "HOL-Library.AList" "HOL-Library.Word" "HOL-Library.Multiset"
begin

text \<open>
  Shared vocabulary of the development.

  \<^item> Go's fixed-width integers are words: \<open>int32\<close> is \<open>i32\<close>, \<open>int64\<close> (and \<open>int\<close>, which is 64 bits
    wide on the platforms the services run on) is \<open>i64\<close>.  Addition and subtraction wrap as in Go;
    comparisons go through \<open>sint\<close>.
  \<^item> A Go map is an association list with distinct keys.  The order of the list is the order in
    which one \<open>range\<close> loop visits the map.  Go leaves that order open, so every theorem quantifies
    over the list and hence over the order.
  \<^item> A Go set (\<open>map[string]struct{}\<close>, \<open>sets.Set[string]\<close>) is a duplicate-free list.
  \<^item> \<open>sort.SliceStable\<close> is a stable insertion sort over the source's comparison function.

  The lemma collections are \<open>go_map_simps\<close> (lookups after a write), \<open>go_sum_simps\<close> (sums over the
  entries of a map after a write) and \<open>i64_simps\<close> (signed arithmetic without overflow).
\<close>

named_theorems go_map_simps
named_theorems go_sum_simps
named_theorems i64_simps

type_synonym i32 = "32 word"
type_synonym i64 = "64 word"
type_synonym u64 = "64 word"

type_synonym ('k, 'v) gmap = "('k \<times> 'v) list"

abbreviation mget :: "('k, 'v) gmap \<Rightarrow> 'k \<Rightarrow> 'v option" where
  "mget m k \<equiv> map_of m k"

abbreviation mput :: "'k \<Rightarrow> 'v \<Rightarrow> ('k, 'v) gmap \<Rightarrow> ('k, 'v) gmap" where
  "mput k v m \<equiv> AList.update k v m"

abbreviation mdel :: "'k \<Rightarrow> ('k, 'v) gmap \<Rightarrow> ('k, 'v) gmap" where
  "mdel k m \<equiv> AList.delete k m"

abbreviation mkeys :: "('k, 'v) gmap \<Rightarrow> 'k list" where
  "mkeys m \<equiv> map fst m"

abbreviation mvals :: "('k, 'v) gmap \<Rightarrow> 'v list" where
  "mvals m \<equiv> map snd m"

abbreviation mwf :: "('k, 'v) gmap \<Rightarrow> bool" where
  "mwf m \<equiv> distinct (mkeys m)"

text \<open>Integer division of Go truncates towards zero.\<close>

definition go_quot :: "int \<Rightarrow> int \<Rightarrow> int" where
  "go_quot a b = sgn a * sgn b * (\<bar>a\<bar> div \<bar>b\<bar>)"

text \<open>The sum of a quantity over the entries of a map.\<close>

definition msum :: "('k \<Rightarrow> 'v \<Rightarrow> 'a::comm_monoid_add) \<Rightarrow> ('k, 'v) gmap \<Rightarrow> 'a" where
  "msum f m = sum_list (map (\<lambda>(k, v). f k v) m)"

text \<open>Stable insertion sort with a Go comparison function.\<close>

fun insert_stable :: "('a \<Rightarrow> 'a \<Rightarrow> bool) \<Rightarrow> 'a \<Rightarrow> 'a list \<Rightarrow> 'a list" where
  "insert_stable lt x [] = [x]"
| "insert_stable lt x (y # ys) =
     (if lt y x then y # insert_stable lt x ys else x # y # ys)"

definition sort_stable :: "('a \<Rightarrow> 'a \<Rightarrow> bool) \<Rightarrow> 'a list \<Rightarrow> 'a list" where
  "sort_stable lt xs = foldr (insert_stable lt) xs []"

subsection \<open>Maps\<close>

declare map_of_eq_Some_iff [simp del]

lemma mget_mput [go_map_simps]: "mget (mput k v m) k' = (if k' = k then Some v else mget m k')"
  by (simp add: update_conv')

lemma mget_mdel [go_map_simps]: "mget (mdel k m) k' = (if k' = k then None else mget m k')"
  by (simp add: delete_conv')

lemma mget_map_ran [go_map_simps]: "mget (map_ran f m) k = map_option (f k) (mget m k)"
  by (rule map_ran_conv)

lemma mwf_mput [go_map_simps, intro]: "mwf m \<Longrightarrow> mwf (mput k v m)"
  by (rule distinct_update)

lemma mwf_mdel [go_map_simps, intro]: "mwf m \<Longrightarrow> mwf (mdel k m)"
  by (rule distinct_delete)

lemma mwf_map_ran [go_map_simps, intro]: "mwf m \<Longrightarrow> mwf (map_ran f m)"
  by (rule distinct_map_ran)

lemma mget_iff_mem: "mwf m \<Longrightarrow> mget m k = Some v \<longleftrightarrow> (k, v) \<in> set m"
  by (rule map_of_eq_Some_iff)

lemma mem_mkeys_iff: "k \<in> set (mkeys m) \<longleftrightarrow> (\<exists>v. mget m k = Some v)"
  by (metis domIff dom_map_of_conv_image_fst not_Some_eq set_map)

lemma mget_None_iff: "mget m k = None \<longleftrightarrow> k \<notin> set (mkeys m)"
  by (simp add: map_of_eq_None_iff)

lemma mput_same: "mget m k = Some v \<Longrightarrow> mput k v m = m"
  by (induction m) (auto split: if_splits)

lemma mput_mput_same: "mput k v (mput k w m) = mput k v m"
  by (induction m) auto

lemma filter_True_id [simp]: "filter (\<lambda>_. True) = (\<lambda>xs. xs)"
  by (rule ext) simp

lemma mget_filter_key:
  "mget (filter (\<lambda>(k, v). P k) m) k = (if P k then mget m k else None)"
  by (induction m) auto

lemma mkeys_mput_same: "mget m k = Some w \<Longrightarrow> mkeys (mput k v m) = mkeys m"
  by (induction m) (auto split: if_splits)

lemma mwf_filter: "mwf m \<Longrightarrow> mwf (filter P m)"
  by (rule distinct_map_filter)

lemma mvals_mget: "mwf m \<Longrightarrow> v \<in> set (mvals m) \<longleftrightarrow> (\<exists>k. mget m k = Some v)"
  by (force simp: mget_iff_mem)

subsection \<open>Sums over maps\<close>

lemma msum_Nil [go_sum_simps]: "msum f [] = 0"
  by (simp add: msum_def)

lemma msum_Cons [go_sum_simps]: "msum f ((k, v) # m) = f k v + msum f m"
  by (simp add: msum_def)

lemma msum_one [go_sum_simps]: "msum (\<lambda>_ _. 1 :: nat) m = length m"
  by (induction m) (auto simp: msum_def)

lemma mdel_notin: "k \<notin> set (mkeys m) \<Longrightarrow> mdel k m = m"
  by simp

lemma msum_mdel:
  fixes f :: "'k \<Rightarrow> 'v \<Rightarrow> 'a::ab_group_add"
  assumes "mwf m"
  shows "msum f (mdel k m) = msum f m - (case mget m k of None \<Rightarrow> 0 | Some v \<Rightarrow> f k v)"
  using assms by (induction m) (auto simp: go_sum_simps mdel_notin split: option.splits dest: eq_key_imp_eq_value weak_map_of_SomeI)

lemma msum_mput:
  fixes f :: "'k \<Rightarrow> 'v \<Rightarrow> 'a::ab_group_add"
  assumes "mwf m"
  shows "msum f (mput k v m) = msum f m - (case mget m k of None \<Rightarrow> 0 | Some u \<Rightarrow> f k u) + f k v"
  using assms by (induction m) (auto simp: go_sum_simps split: option.splits dest: eq_key_imp_eq_value)

lemma msum_cong:
  assumes "\<And>k v. (k, v) \<in> set m \<Longrightarrow> f k v = g k v"
  shows "msum f m = msum g m"
  using assms by (induction m) (auto simp: go_sum_simps)

lemma msum_nonneg:
  fixes f :: "'k \<Rightarrow> 'v \<Rightarrow> int"
  assumes "\<And>k v. (k, v) \<in> set m \<Longrightarrow> 0 \<le> f k v"
  shows "0 \<le> msum f m"
  using assms by (induction m) (force simp: go_sum_simps)+

lemma msum_member_le:
  fixes f :: "'k \<Rightarrow> 'v \<Rightarrow> int"
  assumes "\<And>k v. (k, v) \<in> set m \<Longrightarrow> 0 \<le> f k v" "(k, v) \<in> set m"
  shows "f k v \<le> msum f m"
proof -
  have "sum_list (map (\<lambda>(k, v). f k v) m) \<ge> (\<lambda>(k, v). f k v) (k, v)"
    using assms by (intro member_le_sum_list) auto
  then show ?thesis by (simp add: msum_def)
qed

lemma msum_eq_sum:
  assumes "mwf m"
  shows "msum f m = (\<Sum>k\<in>set (mkeys m). f k (the (mget m k)))"
proof -
  have "msum f m = sum_list (map (\<lambda>k. f k (the (mget m k))) (mkeys m))"
    using assms by (auto simp: msum_def mget_iff_mem intro!: arg_cong [where f = sum_list] map_cong)
  also have "\<dots> = (\<Sum>k\<in>set (mkeys m). f k (the (mget m k)))"
    using assms by (rule sum_list_distinct_conv_sum_set)
  finally show ?thesis .
qed

subsection \<open>Signed words\<close>

lemma sint_add_i64 [i64_simps]:
  "- (2 ^ 63) \<le> sint a + sint b \<Longrightarrow> sint a + sint b < 2 ^ 63 \<Longrightarrow>
   sint (a + b :: i64) = sint a + sint b"
  by (simp add: sint_word_ariths signed_take_bit_int_eq_self)

lemma sint_sub_i64 [i64_simps]:
  "- (2 ^ 63) \<le> sint a - sint b \<Longrightarrow> sint a - sint b < 2 ^ 63 \<Longrightarrow>
   sint (a - b :: i64) = sint a - sint b"
  by (simp add: sint_word_ariths signed_take_bit_int_eq_self)

lemma sint_i64_bounds: "- (2 ^ 63) \<le> sint (a :: i64)" "sint (a :: i64) < 2 ^ 63"
  using sint_ge [of a] sint_lt [of a] by simp_all

subsection \<open>Stable sorting\<close>

lemma mset_insert_stable [simp]: "mset (insert_stable lt x ys) = add_mset x (mset ys)"
  by (induction ys) auto

lemma set_insert_stable [simp]: "set (insert_stable lt x ys) = insert x (set ys)"
  by (induction ys) auto

lemma mset_sort_stable [simp]: "mset (sort_stable lt xs) = mset xs"
  by (induction xs) (auto simp: sort_stable_def)

lemma set_sort_stable [simp]: "set (sort_stable lt xs) = set xs"
  by (metis mset_sort_stable set_mset_mset)

lemma sort_stable_simps [simp]:
  "sort_stable lt [] = []" "sort_stable lt (x # xs) = insert_stable lt x (sort_stable lt xs)"
  by (simp_all add: sort_stable_def)

lemma length_sort_stable [simp]: "length (sort_stable lt xs) = length xs"
  by (metis mset_sort_stable size_mset)

lemma distinct_sort_stable [simp]: "distinct (sort_stable lt xs) = distinct xs"
  by (metis mset_sort_stable mset_eq_imp_distinct_iff)

text \<open>
  A Go comparison function is a strict weak order on the elements that are compared: asymmetric, with
  a transitive complement.  The laws are the contract \<open>sort.SliceStable\<close> documents for its argument.
  The predicate \<open>ok\<close> describes those elements (for metric values: anything but NaN).
\<close>

locale strict_weak_order =
  fixes lt :: "'a \<Rightarrow> 'a \<Rightarrow> bool"
    and ok :: "'a \<Rightarrow> bool"
  assumes lt_asym: "ok x \<Longrightarrow> ok y \<Longrightarrow> lt x y \<Longrightarrow> \<not> lt y x"
    and not_lt_trans: "ok x \<Longrightarrow> ok y \<Longrightarrow> ok z \<Longrightarrow> \<not> lt x y \<Longrightarrow> \<not> lt y z \<Longrightarrow> \<not> lt x z"
begin

lemma lt_irrefl: "ok x \<Longrightarrow> \<not> lt x x"
  using lt_asym by blast

lemma insert_stable_sorted:
  assumes "sorted_wrt (\<lambda>a b. \<not> lt b a) ys" "ok x" "\<forall>y\<in>set ys. ok y"
  shows "sorted_wrt (\<lambda>a b. \<not> lt b a) (insert_stable lt x ys)"
  using assms by (induction ys) (auto dest: lt_asym, (meson not_lt_trans)+)

lemma sort_stable_sorted:
  assumes "\<forall>x\<in>set xs. ok x"
  shows "sorted_wrt (\<lambda>a b. \<not> lt b a) (sort_stable lt xs)"
  using assms
proof (induction xs)
  case (Cons x xs)
  then show ?case by (auto intro: insert_stable_sorted)
qed simp

lemma insert_stable_filter:
  assumes "sorted_wrt (\<lambda>a b. \<not> lt b a) ys" "ok x" "ok z" "\<forall>y\<in>set ys. ok y"
  shows "filter (\<lambda>y. \<not> lt y z \<and> \<not> lt z y) (insert_stable lt x ys) =
         (if \<not> lt x z \<and> \<not> lt z x then x # filter (\<lambda>y. \<not> lt y z \<and> \<not> lt z y) ys
          else filter (\<lambda>y. \<not> lt y z \<and> \<not> lt z y) ys)"
  using assms by (induction ys) (auto dest: not_lt_trans)

text \<open>Elements that compare equal keep their order: the sort is stable.\<close>

lemma sort_stable_stable:
  assumes "\<forall>x\<in>set xs. ok x" "ok z"
  shows "filter (\<lambda>y. \<not> lt y z \<and> \<not> lt z y) (sort_stable lt xs) =
    filter (\<lambda>y. \<not> lt y z \<and> \<not> lt z y) xs"
  using assms(1)
proof (induction xs)
  case (Cons x xs)
  then have "sorted_wrt (\<lambda>a b. \<not> lt b a) (sort_stable lt xs)" by (simp add: sort_stable_sorted)
  from insert_stable_filter [OF this, of x z] Cons assms(2) show ?case by simp
qed simp

text \<open>The head of a sorted list is minimal.\<close>

lemma sort_stable_hd_min:
  assumes "\<forall>x\<in>set xs. ok x" "sort_stable lt xs = y # ys" "x \<in> set xs"
  shows "\<not> lt x y"
proof -
  have "x \<in> set (y # ys)" using assms(2,3) by (metis set_sort_stable)
  moreover have "sorted_wrt (\<lambda>a b. \<not> lt b a) (y # ys)" using sort_stable_sorted [OF assms(1)] assms(2) by simp
  moreover have "ok y" using assms(1,2) by (metis list.set_intros(1) set_sort_stable)
  ultimately show ?thesis using lt_irrefl by auto
qed

end

subsection \<open>Histories and refinement\<close>

text \<open>A component is a step function returning the new state and a result.  A history is a list
  of operations; \<open>ops_ok\<close> says that every operation of it met its caller's obligation.\<close>

fun run_ops :: "('op \<Rightarrow> 's \<Rightarrow> 's \<times> 'e) \<Rightarrow> 'op list \<Rightarrow> 's \<Rightarrow> 's \<times> 'e list" where
  "run_ops exec [] s = (s, [])"
| "run_ops exec (op # ops) s =
     (let (s', e) = exec op s; (s'', es) = run_ops exec ops s' in (s'', e # es))"

fun ops_ok :: "('op \<Rightarrow> 's \<Rightarrow> 's \<times> 'e) \<Rightarrow> ('op \<Rightarrow> 's \<Rightarrow> bool) \<Rightarrow> 'op list \<Rightarrow> 's \<Rightarrow> bool" where
  "ops_ok exec ok [] s = True"
| "ops_ok exec ok (op # ops) s = (ok op s \<and> ops_ok exec ok ops (fst (exec op s)))"

locale machine =
  fixes exec :: "'op \<Rightarrow> 's \<Rightarrow> 's \<times> 'e"
    and ok :: "'op \<Rightarrow> 's \<Rightarrow> bool"
    and inv :: "'s \<Rightarrow> bool"
    and init :: 's
  assumes inv_init: "inv init"
    and inv_exec: "inv s \<Longrightarrow> ok op s \<Longrightarrow> inv (fst (exec op s))"
begin

lemma inv_run: "inv s \<Longrightarrow> ops_ok exec ok ops s \<Longrightarrow> inv (fst (run_ops exec ops s))"
  by (induction ops arbitrary: s) (auto simp: Let_def split_beta inv_exec)

lemma inv_history: "ops_ok exec ok ops init \<Longrightarrow> inv (fst (run_ops exec ops init))"
  using inv_run inv_init by blast

end

locale refined_machine = machine exec ok inv init
  for exec :: "'op \<Rightarrow> 's \<Rightarrow> 's \<times> 'e" and ok inv init +
  fixes abs :: "'s \<Rightarrow> 't"
    and spec :: "'op \<Rightarrow> 't \<Rightarrow> 't \<times> 'e"
  assumes simulates: "inv s \<Longrightarrow> ok op s \<Longrightarrow> spec op (abs s) = (abs (fst (exec op s)), snd (exec op s))"
begin

lemma run_simulates:
  "inv s \<Longrightarrow> ops_ok exec ok ops s \<Longrightarrow>
   run_ops spec ops (abs s) = (abs (fst (run_ops exec ops s)), snd (run_ops exec ops s))"
  by (induction ops arbitrary: s) (auto simp: Let_def split_beta inv_exec simulates)

lemma history_simulates:
  "ops_ok exec ok ops init \<Longrightarrow>
   run_ops spec ops (abs init) = (abs (fst (run_ops exec ops init)), snd (run_ops exec ops init))"
  using run_simulates inv_init by blast

end

end
