(* ===== verification/Core_Types.thy ===== *)
theory Core_Types
  imports Go_Prelude
begin

text \<open>
  The vocabulary of \<open>pkg/consts\<close> and \<open>pkg/types\<close>: inference types, scheduling modes and stages,
  the error values, network endpoints with their textual form, LLM instances with their identifier,
  and scheduling requests.  \<open>strconv.Atoi\<close>, \<open>strings.Split\<close>, \<open>strings.Join\<close> and the verb
  \<open>%d\<close> of \<open>fmt\<close> are written out because the textual form of an endpoint is a wire format.
  Lemmas: printing and parsing an endpoint is a round trip, and an identifier is never empty.
\<close>

subsection \<open>Constants and errors (pkg/consts)\<close>

type_synonym InferType = string

definition InferTypeNeutral :: InferType where "InferTypeNeutral = ''neutral''"
definition InferTypePrefill :: InferType where "InferTypePrefill = ''prefill''"
definition InferTypeDecode :: InferType where "InferTypeDecode = ''decode''"
definition InferTypeAll :: InferType where "InferTypeAll = ''all''"

lemmas infer_types = InferTypeNeutral_def InferTypePrefill_def InferTypeDecode_def InferTypeAll_def

type_synonym SchedulingStage = string

definition SchedulingStagePrefill :: SchedulingStage where "SchedulingStagePrefill = ''prefill''"
definition SchedulingStageDecode :: SchedulingStage where "SchedulingStageDecode = ''decode''"

type_synonym SchedulingMode = string

definition SchedulingModeNeutral :: SchedulingMode where "SchedulingModeNeutral = ''neutral''"
definition SchedulingModePDBatch :: SchedulingMode where "SchedulingModePDBatch = ''pd_batch''"
definition SchedulingModePDStaged :: SchedulingMode where "SchedulingModePDStaged = ''pd_staged''"

lemmas scheduling_modes =
  SchedulingModeNeutral_def SchedulingModePDBatch_def SchedulingModePDStaged_def
  SchedulingStagePrefill_def SchedulingStageDecode_def

datatype go_error =
    ErrorNoAvailableEndpoint
  | ErrorEndpointNotFound
  | ErrorBackendServiceNoFound
  | ErrorSchedulerNotReady
  | ErrorMayNetworkBroken
  | ErrorAllEndpointBusy
  | ErrorNoMatchInferType
  | ErrorGatewayNotFound
  | ErrorRequestExits
  | ErrorRequestNotExits
  | ErrorRequestGatewayChanged
  | ErrorReadTimeout
  | ErrorUnitLimitExceeded
  | ErrorRequestTooLong
  | ErrorRequestAbortedByEngine
  | ErrorReadSSETimeout
  | ErrorCmsNotAvailable
  | ErrorBackendBadRequest
  | ErrorInternalServerError
  | ErrorBadRequest
  | ErrorRateLimitExceeded
  | ErrorInvalidModel
  | ErrorContentFieldsMisused
  | ErrorCompletionRequestPromptTypeNotSupported
  | ErrorUnSupportedProtocol

subsection \<open>Decimal integers and strings (standard library)\<close>

definition digit_char :: "nat \<Rightarrow> char" where
  "digit_char d = char_of (48 + d)"

definition is_digit :: "char \<Rightarrow> bool" where
  "is_digit c \<longleftrightarrow> 48 \<le> (of_char c :: nat) \<and> (of_char c :: nat) \<le> 57"

definition digit_val :: "char \<Rightarrow> nat" where
  "digit_val c = of_char c - 48"

fun show_nat :: "nat \<Rightarrow> string" where
  "show_nat n = (if n < 10 then [digit_char n] else show_nat (n div 10) @ [digit_char (n mod 10)])"

declare show_nat.simps [simp del]

definition show_int :: "int \<Rightarrow> string" where
  "show_int i = (if i < 0 then CHR ''-'' # show_nat (nat (- i)) else show_nat (nat i))"

definition read_nat :: "string \<Rightarrow> nat" where
  "read_nat s = foldl (\<lambda>n c. n * 10 + digit_val c) 0 s"

text \<open>\<open>strconv.Atoi\<close>: an optional sign, then decimal digits, in the range of a 64-bit int.  The
  boolean says whether the parse succeeded; on a range error the value saturates.\<close>

definition Atoi :: "string \<Rightarrow> i64 \<times> bool" where
  "Atoi s =
     (let (neg, ds) = (case s of [] \<Rightarrow> (False, [])
                       | c # cs \<Rightarrow> if c = CHR ''-'' then (True, cs)
                                   else if c = CHR ''+'' then (False, cs) else (False, c # cs))
      in if ds = [] \<or> \<not> list_all is_digit ds then (0, False)
         else let n = int (read_nat ds); i = (if neg then - n else n)
              in if i < - (2 ^ 63) then (word_of_int (- (2 ^ 63)), False)
                 else if 2 ^ 63 \<le> i then (word_of_int (2 ^ 63 - 1), False)
                 else (word_of_int i, True))"

fun split_on :: "char \<Rightarrow> string \<Rightarrow> string list" where
  "split_on c [] = [[]]"
| "split_on c (x # xs) =
     (if x = c then [] # split_on c xs
      else (case split_on c xs of [] \<Rightarrow> [[x]] | y # ys \<Rightarrow> (x # y) # ys))"

fun join :: "string \<Rightarrow> string list \<Rightarrow> string" where
  "join sep [] = []"
| "join sep [x] = x"
| "join sep (x # y # zs) = x @ sep @ join sep (y # zs)"

subsection \<open>Endpoints (pkg/types/endpoint.go)\<close>

record Endpoint =
  ep_Host :: string
  ep_Port :: i64

datatype endpoint_error = InvalidEndpointFormat string | InvalidPort string

definition NewEndpoint :: "string \<Rightarrow> Endpoint \<times> endpoint_error option" where
  "NewEndpoint str =
     (case split_on (CHR '':'') str of
        [host, port] \<Rightarrow>
          (let (p, ok) = Atoi port
           in (\<lparr>ep_Host = host, ep_Port = p\<rparr>, if ok then None else Some (InvalidPort port)))
      | _ \<Rightarrow> (\<lparr>ep_Host = [], ep_Port = 0\<rparr>, Some (InvalidEndpointFormat str)))"

definition Endpoint_String :: "Endpoint \<Rightarrow> string" where
  "Endpoint_String ep = ep_Host ep @ '':'' @ show_int (sint (ep_Port ep))"

subsection \<open>Instances (pkg/types/llm\_instance.go)\<close>

record LLMInstance =
  li_Version :: i64
  li_ID :: string
  li_Model :: string
  li_InferType :: InferType
  li_Endpoint :: Endpoint
  li_AuxIp :: string
  li_AuxPort :: i64
  li_DPRank :: i64
  li_DPSize :: i64

definition LLMInstance_String :: "LLMInstance \<Rightarrow> string" where
  "LLMInstance_String w =
     (let parts =
            (if li_Model w \<noteq> [] \<and> li_InferType w \<noteq> [] then [li_Model w @ ''|'' @ li_InferType w]
             else if li_Model w \<noteq> [] then [li_Model w]
             else if li_InferType w \<noteq> [] then [li_InferType w]
             else []);
          endpointStr = Endpoint_String (li_Endpoint w);
          parts = (if endpointStr \<noteq> [] then parts @ [endpointStr] else parts);
          parts = (if li_AuxIp w \<noteq> [] then parts @ [li_AuxIp w] else parts);
          parts = (if 0 < sint (li_AuxPort w) then parts @ [show_int (sint (li_AuxPort w))] else parts);
          parts = (if 0 < sint (li_DPSize w)
                   then parts @ [show_int (sint (li_DPRank w)) @ ''/'' @ show_int (sint (li_DPSize w))]
                   else parts);
          result = join ''-'' parts
      in if result = [] \<and> endpointStr \<noteq> [] then endpointStr else result)"

text \<open>\<open>Id\<close> memoises the printed form in the \<open>ID\<close> field; it returns the identifier and the instance.\<close>

definition LLMInstance_Id :: "LLMInstance \<Rightarrow> string \<times> LLMInstance" where
  "LLMInstance_Id w =
     (let w' = (if li_ID w = [] then w\<lparr>li_ID := LLMInstance_String w\<rparr> else w) in (li_ID w', w'))"

subsection \<open>Scheduling requests (pkg/types/scheduling\_request.go)\<close>

type_synonym SchedulingResult = "LLMInstance list"

definition GetInstanceByInferType :: "SchedulingResult \<Rightarrow> InferType \<Rightarrow> LLMInstance option" where
  "GetInstanceByInferType sr inferType = find (\<lambda>i. li_InferType i = inferType) sr"

fun SchedulingResult_String_from :: "string \<Rightarrow> SchedulingResult \<Rightarrow> string" where
  "SchedulingResult_String_from str [] = str"
| "SchedulingResult_String_from str (i # is) =
     SchedulingResult_String_from
       ((if 0 < length str then str @ '','' else str) @ LLMInstance_String i) is"

definition SchedulingResult_String :: "SchedulingResult \<Rightarrow> string" where
  "SchedulingResult_String sr = SchedulingResult_String_from [] sr"

record SchedulingRequest =
  sr_Id :: string
  sr_Model :: string
  sr_GatewayId :: string
  sr_SchedulingMode :: SchedulingMode
  sr_SchedulingStage :: SchedulingStage
  sr_PromptNumTokens :: i64
  sr_PromptTokenIds :: "32 word list"
  sr_SchedulingResult :: "SchedulingResult option"

definition add_part :: "bool \<Rightarrow> string \<Rightarrow> string \<Rightarrow> string \<Rightarrow> string" where
  "add_part present sep part str =
     (if present then (if 0 < length str then str @ sep else str) @ part else str)"

definition SchedulingRequest_String :: "SchedulingRequest \<Rightarrow> string" where
  "SchedulingRequest_String req =
     (let str = (if sr_Id req \<noteq> [] then sr_Id req else []);
          str = add_part (sr_Model req \<noteq> []) ''|'' (sr_Model req) str;
          str = add_part (sr_GatewayId req \<noteq> []) ''@'' (sr_GatewayId req) str;
          str = add_part (sr_SchedulingMode req \<noteq> []) '' '' (sr_SchedulingMode req) str;
          str = add_part (sr_SchedulingStage req \<noteq> []) ''/'' (sr_SchedulingStage req) str;
          str = add_part (0 < sint (sr_PromptNumTokens req)) '' ''
                  (''tokens:'' @ show_int (sint (sr_PromptNumTokens req))) str
      in (case sr_SchedulingResult req of
            None \<Rightarrow> str
          | Some res \<Rightarrow> add_part True '' '' (''result:['' @ SchedulingResult_String res @ '']'') str))"

subsection \<open>Decimal round trips\<close>

lemma of_char_digit: "d < 10 \<Longrightarrow> of_char (digit_char d) = 48 + d"
  by (simp add: digit_char_def)

lemma is_digit_digit_char: "d < 10 \<Longrightarrow> is_digit (digit_char d)"
  by (simp add: is_digit_def of_char_digit)

lemma digit_val_digit_char: "d < 10 \<Longrightarrow> digit_val (digit_char d) = d"
  by (simp add: digit_val_def of_char_digit)

lemma show_nat_ne [simp]: "show_nat n \<noteq> []"
  by (subst show_nat.simps) simp

lemma show_nat_digits: "list_all is_digit (show_nat n)"
proof (induction n rule: show_nat.induct)
  case (1 n)
  then show ?case
    by (cases "n < 10") (simp_all add: show_nat.simps [of n] is_digit_digit_char)
qed

lemma read_nat_snoc: "read_nat (s @ [c]) = read_nat s * 10 + digit_val c"
  by (simp add: read_nat_def)

lemma read_show_nat: "read_nat (show_nat n) = n"
proof (induction n rule: show_nat.induct)
  case (1 n)
  show ?case
  proof (cases "n < 10")
    case True
    then show ?thesis by (simp add: show_nat.simps [of n] read_nat_def digit_val_digit_char)
  next
    case False
    with "1" show ?thesis
      by (simp add: show_nat.simps [of n] read_nat_snoc digit_val_digit_char)
  qed
qed

lemma not_digit_sign: "\<not> is_digit (CHR ''-'')" "\<not> is_digit (CHR ''+'')" "\<not> is_digit (CHR '':'')"
  by (simp_all add: is_digit_def)

lemma hd_show_nat: "is_digit (hd (show_nat n))"
  using show_nat_digits [of n] by (cases "show_nat n") auto

lemma Atoi_show_nat:
  assumes "int n < 2 ^ 63"
  shows "Atoi (show_nat n) = (word_of_int (int n), True)"
proof -
  obtain c cs where s: "show_nat n = c # cs"
    by (cases "show_nat n") auto
  with hd_show_nat [of n] have "is_digit c" by simp
  then have "c \<noteq> CHR ''-''" "c \<noteq> CHR ''+''" using not_digit_sign by auto
  then show ?thesis
    using assms show_nat_digits [of n] read_show_nat [of n] by (simp add: Atoi_def s Let_def)
qed

lemma Atoi_minus_show_nat:
  assumes "int n \<le> 2 ^ 63"
  shows "Atoi (CHR ''-'' # show_nat n) = (word_of_int (- int n), True)"
  using assms show_nat_digits [of n] read_show_nat [of n] by (simp add: Atoi_def Let_def)

lemma Atoi_show_int: "Atoi (show_int (sint p)) = (p, True)" for p :: i64
proof (cases "sint p < 0")
  case True
  then show ?thesis
    using sint_i64_bounds [of p] by (simp add: show_int_def Atoi_minus_show_nat)
next
  case False
  then show ?thesis
    using sint_i64_bounds [of p] by (simp add: show_int_def Atoi_show_nat)
qed

lemma split_on_ne [simp]: "split_on c s \<noteq> []"
  by (induction s) (auto split: list.splits)

lemma split_on_notin: "c \<notin> set s \<Longrightarrow> split_on c s = [s]"
  by (induction s) auto

lemma split_on_append: "c \<notin> set s \<Longrightarrow> split_on c (s @ c # t) = s # split_on c t"
  by (induction s) (auto split: list.splits)

lemma show_nat_no_colon: "CHR '':'' \<notin> set (show_nat n)"
  using show_nat_digits [of n] not_digit_sign(3) by (auto simp: list_all_iff)

lemma show_int_no_colon: "CHR '':'' \<notin> set (show_int i)"
  by (auto simp: show_int_def show_nat_no_colon)

lemma join_ne: "\<exists>x\<in>set xs. x \<noteq> [] \<Longrightarrow> join sep xs \<noteq> []"
  by (induction sep xs rule: join.induct) auto

lemma Endpoint_String_ne [simp]: "Endpoint_String ep \<noteq> []"
  by (simp add: Endpoint_String_def)

lemma LLMInstance_String_ne [simp]: "LLMInstance_String w \<noteq> []"
proof -
  have "join ''-'' (ps @ Endpoint_String (li_Endpoint w) # qs) \<noteq> []" for ps qs
    by (rule join_ne) auto
  then show ?thesis by (auto simp: LLMInstance_String_def Let_def)
qed

lemma LLMInstance_Id_fst: "fst (LLMInstance_Id w) = li_ID (snd (LLMInstance_Id w))"
  by (simp add: LLMInstance_Id_def Let_def)

lemma LLMInstance_Id_idem: "LLMInstance_Id (snd (LLMInstance_Id w)) = LLMInstance_Id w"
  by (simp add: LLMInstance_Id_def Let_def)

text \<open>An endpoint is read back from its printed form: if the host has no colon, parsing
  \<open>host:port\<close> gives the same host and port, for every 64-bit port value.
\<close>

theorem endpoint_roundtrip:
  assumes "CHR '':'' \<notin> set (ep_Host ep)"
  shows "NewEndpoint (Endpoint_String ep) = (ep, None)"
  using assms
  by (simp add: NewEndpoint_def Endpoint_String_def split_on_append split_on_notin show_int_no_colon
      Atoi_show_int)

theorem endpoint_roundtrip_witness:
  "NewEndpoint (Endpoint_String \<lparr>ep_Host = ''10.0.0.1'', ep_Port = 8080\<rparr>) =
     (\<lparr>ep_Host = ''10.0.0.1'', ep_Port = 8080\<rparr>, None)"
  by (rule endpoint_roundtrip) simp

end
