(* ===== verification/Go_Float.thy ===== *)
theory Go_Float
  imports Complex_Main Go_Prelude
begin

text \<open>
  Go's \<open>float32\<close> and \<open>float64\<close>: IEEE 754 binary formats with round-half-to-even.

  A value is a rational number, an infinity or NaN (the two zeros are one value: no operation modelled
  here tells them apart).  \<open>round_to\<close> rounds a rational to a format with precision \<open>p\<close>, least
  exponent \<open>emin\<close> and largest finite value \<open>big\<close>; an operation rounds its exact result once.
  Comparisons with NaN are false.  Conversion to an integer truncates; out of range it gives the
  indefinite value of the amd64 instruction.

  Lemmas: small integers are exact, and the comparison is a strict weak order away from NaN.
\<close>

datatype gofloat = Fin rat | PInf | NInf | NaN

type_synonym f32 = gofloat
type_synonym f64 = gofloat

subsection \<open>Rounding\<close>

fun ilog2 :: "nat \<Rightarrow> nat" where
  "ilog2 n = (if n < 2 then 0 else Suc (ilog2 (n div 2)))"

declare ilog2.simps [simp del]

definition pow2 :: "int \<Rightarrow> rat" where
  "pow2 e = (if 0 \<le> e then 2 ^ nat e else 1 / 2 ^ nat (- e))"

definition rat_log2 :: "rat \<Rightarrow> int" where
  "rat_log2 q =
     (let (a, b) = quotient_of q; e = int (ilog2 (nat a)) - int (ilog2 (nat b))
      in if pow2 e \<le> q then e else e - 1)"

definition round_half_even :: "rat \<Rightarrow> int" where
  "round_half_even q =
     (let n = \<lfloor>q\<rfloor>; d = q - of_int n
      in if d < 1 / 2 then n else if 1 / 2 < d then n + 1 else if even n then n else n + 1)"

definition round_to :: "int \<Rightarrow> int \<Rightarrow> rat \<Rightarrow> rat \<Rightarrow> gofloat" where
  "round_to p emin big q =
     (if q = 0 then Fin 0
      else let u = pow2 (max (rat_log2 \<bar>q\<bar> - (p - 1)) emin);
               r = of_int (round_half_even (q / u)) * u
           in if big < r then PInf else if r < - big then NInf else Fin r)"

definition MaxFloat32 :: rat where "MaxFloat32 = (2 ^ 24 - 1) * 2 ^ 104"
definition MaxFloat64 :: rat where "MaxFloat64 = (2 ^ 53 - 1) * 2 ^ 971"

definition round32 :: "rat \<Rightarrow> f32" where "round32 = round_to 24 (- 149) MaxFloat32"
definition round64 :: "rat \<Rightarrow> f64" where "round64 = round_to 53 (- 1074) MaxFloat64"

subsection \<open>Operations\<close>

fun flt :: "gofloat \<Rightarrow> gofloat \<Rightarrow> bool" where
  "flt (Fin a) (Fin b) \<longleftrightarrow> a < b"
| "flt (Fin _) PInf \<longleftrightarrow> True"
| "flt NInf (Fin _) \<longleftrightarrow> True"
| "flt NInf PInf \<longleftrightarrow> True"
| "flt _ _ \<longleftrightarrow> False"

definition feq :: "gofloat \<Rightarrow> gofloat \<Rightarrow> bool" where
  "feq a b \<longleftrightarrow> a = b \<and> a \<noteq> NaN"

definition fle :: "gofloat \<Rightarrow> gofloat \<Rightarrow> bool" where
  "fle a b \<longleftrightarrow> flt a b \<or> feq a b"

fun fneg :: "gofloat \<Rightarrow> gofloat" where
  "fneg (Fin a) = Fin (- a)"
| "fneg PInf = NInf"
| "fneg NInf = PInf"
| "fneg NaN = NaN"

fun fadd :: "(rat \<Rightarrow> gofloat) \<Rightarrow> gofloat \<Rightarrow> gofloat \<Rightarrow> gofloat" where
  "fadd rnd (Fin a) (Fin b) = rnd (a + b)"
| "fadd rnd NaN _ = NaN"
| "fadd rnd _ NaN = NaN"
| "fadd rnd PInf NInf = NaN"
| "fadd rnd NInf PInf = NaN"
| "fadd rnd PInf _ = PInf"
| "fadd rnd _ PInf = PInf"
| "fadd rnd NInf _ = NInf"
| "fadd rnd _ NInf = NInf"

definition fsub :: "(rat \<Rightarrow> gofloat) \<Rightarrow> gofloat \<Rightarrow> gofloat \<Rightarrow> gofloat" where
  "fsub rnd a b = fadd rnd a (fneg b)"

definition inf_sign :: "rat \<Rightarrow> gofloat" where
  "inf_sign q = (if 0 < q then PInf else if q < 0 then NInf else NaN)"

fun fmul :: "(rat \<Rightarrow> gofloat) \<Rightarrow> gofloat \<Rightarrow> gofloat \<Rightarrow> gofloat" where
  "fmul rnd (Fin a) (Fin b) = rnd (a * b)"
| "fmul rnd NaN _ = NaN"
| "fmul rnd _ NaN = NaN"
| "fmul rnd PInf PInf = PInf"
| "fmul rnd PInf NInf = NInf"
| "fmul rnd NInf PInf = NInf"
| "fmul rnd NInf NInf = PInf"
| "fmul rnd PInf (Fin b) = inf_sign b"
| "fmul rnd NInf (Fin b) = inf_sign (- b)"
| "fmul rnd (Fin a) PInf = inf_sign a"
| "fmul rnd (Fin a) NInf = inf_sign (- a)"

fun fdiv :: "(rat \<Rightarrow> gofloat) \<Rightarrow> gofloat \<Rightarrow> gofloat \<Rightarrow> gofloat" where
  "fdiv rnd (Fin a) (Fin b) = (if b = 0 then inf_sign a else rnd (a / b))"
| "fdiv rnd NaN _ = NaN"
| "fdiv rnd _ NaN = NaN"
| "fdiv rnd (Fin _) PInf = Fin 0"
| "fdiv rnd (Fin _) NInf = Fin 0"
| "fdiv rnd PInf (Fin b) = (if b < 0 then NInf else PInf)"
| "fdiv rnd NInf (Fin b) = (if b < 0 then PInf else NInf)"
| "fdiv rnd _ _ = NaN"

fun fconv :: "(rat \<Rightarrow> gofloat) \<Rightarrow> gofloat \<Rightarrow> gofloat" where
  "fconv rnd (Fin a) = rnd a"
| "fconv rnd x = x"

definition f32_of_int :: "int \<Rightarrow> f32" where "f32_of_int n = round32 (of_int n)"
definition f64_of_int :: "int \<Rightarrow> f64" where "f64_of_int n = round64 (of_int n)"

definition rat_trunc :: "rat \<Rightarrow> int" where
  "rat_trunc q = (if 0 \<le> q then \<lfloor>q\<rfloor> else - \<lfloor>- q\<rfloor>)"

fun float_to_int :: "nat \<Rightarrow> gofloat \<Rightarrow> int" where
  "float_to_int w (Fin q) =
     (let n = rat_trunc q in if - (2 ^ (w - 1)) \<le> n \<and> n < 2 ^ (w - 1) then n else - (2 ^ (w - 1)))"
| "float_to_int w _ = - (2 ^ (w - 1))"

definition i32_of_float :: "gofloat \<Rightarrow> i32" where "i32_of_float x = word_of_int (float_to_int 32 x)"
definition i64_of_float :: "gofloat \<Rightarrow> i64" where "i64_of_float x = word_of_int (float_to_int 64 x)"

subsection \<open>Order\<close>

lemma flt_irrefl [simp]: "\<not> flt a a"
  by (cases a) auto

lemma flt_asym: "flt a b \<Longrightarrow> \<not> flt b a"
  by (cases a; cases b) auto

lemma flt_trans: "flt a b \<Longrightarrow> flt b c \<Longrightarrow> flt a c"
  by (cases a; cases b; cases c) auto

lemma not_flt_trans: "b \<noteq> NaN \<Longrightarrow> \<not> flt a b \<Longrightarrow> \<not> flt b c \<Longrightarrow> \<not> flt a c"
  by (cases a; cases b; cases c) auto

lemma flt_total: "a \<noteq> NaN \<Longrightarrow> b \<noteq> NaN \<Longrightarrow> flt a b \<or> a = b \<or> flt b a"
  by (cases a; cases b) auto

lemma flt_NaN [simp]: "\<not> flt NaN a" "\<not> flt a NaN"
  by (cases a; simp)+

interpretation float_order: strict_weak_order flt "\<lambda>a. a \<noteq> NaN"
  by unfold_locales (auto dest: flt_asym not_flt_trans)

subsection \<open>Small integers are exact\<close>

lemma ilog2_bounds: "0 < n \<Longrightarrow> 2 ^ ilog2 n \<le> n \<and> n < 2 ^ Suc (ilog2 n)"
proof (induction n rule: ilog2.induct)
  case (1 n)
  show ?case
  proof (cases "n < 2")
    case True
    with "1.prems" show ?thesis by (simp add: ilog2.simps [of n])
  next
    case False
    with "1" have "2 ^ ilog2 (n div 2) \<le> n div 2 \<and> n div 2 < 2 ^ Suc (ilog2 (n div 2))" by simp
    with False show ?thesis by (simp add: ilog2.simps [of n]) linarith
  qed
qed

lemma round_half_even_int [simp]: "round_half_even (of_int n) = n"
  by (simp add: round_half_even_def)

lemma rat_log2_of_nat_le:
  assumes "0 < n" "n < 2 ^ p" "1 \<le> p"
  shows "rat_log2 (of_nat n) \<le> int p - 1"
proof -
  have "2 ^ ilog2 n \<le> n" using ilog2_bounds [OF assms(1)] by simp
  then have "(2::nat) ^ ilog2 n < 2 ^ p" using assms(2) by (rule le_less_trans)
  then have "ilog2 n < p" by simp
  moreover have "quotient_of (of_nat n) = (int n, 1)"
    using quotient_of_int [of "int n"] by simp
  moreover have "ilog2 (nat 1) = 0" by (simp add: ilog2.simps)
  ultimately show ?thesis by (simp add: rat_log2_def Let_def)
qed

text \<open>An integer below \<open>2^p\<close> in absolute value is a multiple of the unit in the last place.\<close>

lemma round_to_int:
  assumes "\<bar>n\<bar> < 2 ^ p" "1 \<le> p" "emin \<le> 0" "2 ^ p \<le> big"
  shows "round_to (int p) emin big (of_int n) = Fin (of_int n)"
proof (cases "n = 0")
  case False
  have abs: "\<bar>of_int n :: rat\<bar> = of_nat (nat \<bar>n\<bar>)" by simp
  have "rat_log2 \<bar>of_int n\<bar> \<le> int p - 1"
    unfolding abs using assms False by (intro rat_log2_of_nat_le) (auto simp: nat_less_iff)
  then obtain k :: nat where k: "max (rat_log2 \<bar>of_int n\<bar> - (int p - 1)) emin = - int k"
    using assms(3) by (metis diff_le_0_iff_le int_nat_eq max.bounded_iff minus_minus neg_0_le_iff_le nat_0_le)
  have u: "pow2 (- int k) = 1 / 2 ^ k" by (simp add: pow2_def)
  have "of_int n / (1 / 2 ^ k :: rat) = of_int (n * 2 ^ k)" by simp
  then have r: "of_int (round_half_even (of_int n / (1 / 2 ^ k))) * (1 / 2 ^ k :: rat) = of_int n"
    by (simp only: round_half_even_int) simp
  have "\<bar>of_int n :: rat\<bar> < 2 ^ p" using assms(1) by (metis of_int_abs of_int_less_iff of_int_numeral of_int_power)
  then have "of_int n \<le> big" "- big \<le> of_int n" using assms(4) by auto
  with False r k u show ?thesis by (simp add: round_to_def Let_def)
qed (simp add: round_to_def)

lemma f32_of_int_exact: "\<bar>n\<bar> < 2 ^ 24 \<Longrightarrow> f32_of_int n = Fin (of_int n)"
  using round_to_int [of n 24 "- 149" MaxFloat32]
  by (simp add: f32_of_int_def round32_def MaxFloat32_def)

lemma f64_of_int_exact: "\<bar>n\<bar> < 2 ^ 53 \<Longrightarrow> f64_of_int n = Fin (of_int n)"
  using round_to_int [of n 53 "- 1074" MaxFloat64]
  by (simp add: f64_of_int_def round64_def MaxFloat64_def)

lemma round_to_not_NaN [simp]: "round_to p emin big q \<noteq> NaN"
  by (simp add: round_to_def Let_def)

lemma f32_of_int_not_NaN [simp]: "f32_of_int n \<noteq> NaN"
  by (simp add: f32_of_int_def round32_def)

lemma round32_not_NaN [simp]: "round32 q \<noteq> NaN"
  by (simp add: round32_def)

lemma i32_of_f32_exact:
  assumes "\<bar>n\<bar> < 2 ^ 24"
  shows "i32_of_float (f32_of_int n) = word_of_int n"
  using assms by (simp add: f32_of_int_exact i32_of_float_def rat_trunc_def Let_def flip: of_int_minus) auto

end
