(* ===== verification/Scheduler_Config.thy ===== *)
theory Scheduler_Config
  imports Core_Types Go_Float
begin

text \<open>
  The scheduler's configuration: the fields of \<open>SchedulerConfig\<close> (\<open>cmd/scheduler/app/options\<close>,
  \<open>cmd/config\<close>) that the policies read, the names of \<open>pkg/consts\<close> they refer to, and the check of
  \<open>pkg/scheduler/policy/utils.go\<close> that a policy runs on its configuration before it is built.
  Addresses, credentials and file paths are not kept.  A panic is \<open>None\<close>.
\<close>

subsection \<open>Names (pkg/consts)\<close>

definition SchedulingPolicyLoadBalance :: string where "SchedulingPolicyLoadBalance = ''load-balance''"
definition SchedulingPolicyFlood :: string where "SchedulingPolicyFlood = ''flood''"
definition SchedulingPolicySlo :: string where "SchedulingPolicySlo = ''slo''"
definition SchedulingMetricKVCacheUsageRatioProjected :: string where "SchedulingMetricKVCacheUsageRatioProjected = ''kv_cache_usage_ratio_projected''"
definition SchedulingMetricDecodeBatchSize :: string where "SchedulingMetricDecodeBatchSize = ''decode_batch_size''"
definition SchedulingMetricNumWaitingRequests :: string where "SchedulingMetricNumWaitingRequests = ''num_waiting_requests''"
definition SchedulingMetricAllPrefillsTokensNum :: string where "SchedulingMetricAllPrefillsTokensNum = ''all_prefills_tokens_num''"
definition SchedulingMetricKVCacheHitLen :: string where "SchedulingMetricKVCacheHitLen = ''kv_cache_hit_len''"
definition SchedulingMetricCacheAwareAllPrefillsTokensNum :: string where "SchedulingMetricCacheAwareAllPrefillsTokensNum = ''cache_aware_all_prefills_tokens_num''"
definition SchedulingMetricNumRequests :: string where "SchedulingMetricNumRequests = ''num_requests''"
definition SchedulingMetricAllDecodesTokensNum :: string where "SchedulingMetricAllDecodesTokensNum = ''all_decodes_tokens_num''"
definition SchedulingMetricNumTokens :: string where "SchedulingMetricNumTokens = ''num_tokens''"
definition SchedulingMetricPredictedTtft :: string where "SchedulingMetricPredictedTtft = ''predicted_ttft''"
definition SchedulingMetricPredictedTpot :: string where "SchedulingMetricPredictedTpot = ''predicted_tpot''"
definition FailoverDomainInstanceUnit :: string where "FailoverDomainInstanceUnit = ''instance-unit''"
definition FailoverDomainNodeUnit :: string where "FailoverDomainNodeUnit = ''node-unit''"
definition FailoverDomainNode :: string where "FailoverDomainNode = ''node''"
definition FailoverDomainInstance :: string where "FailoverDomainInstance = ''instance''"
definition ReschedulingPolicyNeutralLoad :: string where "ReschedulingPolicyNeutralLoad = ''neutral_load''"
definition ReschedulingPolicyDecodeLoad :: string where "ReschedulingPolicyDecodeLoad = ''decode_load''"
definition ReschedulingPolicyPrefillFailover :: string where "ReschedulingPolicyPrefillFailover = ''prefill_failover''"
definition ReschedulingPolicyDecodeFailover :: string where "ReschedulingPolicyDecodeFailover = ''decode_failover''"
definition ReschedulingPolicyNeutralFailover :: string where "ReschedulingPolicyNeutralFailover = ''neutral_failover''"
definition ReschedulingPolicyBinPackingMitigation :: string where "ReschedulingPolicyBinPackingMitigation = ''binpacking_mitigation''"
definition ReschedulingPolicyBinPackingConsolidation :: string where "ReschedulingPolicyBinPackingConsolidation = ''binpacking_consolidation''"
definition ReschedulingLoadBalanceScopeCluster :: string where "ReschedulingLoadBalanceScopeCluster = ''cluster''"
definition ReschedulingLoadBalanceScopeUnit :: string where "ReschedulingLoadBalanceScopeUnit = ''unit''"
definition AttrKeyReservedInferType :: string where "AttrKeyReservedInferType = ''ReservedInferType''"

lemmas policy_names =
  SchedulingPolicyLoadBalance_def SchedulingPolicyFlood_def SchedulingPolicySlo_def

lemmas metric_names =
  SchedulingMetricKVCacheUsageRatioProjected_def SchedulingMetricDecodeBatchSize_def
  SchedulingMetricNumWaitingRequests_def SchedulingMetricAllPrefillsTokensNum_def
  SchedulingMetricKVCacheHitLen_def SchedulingMetricCacheAwareAllPrefillsTokensNum_def
  SchedulingMetricNumRequests_def SchedulingMetricAllDecodesTokensNum_def
  SchedulingMetricNumTokens_def SchedulingMetricPredictedTtft_def
  SchedulingMetricPredictedTpot_def

lemmas failover_domains =
  FailoverDomainInstanceUnit_def FailoverDomainNodeUnit_def FailoverDomainNode_def
  FailoverDomainInstance_def

lemmas rescheduling_names =
  ReschedulingPolicyNeutralLoad_def ReschedulingPolicyDecodeLoad_def
  ReschedulingPolicyPrefillFailover_def ReschedulingPolicyDecodeFailover_def
  ReschedulingPolicyNeutralFailover_def ReschedulingPolicyBinPackingMitigation_def
  ReschedulingPolicyBinPackingConsolidation_def ReschedulingLoadBalanceScopeCluster_def
  ReschedulingLoadBalanceScopeUnit_def

subsection \<open>The configuration\<close>

record SchedulerConfig =
  cfg_EnableFullModeScheduling :: bool
  cfg_SchedulingPolicy :: string
  cfg_EnableCacheAwareScheduling :: bool
  cfg_CacheAwareSchedulingMinTokens :: i64
  cfg_KvsChunkSize :: i64
  cfg_DispatchTopK :: i64
  cfg_DispatchNeutralLoadMetric :: string
  cfg_DispatchNeutralLoadThreshold :: f32
  cfg_DispatchPrefillLoadMetric :: string
  cfg_DispatchPrefillLoadThreshold :: f32
  cfg_DispatchDecodeLoadMetric :: string
  cfg_DispatchDecodeLoadThreshold :: f32
  cfg_DispatchPrefillCacheLocalityMetric :: string
  cfg_EnableInstanceStatusLocalAccount :: bool
  cfg_AllowConcurrentScheduling :: bool
  cfg_EnablePredictorEnhancedScheduling :: bool
  cfg_MaxNumBatchedTokens :: i64
  cfg_TtftSlo :: f32
  cfg_TpotSlo :: f32
  cfg_TtftSloDispatchThreshold :: f32
  cfg_TpotSloDispatchThreshold :: f32
  cfg_TpotMigrateOutCeilThreshold :: f32
  cfg_EnableAdaptivePD :: bool
  cfg_TpotMigrateOutFloorThreshold :: f32
  cfg_FailoverDomain :: string
  cfg_InstanceStalenessSeconds :: i64
  cfg_EnableRescheduling :: bool
  cfg_ReschedulingPolicies :: string
  cfg_ReschedulingIntervalMs :: i32
  cfg_ReschedulingDecodeLoadMetric :: string
  cfg_ReschedulingDecodeLoadThreshold :: f32
  cfg_ReschedulingPrefillLoadMetric :: string
  cfg_ReschedulingNeutralLoadMetric :: string
  cfg_ReschedulingNeutralLoadThreshold :: f32
  cfg_ReschedulingReqSelectOrder :: string
  cfg_ReschedulingReqSelectRule :: string
  cfg_ReschedulingReqSelectValue :: f32
  cfg_ReschedulingLoadBalanceThreshold :: f32
  cfg_ReschedulingLoadBalanceScope :: string
  cfg_LlumletGrpcTimeoutSeconds :: i64

text \<open>The default of every flag.\<close>

definition default_config :: SchedulerConfig where
  "default_config =
     \<lparr>cfg_EnableFullModeScheduling = True, cfg_SchedulingPolicy = SchedulingPolicyLoadBalance,
      cfg_EnableCacheAwareScheduling = False, cfg_CacheAwareSchedulingMinTokens = 1024,
      cfg_KvsChunkSize = 256, cfg_DispatchTopK = 1,
      cfg_DispatchNeutralLoadMetric = SchedulingMetricAllPrefillsTokensNum,
      cfg_DispatchNeutralLoadThreshold = Fin 8192,
      cfg_DispatchPrefillLoadMetric = SchedulingMetricAllPrefillsTokensNum,
      cfg_DispatchPrefillLoadThreshold = Fin 2048,
      cfg_DispatchDecodeLoadMetric = SchedulingMetricKVCacheUsageRatioProjected,
      cfg_DispatchDecodeLoadThreshold = Fin 1,
      cfg_DispatchPrefillCacheLocalityMetric = SchedulingMetricCacheAwareAllPrefillsTokensNum,
      cfg_EnableInstanceStatusLocalAccount = True, cfg_AllowConcurrentScheduling = False,
      cfg_EnablePredictorEnhancedScheduling = False, cfg_MaxNumBatchedTokens = 65536,
      cfg_TtftSlo = Fin 6000, cfg_TpotSlo = Fin 50,
      cfg_TtftSloDispatchThreshold = round32 (85 / 100),
      cfg_TpotSloDispatchThreshold = round32 (85 / 100),
      cfg_TpotMigrateOutCeilThreshold = round32 (95 / 100), cfg_EnableAdaptivePD = False,
      cfg_TpotMigrateOutFloorThreshold = round32 (60 / 100),
      cfg_FailoverDomain = FailoverDomainInstanceUnit, cfg_InstanceStalenessSeconds = 60,
      cfg_EnableRescheduling = False,
      cfg_ReschedulingPolicies = ''decode_load,prefill_failover,decode_failover,neutral_failover'',
      cfg_ReschedulingIntervalMs = 500,
      cfg_ReschedulingDecodeLoadMetric = SchedulingMetricKVCacheUsageRatioProjected,
      cfg_ReschedulingDecodeLoadThreshold = Fin 1,
      cfg_ReschedulingPrefillLoadMetric = SchedulingMetricKVCacheUsageRatioProjected,
      cfg_ReschedulingNeutralLoadMetric = SchedulingMetricKVCacheUsageRatioProjected,
      cfg_ReschedulingNeutralLoadThreshold = Fin 1, cfg_ReschedulingReqSelectOrder = ''SR'',
      cfg_ReschedulingReqSelectRule = ''TOKEN'', cfg_ReschedulingReqSelectValue = Fin 1024,
      cfg_ReschedulingLoadBalanceThreshold = round32 (7 / 10),
      cfg_ReschedulingLoadBalanceScope = ReschedulingLoadBalanceScopeCluster,
      cfg_LlumletGrpcTimeoutSeconds = - 1\<rparr>"

subsection \<open>Checks (policy/utils.go)\<close>

definition verifySchedulingPolicy :: "SchedulerConfig \<Rightarrow> bool" where
  "verifySchedulingPolicy c \<longleftrightarrow>
     (if \<not> cfg_EnableFullModeScheduling c then cfg_SchedulingPolicy c \<in> set [SchedulingPolicyLoadBalance]
      else cfg_SchedulingPolicy c \<in> set [SchedulingPolicyLoadBalance, SchedulingPolicyFlood, SchedulingPolicySlo])"

definition verifySchedulingFeature :: "SchedulerConfig \<Rightarrow> SchedulerConfig" where
  "verifySchedulingFeature c =
     (if \<not> cfg_EnableFullModeScheduling c
      then c\<lparr>cfg_EnableCacheAwareScheduling := False, cfg_EnablePredictorEnhancedScheduling := False,
             cfg_EnableAdaptivePD := False, cfg_EnableRescheduling := False,
             cfg_EnableInstanceStatusLocalAccount := False\<rparr>
      else c)"

definition liteModeSchedulingMetricSet :: "string list" where
  "liteModeSchedulingMetricSet = [SchedulingMetricNumRequests, SchedulingMetricNumTokens]"

definition fullModeSchedulingMetricSet :: "string list" where
  "fullModeSchedulingMetricSet =
     [SchedulingMetricKVCacheUsageRatioProjected, SchedulingMetricDecodeBatchSize,
      SchedulingMetricNumWaitingRequests, SchedulingMetricAllPrefillsTokensNum,
      SchedulingMetricKVCacheHitLen, SchedulingMetricCacheAwareAllPrefillsTokensNum,
      SchedulingMetricNumRequests, SchedulingMetricAllDecodesTokensNum]"

definition supported_or :: "string list \<Rightarrow> string \<Rightarrow> string \<Rightarrow> string" where
  "supported_or names def name = (if name \<in> set names then name else def)"

definition verifyDispatchLoadMetric :: "SchedulerConfig \<Rightarrow> SchedulerConfig" where
  "verifyDispatchLoadMetric c =
     (if \<not> cfg_EnableFullModeScheduling c
      then let fix_metric = supported_or liteModeSchedulingMetricSet SchedulingMetricNumTokens
           in c\<lparr>cfg_DispatchNeutralLoadMetric := fix_metric (cfg_DispatchNeutralLoadMetric c),
                cfg_DispatchPrefillLoadMetric := fix_metric (cfg_DispatchPrefillLoadMetric c),
                cfg_DispatchDecodeLoadMetric := fix_metric (cfg_DispatchDecodeLoadMetric c)\<rparr>
      else let fix_metric = supported_or fullModeSchedulingMetricSet
           in c\<lparr>cfg_DispatchNeutralLoadMetric :=
                  fix_metric SchedulingMetricKVCacheUsageRatioProjected (cfg_DispatchNeutralLoadMetric c),
                cfg_DispatchPrefillLoadMetric :=
                  fix_metric SchedulingMetricAllPrefillsTokensNum (cfg_DispatchPrefillLoadMetric c),
                cfg_DispatchDecodeLoadMetric :=
                  fix_metric SchedulingMetricKVCacheUsageRatioProjected (cfg_DispatchDecodeLoadMetric c)\<rparr>)"

definition verifyConfig :: "SchedulerConfig \<Rightarrow> SchedulerConfig option" where
  "verifyConfig c =
     (if \<not> verifySchedulingPolicy c then None
      else Some (verifyDispatchLoadMetric (verifySchedulingFeature c)))"

end
