(* ===== verification/Predictor.thy ===== *)
theory Predictor
  imports Go_Float
begin

text \<open>
  The latency predictors: \<open>pkg/scheduler/predictor\<close> and the loops of
  \<open>pkg/scheduler/policy/predict_utils.go\<close> that call them.

  The bilinear predictor keeps profiled points in a Go map keyed by two floats; a key is found by
  \<open>==\<close>, so NaN is never found.  The quadratic predictor solves a least-squares problem with a
  third-party library; the solver is an argument.  Both loops may run forever, so they are partial
  functions and not returning is \<open>None\<close>.  Products and sums are rounded one by one, as on amd64
  without fused instructions.

  Lemmas: the predictor is exact at profiled points and answers only inside a profiled cell; the
  chunked prefill estimate is the sum over the chunks, and it never ends for a chunk size of zero.
\<close>

subsection \<open>Bilinear interpolation (interpolation\_predictor.go)\<close>

record InterpolationPredictor =
  ip_data :: "((f64 \<times> f64) \<times> f64) list"
  ip_aValues :: "f64 list"
  ip_bValues :: "f64 list"

definition NewInterpolationPredictor :: InterpolationPredictor where
  "NewInterpolationPredictor = \<lparr>ip_data = [], ip_aValues = [], ip_bValues = []\<rparr>"

definition point_eq :: "f64 \<times> f64 \<Rightarrow> f64 \<times> f64 \<Rightarrow> bool" where
  "point_eq p q \<longleftrightarrow> feq (fst p) (fst q) \<and> feq (snd p) (snd q)"

fun put_point :: "f64 \<times> f64 \<Rightarrow> f64 \<Rightarrow> ((f64 \<times> f64) \<times> f64) list \<Rightarrow> ((f64 \<times> f64) \<times> f64) list" where
  "put_point p v [] = [(p, v)]"
| "put_point p v ((q, w) # m) = (if point_eq q p then (q, v) # m else (q, w) # put_point p v m)"

fun get_point :: "((f64 \<times> f64) \<times> f64) list \<Rightarrow> f64 \<times> f64 \<Rightarrow> f64 option" where
  "get_point [] p = None"
| "get_point ((q, w) # m) p = (if point_eq q p then Some w else get_point m p)"

definition put_value :: "f64 \<Rightarrow> f64 list \<Rightarrow> f64 list" where
  "put_value x xs = (if list_ex (\<lambda>y. feq y x) xs then xs else xs @ [x])"

definition ip_AddSample :: "f64 \<Rightarrow> f64 \<Rightarrow> f64 \<Rightarrow> InterpolationPredictor \<Rightarrow> InterpolationPredictor" where
  "ip_AddSample a b v p =
     p\<lparr>ip_data := put_point (a, b) v (ip_data p),
       ip_aValues := put_value a (ip_aValues p),
       ip_bValues := put_value b (ip_bValues p)\<rparr>"

definition axis_step :: "f64 \<Rightarrow> f64 \<times> f64 \<times> bool \<Rightarrow> f64 \<Rightarrow> f64 \<times> f64 \<times> bool" where
  "axis_step x s v =
     (let (lo, hi, found) = s;
          (lo, found) = (if fle v x \<and> flt lo v then (v, True) else (lo, found));
          (hi, found) = (if fle x v \<and> flt v hi then (v, True) else (hi, found))
      in (lo, hi, found))"

definition axis_bounds :: "f64 \<Rightarrow> f64 list \<Rightarrow> f64 \<times> f64 \<times> bool" where
  "axis_bounds x vs = foldl (axis_step x) (NInf, PInf, False) vs"

definition findBoundingBox ::
  "InterpolationPredictor \<Rightarrow> f64 \<Rightarrow> f64 \<Rightarrow> (f64 \<times> f64 \<times> f64 \<times> f64) option" where
  "findBoundingBox p a b =
     (let (a1, a2, foundA) = axis_bounds a (ip_aValues p);
          (b1, b2, foundB) = axis_bounds b (ip_bValues p)
      in if \<not> foundA \<or> \<not> foundB then None else Some (a1, a2, b1, b2))"

fun fabs :: "gofloat \<Rightarrow> gofloat" where
  "fabs (Fin q) = Fin \<bar>q\<bar>"
| "fabs NaN = NaN"
| "fabs _ = PInf"

definition epsilon :: f64 where
  "epsilon = round64 (1 / 10 ^ 10)"

abbreviation add64 :: "f64 \<Rightarrow> f64 \<Rightarrow> f64" where "add64 \<equiv> fadd round64"
abbreviation sub64 :: "f64 \<Rightarrow> f64 \<Rightarrow> f64" where "sub64 \<equiv> fsub round64"
abbreviation mul64 :: "f64 \<Rightarrow> f64 \<Rightarrow> f64" where "mul64 \<equiv> fmul round64"
abbreviation div64 :: "f64 \<Rightarrow> f64 \<Rightarrow> f64" where "div64 \<equiv> fdiv round64"

definition blend :: "f64 \<Rightarrow> f64 \<Rightarrow> f64 \<Rightarrow> f64" where
  "blend w x y = add64 (mul64 (sub64 (Fin 1) w) x) (mul64 w y)"

definition interpolate ::
  "f64 \<Rightarrow> f64 \<Rightarrow> f64 \<times> f64 \<times> f64 \<times> f64 \<Rightarrow> f64 \<Rightarrow> f64 \<Rightarrow> f64 \<Rightarrow> f64 \<Rightarrow> f64" where
  "interpolate a b box z11 z12 z21 z22 =
     (let (a1, a2, b1, b2) = box;
          flatA = flt (fabs (sub64 a2 a1)) epsilon;
          flatB = flt (fabs (sub64 b2 b1)) epsilon;
          wa = div64 (sub64 a a1) (sub64 a2 a1);
          wb = div64 (sub64 b b1) (sub64 b2 b1);
          va = sub64 (Fin 1) wa;
          vb = sub64 (Fin 1) wb
      in if flatA \<and> flatB then z11
         else if flatA then blend wb z11 z12
         else if flatB then blend wa z11 z21
         else add64 (add64 (add64 (mul64 (mul64 va vb) z11) (mul64 (mul64 va wb) z12))
                (mul64 (mul64 wa vb) z21)) (mul64 (mul64 wa wb) z22))"

definition ip_Predict :: "InterpolationPredictor \<Rightarrow> f64 \<Rightarrow> f64 \<Rightarrow> f64 option" where
  "ip_Predict p a b =
     (if feq a (Fin 0) \<and> feq b (Fin 0) then Some (Fin 0)
      else case findBoundingBox p a b of
             None \<Rightarrow> None
           | Some (a1, a2, b1, b2) \<Rightarrow>
               (case (get_point (ip_data p) (a1, b1), get_point (ip_data p) (a1, b2),
                      get_point (ip_data p) (a2, b1), get_point (ip_data p) (a2, b2)) of
                  (Some z11, Some z12, Some z21, Some z22) \<Rightarrow>
                    Some (interpolate a b (a1, a2, b1, b2) z11 z12 z21 z22)
                | _ \<Rightarrow> None))"

subsection \<open>Quadratic fit (quadratic\_predictor.go)\<close>

record QuadraticPredictor =
  qp_xs :: "f64 list"
  qp_ys :: "f64 list"
  qp_a :: f64
  qp_b :: f64
  qp_c :: f64
  qp_fitted :: bool
  qp_numWarmupSamples :: i64

definition NewQuadraticPredictor :: "i64 \<Rightarrow> QuadraticPredictor" where
  "NewQuadraticPredictor n =
     \<lparr>qp_xs = [], qp_ys = [], qp_a = Fin 0, qp_b = Fin 0, qp_c = Fin 0, qp_fitted = False,
      qp_numWarmupSamples = n\<rparr>"

definition qp_AddSample :: "f64 \<Rightarrow> f64 \<Rightarrow> QuadraticPredictor \<Rightarrow> QuadraticPredictor" where
  "qp_AddSample x y q = q\<lparr>qp_xs := qp_xs q @ [x], qp_ys := qp_ys q @ [y], qp_fitted := False\<rparr>"

definition ReadyForFit :: "QuadraticPredictor \<Rightarrow> bool" where
  "ReadyForFit q \<longleftrightarrow> sint (qp_numWarmupSamples q) \<le> int (length (qp_xs q))"

text \<open>The solver of \<open>gonum/mat\<close>: rows of the matrix, right-hand side and rank give the solution
  and the condition number, or nothing when the factorization fails.\<close>

type_synonym solver = "f64 list list \<Rightarrow> f64 list \<Rightarrow> nat \<Rightarrow> (f64 list \<times> f64) option"

definition ill_conditioned :: "rat \<Rightarrow> f64 \<Rightarrow> bool" where
  "ill_conditioned limit cond \<longleftrightarrow> flt (Fin limit) cond \<or> cond = NaN \<or> cond = PInf \<or> cond = NInf"

definition fitQuadratic :: "solver \<Rightarrow> QuadraticPredictor \<Rightarrow> QuadraticPredictor option" where
  "fitQuadratic svd q =
     (if length (qp_xs q) < 3 then None
      else case svd (map (\<lambda>x. [mul64 x x, x, Fin 1]) (qp_xs q)) (qp_ys q) 3 of
             None \<Rightarrow> None
           | Some (p, cond) \<Rightarrow>
               if ill_conditioned (10 ^ 8) cond then None
               else Some (q\<lparr>qp_a := p ! 0, qp_b := p ! 1, qp_c := p ! 2\<rparr>))"

definition fitLinear :: "solver \<Rightarrow> QuadraticPredictor \<Rightarrow> QuadraticPredictor option" where
  "fitLinear svd q =
     (if length (qp_xs q) < 2 then None
      else case svd (map (\<lambda>x. [x, Fin 1]) (qp_xs q)) (qp_ys q) 2 of
             None \<Rightarrow> None
           | Some (p, cond) \<Rightarrow>
               if ill_conditioned (10 ^ 12) cond then None
               else Some (q\<lparr>qp_a := Fin 0, qp_b := p ! 0, qp_c := p ! 1\<rparr>))"

definition fitConstant :: "QuadraticPredictor \<Rightarrow> QuadraticPredictor" where
  "fitConstant q =
     (if qp_ys q = [] then q\<lparr>qp_a := Fin 0, qp_b := Fin 0, qp_c := Fin 0\<rparr>
      else q\<lparr>qp_a := Fin 0, qp_b := Fin 0,
             qp_c := div64 (foldl add64 (Fin 0) (qp_ys q)) (f64_of_int (int (length (qp_ys q))))\<rparr>)"

definition Fit :: "solver \<Rightarrow> QuadraticPredictor \<Rightarrow> QuadraticPredictor option" where
  "Fit svd q =
     (if \<not> ReadyForFit q then None
      else case fitQuadratic svd q of
             Some q' \<Rightarrow> Some (q'\<lparr>qp_fitted := True\<rparr>)
           | None \<Rightarrow>
               (case fitLinear svd q of
                  Some q' \<Rightarrow> Some (q'\<lparr>qp_fitted := True\<rparr>)
                | None \<Rightarrow> Some ((fitConstant q)\<lparr>qp_fitted := True\<rparr>)))"

definition qp_Predict :: "QuadraticPredictor \<Rightarrow> f64 \<Rightarrow> f64 option" where
  "qp_Predict q x =
     (if \<not> qp_fitted q then None
      else Some (add64 (add64 (mul64 (mul64 (qp_a q) x) x) (mul64 (qp_b q) x)) (qp_c q)))"

subsection \<open>Latency of a chunked prefill (predict\_utils.go)\<close>

record LatencyPredictor =
  lp_ttft :: InterpolationPredictor
  lp_tpot :: InterpolationPredictor

definition predictTpotLatency :: "LatencyPredictor \<Rightarrow> i32 \<Rightarrow> i32 \<Rightarrow> f64 option" where
  "predictTpotLatency lp reqs tokens =
     (if sint reqs \<le> 0 \<or> sint tokens \<le> 0 then Some (Fin 0)
      else let perReq = div64 (f64_of_int (sint tokens)) (f64_of_int (sint reqs));
               perReq = (if flt perReq (Fin 8) then Fin 8 else perReq)
           in ip_Predict (lp_tpot lp) (f64_of_int (sint reqs)) perReq)"

fun fmin :: "gofloat \<Rightarrow> gofloat \<Rightarrow> gofloat" where
  "fmin NaN _ = NaN"
| "fmin _ NaN = NaN"
| "fmin a b = (if flt b a then b else a)"

partial_function (option) chunk_loop ::
  "InterpolationPredictor \<Rightarrow> f64 \<Rightarrow> f64 \<Rightarrow> f64 \<Rightarrow> f64 \<Rightarrow> f64 option option" where
  [code]: "chunk_loop p maxBatched decodeStep remaining acc =
     (if flt (Fin 0) remaining
      then let cur = fmin remaining maxBatched;
               remaining' = sub64 remaining cur
           in (case ip_Predict p cur (Fin 0) of
                 None \<Rightarrow> Some None
               | Some step \<Rightarrow>
                   chunk_loop p maxBatched decodeStep remaining' (add64 (add64 acc step) decodeStep))
      else Some (Some acc))"

text \<open>The outer option is the loop not returning, the inner one the error of the Go function.\<close>

definition predictTtftLatencyByChunkPrefill ::
  "LatencyPredictor \<Rightarrow> i32 \<Rightarrow> i32 \<Rightarrow> i32 \<Rightarrow> f64 \<Rightarrow> f64 option option" where
  "predictTtftLatencyByChunkPrefill lp prefillTokens decodeReqs decodeTokens maxBatched =
     (case predictTpotLatency lp decodeReqs decodeTokens of
        None \<Rightarrow> Some None
      | Some decodeStep \<Rightarrow>
          chunk_loop (lp_ttft lp) maxBatched decodeStep (f64_of_int (sint prefillTokens)) (Fin 0))"

subsection \<open>Prefill progress since the last report (predict\_utils.go)\<close>

definition validateStepDurationMs :: "f64 \<Rightarrow> bool" where
  "validateStepDurationMs s \<longleftrightarrow>
     s \<noteq> NaN \<and> s \<noteq> PInf \<and> s \<noteq> NInf \<and> \<not> fle s (Fin 0) \<and>
     \<not> flt s (round64 (1 / 1000)) \<and> \<not> flt (Fin 1000000) s"

fun fround :: "gofloat \<Rightarrow> gofloat" where
  "fround (Fin q) = Fin (of_int (if 0 \<le> q then \<lfloor>q + 1 / 2\<rfloor> else - \<lfloor>1 / 2 - q\<rfloor>))"
| "fround x = x"

definition next_batch :: "i32 \<Rightarrow> i32 \<Rightarrow> i32 \<Rightarrow> i32 \<times> i32" where
  "next_batch maxBatched uncomputed running =
     (if 0 < sint running \<and> sint running < sint maxBatched then (running, 0)
      else (if sint maxBatched < sint uncomputed then maxBatched else uncomputed, running))"

text \<open>The loop ends with the tokens predicted as computed, the tokens left and the time left.\<close>

partial_function (option) prefill_loop ::
  "QuadraticPredictor \<Rightarrow> i32 \<Rightarrow> f64 \<Rightarrow> i32 \<Rightarrow> i32 \<Rightarrow> i32 \<Rightarrow> (i32 \<times> i32 \<times> f64) option" where
  [code]: "prefill_loop q maxBatched elapsed uncomputed running computed =
     (if flt (Fin 0) elapsed \<and> 0 < sint uncomputed
      then let cur = fst (next_batch maxBatched uncomputed running);
               running' = snd (next_batch maxBatched uncomputed running)
           in (case qp_Predict q (f64_of_int (sint cur)) of
                 None \<Rightarrow> Some (0, uncomputed, elapsed)
               | Some step \<Rightarrow>
                   if \<not> validateStepDurationMs step then Some (0, uncomputed, elapsed)
                   else if fle step elapsed
                   then prefill_loop q maxBatched (sub64 elapsed step) (uncomputed - cur) running' (computed + cur)
                   else prefill_loop q maxBatched (Fin 0) 0 running'
                          (computed + i32_of_float (fround (div64 (mul64 (f64_of_int (sint cur)) elapsed) step))))
      else Some (computed, uncomputed, elapsed))"

definition truncate_prediction :: "i32 \<times> i32 \<times> f64 \<Rightarrow> i32" where
  "truncate_prediction r =
     (let (computed, uncomputed, _) = r
      in if sint uncomputed < sint computed then uncomputed else computed)"

subsection \<open>The bilinear predictor\<close>

definition finite_float :: "gofloat \<Rightarrow> bool" where
  "finite_float x \<longleftrightarrow> x \<noteq> NaN \<and> x \<noteq> PInf \<and> x \<noteq> NInf"

lemma finite_floatE [elim]: "finite_float x \<Longrightarrow> (\<And>q. x = Fin q \<Longrightarrow> P) \<Longrightarrow> P"
  by (cases x) (auto simp: finite_float_def)

lemma finite_float_Fin [simp]: "finite_float (Fin q)"
  by (simp add: finite_float_def)

lemma feq_finite: "finite_float x \<Longrightarrow> feq x y \<longleftrightarrow> x = y"
  by (auto simp: feq_def finite_float_def)

text \<open>The neighbours of a coordinate: the largest profiled value not above it and the smallest not
  below it, or an infinity when there is none.\<close>

definition is_floor :: "f64 list \<Rightarrow> f64 \<Rightarrow> f64 \<Rightarrow> bool" where
  "is_floor vs x lo \<longleftrightarrow>
     (if list_ex (\<lambda>v. fle v x) vs
      then lo \<in> set vs \<and> fle lo x \<and> (\<forall>v\<in>set vs. fle v x \<longrightarrow> fle v lo) else lo = NInf)"

definition is_ceil :: "f64 list \<Rightarrow> f64 \<Rightarrow> f64 \<Rightarrow> bool" where
  "is_ceil vs x hi \<longleftrightarrow>
     (if list_ex (\<lambda>v. fle x v) vs
      then hi \<in> set vs \<and> fle x hi \<and> (\<forall>v\<in>set vs. fle x v \<longrightarrow> fle hi v) else hi = PInf)"

lemma fle_Fin [simp]: "fle (Fin a) (Fin b) \<longleftrightarrow> a \<le> b"
  by (auto simp: fle_def feq_def)

lemma axis_bounds_snoc: "axis_bounds x (vs @ [v]) = axis_step x (axis_bounds x vs) v"
  by (simp add: axis_bounds_def)

lemma axis_bounds_spec:
  assumes "\<forall>v\<in>set vs. finite_float v" "axis_bounds (Fin x) vs = (lo, hi, found)"
  shows "is_floor vs (Fin x) lo \<and> is_ceil vs (Fin x) hi \<and> (found \<longleftrightarrow> vs \<noteq> [])"
  using assms
proof (induction vs arbitrary: lo hi found rule: rev_induct)
  case Nil
  then show ?case by (simp add: axis_bounds_def is_floor_def is_ceil_def)
next
  case (snoc v vs)
  obtain lo' hi' found' where prev: "axis_bounds (Fin x) vs = (lo', hi', found')" by (cases "axis_bounds (Fin x) vs")
  from snoc.prems obtain q where v: "v = Fin q" by auto
  from snoc.IH [OF _ prev] snoc.prems(1)
  have IH: "is_floor vs (Fin x) lo'" "is_ceil vs (Fin x) hi'" "found' \<longleftrightarrow> vs \<noteq> []" by auto
  have step: "axis_step (Fin x) (lo', hi', found') v = (lo, hi, found)"
    using snoc.prems(2) by (simp add: axis_bounds_snoc prev)
  have fin: "lo' \<in> set vs \<Longrightarrow> \<exists>r. lo' = Fin r" "hi' \<in> set vs \<Longrightarrow> \<exists>r. hi' = Fin r"
    using snoc.prems(1) by (auto elim!: finite_floatE)
  have "is_floor (vs @ [v]) (Fin x) lo"
    using step IH(1) fin(1) snoc.prems(1)
    by (fastforce simp: axis_step_def is_floor_def v Let_def list_ex_iff split: if_splits elim!: finite_floatE)
  moreover have "is_ceil (vs @ [v]) (Fin x) hi"
    using step IH(2) fin(2) snoc.prems(1)
    by (fastforce simp: axis_step_def is_ceil_def v Let_def list_ex_iff split: if_splits elim!: finite_floatE)
  moreover have "found"
    using step IH fin
    by (auto simp: axis_step_def is_floor_def is_ceil_def v Let_def list_ex_iff split: if_splits)
  ultimately show ?case by simp
qed

lemma finite_float_iff: "finite_float x \<longleftrightarrow> (\<exists>q. x = Fin q)"
  by (cases x) (auto simp: finite_float_def)

text \<open>A predictor filled with profiled points; the last value of a point counts.\<close>

definition profile :: "(f64 \<times> f64 \<times> f64) list \<Rightarrow> InterpolationPredictor" where
  "profile ss = foldl (\<lambda>p (a, b, v). ip_AddSample a b v p) NewInterpolationPredictor ss"

definition profiled :: "(f64 \<times> f64 \<times> f64) list \<Rightarrow> f64 \<times> f64 \<Rightarrow> f64 option" where
  "profiled ss p = map_of (rev (map (\<lambda>(a, b, v). ((a, b), v)) ss)) p"

definition finite_samples :: "(f64 \<times> f64 \<times> f64) list \<Rightarrow> bool" where
  "finite_samples ss \<longleftrightarrow> (\<forall>(a, b, v)\<in>set ss. finite_float a \<and> finite_float b)"

lemma profile_snoc: "profile (ss @ [(a, b, v)]) = ip_AddSample a b v (profile ss)"
  by (simp add: profile_def)

lemma set_put_value: "finite_float x \<Longrightarrow> set (put_value x xs) = insert x (set xs)"
  by (auto simp: put_value_def list_ex_iff feq_def finite_float_def)

lemma get_put_point:
  assumes "finite_float a" "finite_float b"
  shows "get_point (put_point (a, b) v m) p = (if p = (a, b) then Some v else get_point m p)"
  using assms by (induction m) (auto simp: point_eq_def feq_def finite_float_def)

lemma profile_facts:
  assumes "finite_samples ss"
  shows "get_point (ip_data (profile ss)) p = profiled ss p"
    "set (ip_aValues (profile ss)) = (\<lambda>(a, b, v). a) ` set ss"
    "set (ip_bValues (profile ss)) = (\<lambda>(a, b, v). b) ` set ss"
proof -
  have "get_point (ip_data (profile ss)) p = profiled ss p \<and>
    set (ip_aValues (profile ss)) = (\<lambda>(a, b, v). a) ` set ss \<and>
    set (ip_bValues (profile ss)) = (\<lambda>(a, b, v). b) ` set ss"
    using assms
  proof (induction ss rule: rev_induct)
    case Nil
    then show ?case by (simp add: profile_def profiled_def NewInterpolationPredictor_def)
  next
    case (snoc s ss)
    obtain a b v where s: "s = (a, b, v)" by (cases s)
    from snoc.prems have fin: "finite_float a" "finite_float b" "finite_samples ss"
      by (auto simp: finite_samples_def s)
    show ?case using snoc.IH [OF fin(3)] fin
      by (auto simp: s profile_snoc ip_AddSample_def get_put_point set_put_value profiled_def)
  qed
  then show "get_point (ip_data (profile ss)) p = profiled ss p"
    "set (ip_aValues (profile ss)) = (\<lambda>(a, b, v). a) ` set ss"
    "set (ip_bValues (profile ss)) = (\<lambda>(a, b, v). b) ` set ss" by auto
qed

lemma profiled_finite:
  assumes "finite_samples ss" "profiled ss (a, b) = Some v"
  shows "finite_float a" "finite_float b" "a \<in> (\<lambda>(a, b, v). a) ` set ss" "b \<in> (\<lambda>(a, b, v). b) ` set ss"
proof -
  from map_of_SomeD [OF assms(2) [unfolded profiled_def]]
  have mem: "(a, b, v) \<in> set ss" by (auto simp: split_beta)
  then show "finite_float a" "finite_float b" using assms(1) by (auto simp: finite_samples_def)
  from mem show "a \<in> (\<lambda>(a, b, v). a) ` set ss" "b \<in> (\<lambda>(a, b, v). b) ` set ss" by force+
qed

lemma round_to_pos:
  assumes "0 < q" "pow2 (max (rat_log2 \<bar>q\<bar> - (p - 1)) emin) \<le> q" "0 \<le> big"
  shows "flt (Fin 0) (round_to p emin big q)"
proof -
  define u where "u = pow2 (max (rat_log2 \<bar>q\<bar> - (p - 1)) emin)"
  have u: "0 < u" "u \<le> q" using assms(2) by (simp_all add: u_def pow2_def)
  then have "1 \<le> \<lfloor>q / u\<rfloor>" by (simp add: le_floor_iff)
  then have "1 \<le> round_half_even (q / u)" by (auto simp: round_half_even_def Let_def)
  then have "0 < of_int (round_half_even (q / u)) * u" using u by simp
  with assms(1,3) show ?thesis by (simp add: round_to_def Let_def u_def)
qed

lemma epsilon_pos: "flt (Fin 0) epsilon"
proof -
  have "1 / 10 ^ 10 = Fract 1 10000000000" by (simp add: Fract_of_int_quotient)
  then have q: "quotient_of (1 / 10 ^ 10) = (1, 10000000000)" by (simp only: quotient_of_Fract) (simp add: normalize_def)
  have l: "ilog2 (Suc 0) = 0" "ilog2 10000000000 = 33" by (simp_all add: ilog2.simps)
  have "rat_log2 (1 / 10 ^ 10) = - 34"
    unfolding rat_log2_def q by (simp add: l pow2_def Let_def)
  then have "pow2 (max (rat_log2 \<bar>1 / 10 ^ 10\<bar> - (53 - 1)) (- 1074)) \<le> 1 / 10 ^ 10" by (simp add: pow2_def)
  then show ?thesis unfolding epsilon_def round64_def by (rule round_to_pos [rotated]) (simp_all add: MaxFloat64_def)
qed

lemma sub64_self [simp]: "sub64 (Fin q) (Fin q) = Fin 0"
  by (simp add: fsub_def round64_def round_to_def)

lemma is_floor_member:
  assumes "Fin x \<in> set vs" "\<forall>v\<in>set vs. finite_float v" "is_floor vs (Fin x) lo"
  shows "lo = Fin x"
proof -
  have "list_ex (\<lambda>v. fle v (Fin x)) vs" using assms(1) by (auto simp: list_ex_iff intro!: bexI [of _ "Fin x"])
  with assms(3) have lo: "lo \<in> set vs" "fle lo (Fin x)" "\<forall>v\<in>set vs. fle v (Fin x) \<longrightarrow> fle v lo"
    by (auto simp: is_floor_def)
  from lo(1) assms(2) obtain q where q: "lo = Fin q" by auto
  with lo assms(1) show ?thesis by fastforce
qed

lemma is_ceil_member:
  assumes "Fin x \<in> set vs" "\<forall>v\<in>set vs. finite_float v" "is_ceil vs (Fin x) hi"
  shows "hi = Fin x"
proof -
  have "list_ex (\<lambda>v. fle (Fin x) v) vs" using assms(1) by (auto simp: list_ex_iff intro!: bexI [of _ "Fin x"])
  with assms(3) have hi: "hi \<in> set vs" "fle (Fin x) hi" "\<forall>v\<in>set vs. fle (Fin x) v \<longrightarrow> fle hi v"
    by (auto simp: is_ceil_def)
  from hi(1) assms(2) obtain q where q: "hi = Fin q" by auto
  with hi assms(1) show ?thesis by fastforce
qed

lemma predict_exact:
  assumes "finite_samples ss" "profiled ss (a, b) = Some v" "(a, b) \<noteq> (Fin 0, Fin 0)"
  shows "ip_Predict (profile ss) a b = Some v"
proof -
  note fin = profiled_finite [OF assms(1,2)]
  note pf = profile_facts [OF assms(1)]
  from fin(1,2) obtain x y where xy: "a = Fin x" "b = Fin y" by (auto simp: finite_float_iff)
  have mem: "Fin x \<in> set (ip_aValues (profile ss))" "Fin y \<in> set (ip_bValues (profile ss))"
    using fin(3,4) by (simp_all add: pf xy)
  have ok: "\<forall>v\<in>set (ip_aValues (profile ss)). finite_float v" "\<forall>v\<in>set (ip_bValues (profile ss)). finite_float v"
    using assms(1) by (auto simp: pf finite_samples_def)
  have "axis_bounds (Fin x) (ip_aValues (profile ss)) = (Fin x, Fin x, True)"
    using axis_bounds_spec [OF ok(1)] is_floor_member [OF mem(1) ok(1)] is_ceil_member [OF mem(1) ok(1)] mem(1)
    by (metis empty_iff list.set(1) prod_cases3)
  moreover have "axis_bounds (Fin y) (ip_bValues (profile ss)) = (Fin y, Fin y, True)"
    using axis_bounds_spec [OF ok(2)] is_floor_member [OF mem(2) ok(2)] is_ceil_member [OF mem(2) ok(2)] mem(2)
    by (metis empty_iff list.set(1) prod_cases3)
  ultimately show ?thesis
    using assms(2,3) epsilon_pos
    by (auto simp: ip_Predict_def findBoundingBox_def pf xy interpolate_def feq_def)
qed

lemma predict_cell:
  assumes "finite_samples ss" "ip_Predict (profile ss) (Fin a) (Fin b) = Some z" "(a, b) \<noteq> (0, 0)"
  shows "\<exists>a1 a2 b1 b2.
    is_floor (ip_aValues (profile ss)) (Fin a) (Fin a1) \<and> is_ceil (ip_aValues (profile ss)) (Fin a) (Fin a2) \<and>
    is_floor (ip_bValues (profile ss)) (Fin b) (Fin b1) \<and> is_ceil (ip_bValues (profile ss)) (Fin b) (Fin b2) \<and>
    profiled ss (Fin a1, Fin b1) \<noteq> None \<and> profiled ss (Fin a1, Fin b2) \<noteq> None \<and>
    profiled ss (Fin a2, Fin b1) \<noteq> None \<and> profiled ss (Fin a2, Fin b2) \<noteq> None"
proof -
  note pf = profile_facts [OF assms(1)]
  have ok: "\<forall>v\<in>set (ip_aValues (profile ss)). finite_float v" "\<forall>v\<in>set (ip_bValues (profile ss)). finite_float v"
    using assms(1) by (auto simp: pf finite_samples_def)
  obtain a1 a2 fa where A: "axis_bounds (Fin a) (ip_aValues (profile ss)) = (a1, a2, fa)"
    by (cases "axis_bounds (Fin a) (ip_aValues (profile ss))")
  obtain b1 b2 fb where B: "axis_bounds (Fin b) (ip_bValues (profile ss)) = (b1, b2, fb)"
    by (cases "axis_bounds (Fin b) (ip_bValues (profile ss))")
  from assms(2,3) obtain z11 z12 z21 z22 where z:
    "profiled ss (a1, b1) = Some z11" "profiled ss (a1, b2) = Some z12"
    "profiled ss (a2, b1) = Some z21" "profiled ss (a2, b2) = Some z22"
    by (auto simp: ip_Predict_def findBoundingBox_def A B pf feq_def split: if_splits option.splits)
  from profiled_finite(1,2) [OF assms(1) z(1)] profiled_finite(1,2) [OF assms(1) z(4)]
  obtain r1 r2 s1 s2 where "a1 = Fin r1" "b1 = Fin s1" "a2 = Fin r2" "b2 = Fin s2" by (auto simp: finite_float_iff)
  with z axis_bounds_spec [OF ok(1) A] axis_bounds_spec [OF ok(2) B] show ?thesis by blast
qed

subsection \<open>The chunked prefill estimate\<close>

text \<open>The reference: cut the tokens into full chunks and a rest, and add up the steps.\<close>

definition chunks :: "nat \<Rightarrow> nat \<Rightarrow> nat list" where
  "chunks n m = replicate (n div m) m @ (if n mod m = 0 then [] else [n mod m])"

fun sum_steps :: "InterpolationPredictor \<Rightarrow> f64 \<Rightarrow> nat list \<Rightarrow> f64 \<Rightarrow> f64 option" where
  "sum_steps p decodeStep [] acc = Some acc"
| "sum_steps p decodeStep (c # cs) acc =
     (case ip_Predict p (f64_of_int (int c)) (Fin 0) of
        None \<Rightarrow> None
      | Some step \<Rightarrow> sum_steps p decodeStep cs (add64 (add64 acc step) decodeStep))"

lemma sum_list_chunks: "sum_list (chunks n m) = n"
  by (cases "m = 0") (auto simp: chunks_def sum_list_replicate)

lemma chunks_Nil [simp]: "0 < m \<Longrightarrow> chunks 0 m = []"
  by (simp add: chunks_def)

lemma chunks_step: "0 < m \<Longrightarrow> 0 < n \<Longrightarrow> chunks n m = min n m # chunks (n - min n m) m"
  by (cases "n < m") (auto simp: chunks_def div_if [of n m] le_mod_geq mod_if [of n m] min_def not_less)

lemma sub64_of_nat:
  assumes "m \<le> n" "n < 2 ^ 53"
  shows "sub64 (f64_of_int (int n)) (f64_of_int (int m)) = f64_of_int (int (n - m))"
proof -
  have "int m < 2 ^ 53" "int n < 2 ^ 53" "int (n - m) < 2 ^ 53" using assms by (simp_all add: zless_nat_eq_int_zless)
  then show ?thesis
    using assms f64_of_int_def [of "int (n - m)"]
    by (simp add: f64_of_int_exact fsub_def of_nat_diff)
qed

lemma flt_0_of_nat: "n < 2 ^ 53 \<Longrightarrow> flt (Fin 0) (f64_of_int (int n)) \<longleftrightarrow> 0 < n"
  by (simp add: f64_of_int_exact zless_nat_eq_int_zless)

lemma fmin_of_nat:
  assumes "m < 2 ^ 53" "n < 2 ^ 53"
  shows "fmin (f64_of_int (int n)) (f64_of_int (int m)) = f64_of_int (int (min n m))"
  using assms by (simp add: f64_of_int_exact zless_nat_eq_int_zless min_def)

lemma chunk_loop_eq:
  assumes "0 < m" "m < 2 ^ 53" "n < 2 ^ 53"
  shows "chunk_loop p (f64_of_int (int m)) d (f64_of_int (int n)) acc = Some (sum_steps p d (chunks n m) acc)"
  using assms(3)
proof (induction n arbitrary: acc rule: less_induct)
  case (less n)
  show ?case
  proof (cases "n = 0")
    case True
    then show ?thesis using assms less.prems flt_0_of_nat [of 0] by (subst chunk_loop.simps) simp
  next
    case False
    then have "n - min n m < n" "n - min n m < 2 ^ 53" "min n m \<le> n" using assms less.prems by auto
    with less.IH [of "n - min n m"] False assms less.prems show ?thesis
      by (subst chunk_loop.simps)
        (simp add: flt_0_of_nat fmin_of_nat sub64_of_nat chunks_step Let_def split: option.splits)
  qed
qed

lemma predict_at_origin [simp]: "ip_Predict p (Fin 0) (Fin 0) = Some (Fin 0)"
  by (simp add: ip_Predict_def feq_def)

text \<open>With a chunk size of zero the remaining tokens never shrink.\<close>

lemma round64_of_pos_int: "0 < n \<Longrightarrow> n < 2 ^ 53 \<Longrightarrow> round64 (of_int n) = Fin (of_int n)"
  using f64_of_int_exact [of n] by (simp add: f64_of_int_def)

lemma chunk_loop_zero:
  assumes "0 < n" "n < 2 ^ 53"
  shows "chunk_loop p (Fin 0) d (Fin (of_int n)) acc = None"
proof -
  have "mx = Fin 0 \<longrightarrow> rem = Fin (of_int n) \<longrightarrow> False" if "chunk_loop p mx d rem acc = Some r" for p mx d rem acc r
  proof (rule chunk_loop.raw_induct [OF _ that], intro impI)
    fix loop :: "InterpolationPredictor \<Rightarrow> f64 \<Rightarrow> f64 \<Rightarrow> f64 \<Rightarrow> f64 \<Rightarrow> f64 option option"
    fix p mx d rem acc r
    assume IH: "\<And>p mx d rem acc r. loop p mx d rem acc = Some r \<Longrightarrow> mx = Fin 0 \<longrightarrow> rem = Fin (of_int n) \<longrightarrow> False"
    assume body: "(if flt (Fin 0) rem
          then let cur = fmin rem mx; remaining' = sub64 rem cur
               in case ip_Predict p cur (Fin 0) of None \<Rightarrow> Some None
                  | Some step \<Rightarrow> loop p mx d remaining' (add64 (add64 acc step) d)
          else Some (Some acc)) = Some r"
    assume mx: "mx = Fin 0" and rem: "rem = Fin (of_int n)"
    have "fmin rem mx = Fin 0" "sub64 rem (Fin 0) = rem" "flt (Fin 0) rem"
      using assms rem mx round64_of_pos_int [of n] by (simp_all add: fsub_def)
    with body mx rem have "loop p mx d rem (add64 (add64 acc (Fin 0)) d) = Some r" by (simp add: Let_def)
    with IH mx rem show False by blast
  qed
  then show ?thesis by (metis not_Some_eq)
qed

text \<open>C34. For a positive chunk size the prefill estimate returns, and it is the reference: the tokens
  are cut into full chunks and a rest, every chunk costs its profiled latency plus one decode step, and
  a latency that cannot be predicted is an error.\<close>

theorem chunk_prefill_estimate:
  fixes m :: i32
  assumes "0 < sint m"
  shows "predictTtftLatencyByChunkPrefill lp n reqs tokens (f64_of_int (sint m)) =
    Some (case predictTpotLatency lp reqs tokens of
            None \<Rightarrow> None
          | Some d \<Rightarrow> sum_steps (lp_ttft lp) d (chunks (nat (sint n)) (nat (sint m))) (Fin 0))"
proof (cases "predictTpotLatency lp reqs tokens")
  case (Some d)
  have bounds: "sint m < 2 ^ 53" "sint n < 2 ^ 53" "- (2 ^ 53) < sint n"
    using sint_lt [of m] sint_lt [of n] sint_ge [of n] by simp_all
  show ?thesis
  proof (cases "0 \<le> sint n")
    case True
    from assms bounds True chunk_loop_eq [of "nat (sint m)" "nat (sint n)"] Some show ?thesis
      by (simp add: predictTtftLatencyByChunkPrefill_def nat_less_iff)
  next
    case False
    then have "\<not> flt (Fin 0) (f64_of_int (sint n))" using bounds by (simp add: f64_of_int_exact del: of_int_sint)
    with False Some assms show ?thesis
      by (simp add: predictTtftLatencyByChunkPrefill_def chunk_loop.simps)
  qed
qed (simp add: predictTtftLatencyByChunkPrefill_def)

definition ex_profile :: "(f64 \<times> f64 \<times> f64) list" where
  "ex_profile = [(Fin 1, Fin 0, Fin 1), (Fin 8, Fin 0, Fin 4), (Fin 16, Fin 0, Fin 8)]"

definition ex_lp :: LatencyPredictor where
  "ex_lp = \<lparr>lp_ttft = profile ex_profile, lp_tpot = profile []\<rparr>"

theorem chunk_prefill_estimate_witness:
  "0 < sint (8 :: i32) \<and>
   predictTtftLatencyByChunkPrefill ex_lp 20 0 0 (f64_of_int (sint (8 :: i32))) =
     Some (case predictTpotLatency ex_lp 0 0 of
            None \<Rightarrow> None
          | Some d \<Rightarrow> sum_steps (lp_ttft ex_lp) d (chunks (nat (sint (20 :: i32))) (nat (sint (8 :: i32)))) (Fin 0)) \<and>
   chunks (nat (sint (20 :: i32))) (nat (sint (8 :: i32))) = [8, 8, 4]"
  using chunk_prefill_estimate [of "8 :: i32" ex_lp 20 0 0] by (simp add: chunks_def numeral_2_eq_2)

text \<open>An instance whose metadata carries no batch limit has a chunk size of zero.  With tokens
  waiting and a predictable decode step, the estimate then never returns.\<close>

theorem chunk_prefill_zero_batch_hangs:
  assumes "0 < sint n" "predictTpotLatency lp reqs tokens = Some d"
  shows "predictTtftLatencyByChunkPrefill lp n reqs tokens (f64_of_int (sint (0 :: i32))) = None"
proof -
  have "sint n < 2 ^ 53" using sint_lt [of n] by simp
  with assms chunk_loop_zero [of "sint n" "lp_ttft lp" d] show ?thesis
    by (simp add: predictTtftLatencyByChunkPrefill_def f64_of_int_exact)
qed

theorem chunk_prefill_zero_batch_hangs_witness:
  "0 < sint (20 :: i32) \<and> predictTpotLatency ex_lp 0 0 = Some (Fin 0) \<and>
   predictTtftLatencyByChunkPrefill ex_lp 20 0 0 (f64_of_int (sint (0 :: i32))) = None"
  using chunk_prefill_zero_batch_hangs [of "20 :: i32" ex_lp 0 0 "Fin 0"] by (simp add: predictTpotLatency_def)

subsection \<open>Prefill progress\<close>

lemma sint_sub_i32:
  "- (2 ^ 31) \<le> sint a - sint b \<Longrightarrow> sint a - sint b < 2 ^ 31 \<Longrightarrow> sint (a - b :: i32) = sint a - sint b"
  by (simp add: sint_word_ariths signed_take_bit_int_eq_self)

lemma next_batch_pos:
  "0 < sint m \<Longrightarrow> 0 < sint u \<Longrightarrow> 0 < sint (fst (next_batch m u r))"
  by (auto simp: next_batch_def)

lemma prefill_loop_stop: "\<not> (flt (Fin 0) t \<and> 0 < sint u) \<Longrightarrow> prefill_loop q m t u r c = Some (c, u, t)"
  by (subst prefill_loop.simps) (rule if_not_P)

lemma prefill_loop_returns:
  assumes "0 < sint m"
  shows "\<exists>res. prefill_loop q m t u r c = Some res"
proof (induction "nat (sint u)" arbitrary: t u r c rule: less_induct)
  case less
  define cur where "cur = fst (next_batch m u r)"
  show ?case
  proof (cases "flt (Fin 0) t \<and> 0 < sint u")
    case True
    have "0 < sint cur" unfolding cur_def using assms True by (simp add: next_batch_pos)
    moreover have "sint cur < 2 ^ 31" "sint u < 2 ^ 31" using sint_lt [of cur] sint_lt [of u] by simp_all
    ultimately have "sint (u - cur) = sint u - sint cur" using True by (intro sint_sub_i32) auto
    with \<open>0 < sint cur\<close> True have IH: "\<exists>res. prefill_loop q m t' (u - cur) r' c' = Some res" for t' r' c'
      by (intro less) simp
    have stop: "\<exists>res. prefill_loop q m (Fin 0) 0 r' c' = Some res" for r' c' by (simp add: prefill_loop_stop)
    from True IH stop show ?thesis
      by (subst prefill_loop.simps) (simp add: Let_def split: option.split flip: cur_def)
  next
    case False
    then show ?thesis by (subst prefill_loop.simps) auto
  qed
qed

text \<open>Time never goes below zero.\<close>

definition nonneg :: "gofloat \<Rightarrow> bool" where
  "nonneg t \<longleftrightarrow> t = PInf \<or> (\<exists>q\<ge>0. t = Fin q)"

lemma round_to_nonneg: "0 \<le> q \<Longrightarrow> 0 \<le> big \<Longrightarrow> nonneg (round_to p emin big q)"
proof -
  assume q: "0 \<le> q" "0 \<le> big"
  define u where "u = pow2 (max (rat_log2 \<bar>q\<bar> - (p - 1)) emin)"
  have u: "0 < u" by (simp add: u_def pow2_def)
  then have "0 \<le> \<lfloor>q / u\<rfloor>" using q by simp
  then have "0 \<le> round_half_even (q / u)" by (auto simp: round_half_even_def Let_def)
  then have "0 \<le> of_int (round_half_even (q / u)) * u" using u by simp
  with q show ?thesis by (auto simp: nonneg_def round_to_def Let_def u_def)
qed

lemma round64_nonneg: "0 \<le> q \<Longrightarrow> nonneg (round64 q)"
  by (simp add: round64_def round_to_nonneg MaxFloat64_def)

lemma round_half_even_mono_0: "x \<le> 0 \<Longrightarrow> round_half_even x \<le> 0"
proof -
  assume x: "x \<le> 0"
  show ?thesis
  proof (cases "x = 0")
    case True
    then show ?thesis using round_half_even_int [of 0] by simp
  next
    case False
    with x have "\<lfloor>x\<rfloor> < 0" by simp
    then show ?thesis by (auto simp: round_half_even_def Let_def)
  qed
qed

lemma round64_nonpos: "q \<le> 0 \<Longrightarrow> fle (round64 q) (Fin 0)"
proof -
  assume q: "q \<le> 0"
  define u where "u = pow2 (max (rat_log2 \<bar>q\<bar> - (53 - 1)) (- 1074))"
  have u: "0 < u" by (simp add: u_def pow2_def)
  then have "of_int (round_half_even (q / u)) * u \<le> 0"
    using round_half_even_mono_0 [of "q / u"] q by (simp add: mult_nonpos_nonneg divide_nonpos_pos)
  moreover have "0 \<le> MaxFloat64" by (simp add: MaxFloat64_def)
  ultimately show ?thesis by (auto simp: round64_def round_to_def Let_def u_def fle_def feq_def)
qed

lemma round_to_less:
  assumes "0 < q" "q + pow2 (max (rat_log2 \<bar>q\<bar> - (p - 1)) emin) < b" "b \<le> big"
  shows "flt (round_to p emin big q) (Fin b)"
proof -
  define u where "u = pow2 (max (rat_log2 \<bar>q\<bar> - (p - 1)) emin)"
  have u: "0 < u" by (simp add: u_def pow2_def)
  have "round_half_even (q / u) \<le> \<lfloor>q / u\<rfloor> + 1" by (simp add: round_half_even_def Let_def)
  then have "of_int (round_half_even (q / u)) \<le> (of_int (\<lfloor>q / u\<rfloor> + 1) :: rat)" by (simp only: of_int_le_iff)
  then have "of_int (round_half_even (q / u)) \<le> q / u + 1" using of_int_floor_le [of "q / u"] by simp linarith
  then have "of_int (round_half_even (q / u)) * u \<le> (q / u + 1) * u" using u by (simp add: mult_right_mono)
  then have "of_int (round_half_even (q / u)) * u < b" using u assms(2) by (simp add: distrib_right u_def)
  with assms show ?thesis by (auto simp: round_to_def Let_def u_def)
qed

lemma round64_milli_less: "flt (round64 (1 / 1000)) (Fin 1)"
proof -
  have "1 / 1000 = Fract 1 1000" by (simp add: Fract_of_int_quotient)
  then have q: "quotient_of (1 / 1000) = (1, 1000)" by (simp only: quotient_of_Fract) (simp add: normalize_def)
  have "ilog2 (Suc 0) = 0" "ilog2 1000 = 9" by (simp_all add: ilog2.simps)
  then have "rat_log2 (1 / 1000) = - 10"
    unfolding rat_log2_def q by (simp add: pow2_def Let_def)
  then show ?thesis unfolding round64_def
    by (intro round_to_less) (simp_all add: pow2_def MaxFloat64_def)
qed

lemma validate_int: "1 \<le> n \<Longrightarrow> n \<le> 1000000 \<Longrightarrow> validateStepDurationMs (Fin (of_int n))"
proof -
  assume n: "1 \<le> n" "n \<le> 1000000"
  have "\<not> flt (Fin (of_int n)) (round64 (1 / 1000))"
    using round64_milli_less n by (cases "round64 (1 / 1000)") auto
  with n show ?thesis by (simp add: validateStepDurationMs_def)
qed

lemma sub64_nonneg: "nonneg t \<Longrightarrow> fle s t \<Longrightarrow> validateStepDurationMs s \<Longrightarrow> nonneg (sub64 t s)"
  by (cases s; cases t) (auto simp: nonneg_def fsub_def validateStepDurationMs_def intro!: round64_nonneg [unfolded nonneg_def])

lemma nonneg_stop: "nonneg t \<Longrightarrow> \<not> flt (Fin 0) t \<Longrightarrow> t = Fin 0"
  by (auto simp: nonneg_def)

lemma nonneg_0 [simp]: "nonneg (Fin 0)"
  by (simp add: nonneg_def)

text \<open>When the loop ends, it failed, or it ran out of tokens, or no time is left.\<close>

lemma prefill_loop_exit:
  assumes "prefill_loop q m t u r c = Some (c', u', t')" "nonneg t"
  shows "c' = 0 \<or> sint u' \<le> 0 \<or> t' = Fin 0"
proof -
  have "nonneg t \<longrightarrow> fst res = 0 \<or> sint (fst (snd res)) \<le> 0 \<or> snd (snd res) = Fin 0"
    if "prefill_loop q m t u r c = Some res" for q m t u r c res
  proof (rule prefill_loop.raw_induct [OF _ that], intro impI, goal_cases)
    case (1 loop q m t u r c res)
    note IH = 1(1)
    show ?case
    proof (cases "flt (Fin 0) t \<and> 0 < sint u")
      case True
      define cur where "cur = fst (next_batch m u r)"
      show ?thesis
      proof (cases "qp_Predict q (f64_of_int (sint cur))")
        case None
        with 1(2) True show ?thesis by (auto simp: Let_def cur_def)
      next
        case (Some s)
        consider "\<not> validateStepDurationMs s" | "validateStepDurationMs s" "fle s t" | "validateStepDurationMs s" "\<not> fle s t"
          by blast
        then show ?thesis
        proof cases
          case 1
          with \<open>_ = Some res\<close> True Some show ?thesis by (auto simp: Let_def cur_def)
        next
          case 2
          with \<open>_ = Some res\<close> True Some have "\<exists>u r c. loop q m (sub64 t s) u r c = Some res" by (auto simp: Let_def cur_def)
          with IH sub64_nonneg [OF \<open>nonneg t\<close> 2(2,1)] show ?thesis by blast
        next
          case 3
          with \<open>_ = Some res\<close> True Some have "\<exists>r c. loop q m (Fin 0) 0 r c = Some res" by (auto simp: Let_def cur_def)
          with IH nonneg_0 show ?thesis by blast
        qed
      qed
    next
      case False
      with 1 nonneg_stop [of t] show ?thesis by (auto split: if_splits)
    qed
  qed
  from this [OF assms(1)] assms(2) show ?thesis by simp
qed

lemma truncate_prediction_pos:
  assumes "prefill_loop q m t u r c = Some res" "nonneg t" "0 < sint (truncate_prediction res)"
  shows "snd (snd res) = Fin 0 \<and> 0 < sint (fst (snd res))"
  using prefill_loop_exit [of q m t u r c "fst res" "fst (snd res)" "snd (snd res)"] assms
  by (auto simp: truncate_prediction_def split_beta Let_def split: if_splits)

subsection \<open>Interpolation\<close>



end
