(* ===== verification/CMS_Types.thy ===== *)
theory CMS_Types
  imports Core_Types Go_Float
begin

text \<open>
  The data of the cluster metadata store (CMS): the messages of \<open>pkg/cms/proto/cms.proto\<close>, the
  local accounts of \<open>pkg/cms/instance_status_local_account.go\<close> and the scheduler's view of one
  instance, \<open>InstanceView\<close> of \<open>pkg/cms/cms_read_client.go\<close>.
\<close>

record InstanceMetadata =
  md_InstanceId :: string
  md_InstanceType :: string
  md_BackendType :: string
  md_Ip :: string
  md_IpKvs :: string
  md_ApiServerPort :: i32
  md_LlumletPort :: i32
  md_KvtPort :: i32
  md_NodeId :: string
  md_DataParallelSize :: i32
  md_TensorParallelSize :: i32
  md_UnitId :: string
  md_DpRank :: i32
  md_EpRank :: i32
  md_DpLocalRank :: i32
  md_UtcCreate :: f64
  md_UtcUpdate :: f64
  md_IpKvt :: string
  md_BlockSize :: i32
  md_MaxNumBatchedTokens :: i32

record InstanceStatus =
  st_InstanceId :: string
  st_Schedulable :: bool
  st_TimestampMs :: i64
  st_StepId :: i32
  st_UpdateId :: i32
  st_RecentWaitingRequests :: "string list"
  st_WaitingRequests :: "string list"
  st_HybridSchedulerWaitingToDecodeRequestsNum :: i32
  st_SchedulerWaitingToDecodeRequestsNum :: i32
  st_NumWaitingRequests :: i32
  st_SchedulerRunningToDecodeRequestsNum :: i32
  st_NumRunningRequests :: i32
  st_NumLoadingRequests :: i32
  st_NumTotalGpuTokens :: i32
  st_NumUsedGpuTokens :: i32
  st_NumUncomputedTokensHybridSchedulerWaitingPrefills :: i32
  st_NumUnallocatedTokensHybridSchedulerWaitingDecodes :: i32
  st_HybridSchedulerWaitingToDecodeTokensNum :: i32
  st_NumUncomputedTokensSchedulerWaitingPrefills :: i32
  st_SchedulerWaitingToDecodeTokensNum :: i32
  st_NumUncomputedTokensSchedulerRunningPrefills :: i32
  st_NumUnallocatedTokensSchedulerRunningPrefills :: i32
  st_SchedulerRunningToDecodeTokensNum :: i32
  st_NumTokensLoadingRequests :: i32
  st_NumUncomputedTokensAllWaitingPrefills :: i32
  st_NumMigrateInReqs :: i32
  st_NumMigrateOutReqs :: i32
  st_NumAvailableMigrateInSlots :: i32
  st_NumAvailableMigrateOutSlots :: i32
  st_NumMigrateInTokens :: i32
  st_NumMigrateOutTokens :: i32
  st_NumAvailableMigrateInTokens :: i32
  st_NumAvailableMigrateOutTokens :: i32
  st_KvCacheUsageRatioMigrateIn :: f64
  st_KvCacheUsageRatioMigrateOut :: f64
  st_AvailableKvCacheUsageRatioMigrateIn :: f64
  st_AvailableKvCacheUsageRatioMigrateOut :: f64
  st_ProfilingId :: i32
  st_StepDuration :: f64
  st_NumScheduledPrefillTokens :: i32

definition empty_metadata :: InstanceMetadata where
  "empty_metadata =
     \<lparr>md_InstanceId = [], md_InstanceType = [], md_BackendType = [], md_Ip = [], md_IpKvs = [],
      md_ApiServerPort = 0, md_LlumletPort = 0, md_KvtPort = 0, md_NodeId = [], md_DataParallelSize = 0,
      md_TensorParallelSize = 0, md_UnitId = [], md_DpRank = 0, md_EpRank = 0, md_DpLocalRank = 0,
      md_UtcCreate = Fin 0, md_UtcUpdate = Fin 0, md_IpKvt = [], md_BlockSize = 0,
      md_MaxNumBatchedTokens = 0\<rparr>"

definition empty_status :: InstanceStatus where
  "empty_status =
     \<lparr>st_InstanceId = [], st_Schedulable = False, st_TimestampMs = 0, st_StepId = 0, st_UpdateId = 0,
      st_RecentWaitingRequests = [], st_WaitingRequests = [],
      st_HybridSchedulerWaitingToDecodeRequestsNum = 0, st_SchedulerWaitingToDecodeRequestsNum = 0,
      st_NumWaitingRequests = 0, st_SchedulerRunningToDecodeRequestsNum = 0, st_NumRunningRequests = 0,
      st_NumLoadingRequests = 0, st_NumTotalGpuTokens = 0, st_NumUsedGpuTokens = 0,
      st_NumUncomputedTokensHybridSchedulerWaitingPrefills = 0,
      st_NumUnallocatedTokensHybridSchedulerWaitingDecodes = 0,
      st_HybridSchedulerWaitingToDecodeTokensNum = 0,
      st_NumUncomputedTokensSchedulerWaitingPrefills = 0, st_SchedulerWaitingToDecodeTokensNum = 0,
      st_NumUncomputedTokensSchedulerRunningPrefills = 0,
      st_NumUnallocatedTokensSchedulerRunningPrefills = 0, st_SchedulerRunningToDecodeTokensNum = 0,
      st_NumTokensLoadingRequests = 0, st_NumUncomputedTokensAllWaitingPrefills = 0,
      st_NumMigrateInReqs = 0, st_NumMigrateOutReqs = 0,
      st_NumAvailableMigrateInSlots = 0, st_NumAvailableMigrateOutSlots = 0,
      st_NumMigrateInTokens = 0, st_NumMigrateOutTokens = 0,
      st_NumAvailableMigrateInTokens = 0, st_NumAvailableMigrateOutTokens = 0,
      st_KvCacheUsageRatioMigrateIn = Fin 0, st_KvCacheUsageRatioMigrateOut = Fin 0,
      st_AvailableKvCacheUsageRatioMigrateIn = Fin 0, st_AvailableKvCacheUsageRatioMigrateOut = Fin 0,
      st_ProfilingId = 0, st_StepDuration = Fin 0, st_NumScheduledPrefillTokens = 0\<rparr>"

record RequestLocalAccount =
  la_ScheduleTimestampMs :: i64
  la_InferType :: InferType
  la_NumTokens :: i32
  la_NumUncomputedTokens :: i32
  la_FoundInCMS :: bool

record InstanceStatusLocalAccount =
  acc_RequestLocalAccount :: "(string, RequestLocalAccount) gmap"
  acc_NumInflightDispatchPrefillRequests :: i32
  acc_NumInflightDispatchDecodeRequests :: i32
  acc_NumInflightDispatchRequests :: i32
  acc_NumUncomputedTokensInflightDispatchPrefillRequests :: i32
  acc_NumTokensInflightDispatchDecodeRequests :: i32

definition empty_account :: InstanceStatusLocalAccount where
  "empty_account =
     \<lparr>acc_RequestLocalAccount = [], acc_NumInflightDispatchPrefillRequests = 0,
      acc_NumInflightDispatchDecodeRequests = 0, acc_NumInflightDispatchRequests = 0,
      acc_NumUncomputedTokensInflightDispatchPrefillRequests = 0,
      acc_NumTokensInflightDispatchDecodeRequests = 0\<rparr>"

text \<open>
  The view of one instance.  \<open>cv_MetadataRef\<close> is the identity of the metadata object the view was
  built with: a later message for the same instance is decoded into that object as long as the
  client's metadata table still holds it.
\<close>

record CmsView =
  cv_Instance :: LLMInstance
  cv_Status :: InstanceStatus
  cv_MetadataRef :: nat
  cv_Metadata :: InstanceMetadata
  cv_Account :: InstanceStatusLocalAccount
  cv_ReservedInferType :: InferType

definition cv_GetInstanceId :: "CmsView \<Rightarrow> string" where
  "cv_GetInstanceId v = md_InstanceId (cv_Metadata v)"

definition cv_GetInferType :: "CmsView \<Rightarrow> InferType" where
  "cv_GetInferType v = li_InferType (cv_Instance v)"

definition ex_view :: "string \<Rightarrow> InferType \<Rightarrow> CmsView" where
  "ex_view n t =
     \<lparr>cv_Instance = \<lparr>li_Version = 0, li_ID = n, li_Model = [], li_InferType = t,
        li_Endpoint = \<lparr>ep_Host = n, ep_Port = 80\<rparr>, li_AuxIp = [], li_AuxPort = 0, li_DPRank = 0,
        li_DPSize = 1\<rparr>,
      cv_Status = empty_status\<lparr>st_InstanceId := n, st_Schedulable := True, st_TimestampMs := 1000,
        st_NumTotalGpuTokens := 1000\<rparr>,
      cv_MetadataRef = 0,
      cv_Metadata = empty_metadata\<lparr>md_InstanceId := n, md_InstanceType := t\<rparr>,
      cv_Account = empty_account, cv_ReservedInferType = []\<rparr>"

end
