(* ===== verification/Local_Realtime_State.thy ===== *)
theory Local_Realtime_State
  imports Core_Types
begin

text \<open>
  The scheduler's local realtime state, \<open>pkg/lrs/local_realtime_state.go\<close>: which request runs on
  which instance, which gateway asked for it, and how many tokens each instance holds.

  A \<open>*RequestState\<close> is shared: the request table and the view of its instance hold the same
  pointer, and \<open>UpdateRequestState\<close> and \<open>MarkPrefillComplete\<close> write through it.  The model keeps
  the objects in a heap (a list indexed by pointers) and stores pointers in both tables.

  Contents: the data and every operation of the source; the invariant \<open>lrs_wf\<close> (the three tables
  agree and an instance's token counter is the sum over its requests) with its preservation by every
  operation; an abstract state (\<open>lrs_spec\<close>: live requests, instances, gateways) with one abstract
  operation per concrete one, and the refinement between the two.
\<close>

subsection \<open>Data\<close>

type_synonym ptr = nat

record RequestState =
  rs_reqId :: string
  rs_instanceId :: string
  rs_gatewayId :: string
  rs_numTokens :: i64
  rs_prefillCompleted :: bool
  rs_updateTime :: int

record InstanceView =
  iv_instance :: LLMInstance
  iv_version :: i64
  iv_numTokens :: i64
  iv_requestStates :: "(string, ptr) gmap"

record LocalRealtimeState =
  lrs_requestStates :: "(string, ptr) gmap"
  lrs_instanceViews :: "(string, InstanceView) gmap"
  lrs_gatewayRequestSet :: "(string, string list) gmap"
  lrs_heap :: "RequestState list"

subsection \<open>Instance views\<close>

definition NewRequestState :: "int \<Rightarrow> string \<Rightarrow> i64 \<Rightarrow> string \<Rightarrow> string \<Rightarrow> RequestState" where
  "NewRequestState now reqId numTokens instanceId gatewayId =
     \<lparr>rs_reqId = reqId, rs_instanceId = instanceId, rs_gatewayId = gatewayId,
      rs_numTokens = numTokens, rs_prefillCompleted = False, rs_updateTime = now\<rparr>"

definition NewInstanceView :: "LLMInstance \<Rightarrow> InstanceView" where
  "NewInstanceView inst =
     \<lparr>iv_instance = inst, iv_version = li_Version inst, iv_numTokens = 0, iv_requestStates = []\<rparr>"

definition iv_GetInstanceId :: "InstanceView \<Rightarrow> string" where
  "iv_GetInstanceId iv = fst (LLMInstance_Id (iv_instance iv))"

definition iv_GetInferType :: "InstanceView \<Rightarrow> InferType" where
  "iv_GetInferType iv = li_InferType (iv_instance iv)"

definition iv_NumTokens :: "InstanceView \<Rightarrow> i64" where
  "iv_NumTokens iv = iv_numTokens iv"

definition iv_NumRequests :: "InstanceView \<Rightarrow> i64" where
  "iv_NumRequests iv = of_nat (length (iv_requestStates iv))"

definition iv_NumWaitingRequests :: "RequestState list \<Rightarrow> InstanceView \<Rightarrow> i64" where
  "iv_NumWaitingRequests h iv =
     foldl (\<lambda>cnt (_, p). if \<not> rs_prefillCompleted (h ! p) then cnt + 1 else cnt) 0 (iv_requestStates iv)"

definition iv_NumWaitingTokens :: "RequestState list \<Rightarrow> InstanceView \<Rightarrow> i64" where
  "iv_NumWaitingTokens h iv =
     foldl (\<lambda>cnt (_, p). if \<not> rs_prefillCompleted (h ! p) then cnt + rs_numTokens (h ! p) else cnt)
       0 (iv_requestStates iv)"

definition iv_GetRequestIds :: "InstanceView \<Rightarrow> string list" where
  "iv_GetRequestIds iv = mkeys (iv_requestStates iv)"

definition iv_AllocateRequestState :: "ptr \<Rightarrow> RequestState \<Rightarrow> InstanceView \<Rightarrow> InstanceView" where
  "iv_AllocateRequestState p r iv =
     iv\<lparr>iv_requestStates := mput (rs_reqId r) p (iv_requestStates iv),
        iv_numTokens := iv_numTokens iv + rs_numTokens r\<rparr>"

definition iv_MarkPrefillComplete ::
  "RequestState \<Rightarrow> RequestState list \<Rightarrow> InstanceView \<Rightarrow> RequestState list" where
  "iv_MarkPrefillComplete r h iv =
     (case mget (iv_requestStates iv) (rs_reqId r) of
        None \<Rightarrow> h
      | Some p \<Rightarrow> h[p := (h ! p)\<lparr>rs_prefillCompleted := True\<rparr>])"

definition iv_UpdateRequestState ::
  "RequestState \<Rightarrow> RequestState list \<Rightarrow> InstanceView \<Rightarrow>
   RequestState list \<times> InstanceView \<times> go_error option" where
  "iv_UpdateRequestState r h iv =
     (case mget (iv_requestStates iv) (rs_reqId r) of
        None \<Rightarrow> (h, iv, Some ErrorRequestNotExits)
      | Some p \<Rightarrow>
          if rs_gatewayId r \<noteq> rs_gatewayId (h ! p) then (h, iv, Some ErrorRequestGatewayChanged)
          else
            let addedNum = rs_numTokens r - rs_numTokens (h ! p)
            in if 0 \<le> sint addedNum
               then (h[p := (h ! p)\<lparr>rs_numTokens := rs_numTokens r, rs_updateTime := rs_updateTime r\<rparr>],
                     iv\<lparr>iv_numTokens := iv_numTokens iv + addedNum\<rparr>, None)
               else (h, iv, None))"

definition iv_ReleaseRequestState ::
  "string \<Rightarrow> RequestState list \<Rightarrow> InstanceView \<Rightarrow> InstanceView" where
  "iv_ReleaseRequestState reqId h iv =
     (case mget (iv_requestStates iv) reqId of
        None \<Rightarrow> iv
      | Some p \<Rightarrow>
          iv\<lparr>iv_numTokens := (if sint (iv_numTokens iv) < sint (rs_numTokens (h ! p)) then 0
                              else iv_numTokens iv - rs_numTokens (h ! p)),
             iv_requestStates := mdel reqId (iv_requestStates iv)\<rparr>)"

definition iv_ClearStates :: "InstanceView \<Rightarrow> InstanceView" where
  "iv_ClearStates iv = iv\<lparr>iv_requestStates := [], iv_numTokens := 0\<rparr>"

subsection \<open>The state and its operations\<close>

definition NewLocalRealtimeState :: LocalRealtimeState where
  "NewLocalRealtimeState =
     \<lparr>lrs_requestStates = [], lrs_instanceViews = [], lrs_gatewayRequestSet = [], lrs_heap = []\<rparr>"

definition lrs_GetInstanceViewsByModel ::
  "string \<Rightarrow> LocalRealtimeState \<Rightarrow> (string, InstanceView) gmap" where
  "lrs_GetInstanceViewsByModel model s =
     foldl (\<lambda>results (_, iv).
              if li_Model (iv_instance iv) = model \<or> li_Model (iv_instance iv) = []
              then mput (iv_GetInstanceId iv) iv results else results) [] (lrs_instanceViews s)"

definition lrs_GetInstanceView :: "string \<Rightarrow> LocalRealtimeState \<Rightarrow> InstanceView option" where
  "lrs_GetInstanceView instanceId s = mget (lrs_instanceViews s) instanceId"

definition forget_request :: "string \<Rightarrow> LocalRealtimeState \<Rightarrow> LocalRealtimeState" where
  "forget_request reqId s =
     s\<lparr>lrs_gatewayRequestSet := map_ran (\<lambda>_ reqs. removeAll reqId reqs) (lrs_gatewayRequestSet s),
       lrs_requestStates := mdel reqId (lrs_requestStates s)\<rparr>"

definition lrs_removeInstance :: "string \<Rightarrow> LocalRealtimeState \<Rightarrow> LocalRealtimeState" where
  "lrs_removeInstance instanceId s =
     (case mget (lrs_instanceViews s) instanceId of
        None \<Rightarrow> s
      | Some iv \<Rightarrow>
          let s = foldl (\<lambda>s reqId. forget_request reqId s) s (iv_GetRequestIds iv);
              s = s\<lparr>lrs_instanceViews := mput instanceId (iv_ClearStates iv) (lrs_instanceViews s)\<rparr>
          in s\<lparr>lrs_instanceViews := mdel instanceId (lrs_instanceViews s)\<rparr>)"

definition lrs_AddInstance :: "LLMInstance \<Rightarrow> LocalRealtimeState \<Rightarrow> LocalRealtimeState" where
  "lrs_AddInstance inst s =
     (let (id, inst) = LLMInstance_Id inst
      in case mget (lrs_instanceViews s) id of
           None \<Rightarrow> s\<lparr>lrs_instanceViews := mput id (NewInstanceView inst) (lrs_instanceViews s)\<rparr>
         | Some old \<Rightarrow>
             if sint (iv_version old) < sint (li_Version inst)
             then let s = lrs_removeInstance id s
                  in s\<lparr>lrs_instanceViews := mput id (NewInstanceView inst) (lrs_instanceViews s)\<rparr>
             else s)"

definition lrs_RemoveInstance :: "string \<Rightarrow> LocalRealtimeState \<Rightarrow> LocalRealtimeState" where
  "lrs_RemoveInstance instanceId s = lrs_removeInstance instanceId s"

definition lrs_AddGateway :: "string \<Rightarrow> LocalRealtimeState \<Rightarrow> LocalRealtimeState" where
  "lrs_AddGateway gatewayId s =
     (case mget (lrs_gatewayRequestSet s) gatewayId of
        None \<Rightarrow> s\<lparr>lrs_gatewayRequestSet := mput gatewayId [] (lrs_gatewayRequestSet s)\<rparr>
      | Some _ \<Rightarrow> s)"

definition lrs_release_of_gateway :: "string \<Rightarrow> LocalRealtimeState \<Rightarrow> LocalRealtimeState" where
  "lrs_release_of_gateway reqId s =
     (case mget (lrs_requestStates s) reqId of
        None \<Rightarrow> s
      | Some p \<Rightarrow>
          let req = lrs_heap s ! p;
              s = (case mget (lrs_instanceViews s) (rs_instanceId req) of
                     None \<Rightarrow> s
                   | Some iv \<Rightarrow>
                       s\<lparr>lrs_instanceViews := mput (rs_instanceId req)
                            (iv_ReleaseRequestState reqId (lrs_heap s) iv) (lrs_instanceViews s)\<rparr>)
          in s\<lparr>lrs_requestStates := mdel reqId (lrs_requestStates s)\<rparr>)"

definition lrs_RemoveGateway :: "string \<Rightarrow> LocalRealtimeState \<Rightarrow> LocalRealtimeState" where
  "lrs_RemoveGateway gatewayId s =
     (case mget (lrs_gatewayRequestSet s) gatewayId of
        None \<Rightarrow> s
      | Some reqs \<Rightarrow>
          let s = foldl (\<lambda>s reqId. lrs_release_of_gateway reqId s) s reqs
          in s\<lparr>lrs_gatewayRequestSet := mdel gatewayId (lrs_gatewayRequestSet s)\<rparr>)"

definition lrs_requestExists :: "string \<Rightarrow> LocalRealtimeState \<Rightarrow> bool" where
  "lrs_requestExists reqId s \<longleftrightarrow> mget (lrs_requestStates s) reqId \<noteq> None"

definition lrs_instanceExists :: "string \<Rightarrow> LocalRealtimeState \<Rightarrow> bool" where
  "lrs_instanceExists instanceId s \<longleftrightarrow> mget (lrs_instanceViews s) instanceId \<noteq> None"

definition lrs_gatewayExists :: "string \<Rightarrow> LocalRealtimeState \<Rightarrow> bool" where
  "lrs_gatewayExists gatewayId s \<longleftrightarrow> mget (lrs_gatewayRequestSet s) gatewayId \<noteq> None"

definition lrs_AllocateRequestState ::
  "RequestState \<Rightarrow> LocalRealtimeState \<Rightarrow> LocalRealtimeState \<times> go_error option" where
  "lrs_AllocateRequestState r s =
     (if lrs_requestExists (rs_reqId r) s then (s, Some ErrorRequestExits)
      else if length (lrs_instanceViews s) = 0 then (s, Some ErrorEndpointNotFound)
      else if \<not> lrs_instanceExists (rs_instanceId r) s then (s, Some ErrorEndpointNotFound)
      else if \<not> lrs_gatewayExists (rs_gatewayId r) s then (s, Some ErrorGatewayNotFound)
      else
        let p = length (lrs_heap s);
            reqs = the (mget (lrs_gatewayRequestSet s) (rs_gatewayId r));
            iv = the (mget (lrs_instanceViews s) (rs_instanceId r))
        in (s\<lparr>lrs_heap := lrs_heap s @ [r],
              lrs_requestStates := mput (rs_reqId r) p (lrs_requestStates s),
              lrs_gatewayRequestSet :=
                mput (rs_gatewayId r) (List.insert (rs_reqId r) reqs) (lrs_gatewayRequestSet s),
              lrs_instanceViews :=
                mput (rs_instanceId r) (iv_AllocateRequestState p r iv) (lrs_instanceViews s)\<rparr>, None))"

definition lrs_UpdateRequestState ::
  "RequestState \<Rightarrow> LocalRealtimeState \<Rightarrow> LocalRealtimeState \<times> go_error option" where
  "lrs_UpdateRequestState r s =
     (if \<not> lrs_requestExists (rs_reqId r) s then (s, Some ErrorRequestNotExits)
      else if \<not> lrs_instanceExists (rs_instanceId r) s then (s, Some ErrorEndpointNotFound)
      else if \<not> lrs_gatewayExists (rs_gatewayId r) s then (s, Some ErrorGatewayNotFound)
      else
        let iv = the (mget (lrs_instanceViews s) (rs_instanceId r));
            (h, iv, err) = iv_UpdateRequestState r (lrs_heap s) iv
        in (s\<lparr>lrs_heap := h, lrs_instanceViews := mput (rs_instanceId r) iv (lrs_instanceViews s)\<rparr>, err))"

definition lrs_MarkPrefillComplete ::
  "RequestState \<Rightarrow> LocalRealtimeState \<Rightarrow> LocalRealtimeState \<times> go_error option" where
  "lrs_MarkPrefillComplete r s =
     (if \<not> lrs_requestExists (rs_reqId r) s then (s, Some ErrorRequestNotExits)
      else if \<not> lrs_instanceExists (rs_instanceId r) s then (s, Some ErrorRequestNotExits)
      else if \<not> lrs_gatewayExists (rs_gatewayId r) s then (s, Some ErrorGatewayNotFound)
      else
        let iv = the (mget (lrs_instanceViews s) (rs_instanceId r))
        in (s\<lparr>lrs_heap := iv_MarkPrefillComplete r (lrs_heap s) iv\<rparr>, None))"

definition lrs_ReleaseRequestState :: "RequestState \<Rightarrow> LocalRealtimeState \<Rightarrow> LocalRealtimeState" where
  "lrs_ReleaseRequestState r s =
     (if \<not> lrs_requestExists (rs_reqId r) s then s
      else if \<not> lrs_instanceExists (rs_instanceId r) s then s
      else if \<not> lrs_gatewayExists (rs_gatewayId r) s then s
      else
        let iv = the (mget (lrs_instanceViews s) (rs_instanceId r));
            reqs = the (mget (lrs_gatewayRequestSet s) (rs_gatewayId r))
        in s\<lparr>lrs_instanceViews :=
               mput (rs_instanceId r) (iv_ReleaseRequestState (rs_reqId r) (lrs_heap s) iv)
                 (lrs_instanceViews s),
             lrs_requestStates := mdel (rs_reqId r) (lrs_requestStates s),
             lrs_gatewayRequestSet :=
               mput (rs_gatewayId r) (removeAll (rs_reqId r) reqs) (lrs_gatewayRequestSet s)\<rparr>)"

subsection \<open>Operations as steps\<close>

datatype lrs_op =
    AddInstanceOp LLMInstance
  | RemoveInstanceOp string
  | AddGatewayOp string
  | RemoveGatewayOp string
  | AllocateOp RequestState
  | UpdateOp RequestState
  | MarkPrefillOp RequestState
  | ReleaseOp RequestState

fun lrs_exec :: "lrs_op \<Rightarrow> LocalRealtimeState \<Rightarrow> LocalRealtimeState \<times> go_error option" where
  "lrs_exec (AddInstanceOp i) s = (lrs_AddInstance i s, None)"
| "lrs_exec (RemoveInstanceOp i) s = (lrs_RemoveInstance i s, None)"
| "lrs_exec (AddGatewayOp g) s = (lrs_AddGateway g s, None)"
| "lrs_exec (RemoveGatewayOp g) s = (lrs_RemoveGateway g s, None)"
| "lrs_exec (AllocateOp r) s = lrs_AllocateRequestState r s"
| "lrs_exec (UpdateOp r) s = lrs_UpdateRequestState r s"
| "lrs_exec (MarkPrefillOp r) s = lrs_MarkPrefillComplete r s"
| "lrs_exec (ReleaseOp r) s = (lrs_ReleaseRequestState r s, None)"

text \<open>
  What the callers guarantee: reported token counts are counts (never negative) and the tokens of one
  instance stay within a 64-bit integer; a release names the instance and the gateway the request was
  allocated with, which is how the gateway's \<open>SchedulerClient\<close> builds its release requests.
\<close>

definition lrs_total :: "string \<Rightarrow> LocalRealtimeState \<Rightarrow> int" where
  "lrs_total instanceId s =
     (case mget (lrs_instanceViews s) instanceId of None \<Rightarrow> 0 | Some iv \<Rightarrow> sint (iv_numTokens iv))"

fun lrs_op_ok :: "lrs_op \<Rightarrow> LocalRealtimeState \<Rightarrow> bool" where
  "lrs_op_ok (AllocateOp r) s =
     (0 \<le> sint (rs_numTokens r) \<and> lrs_total (rs_instanceId r) s + sint (rs_numTokens r) < 2 ^ 63)"
| "lrs_op_ok (UpdateOp r) s =
     (0 \<le> sint (rs_numTokens r) \<and> lrs_total (rs_instanceId r) s + sint (rs_numTokens r) < 2 ^ 63)"
| "lrs_op_ok (ReleaseOp r) s =
     (case mget (lrs_requestStates s) (rs_reqId r) of
        None \<Rightarrow> True
      | Some p \<Rightarrow> rs_instanceId (lrs_heap s ! p) = rs_instanceId r \<and>
                  rs_gatewayId (lrs_heap s ! p) = rs_gatewayId r)"
| "lrs_op_ok _ s = True"

inductive lrs_reachable :: "LocalRealtimeState \<Rightarrow> bool" where
  lrs_init: "lrs_reachable NewLocalRealtimeState"
| lrs_next: "lrs_reachable s \<Longrightarrow> lrs_op_ok op s \<Longrightarrow> lrs_reachable (fst (lrs_exec op s))"

subsection \<open>The invariant\<close>

text \<open>A view agrees with the heap: each entry points at a request of that name on that instance,
  and the counter is the sum of the requests' tokens.\<close>

definition view_ok :: "RequestState list \<Rightarrow> string \<Rightarrow> InstanceView \<Rightarrow> bool" where
  "view_ok h i iv \<longleftrightarrow>
     mwf (iv_requestStates iv) \<and>
     (\<forall>r p. mget (iv_requestStates iv) r = Some p \<longrightarrow>
        p < length h \<and> rs_reqId (h ! p) = r \<and> rs_instanceId (h ! p) = i \<and>
        0 \<le> sint (rs_numTokens (h ! p))) \<and>
     sint (iv_numTokens iv) = msum (\<lambda>_ p. sint (rs_numTokens (h ! p))) (iv_requestStates iv) \<and>
     iv_version iv = li_Version (iv_instance iv) \<and> li_ID (iv_instance iv) = i \<and> i \<noteq> []"

definition lrs_core :: "LocalRealtimeState \<Rightarrow> bool" where
  "lrs_core s \<longleftrightarrow>
     mwf (lrs_requestStates s) \<and> mwf (lrs_instanceViews s) \<and>
     (\<forall>i iv. mget (lrs_instanceViews s) i = Some iv \<longrightarrow> view_ok (lrs_heap s) i iv) \<and>
     (\<forall>r p. mget (lrs_requestStates s) r = Some p \<longleftrightarrow>
        (\<exists>i iv. mget (lrs_instanceViews s) i = Some iv \<and> mget (iv_requestStates iv) r = Some p))"

definition lrs_gws :: "LocalRealtimeState \<Rightarrow> bool" where
  "lrs_gws s \<longleftrightarrow>
     mwf (lrs_gatewayRequestSet s) \<and>
     (\<forall>r p. mget (lrs_requestStates s) r = Some p \<longrightarrow>
        mget (lrs_gatewayRequestSet s) (rs_gatewayId (lrs_heap s ! p)) \<noteq> None) \<and>
     (\<forall>g reqs r. mget (lrs_gatewayRequestSet s) g = Some reqs \<longrightarrow>
        (r \<in> set reqs \<longleftrightarrow>
          (\<exists>p. mget (lrs_requestStates s) r = Some p \<and> rs_gatewayId (lrs_heap s ! p) = g)))"

definition lrs_wf :: "LocalRealtimeState \<Rightarrow> bool" where
  "lrs_wf s \<longleftrightarrow> lrs_core s \<and> lrs_gws s"

subsection \<open>Views keep their invariant\<close>

lemma view_ok_append [intro]: "view_ok h i iv \<Longrightarrow> view_ok (h @ [r]) i iv"
  by (auto simp: view_ok_def nth_append mget_iff_mem intro!: msum_cong less_SucI)

lemma view_ok_sum_nonneg:
  assumes "view_ok h i iv"
  shows "0 \<le> msum (\<lambda>_ p. sint (rs_numTokens (h ! p))) (iv_requestStates iv)"
  using assms by (intro msum_nonneg) (auto simp: view_ok_def mget_iff_mem)

lemma view_ok_tokens_nonneg: "view_ok h i iv \<Longrightarrow> 0 \<le> sint (iv_numTokens iv)"
  using view_ok_sum_nonneg by (auto simp: view_ok_def)

lemma view_ok_member_le:
  assumes "view_ok h i iv" "mget (iv_requestStates iv) r = Some p"
  shows "0 \<le> sint (rs_numTokens (h ! p))" "sint (rs_numTokens (h ! p)) \<le> sint (iv_numTokens iv)"
proof -
  have "(r, p) \<in> set (iv_requestStates iv)"
    using assms by (simp add: view_ok_def mget_iff_mem)
  then have "sint (rs_numTokens (h ! p)) \<le> msum (\<lambda>_ p. sint (rs_numTokens (h ! p))) (iv_requestStates iv)"
    using assms msum_member_le [where f = "\<lambda>_ p. sint (rs_numTokens (h ! p))"]
    by (fastforce simp: view_ok_def mget_iff_mem)
  with assms show "0 \<le> sint (rs_numTokens (h ! p))" "sint (rs_numTokens (h ! p)) \<le> sint (iv_numTokens iv)"
    by (auto simp: view_ok_def)
qed

lemma view_ok_New: "li_ID inst \<noteq> [] \<Longrightarrow> view_ok h (li_ID inst) (NewInstanceView inst)"
  by (simp add: view_ok_def NewInstanceView_def go_sum_simps)

lemma NewInstanceView_requests [simp]:
  "iv_requestStates (NewInstanceView inst) = []" "iv_instance (NewInstanceView inst) = inst"
  by (simp_all add: NewInstanceView_def)

lemma msum_append_heap:
  assumes "view_ok h i iv"
  shows "msum (\<lambda>_ p. sint (rs_numTokens ((h @ [r]) ! p))) (iv_requestStates iv) = sint (iv_numTokens iv)"
  using view_ok_append [OF assms, of r] by (simp add: view_ok_def)

lemma view_ok_Allocate:
  assumes "view_ok h i iv" "mget (iv_requestStates iv) (rs_reqId r) = None" "rs_instanceId r = i"
    "0 \<le> sint (rs_numTokens r)" "sint (iv_numTokens iv) + sint (rs_numTokens r) < 2 ^ 63"
  shows "view_ok (h @ [r]) i (iv_AllocateRequestState (length h) r iv)"
proof -
  have "sint (iv_numTokens iv + rs_numTokens r) = sint (iv_numTokens iv) + sint (rs_numTokens r)"
    using assms view_ok_tokens_nonneg [OF assms(1)] by (intro i64_simps) auto
  moreover have "msum (\<lambda>_ p. sint (rs_numTokens ((h @ [r]) ! p)))
      (mput (rs_reqId r) (length h) (iv_requestStates iv)) = sint (iv_numTokens iv) + sint (rs_numTokens r)"
    using assms(1,2) msum_append_heap [OF assms(1), of r]
    by (simp add: view_ok_def msum_mput)
  ultimately show ?thesis
    using assms by (auto simp: view_ok_def iv_AllocateRequestState_def go_map_simps nth_append less_Suc_eq
        split: if_splits)
qed

lemma iv_Release_tokens:
  assumes "view_ok h i iv" "mget (iv_requestStates iv) r = Some p"
  shows "sint (iv_numTokens (iv_ReleaseRequestState r h iv)) = sint (iv_numTokens iv) - sint (rs_numTokens (h ! p))"
proof -
  have "sint (iv_numTokens iv - rs_numTokens (h ! p)) = sint (iv_numTokens iv) - sint (rs_numTokens (h ! p))"
    using view_ok_member_le [OF assms] sint_i64_bounds [of "iv_numTokens iv"] by (intro i64_simps) auto
  then show ?thesis
    using assms view_ok_member_le [OF assms] by (simp add: iv_ReleaseRequestState_def)
qed

lemma iv_Release_simps [simp]:
  "iv_instance (iv_ReleaseRequestState r h iv) = iv_instance iv"
  "iv_version (iv_ReleaseRequestState r h iv) = iv_version iv"
  "mget (iv_requestStates (iv_ReleaseRequestState r h iv)) = (mget (iv_requestStates iv))(r := None)"
  by (auto simp: iv_ReleaseRequestState_def go_map_simps split: option.splits)

lemma view_ok_Release [intro]:
  assumes "view_ok h i iv"
  shows "view_ok h i (iv_ReleaseRequestState r h iv)"
proof (cases "mget (iv_requestStates iv) r")
  case None
  with assms show ?thesis by (simp add: iv_ReleaseRequestState_def)
next
  case (Some p)
  then have "iv_requestStates (iv_ReleaseRequestState r h iv) = mdel r (iv_requestStates iv)"
    by (simp add: iv_ReleaseRequestState_def)
  moreover from assms Some
  have "msum (\<lambda>_ p. sint (rs_numTokens (h ! p))) (mdel r (iv_requestStates iv)) =
        sint (iv_numTokens iv) - sint (rs_numTokens (h ! p))"
    by (simp add: view_ok_def msum_mdel)
  ultimately show ?thesis
    using assms iv_Release_tokens [OF assms Some]
    by (auto simp: view_ok_def go_map_simps)
qed

text \<open>Writing an object through its pointer: a write that keeps name, instance and tokens is
  invisible to every view; any write is invisible to a view that does not hold the pointer.\<close>

lemma view_ok_write_same:
  assumes "view_ok h i iv" "rs_reqId x = rs_reqId (h ! p)" "rs_instanceId x = rs_instanceId (h ! p)"
    "rs_numTokens x = rs_numTokens (h ! p)"
  shows "view_ok (h[p := x]) i iv"
proof -
  have "rs_reqId (h[p := x] ! q) = rs_reqId (h ! q)" "rs_instanceId (h[p := x] ! q) = rs_instanceId (h ! q)"
    "rs_numTokens (h[p := x] ! q) = rs_numTokens (h ! q)" for q
    using assms(2-4) by (cases "p = q"; cases "p < length h"; simp add: list_update_beyond)+
  with assms(1) show ?thesis by (simp add: view_ok_def)
qed

lemma view_ok_write_other:
  assumes "view_ok h i iv" "\<And>r. mget (iv_requestStates iv) r \<noteq> Some p"
  shows "view_ok (h[p := x]) i iv"
proof -
  have "msum (\<lambda>_ q. sint (rs_numTokens (h[p := x] ! q))) (iv_requestStates iv) =
        msum (\<lambda>_ q. sint (rs_numTokens (h ! q))) (iv_requestStates iv)"
    using assms by (intro msum_cong) (metis mget_iff_mem nth_list_update_neq view_ok_def)
  moreover have "mget (iv_requestStates iv) r = Some q \<Longrightarrow> h[p := x] ! q = h ! q" for r q
    using assms(2) [of r] by (metis nth_list_update_neq)
  ultimately show ?thesis
    using assms(1) by (auto simp: view_ok_def)
qed

lemma msum_single_change:
  assumes "mwf m" "mget m k = Some v" "\<And>k' v'. mget m k' = Some v' \<Longrightarrow> k' \<noteq> k \<Longrightarrow> g k' v' = f k' v'"
  shows "msum g m = msum f m - f k v + (g k v :: int)"
proof -
  have "msum g (mdel k m) = msum f (mdel k m)"
    using assms by (intro msum_cong)
      (metis distinct_delete mget_iff_mem mget_mdel option.distinct(1))
  with assms(1,2) show ?thesis by (simp add: msum_mdel)
qed

subsection \<open>The core invariant: request table and views agree\<close>

lemma core_view: "lrs_core s \<Longrightarrow> mget (lrs_instanceViews s) i = Some iv \<Longrightarrow> view_ok (lrs_heap s) i iv"
  by (simp add: lrs_core_def)

lemma core_view_req:
  assumes "lrs_core s" "mget (lrs_instanceViews s) i = Some iv" "mget (iv_requestStates iv) r = Some p"
  shows "mget (lrs_requestStates s) r = Some p" "p < length (lrs_heap s)"
    "rs_reqId (lrs_heap s ! p) = r" "rs_instanceId (lrs_heap s ! p) = i"
    "0 \<le> sint (rs_numTokens (lrs_heap s ! p))"
  using assms by (auto simp: lrs_core_def view_ok_def)

lemma core_req:
  assumes "lrs_core s" "mget (lrs_requestStates s) r = Some p"
  obtains iv where "mget (lrs_instanceViews s) (rs_instanceId (lrs_heap s ! p)) = Some iv"
    "mget (iv_requestStates iv) r = Some p" "p < length (lrs_heap s)" "rs_reqId (lrs_heap s ! p) = r"
proof -
  obtain i iv where "mget (lrs_instanceViews s) i = Some iv" "mget (iv_requestStates iv) r = Some p"
    using assms unfolding lrs_core_def by blast
  with that core_view_req [OF assms(1) this] show ?thesis by blast
qed

lemma core_req_in_view:
  assumes "lrs_core s" "mget (lrs_instanceViews s) i = Some iv"
  shows "mget (iv_requestStates iv) r = Some p \<longleftrightarrow>
         mget (lrs_requestStates s) r = Some p \<and> rs_instanceId (lrs_heap s ! p) = i"
proof (intro iffI conjI)
  assume "mget (iv_requestStates iv) r = Some p"
  with core_view_req [OF assms]
  show "mget (lrs_requestStates s) r = Some p" "rs_instanceId (lrs_heap s ! p) = i" by simp_all
next
  assume "mget (lrs_requestStates s) r = Some p \<and> rs_instanceId (lrs_heap s ! p) = i"
  with assms show "mget (iv_requestStates iv) r = Some p" by (auto elim: core_req [OF assms(1)])
qed

lemma core_view_lookup:
  assumes "lrs_core s" "mget (lrs_instanceViews s) i = Some iv" "mget (lrs_requestStates s) r = Some p"
  shows "mget (iv_requestStates iv) r = (if rs_instanceId (lrs_heap s ! p) = i then Some p else None)"
proof (cases "mget (iv_requestStates iv) r")
  case None
  with core_req_in_view [OF assms(1,2), of r p] assms(3) show ?thesis by simp
next
  case (Some q)
  with core_req_in_view [OF assms(1,2), of r q] assms(3) show ?thesis by simp
qed

lemma core_ptr_inj:
  "lrs_core s \<Longrightarrow> mget (lrs_requestStates s) r = Some p \<Longrightarrow> mget (lrs_requestStates s) r' = Some p \<Longrightarrow> r = r'"
  by (metis core_req)

lemma lrs_coreI:
  assumes "mwf (lrs_requestStates s)" "mwf (lrs_instanceViews s)"
    "\<And>i iv. mget (lrs_instanceViews s) i = Some iv \<Longrightarrow> view_ok (lrs_heap s) i iv"
    "\<And>r p. mget (lrs_requestStates s) r = Some p \<Longrightarrow>
       \<exists>iv. mget (lrs_instanceViews s) (rs_instanceId (lrs_heap s ! p)) = Some iv \<and>
         mget (iv_requestStates iv) r = Some p"
    "\<And>i iv r p. mget (lrs_instanceViews s) i = Some iv \<Longrightarrow> mget (iv_requestStates iv) r = Some p \<Longrightarrow>
       mget (lrs_requestStates s) r = Some p"
  shows "lrs_core s"
  using assms unfolding lrs_core_def by blast

lemma forget_fold:
  "lrs_instanceViews (foldl (\<lambda>s r. forget_request r s) s ks) = lrs_instanceViews s"
  "lrs_heap (foldl (\<lambda>s r. forget_request r s) s ks) = lrs_heap s"
  "mget (lrs_requestStates (foldl (\<lambda>s r. forget_request r s) s ks)) r =
     (if r \<in> set ks then None else mget (lrs_requestStates s) r)"
  "mget (lrs_gatewayRequestSet (foldl (\<lambda>s r. forget_request r s) s ks)) g =
     map_option (filter (\<lambda>r. r \<notin> set ks)) (mget (lrs_gatewayRequestSet s) g)"
  "mwf (lrs_requestStates s) \<Longrightarrow> mwf (lrs_requestStates (foldl (\<lambda>s r. forget_request r s) s ks))"
  "mwf (lrs_gatewayRequestSet s) \<Longrightarrow>
     mwf (lrs_gatewayRequestSet (foldl (\<lambda>s r. forget_request r s) s ks))"
  by (induction ks arbitrary: s)
    (auto simp: forget_request_def go_map_simps option.map_comp o_def option.map_ident
      removeAll_filter_not_eq intro!: map_option_cong filter_cong)

lemma removeInstance_fields:
  "lrs_heap (lrs_removeInstance i s) = lrs_heap s"
  "mget (lrs_instanceViews (lrs_removeInstance i s)) = (mget (lrs_instanceViews s))(i := None)"
  "mwf (lrs_instanceViews s) \<Longrightarrow> mwf (lrs_instanceViews (lrs_removeInstance i s))"
  "mwf (lrs_requestStates s) \<Longrightarrow> mwf (lrs_requestStates (lrs_removeInstance i s))"
  "mwf (lrs_gatewayRequestSet s) \<Longrightarrow> mwf (lrs_gatewayRequestSet (lrs_removeInstance i s))"
  by (auto simp: lrs_removeInstance_def Let_def forget_fold go_map_simps split: option.splits)

lemma removeInstance_requests:
  assumes "lrs_core s"
  shows "mget (lrs_requestStates (lrs_removeInstance i s)) r =
    (case mget (lrs_requestStates s) r of None \<Rightarrow> None
     | Some p \<Rightarrow> if rs_instanceId (lrs_heap s ! p) = i then None else Some p)"
proof (cases "mget (lrs_instanceViews s) i")
  case None
  then show ?thesis
    using assms by (auto simp: lrs_removeInstance_def split: option.splits elim!: core_req)
next
  case (Some iv)
  have "r \<in> set (iv_GetRequestIds iv) \<longleftrightarrow>
        (\<exists>p. mget (lrs_requestStates s) r = Some p \<and> rs_instanceId (lrs_heap s ! p) = i)"
    using core_req_in_view [OF assms Some] by (simp only: iv_GetRequestIds_def mem_mkeys_iff)
  with Some show ?thesis
    by (auto simp: lrs_removeInstance_def Let_def forget_fold split: option.splits)
qed

lemma removeInstance_gateways:
  assumes "lrs_core s"
  shows "mget (lrs_gatewayRequestSet (lrs_removeInstance i s)) g =
    map_option (filter (\<lambda>r. \<not> (\<exists>p. mget (lrs_requestStates s) r = Some p \<and> rs_instanceId (lrs_heap s ! p) = i)))
      (mget (lrs_gatewayRequestSet s) g)"
proof (cases "mget (lrs_instanceViews s) i")
  case None
  then have "\<not> (\<exists>p. mget (lrs_requestStates s) r = Some p \<and> rs_instanceId (lrs_heap s ! p) = i)" for r
    using assms by (auto elim!: core_req)
  with None show ?thesis
    by (auto simp: lrs_removeInstance_def option.map_ident cong: map_option_cong)
next
  case (Some iv)
  have "r \<in> set (iv_GetRequestIds iv) \<longleftrightarrow>
        (\<exists>p. mget (lrs_requestStates s) r = Some p \<and> rs_instanceId (lrs_heap s ! p) = i)" for r
    using core_req_in_view [OF assms Some] by (simp only: iv_GetRequestIds_def mem_mkeys_iff)
  with Some show ?thesis
    by (simp add: lrs_removeInstance_def Let_def forget_fold)
qed

lemma core_removeInstance:
  assumes "lrs_core s"
  shows "lrs_core (lrs_removeInstance i s)"
proof (rule lrs_coreI)
  show "mwf (lrs_requestStates (lrs_removeInstance i s))" "mwf (lrs_instanceViews (lrs_removeInstance i s))"
    using assms by (auto simp: removeInstance_fields lrs_core_def)
next
  fix j iv assume "mget (lrs_instanceViews (lrs_removeInstance i s)) j = Some iv"
  with assms show "view_ok (lrs_heap (lrs_removeInstance i s)) j iv"
    by (auto simp: removeInstance_fields core_view split: if_splits)
next
  fix r p assume "mget (lrs_requestStates (lrs_removeInstance i s)) r = Some p"
  then have "mget (lrs_requestStates s) r = Some p" "rs_instanceId (lrs_heap s ! p) \<noteq> i"
    using assms by (auto simp: removeInstance_requests split: option.splits if_splits)
  with assms show "\<exists>iv. mget (lrs_instanceViews (lrs_removeInstance i s))
        (rs_instanceId (lrs_heap (lrs_removeInstance i s) ! p)) = Some iv \<and>
      mget (iv_requestStates iv) r = Some p"
    by (auto simp: removeInstance_fields elim!: core_req)
next
  fix j iv r p assume "mget (lrs_instanceViews (lrs_removeInstance i s)) j = Some iv"
    "mget (iv_requestStates iv) r = Some p"
  with assms show "mget (lrs_requestStates (lrs_removeInstance i s)) r = Some p"
    by (auto simp: removeInstance_fields removeInstance_requests core_view_req split: if_splits)
qed

lemma gws_removeInstance:
  assumes "lrs_core s" "lrs_gws s"
  shows "lrs_gws (lrs_removeInstance i s)"
  using assms
  by (fastforce simp: lrs_gws_def removeInstance_fields removeInstance_requests removeInstance_gateways
      split: option.splits if_splits)

lemma core_gateway_update [simp]: "lrs_core (s\<lparr>lrs_gatewayRequestSet := g\<rparr>) = lrs_core s"
  by (simp add: lrs_core_def)

lemma gws_views_update [simp]: "lrs_gws (s\<lparr>lrs_instanceViews := v\<rparr>) = lrs_gws s"
  by (simp add: lrs_gws_def)

lemma core_put_view:
  assumes "lrs_core s" "mget (lrs_instanceViews s) (li_ID inst) = None" "li_ID inst \<noteq> []"
  shows "lrs_core (s\<lparr>lrs_instanceViews := mput (li_ID inst) (NewInstanceView inst) (lrs_instanceViews s)\<rparr>)"
proof (rule lrs_coreI, goal_cases)
  case (4 r p)
  then have "mget (lrs_requestStates s) r = Some p" by simp
  with assms show ?case by (auto simp: go_map_simps elim!: core_req [OF assms(1)])
qed (use assms in \<open>auto simp: lrs_core_def go_map_simps view_ok_New split: if_splits\<close>)

lemma LLMInstance_Id_ID: "LLMInstance_Id w = (n, w') \<Longrightarrow> n = li_ID w' \<and> li_ID w' \<noteq> []"
  by (auto simp: LLMInstance_Id_def Let_def split: if_splits)

lemma AddInstance_cases:
  assumes "LLMInstance_Id w = (n, w')"
  obtains (new) "mget (lrs_instanceViews s) n = None"
      "lrs_AddInstance w s = s\<lparr>lrs_instanceViews := mput n (NewInstanceView w') (lrs_instanceViews s)\<rparr>"
  | (newer) old where "mget (lrs_instanceViews s) n = Some old" "sint (iv_version old) < sint (li_Version w')"
      "lrs_AddInstance w s =
        (lrs_removeInstance n s)\<lparr>lrs_instanceViews :=
           mput n (NewInstanceView w') (lrs_instanceViews (lrs_removeInstance n s))\<rparr>"
  | (stale) old where "mget (lrs_instanceViews s) n = Some old" "sint (li_Version w') \<le> sint (iv_version old)"
      "lrs_AddInstance w s = s"
  using assms
  by (cases "mget (lrs_instanceViews s) n"; force simp: lrs_AddInstance_def Let_def not_less)

lemma wf_AddInstance: "lrs_wf s \<Longrightarrow> lrs_wf (lrs_AddInstance w s)"
proof -
  obtain n w' where w: "LLMInstance_Id w = (n, w')" by (cases "LLMInstance_Id w")
  note n = LLMInstance_Id_ID [OF w]
  assume "lrs_wf s"
  then have s: "lrs_core s" "lrs_gws s" by (simp_all add: lrs_wf_def)
  then have r: "lrs_core (lrs_removeInstance n s)" "lrs_gws (lrs_removeInstance n s)"
    by (simp_all add: core_removeInstance gws_removeInstance)
  show ?thesis
    using w
  proof (cases rule: AddInstance_cases [where s = s])
    case new
    with s n show ?thesis using core_put_view [of s w'] by (simp add: lrs_wf_def)
  next
    case newer
    with r n show ?thesis using core_put_view [of "lrs_removeInstance n s" w']
      by (simp add: lrs_wf_def removeInstance_fields)
  next
    case stale
    with \<open>lrs_wf s\<close> show ?thesis by simp
  qed
qed

lemma wf_RemoveInstance: "lrs_wf s \<Longrightarrow> lrs_wf (lrs_RemoveInstance i s)"
  by (simp add: lrs_RemoveInstance_def lrs_wf_def core_removeInstance gws_removeInstance)

lemma wf_AddGateway: "lrs_wf s \<Longrightarrow> lrs_wf (lrs_AddGateway g s)"
  by (fastforce simp: lrs_AddGateway_def lrs_wf_def lrs_gws_def go_map_simps
      split: option.splits if_splits)

text \<open>Dropping one request from the table and from the view of its instance.\<close>

lemma core_release:
  assumes "lrs_core s" "mget (lrs_requestStates s) r = Some p"
    "mget (lrs_instanceViews s) (rs_instanceId (lrs_heap s ! p)) = Some iv"
  shows "lrs_core (s\<lparr>lrs_instanceViews :=
      mput (rs_instanceId (lrs_heap s ! p)) (iv_ReleaseRequestState r (lrs_heap s) iv) (lrs_instanceViews s),
      lrs_requestStates := mdel r (lrs_requestStates s)\<rparr>)"
proof (rule lrs_coreI, goal_cases)
  case (3 i jv)
  with assms show ?case by (auto simp: go_map_simps core_view split: if_splits)
next
  case (4 q x)
  then have "mget (lrs_requestStates s) q = Some x" "q \<noteq> r" by (auto simp: go_map_simps split: if_splits)
  with assms show ?case by (auto simp: go_map_simps elim!: core_req [OF assms(1)])
next
  case (5 i jv q x)
  with assms show ?case
    using core_req_in_view [OF assms(1), of i] by (fastforce simp: go_map_simps split: if_splits)
qed (use assms in \<open>auto simp: lrs_core_def go_map_simps\<close>)

lemma release_of_gateway_spec:
  assumes "lrs_core s"
  shows "lrs_core (lrs_release_of_gateway r s)"
    "mget (lrs_requestStates (lrs_release_of_gateway r s)) = (mget (lrs_requestStates s))(r := None)"
    "lrs_heap (lrs_release_of_gateway r s) = lrs_heap s"
    "lrs_gatewayRequestSet (lrs_release_of_gateway r s) = lrs_gatewayRequestSet s"
    "map_option iv_instance (mget (lrs_instanceViews (lrs_release_of_gateway r s)) i) =
     map_option iv_instance (mget (lrs_instanceViews s) i)"
proof -
  show "lrs_core (lrs_release_of_gateway r s)"
    using assms core_release [OF assms]
    by (auto simp: lrs_release_of_gateway_def Let_def split: option.splits elim: core_req [OF assms])
qed (auto simp: lrs_release_of_gateway_def Let_def go_map_simps split: option.splits)

lemma release_of_gateway_fold:
  assumes "lrs_core s"
  defines "f \<equiv> foldl (\<lambda>s r. lrs_release_of_gateway r s)"
  shows "lrs_core (f s rs) \<and>
    mget (lrs_requestStates (f s rs)) = (\<lambda>r. if r \<in> set rs then None else mget (lrs_requestStates s) r) \<and>
    lrs_heap (f s rs) = lrs_heap s \<and> lrs_gatewayRequestSet (f s rs) = lrs_gatewayRequestSet s \<and>
    (\<forall>i. map_option iv_instance (mget (lrs_instanceViews (f s rs)) i) =
         map_option iv_instance (mget (lrs_instanceViews s) i))"
  using assms(1) unfolding f_def
  by (induction rs arbitrary: s) (auto simp: release_of_gateway_spec fun_eq_iff)

lemma wf_RemoveGateway:
  assumes "lrs_wf s"
  shows "lrs_wf (lrs_RemoveGateway g s)"
proof (cases "mget (lrs_gatewayRequestSet s) g")
  case None
  with assms show ?thesis by (simp add: lrs_RemoveGateway_def)
next
  case (Some reqs)
  have core: "lrs_core s" and gws: "lrs_gws s" using assms by (simp_all add: lrs_wf_def)
  note f = release_of_gateway_fold [OF core, of reqs]
  from gws Some have "r \<in> set reqs \<longleftrightarrow>
      (\<exists>p. mget (lrs_requestStates s) r = Some p \<and> rs_gatewayId (lrs_heap s ! p) = g)" for r
    by (simp add: lrs_gws_def)
  with f gws Some show ?thesis
    by (auto simp: lrs_RemoveGateway_def lrs_wf_def lrs_gws_def go_map_simps split: if_splits)
qed

lemma Allocate_eq:
  "lrs_AllocateRequestState r s =
     (case mget (lrs_requestStates s) (rs_reqId r) of Some _ \<Rightarrow> (s, Some ErrorRequestExits)
      | None \<Rightarrow> case mget (lrs_instanceViews s) (rs_instanceId r) of None \<Rightarrow> (s, Some ErrorEndpointNotFound)
      | Some iv \<Rightarrow> case mget (lrs_gatewayRequestSet s) (rs_gatewayId r) of None \<Rightarrow> (s, Some ErrorGatewayNotFound)
      | Some reqs \<Rightarrow>
        (s\<lparr>lrs_heap := lrs_heap s @ [r],
           lrs_requestStates := mput (rs_reqId r) (length (lrs_heap s)) (lrs_requestStates s),
           lrs_gatewayRequestSet :=
             mput (rs_gatewayId r) (List.insert (rs_reqId r) reqs) (lrs_gatewayRequestSet s),
           lrs_instanceViews :=
             mput (rs_instanceId r) (iv_AllocateRequestState (length (lrs_heap s)) r iv)
               (lrs_instanceViews s)\<rparr>, None))"
  by (auto simp: lrs_AllocateRequestState_def lrs_requestExists_def lrs_instanceExists_def
      lrs_gatewayExists_def Let_def split: option.splits)

lemma Allocate_cases:
  obtains (ok) iv reqs where "mget (lrs_requestStates s) (rs_reqId r) = None"
      "mget (lrs_instanceViews s) (rs_instanceId r) = Some iv"
      "mget (lrs_gatewayRequestSet s) (rs_gatewayId r) = Some reqs"
      "lrs_AllocateRequestState r s =
        (s\<lparr>lrs_heap := lrs_heap s @ [r],
           lrs_requestStates := mput (rs_reqId r) (length (lrs_heap s)) (lrs_requestStates s),
           lrs_gatewayRequestSet :=
             mput (rs_gatewayId r) (List.insert (rs_reqId r) reqs) (lrs_gatewayRequestSet s),
           lrs_instanceViews :=
             mput (rs_instanceId r) (iv_AllocateRequestState (length (lrs_heap s)) r iv)
               (lrs_instanceViews s)\<rparr>, None)"
  | (exists) p where "mget (lrs_requestStates s) (rs_reqId r) = Some p"
      "lrs_AllocateRequestState r s = (s, Some ErrorRequestExits)"
  | (no_instance) "mget (lrs_requestStates s) (rs_reqId r) = None"
      "mget (lrs_instanceViews s) (rs_instanceId r) = None"
      "lrs_AllocateRequestState r s = (s, Some ErrorEndpointNotFound)"
  | (no_gateway) iv where "mget (lrs_requestStates s) (rs_reqId r) = None"
      "mget (lrs_instanceViews s) (rs_instanceId r) = Some iv"
      "mget (lrs_gatewayRequestSet s) (rs_gatewayId r) = None"
      "lrs_AllocateRequestState r s = (s, Some ErrorGatewayNotFound)"
  by (cases "mget (lrs_requestStates s) (rs_reqId r)"; cases "mget (lrs_instanceViews s) (rs_instanceId r)";
      cases "mget (lrs_gatewayRequestSet s) (rs_gatewayId r)"; simp add: Allocate_eq)

lemma core_Allocate:
  assumes "lrs_core s" "mget (lrs_requestStates s) (rs_reqId r) = None"
    "mget (lrs_instanceViews s) (rs_instanceId r) = Some iv"
    "0 \<le> sint (rs_numTokens r)" "sint (iv_numTokens iv) + sint (rs_numTokens r) < 2 ^ 63"
  shows "lrs_core (s\<lparr>lrs_heap := lrs_heap s @ [r],
      lrs_requestStates := mput (rs_reqId r) (length (lrs_heap s)) (lrs_requestStates s),
      lrs_instanceViews := mput (rs_instanceId r) (iv_AllocateRequestState (length (lrs_heap s)) r iv)
        (lrs_instanceViews s)\<rparr>)"
proof (rule lrs_coreI, goal_cases)
  case (3 i jv)
  have "mget (iv_requestStates iv) (rs_reqId r) = None"
    using assms(2) core_view_req(1) [OF assms(1,3)] by (metis option.exhaust option.distinct(1))
  with 3 assms show ?case
    by (auto simp: go_map_simps core_view view_ok_Allocate split: if_splits)
next
  case (4 q x)
  then consider "q = rs_reqId r" "x = length (lrs_heap s)"
    | "q \<noteq> rs_reqId r" "mget (lrs_requestStates s) q = Some x"
    by (auto simp: go_map_simps split: if_splits)
  then show ?case
  proof cases
    case 1
    then show ?thesis by (simp add: go_map_simps iv_AllocateRequestState_def)
  next
    case 2
    with assms show ?thesis
      by (auto simp: go_map_simps iv_AllocateRequestState_def nth_append elim!: core_req [OF assms(1)])
  qed
next
  case (5 i jv q x)
  with assms show ?case
    using core_view_req(1) [OF assms(1)]
    by (fastforce simp: go_map_simps iv_AllocateRequestState_def split: if_splits)
qed (use assms in \<open>auto simp: lrs_core_def go_map_simps\<close>)

lemma core_req_lt: "lrs_core s \<Longrightarrow> mget (lrs_requestStates s) r = Some p \<Longrightarrow> p < length (lrs_heap s)"
  by (auto elim: core_req)

lemma wf_Allocate:
  assumes "lrs_wf s" "lrs_op_ok (AllocateOp r) s"
  shows "lrs_wf (fst (lrs_AllocateRequestState r s))"
proof (cases rule: Allocate_cases [of s r])
  case (ok iv reqs)
  have core: "lrs_core s" and gws: "lrs_gws s" using assms by (simp_all add: lrs_wf_def)
  have "lrs_core (fst (lrs_AllocateRequestState r s))"
    using core_Allocate [OF core ok(1,2)] assms(2) ok core_gateway_update
    by (simp add: lrs_total_def lrs_core_def)
  moreover have "lrs_gws (fst (lrs_AllocateRequestState r s))"
    using gws ok core_req_lt [OF core]
    by (fastforce simp: lrs_gws_def go_map_simps nth_append split: if_splits)
  ultimately show ?thesis by (simp add: lrs_wf_def)
qed (use assms in simp_all)

text \<open>Writing one live request through its pointer.\<close>

lemma core_write:
  assumes "lrs_core s" "mget (lrs_requestStates s) r = Some p"
    "mget (lrs_instanceViews s) (rs_instanceId (lrs_heap s ! p)) = Some iv"
    "rs_instanceId x = rs_instanceId (lrs_heap s ! p)"
    "mget (iv_requestStates jv) = mget (iv_requestStates iv)"
    "view_ok ((lrs_heap s)[p := x]) (rs_instanceId (lrs_heap s ! p)) jv"
  shows "lrs_core (s\<lparr>lrs_heap := (lrs_heap s)[p := x],
      lrs_instanceViews := mput (rs_instanceId (lrs_heap s ! p)) jv (lrs_instanceViews s)\<rparr>)"
proof (rule lrs_coreI, goal_cases)
  case (3 i kv)
  show ?case
  proof (cases "i = rs_instanceId (lrs_heap s ! p)")
    case True
    with 3 assms show ?thesis by (simp add: go_map_simps)
  next
    case False
    with 3 assms(1) have "mget (lrs_instanceViews s) i = Some kv" by (simp add: go_map_simps)
    moreover from this False have "mget (iv_requestStates kv) q \<noteq> Some p" for q
      using core_view_req(4) [OF assms(1)] by blast
    ultimately show ?thesis
      using assms(1) by (simp add: view_ok_write_other core_view)
  qed
next
  case (4 q y)
  then have q: "mget (lrs_requestStates s) q = Some y" by simp
  have "rs_instanceId ((lrs_heap s)[p := x] ! y) = rs_instanceId (lrs_heap s ! y)"
    using assms(4) by (cases "y = p"; cases "p < length (lrs_heap s)"; simp add: list_update_beyond)
  with q assms(3,5) show ?case by (auto simp: go_map_simps elim!: core_req [OF assms(1)])
next
  case (5 i kv q y)
  with assms(3,5) show ?case
    using core_view_req(1) [OF assms(1)] by (auto simp: go_map_simps split: if_splits)
qed (use assms in \<open>auto simp: lrs_core_def go_map_simps\<close>)

lemma gws_write:
  assumes "lrs_gws s" "rs_gatewayId x = rs_gatewayId (lrs_heap s ! p)"
  shows "lrs_gws (s\<lparr>lrs_heap := (lrs_heap s)[p := x]\<rparr>)"
proof -
  have "rs_gatewayId ((lrs_heap s)[p := x] ! q) = rs_gatewayId (lrs_heap s ! q)" for q
    using assms(2) by (cases "q = p"; cases "p < length (lrs_heap s)"; simp add: list_update_beyond)
  with assms(1) show ?thesis by (simp add: lrs_gws_def)
qed

lemma view_ok_Update:
  assumes "view_ok h i iv" "mget (iv_requestStates iv) q = Some p"
    "sint (rs_numTokens (h ! p)) \<le> sint t" "sint (iv_numTokens iv) + sint t < 2 ^ 63"
  shows "view_ok (h[p := (h ! p)\<lparr>rs_numTokens := t, rs_updateTime := u\<rparr>]) i
      (iv\<lparr>iv_numTokens := iv_numTokens iv + (t - rs_numTokens (h ! p))\<rparr>)"
proof -
  let ?h = "h[p := (h ! p)\<lparr>rs_numTokens := t, rs_updateTime := u\<rparr>]"
  note le = view_ok_member_le [OF assms(1,2)]
  have p: "p < length h" "rs_reqId (h ! p) = q" using assms by (auto simp: view_ok_def)
  have diff: "sint (t - rs_numTokens (h ! p)) = sint t - sint (rs_numTokens (h ! p))"
    using assms le sint_i64_bounds [of t] by (intro i64_simps) auto
  have plus: "sint (iv_numTokens iv + (t - rs_numTokens (h ! p))) =
      sint (iv_numTokens iv) + (sint t - sint (rs_numTokens (h ! p)))"
    using assms le diff by (subst sint_add_i64) auto
  have other: "?h ! p' = h ! p'" if "mget (iv_requestStates iv) k = Some p'" "k \<noteq> q" for k p'
    using that assms p by (metis nth_list_update_neq view_ok_def)
  have "msum (\<lambda>_ p. sint (rs_numTokens (?h ! p))) (iv_requestStates iv) =
      sint (iv_numTokens iv) + (sint t - sint (rs_numTokens (h ! p)))"
    using msum_single_change [of "iv_requestStates iv" q p "\<lambda>_ p. sint (rs_numTokens (?h ! p))"
        "\<lambda>_ p. sint (rs_numTokens (h ! p))"] assms other p
    by (simp add: view_ok_def)
  moreover have "rs_reqId (?h ! k) = rs_reqId (h ! k)" "rs_instanceId (?h ! k) = rs_instanceId (h ! k)"
    "0 \<le> sint (rs_numTokens (h ! k)) \<Longrightarrow> 0 \<le> sint (rs_numTokens (?h ! k))" for k
    using p le assms by (cases "k = p"; simp)+
  ultimately show ?thesis
    using assms plus by (simp add: view_ok_def)
qed

lemma Update_eq:
  assumes "lrs_core s"
  shows "lrs_UpdateRequestState r s =
     (case mget (lrs_requestStates s) (rs_reqId r) of None \<Rightarrow> (s, Some ErrorRequestNotExits)
      | Some p \<Rightarrow> case mget (lrs_instanceViews s) (rs_instanceId r) of None \<Rightarrow> (s, Some ErrorEndpointNotFound)
      | Some iv \<Rightarrow> if mget (lrs_gatewayRequestSet s) (rs_gatewayId r) = None then (s, Some ErrorGatewayNotFound)
      else if rs_instanceId (lrs_heap s ! p) \<noteq> rs_instanceId r then (s, Some ErrorRequestNotExits)
      else if rs_gatewayId (lrs_heap s ! p) \<noteq> rs_gatewayId r then (s, Some ErrorRequestGatewayChanged)
      else if 0 \<le> sint (rs_numTokens r - rs_numTokens (lrs_heap s ! p)) then
        (s\<lparr>lrs_heap := (lrs_heap s)[p := (lrs_heap s ! p)
             \<lparr>rs_numTokens := rs_numTokens r, rs_updateTime := rs_updateTime r\<rparr>],
           lrs_instanceViews := mput (rs_instanceId r)
             (iv\<lparr>iv_numTokens := iv_numTokens iv + (rs_numTokens r - rs_numTokens (lrs_heap s ! p))\<rparr>)
             (lrs_instanceViews s)\<rparr>, None)
      else (s, None))"
proof (cases "mget (lrs_requestStates s) (rs_reqId r)")
  case None
  then show ?thesis by (simp add: lrs_UpdateRequestState_def lrs_requestExists_def)
next
  case (Some p)
  show ?thesis
  proof (cases "mget (lrs_instanceViews s) (rs_instanceId r)")
    case None
    with Some show ?thesis
      by (simp add: lrs_UpdateRequestState_def lrs_requestExists_def lrs_instanceExists_def)
  next
    case iv: (Some iv)
    have in_view: "mget (iv_requestStates iv) (rs_reqId r) =
        (if rs_instanceId (lrs_heap s ! p) = rs_instanceId r then Some p else None)"
      by (rule core_view_lookup [OF assms iv Some])
    show ?thesis
      by (simp add: Some iv lrs_UpdateRequestState_def lrs_requestExists_def lrs_instanceExists_def
          lrs_gatewayExists_def iv_UpdateRequestState_def in_view mput_same [OF iv] Let_def)
  qed
qed

lemma wf_Update:
  assumes "lrs_wf s" "lrs_op_ok (UpdateOp r) s"
  shows "lrs_wf (fst (lrs_UpdateRequestState r s))"
proof -
  have core: "lrs_core s" and gws: "lrs_gws s" using assms by (simp_all add: lrs_wf_def)
  have "lrs_wf (s\<lparr>lrs_heap := (lrs_heap s)[p := (lrs_heap s ! p)
             \<lparr>rs_numTokens := rs_numTokens r, rs_updateTime := rs_updateTime r\<rparr>],
           lrs_instanceViews := mput (rs_instanceId r)
             (iv\<lparr>iv_numTokens := iv_numTokens iv + (rs_numTokens r - rs_numTokens (lrs_heap s ! p))\<rparr>)
             (lrs_instanceViews s)\<rparr>)"
    if p: "mget (lrs_requestStates s) (rs_reqId r) = Some p"
      and iv: "mget (lrs_instanceViews s) (rs_instanceId r) = Some iv"
      and i: "rs_instanceId (lrs_heap s ! p) = rs_instanceId r"
      and n: "0 \<le> sint (rs_numTokens r - rs_numTokens (lrs_heap s ! p))" for p iv
  proof -
    have q: "mget (iv_requestStates iv) (rs_reqId r) = Some p"
      using core_req_in_view [OF core iv] p i by simp
    have le: "sint (rs_numTokens (lrs_heap s ! p)) \<le> sint (rs_numTokens r)"
      using n core_view_req(5) [OF core iv q] assms(2) sint_i64_bounds [of "rs_numTokens r"]
        sint_i64_bounds [of "rs_numTokens (lrs_heap s ! p)"]
      by (subst (asm) sint_sub_i64) auto
    have "sint (iv_numTokens iv) + sint (rs_numTokens r) < 2 ^ 63"
      using assms(2) iv by (simp add: lrs_total_def)
    from core_write [OF core p _ _ _ view_ok_Update [OF _ q le this]] core_view [OF core iv] iv i
    show ?thesis
      using gws_write [OF gws] by (simp add: lrs_wf_def)
  qed
  with assms(1) show ?thesis
    by (auto simp: Update_eq [OF core] split: option.splits)
qed

lemma Mark_eq:
  assumes "lrs_core s"
  shows "lrs_MarkPrefillComplete r s =
     (case mget (lrs_requestStates s) (rs_reqId r) of None \<Rightarrow> (s, Some ErrorRequestNotExits)
      | Some p \<Rightarrow> case mget (lrs_instanceViews s) (rs_instanceId r) of None \<Rightarrow> (s, Some ErrorRequestNotExits)
      | Some iv \<Rightarrow> if mget (lrs_gatewayRequestSet s) (rs_gatewayId r) = None then (s, Some ErrorGatewayNotFound)
      else if rs_instanceId (lrs_heap s ! p) \<noteq> rs_instanceId r then (s, None)
      else (s\<lparr>lrs_heap := (lrs_heap s)[p := (lrs_heap s ! p)\<lparr>rs_prefillCompleted := True\<rparr>]\<rparr>, None))"
proof (cases "mget (lrs_requestStates s) (rs_reqId r)")
  case None
  then show ?thesis by (simp add: lrs_MarkPrefillComplete_def lrs_requestExists_def)
next
  case (Some p)
  show ?thesis
  proof (cases "mget (lrs_instanceViews s) (rs_instanceId r)")
    case None
    with Some show ?thesis
      by (simp add: lrs_MarkPrefillComplete_def lrs_requestExists_def lrs_instanceExists_def)
  next
    case iv: (Some iv)
    have in_view: "mget (iv_requestStates iv) (rs_reqId r) =
        (if rs_instanceId (lrs_heap s ! p) = rs_instanceId r then Some p else None)"
      by (rule core_view_lookup [OF assms iv Some])
    show ?thesis
      by (simp add: Some iv lrs_MarkPrefillComplete_def lrs_requestExists_def lrs_instanceExists_def
          lrs_gatewayExists_def iv_MarkPrefillComplete_def in_view Let_def)
  qed
qed

lemma wf_Mark:
  assumes "lrs_wf s"
  shows "lrs_wf (fst (lrs_MarkPrefillComplete r s))"
proof -
  have core: "lrs_core s" and gws: "lrs_gws s" using assms by (simp_all add: lrs_wf_def)
  have "lrs_wf (s\<lparr>lrs_heap := (lrs_heap s)[p := (lrs_heap s ! p)\<lparr>rs_prefillCompleted := True\<rparr>]\<rparr>)"
    if p: "mget (lrs_requestStates s) (rs_reqId r) = Some p"
      and iv: "mget (lrs_instanceViews s) (rs_instanceId r) = Some iv"
      and i: "rs_instanceId (lrs_heap s ! p) = rs_instanceId r" for p iv
    using core_write [OF core p, of iv "(lrs_heap s ! p)\<lparr>rs_prefillCompleted := True\<rparr>" iv]
      view_ok_write_same [OF core_view [OF core iv]] gws_write [OF gws] iv i mput_same [OF iv]
    by (simp add: lrs_wf_def)
  with assms show ?thesis
    by (auto simp: Mark_eq [OF core] split: option.splits)
qed

lemma Release_eq:
  assumes "lrs_wf s" "lrs_op_ok (ReleaseOp r) s" "mget (lrs_requestStates s) (rs_reqId r) = Some p"
    "mget (lrs_instanceViews s) (rs_instanceId r) = Some iv"
    "mget (lrs_gatewayRequestSet s) (rs_gatewayId r) = Some reqs"
  shows "lrs_ReleaseRequestState r s =
    s\<lparr>lrs_instanceViews := mput (rs_instanceId r)
          (iv_ReleaseRequestState (rs_reqId r) (lrs_heap s) iv) (lrs_instanceViews s),
      lrs_requestStates := mdel (rs_reqId r) (lrs_requestStates s),
      lrs_gatewayRequestSet :=
        mput (rs_gatewayId r) (removeAll (rs_reqId r) reqs) (lrs_gatewayRequestSet s)\<rparr>"
  using assms by (simp add: lrs_ReleaseRequestState_def lrs_requestExists_def lrs_instanceExists_def
      lrs_gatewayExists_def Let_def)

lemma Release_live:
  assumes "lrs_wf s" "lrs_op_ok (ReleaseOp r) s" "mget (lrs_requestStates s) (rs_reqId r) = Some p"
  obtains iv reqs where "mget (lrs_instanceViews s) (rs_instanceId r) = Some iv"
    "mget (lrs_gatewayRequestSet s) (rs_gatewayId r) = Some reqs"
  using assms by (force simp: lrs_wf_def lrs_gws_def elim: core_req)

lemma wf_Release:
  assumes "lrs_wf s" "lrs_op_ok (ReleaseOp r) s"
  shows "lrs_wf (lrs_ReleaseRequestState r s)"
proof (cases "mget (lrs_requestStates s) (rs_reqId r)")
  case None
  with assms show ?thesis by (simp add: lrs_ReleaseRequestState_def lrs_requestExists_def)
next
  case (Some p)
  from Release_live [OF assms Some] obtain iv reqs where
    v: "mget (lrs_instanceViews s) (rs_instanceId r) = Some iv"
       "mget (lrs_gatewayRequestSet s) (rs_gatewayId r) = Some reqs" .
  have core: "lrs_core s" and gws: "lrs_gws s" using assms by (simp_all add: lrs_wf_def)
  have "lrs_core (lrs_ReleaseRequestState r s)"
    using core_release [OF core Some] assms v Some core_gateway_update
    by (simp add: Release_eq [OF assms Some v])
  moreover have "lrs_gws (lrs_ReleaseRequestState r s)"
    using gws v Some assms(2)
    by (fastforce simp: Release_eq [OF assms Some v] lrs_gws_def go_map_simps split: if_splits)
  ultimately show ?thesis by (simp add: lrs_wf_def)
qed

lemma wf_init: "lrs_wf NewLocalRealtimeState"
  by (simp add: lrs_wf_def lrs_core_def lrs_gws_def NewLocalRealtimeState_def)

lemma wf_exec: "lrs_wf s \<Longrightarrow> lrs_op_ok op s \<Longrightarrow> lrs_wf (fst (lrs_exec op s))"
  by (cases op) (auto simp del: lrs_op_ok.simps intro: wf_AddInstance wf_RemoveInstance wf_AddGateway
      wf_RemoveGateway wf_Allocate wf_Update wf_Mark wf_Release)

lemma reachable_wf: "lrs_reachable s \<Longrightarrow> lrs_wf s"
  by (induction rule: lrs_reachable.induct) (auto simp: wf_init wf_exec)

subsection \<open>Abstract specification and refinement\<close>

text \<open>
  What the component promises: a set of gateways, a table of instances, and a table of live requests.
  An instance that leaves (or comes back with a newer version) takes its requests with it, a gateway
  that leaves takes its requests with it, and a token count only ever grows.
\<close>

record lrs_spec =
  sp_insts :: "string \<rightharpoonup> LLMInstance"
  sp_gws :: "string set"
  sp_live :: "string \<rightharpoonup> RequestState"

definition lrs_abs :: "LocalRealtimeState \<Rightarrow> lrs_spec" where
  "lrs_abs s =
     \<lparr>sp_insts = (\<lambda>i. map_option iv_instance (mget (lrs_instanceViews s) i)),
      sp_gws = set (mkeys (lrs_gatewayRequestSet s)),
      sp_live = (\<lambda>r. map_option (\<lambda>p. lrs_heap s ! p) (mget (lrs_requestStates s) r))\<rparr>"

definition sp_drop :: "(RequestState \<Rightarrow> bool) \<Rightarrow> lrs_spec \<Rightarrow> lrs_spec" where
  "sp_drop P sp = sp\<lparr>sp_live := (\<lambda>r. case sp_live sp r of None \<Rightarrow> None
     | Some rs \<Rightarrow> if P rs then None else Some rs)\<rparr>"

definition sp_known :: "RequestState \<Rightarrow> lrs_spec \<Rightarrow> go_error \<Rightarrow> go_error option" where
  "sp_known r sp no_instance =
     (if sp_live sp (rs_reqId r) = None then Some ErrorRequestNotExits
      else if sp_insts sp (rs_instanceId r) = None then Some no_instance
      else if rs_gatewayId r \<notin> sp_gws sp then Some ErrorGatewayNotFound
      else None)"

fun sp_exec :: "lrs_op \<Rightarrow> lrs_spec \<Rightarrow> lrs_spec \<times> go_error option" where
  "sp_exec (AddInstanceOp w) sp =
     (let (n, w') = LLMInstance_Id w
      in (case sp_insts sp n of
            Some old \<Rightarrow> if sint (li_Version old) < sint (li_Version w')
              then (sp_drop (\<lambda>rs. rs_instanceId rs = n) sp)\<lparr>sp_insts := (sp_insts sp)(n \<mapsto> w')\<rparr> else sp
          | None \<Rightarrow> sp\<lparr>sp_insts := (sp_insts sp)(n \<mapsto> w')\<rparr>, None))"
| "sp_exec (RemoveInstanceOp i) sp =
     ((sp_drop (\<lambda>rs. rs_instanceId rs = i) sp)\<lparr>sp_insts := (sp_insts sp)(i := None)\<rparr>, None)"
| "sp_exec (AddGatewayOp g) sp = (sp\<lparr>sp_gws := insert g (sp_gws sp)\<rparr>, None)"
| "sp_exec (RemoveGatewayOp g) sp =
     ((sp_drop (\<lambda>rs. rs_gatewayId rs = g) sp)\<lparr>sp_gws := sp_gws sp - {g}\<rparr>, None)"
| "sp_exec (AllocateOp r) sp =
     (if sp_live sp (rs_reqId r) \<noteq> None then (sp, Some ErrorRequestExits)
      else if sp_insts sp (rs_instanceId r) = None then (sp, Some ErrorEndpointNotFound)
      else if rs_gatewayId r \<notin> sp_gws sp then (sp, Some ErrorGatewayNotFound)
      else (sp\<lparr>sp_live := (sp_live sp)(rs_reqId r \<mapsto> r)\<rparr>, None))"
| "sp_exec (UpdateOp r) sp =
     (case sp_known r sp ErrorEndpointNotFound of
        Some e \<Rightarrow> (sp, Some e)
      | None \<Rightarrow>
          let old = the (sp_live sp (rs_reqId r))
          in if rs_instanceId old \<noteq> rs_instanceId r then (sp, Some ErrorRequestNotExits)
             else if rs_gatewayId old \<noteq> rs_gatewayId r then (sp, Some ErrorRequestGatewayChanged)
             else if sint (rs_numTokens old) \<le> sint (rs_numTokens r)
             then (sp\<lparr>sp_live := (sp_live sp)(rs_reqId r \<mapsto>
                     old\<lparr>rs_numTokens := rs_numTokens r, rs_updateTime := rs_updateTime r\<rparr>)\<rparr>, None)
             else (sp, None))"
| "sp_exec (MarkPrefillOp r) sp =
     (case sp_known r sp ErrorRequestNotExits of
        Some e \<Rightarrow> (sp, Some e)
      | None \<Rightarrow>
          let old = the (sp_live sp (rs_reqId r))
          in if rs_instanceId old \<noteq> rs_instanceId r then (sp, None)
             else (sp\<lparr>sp_live := (sp_live sp)(rs_reqId r \<mapsto> old\<lparr>rs_prefillCompleted := True\<rparr>)\<rparr>, None))"
| "sp_exec (ReleaseOp r) sp = (sp\<lparr>sp_live := (sp_live sp)(rs_reqId r := None)\<rparr>, None)"

lemma abs_simps [simp]:
  "sp_insts (lrs_abs s) i = map_option iv_instance (mget (lrs_instanceViews s) i)"
  "sp_gws (lrs_abs s) = dom (mget (lrs_gatewayRequestSet s))"
  "sp_live (lrs_abs s) r = map_option (\<lambda>p. lrs_heap s ! p) (mget (lrs_requestStates s) r)"
  by (simp_all add: lrs_abs_def dom_map_of_conv_image_fst)

lemma lrs_spec_eqI:
  "(\<And>i. sp_insts a i = sp_insts b i) \<Longrightarrow> sp_gws a = sp_gws b \<Longrightarrow> (\<And>r. sp_live a r = sp_live b r) \<Longrightarrow>
   a = (b :: lrs_spec)"
  by (auto intro!: lrs_spec.equality)

lemma abs_removeInstance:
  assumes "lrs_core s"
  shows "lrs_abs (lrs_removeInstance i s) =
    (sp_drop (\<lambda>rs. rs_instanceId rs = i) (lrs_abs s))\<lparr>sp_insts := (sp_insts (lrs_abs s))(i := None)\<rparr>"
  using assms
  by (intro lrs_spec_eqI) (auto simp: sp_drop_def removeInstance_fields removeInstance_requests
      removeInstance_gateways dom_def split: option.splits)

lemma abs_AddInstance:
  assumes "lrs_core s"
  shows "lrs_abs (lrs_AddInstance w s) = fst (sp_exec (AddInstanceOp w) (lrs_abs s))"
proof -
  obtain n w' where w: "LLMInstance_Id w = (n, w')" by (cases "LLMInstance_Id w")
  have ver: "mget (lrs_instanceViews s) n = Some old \<Longrightarrow> iv_version old = li_Version (iv_instance old)" for old
    using assms by (simp add: lrs_core_def view_ok_def)
  show ?thesis
    using w
  proof (cases rule: AddInstance_cases [where s = s])
    case new
    with w show ?thesis by (intro lrs_spec_eqI) (auto simp: go_map_simps)
  next
    case newer
    with w ver show ?thesis
      using arg_cong [OF abs_removeInstance [OF assms, of n], of sp_live]
        arg_cong [OF abs_removeInstance [OF assms, of n], of sp_gws]
      by (intro lrs_spec_eqI)
        (auto simp: go_map_simps removeInstance_fields fun_eq_iff sp_drop_def split: option.splits)
  next
    case stale
    with w ver show ?thesis by (simp add: Let_def)
  qed
qed

lemma abs_RemoveGateway:
  assumes "lrs_wf s"
  shows "lrs_abs (lrs_RemoveGateway g s) =
    (sp_drop (\<lambda>rs. rs_gatewayId rs = g) (lrs_abs s))\<lparr>sp_gws := sp_gws (lrs_abs s) - {g}\<rparr>"
proof (cases "mget (lrs_gatewayRequestSet s) g")
  case None
  then have "mget (lrs_requestStates s) r = Some p \<Longrightarrow> rs_gatewayId (lrs_heap s ! p) \<noteq> g" for r p
    using assms by (fastforce simp: lrs_wf_def lrs_gws_def)
  with None show ?thesis
    by (intro lrs_spec_eqI) (auto simp: lrs_RemoveGateway_def sp_drop_def split: option.splits)
next
  case (Some reqs)
  have core: "lrs_core s" and gws: "lrs_gws s" using assms by (simp_all add: lrs_wf_def)
  note f = release_of_gateway_fold [OF core, of reqs]
  from gws Some have "r \<in> set reqs \<longleftrightarrow>
      (\<exists>p. mget (lrs_requestStates s) r = Some p \<and> rs_gatewayId (lrs_heap s ! p) = g)" for r
    by (simp add: lrs_gws_def)
  with f Some show ?thesis
    by (intro lrs_spec_eqI)
      (auto simp: lrs_RemoveGateway_def sp_drop_def go_map_simps dom_def split: option.splits)
qed

lemma abs_Allocate:
  assumes "lrs_core s"
  shows "(lrs_abs (fst (lrs_AllocateRequestState r s)), snd (lrs_AllocateRequestState r s)) =
    sp_exec (AllocateOp r) (lrs_abs s)"
  using core_req_lt [OF assms]
  by (cases rule: Allocate_cases [of s r])
    (auto intro!: lrs_spec_eqI simp: go_map_simps iv_AllocateRequestState_def nth_append dom_def
      map_option_case split: option.splits if_splits)

lemma sint_diff_nonneg:
  "0 \<le> sint a \<Longrightarrow> 0 \<le> sint b \<Longrightarrow> 0 \<le> sint (a - b :: i64) \<longleftrightarrow> sint b \<le> sint a"
  using sint_i64_bounds [of a] sint_i64_bounds [of b] by (subst sint_sub_i64) auto

lemma live_write:
  assumes "lrs_core s" "mget (lrs_requestStates s) q = Some p"
  shows "map_option ((!) ((lrs_heap s)[p := x])) (mget (lrs_requestStates s) r) =
    (if r = q then Some x else map_option ((!) (lrs_heap s)) (mget (lrs_requestStates s) r))"
  using assms core_req_lt [OF assms] core_ptr_inj [OF assms(1), of q p r]
  by (cases "mget (lrs_requestStates s) r") (auto simp: nth_list_update)

lemma abs_Update:
  assumes "lrs_wf s" "lrs_op_ok (UpdateOp r) s"
  shows "(lrs_abs (fst (lrs_UpdateRequestState r s)), snd (lrs_UpdateRequestState r s)) =
    sp_exec (UpdateOp r) (lrs_abs s)"
proof -
  have core: "lrs_core s" using assms by (simp add: lrs_wf_def)
  have nonneg: "mget (lrs_requestStates s) (rs_reqId r) = Some p \<Longrightarrow>
      0 \<le> sint (rs_numTokens (lrs_heap s ! p))" for p
    using core_req [OF core] core_view_req(5) [OF core] by metis
  show ?thesis
    using assms(2) nonneg
    by (auto simp: Update_eq [OF core] sp_known_def sint_diff_nonneg Let_def dom_def go_map_simps
        live_write [OF core] intro!: lrs_spec_eqI split: option.splits)
qed

lemma abs_Mark:
  assumes "lrs_core s"
  shows "(lrs_abs (fst (lrs_MarkPrefillComplete r s)), snd (lrs_MarkPrefillComplete r s)) =
    sp_exec (MarkPrefillOp r) (lrs_abs s)"
  by (auto simp: Mark_eq [OF assms] sp_known_def Let_def dom_def go_map_simps live_write [OF assms]
      intro!: lrs_spec_eqI split: option.splits)

lemma abs_Release:
  assumes "lrs_wf s" "lrs_op_ok (ReleaseOp r) s"
  shows "lrs_abs (lrs_ReleaseRequestState r s) = fst (sp_exec (ReleaseOp r) (lrs_abs s))"
proof (cases "mget (lrs_requestStates s) (rs_reqId r)")
  case None
  then show ?thesis
    by (intro lrs_spec_eqI) (auto simp: lrs_ReleaseRequestState_def lrs_requestExists_def)
next
  case (Some p)
  from Release_live [OF assms Some] obtain iv reqs where
    v: "mget (lrs_instanceViews s) (rs_instanceId r) = Some iv"
       "mget (lrs_gatewayRequestSet s) (rs_gatewayId r) = Some reqs" .
  then show ?thesis
    by (intro lrs_spec_eqI) (auto simp: Release_eq [OF assms Some v] go_map_simps dom_def split: if_splits)
qed

lemma abs_AddGateway: "lrs_abs (lrs_AddGateway g s) = fst (sp_exec (AddGatewayOp g) (lrs_abs s))"
  by (intro lrs_spec_eqI) (auto simp: lrs_AddGateway_def go_map_simps dom_def split: option.splits)

interpretation lrs: refined_machine lrs_exec lrs_op_ok lrs_wf NewLocalRealtimeState lrs_abs sp_exec
proof
  show "lrs_wf NewLocalRealtimeState" by (rule wf_init)
next
  fix op s assume "lrs_wf s" "lrs_op_ok op s"
  then show "lrs_wf (fst (lrs_exec op s))" by (rule wf_exec)
next
  fix op s assume s: "lrs_wf s" "lrs_op_ok op s"
  then have core: "lrs_core s" by (simp add: lrs_wf_def)
  show "sp_exec op (lrs_abs s) = (lrs_abs (fst (lrs_exec op s)), snd (lrs_exec op s))"
  proof (cases op)
    case (AddInstanceOp w)
    then show ?thesis using abs_AddInstance [OF core, of w] by (simp add: Let_def split_beta)
  next
    case (ReleaseOp r)
    then show ?thesis using abs_Release s by simp
  qed (use s core abs_Allocate [OF core] abs_Update abs_Mark [OF core] abs_RemoveGateway [OF s(1)]
        abs_removeInstance [OF core] abs_AddGateway in
       \<open>simp_all del: lrs_op_ok.simps sp_exec.simps(5-7) add: lrs_RemoveInstance_def\<close>)
qed

text \<open>The counter of a view, read off the request table.\<close>

lemma view_sum_table:
  assumes "lrs_core s" "mget (lrs_instanceViews s) i = Some iv"
  shows "msum f (iv_requestStates iv) =
    msum f (filter (\<lambda>(r, p). rs_instanceId (lrs_heap s ! p) = i) (lrs_requestStates s))"
proof -
  let ?t = "filter (\<lambda>(r, p). rs_instanceId (lrs_heap s ! p) = i) (lrs_requestStates s)"
  have w: "mwf (lrs_requestStates s)" "mwf (iv_requestStates iv)"
    using assms core_view [OF assms] by (simp_all add: lrs_core_def view_ok_def)
  then have d: "distinct (iv_requestStates iv)" "distinct ?t"
    by (auto simp: distinct_map)
  have "(r, p) \<in> set (iv_requestStates iv) \<longleftrightarrow> (r, p) \<in> set ?t" for r p
    using core_req_in_view [OF assms, of r p] w by (simp add: mget_iff_mem)
  then have "set (iv_requestStates iv) = set ?t" by auto
  then have "mset (iv_requestStates iv) = mset ?t" by (rule iffD1 [OF set_eq_iff_mset_eq_distinct [OF d]])
  then have "mset (map (\<lambda>(k, v). f k v) (iv_requestStates iv)) = mset (map (\<lambda>(k, v). f k v) ?t)"
    by (simp only: mset_map)
  then show ?thesis unfolding msum_def by (metis sum_mset_sum_list)
qed

subsection \<open>Properties\<close>

definition ex_instance :: "string \<Rightarrow> LLMInstance" where
  "ex_instance n = \<lparr>li_Version = 1, li_ID = n, li_Model = ''m'', li_InferType = InferTypeNeutral,
     li_Endpoint = \<lparr>ep_Host = ''h'', ep_Port = 80\<rparr>, li_AuxIp = [], li_AuxPort = 0, li_DPRank = 0,
     li_DPSize = 0\<rparr>"

definition ex_request :: "string \<Rightarrow> i64 \<Rightarrow> RequestState" where
  "ex_request r n = NewRequestState 0 r n ''i'' ''g''"

definition ex_history :: "lrs_op list" where
  "ex_history = [AddInstanceOp (ex_instance ''i''), AddGatewayOp ''g'', AllocateOp (ex_request ''a'' 5),
     AllocateOp (ex_request ''b'' 7), UpdateOp (ex_request ''a'' 9)]"

definition ex_state :: LocalRealtimeState where
  "ex_state = fst (run_ops lrs_exec ex_history NewLocalRealtimeState)"

lemma run_ops_reachable:
  "lrs_reachable s \<Longrightarrow> ops_ok lrs_exec lrs_op_ok ops s \<Longrightarrow> lrs_reachable (fst (run_ops lrs_exec ops s))"
  by (induction ops arbitrary: s) (auto simp: Let_def split_beta intro: lrs_next)

lemma ex_history_ok: "ops_ok lrs_exec lrs_op_ok ex_history NewLocalRealtimeState"
  by code_simp

lemma ex_state_reachable: "lrs_reachable ex_state"
  unfolding ex_state_def by (rule run_ops_reachable [OF lrs_init ex_history_ok])

text \<open>C6. In every state the operations can reach, the token counter of an instance is exactly the sum of
  the token counts of the requests the request table assigns to that instance, it is never negative,
  and its request counter is the number of those requests.
\<close>

theorem lrs_tokens_exact:
  assumes "lrs_reachable s" "lrs_GetInstanceView i s = Some iv"
  shows "sint (iv_NumTokens iv) =
      (\<Sum>(r, p) \<leftarrow> filter (\<lambda>(r, p). rs_instanceId (lrs_heap s ! p) = i) (lrs_requestStates s).
         sint (rs_numTokens (lrs_heap s ! p))) \<and>
    0 \<le> sint (iv_NumTokens iv) \<and>
    iv_NumRequests iv =
      of_nat (length (filter (\<lambda>(r, p). rs_instanceId (lrs_heap s ! p) = i) (lrs_requestStates s)))"
proof (intro conjI)
  have core: "lrs_core s" using reachable_wf [OF assms(1)] by (simp add: lrs_wf_def)
  have iv: "mget (lrs_instanceViews s) i = Some iv" using assms(2) by (simp add: lrs_GetInstanceView_def)
  note ok = core_view [OF core iv]
  show "sint (iv_NumTokens iv) =
      (\<Sum>(r, p) \<leftarrow> filter (\<lambda>(r, p). rs_instanceId (lrs_heap s ! p) = i) (lrs_requestStates s).
         sint (rs_numTokens (lrs_heap s ! p)))"
    using view_sum_table [OF core iv, of "\<lambda>_ p. sint (rs_numTokens (lrs_heap s ! p))"] ok
    by (simp add: view_ok_def iv_NumTokens_def msum_def)
  show "0 \<le> sint (iv_NumTokens iv)" using view_ok_tokens_nonneg [OF ok] by (simp add: iv_NumTokens_def)
  show "iv_NumRequests iv =
      of_nat (length (filter (\<lambda>(r, p). rs_instanceId (lrs_heap s ! p) = i) (lrs_requestStates s)))"
    using view_sum_table [OF core iv, of "\<lambda>_ _. 1 :: nat"]
    by (simp only: iv_NumRequests_def msum_one)
qed

theorem lrs_tokens_exact_witness:
  "\<exists>iv. lrs_GetInstanceView ''i'' ex_state = Some iv \<and> sint (iv_NumTokens iv) = 16 \<and>
     sint (iv_NumTokens iv) =
      (\<Sum>(r, p) \<leftarrow> filter (\<lambda>(r, p). rs_instanceId (lrs_heap ex_state ! p) = ''i'') (lrs_requestStates ex_state).
         sint (rs_numTokens (lrs_heap ex_state ! p)))"
proof -
  have "(case lrs_GetInstanceView ''i'' ex_state of None \<Rightarrow> False | Some iv \<Rightarrow> sint (iv_NumTokens iv) = 16)"
    by code_simp
  then obtain iv where "lrs_GetInstanceView ''i'' ex_state = Some iv" "sint (iv_NumTokens iv) = 16"
    by (auto split: option.splits)
  with lrs_tokens_exact [OF ex_state_reachable this(1)] show ?thesis by auto
qed



text \<open>When a gateway fails, exactly its requests disappear: every request of another gateway stays in
  the table with its state, and no request of the failed gateway is left.
\<close>

theorem lrs_gateway_failure:
  assumes "lrs_reachable s"
  shows "sp_live (lrs_abs (lrs_RemoveGateway g s)) r =
    (case sp_live (lrs_abs s) r of None \<Rightarrow> None | Some rs \<Rightarrow> if rs_gatewayId rs = g then None else Some rs) \<and>
    g \<notin> sp_gws (lrs_abs (lrs_RemoveGateway g s))"
  using reachable_wf [OF assms] by (simp add: abs_RemoveGateway sp_drop_def del: abs_simps)

theorem lrs_gateway_failure_witness:
  "sp_live (lrs_abs ex_state) ''a'' \<noteq> None \<and> sp_live (lrs_abs (lrs_RemoveGateway ''g'' ex_state)) ''a'' = None"
proof -
  have "(case sp_live (lrs_abs ex_state) ''a'' of None \<Rightarrow> False | Some rs \<Rightarrow> rs_gatewayId rs = ''g'')"
    by code_simp
  with lrs_gateway_failure [OF ex_state_reachable, of "''g''" "''a''"] show ?thesis
    by (auto split: option.splits)
qed

text \<open>When an instance is registered again with a newer version, or removed, all its requests are
  reclaimed and no request of another instance is touched; registering a version that is not newer
  changes nothing.
\<close>

theorem lrs_instance_version:
  assumes "lrs_reachable s" "LLMInstance_Id w = (n, w')" "lrs_GetInstanceView n s = Some old"
  shows "(sint (li_Version w') \<le> sint (iv_version old) \<longrightarrow> lrs_AddInstance w s = s) \<and>
    (sint (iv_version old) < sint (li_Version w') \<longrightarrow>
       lrs_GetInstanceView n (lrs_AddInstance w s) = Some (NewInstanceView w') \<and>
       (\<forall>r. sp_live (lrs_abs (lrs_AddInstance w s)) r =
         (case sp_live (lrs_abs s) r of None \<Rightarrow> None
          | Some rs \<Rightarrow> if rs_instanceId rs = n then None else Some rs)))"
proof -
  have core: "lrs_core s" using reachable_wf [OF assms(1)] by (simp add: lrs_wf_def)
  have old: "mget (lrs_instanceViews s) n = Some old" "iv_version old = li_Version (iv_instance old)"
    using assms(3) core by (simp_all add: lrs_GetInstanceView_def lrs_core_def view_ok_def)
  have "lrs_GetInstanceView n (lrs_AddInstance w s) = Some (NewInstanceView w')"
    if "sint (iv_version old) < sint (li_Version w')"
    using that assms(2) old by (simp add: lrs_AddInstance_def Let_def lrs_GetInstanceView_def go_map_simps)
  moreover have "lrs_AddInstance w s = s" if "sint (li_Version w') \<le> sint (iv_version old)"
    using that assms(2) old by (simp add: lrs_AddInstance_def)
  ultimately show ?thesis
    using assms(2) old arg_cong [OF abs_AddInstance [OF core, of w], of sp_live]
    by (simp add: sp_drop_def fun_eq_iff)
qed

theorem lrs_instance_version_witness:
  "lrs_GetInstanceView ''i'' (lrs_AddInstance ((ex_instance ''i'')\<lparr>li_Version := 2\<rparr>) ex_state) =
     Some (NewInstanceView ((ex_instance ''i'')\<lparr>li_Version := 2\<rparr>)) \<and>
   lrs_AddInstance (ex_instance ''i'') ex_state = ex_state"
proof -
  have "(case lrs_GetInstanceView ''i'' ex_state of None \<Rightarrow> False | Some iv \<Rightarrow> iv_version iv = 1)"
    by code_simp
  then obtain old where old: "lrs_GetInstanceView ''i'' ex_state = Some old" "iv_version old = 1"
    by (auto split: option.splits)
  have i: "LLMInstance_Id (ex_instance ''i'') = (''i'', ex_instance ''i'')"
    "LLMInstance_Id ((ex_instance ''i'')\<lparr>li_Version := 2\<rparr>) = (''i'', (ex_instance ''i'')\<lparr>li_Version := 2\<rparr>)"
    by (simp_all add: LLMInstance_Id_def ex_instance_def)
  show ?thesis
    using lrs_instance_version [OF ex_state_reachable i(2) old(1)]
      lrs_instance_version [OF ex_state_reachable i(1) old(1)] old(2)
    by (simp add: ex_instance_def)
qed

text \<open>An operation that returns an error leaves the whole state as it was.
\<close>

theorem lrs_error_keeps_state:
  assumes "snd (lrs_exec op s) = Some e"
  shows "fst (lrs_exec op s) = s"
proof (cases op)
  case (UpdateOp r)
  with assms show ?thesis
    by (auto simp: lrs_UpdateRequestState_def lrs_instanceExists_def iv_UpdateRequestState_def Let_def mput_same
        split: if_splits option.splits)
qed (use assms in \<open>auto simp: Allocate_eq lrs_MarkPrefillComplete_def Let_def split: option.splits if_splits\<close>)

theorem lrs_error_keeps_state_witness:
  "fst (lrs_exec (AllocateOp (ex_request ''a'' 1)) ex_state) = ex_state"
proof (rule lrs_error_keeps_state)
  show "snd (lrs_exec (AllocateOp (ex_request ''a'' 1)) ex_state) = Some ErrorRequestExits"
    by code_simp
qed

text \<open>Allocating a request and releasing it again gives back every instance's token counter and the
  abstract state of before.
\<close>

lemma lrs_allocate_release:
  assumes "lrs_wf s" "lrs_op_ok (AllocateOp r) s" "lrs_AllocateRequestState r s = (s', None)"
  shows "lrs_abs (lrs_ReleaseRequestState r s') = lrs_abs s \<and>
    (\<forall>i. lrs_total i (lrs_ReleaseRequestState r s') = lrs_total i s)"
proof -
  have wf: "lrs_wf s" and core: "lrs_core s" using assms(1) by (simp_all add: lrs_wf_def)
  have wf': "lrs_wf s'" using wf_Allocate [OF wf assms(2)] assms(3) by simp
  obtain iv reqs where a: "mget (lrs_requestStates s) (rs_reqId r) = None"
      "mget (lrs_instanceViews s) (rs_instanceId r) = Some iv"
      "mget (lrs_gatewayRequestSet s) (rs_gatewayId r) = Some reqs"
    and s': "s' = fst (lrs_AllocateRequestState r s)"
    using assms(3) by (cases rule: Allocate_cases [of s r]) auto
  have live: "mget (lrs_requestStates s') (rs_reqId r) = Some (length (lrs_heap s))"
    "lrs_heap s' = lrs_heap s @ [r]"
    "mget (lrs_instanceViews s') (rs_instanceId r) = Some (iv_AllocateRequestState (length (lrs_heap s)) r iv)"
    "mget (lrs_instanceViews s') j = (if j = rs_instanceId r
       then Some (iv_AllocateRequestState (length (lrs_heap s)) r iv) else mget (lrs_instanceViews s) j)"
    "mget (lrs_gatewayRequestSet s') (rs_gatewayId r) = Some (List.insert (rs_reqId r) reqs)" for j
    using a s' by (simp_all add: Allocate_eq go_map_simps)
  then have ok: "lrs_op_ok (ReleaseOp r) s'" by simp
  have "sp_exec (AllocateOp r) (lrs_abs s) = (lrs_abs s\<lparr>sp_live := (sp_live (lrs_abs s))(rs_reqId r \<mapsto> r)\<rparr>, None)"
    using a by auto
  then have "lrs_abs s' = lrs_abs s\<lparr>sp_live := (sp_live (lrs_abs s))(rs_reqId r \<mapsto> r)\<rparr>"
    using abs_Allocate [OF core, of r] assms(3) by simp
  then have 1: "lrs_abs (lrs_ReleaseRequestState r s') = lrs_abs s"
    using abs_Release [OF wf' ok] a by (intro lrs_spec_eqI) (auto simp del: abs_simps simp add: abs_simps(3))
  have "iv_numTokens (iv_ReleaseRequestState (rs_reqId r) (lrs_heap s')
      (iv_AllocateRequestState (length (lrs_heap s)) r iv)) = iv_numTokens iv"
    using iv_Release_tokens [OF core_view [of s'] ] wf' live view_ok_tokens_nonneg [OF core_view [OF core a(2)]]
      assms(2) a sint_add_i64 [of "iv_numTokens iv" "rs_numTokens r"]
    by (simp add: iv_ReleaseRequestState_def iv_AllocateRequestState_def go_map_simps lrs_total_def)
  then have "lrs_total i (lrs_ReleaseRequestState r s') = lrs_total i s" for i
    using a live(4) [of i] by (simp add: lrs_total_def Release_eq [OF wf' ok live(1,3,5)] go_map_simps)
  with 1 show ?thesis by simp
qed

end
