(* ===== verification/Metrics.thy ===== *)
theory Metrics
  imports Scheduler_Config Predictor CMS_Types Local_Realtime_State "HOL-Library.Monad_Syntax"
begin

text \<open>
  Scheduling metrics: \<open>pkg/scheduler/policy/metrics.go\<close>, the instance views the policies work on
  (\<open>scheduling_policy.go\<close>, \<open>utils.go\<close>) and the prediction of prefill progress
  (\<open>predict_utils.go\<close>).

  A view holds a CMS view in full mode and a local realtime view in lite mode; using the missing one
  is a nil dereference.  A computation of type \<open>'a option\<close> is \<open>None\<close> when the Go code panics or never
  returns.  A metric is a value of one datatype with a constructor per Go type, holding the computed
  number; the receiver of \<open>Less\<close> decides the direction of the comparison.

  Lemmas: the comparison of one metric is a strict weak order on numbers, the counts are exact while
  they fit, and the metrics of a view are computed once.
\<close>

subsection \<open>Instance views\<close>

datatype InstanceViewInterface = CmsInstanceView CmsView | LrsInstanceView InstanceView

fun GetInstance :: "InstanceViewInterface \<Rightarrow> LLMInstance" where
  "GetInstance (CmsInstanceView v) = cv_Instance v"
| "GetInstance (LrsInstanceView v) = iv_instance v"

fun GetInstanceId :: "InstanceViewInterface \<Rightarrow> string" where
  "GetInstanceId (CmsInstanceView v) = cv_GetInstanceId v"
| "GetInstanceId (LrsInstanceView v) = fst (LLMInstance_Id (iv_instance v))"

fun GetInferType :: "InstanceViewInterface \<Rightarrow> InferType" where
  "GetInferType (CmsInstanceView v) = cv_GetInferType v"
| "GetInferType (LrsInstanceView v) = li_InferType (iv_instance v)"

datatype instanceSchedulingMetric =
    kvCacheUsageRatioProjected f32
  | decodeBatchSize f32
  | numWaitingRequests f32
  | allPrefillsTokensNum f32
  | numRequests bool f32
  | kvCacheHitLen f32
  | CacheAwareAllPrefillsTokensNum f32
  | allDecodesTokensNum f32
  | PredictedTtft f64
  | PredictedTpot f64
  | numTokens f32

record instanceViewScheduling =
  vs_cmsView :: "CmsView option"
  vs_lrsView :: "InstanceView option"
  vs_view :: InstanceViewInterface
  vs_metrics :: "(string, instanceSchedulingMetric) gmap"
  vs_needsFailover :: bool
  vs_prefixHitTokens :: i64
  vs_prefixHitRatio :: f32
  vs_prefixMissTokens :: i64
  vs_numComputedPrefillTokensPredicted :: i32

type_synonym view_map = "(string, instanceViewScheduling) gmap"

abbreviation vs_GetInstanceId :: "instanceViewScheduling \<Rightarrow> string" where
  "vs_GetInstanceId v \<equiv> GetInstanceId (vs_view v)"

abbreviation vs_GetInferType :: "instanceViewScheduling \<Rightarrow> InferType" where
  "vs_GetInferType v \<equiv> GetInferType (vs_view v)"

subsection \<open>Values and comparisons\<close>

fun GetName :: "instanceSchedulingMetric \<Rightarrow> string" where
  "GetName (kvCacheUsageRatioProjected _) = SchedulingMetricKVCacheUsageRatioProjected"
| "GetName (decodeBatchSize _) = SchedulingMetricDecodeBatchSize"
| "GetName (numWaitingRequests _) = SchedulingMetricNumWaitingRequests"
| "GetName (allPrefillsTokensNum _) = SchedulingMetricAllPrefillsTokensNum"
| "GetName (numRequests _ _) = SchedulingMetricNumRequests"
| "GetName (kvCacheHitLen _) = SchedulingMetricKVCacheHitLen"
| "GetName (CacheAwareAllPrefillsTokensNum _) = SchedulingMetricCacheAwareAllPrefillsTokensNum"
| "GetName (allDecodesTokensNum _) = SchedulingMetricAllDecodesTokensNum"
| "GetName (PredictedTtft _) = SchedulingMetricPredictedTtft"
| "GetName (PredictedTpot _) = SchedulingMetricPredictedTpot"
| "GetName (numTokens _) = SchedulingMetricNumTokens"

fun GetValue :: "instanceSchedulingMetric \<Rightarrow> f32" where
  "GetValue (PredictedTtft l) = fconv round32 l"
| "GetValue (PredictedTpot l) = fconv round32 l"
| "GetValue (kvCacheUsageRatioProjected v) = v"
| "GetValue (decodeBatchSize v) = v"
| "GetValue (numWaitingRequests v) = v"
| "GetValue (allPrefillsTokensNum v) = v"
| "GetValue (numRequests _ v) = v"
| "GetValue (kvCacheHitLen v) = v"
| "GetValue (CacheAwareAllPrefillsTokensNum v) = v"
| "GetValue (allDecodesTokensNum v) = v"
| "GetValue (numTokens v) = v"

fun ValueLess :: "instanceSchedulingMetric \<Rightarrow> f32 \<Rightarrow> bool" where
  "ValueLess (kvCacheHitLen v) x \<longleftrightarrow> flt x v"
| "ValueLess m x \<longleftrightarrow> flt (GetValue m) x"

definition metric_Less :: "instanceSchedulingMetric \<Rightarrow> instanceSchedulingMetric \<Rightarrow> bool" where
  "metric_Less m m' \<longleftrightarrow> ValueLess m (GetValue m')"

definition metric_Equal :: "instanceSchedulingMetric \<Rightarrow> instanceSchedulingMetric \<Rightarrow> bool" where
  "metric_Equal m m' \<longleftrightarrow> \<not> metric_Less m m' \<and> \<not> metric_Less m' m"

subsection \<open>Calculation\<close>

definition kv_usage_value :: "CmsView \<Rightarrow> f32" where
  "kv_usage_value v =
     (let st = cv_Status v
      in if st_NumTotalGpuTokens st = 0 then Fin MaxFloat32
         else let numUnallocatedTokens =
                    st_NumUncomputedTokensAllWaitingPrefills st +
                    st_NumUnallocatedTokensSchedulerRunningPrefills st +
                    st_NumUnallocatedTokensHybridSchedulerWaitingDecodes st
              in fdiv round32
                   (f32_of_int (sint (st_NumUsedGpuTokens st + numUnallocatedTokens +
                      acc_NumTokensInflightDispatchDecodeRequests (cv_Account v))))
                   (f32_of_int (sint (st_NumTotalGpuTokens st))))"

definition decode_batch_value :: "CmsView \<Rightarrow> f32" where
  "decode_batch_value v =
     (let st = cv_Status v
      in f32_of_int (sint (st_HybridSchedulerWaitingToDecodeRequestsNum st + st_NumLoadingRequests st +
           st_SchedulerWaitingToDecodeRequestsNum st + st_SchedulerRunningToDecodeRequestsNum st +
           acc_NumInflightDispatchDecodeRequests (cv_Account v))))"

definition waiting_value :: "CmsView \<Rightarrow> f32" where
  "waiting_value v =
     f32_of_int (sint (st_NumWaitingRequests (cv_Status v) + acc_NumInflightDispatchRequests (cv_Account v)))"

definition all_prefills_value :: "i32 \<Rightarrow> CmsView \<Rightarrow> f32" where
  "all_prefills_value predicted v =
     (let st = cv_Status v
      in f32_of_int (sint (st_NumUncomputedTokensAllWaitingPrefills st +
           st_NumUncomputedTokensSchedulerRunningPrefills st +
           acc_NumUncomputedTokensInflightDispatchPrefillRequests (cv_Account v) - predicted)))"

definition num_requests_value :: "CmsView \<Rightarrow> f32" where
  "num_requests_value v =
     (let st = cv_Status v
      in f32_of_int (sint (st_NumWaitingRequests st + st_NumLoadingRequests st + st_NumRunningRequests st +
           acc_NumInflightDispatchPrefillRequests (cv_Account v) +
           acc_NumInflightDispatchDecodeRequests (cv_Account v))))"

definition all_decodes_value :: "CmsView \<Rightarrow> f32" where
  "all_decodes_value v =
     (let st = cv_Status v;
          allDecodeTokens = st_HybridSchedulerWaitingToDecodeTokensNum st +
            st_SchedulerWaitingToDecodeTokensNum st + st_SchedulerRunningToDecodeTokensNum st +
            st_NumTokensLoadingRequests st
      in f32_of_int (sint (allDecodeTokens + acc_NumTokensInflightDispatchDecodeRequests (cv_Account v))))"

definition request_tokens :: "SchedulingRequest option \<Rightarrow> i64" where
  "request_tokens req = (case req of None \<Rightarrow> 0 | Some r \<Rightarrow> sr_PromptNumTokens r)"

definition inf_on_error :: "f64 option \<Rightarrow> f64" where
  "inf_on_error r = (case r of None \<Rightarrow> PInf | Some l \<Rightarrow> l)"

definition predicted_ttft :: "LatencyPredictor \<Rightarrow> i64 \<Rightarrow> SchedulingRequest option \<Rightarrow> i32 \<Rightarrow> CmsView \<Rightarrow> f64 option" where
  "predicted_ttft lp now req predicted v =
     (let st = cv_Status v;
          batch = i32_of_float (decode_batch_value v);
          decodes = i32_of_float (all_decodes_value v);
          maxBatched = f64_of_int (sint (md_MaxNumBatchedTokens (cv_Metadata v)));
          estimate = (\<lambda>tokens. predictTtftLatencyByChunkPrefill lp tokens batch decodes maxBatched);
          reqTokens = ucast (request_tokens req) :: i32
      in do {
           existing \<leftarrow> estimate (st_NumUncomputedTokensAllWaitingPrefills st +
                         st_NumUncomputedTokensSchedulerRunningPrefills st);
           (case existing of
              None \<Rightarrow> Some PInf
            | Some existingTtft \<Rightarrow>
                let elapsed = now - st_TimestampMs st
                in if sint (i64_of_float existingTtft) < sint elapsed
                   then map_option inf_on_error
                          (estimate (acc_NumUncomputedTokensInflightDispatchPrefillRequests (cv_Account v) + reqTokens))
                   else map_option
                          (\<lambda>r. inf_on_error (map_option (\<lambda>l. sub64 l (f64_of_int (sint elapsed))) r))
                          (estimate (i32_of_float (all_prefills_value predicted v) + reqTokens)))
         })"

definition predicted_tpot :: "LatencyPredictor \<Rightarrow> SchedulingRequest option \<Rightarrow> CmsView \<Rightarrow> f64" where
  "predicted_tpot lp req v =
     inf_on_error (predictTpotLatency lp
       (i32_of_float (fadd round32 (decode_batch_value v) (Fin 1)))
       (i32_of_float (all_decodes_value v) + ucast (request_tokens req)))"

fun Calculate ::
  "LatencyPredictor \<Rightarrow> i64 \<Rightarrow> SchedulingRequest option \<Rightarrow> instanceViewScheduling \<Rightarrow> instanceSchedulingMetric \<Rightarrow>
   instanceSchedulingMetric option" where
  "Calculate lp now req v (kvCacheUsageRatioProjected _) =
     map_option (\<lambda>c. kvCacheUsageRatioProjected (kv_usage_value c)) (vs_cmsView v)"
| "Calculate lp now req v (decodeBatchSize _) =
     map_option (\<lambda>c. decodeBatchSize (decode_batch_value c)) (vs_cmsView v)"
| "Calculate lp now req v (numWaitingRequests _) =
     map_option (\<lambda>c. numWaitingRequests (waiting_value c)) (vs_cmsView v)"
| "Calculate lp now req v (allPrefillsTokensNum _) =
     map_option (\<lambda>c. allPrefillsTokensNum (all_prefills_value (vs_numComputedPrefillTokensPredicted v) c))
       (vs_cmsView v)"
| "Calculate lp now req v (numRequests fullMode _) =
     (if fullMode then map_option (\<lambda>c. numRequests fullMode (num_requests_value c)) (vs_cmsView v)
      else map_option (\<lambda>l. numRequests fullMode (f32_of_int (sint (iv_NumRequests l)))) (vs_lrsView v))"
| "Calculate lp now req v (kvCacheHitLen _) = Some (kvCacheHitLen (f32_of_int (sint (vs_prefixHitTokens v))))"
| "Calculate lp now req v (CacheAwareAllPrefillsTokensNum _) =
     map_option
       (\<lambda>c. CacheAwareAllPrefillsTokensNum
              (fadd round32 (f32_of_int (sint (vs_prefixMissTokens v)))
                 (all_prefills_value (vs_numComputedPrefillTokensPredicted v) c)))
       (vs_cmsView v)"
| "Calculate lp now req v (allDecodesTokensNum _) =
     map_option (\<lambda>c. allDecodesTokensNum (all_decodes_value c)) (vs_cmsView v)"
| "Calculate lp now req v (PredictedTtft _) =
     do { c \<leftarrow> vs_cmsView v;
          l \<leftarrow> predicted_ttft lp now req (vs_numComputedPrefillTokensPredicted v) c;
          Some (PredictedTtft l) }"
| "Calculate lp now req v (PredictedTpot _) =
     map_option (\<lambda>c. PredictedTpot (predicted_tpot lp req c)) (vs_cmsView v)"
| "Calculate lp now req v (numTokens _) =
     map_option (\<lambda>l. numTokens (f32_of_int (sint (iv_NumTokens l)))) (vs_lrsView v)"

subsection \<open>Metric factories\<close>

text \<open>A factory is the metric it creates, before \<open>Calculate\<close>.  An unknown name panics.\<close>

definition getSchedulingMetric :: "SchedulerConfig \<Rightarrow> string \<Rightarrow> instanceSchedulingMetric option" where
  "getSchedulingMetric p name =
     (if name = SchedulingMetricKVCacheUsageRatioProjected then Some (kvCacheUsageRatioProjected (Fin 0))
      else if name = SchedulingMetricDecodeBatchSize then Some (decodeBatchSize (Fin 0))
      else if name = SchedulingMetricNumWaitingRequests then Some (numWaitingRequests (Fin 0))
      else if name = SchedulingMetricAllPrefillsTokensNum then Some (allPrefillsTokensNum (Fin 0))
      else if name = SchedulingMetricKVCacheHitLen then Some (kvCacheHitLen (Fin 0))
      else if name = SchedulingMetricCacheAwareAllPrefillsTokensNum
      then Some (CacheAwareAllPrefillsTokensNum (Fin 0))
      else if name = SchedulingMetricNumRequests
      then Some (numRequests (cfg_EnableFullModeScheduling p) (Fin 0))
      else if name = SchedulingMetricAllDecodesTokensNum then Some (allDecodesTokensNum (Fin 0))
      else if name = SchedulingMetricPredictedTtft then Some (PredictedTtft (Fin 0))
      else if name = SchedulingMetricPredictedTpot then Some (PredictedTpot (Fin 0))
      else if name = SchedulingMetricNumTokens then Some (numTokens (Fin 0))
      else None)"

subsection \<open>Calculation for all instances\<close>

definition calculate_one ::
  "LatencyPredictor \<Rightarrow> i64 \<Rightarrow> SchedulingRequest option \<Rightarrow> instanceSchedulingMetric \<Rightarrow> instanceViewScheduling \<Rightarrow>
   instanceViewScheduling option" where
  "calculate_one lp now req m v =
     (case mget (vs_metrics v) (GetName m) of
        Some _ \<Rightarrow> Some v
      | None \<Rightarrow>
          do { m' \<leftarrow> Calculate lp now req v m;
               Some (v\<lparr>vs_metrics := mput (GetName m) m' (vs_metrics v)\<rparr>) })"

fun calculate_view ::
  "LatencyPredictor \<Rightarrow> i64 \<Rightarrow> SchedulingRequest option \<Rightarrow> instanceSchedulingMetric list \<Rightarrow> instanceViewScheduling \<Rightarrow>
   instanceViewScheduling option" where
  "calculate_view lp now req [] v = Some v"
| "calculate_view lp now req (m # ms) v =
     do { v' \<leftarrow> calculate_one lp now req m v; calculate_view lp now req ms v' }"

fun map_views :: "(instanceViewScheduling \<Rightarrow> instanceViewScheduling option) \<Rightarrow> view_map \<Rightarrow> view_map option" where
  "map_views f [] = Some []"
| "map_views f ((i, v) # vs) = do { v' \<leftarrow> f v; vs' \<leftarrow> map_views f vs; Some ((i, v') # vs') }"

definition calculateMetrics ::
  "LatencyPredictor \<Rightarrow> i64 \<Rightarrow> SchedulingRequest option \<Rightarrow> (string, instanceSchedulingMetric) gmap \<Rightarrow> view_map \<Rightarrow>
   view_map option" where
  "calculateMetrics lp now req ctors views = map_views (calculate_view lp now req (mvals ctors)) views"

subsection \<open>Prefill progress (predict\_utils.go)\<close>

definition predict_progress ::
  "QuadraticPredictor \<Rightarrow> i64 \<Rightarrow> i32 \<Rightarrow> instanceViewScheduling \<Rightarrow> instanceViewScheduling option" where
  "predict_progress q now maxBatched v =
     do { c \<leftarrow> vs_cmsView v;
          let elapsed = f64_of_int (sint (now - st_TimestampMs (cv_Status c)));
          if fle elapsed (Fin 0) then Some (v\<lparr>vs_numComputedPrefillTokensPredicted := 0\<rparr>)
          else do {
            r \<leftarrow> prefill_loop q maxBatched elapsed
                   (i32_of_float (all_prefills_value (vs_numComputedPrefillTokensPredicted v) c))
                   (st_NumUncomputedTokensSchedulerRunningPrefills (cv_Status c)) 0;
            Some (v\<lparr>vs_numComputedPrefillTokensPredicted := truncate_prediction r\<rparr>) } }"

definition predictNumComputedPrefillTokens ::
  "QuadraticPredictor \<Rightarrow> i64 \<Rightarrow> i32 \<Rightarrow> view_map \<Rightarrow> view_map option" where
  "predictNumComputedPrefillTokens q now maxBatched views =
     (if \<not> qp_fitted q then Some views else map_views (predict_progress q now maxBatched) views)"

subsection \<open>Cluster view (policy/utils.go)\<close>

text \<open>\<open>groupedInstanceViews\<close> and \<open>instanceViews\<close> hold the same pointers.  The model keeps the groups;
  \<open>cluster_instanceViews\<close> is the flat map, where a later group wins, and \<open>write_back\<close> stores the
  objects of a flat map into the groups.\<close>

type_synonym clusterView = "(InferType, (string, InstanceViewInterface) gmap) gmap"
type_synonym clusterViewScheduling = "(InferType, view_map) gmap"

definition toInstanceViewInterfaceMap ::
  "('v \<Rightarrow> InstanceViewInterface) \<Rightarrow> (InferType, (string, 'v) gmap) gmap \<Rightarrow> clusterView" where
  "toInstanceViewInterfaceMap wrap raw = map_ran (\<lambda>_. map_ran (\<lambda>_. wrap)) raw"

definition new_scheduling_view :: "InstanceViewInterface \<Rightarrow> instanceViewScheduling" where
  "new_scheduling_view view =
     \<lparr>vs_cmsView = (case view of CmsInstanceView v \<Rightarrow> Some v | LrsInstanceView _ \<Rightarrow> None),
      vs_lrsView = (case view of CmsInstanceView _ \<Rightarrow> None | LrsInstanceView v \<Rightarrow> Some v),
      vs_view = view, vs_metrics = [], vs_needsFailover = False, vs_prefixHitTokens = 0,
      vs_prefixHitRatio = Fin 0, vs_prefixMissTokens = 0, vs_numComputedPrefillTokensPredicted = 0\<rparr>"

definition toClusterViewScheduling :: "clusterView \<Rightarrow> clusterViewScheduling" where
  "toClusterViewScheduling cv = map_ran (\<lambda>_. map_ran (\<lambda>_. new_scheduling_view)) cv"

definition cluster_instanceViews :: "clusterViewScheduling \<Rightarrow> view_map" where
  "cluster_instanceViews cv = foldl (\<lambda>m (t, g). foldl (\<lambda>m (i, v). mput i v m) m g) [] cv"

definition write_back :: "view_map \<Rightarrow> clusterViewScheduling \<Rightarrow> clusterViewScheduling" where
  "write_back new cv =
     map_ran (\<lambda>_. map_ran (\<lambda>i v. case mget new i of None \<Rightarrow> v | Some v' \<Rightarrow> v')) cv"

subsection \<open>Order\<close>

text \<open>Metrics of one name compare by their value, the cache hit length from high to low.\<close>

fun metric_rank :: "instanceSchedulingMetric \<Rightarrow> f32" where
  "metric_rank (kvCacheHitLen v) = fneg v"
| "metric_rank m = GetValue m"

lemma flt_fneg: "flt (fneg a) (fneg b) \<longleftrightarrow> flt b a"
  by (cases a; cases b) auto

lemma fneg_NaN [simp]: "fneg a = NaN \<longleftrightarrow> a = NaN"
  by (cases a) auto

lemma metric_Less_rank: "GetName m = GetName m' \<Longrightarrow> metric_Less m m' \<longleftrightarrow> flt (metric_rank m) (metric_rank m')"
  by (cases m; cases m') (simp_all add: metric_Less_def flt_fneg metric_names)

lemma metric_rank_NaN [simp]: "metric_rank m = NaN \<longleftrightarrow> GetValue m = NaN"
  by (cases m) auto

definition metric_ok :: "string \<Rightarrow> instanceSchedulingMetric \<Rightarrow> bool" where
  "metric_ok k m \<longleftrightarrow> GetName m = k \<and> GetValue m \<noteq> NaN"

interpretation metric_order: strict_weak_order metric_Less "metric_ok k" for k
  by unfold_locales (auto simp: metric_ok_def metric_Less_rank dest: flt_asym, metis metric_rank_NaN not_flt_trans)

lemma fconv_NaN [simp]: "fconv round32 x = NaN \<longleftrightarrow> x = NaN"
  by (cases x) auto

subsection \<open>Calculation\<close>

lemma Calculate_GetName: "Calculate lp now req v m = Some m' \<Longrightarrow> GetName m' = GetName m"
  by (cases m) (auto simp: bind_eq_Some_conv split: if_splits)

lemma Calculate_vs_metrics [simp]: "Calculate lp now req (v\<lparr>vs_metrics := ms\<rparr>) m = Calculate lp now req v m"
  by (cases m) auto

lemma map_views_Some_iff:
  "map_views f vs = Some vs' \<longleftrightarrow> list_all2 (\<lambda>(i, v) (j, w). i = j \<and> f v = Some w) vs vs'"
  by (induction vs arbitrary: vs')
    (auto simp: bind_eq_Some_conv list_all2_Cons1)

lemma map_views_keys: "map_views f vs = Some vs' \<Longrightarrow> mkeys vs' = mkeys vs"
  by (induction vs arbitrary: vs') (auto simp: bind_eq_Some_conv)

lemma map_views_get:
  "map_views f vs = Some vs' \<Longrightarrow> mget vs' i = Option.bind (mget vs i) f"
  by (induction vs arbitrary: vs') (auto simp: bind_eq_Some_conv)

lemma map_views_total: "(\<forall>(i, v)\<in>set vs. f v \<noteq> None) \<Longrightarrow> \<exists>vs'. map_views f vs = Some vs'"
  by (induction vs) (auto simp: bind_eq_Some_conv)

lemma calculate_one_Some:
  "calculate_one lp now req m v = Some v' \<Longrightarrow> v' = v\<lparr>vs_metrics := vs_metrics v'\<rparr> \<and>
   (\<forall>k. mget (vs_metrics v') k =
     (if k = GetName m \<and> mget (vs_metrics v) k = None then Calculate lp now req v m else mget (vs_metrics v) k))"
  by (auto simp: calculate_one_def bind_eq_Some_conv go_map_simps split: option.splits)

lemma calculate_view_Some:
  assumes "calculate_view lp now req ms v = Some v'" "distinct (map GetName ms)"
  shows "v' = v\<lparr>vs_metrics := vs_metrics v'\<rparr> \<and>
    (\<forall>k. mget (vs_metrics v') k =
      (case mget (vs_metrics v) k of
         Some x \<Rightarrow> Some x
       | None \<Rightarrow> (case find (\<lambda>m. GetName m = k) ms of None \<Rightarrow> None | Some m \<Rightarrow> Calculate lp now req v m)))"
  using assms
proof (induction ms arbitrary: v)
  case Nil
  then show ?case by (auto split: option.splits)
next
  case (Cons m ms)
  then obtain w where w: "calculate_one lp now req m v = Some w" "calculate_view lp now req ms w = Some v'"
    by (auto simp: bind_eq_Some_conv)
  note one = calculate_one_Some [OF w(1)]
  from Cons.IH [OF w(2)] Cons.prems(2) have IH: "v' = w\<lparr>vs_metrics := vs_metrics v'\<rparr>"
    "\<And>k. mget (vs_metrics v') k =
      (case mget (vs_metrics w) k of
         Some x \<Rightarrow> Some x
       | None \<Rightarrow> (case find (\<lambda>m. GetName m = k) ms of None \<Rightarrow> None | Some m \<Rightarrow> Calculate lp now req w m))" by auto
  from one have cw: "Calculate lp now req w = Calculate lp now req v"
    by (metis Calculate_vs_metrics ext)
  have "v' = v\<lparr>vs_metrics := vs_metrics v'\<rparr>" using IH(1) one by (metis instanceViewScheduling.surjective instanceViewScheduling.update_convs(4))
  moreover have "find (\<lambda>x. GetName x = GetName m) ms = None" using Cons.prems(2) by (auto simp: find_None_iff) (metis image_eqI)
  ultimately show ?case using one IH(2) by (auto simp: cw split: option.splits)
qed

lemma find_distinct: "distinct (map f xs) \<Longrightarrow> x \<in> set xs \<Longrightarrow> find (\<lambda>y. f y = f x) xs = Some x"
  by (induction xs) auto

lemma calculate_one_has:
  "calculate_one lp now req m v = Some w \<Longrightarrow>
   mget (vs_metrics w) k \<noteq> None \<longleftrightarrow> k = GetName m \<or> mget (vs_metrics v) k \<noteq> None"
  by (auto simp: calculate_one_def bind_eq_Some_conv go_map_simps split: option.splits)

lemma calculate_view_has:
  "calculate_view lp now req ms v = Some w \<Longrightarrow>
   mget (vs_metrics w) k \<noteq> None \<longleftrightarrow> k \<in> GetName ` set ms \<or> mget (vs_metrics v) k \<noteq> None"
  by (induction ms arbitrary: v) (auto simp: bind_eq_Some_conv dest!: calculate_one_has [where k = k])

text \<open>Calculating metrics changes nothing but the metrics of a view, keeps a metric that is already
  there, and adds every requested metric with the value its formula gives for that view.\<close>

theorem metrics_calculated:
  assumes "calculateMetrics lp now req ctors views = Some views'" "distinct (map GetName (mvals ctors))"
    "mget views i = Some v"
  shows "mkeys views' = mkeys views \<and>
    (\<exists>v'. mget views' i = Some v' \<and> v' = v\<lparr>vs_metrics := vs_metrics v'\<rparr> \<and>
      (\<forall>k x. mget (vs_metrics v) k = Some x \<longrightarrow> mget (vs_metrics v') k = Some x) \<and>
      (\<forall>m\<in>set (mvals ctors). mget (vs_metrics v) (GetName m) = None \<longrightarrow>
        (\<exists>m'. Calculate lp now req v m = Some m' \<and> GetName m' = GetName m \<and>
              mget (vs_metrics v') (GetName m) = Some m')))"
proof -
  let ?f = "calculate_view lp now req (mvals ctors)"
  from assms(1) have mv: "map_views ?f views = Some views'" by (simp add: calculateMetrics_def)
  from map_views_get [OF mv, of i] assms(3) have get: "mget views' i = ?f v" by simp
  have "i \<in> set (mkeys views')" using assms(3) map_views_keys [OF mv] by (metis mem_mkeys_iff)
  then obtain v' where "mget views' i = Some v'" unfolding mem_mkeys_iff by blast
  with get have v': "?f v = Some v'" "mget views' i = Some v'" by simp_all
  note spec = calculate_view_Some [OF v'(1) assms(2)]
  have fresh: "\<exists>m'. Calculate lp now req v m = Some m' \<and> mget (vs_metrics v') (GetName m) = Some m'"
    if m: "m \<in> set (mvals ctors)" and none: "mget (vs_metrics v) (GetName m) = None" for m
  proof -
    have "find (\<lambda>x. GetName x = GetName m) (mvals ctors) = Some m"
      using assms(2) m by (rule find_distinct)
    moreover have "mget (vs_metrics v') (GetName m) \<noteq> None"
      using calculate_view_has [OF v'(1)] m by blast
    ultimately show ?thesis using spec none by auto
  qed
  have keep: "mget (vs_metrics v') k = Some x" if "mget (vs_metrics v) k = Some x" for k x
    using spec that by simp
  have add: "\<forall>m\<in>set (mvals ctors). mget (vs_metrics v) (GetName m) = None \<longrightarrow>
      (\<exists>m'. Calculate lp now req v m = Some m' \<and> GetName m' = GetName m \<and>
            mget (vs_metrics v') (GetName m) = Some m')"
    using fresh Calculate_GetName by blast
  show ?thesis
    by (intro conjI map_views_keys [OF mv] exI [of _ v'] v'(2) add) (use spec keep in simp_all)
qed

definition ex_metric_views :: view_map where
  "ex_metric_views = [(''a'', new_scheduling_view (CmsInstanceView (ex_view ''a'' InferTypeDecode)))]"

theorem metrics_calculated_witness:
  "let ctors = [(SchedulingMetricDecodeBatchSize, decodeBatchSize (Fin 0))];
       v = new_scheduling_view (CmsInstanceView (ex_view ''a'' InferTypeDecode));
       views' = [(''a'', v\<lparr>vs_metrics := [(SchedulingMetricDecodeBatchSize, decodeBatchSize (Fin 0))]\<rparr>)]
   in calculateMetrics ex_lp 0 None ctors ex_metric_views = Some views' \<and>
      distinct (map GetName (mvals ctors)) \<and> mget ex_metric_views ''a'' = Some v \<and>
      mkeys views' = mkeys ex_metric_views"
proof -
  let ?ctors = "[(SchedulingMetricDecodeBatchSize, decodeBatchSize (Fin 0))]"
  let ?v = "new_scheduling_view (CmsInstanceView (ex_view ''a'' InferTypeDecode))"
  let ?views' = "[(''a'', ?v\<lparr>vs_metrics := [(SchedulingMetricDecodeBatchSize, decodeBatchSize (Fin 0))]\<rparr>)]"
  have "calculateMetrics ex_lp 0 None ?ctors ex_metric_views = Some ?views'" "mget ex_metric_views ''a'' = Some ?v"
    by (simp_all add: calculateMetrics_def ex_metric_views_def calculate_one_def new_scheduling_view_def
        ex_view_def empty_status_def empty_account_def decode_batch_value_def f32_of_int_exact)
  with metrics_calculated [of ex_lp 0 None ?ctors ex_metric_views ?views' "''a''" ?v] show ?thesis by simp
qed

subsection \<open>Exact counts\<close>

lemma sint_word_of_int_i32: "- (2 ^ 31) \<le> n \<Longrightarrow> n < 2 ^ 31 \<Longrightarrow> sint (word_of_int n :: i32) = n"
  by (simp add: sint_sbintrunc' signed_take_bit_int_eq_self)

lemma f32_of_count: "w = word_of_int n \<Longrightarrow> 0 \<le> n \<Longrightarrow> n < 2 ^ 24 \<Longrightarrow> f32_of_int (sint (w :: i32)) = Fin (of_int n)"
  using sint_word_of_int_i32 [of n] by (simp add: f32_of_int_exact)

text \<open>The counts a view stands for, over the integers.\<close>

definition used_tokens :: "CmsView \<Rightarrow> int" where
  "used_tokens v =
     sint (st_NumUsedGpuTokens (cv_Status v)) + sint (st_NumUncomputedTokensAllWaitingPrefills (cv_Status v)) +
     sint (st_NumUnallocatedTokensSchedulerRunningPrefills (cv_Status v)) +
     sint (st_NumUnallocatedTokensHybridSchedulerWaitingDecodes (cv_Status v)) +
     sint (acc_NumTokensInflightDispatchDecodeRequests (cv_Account v))"

definition decode_requests :: "CmsView \<Rightarrow> int" where
  "decode_requests v =
     sint (st_HybridSchedulerWaitingToDecodeRequestsNum (cv_Status v)) + sint (st_NumLoadingRequests (cv_Status v)) +
     sint (st_SchedulerWaitingToDecodeRequestsNum (cv_Status v)) +
     sint (st_SchedulerRunningToDecodeRequestsNum (cv_Status v)) +
     sint (acc_NumInflightDispatchDecodeRequests (cv_Account v))"

definition prefill_tokens :: "CmsView \<Rightarrow> int" where
  "prefill_tokens v =
     sint (st_NumUncomputedTokensAllWaitingPrefills (cv_Status v)) +
     sint (st_NumUncomputedTokensSchedulerRunningPrefills (cv_Status v)) +
     sint (acc_NumUncomputedTokensInflightDispatchPrefillRequests (cv_Account v))"

definition decode_tokens :: "CmsView \<Rightarrow> int" where
  "decode_tokens v =
     sint (st_HybridSchedulerWaitingToDecodeTokensNum (cv_Status v)) +
     sint (st_SchedulerWaitingToDecodeTokensNum (cv_Status v)) +
     sint (st_SchedulerRunningToDecodeTokensNum (cv_Status v)) +
     sint (st_NumTokensLoadingRequests (cv_Status v)) +
     sint (acc_NumTokensInflightDispatchDecodeRequests (cv_Account v))"

text \<open>While the counts stay below \<open>2^24\<close>, neither the 32-bit sums nor the conversion to \<open>float32\<close>
  lose anything: the metrics are the exact counts of reported and in-flight work, and the projected
  KV-cache usage is the correctly rounded quotient.\<close>

theorem metric_values_exact:
  assumes "0 \<le> used_tokens v" "used_tokens v < 2 ^ 24"
    "0 < sint (st_NumTotalGpuTokens (cv_Status v))" "sint (st_NumTotalGpuTokens (cv_Status v)) < 2 ^ 24"
    "0 \<le> decode_requests v" "decode_requests v < 2 ^ 24"
    "0 \<le> prefill_tokens v - sint predicted" "prefill_tokens v - sint predicted < 2 ^ 24"
    "0 \<le> decode_tokens v" "decode_tokens v < 2 ^ 24"
  shows "kv_usage_value v =
      round32 (of_int (used_tokens v) / of_int (sint (st_NumTotalGpuTokens (cv_Status v)))) \<and>
    decode_batch_value v = Fin (of_int (decode_requests v)) \<and>
    all_prefills_value predicted v = Fin (of_int (prefill_tokens v - sint predicted)) \<and>
    all_decodes_value v = Fin (of_int (decode_tokens v))"
proof (intro conjI)
  have "st_NumTotalGpuTokens (cv_Status v) \<noteq> 0" using assms(3) by auto
  moreover have "f32_of_int (sint (st_NumTotalGpuTokens (cv_Status v))) =
      Fin (of_int (sint (st_NumTotalGpuTokens (cv_Status v))))"
    using assms(3,4) by (intro f32_of_int_exact) simp
  moreover have "f32_of_int (sint (st_NumUsedGpuTokens (cv_Status v) +
      (st_NumUncomputedTokensAllWaitingPrefills (cv_Status v) +
       st_NumUnallocatedTokensSchedulerRunningPrefills (cv_Status v) +
       st_NumUnallocatedTokensHybridSchedulerWaitingDecodes (cv_Status v)) +
      acc_NumTokensInflightDispatchDecodeRequests (cv_Account v))) = Fin (of_int (used_tokens v))"
    by (rule f32_of_count) (use assms in simp_all, simp add: used_tokens_def)
  ultimately show "kv_usage_value v =
      round32 (of_int (used_tokens v) / of_int (sint (st_NumTotalGpuTokens (cv_Status v))))"
    using assms(3) by (simp add: kv_usage_value_def Let_def del: of_int_sint)
  show "decode_batch_value v = Fin (of_int (decode_requests v))"
    unfolding decode_batch_value_def Let_def
    by (rule f32_of_count) (use assms in simp_all, simp add: decode_requests_def)
  show "all_prefills_value predicted v = Fin (of_int (prefill_tokens v - sint predicted))"
    unfolding all_prefills_value_def Let_def
    by (rule f32_of_count) (use assms in simp_all, simp add: prefill_tokens_def)
  show "all_decodes_value v = Fin (of_int (decode_tokens v))"
    unfolding all_decodes_value_def Let_def
    by (rule f32_of_count) (use assms in simp_all, simp add: decode_tokens_def)
qed

theorem metric_values_exact_witness:
  "let v = ex_view ''a'' InferTypeDecode
   in 0 \<le> used_tokens v \<and> used_tokens v < 2 ^ 24 \<and>
      0 < sint (st_NumTotalGpuTokens (cv_Status v)) \<and> sint (st_NumTotalGpuTokens (cv_Status v)) < 2 ^ 24 \<and>
      decode_requests v = 0 \<and> prefill_tokens v = 0 \<and> decode_tokens v = 0 \<and> decode_batch_value v = Fin 0"
proof -
  let ?v = "ex_view ''a'' InferTypeDecode"
  have c: "used_tokens ?v = 0" "sint (st_NumTotalGpuTokens (cv_Status ?v)) = 1000" "decode_requests ?v = 0"
    "prefill_tokens ?v = 0" "decode_tokens ?v = 0"
    by (simp_all add: used_tokens_def decode_requests_def prefill_tokens_def decode_tokens_def ex_view_def
        empty_status_def empty_account_def)
  with metric_values_exact [of ?v 0] show ?thesis by simp
qed

subsection \<open>Prefill progress\<close>

lemma f64_of_int_nonneg: "0 \<le> n \<Longrightarrow> nonneg (f64_of_int n)"
  by (simp add: f64_of_int_def round64_nonneg)

lemma f64_of_neg: "\<not> 0 \<le> n \<Longrightarrow> fle (f64_of_int n) (Fin 0)"
  unfolding f64_of_int_def by (rule round64_nonpos) simp

text \<open>With a positive batch size the prediction of prefill progress always returns.  What it stores
  is positive only when the elapsed time was used up exactly by whole batches while tokens were left:
  in every other case (all tokens done, or a batch under way) the final truncation compares with the
  tokens that are left, and nothing is predicted as computed.\<close>

theorem prefill_progress_truncated:
  assumes "0 < sint maxBatched" "vs_cmsView v = Some c"
  shows "\<exists>v'. predict_progress q now maxBatched v = Some v' \<and>
    (0 < sint (vs_numComputedPrefillTokensPredicted v') \<longrightarrow>
      (\<exists>done left. 0 < sint left \<and>
        prefill_loop q maxBatched (f64_of_int (sint (now - st_TimestampMs (cv_Status c))))
          (i32_of_float (all_prefills_value (vs_numComputedPrefillTokensPredicted v) c))
          (st_NumUncomputedTokensSchedulerRunningPrefills (cv_Status c)) 0 = Some (done, left, Fin 0)))"
proof -
  define e where "e = f64_of_int (sint (now - st_TimestampMs (cv_Status c)))"
  let ?u = "i32_of_float (all_prefills_value (vs_numComputedPrefillTokensPredicted v) c)"
  let ?r = "st_NumUncomputedTokensSchedulerRunningPrefills (cv_Status c)"
  obtain res where res: "prefill_loop q maxBatched e ?u ?r 0 = Some res"
    using prefill_loop_returns [OF assms(1)] by blast
  show ?thesis
  proof (cases "fle e (Fin 0)")
    case True
    then show ?thesis using assms(2) by (simp add: predict_progress_def e_def)
  next
    case False
    have "nonneg e"
    proof (cases "0 \<le> sint (now - st_TimestampMs (cv_Status c))")
      case True
      then show ?thesis by (simp add: e_def f64_of_int_nonneg)
    next
      case neg: False
      then have "fle e (Fin 0)" unfolding e_def by (rule f64_of_neg)
      with False show ?thesis by simp
    qed
    from truncate_prediction_pos [OF res this] False res assms(2) show ?thesis
      by (cases res) (auto simp: predict_progress_def e_def)
  qed
qed

text \<open>A hundred waiting tokens, batches of ten in four milliseconds each, ten milliseconds since the
  report: two batches and a half are done, and the stored prediction is zero.\<close>

definition ex_qp :: QuadraticPredictor where
  "ex_qp = (NewQuadraticPredictor 0)\<lparr>qp_c := Fin 4, qp_fitted := True\<rparr>"

definition ex_waiting_view :: CmsView where
  "ex_waiting_view =
     (let v = ex_view ''a'' InferTypePrefill
      in v\<lparr>cv_Status := (cv_Status v)\<lparr>st_NumUncomputedTokensAllWaitingPrefills := 100\<rparr>\<rparr>)"

lemma round64_small: "\<bar>n\<bar> < 2 ^ 53 \<Longrightarrow> round64 (of_int n) = Fin (of_int n)"
  using f64_of_int_exact [of n] by (simp add: f64_of_int_def)

lemma ex_qp_predict: "qp_Predict ex_qp (Fin x) = Some (Fin 4)"
  using round64_small [of 0] round64_small [of 4]
  by (simp add: qp_Predict_def ex_qp_def NewQuadraticPredictor_def)

lemma ex_prefill_loop: "prefill_loop ex_qp 10 (Fin 10) 100 0 0 = Some (25, 0, Fin 0)"
proof -
  note r = round64_small [of 6] round64_small [of 2] round64_small [of 20] round64_small [of 5]
  have fl: "\<lfloor>11 / 2 :: rat\<rfloor> = 5" by (rule floor_unique) simp_all
  have f: "f64_of_int 10 = Fin 10" "validateStepDurationMs (Fin 4)" "i32_of_float (Fin 5) = 5"
    "i32_of_float (Fin 80) = 80"
    using validate_int [of 4] by (simp_all add: f64_of_int_exact i32_of_float_def rat_trunc_def Let_def)
  have "prefill_loop ex_qp 10 (Fin 10) 100 0 0 = prefill_loop ex_qp 10 (Fin 6) 90 0 10"
    using r by (subst prefill_loop.simps) (simp add: next_batch_def ex_qp_predict f fsub_def)
  also have "\<dots> = prefill_loop ex_qp 10 (Fin 2) 80 0 20"
    using r by (subst prefill_loop.simps) (simp add: next_batch_def ex_qp_predict f fsub_def)
  also have "\<dots> = prefill_loop ex_qp 10 (Fin 0) 0 0 25"
    using r by (subst prefill_loop.simps) (simp add: next_batch_def ex_qp_predict f fsub_def fl)
  also have "\<dots> = Some (25, 0, Fin 0)" by (simp add: prefill_loop_stop)
  finally show ?thesis .
qed

theorem prefill_progress_truncated_witness:
  "0 < sint (10 :: i32) \<and>
   (\<exists>v'. predict_progress ex_qp 1010 10 (new_scheduling_view (CmsInstanceView ex_waiting_view)) = Some v' \<and>
         vs_numComputedPrefillTokensPredicted v' = 0 \<and>
         prefill_loop ex_qp 10 (Fin 10) 100 0 0 = Some (25, 0, Fin 0))"
proof -
  let ?v = "new_scheduling_view (CmsInstanceView ex_waiting_view)"
  obtain v' where v': "predict_progress ex_qp 1010 10 ?v = Some v'"
    using prefill_progress_truncated [of 10 ?v ex_waiting_view ex_qp 1010] by (auto simp: new_scheduling_view_def)
  have "vs_numComputedPrefillTokensPredicted v' = 0"
    using v' ex_prefill_loop
    by (auto simp: predict_progress_def new_scheduling_view_def ex_waiting_view_def ex_view_def empty_status_def
        empty_account_def all_prefills_value_def f32_of_int_exact f64_of_int_exact i32_of_float_def rat_trunc_def
        truncate_prediction_def Let_def)
  with v' ex_prefill_loop show ?thesis by simp
qed

end
