(* ===== verification/Filters.thy ===== *)
theory Filters
  imports Metrics
begin

text \<open>
  Instance filters: \<open>pkg/scheduler/policy/filters.go\<close>.

  A single-instance filter may write the view's \<open>needsFailover\<close> mark, so it returns the view with its
  verdict.  A global filter returns a set of identifiers, here a duplicate-free list.  The
  clock is read once per call of \<open>filter\<close>.  Panics (a nil view, a missing metric, an unknown failover
  domain) are \<open>None\<close>.

  Lemmas: \<open>filter\<close> returns exactly the instances no filter rejects; the failover filter removes the
  failing instances together with their failure domain.
\<close>

subsection \<open>Single-instance filters\<close>

text \<open>\<open>rejectedValue\<close> has the dynamic type of the attribute it is compared with; the source uses
  inference types.  The attributes of \<open>cms.InstanceView\<close> that are neither an inference type nor a
  counter never equal such a value.\<close>

datatype attr_value = AttrInferType InferType | AttrInt32 i32 | AttrOther

definition FieldByName :: "CmsView \<Rightarrow> string \<Rightarrow> attr_value option" where
  "FieldByName v key =
     (if key = AttrKeyReservedInferType then Some (AttrInferType (cv_ReservedInferType v))
      else if key = ''NumInflightDispatchPrefillRequests''
      then Some (AttrInt32 (acc_NumInflightDispatchPrefillRequests (cv_Account v)))
      else if key = ''NumInflightDispatchDecodeRequests''
      then Some (AttrInt32 (acc_NumInflightDispatchDecodeRequests (cv_Account v)))
      else if key = ''NumInflightDispatchRequests''
      then Some (AttrInt32 (acc_NumInflightDispatchRequests (cv_Account v)))
      else if key = ''NumUncomputedTokensInflightDispatchPrefillRequests''
      then Some (AttrInt32 (acc_NumUncomputedTokensInflightDispatchPrefillRequests (cv_Account v)))
      else if key = ''NumTokensInflightDispatchDecodeRequests''
      then Some (AttrInt32 (acc_NumTokensInflightDispatchDecodeRequests (cv_Account v)))
      else if key \<in> set [''Instance'', ''Status'', ''Metadata'', ''InstanceStatusLocalAccount'', ''RequestLocalAccount'']
      then Some AttrOther
      else None)"

datatype singleInstanceFilter =
    metricBasedFilter string f32 bool
  | schedulabilityFilter
  | instanceAttributeFilter string attr_value
  | stalenessFilter i64
  | inferTypeFilter InferType
  | invertedSingleInstanceFilterWrapper singleInstanceFilter

definition instance_stale :: "i64 \<Rightarrow> i64 \<Rightarrow> CmsView \<Rightarrow> bool" where
  "instance_stale now secs c \<longleftrightarrow> sint secs < go_quot (sint (now - st_TimestampMs (cv_Status c))) 1000"

fun instanceFilteredOut ::
  "i64 \<Rightarrow> singleInstanceFilter \<Rightarrow> instanceViewScheduling \<Rightarrow> (instanceViewScheduling \<times> bool) option" where
  "instanceFilteredOut now (metricBasedFilter name threshold _) v =
     do { m \<leftarrow> mget (vs_metrics v) name; Some (v, \<not> ValueLess m threshold) }"
| "instanceFilteredOut now schedulabilityFilter v =
     do { c \<leftarrow> vs_cmsView v;
          let bad = \<not> st_Schedulable (cv_Status c);
          Some (v\<lparr>vs_needsFailover := vs_needsFailover v \<or> bad\<rparr>, bad) }"
| "instanceFilteredOut now (instanceAttributeFilter key rejected) v =
     Some (v, case vs_cmsView v of
                None \<Rightarrow> False
              | Some c \<Rightarrow> (case FieldByName c key of
                            None \<Rightarrow> False
                          | Some a \<Rightarrow> a = rejected \<and> a \<noteq> AttrOther))"
| "instanceFilteredOut now (stalenessFilter secs) v =
     do { c \<leftarrow> vs_cmsView v;
          let stale = instance_stale now secs c;
          Some (v\<lparr>vs_needsFailover := vs_needsFailover v \<or> stale\<rparr>, stale) }"
| "instanceFilteredOut now (inferTypeFilter t) v = Some (v, vs_GetInferType v \<noteq> t)"
| "instanceFilteredOut now (invertedSingleInstanceFilterWrapper f) v =
     do { (v', out) \<leftarrow> instanceFilteredOut now f v; Some (v', \<not> out) }"

fun skipWhenFallback :: "singleInstanceFilter \<Rightarrow> bool" where
  "skipWhenFallback (metricBasedFilter _ _ notSkip) \<longleftrightarrow> \<not> notSkip"
| "skipWhenFallback (invertedSingleInstanceFilterWrapper f) \<longleftrightarrow> skipWhenFallback f"
| "skipWhenFallback _ \<longleftrightarrow> False"

subsection \<open>Failover domains\<close>

definition isDataParallelEnabled :: "view_map \<Rightarrow> bool option" where
  "isDataParallelEnabled views =
     (case views of
        [] \<Rightarrow> Some False
      | (_, v) # _ \<Rightarrow> map_option (\<lambda>c. 1 < sint (md_DataParallelSize (cv_Metadata c))) (vs_cmsView v))"

definition getNeedsFailoverInstances :: "view_map \<Rightarrow> string list" where
  "getNeedsFailoverInstances views = map fst (filter (\<lambda>(i, v). vs_needsFailover v) views)"

fun cms_views :: "view_map \<Rightarrow> (string, CmsView) gmap option" where
  "cms_views [] = Some []"
| "cms_views ((i, v) # vs) = do { c \<leftarrow> vs_cmsView v; cs \<leftarrow> cms_views vs; Some ((i, c) # cs) }"

text \<open>The helpers read the CMS view of the instances they look at.  \<open>cms_views\<close> is \<open>None\<close> when one of
  the instances has none.\<close>

definition getFailoverNodes :: "string list \<Rightarrow> (string, CmsView) gmap \<Rightarrow> string list" where
  "getFailoverNodes ids cs =
     remdups (filter (\<lambda>n. n \<noteq> [])
       (concat (map (\<lambda>i. case mget cs i of None \<Rightarrow> [] | Some c \<Rightarrow> [md_NodeId (cv_Metadata c)]) ids)))"

definition getNodeFailoverInstances :: "string list \<Rightarrow> (string, CmsView) gmap \<Rightarrow> string list" where
  "getNodeFailoverInstances nodes cs =
     map fst (filter (\<lambda>(i, c). md_NodeId (cv_Metadata c) \<in> set nodes) cs)"

definition getFailoverUnits :: "string list \<Rightarrow> (string, CmsView) gmap \<Rightarrow> string list" where
  "getFailoverUnits ids cs =
     remdups (concat (map (\<lambda>i. case mget cs i of None \<Rightarrow> [] | Some c \<Rightarrow> [md_UnitId (cv_Metadata c)]) ids))"

definition getUnitFailoverInstances :: "string list \<Rightarrow> (string, CmsView) gmap \<Rightarrow> string list" where
  "getUnitFailoverInstances units cs =
     map fst (filter (\<lambda>(i, c). md_UnitId (cv_Metadata c) \<in> set units) cs)"

definition failover_instances :: "string \<Rightarrow> view_map \<Rightarrow> string list option" where
  "failover_instances domain views =
     (let failing = getNeedsFailoverInstances views
      in if domain = FailoverDomainInstance then Some failing
         else if domain = FailoverDomainNode
         then do { cs \<leftarrow> cms_views views;
                   Some (getNodeFailoverInstances (getFailoverNodes failing cs) cs) }
         else if domain = FailoverDomainInstanceUnit
         then do { dp \<leftarrow> isDataParallelEnabled views;
                   if \<not> dp then Some failing
                   else do { cs \<leftarrow> cms_views views;
                             Some (getUnitFailoverInstances (getFailoverUnits failing cs) cs) } }
         else if domain = FailoverDomainNodeUnit
         then do { cs \<leftarrow> cms_views views;
                   let onNodes = getNodeFailoverInstances (getFailoverNodes failing cs) cs;
                   dp \<leftarrow> isDataParallelEnabled views;
                   Some (if \<not> dp then onNodes
                         else getUnitFailoverInstances (getFailoverUnits onNodes cs) cs) }
         else None)"

subsection \<open>Global filters\<close>

datatype globalFilter =
    failoverFilter string
  | failoverMigrationSrcFilter i64 string

definition getRemainingInstanceIds :: "view_map \<Rightarrow> string list \<Rightarrow> string list" where
  "getRemainingInstanceIds views out = filter (\<lambda>i. i \<notin> set out) (mkeys views)"

fun run_filters ::
  "i64 \<Rightarrow> singleInstanceFilter list \<Rightarrow> instanceViewScheduling \<Rightarrow> (instanceViewScheduling \<times> bool) option" where
  "run_filters now [] v = Some (v, False)"
| "run_filters now (f # fs) v =
     do { (v', out) \<leftarrow> instanceFilteredOut now f v;
          (v'', out') \<leftarrow> run_filters now fs v';
          Some (v'', out \<or> out') }"

definition mark_view :: "i64 \<Rightarrow> i64 \<Rightarrow> instanceViewScheduling \<Rightarrow> instanceViewScheduling option" where
  "mark_view now secs v = map_option fst (run_filters now [schedulabilityFilter, stalenessFilter secs] v)"

fun filterOutInstances :: "i64 \<Rightarrow> globalFilter \<Rightarrow> view_map \<Rightarrow> (view_map \<times> string list) option" where
  "filterOutInstances now (failoverFilter domain) views =
     do { out \<leftarrow> failover_instances domain views; Some (views, out) }"
| "filterOutInstances now (failoverMigrationSrcFilter secs domain) views =
     do { views' \<leftarrow> map_views (mark_view now secs) views;
          out \<leftarrow> failover_instances domain views';
          Some (views', getRemainingInstanceIds views' out) }"

subsection \<open>The filter chain\<close>

fun filter_singles ::
  "i64 \<Rightarrow> singleInstanceFilter list \<Rightarrow> view_map \<Rightarrow> (view_map \<times> string list) option" where
  "filter_singles now fs [] = Some ([], [])"
| "filter_singles now fs ((i, v) # vs) =
     do { (v', out) \<leftarrow> run_filters now fs v;
          (vs', available) \<leftarrow> filter_singles now fs vs;
          Some ((i, v') # vs', if out then available else i # available) }"

fun filter_globals :: "i64 \<Rightarrow> globalFilter list \<Rightarrow> view_map \<Rightarrow> string list \<Rightarrow> (view_map \<times> string list) option" where
  "filter_globals now [] views available = Some (views, available)"
| "filter_globals now (g # gs) views available =
     do { (views', out) \<leftarrow> filterOutInstances now g views;
          filter_globals now gs views' (filter (\<lambda>i. i \<notin> set out) available) }"

definition active_filters :: "bool \<Rightarrow> singleInstanceFilter list \<Rightarrow> singleInstanceFilter list" where
  "active_filters fallback fs = filter (\<lambda>f. \<not> (fallback \<and> skipWhenFallback f)) fs"

text \<open>\<open>filter\<close> returns the views it marked and the sub-map of available ones.\<close>

definition filter_instances ::
  "i64 \<Rightarrow> singleInstanceFilter list \<Rightarrow> globalFilter list \<Rightarrow> bool \<Rightarrow> view_map \<Rightarrow> (view_map \<times> view_map) option" where
  "filter_instances now sif gf fallback views =
     do { (views', available) \<leftarrow> filter_singles now (active_filters fallback sif) views;
          (views'', available') \<leftarrow> filter_globals now gf views' available;
          Some (views'', filter (\<lambda>(i, v). i \<in> set available') views'') }"

subsection \<open>Verdicts and marks\<close>

fun marked :: "i64 \<Rightarrow> singleInstanceFilter \<Rightarrow> instanceViewScheduling \<Rightarrow> bool" where
  "marked now schedulabilityFilter v \<longleftrightarrow> (\<exists>c. vs_cmsView v = Some c \<and> \<not> st_Schedulable (cv_Status c))"
| "marked now (stalenessFilter secs) v \<longleftrightarrow> (\<exists>c. vs_cmsView v = Some c \<and> instance_stale now secs c)"
| "marked now (invertedSingleInstanceFilterWrapper f) v \<longleftrightarrow> marked now f v"
| "marked now _ v \<longleftrightarrow> False"

definition verdict :: "i64 \<Rightarrow> singleInstanceFilter \<Rightarrow> instanceViewScheduling \<Rightarrow> bool option" where
  "verdict now f v = map_option snd (instanceFilteredOut now f v)"

definition set_mark :: "bool \<Rightarrow> instanceViewScheduling \<Rightarrow> instanceViewScheduling" where
  "set_mark b v = v\<lparr>vs_needsFailover := vs_needsFailover v \<or> b\<rparr>"

lemma set_mark_simps [simp]:
  "set_mark False v = v" "set_mark a (set_mark b v) = set_mark (a \<or> b) v"
  "vs_cmsView (set_mark b v) = vs_cmsView v" "vs_lrsView (set_mark b v) = vs_lrsView v"
  "vs_view (set_mark b v) = vs_view v" "vs_metrics (set_mark b v) = vs_metrics v"
  "vs_needsFailover (set_mark b v) \<longleftrightarrow> vs_needsFailover v \<or> b"
  by (simp_all add: set_mark_def disj_ac)

lemma instanceFilteredOut_view:
  "instanceFilteredOut now f v = Some (v', out) \<Longrightarrow> v' = set_mark (marked now f v) v"
  by (induction f arbitrary: v' out) (auto simp: bind_eq_Some_conv Let_def set_mark_def)

lemma marked_set_mark [simp]: "marked now f (set_mark b v) = marked now f v"
  by (induction f) auto

lemma verdict_set_mark [simp]: "verdict now f (set_mark b v) = verdict now f v"
proof (induction f)
  case (invertedSingleInstanceFilterWrapper f)
  then show ?case
    by (cases "instanceFilteredOut now f v"; cases "instanceFilteredOut now f (set_mark b v)")
      (auto simp: verdict_def split_beta)
qed (auto simp: verdict_def Let_def split: Option.bind_split option.split)

lemma instanceFilteredOut_iff:
  "instanceFilteredOut now f v = Some (v', out) \<longleftrightarrow> verdict now f v = Some out \<and> v' = set_mark (marked now f v) v"
proof
  assume "instanceFilteredOut now f v = Some (v', out)"
  then show "verdict now f v = Some out \<and> v' = set_mark (marked now f v) v"
    by (auto simp: verdict_def dest: instanceFilteredOut_view)
next
  assume "verdict now f v = Some out \<and> v' = set_mark (marked now f v) v"
  then show "instanceFilteredOut now f v = Some (v', out)"
    by (auto simp: verdict_def dest: instanceFilteredOut_view)
qed

definition mark_all :: "i64 \<Rightarrow> singleInstanceFilter list \<Rightarrow> instanceViewScheduling \<Rightarrow> instanceViewScheduling" where
  "mark_all now fs v = set_mark (list_ex (\<lambda>f. marked now f v) fs) v"

definition rejected :: "i64 \<Rightarrow> singleInstanceFilter list \<Rightarrow> instanceViewScheduling \<Rightarrow> bool" where
  "rejected now fs v \<longleftrightarrow> list_ex (\<lambda>f. verdict now f v = Some True) fs"

definition judged :: "i64 \<Rightarrow> singleInstanceFilter list \<Rightarrow> instanceViewScheduling \<Rightarrow> bool" where
  "judged now fs v \<longleftrightarrow> list_all (\<lambda>f. verdict now f v \<noteq> None) fs"

lemma mark_all_set_mark: "mark_all now fs (set_mark b v) = set_mark b (mark_all now fs v)"
  by (simp add: mark_all_def disj_commute)

lemma rejected_set_mark [simp]: "rejected now fs (set_mark b v) = rejected now fs v"
  "judged now fs (set_mark b v) = judged now fs v"
  by (simp_all add: rejected_def judged_def)

lemma run_filters_eq:
  "run_filters now fs v = (if judged now fs v then Some (mark_all now fs v, rejected now fs v) else None)"
proof (induction fs arbitrary: v)
  case Nil
  then show ?case by (simp add: judged_def mark_all_def rejected_def)
next
  case (Cons f fs)
  show ?case
  proof (cases "verdict now f v")
    case None
    then have "instanceFilteredOut now f v = None" by (simp add: verdict_def)
    with None show ?thesis by (simp add: judged_def)
  next
    case (Some out)
    then have "instanceFilteredOut now f v = Some (set_mark (marked now f v) v, out)"
      by (simp add: instanceFilteredOut_iff)
    with Some Cons.IH [of "set_mark (marked now f v) v"] show ?thesis
      by (auto simp: mark_all_set_mark) (auto simp: judged_def rejected_def mark_all_def disj_commute)
  qed
qed

lemma filter_singles_eq:
  "filter_singles now fs views =
     (if list_all (\<lambda>(i, v). judged now fs v) views
      then Some (map_ran (\<lambda>_. mark_all now fs) views, map fst (filter (\<lambda>(i, v). \<not> rejected now fs v) views))
      else None)"
  by (induction views) (auto simp: run_filters_eq)

subsection \<open>Failure domains\<close>

definition failing :: "view_map \<Rightarrow> string \<Rightarrow> bool" where
  "failing views j \<longleftrightarrow> (\<exists>v. mget views j = Some v \<and> vs_needsFailover v)"

definition cms_of :: "view_map \<Rightarrow> string \<Rightarrow> CmsView option" where
  "cms_of views j = Option.bind (mget views j) vs_cmsView"

definition node_of :: "view_map \<Rightarrow> string \<Rightarrow> string" where
  "node_of views j = (case cms_of views j of None \<Rightarrow> [] | Some c \<Rightarrow> md_NodeId (cv_Metadata c))"

definition unit_of :: "view_map \<Rightarrow> string \<Rightarrow> string" where
  "unit_of views j = (case cms_of views j of None \<Rightarrow> [] | Some c \<Rightarrow> md_UnitId (cv_Metadata c))"

text \<open>Instance \<open>i\<close> goes down with the failing instance \<open>j\<close>.\<close>

definition shares_fate :: "string \<Rightarrow> view_map \<Rightarrow> string \<Rightarrow> string \<Rightarrow> bool" where
  "shares_fate domain views j i \<longleftrightarrow>
     (let dp = (isDataParallelEnabled views = Some True);
          same_node = (\<lambda>k. node_of views k = node_of views j \<and> node_of views j \<noteq> [])
      in if domain = FailoverDomainInstance \<or> domain = FailoverDomainInstanceUnit \<and> \<not> dp then i = j
         else if domain = FailoverDomainNode \<or> domain = FailoverDomainNodeUnit \<and> \<not> dp then same_node i
         else if domain = FailoverDomainInstanceUnit then unit_of views i = unit_of views j
         else list_ex (\<lambda>k. same_node k \<and> unit_of views k = unit_of views i) (mkeys views))"

lemma cms_views_facts:
  assumes "cms_views views = Some cs"
  shows "mkeys cs = mkeys views" "mget cs i = cms_of views i"
proof -
  have "mkeys cs = mkeys views \<and> mget cs i = cms_of views i"
    using assms by (induction views arbitrary: cs) (auto simp: bind_eq_Some_conv cms_of_def)
  then show "mkeys cs = mkeys views" "mget cs i = cms_of views i" by auto
qed

lemma set_map_fst_filter: "mwf m \<Longrightarrow> i \<in> set (map fst (filter (\<lambda>(i, v). P i v) m)) \<longleftrightarrow> (\<exists>v. mget m i = Some v \<and> P i v)"
  by (auto simp: mget_iff_mem image_iff)

lemma set_needs_failover: "mwf views \<Longrightarrow> set (getNeedsFailoverInstances views) = {j. failing views j}"
  unfolding getNeedsFailoverInstances_def failing_def using set_map_fst_filter [of views _ "\<lambda>_. vs_needsFailover"] by blast

lemma failing_mem: "failing views j \<Longrightarrow> j \<in> set (mkeys views)"
  by (metis failing_def mem_mkeys_iff)

lemma cs_mem: "cms_views views = Some cs \<Longrightarrow> i \<in> set (mkeys views) \<longleftrightarrow> (\<exists>c. mget cs i = Some c)"
  by (metis cms_views_facts(1) mem_mkeys_iff)

lemma cs_get:
  assumes "cms_views views = Some cs" "mget cs i = Some c"
  shows "node_of views i = md_NodeId (cv_Metadata c)" "unit_of views i = md_UnitId (cv_Metadata c)"
  using assms by (simp_all add: node_of_def unit_of_def cms_views_facts(2))

lemma failover_nodes_eq:
  assumes cs: "cms_views views = Some cs"
  shows "n \<in> set (getFailoverNodes ids cs) \<longleftrightarrow>
    n \<noteq> [] \<and> (\<exists>j\<in>set ids. j \<in> set (mkeys views) \<and> node_of views j = n)"
proof -
  have "n \<in> set (getFailoverNodes ids cs) \<longleftrightarrow>
      n \<noteq> [] \<and> (\<exists>j\<in>set ids. \<exists>c. mget cs j = Some c \<and> md_NodeId (cv_Metadata c) = n)"
    by (auto simp: getFailoverNodes_def split: option.splits) force+
  also have "\<dots> \<longleftrightarrow> n \<noteq> [] \<and> (\<exists>j\<in>set ids. j \<in> set (mkeys views) \<and> node_of views j = n)"
    using cs_mem [OF cs] cs_get(1) [OF cs] by metis
  finally show ?thesis .
qed

lemma failover_units_eq:
  assumes cs: "cms_views views = Some cs"
  shows "u \<in> set (getFailoverUnits ids cs) \<longleftrightarrow> (\<exists>j\<in>set ids. j \<in> set (mkeys views) \<and> unit_of views j = u)"
proof -
  have "u \<in> set (getFailoverUnits ids cs) \<longleftrightarrow>
      (\<exists>j\<in>set ids. \<exists>c. mget cs j = Some c \<and> md_UnitId (cv_Metadata c) = u)"
    by (auto simp: getFailoverUnits_def split: option.splits) force+
  also have "\<dots> \<longleftrightarrow> (\<exists>j\<in>set ids. j \<in> set (mkeys views) \<and> unit_of views j = u)"
    using cs_mem [OF cs] cs_get(2) [OF cs] by metis
  finally show ?thesis .
qed

lemma node_failover_eq:
  assumes cs: "cms_views views = Some cs" and wf: "mwf views"
  shows "i \<in> set (getNodeFailoverInstances nodes cs) \<longleftrightarrow> i \<in> set (mkeys views) \<and> node_of views i \<in> set nodes"
proof -
  have "mwf cs" using wf cms_views_facts(1) [OF cs] by simp
  then show ?thesis
    unfolding getNodeFailoverInstances_def using cs_mem [OF cs] cs_get(1) [OF cs]
    by (subst set_map_fst_filter) auto
qed

lemma unit_failover_eq:
  assumes cs: "cms_views views = Some cs" and wf: "mwf views"
  shows "i \<in> set (getUnitFailoverInstances units cs) \<longleftrightarrow> i \<in> set (mkeys views) \<and> unit_of views i \<in> set units"
proof -
  have "mwf cs" using wf cms_views_facts(1) [OF cs] by simp
  then show ?thesis
    unfolding getUnitFailoverInstances_def using cs_mem [OF cs] cs_get(2) [OF cs]
    by (subst set_map_fst_filter) auto
qed

definition fate_spec :: "string \<Rightarrow> view_map \<Rightarrow> string \<Rightarrow> bool" where
  "fate_spec domain views i \<longleftrightarrow> i \<in> set (mkeys views) \<and> (\<exists>j. failing views j \<and> shares_fate domain views j i)"

lemma failover_instance_exact:
  assumes "mwf views" "failover_instances FailoverDomainInstance views = Some out"
  shows "i \<in> set out \<longleftrightarrow> fate_spec FailoverDomainInstance views i"
  using assms(2) set_needs_failover [OF assms(1)] failing_mem
  by (auto simp: fate_spec_def failover_instances_def shares_fate_def failover_domains)

lemma failover_node_exact:
  assumes "mwf views" "failover_instances FailoverDomainNode views = Some out"
  shows "i \<in> set out \<longleftrightarrow> fate_spec FailoverDomainNode views i"
proof -
  from assms(2) obtain cs where cs: "cms_views views = Some cs"
    "out = getNodeFailoverInstances (getFailoverNodes (getNeedsFailoverInstances views) cs) cs"
    by (auto simp: failover_instances_def failover_domains bind_eq_Some_conv)
  then show ?thesis using failing_mem
    by (auto simp: node_failover_eq [OF cs(1) assms(1)] failover_nodes_eq [OF cs(1)]
        set_needs_failover [OF assms(1)] fate_spec_def shares_fate_def failover_domains)
qed

lemma failover_instance_unit_exact:
  assumes "mwf views" "failover_instances FailoverDomainInstanceUnit views = Some out"
  shows "i \<in> set out \<longleftrightarrow> fate_spec FailoverDomainInstanceUnit views i"
proof -
  from assms(2) obtain dp where dp: "isDataParallelEnabled views = Some dp"
    by (auto simp: failover_instances_def failover_domains bind_eq_Some_conv Let_def)
  show ?thesis
  proof (cases dp)
    case True
    with dp assms(2) obtain cs where cs: "cms_views views = Some cs"
      "out = getUnitFailoverInstances (getFailoverUnits (getNeedsFailoverInstances views) cs) cs"
      by (auto simp: failover_instances_def failover_domains bind_eq_Some_conv)
    with dp True show ?thesis using failing_mem
      by (auto simp: unit_failover_eq [OF cs(1) assms(1)] failover_units_eq [OF cs(1)]
          set_needs_failover [OF assms(1)] fate_spec_def shares_fate_def failover_domains)
  next
    case False
    with dp assms(2) show ?thesis using set_needs_failover [OF assms(1)] failing_mem
      by (auto simp: failover_instances_def fate_spec_def shares_fate_def failover_domains)
  qed
qed

lemma failover_node_unit_exact:
  assumes "mwf views" "failover_instances FailoverDomainNodeUnit views = Some out"
  shows "i \<in> set out \<longleftrightarrow> fate_spec FailoverDomainNodeUnit views i"
proof -
  from assms(2) obtain cs dp where cs: "cms_views views = Some cs" "isDataParallelEnabled views = Some dp"
    "out = (let onNodes = getNodeFailoverInstances (getFailoverNodes (getNeedsFailoverInstances views) cs) cs
            in if \<not> dp then onNodes else getUnitFailoverInstances (getFailoverUnits onNodes cs) cs)"
    by (auto simp: failover_instances_def failover_domains bind_eq_Some_conv Let_def)
  define onNodes where "onNodes = getNodeFailoverInstances (getFailoverNodes (getNeedsFailoverInstances views) cs) cs"
  have onNodes: "k \<in> set onNodes \<longleftrightarrow> k \<in> set (mkeys views) \<and>
      (\<exists>j. failing views j \<and> node_of views k = node_of views j \<and> node_of views j \<noteq> [])" for k
    using failing_mem
    by (auto simp: onNodes_def node_failover_eq [OF cs(1) assms(1)] failover_nodes_eq [OF cs(1)]
        set_needs_failover [OF assms(1)])
  show ?thesis
  proof (cases dp)
    case True
    then have "i \<in> set out \<longleftrightarrow> i \<in> set (mkeys views) \<and> (\<exists>k\<in>set onNodes. unit_of views k = unit_of views i)"
      using cs(3) onNodes
      by (auto simp: onNodes_def unit_failover_eq [OF cs(1) assms(1)] failover_units_eq [OF cs(1)])
    moreover have "fate_spec FailoverDomainNodeUnit views i \<longleftrightarrow> i \<in> set (mkeys views) \<and>
        (\<exists>j. failing views j \<and> (\<exists>k\<in>set (mkeys views).
          node_of views k = node_of views j \<and> node_of views j \<noteq> [] \<and> unit_of views k = unit_of views i))"
      using True cs(2) by (simp add: fate_spec_def shares_fate_def failover_domains list_ex_iff)
    ultimately show ?thesis using onNodes by blast
  next
    case False
    with cs(2,3) show ?thesis
      by (simp add: onNodes [unfolded onNodes_def] fate_spec_def shares_fate_def failover_domains)
  qed
qed

lemmas failover_exact =
  failover_instance_exact failover_node_exact failover_instance_unit_exact failover_node_unit_exact

lemma failover_domain_spec:
  assumes "mwf views" "failover_instances domain views = Some out"
  shows "i \<in> set out \<longleftrightarrow> i \<in> set (mkeys views) \<and> (\<exists>j. failing views j \<and> shares_fate domain views j i)"
proof -
  have "domain \<in> {FailoverDomainInstance, FailoverDomainNode, FailoverDomainInstanceUnit, FailoverDomainNodeUnit}"
    using assms(2) by (auto simp: failover_instances_def Let_def split: if_splits)
  with failover_exact [OF assms(1)] assms(2) have "i \<in> set out \<longleftrightarrow> fate_spec domain views i" by blast
  then show ?thesis unfolding fate_spec_def .
qed

text \<open>The failover filter removes exactly the instances that share the fate of a failing one: the
  failing instances themselves, those on the same (named) node, those of the same unit when data
  parallelism is on, or those of a unit that has an instance on such a node, as the failover domain
  says.\<close>

theorem failover_domain_exact:
  assumes "mwf views" "failover_instances domain views = Some out"
  shows "i \<in> set out \<longleftrightarrow> i \<in> set (mkeys views) \<and> (\<exists>j. failing views j \<and> shares_fate domain views j i)"
  using assms by (rule failover_domain_spec)

definition ex_cluster :: view_map where
  "ex_cluster =
     (let view = (\<lambda>i node unit. (ex_view i InferTypeDecode)\<lparr>cv_Metadata := (cv_Metadata (ex_view i InferTypeDecode))
                    \<lparr>md_NodeId := node, md_UnitId := unit, md_DataParallelSize := 2\<rparr>\<rparr>);
          sched = (\<lambda>i node unit. (i, new_scheduling_view (CmsInstanceView (view i node unit))))
      in [(''a'', (snd (sched ''a'' ''n1'' ''u1''))\<lparr>vs_needsFailover := True\<rparr>), sched ''b'' ''n1'' ''u2'', sched ''c'' ''n2'' ''u2'',
          sched ''d'' ''n3'' ''u3''])"

theorem failover_domain_exact_witness:
  "mwf ex_cluster \<and> failover_instances FailoverDomainNodeUnit ex_cluster = Some [''a'', ''b'', ''c''] \<and>
   (\<exists>j. failing ex_cluster j \<and> shares_fate FailoverDomainNodeUnit ex_cluster j ''c'') \<and>
   \<not> (\<exists>j. failing ex_cluster j \<and> shares_fate FailoverDomainNodeUnit ex_cluster j ''d'')"
proof -
  have wf: "mwf ex_cluster" "''d'' \<in> set (mkeys ex_cluster)" by (simp_all add: ex_cluster_def)
  have out: "failover_instances FailoverDomainNodeUnit ex_cluster = Some [''a'', ''b'', ''c'']"
    by code_simp
  show ?thesis
    using failover_domain_exact [OF wf(1) out, of "''c''"] failover_domain_exact [OF wf(1) out, of "''d''"] wf out by simp
qed

subsection \<open>The filter chain\<close>

lemma mget_filter_keys: "mwf m \<Longrightarrow> mget (filter (\<lambda>(i, v). i \<in> S) m) i = (if i \<in> S then mget m i else None)"
  by (induction m) auto

lemma filter_singles_available:
  assumes "mwf views"
  shows "i \<in> set (map fst (filter (\<lambda>(i, v). \<not> rejected now fs v) views)) \<longleftrightarrow>
    (\<exists>v. mget (map_ran (\<lambda>_. mark_all now fs) views) i = Some v \<and> \<not> rejected now fs v)"
  using set_map_fst_filter [OF assms, of i "\<lambda>_ v. \<not> rejected now fs v"]
  by (auto simp: go_map_simps mark_all_def)

lemma mkeys_map_ran [simp]: "mkeys (map_ran f m) = mkeys m"
  by (induction m) auto

lemma filter_plain_Some:
  assumes "mwf views" "filter_instances now sif [] fallback views = Some (views', avail)"
  defines "fs \<equiv> active_filters fallback sif"
  shows "views' = map_ran (\<lambda>_. mark_all now fs) views \<and>
    (mget avail i = Some v \<longleftrightarrow> mget views' i = Some v \<and> \<not> rejected now fs v)"
proof -
  from assms have v': "views' = map_ran (\<lambda>_. mark_all now fs) views"
    "avail = filter (\<lambda>(i, v). i \<in> set (map fst (filter (\<lambda>(i, v). \<not> rejected now fs v) views))) views'"
    by (auto simp: filter_instances_def filter_singles_eq split: if_splits)
  have wf: "mwf views'" using assms(1) v'(1) by simp
  show ?thesis
    using filter_singles_available [OF assms(1), of i now fs] unfolding v'(2) mget_filter_keys [OF wf]
    by (auto simp: v'(1))
qed

lemma filter_spec:
  assumes "mwf views" "filter_instances now sif [failoverFilter domain] fallback views = Some (views', avail)"
  shows "views' = map_ran (\<lambda>_. mark_all now (active_filters fallback sif)) views \<and>
    (mget avail i = Some v \<longleftrightarrow>
      mget views' i = Some v \<and> \<not> rejected now (active_filters fallback sif) v \<and>
      \<not> (\<exists>j. failing views' j \<and> shares_fate domain views' j i))"
proof -
  let ?fs = "active_filters fallback sif"
  from assms obtain out where v': "views' = map_ran (\<lambda>_. mark_all now ?fs) views"
    "failover_instances domain views' = Some out"
    "avail = filter (\<lambda>(i, v). i \<in> set (filter (\<lambda>i. i \<notin> set out)
       (map fst (filter (\<lambda>(i, v). \<not> rejected now ?fs v) views)))) views'"
    by (auto simp: filter_instances_def filter_singles_eq bind_eq_Some_conv split: if_splits)
  have wf: "mwf views'" using assms(1) v'(1) by simp
  have out: "i \<in> set out \<longleftrightarrow> i \<in> set (mkeys views') \<and> (\<exists>j. failing views' j \<and> shares_fate domain views' j i)"
    using failover_domain_spec [OF wf v'(2)] .
  have "mget avail i = Some v \<longleftrightarrow> mget views' i = Some v \<and> i \<notin> set out \<and> \<not> rejected now ?fs v"
    using filter_singles_available [OF assms(1), of i now ?fs] unfolding v'(3) mget_filter_keys [OF wf]
    by (auto simp: v'(1))
  moreover have "mget views' i = Some v \<Longrightarrow> i \<in> set (mkeys views')" by (metis mem_mkeys_iff)
  ultimately show ?thesis using out v'(1) by blast
qed

text \<open>C32. A filter chain with a failover filter returns the views with their failover marks and, as
  available, exactly the instances that no active filter rejects and that share no failure domain
  with a marked instance.\<close>

theorem filter_exact:
  assumes "mwf views" "filter_instances now sif [failoverFilter domain] fallback views = Some (views', avail)"
  shows "views' = map_ran (\<lambda>_. mark_all now (active_filters fallback sif)) views \<and>
    (mget avail i = Some v \<longleftrightarrow>
      mget views' i = Some v \<and> \<not> rejected now (active_filters fallback sif) v \<and>
      \<not> (\<exists>j. failing views' j \<and> shares_fate domain views' j i))"
  using filter_spec [OF assms] .

theorem filter_exact_witness:
  "mwf ex_cluster \<and>
   filter_instances 1000 [schedulabilityFilter, stalenessFilter 60] [failoverFilter FailoverDomainNode] False ex_cluster =
     Some (ex_cluster, [ex_cluster ! 2, ex_cluster ! 3]) \<and>
   mget [ex_cluster ! 2, ex_cluster ! 3] ''b'' = None \<and>
   (\<exists>j. failing ex_cluster j \<and> shares_fate FailoverDomainNode ex_cluster j ''b'')"
proof -
  have wf: "mwf ex_cluster" by (simp add: ex_cluster_def)
  have res: "filter_instances 1000 [schedulabilityFilter, stalenessFilter 60] [failoverFilter FailoverDomainNode] False ex_cluster =
     Some (ex_cluster, [ex_cluster ! 2, ex_cluster ! 3])" by code_simp
  have b: "mget ex_cluster ''b'' = Some (snd (ex_cluster ! 1))"
    "mget [ex_cluster ! 2, ex_cluster ! 3] ''b'' = None"
    "\<not> rejected 1000 (active_filters False [schedulabilityFilter, stalenessFilter 60]) (snd (ex_cluster ! 1))"
    by code_simp+
  with filter_exact [OF wf res, of "''b''" "snd (ex_cluster ! 1)"] wf res show ?thesis by simp
qed

lemma failover_instances_total:
  assumes "list_all (\<lambda>(i, v). vs_cmsView v \<noteq> None) views"
    "domain \<in> {FailoverDomainInstance, FailoverDomainNode, FailoverDomainInstanceUnit, FailoverDomainNodeUnit}"
  shows "\<exists>out. failover_instances domain views = Some out"
proof -
  have "\<exists>cs. cms_views views = Some cs" using assms(1) by (induction views) auto
  moreover have "\<exists>dp. isDataParallelEnabled views = Some dp"
    using assms(1) by (auto simp: isDataParallelEnabled_def split: list.splits)
  ultimately obtain cs dp where "cms_views views = Some cs" "isDataParallelEnabled views = Some dp" by blast
  then show ?thesis
    using assms(2) by (elim insertE emptyE) (simp_all add: failover_instances_def failover_domains Let_def)
qed

lemma filter_failover_total:
  assumes "list_all (\<lambda>(i, v). judged now (active_filters fallback sif) v \<and> vs_cmsView v \<noteq> None) views"
    "domain \<in> {FailoverDomainInstance, FailoverDomainNode, FailoverDomainInstanceUnit, FailoverDomainNodeUnit}"
  shows "\<exists>views' avail. filter_instances now sif [failoverFilter domain] fallback views = Some (views', avail)"
proof -
  define views' where "views' = map_ran (\<lambda>_. mark_all now (active_filters fallback sif)) views"
  have "list_all (\<lambda>(i, v). vs_cmsView v \<noteq> None) views'"
    using assms(1) unfolding views'_def by (induction views) (auto simp: mark_all_def)
  from failover_instances_total [OF this assms(2)] have "\<exists>out. failover_instances domain views' = Some out" .
  moreover have "list_all (\<lambda>(i, v). judged now (active_filters fallback sif) v) views"
    using assms(1) by (auto simp: list_all_iff)
  ultimately show ?thesis by (auto simp: filter_instances_def filter_singles_eq views'_def)
qed

end
