(* ===== verification/Selectors.thy ===== *)
theory Selectors
  imports Filters
begin

text \<open>
  Dispatch selectors: \<open>pkg/scheduler/policy/scheduling_selectors.go\<close>.

  \<open>selectInstance\<close> returns the selector (the fixed preference remembers its choice), the views (the
  decode selector recomputes a metric in fallback) and the chosen view.  The random number generator
  is an argument: \<open>rnd k\<close> is the value of \<open>rand.Intn(k)\<close>.  A missing metric or CMS view is a nil
  dereference, hence \<open>None\<close>; for the sort this is checked up front.

  Lemmas: comparing views metric by metric is a strict weak order; the chosen instance is minimal, or
  among the first \<open>k\<close>, in it.
\<close>

datatype dispatchSelector =
    metricBasedSelector i64 "string list"
  | fixedPreferenceSelector string
  | sloPrefillApdSelector
  | sloDecodeApdSelector f32 f32

abbreviation vs_metric :: "instanceViewScheduling \<Rightarrow> string \<Rightarrow> instanceSchedulingMetric option" where
  "vs_metric v n \<equiv> mget (vs_metrics v) n"

subsection \<open>Metric-based selection\<close>

fun replaces :: "string list \<Rightarrow> instanceViewScheduling \<Rightarrow> instanceViewScheduling \<Rightarrow> bool option" where
  "replaces [] v sel = Some False"
| "replaces (n # ns) v sel =
     do { m \<leftarrow> vs_metric v n;
          m' \<leftarrow> vs_metric sel n;
          if metric_Less m m' then Some True
          else if metric_Less m' m then Some False
          else replaces ns v sel }"

fun best_loop ::
  "string list \<Rightarrow> instanceViewScheduling \<Rightarrow> instanceViewScheduling list \<Rightarrow> instanceViewScheduling option" where
  "best_loop names sel [] = Some sel"
| "best_loop names sel (v # vs) =
     do { r \<leftarrow> replaces names v sel; best_loop names (if r then v else sel) vs }"

definition best :: "string list \<Rightarrow> view_map \<Rightarrow> instanceViewScheduling option option" where
  "best names views =
     (case mvals views of [] \<Rightarrow> Some None | v # vs \<Rightarrow> map_option Some (best_loop names v vs))"

definition lex_less :: "string list \<Rightarrow> instanceViewScheduling \<Rightarrow> instanceViewScheduling \<Rightarrow> bool" where
  "lex_less names v w \<longleftrightarrow> replaces names v w = Some True"

definition randomChoiceFromTopK ::
  "(int \<Rightarrow> nat) \<Rightarrow> i64 \<Rightarrow> string list \<Rightarrow> view_map \<Rightarrow> instanceViewScheduling option" where
  "randomChoiceFromTopK rnd topK names views =
     (let vs = mvals views;
          k = (if int (length vs) < sint topK then int (length vs) else sint topK)
      in if 1 < length vs \<and> \<not> list_all (\<lambda>v. list_all (\<lambda>n. vs_metric v n \<noteq> None) names) vs then None
         else if k \<le> 0 then None
         else Some (sort_stable (lex_less names) vs ! rnd k))"

subsection \<open>SLO selection\<close>

fun slo_prefill_loop :: "instanceViewScheduling \<Rightarrow> instanceViewScheduling list \<Rightarrow> instanceViewScheduling option" where
  "slo_prefill_loop sel [] = Some sel"
| "slo_prefill_loop sel (v # vs) =
     do { m \<leftarrow> vs_metric v SchedulingMetricPredictedTtft;
          m' \<leftarrow> vs_metric sel SchedulingMetricPredictedTtft;
          if metric_Less m m' then slo_prefill_loop v vs
          else if metric_Equal m m'
          then do { c \<leftarrow> vs_cmsView v;
                    slo_prefill_loop (if cv_ReservedInferType c = InferTypePrefill then v else sel) vs }
          else slo_prefill_loop sel vs }"

fun slo_decode_loop ::
  "instanceViewScheduling option \<Rightarrow> instanceViewScheduling list \<Rightarrow> instanceViewScheduling option option" where
  "slo_decode_loop sel [] = Some sel"
| "slo_decode_loop None (v # vs) =
     do { m \<leftarrow> vs_metric v SchedulingMetricPredictedTpot; slo_decode_loop (Some v) vs }"
| "slo_decode_loop (Some sel) (v # vs) =
     do { m \<leftarrow> vs_metric v SchedulingMetricPredictedTpot;
          c \<leftarrow> vs_cmsView v;
          if cv_ReservedInferType c = InferTypeDecode then Some (Some v)
          else do { m' \<leftarrow> vs_metric sel SchedulingMetricPredictedTpot;
                    slo_decode_loop (Some (if metric_Less m' m then v else sel)) vs } }"

definition recalculate_ttft :: "LatencyPredictor \<Rightarrow> i64 \<Rightarrow> instanceViewScheduling \<Rightarrow> instanceViewScheduling option" where
  "recalculate_ttft lp now v =
     do { m \<leftarrow> vs_metric v SchedulingMetricPredictedTtft;
          m' \<leftarrow> Calculate lp now None v m;
          Some (v\<lparr>vs_metrics := mput SchedulingMetricPredictedTtft m' (vs_metrics v)\<rparr>) }"

definition higher_tpot :: "instanceViewScheduling \<Rightarrow> instanceViewScheduling \<Rightarrow> bool option" where
  "higher_tpot v sel =
     do { m \<leftarrow> vs_metric v SchedulingMetricPredictedTpot;
          m' \<leftarrow> vs_metric sel SchedulingMetricPredictedTpot;
          t \<leftarrow> vs_metric v SchedulingMetricPredictedTtft;
          t' \<leftarrow> vs_metric sel SchedulingMetricPredictedTtft;
          Some (metric_Less m' m \<or> metric_Equal m' m \<and> metric_Less t t') }"

definition fallback_step ::
  "f32 \<Rightarrow> instanceViewScheduling \<Rightarrow> instanceViewScheduling option \<times> instanceViewScheduling option \<Rightarrow>
   (instanceViewScheduling option \<times> instanceViewScheduling option) option" where
  "fallback_step limit v s =
     do { m \<leftarrow> vs_metric v SchedulingMetricPredictedTpot;
          t \<leftarrow> vs_metric v SchedulingMetricPredictedTtft;
          if ValueLess m limit
          then (case fst s of
                  None \<Rightarrow> Some (Some v, snd s)
                | Some sel \<Rightarrow> do { r \<leftarrow> higher_tpot v sel; Some (if r then Some v else Some sel, snd s) })
          else (case snd s of
                  None \<Rightarrow> Some (fst s, Some v)
                | Some sel \<Rightarrow> do { m' \<leftarrow> vs_metric sel SchedulingMetricPredictedTpot;
                                   Some (fst s, if metric_Less m m' then Some v else Some sel) }) }"

fun fallback_loop ::
  "f32 \<Rightarrow> instanceViewScheduling list \<Rightarrow> instanceViewScheduling option \<times> instanceViewScheduling option \<Rightarrow>
   (instanceViewScheduling option \<times> instanceViewScheduling option) option" where
  "fallback_loop limit [] s = Some s"
| "fallback_loop limit (v # vs) s = do { s' \<leftarrow> fallback_step limit v s; fallback_loop limit vs s' }"

definition slo_decode_fallback ::
  "LatencyPredictor \<Rightarrow> i64 \<Rightarrow> f32 \<Rightarrow> view_map \<Rightarrow> (view_map \<times> instanceViewScheduling option) option" where
  "slo_decode_fallback lp now limit views =
     do { views' \<leftarrow> map_views (recalculate_ttft lp now) views;
          (under, over) \<leftarrow> fallback_loop limit (mvals views') (None, None);
          Some (views', if under \<noteq> None then under else over) }"

subsection \<open>selectInstance\<close>

fun selectInstance ::
  "(int \<Rightarrow> nat) \<Rightarrow> LatencyPredictor \<Rightarrow> i64 \<Rightarrow> dispatchSelector \<Rightarrow> bool \<Rightarrow> view_map \<Rightarrow>
   (dispatchSelector \<times> view_map \<times> instanceViewScheduling option) option" where
  "selectInstance rnd lp now (metricBasedSelector topK names) fallback views =
     (if topK = 1
      then do { r \<leftarrow> best names views; Some (metricBasedSelector topK names, views, r) }
      else do { v \<leftarrow> randomChoiceFromTopK rnd topK names views;
                Some (metricBasedSelector topK names, views, Some v) })"
| "selectInstance rnd lp now (fixedPreferenceSelector lastId) fallback views =
     Some (case mget views lastId of
             Some v \<Rightarrow> (fixedPreferenceSelector lastId, views, Some v)
           | None \<Rightarrow> (case views of
                       [] \<Rightarrow> (fixedPreferenceSelector lastId, views, None)
                     | (i, v) # _ \<Rightarrow> (fixedPreferenceSelector i, views, Some v)))"
| "selectInstance rnd lp now sloPrefillApdSelector fallback views =
     (case mvals views of
        [] \<Rightarrow> Some (sloPrefillApdSelector, views, None)
      | v # vs \<Rightarrow> map_option (\<lambda>r. (sloPrefillApdSelector, views, Some r)) (slo_prefill_loop v vs))"
| "selectInstance rnd lp now (sloDecodeApdSelector tpotSlo threshold) fallback views =
     (if \<not> fallback
      then map_option (\<lambda>r. (sloDecodeApdSelector tpotSlo threshold, views, r)) (slo_decode_loop None (mvals views))
      else map_option (\<lambda>(views', r). (sloDecodeApdSelector tpotSlo threshold, views', r))
             (slo_decode_fallback lp now (fmul round32 tpotSlo threshold) views))"

subsection \<open>The order of views\<close>

definition has_metrics :: "string list \<Rightarrow> instanceViewScheduling \<Rightarrow> bool" where
  "has_metrics names v \<longleftrightarrow> (\<forall>n\<in>set names. \<exists>m. vs_metric v n = Some m \<and> metric_ok n m)"

lemma has_metrics_Cons:
  "has_metrics (n # ns) v \<longleftrightarrow> (\<exists>m. vs_metric v n = Some m \<and> metric_ok n m) \<and> has_metrics ns v"
  by (auto simp: has_metrics_def)

lemma replaces_total: "has_metrics names v \<Longrightarrow> has_metrics names w \<Longrightarrow> replaces names v w = Some (lex_less names v w)"
  by (induction names) (auto simp: has_metrics_Cons lex_less_def)

lemma lex_less_Cons:
  assumes "vs_metric v n = Some m" "vs_metric w n = Some m'"
  shows "lex_less (n # ns) v w \<longleftrightarrow> metric_Less m m' \<or> \<not> metric_Less m' m \<and> lex_less ns v w"
  using assms by (auto simp: lex_less_def)

lemma lex_less_asym:
  "has_metrics names v \<Longrightarrow> has_metrics names w \<Longrightarrow> lex_less names v w \<Longrightarrow> \<not> lex_less names w v"
proof (induction names)
  case (Cons n ns)
  then obtain m m' where m: "vs_metric v n = Some m" "metric_ok n m" "vs_metric w n = Some m'" "metric_ok n m'"
    by (auto simp: has_metrics_Cons)
  with Cons show ?case
    by (auto simp: has_metrics_Cons lex_less_Cons dest: metric_order.lt_asym)
qed (simp add: lex_less_def)

lemma lex_less_neg_trans:
  "has_metrics names x \<Longrightarrow> has_metrics names y \<Longrightarrow> has_metrics names z \<Longrightarrow>
   \<not> lex_less names x y \<Longrightarrow> \<not> lex_less names y z \<Longrightarrow> \<not> lex_less names x z"
proof (induction names)
  case (Cons n ns)
  then obtain a b c where m: "vs_metric x n = Some a" "metric_ok n a" "vs_metric y n = Some b" "metric_ok n b"
    "vs_metric z n = Some c" "metric_ok n c"
    by (auto simp: has_metrics_Cons)
  have ab: "\<not> metric_Less a b" and bc: "\<not> metric_Less b c" using Cons.prems(4,5) m by (simp_all add: lex_less_Cons)
  then have ac: "\<not> metric_Less a c" using metric_order.not_lt_trans m by blast
  show ?case
  proof (cases "metric_Less c a")
    case False
    have "\<not> metric_Less b a" using False bc metric_order.not_lt_trans m by blast
    moreover have "\<not> metric_Less c b" using False ab metric_order.not_lt_trans m by blast
    ultimately show ?thesis using Cons m ac by (auto simp: has_metrics_Cons lex_less_Cons)
  qed (use m ac in \<open>simp add: lex_less_Cons\<close>)
qed (simp add: lex_less_def)

interpretation lex_order: strict_weak_order "lex_less names" "has_metrics names" for names
  by unfold_locales (fact lex_less_asym, fact lex_less_neg_trans)

subsection \<open>Picking an extremal element\<close>

text \<open>\<open>r\<close> is a minimal element among those of \<open>xs\<close> that satisfy \<open>P\<close>, or nothing when there is none.\<close>

definition picks :: "('a \<Rightarrow> 'a \<Rightarrow> bool) \<Rightarrow> ('a \<Rightarrow> bool) \<Rightarrow> 'a list \<Rightarrow> 'a option \<Rightarrow> bool" where
  "picks lt P xs r \<longleftrightarrow>
     (case r of
        None \<Rightarrow> \<not> list_ex P xs
      | Some u \<Rightarrow> u \<in> set xs \<and> P u \<and> list_all (\<lambda>w. P w \<longrightarrow> \<not> lt w u) xs)"

lemma picks_Nil [simp]: "picks lt P [] None"
  by (simp add: picks_def)

context strict_weak_order
begin

lemma picks_snoc:
  assumes "picks lt P xs r" "\<forall>x\<in>set (xs @ [v]). ok x"
  shows "picks lt P (xs @ [v])
    (if P v then (case r of None \<Rightarrow> Some v | Some u \<Rightarrow> if lt v u then Some v else Some u) else r)"
proof (cases r)
  case None
  then show ?thesis using assms lt_irrefl by (auto simp: picks_def list_ex_iff list_all_iff)
next
  case (Some u)
  have u: "u \<in> set xs" "P u" "\<forall>w\<in>set xs. P w \<longrightarrow> \<not> lt w u" using assms(1) by (auto simp: Some picks_def list_all_iff)
  have "\<not> lt w v" if "lt v u" "w \<in> set xs" "P w" for w
  proof
    assume "lt w v"
    moreover have "\<not> lt u v" using lt_asym assms(2) u(1) that(1) by simp
    moreover have "\<not> lt w u" using u that by blast
    ultimately show False using not_lt_trans [of w u v] assms(2) u(1) that(2) by auto
  qed
  then show ?thesis using u assms(2) lt_irrefl by (auto simp: Some picks_def list_all_iff)
qed

lemma less_than_nth:
  assumes "sorted_wrt (\<lambda>a b. \<not> lt b a) s" "r < length s" "\<forall>x\<in>set s. ok x"
  shows "length (filter (\<lambda>w. lt w (s ! r)) s) \<le> r"
proof -
  have "\<not> lt w (s ! r)" if w: "w \<in> set (drop r s)" for w
  proof -
    from w obtain j where "j < length s - r" "w = s ! (r + j)" by (auto simp: in_set_conv_nth)
    then show ?thesis
      using assms sorted_wrt_nth_less [OF assms(1), of r "r + j"] lt_irrefl by (cases "j = 0") auto
  qed
  then have "filter (\<lambda>w. lt w (s ! r)) (drop r s) = []" by simp
  then have "filter (\<lambda>w. lt w (s ! r)) s = filter (\<lambda>w. lt w (s ! r)) (take r s)"
    by (metis append.right_neutral append_take_drop_id filter_append)
  also have "length \<dots> \<le> r" using length_filter_le [of _ "take r s"] assms(2) by (metis length_take min_less_iff_conj nat_less_le min.absorb2 less_imp_le)
  finally show ?thesis .
qed

end

lemma best_loop_picks:
  assumes "picks (lex_less names) (\<lambda>_. True) xs (Some sel)" "\<forall>v\<in>set (xs @ vs). has_metrics names v"
  shows "\<exists>r. best_loop names sel vs = Some r \<and> picks (lex_less names) (\<lambda>_. True) (xs @ vs) (Some r)"
  using assms
proof (induction vs arbitrary: xs sel)
  case (Cons v vs)
  have sel: "has_metrics names sel" "has_metrics names v" using Cons.prems by (auto simp: picks_def)
  have "picks (lex_less names) (\<lambda>_. True) (xs @ [v]) (Some (if lex_less names v sel then v else sel))"
    using lex_order.picks_snoc [OF Cons.prems(1), of v] Cons.prems(2) by (simp split: if_splits)
  from Cons.IH [OF this] Cons.prems(2) sel show ?case by (simp add: replaces_total)
qed simp

lemma select_best:
  assumes "views \<noteq> []" "\<forall>v\<in>set (mvals views). has_metrics names v"
  shows "\<exists>v. selectInstance rnd lp now (metricBasedSelector 1 names) fallback views =
      Some (metricBasedSelector 1 names, views, Some v) \<and>
    v \<in> set (mvals views) \<and> (\<forall>w\<in>set (mvals views). \<not> lex_less names w v)"
proof -
  from assms(1) obtain v vs where vs: "mvals views = v # vs" by (cases views) auto
  have "picks (lex_less names) (\<lambda>_. True) [v] (Some v)"
    using assms(2) vs lex_order.lt_irrefl by (auto simp: picks_def)
  from best_loop_picks [OF this, of vs] assms(2) vs obtain r
    where r: "best_loop names v vs = Some r" "picks (lex_less names) (\<lambda>_. True) (v # vs) (Some r)" by auto
  have "best names views = Some (Some r)" unfolding best_def vs using r(1) by simp
  moreover have "r \<in> set (mvals views)" "\<forall>w\<in>set (mvals views). \<not> lex_less names w r"
    unfolding vs using r(2) by (simp_all add: picks_def list_all_iff)
  ultimately show ?thesis by simp
qed

text \<open>With a top-1 selector the chosen instance is one of the candidates, and no candidate is
  better: none precedes it when views are compared metric by metric.\<close>

theorem best_instance_minimal:
  assumes "views \<noteq> []" "\<forall>v\<in>set (mvals views). has_metrics names v"
  shows "\<exists>v. selectInstance rnd lp now (metricBasedSelector 1 names) fallback views =
      Some (metricBasedSelector 1 names, views, Some v) \<and>
    v \<in> set (mvals views) \<and> (\<forall>w\<in>set (mvals views). \<not> lex_less names w v)"
  using assms by (rule select_best)

definition ex_scored :: "(string \<times> int) list \<Rightarrow> view_map" where
  "ex_scored scores =
     map (\<lambda>(i, n). (i, (new_scheduling_view (CmsInstanceView (ex_view i InferTypeDecode)))
       \<lparr>vs_metrics := [(SchedulingMetricDecodeBatchSize, decodeBatchSize (Fin (of_int n)))]\<rparr>)) scores"

lemma ex_scored_ok: "\<forall>v\<in>set (mvals (ex_scored scores)). has_metrics [SchedulingMetricDecodeBatchSize] v"
  by (auto simp: ex_scored_def has_metrics_def metric_ok_def)

theorem best_instance_minimal_witness:
  "let views = ex_scored [(''a'', 3), (''b'', 1), (''c'', 2)]
   in views \<noteq> [] \<and>
      (\<exists>v. v \<in> set (mvals views) \<and> list_all (\<lambda>w. \<not> lex_less [SchedulingMetricDecodeBatchSize] w v) (mvals views))"
  using best_instance_minimal [OF _ ex_scored_ok, of "[(''a'', 3), (''b'', 1), (''c'', 2)]"]
  by (auto simp: ex_scored_def Let_def list_all_iff)

lemma length_filter_mset: "mset xs = mset ys \<Longrightarrow> length (filter P xs) = length (filter P ys)"
  by (metis mset_filter size_mset)

lemma select_top_k:
  assumes "views \<noteq> []" "\<forall>v\<in>set (mvals views). has_metrics names v" "topK \<noteq> 1" "0 < sint topK"
    "\<forall>k>0. int (rnd k) < k"
  shows "\<exists>v. selectInstance rnd lp now (metricBasedSelector topK names) fallback views =
      Some (metricBasedSelector topK names, views, Some v) \<and>
    v \<in> set (mvals views) \<and>
    int (length (filter (\<lambda>w. lex_less names w v) (mvals views))) < sint topK"
proof -
  define vs where "vs = mvals views"
  define k where "k = (if int (length vs) < sint topK then int (length vs) else sint topK)"
  define s where "s = sort_stable (lex_less names) vs"
  have k: "0 < k" "k \<le> sint topK" "k \<le> int (length vs)" using assms(1,4) by (auto simp: k_def vs_def)
  have ok: "\<forall>v\<in>set vs. has_metrics names v" using assms(2) by (simp add: vs_def)
  have all: "list_all (\<lambda>v. list_all (\<lambda>n. vs_metric v n \<noteq> None) names) vs"
    using ok by (fastforce simp: list_all_iff has_metrics_def)
  have r: "rnd k < length s" "int (rnd k) < sint topK" using assms(5) k unfolding s_def by fastforce+
  have "randomChoiceFromTopK rnd topK names views = Some (s ! rnd k)"
    unfolding randomChoiceFromTopK_def Let_def vs_def [symmetric] k_def [symmetric] using k all by (simp add: s_def)
  moreover have "s ! rnd k \<in> set vs" using r(1) nth_mem [of "rnd k" s] by (simp add: s_def)
  moreover have "length (filter (\<lambda>w. lex_less names w (s ! rnd k)) s) \<le> rnd k"
    using lex_order.less_than_nth [OF lex_order.sort_stable_sorted [OF ok]] r(1) ok by (simp add: s_def)
  moreover have "length (filter P s) = length (filter P vs)" for P
    by (rule length_filter_mset) (simp add: s_def)
  ultimately show ?thesis using assms(3) r(2) by (auto simp: vs_def)
qed

text \<open>With a larger \<open>k\<close> the chosen instance is one of the candidates and fewer than \<open>k\<close> candidates
  are better than it, whatever number the generator draws.\<close>

theorem random_choice_in_top_k:
  assumes "views \<noteq> []" "\<forall>v\<in>set (mvals views). has_metrics names v" "topK \<noteq> 1" "0 < sint topK"
    "\<forall>k>0. int (rnd k) < k"
  shows "\<exists>v. selectInstance rnd lp now (metricBasedSelector topK names) fallback views =
      Some (metricBasedSelector topK names, views, Some v) \<and>
    v \<in> set (mvals views) \<and>
    int (length (filter (\<lambda>w. lex_less names w v) (mvals views))) < sint topK"
  using assms by (rule select_top_k)

theorem random_choice_in_top_k_witness:
  "let views = ex_scored [(''a'', 3), (''b'', 1), (''c'', 2)]
   in views \<noteq> [] \<and>
      (\<exists>v. v \<in> set (mvals views) \<and>
           int (length (filter (\<lambda>w. lex_less [SchedulingMetricDecodeBatchSize] w v) (mvals views))) < sint (2 :: i64))"
proof -
  let ?views = "ex_scored [(''a'', 3), (''b'', 1), (''c'', 2)]"
  have ne: "?views \<noteq> []" by (simp add: ex_scored_def)
  have two: "(2 :: i64) \<noteq> 1" "0 < sint (2 :: i64)" "\<forall>k>0. int ((\<lambda>k :: int. 0 :: nat) k) < k" by simp_all
  from random_choice_in_top_k [OF ne ex_scored_ok two, of ex_lp 0 False] ne show ?thesis
    unfolding Let_def by blast
qed

subsection \<open>SLO selection\<close>

abbreviation slo_names :: "string list" where
  "slo_names \<equiv> [SchedulingMetricPredictedTpot, SchedulingMetricPredictedTtft]"

definition packs_better :: "instanceViewScheduling \<Rightarrow> instanceViewScheduling \<Rightarrow> bool" where
  "packs_better v w \<longleftrightarrow> higher_tpot v w = Some True"

lemma packs_better_iff:
  assumes "vs_metric v SchedulingMetricPredictedTpot = Some m" "vs_metric w SchedulingMetricPredictedTpot = Some m'"
    "vs_metric v SchedulingMetricPredictedTtft = Some t" "vs_metric w SchedulingMetricPredictedTtft = Some t'"
  shows "packs_better v w \<longleftrightarrow> metric_Less m' m \<or> \<not> metric_Less m m' \<and> metric_Less t t'"
  using assms by (auto simp: packs_better_def higher_tpot_def metric_Equal_def)

lemma slo_metricsE:
  assumes "has_metrics slo_names v"
  obtains m t where "vs_metric v SchedulingMetricPredictedTpot = Some m" "metric_ok SchedulingMetricPredictedTpot m"
    "vs_metric v SchedulingMetricPredictedTtft = Some t" "metric_ok SchedulingMetricPredictedTtft t"
  using assms by (auto simp: has_metrics_Cons)

lemma packs_better_neg_trans:
  assumes "has_metrics slo_names x" "has_metrics slo_names y" "has_metrics slo_names z"
    "\<not> packs_better x y" "\<not> packs_better y z"
  shows "\<not> packs_better x z"
proof -
  obtain a s where x: "vs_metric x SchedulingMetricPredictedTpot = Some a" "metric_ok SchedulingMetricPredictedTpot a"
    "vs_metric x SchedulingMetricPredictedTtft = Some s" "metric_ok SchedulingMetricPredictedTtft s"
    using assms(1) by (rule slo_metricsE)
  obtain b t where y: "vs_metric y SchedulingMetricPredictedTpot = Some b" "metric_ok SchedulingMetricPredictedTpot b"
    "vs_metric y SchedulingMetricPredictedTtft = Some t" "metric_ok SchedulingMetricPredictedTtft t"
    using assms(2) by (rule slo_metricsE)
  obtain c u where z: "vs_metric z SchedulingMetricPredictedTpot = Some c" "metric_ok SchedulingMetricPredictedTpot c"
    "vs_metric z SchedulingMetricPredictedTtft = Some u" "metric_ok SchedulingMetricPredictedTtft u"
    using assms(3) by (rule slo_metricsE)
  note iff = packs_better_iff [OF x(1) y(1) x(3) y(3)] packs_better_iff [OF y(1) z(1) y(3) z(3)]
    packs_better_iff [OF x(1) z(1) x(3) z(3)]
  note tr = metric_order.not_lt_trans [of SchedulingMetricPredictedTpot] metric_order.not_lt_trans [of SchedulingMetricPredictedTtft]
  show ?thesis using assms(4,5) unfolding iff using x y z tr by metis
qed

lemma packs_better_asym:
  assumes "has_metrics slo_names x" "has_metrics slo_names y" "packs_better x y"
  shows "\<not> packs_better y x"
proof -
  obtain a s where x: "vs_metric x SchedulingMetricPredictedTpot = Some a" "metric_ok SchedulingMetricPredictedTpot a"
    "vs_metric x SchedulingMetricPredictedTtft = Some s" "metric_ok SchedulingMetricPredictedTtft s"
    using assms(1) by (rule slo_metricsE)
  obtain b t where y: "vs_metric y SchedulingMetricPredictedTpot = Some b" "metric_ok SchedulingMetricPredictedTpot b"
    "vs_metric y SchedulingMetricPredictedTtft = Some t" "metric_ok SchedulingMetricPredictedTtft t"
    using assms(2) by (rule slo_metricsE)
  show ?thesis
    using assms(3) x y unfolding packs_better_iff [OF x(1) y(1) x(3) y(3)] packs_better_iff [OF y(1) x(1) y(3) x(3)]
    by (auto dest: metric_order.lt_asym)
qed

interpretation packing_order: strict_weak_order packs_better "has_metrics slo_names"
  by unfold_locales (fact packs_better_asym, fact packs_better_neg_trans)

definition under_limit :: "f32 \<Rightarrow> instanceViewScheduling \<Rightarrow> bool" where
  "under_limit limit v \<longleftrightarrow> (\<exists>m. vs_metric v SchedulingMetricPredictedTpot = Some m \<and> ValueLess m limit)"

lemma has_slo_tpot: "has_metrics slo_names v \<Longrightarrow> has_metrics [SchedulingMetricPredictedTpot] v"
  by (simp add: has_metrics_def)

text \<open>One step of the fallback loop keeps the best instance below the limit and the least loaded one
  above it.\<close>

definition fallback_inv :: "f32 \<Rightarrow> instanceViewScheduling list \<Rightarrow>
  instanceViewScheduling option \<times> instanceViewScheduling option \<Rightarrow> bool" where
  "fallback_inv limit xs s \<longleftrightarrow>
     picks packs_better (under_limit limit) xs (fst s) \<and>
     picks (lex_less [SchedulingMetricPredictedTpot]) (\<lambda>v. \<not> under_limit limit v) xs (snd s)"

lemma fallback_step_inv:
  assumes inv: "fallback_inv limit xs s" and ok: "\<forall>v\<in>set (xs @ [v]). has_metrics slo_names v"
  shows "\<exists>s'. fallback_step limit v s = Some s' \<and> fallback_inv limit (xs @ [v]) s'"
proof -
  obtain m t where mt: "vs_metric v SchedulingMetricPredictedTpot = Some m" "metric_ok SchedulingMetricPredictedTpot m"
    "vs_metric v SchedulingMetricPredictedTtft = Some t" "metric_ok SchedulingMetricPredictedTtft t"
    using ok slo_metricsE [of v] by auto
  have ok': "\<forall>v\<in>set (xs @ [v]). has_metrics [SchedulingMetricPredictedTpot] v" using ok has_slo_tpot by blast
  note up = packing_order.picks_snoc [OF conjunct1 [OF inv [unfolded fallback_inv_def]] ok]
  note lo = lex_order.picks_snoc [OF conjunct2 [OF inv [unfolded fallback_inv_def]] ok']
  have under: "under_limit limit v \<longleftrightarrow> ValueLess m limit" by (simp add: under_limit_def mt)
  have up_step: "higher_tpot v sel = Some (packs_better v sel)" if sel: "fst s = Some sel" for sel
  proof -
    have "sel \<in> set xs" using inv sel by (auto simp: fallback_inv_def picks_def)
    then have "has_metrics slo_names sel" using ok by simp
    then obtain m' t' where "vs_metric sel SchedulingMetricPredictedTpot = Some m'"
      "vs_metric sel SchedulingMetricPredictedTtft = Some t'" by (rule slo_metricsE)
    then show ?thesis by (auto simp: packs_better_def higher_tpot_def mt)
  qed
  have lo_step: "\<exists>m'. vs_metric sel SchedulingMetricPredictedTpot = Some m' \<and>
      lex_less [SchedulingMetricPredictedTpot] v sel = metric_Less m m'" if sel: "snd s = Some sel" for sel
  proof -
    have "sel \<in> set xs" using inv sel by (auto simp: fallback_inv_def picks_def)
    then obtain m' where "vs_metric sel SchedulingMetricPredictedTpot = Some m'"
      using ok slo_metricsE [of sel] by auto
    then show ?thesis by (auto simp: lex_less_def mt split: if_splits)
  qed
  show ?thesis
  proof (cases "ValueLess m limit")
    case True
    with up lo up_step mt under show ?thesis
      by (cases "fst s") (auto simp: fallback_step_def fallback_inv_def)
  next
    case False
    show ?thesis
    proof (cases "snd s")
      case None
      with False up lo mt under show ?thesis by (auto simp: fallback_step_def fallback_inv_def)
    next
      case (Some sel)
      from lo_step [OF Some] obtain m' where "vs_metric sel SchedulingMetricPredictedTpot = Some m'"
        "lex_less [SchedulingMetricPredictedTpot] v sel = metric_Less m m'" by blast
      with Some False up lo mt under show ?thesis by (auto simp: fallback_step_def fallback_inv_def)
    qed
  qed
qed

lemma fallback_loop_inv:
  assumes "fallback_inv limit xs s" "\<forall>v\<in>set (xs @ vs). has_metrics slo_names v"
  shows "\<exists>s'. fallback_loop limit vs s = Some s' \<and> fallback_inv limit (xs @ vs) s'"
  using assms
proof (induction vs arbitrary: xs s)
  case (Cons v vs)
  from fallback_step_inv [OF Cons.prems(1), of v] Cons.prems(2) obtain s'
    where s': "fallback_step limit v s = Some s'" "fallback_inv limit (xs @ [v]) s'" by auto
  from Cons.IH [OF s'(2)] Cons.prems(2) s'(1) show ?case by simp
qed simp

text \<open>When the decode selector of adaptive PD falls back, it first recomputes the prefill latency of
  every candidate.  If some candidate stays below the dispatch limit, it picks one of those with the
  highest token latency, and among equals none with a lower prefill latency is left out; otherwise it
  picks a candidate with the lowest token latency.\<close>

theorem slo_decode_fallback_choice:
  assumes "map_views (recalculate_ttft lp now) views = Some views'" "views \<noteq> []"
    "\<forall>v\<in>set (mvals views'). has_metrics slo_names v"
  shows "\<exists>v. selectInstance rnd lp now (sloDecodeApdSelector slo threshold) True views =
      Some (sloDecodeApdSelector slo threshold, views', Some v) \<and> v \<in> set (mvals views') \<and>
    (if list_ex (under_limit (fmul round32 slo threshold)) (mvals views')
     then under_limit (fmul round32 slo threshold) v \<and>
          (\<forall>w\<in>set (mvals views'). under_limit (fmul round32 slo threshold) w \<longrightarrow> \<not> packs_better w v)
     else \<forall>w\<in>set (mvals views'). \<not> lex_less [SchedulingMetricPredictedTpot] w v)"
proof -
  let ?limit = "fmul round32 slo threshold"
  have ne: "mvals views' \<noteq> []" using assms(1,2) map_views_keys by fastforce
  have "fallback_inv ?limit [] (None, None)" by (simp add: fallback_inv_def)
  from fallback_loop_inv [OF this, of "mvals views'"] assms(3) obtain under over
    where s: "fallback_loop ?limit (mvals views') (None, None) = Some (under, over)"
      "fallback_inv ?limit (mvals views') (under, over)" by auto
  have res: "selectInstance rnd lp now (sloDecodeApdSelector slo threshold) True views =
      Some (sloDecodeApdSelector slo threshold, views', if under \<noteq> None then under else over)"
    using assms(1) s(1) by (simp add: slo_decode_fallback_def)
  show ?thesis
  proof (cases under)
    case (Some v)
    with s(2) have "v \<in> set (mvals views')" "under_limit ?limit v"
      "\<forall>w\<in>set (mvals views'). under_limit ?limit w \<longrightarrow> \<not> packs_better w v"
      by (simp_all add: fallback_inv_def picks_def list_all_iff)
    then show ?thesis using res Some by (auto simp: list_ex_iff)
  next
    case None
    with s(2) ne obtain v where "over = Some v" "v \<in> set (mvals views')"
      "\<forall>w\<in>set (mvals views'). \<not> lex_less [SchedulingMetricPredictedTpot] w v"
      "\<not> list_ex (under_limit ?limit) (mvals views')"
      by (cases over; cases "mvals views'") (auto simp: fallback_inv_def picks_def list_all_iff list_ex_iff)
    then show ?thesis using res None by auto
  qed
qed

text \<open>Outside fallback the same selector does not look for the highest token latency: the first
  candidate after the initial one that is reserved for decode is taken at once, whatever its latency.\<close>

theorem slo_decode_takes_reserved:
  assumes "views = (i, u) # xs @ (j, v) # ys"
    "\<forall>w\<in>set (u # mvals xs @ [v]). vs_metric w SchedulingMetricPredictedTpot \<noteq> None \<and> vs_cmsView w \<noteq> None"
    "\<forall>w\<in>set (mvals xs). \<forall>c. vs_cmsView w = Some c \<longrightarrow> cv_ReservedInferType c \<noteq> InferTypeDecode"
    "vs_cmsView v = Some c" "cv_ReservedInferType c = InferTypeDecode"
  shows "selectInstance rnd lp now (sloDecodeApdSelector slo threshold) False views =
    Some (sloDecodeApdSelector slo threshold, views, Some v)"
proof -
  have "slo_decode_loop (Some u) (mvals xs @ v # mvals ys) = Some (Some v)"
    using assms(2,3)
  proof (induction xs arbitrary: u)
    case Nil
    then show ?case using assms(4,5) by auto
  next
    case (Cons x xs)
    then show ?case by auto
  qed
  then show ?thesis using assms(1,2) by auto
qed

definition ex_slo_view :: "string \<Rightarrow> InferType \<Rightarrow> int \<Rightarrow> instanceViewScheduling" where
  "ex_slo_view i reserved tpot =
     (new_scheduling_view (CmsInstanceView ((ex_view i InferTypeNeutral)\<lparr>cv_ReservedInferType := reserved\<rparr>)))
       \<lparr>vs_metrics := [(SchedulingMetricPredictedTpot, PredictedTpot (Fin (of_int tpot))),
                       (SchedulingMetricPredictedTtft, PredictedTtft (Fin 0))]\<rparr>"

lemma ex_slo_metrics: "has_metrics slo_names (ex_slo_view i r n)"
  by (simp add: has_metrics_def ex_slo_view_def metric_ok_def metric_names)

lemma ex_slo_recalculate: "recalculate_ttft ex_lp 1000 (ex_slo_view i r n) = Some (ex_slo_view i r n)"
  by (simp add: recalculate_ttft_def ex_slo_view_def new_scheduling_view_def ex_view_def empty_status_def
      empty_account_def empty_metadata_def metric_names predicted_ttft_def predictTtftLatencyByChunkPrefill_def
      predictTpotLatency_def decode_batch_value_def all_decodes_value_def all_prefills_value_def request_tokens_def
      f32_of_int_exact f64_of_int_exact i32_of_float_def i64_of_float_def rat_trunc_def chunk_loop.simps
      inf_on_error_def Let_def)

theorem slo_decode_fallback_choice_witness:
  "let views = [(''a'', ex_slo_view ''a'' [] 3), (''b'', ex_slo_view ''b'' [] 7)]
   in map_views (recalculate_ttft ex_lp 1000) views = Some views \<and>
      (\<forall>v\<in>set (mvals views). has_metrics slo_names v) \<and>
      (\<exists>v. selectInstance (\<lambda>_. 0) ex_lp 1000 (sloDecodeApdSelector (Fin 10) (Fin 1)) True views =
             Some (sloDecodeApdSelector (Fin 10) (Fin 1), views, Some v))"
proof -
  let ?views = "[(''a'', ex_slo_view ''a'' [] 3), (''b'', ex_slo_view ''b'' [] 7)]"
  have "map_views (recalculate_ttft ex_lp 1000) ?views = Some ?views" by (simp add: ex_slo_recalculate)
  with slo_decode_fallback_choice [OF this, of "\<lambda>_. 0" "Fin 10" "Fin 1"] ex_slo_metrics show ?thesis
    by (auto simp: Let_def simp del: selectInstance.simps)
qed

theorem slo_decode_takes_reserved_witness:
  "selectInstance (\<lambda>_. 0) ex_lp 1000 (sloDecodeApdSelector (Fin 10) (Fin 1)) False
     [(''a'', ex_slo_view ''a'' [] 7), (''b'', ex_slo_view ''b'' InferTypeDecode 3)] =
   Some (sloDecodeApdSelector (Fin 10) (Fin 1),
     [(''a'', ex_slo_view ''a'' [] 7), (''b'', ex_slo_view ''b'' InferTypeDecode 3)],
     Some (ex_slo_view ''b'' InferTypeDecode 3)) \<and>
   lex_less [SchedulingMetricPredictedTpot] (ex_slo_view ''b'' InferTypeDecode 3) (ex_slo_view ''a'' [] 7)"
proof -
  have "lex_less [SchedulingMetricPredictedTpot] (ex_slo_view ''b'' InferTypeDecode 3) (ex_slo_view ''a'' [] 7)"
    using f32_of_int_exact [of 3] f32_of_int_exact [of 7]
    by (simp add: lex_less_def ex_slo_view_def metric_Less_def f32_of_int_def)
  moreover have "\<forall>w\<in>set [ex_slo_view ''a'' [] 7, ex_slo_view ''b'' InferTypeDecode 3].
      vs_metric w SchedulingMetricPredictedTpot \<noteq> None \<and> vs_cmsView w \<noteq> None"
    by (simp add: ex_slo_view_def new_scheduling_view_def)
  ultimately show ?thesis
    using slo_decode_takes_reserved [of _ "''a''" "ex_slo_view ''a'' [] 7" "[]" "''b''"
        "ex_slo_view ''b'' InferTypeDecode 3" "[]" "(ex_view ''b'' InferTypeNeutral)\<lparr>cv_ReservedInferType := InferTypeDecode\<rparr>"
        "\<lambda>_. 0" ex_lp 1000 "Fin 10" "Fin 1"]
    by (simp add: ex_slo_view_def new_scheduling_view_def del: selectInstance.simps)
qed

end
