(* ===== verification/Policy_Registry.thy ===== *)
theory Policy_Registry
  imports Selectors
begin

text \<open>
  The dispatch policies: \<open>pkg/scheduler/policy/scheduling_policy_registry.go\<close>.

  A policy maps an inference type to its metrics, filters and selector.  Building one panics (\<open>None\<close>)
  on an unknown metric or policy name.

  Lemmas: after the configuration check the load-balance and flood policies are built without a
  panic and have an entry for each of the three inference types; the SLO policy has none for neutral
  instances.
\<close>

record inferTypeBaseDispatchPolicy =
  dp_metrics :: "(string, instanceSchedulingMetric) gmap"
  dp_globalFilters :: "globalFilter list"
  dp_singleInstanceFilters :: "singleInstanceFilter list"
  dp_selector :: dispatchSelector

type_synonym baseDispatchPolicy = "(InferType, inferTypeBaseDispatchPolicy) gmap"

subsection \<open>Load balancing\<close>

definition lb_full_entry :: "SchedulerConfig \<Rightarrow> string \<Rightarrow> f32 \<Rightarrow> inferTypeBaseDispatchPolicy option" where
  "lb_full_entry p metric threshold =
     do { ctor \<leftarrow> getSchedulingMetric p metric;
          Some \<lparr>dp_metrics = [(metric, ctor)],
                dp_globalFilters = [failoverFilter (cfg_FailoverDomain p)],
                dp_singleInstanceFilters =
                  [schedulabilityFilter, stalenessFilter (cfg_InstanceStalenessSeconds p),
                   metricBasedFilter metric threshold False],
                dp_selector = metricBasedSelector (cfg_DispatchTopK p) [metric]\<rparr> }"

text \<open>The cache locality metric is put in front of the selector's metrics.\<close>

definition add_locality ::
  "SchedulerConfig \<Rightarrow> inferTypeBaseDispatchPolicy \<Rightarrow> inferTypeBaseDispatchPolicy option" where
  "add_locality p e =
     do { let locality = cfg_DispatchPrefillCacheLocalityMetric p;
          ctor \<leftarrow> getSchedulingMetric p locality;
          Some (e\<lparr>dp_metrics := mput locality ctor (dp_metrics e),
                  dp_selector := (case dp_selector e of
                                    metricBasedSelector k names \<Rightarrow> metricBasedSelector k (locality # names)
                                  | s \<Rightarrow> s)\<rparr>) }"

definition newLoadBalanceDispatchFullMode :: "SchedulerConfig \<Rightarrow> baseDispatchPolicy option" where
  "newLoadBalanceDispatchFullMode p =
     do { prefill \<leftarrow> lb_full_entry p (cfg_DispatchPrefillLoadMetric p) (cfg_DispatchPrefillLoadThreshold p);
          decode \<leftarrow> lb_full_entry p (cfg_DispatchDecodeLoadMetric p) (cfg_DispatchDecodeLoadThreshold p);
          neutral \<leftarrow> lb_full_entry p (cfg_DispatchNeutralLoadMetric p) (cfg_DispatchNeutralLoadThreshold p);
          (if cfg_EnableCacheAwareScheduling p
           then do { prefill \<leftarrow> add_locality p prefill;
                     neutral \<leftarrow> add_locality p neutral;
                     Some [(InferTypePrefill, prefill), (InferTypeDecode, decode), (InferTypeNeutral, neutral)] }
           else Some [(InferTypePrefill, prefill), (InferTypeDecode, decode), (InferTypeNeutral, neutral)]) }"

definition lb_lite_entry :: "SchedulerConfig \<Rightarrow> string \<Rightarrow> f32 \<Rightarrow> inferTypeBaseDispatchPolicy option" where
  "lb_lite_entry p metric threshold =
     do { ctor \<leftarrow> getSchedulingMetric p metric;
          Some \<lparr>dp_metrics = [(metric, ctor)], dp_globalFilters = [],
                dp_singleInstanceFilters = [metricBasedFilter metric threshold False],
                dp_selector = metricBasedSelector (cfg_DispatchTopK p) [metric]\<rparr> }"

definition newLoadBalanceDispatchLiteMode :: "SchedulerConfig \<Rightarrow> baseDispatchPolicy option" where
  "newLoadBalanceDispatchLiteMode p =
     do { prefill \<leftarrow> lb_lite_entry p (cfg_DispatchPrefillLoadMetric p) (cfg_DispatchPrefillLoadThreshold p);
          decode \<leftarrow> lb_lite_entry p (cfg_DispatchDecodeLoadMetric p) (cfg_DispatchDecodeLoadThreshold p);
          neutral \<leftarrow> lb_lite_entry p (cfg_DispatchNeutralLoadMetric p) (cfg_DispatchNeutralLoadThreshold p);
          Some [(InferTypePrefill, prefill), (InferTypeDecode, decode), (InferTypeNeutral, neutral)] }"

subsection \<open>Flood\<close>

definition flood_entry :: "SchedulerConfig \<Rightarrow> inferTypeBaseDispatchPolicy" where
  "flood_entry p =
     \<lparr>dp_metrics = [], dp_globalFilters = [failoverFilter (cfg_FailoverDomain p)],
      dp_singleInstanceFilters = [schedulabilityFilter, stalenessFilter (cfg_InstanceStalenessSeconds p)],
      dp_selector = fixedPreferenceSelector []\<rparr>"

definition newFloodDispatchPolicyFullMode :: "SchedulerConfig \<Rightarrow> baseDispatchPolicy" where
  "newFloodDispatchPolicyFullMode p =
     [(InferTypePrefill, flood_entry p), (InferTypeDecode, flood_entry p), (InferTypeNeutral, flood_entry p)]"

subsection \<open>SLO\<close>

definition ttft_limit :: "SchedulerConfig \<Rightarrow> f32" where
  "ttft_limit p = fmul round32 (cfg_TtftSlo p) (cfg_TtftSloDispatchThreshold p)"

definition tpot_limit :: "SchedulerConfig \<Rightarrow> f32" where
  "tpot_limit p = fmul round32 (cfg_TpotSlo p) (cfg_TpotSloDispatchThreshold p)"

definition slo_entry :: "SchedulerConfig \<Rightarrow> string \<Rightarrow> instanceSchedulingMetric \<Rightarrow> f32 \<Rightarrow> inferTypeBaseDispatchPolicy" where
  "slo_entry p metric ctor limit =
     \<lparr>dp_metrics = [(metric, ctor)], dp_globalFilters = [failoverFilter (cfg_FailoverDomain p)],
      dp_singleInstanceFilters =
        [schedulabilityFilter, stalenessFilter (cfg_InstanceStalenessSeconds p),
         metricBasedFilter metric limit True],
      dp_selector = metricBasedSelector (cfg_DispatchTopK p) [metric]\<rparr>"

definition slo_apd_prefill :: "SchedulerConfig \<Rightarrow> inferTypeBaseDispatchPolicy \<Rightarrow> inferTypeBaseDispatchPolicy" where
  "slo_apd_prefill p e =
     e\<lparr>dp_metrics := mput SchedulingMetricPredictedTpot (PredictedTpot (Fin 0))
         (mput SchedulingMetricDecodeBatchSize (decodeBatchSize (Fin 0)) (dp_metrics e)),
       dp_singleInstanceFilters :=
         [schedulabilityFilter, stalenessFilter (cfg_InstanceStalenessSeconds p),
          instanceAttributeFilter AttrKeyReservedInferType (AttrInferType InferTypeDecode),
          metricBasedFilter SchedulingMetricPredictedTtft (ttft_limit p) False,
          metricBasedFilter SchedulingMetricDecodeBatchSize (round32 (1 / 10)) True],
       dp_selector := sloPrefillApdSelector\<rparr>"

definition slo_apd_decode :: "SchedulerConfig \<Rightarrow> inferTypeBaseDispatchPolicy \<Rightarrow> inferTypeBaseDispatchPolicy" where
  "slo_apd_decode p e =
     e\<lparr>dp_metrics := mput SchedulingMetricDecodeBatchSize (decodeBatchSize (Fin 0))
         (mput SchedulingMetricPredictedTtft (PredictedTtft (Fin 0)) (dp_metrics e)),
       dp_singleInstanceFilters :=
         [schedulabilityFilter, stalenessFilter (cfg_InstanceStalenessSeconds p),
          instanceAttributeFilter AttrKeyReservedInferType (AttrInferType InferTypePrefill),
          metricBasedFilter SchedulingMetricPredictedTtft (tpot_limit p) False,
          metricBasedFilter SchedulingMetricPredictedTpot (tpot_limit p) False],
       dp_selector := sloDecodeApdSelector (Fin 0) (Fin 0)\<rparr>"

definition newSloDispatchFullMode :: "SchedulerConfig \<Rightarrow> baseDispatchPolicy" where
  "newSloDispatchFullMode p =
     (let prefill = slo_entry p SchedulingMetricPredictedTtft (PredictedTtft (Fin 0)) (ttft_limit p);
          decode = slo_entry p SchedulingMetricPredictedTpot (PredictedTpot (Fin 0)) (tpot_limit p)
      in if cfg_EnableAdaptivePD p
         then [(InferTypePrefill, slo_apd_prefill p prefill), (InferTypeDecode, slo_apd_decode p decode)]
         else [(InferTypePrefill, prefill), (InferTypeDecode, decode)])"

subsection \<open>The registry\<close>

definition newDispatchPolicyInternal :: "SchedulerConfig \<Rightarrow> baseDispatchPolicy option" where
  "newDispatchPolicyInternal c =
     (if cfg_SchedulingPolicy c = SchedulingPolicyLoadBalance
      then if cfg_EnableFullModeScheduling c then newLoadBalanceDispatchFullMode c
           else newLoadBalanceDispatchLiteMode c
      else if cfg_SchedulingPolicy c = SchedulingPolicyFlood then Some (newFloodDispatchPolicyFullMode c)
      else if cfg_SchedulingPolicy c = SchedulingPolicySlo then Some (newSloDispatchFullMode c)
      else None)"

text \<open>\<open>NewDispatchPolicy\<close> checks the configuration first.\<close>

definition checked_policy :: "SchedulerConfig \<Rightarrow> (SchedulerConfig \<times> baseDispatchPolicy) option" where
  "checked_policy c = do { c \<leftarrow> verifyConfig c; p \<leftarrow> newDispatchPolicyInternal c; Some (c, p) }"

subsection \<open>Well-formed policies\<close>

fun filter_metrics :: "singleInstanceFilter \<Rightarrow> string list" where
  "filter_metrics (metricBasedFilter n _ _) = [n]"
| "filter_metrics (invertedSingleInstanceFilterWrapper f) = filter_metrics f"
| "filter_metrics _ = []"

fun selector_metrics :: "dispatchSelector \<Rightarrow> string list" where
  "selector_metrics (metricBasedSelector _ names) = names"
| "selector_metrics (fixedPreferenceSelector _) = []"
| "selector_metrics sloPrefillApdSelector = [SchedulingMetricPredictedTtft]"
| "selector_metrics (sloDecodeApdSelector _ _) = slo_names"

text \<open>Every metric a filter or the selector looks up is one of those the entry computes.\<close>

definition entry_wf :: "inferTypeBaseDispatchPolicy \<Rightarrow> bool" where
  "entry_wf e \<longleftrightarrow>
     mwf (dp_metrics e) \<and> list_all (\<lambda>(k, m). GetName m = k) (dp_metrics e) \<and>
     list_all (\<lambda>f. set (filter_metrics f) \<subseteq> set (mkeys (dp_metrics e))) (dp_singleInstanceFilters e) \<and>
     set (selector_metrics (dp_selector e)) \<subseteq> set (mkeys (dp_metrics e))"

lemma getSchedulingMetric_GetName: "getSchedulingMetric p n = Some m \<Longrightarrow> GetName m = n"
  by (auto simp: getSchedulingMetric_def split: if_splits)

lemma lb_full_entry_wf: "lb_full_entry p n t = Some e \<Longrightarrow> entry_wf e"
  by (auto simp: lb_full_entry_def entry_wf_def bind_eq_Some_conv dest: getSchedulingMetric_GetName)

lemma lb_lite_entry_wf: "lb_lite_entry p n t = Some e \<Longrightarrow> entry_wf e"
  by (auto simp: lb_lite_entry_def entry_wf_def bind_eq_Some_conv dest: getSchedulingMetric_GetName)

lemma mkeys_mput: "set (mkeys (mput k v m)) = insert k (set (mkeys m))"
  by (induction m) auto

lemma mput_named:
  "list_all (\<lambda>(k, m). GetName m = k) ms \<Longrightarrow> GetName m = k \<Longrightarrow> list_all (\<lambda>(k, m). GetName m = k) (mput k m ms)"
  by (induction ms) auto

lemma add_locality_wf:
  assumes "add_locality p e = Some e'" "entry_wf e"
  shows "entry_wf e'"
proof -
  let ?n = "cfg_DispatchPrefillCacheLocalityMetric p"
  from assms(1) obtain ctor where c: "getSchedulingMetric p ?n = Some ctor"
    "dp_metrics e' = mput ?n ctor (dp_metrics e)" "dp_singleInstanceFilters e' = dp_singleInstanceFilters e"
    "set (selector_metrics (dp_selector e')) \<subseteq> insert ?n (set (selector_metrics (dp_selector e)))"
    by (auto simp: add_locality_def bind_eq_Some_conv Let_def split: dispatchSelector.splits)
  have "list_all (\<lambda>(k, m). GetName m = k) (mput ?n ctor (dp_metrics e))"
    using mput_named getSchedulingMetric_GetName [OF c(1)] assms(2) by (simp add: entry_wf_def)
  moreover have "mwf (mput ?n ctor (dp_metrics e))" using assms(2) by (auto simp: entry_wf_def)
  ultimately show ?thesis
    using assms(2) c(4) unfolding entry_wf_def c(2,3) mkeys_mput by (auto simp: list_all_iff)
qed

lemma lb_full_entry_total: "getSchedulingMetric p n \<noteq> None \<Longrightarrow> \<exists>e. lb_full_entry p n t = Some e"
  by (auto simp: lb_full_entry_def)

lemma lb_lite_entry_total: "getSchedulingMetric p n \<noteq> None \<Longrightarrow> \<exists>e. lb_lite_entry p n t = Some e"
  by (auto simp: lb_lite_entry_def)

lemma flood_entry_wf: "entry_wf (flood_entry p)"
  by (simp add: flood_entry_def entry_wf_def)

lemma slo_entry_wf: "GetName m = n \<Longrightarrow> entry_wf (slo_entry p n m l)"
  by (simp add: slo_entry_def entry_wf_def)

lemma slo_apd_wf:
  "entry_wf (slo_apd_prefill p (slo_entry p SchedulingMetricPredictedTtft (PredictedTtft (Fin 0)) l))"
  "entry_wf (slo_apd_decode p (slo_entry p SchedulingMetricPredictedTpot (PredictedTpot (Fin 0)) l))"
  by (simp_all add: slo_apd_prefill_def slo_apd_decode_def slo_entry_def entry_wf_def metric_names)

definition metric_known :: "SchedulerConfig \<Rightarrow> string \<Rightarrow> bool" where
  "metric_known p n \<longleftrightarrow> getSchedulingMetric p n \<noteq> None"

lemma metric_known_sets:
  "n \<in> set liteModeSchedulingMetricSet \<Longrightarrow> metric_known p n"
  "n \<in> set fullModeSchedulingMetricSet \<Longrightarrow> metric_known p n"
  by (auto simp: metric_known_def getSchedulingMetric_def liteModeSchedulingMetricSet_def
      fullModeSchedulingMetricSet_def)

lemma verified_metrics:
  assumes "verifyConfig c = Some c'"
  shows "metric_known c' (cfg_DispatchPrefillLoadMetric c')" "metric_known c' (cfg_DispatchDecodeLoadMetric c')"
    "metric_known c' (cfg_DispatchNeutralLoadMetric c')"
proof -
  have "supported_or liteModeSchedulingMetricSet SchedulingMetricNumTokens n \<in> set liteModeSchedulingMetricSet"
    "supported_or fullModeSchedulingMetricSet SchedulingMetricKVCacheUsageRatioProjected n \<in> set fullModeSchedulingMetricSet"
    "supported_or fullModeSchedulingMetricSet SchedulingMetricAllPrefillsTokensNum n \<in> set fullModeSchedulingMetricSet" for n
    by (auto simp: supported_or_def liteModeSchedulingMetricSet_def fullModeSchedulingMetricSet_def)
  then show "metric_known c' (cfg_DispatchPrefillLoadMetric c')" "metric_known c' (cfg_DispatchDecodeLoadMetric c')"
    "metric_known c' (cfg_DispatchNeutralLoadMetric c')"
    using assms metric_known_sets
    by (auto simp: verifyConfig_def verifyDispatchLoadMetric_def Let_def split: if_splits)
qed

definition three_type_policy :: "baseDispatchPolicy \<Rightarrow> bool" where
  "three_type_policy p \<longleftrightarrow> mwf p \<and> list_all (\<lambda>(t, e). entry_wf e) p \<and>
     set (mkeys p) = {InferTypePrefill, InferTypeDecode, InferTypeNeutral}"

lemma three_entries:
  "entry_wf a \<Longrightarrow> entry_wf b \<Longrightarrow> entry_wf c \<Longrightarrow>
   three_type_policy [(InferTypePrefill, a), (InferTypeDecode, b), (InferTypeNeutral, c)]"
  by (auto simp: three_type_policy_def infer_types)

lemma add_locality_total:
  "getSchedulingMetric p (cfg_DispatchPrefillCacheLocalityMetric p) \<noteq> None \<Longrightarrow> \<exists>e'. add_locality p e = Some e'"
  by (auto simp: add_locality_def Let_def)

lemma lb_full_policy:
  assumes "getSchedulingMetric p (cfg_DispatchPrefillLoadMetric p) \<noteq> None"
    "getSchedulingMetric p (cfg_DispatchDecodeLoadMetric p) \<noteq> None"
    "getSchedulingMetric p (cfg_DispatchNeutralLoadMetric p) \<noteq> None"
    "cfg_EnableCacheAwareScheduling p \<longrightarrow> getSchedulingMetric p (cfg_DispatchPrefillCacheLocalityMetric p) \<noteq> None"
  shows "\<exists>q. newLoadBalanceDispatchFullMode p = Some q \<and> three_type_policy q"
proof -
  obtain a b c where abc: "lb_full_entry p (cfg_DispatchPrefillLoadMetric p) (cfg_DispatchPrefillLoadThreshold p) = Some a"
    "lb_full_entry p (cfg_DispatchDecodeLoadMetric p) (cfg_DispatchDecodeLoadThreshold p) = Some b"
    "lb_full_entry p (cfg_DispatchNeutralLoadMetric p) (cfg_DispatchNeutralLoadThreshold p) = Some c"
    using assms lb_full_entry_total by metis
  note wf = abc [THEN lb_full_entry_wf]
  show ?thesis
  proof (cases "cfg_EnableCacheAwareScheduling p")
    case True
    with assms(4) obtain a' c' where ac: "add_locality p a = Some a'" "add_locality p c = Some c'"
      using add_locality_total by metis
    with wf add_locality_wf have "entry_wf a'" "entry_wf c'" by blast+
    with True abc ac wf three_entries show ?thesis by (simp add: newLoadBalanceDispatchFullMode_def)
  next
    case False
    with abc wf three_entries show ?thesis by (simp add: newLoadBalanceDispatchFullMode_def)
  qed
qed

lemma lb_lite_policy:
  assumes "getSchedulingMetric p (cfg_DispatchPrefillLoadMetric p) \<noteq> None"
    "getSchedulingMetric p (cfg_DispatchDecodeLoadMetric p) \<noteq> None"
    "getSchedulingMetric p (cfg_DispatchNeutralLoadMetric p) \<noteq> None"
  shows "\<exists>q. newLoadBalanceDispatchLiteMode p = Some q \<and> three_type_policy q"
proof -
  obtain a b c where abc: "lb_lite_entry p (cfg_DispatchPrefillLoadMetric p) (cfg_DispatchPrefillLoadThreshold p) = Some a"
    "lb_lite_entry p (cfg_DispatchDecodeLoadMetric p) (cfg_DispatchDecodeLoadThreshold p) = Some b"
    "lb_lite_entry p (cfg_DispatchNeutralLoadMetric p) (cfg_DispatchNeutralLoadThreshold p) = Some c"
    using assms lb_lite_entry_total by metis
  with abc [THEN lb_lite_entry_wf] three_entries show ?thesis by (simp add: newLoadBalanceDispatchLiteMode_def)
qed

text \<open>After the configuration check, the policy is built without a panic (given a known cache
  locality metric when that feature is on), every metric its filters and selectors use is computed
  first, and the load-balance and flood policies serve all three inference types.\<close>

theorem checked_policy_well_formed:
  assumes "verifyConfig c = Some c'"
    "cfg_EnableCacheAwareScheduling c' \<longrightarrow> metric_known c' (cfg_DispatchPrefillCacheLocalityMetric c')"
  shows "\<exists>p. checked_policy c = Some (c', p) \<and> mwf p \<and> list_all (\<lambda>(t, e). entry_wf e) p \<and>
    (cfg_SchedulingPolicy c' \<noteq> SchedulingPolicySlo \<longrightarrow>
       set (mkeys p) = {InferTypePrefill, InferTypeDecode, InferTypeNeutral})"
proof -
  note known = verified_metrics [OF assms(1), unfolded metric_known_def]
  have pol: "verifySchedulingPolicy c'"
    using assms(1)
    by (auto simp: verifyConfig_def verifySchedulingPolicy_def verifyDispatchLoadMetric_def verifySchedulingFeature_def
        Let_def split: if_splits)
  have "\<exists>p. newDispatchPolicyInternal c' = Some p \<and> mwf p \<and> list_all (\<lambda>(t, e). entry_wf e) p \<and>
    (cfg_SchedulingPolicy c' \<noteq> SchedulingPolicySlo \<longrightarrow>
       set (mkeys p) = {InferTypePrefill, InferTypeDecode, InferTypeNeutral})"
  proof (cases "cfg_SchedulingPolicy c' = SchedulingPolicyLoadBalance")
    case True
    with lb_full_policy [OF known assms(2) [unfolded metric_known_def]] lb_lite_policy [OF known] show ?thesis
      by (auto simp: newDispatchPolicyInternal_def three_type_policy_def)
  next
    case False
    with pol show ?thesis
      by (auto simp: newDispatchPolicyInternal_def verifySchedulingPolicy_def newFloodDispatchPolicyFullMode_def
          newSloDispatchFullMode_def flood_entry_wf slo_entry_wf slo_apd_wf policy_names infer_types Let_def
          split: if_splits)
  qed
  then show ?thesis using assms(1) by (auto simp: checked_policy_def)
qed

theorem checked_policy_well_formed_witness:
  "\<exists>c' p. verifyConfig default_config = Some c' \<and> checked_policy default_config = Some (c', p) \<and>
     list_all (\<lambda>(t, e). entry_wf e) p"
proof -
  obtain c' where c': "verifyConfig default_config = Some c'" "\<not> cfg_EnableCacheAwareScheduling c'"
    by (auto simp: verifyConfig_def verifySchedulingPolicy_def verifyDispatchLoadMetric_def
        verifySchedulingFeature_def default_config_def Let_def)
  with checked_policy_well_formed [of default_config c'] show ?thesis by auto
qed

text \<open>The decode entry the registry builds for adaptive PD has a selector without its latency target:
  the dispatch limit of its fallback is zero, so no instance with a non-negative predicted token
  latency is ever below it.\<close>

theorem apd_decode_limit_zero:
  assumes "cfg_EnableAdaptivePD p" "mget (newSloDispatchFullMode p) InferTypeDecode = Some e"
  shows "\<exists>slo threshold. dp_selector e = sloDecodeApdSelector slo threshold \<and> fmul round32 slo threshold = Fin 0 \<and>
    (\<forall>v m. vs_metric v SchedulingMetricPredictedTpot = Some m \<longrightarrow> metric_ok SchedulingMetricPredictedTpot m \<longrightarrow>
       \<not> flt (GetValue m) (Fin 0) \<longrightarrow> \<not> under_limit (fmul round32 slo threshold) v) \<and>
    metricBasedFilter SchedulingMetricPredictedTtft (tpot_limit p) False \<in> set (dp_singleInstanceFilters e)"
proof -
  have e: "e = slo_apd_decode p (slo_entry p SchedulingMetricPredictedTpot (PredictedTpot (Fin 0)) (tpot_limit p))"
    using assms by (simp add: newSloDispatchFullMode_def infer_types)
  have z: "fmul round32 (Fin 0) (Fin 0) = Fin 0" using f32_of_int_exact [of 0] by (simp add: f32_of_int_def)
  have "ValueLess m (Fin 0) = flt (GetValue m) (Fin 0)" if "metric_ok SchedulingMetricPredictedTpot m" for m
    using that by (cases m) (auto simp: metric_ok_def metric_names)
  with z show ?thesis by (auto simp: e slo_apd_decode_def under_limit_def)
qed

theorem apd_decode_limit_zero_witness:
  "\<exists>e slo threshold. mget (newSloDispatchFullMode (default_config\<lparr>cfg_EnableAdaptivePD := True\<rparr>)) InferTypeDecode = Some e \<and>
     dp_selector e = sloDecodeApdSelector slo threshold \<and> fmul round32 slo threshold = Fin 0"
proof -
  let ?p = "default_config\<lparr>cfg_EnableAdaptivePD := True\<rparr>"
  obtain e where "mget (newSloDispatchFullMode ?p) InferTypeDecode = Some e"
    by (simp add: newSloDispatchFullMode_def infer_types)
  with apd_decode_limit_zero [of ?p e] show ?thesis by auto
qed

end
