(* ===== verification/Local_Account.thy ===== *)
theory Local_Account
  imports CMS_Types
begin

text \<open>
  \<open>pkg/cms/instance_status_local_account.go\<close>: between two status reports of an engine the scheduler
  keeps its own account of the requests it dispatched there.  An account entry stands for one request
  on one instance; the five counters of an instance sum the entries the engine has not yet reported.

  The clock is a parameter: \<open>clock r\<close> is the time \<open>time.Now().UnixMilli()\<close> returns when request
  \<open>r\<close> is looked at.  \<open>removeRequestLocalAccount\<close> ranges over a slice whose backing array is
  shifted in place while the loop runs; the model keeps the array.

  Lemmas: the counter invariant \<open>account_ok\<close> and its preservation; both stages of a request on one
  instance; completeness of a release over at most two instances; the request identifier in all the
  forms an engine reports it.
\<close>

record Editor =
  ed_stalenessSeconds :: i32
  ed_enableCacheAwareScheduling :: bool
  ed_requestToInstanceIds :: "(string, string list) gmap"

definition newInstanceStatusLocalAccountEditor :: "i32 \<Rightarrow> bool \<Rightarrow> Editor" where
  "newInstanceStatusLocalAccountEditor stale cacheAware =
     \<lparr>ed_stalenessSeconds = stale, ed_enableCacheAwareScheduling = cacheAware,
      ed_requestToInstanceIds = []\<rparr>"

subsection \<open>Request identifiers\<close>

definition has_prefix :: "string \<Rightarrow> string \<Rightarrow> bool" where
  "has_prefix s pre \<longleftrightarrow> take (length pre) s = pre"

definition trim_prefix :: "string \<Rightarrow> string \<Rightarrow> string" where
  "trim_prefix s pre = (if has_prefix s pre then drop (length pre) s else s)"

text \<open>The text before the last occurrence of a character, if there is one.\<close>

fun before_last :: "char \<Rightarrow> string \<Rightarrow> string option" where
  "before_last c [] = None"
| "before_last c (x # xs) =
     (case before_last c xs of
        Some t \<Rightarrow> Some (x # t)
      | None \<Rightarrow> if x = c then Some [] else None)"

definition trimSuffix :: "string \<Rightarrow> string" where
  "trimSuffix requestID =
     (if CHR ''+'' \<in> set requestID then hd (split_on (CHR ''+'') requestID)
      else case before_last (CHR ''-'') requestID of Some t \<Rightarrow> t | None \<Rightarrow> requestID)"

definition trimRequestID :: "string \<Rightarrow> string" where
  "trimRequestID requestID =
     (if has_prefix requestID ''cmpl-'' then trimSuffix (trim_prefix requestID ''cmpl-'')
      else if has_prefix requestID ''chatcmpl-'' then trimSuffix (trim_prefix requestID ''chatcmpl-'')
      else trimSuffix requestID)"

definition trimRequestIDsToSets :: "string list \<Rightarrow> string list" where
  "trimRequestIDsToSets ids = foldl (\<lambda>res r. List.insert (trimRequestID r) res) [] ids"

definition trimRequestIDsToList :: "string list \<Rightarrow> string list" where
  "trimRequestIDsToList ids = map trimRequestID ids"

subsection \<open>The editor\<close>

definition index_ids :: "string \<Rightarrow> Editor \<Rightarrow> string list" where
  "index_ids reqID e = (case mget (ed_requestToInstanceIds e) reqID of None \<Rightarrow> [] | Some ids \<Rightarrow> ids)"

definition removeInstanceFromRequestIndex :: "string \<Rightarrow> string \<Rightarrow> Editor \<Rightarrow> Editor" where
  "removeInstanceFromRequestIndex reqID instanceID e =
     (let ids = index_ids reqID e;
          e = (if instanceID \<in> set ids
               then e\<lparr>ed_requestToInstanceIds := mput reqID (remove1 instanceID ids) (ed_requestToInstanceIds e)\<rparr>
               else e)
      in if length (index_ids reqID e) = 0
         then e\<lparr>ed_requestToInstanceIds := mdel reqID (ed_requestToInstanceIds e)\<rparr>
         else e)"

definition counts_prefill :: "InferType \<Rightarrow> bool" where
  "counts_prefill t \<longleftrightarrow> t = InferTypePrefill \<or> t = InferTypeNeutral"

definition counts_decode :: "InferType \<Rightarrow> bool" where
  "counts_decode t \<longleftrightarrow> t = InferTypeDecode \<or> t = InferTypeNeutral"

text \<open>The counters after removing (or adding) one request of type \<open>t\<close>.\<close>

definition sub_counters ::
  "InferType \<Rightarrow> i32 \<Rightarrow> i32 \<Rightarrow> InstanceStatusLocalAccount \<Rightarrow> InstanceStatusLocalAccount" where
  "sub_counters t numTokens numUncomputed a =
     (let a = (if counts_prefill t
               then a\<lparr>acc_NumInflightDispatchPrefillRequests := acc_NumInflightDispatchPrefillRequests a - 1,
                      acc_NumUncomputedTokensInflightDispatchPrefillRequests :=
                        acc_NumUncomputedTokensInflightDispatchPrefillRequests a - numUncomputed\<rparr>
               else a)
      in if counts_decode t
         then a\<lparr>acc_NumInflightDispatchDecodeRequests := acc_NumInflightDispatchDecodeRequests a - 1,
                acc_NumTokensInflightDispatchDecodeRequests :=
                  acc_NumTokensInflightDispatchDecodeRequests a - numTokens\<rparr>
         else a)"

definition add_counters ::
  "InferType \<Rightarrow> i32 \<Rightarrow> i32 \<Rightarrow> InstanceStatusLocalAccount \<Rightarrow> InstanceStatusLocalAccount" where
  "add_counters t numTokens numUncomputed a =
     (let a = (if counts_prefill t
               then a\<lparr>acc_NumInflightDispatchPrefillRequests := acc_NumInflightDispatchPrefillRequests a + 1,
                      acc_NumUncomputedTokensInflightDispatchPrefillRequests :=
                        acc_NumUncomputedTokensInflightDispatchPrefillRequests a + numUncomputed\<rparr>
               else a)
      in if counts_decode t
         then a\<lparr>acc_NumInflightDispatchDecodeRequests := acc_NumInflightDispatchDecodeRequests a + 1,
                acc_NumTokensInflightDispatchDecodeRequests :=
                  acc_NumTokensInflightDispatchDecodeRequests a + numTokens\<rparr>
         else a)"

definition deleteRequestLocalAccount ::
  "string \<Rightarrow> string \<Rightarrow> bool \<Rightarrow> CmsView \<times> Editor \<Rightarrow> CmsView \<times> Editor" where
  "deleteRequestLocalAccount instanceID reqID deleteRequest = (\<lambda>(v, e).
     (case mget (acc_RequestLocalAccount (cv_Account v)) reqID of
        None \<Rightarrow> (v, e)
      | Some la \<Rightarrow>
          let a = sub_counters (la_InferType la) (la_NumTokens la) (la_NumUncomputedTokens la) (cv_Account v);
              a = a\<lparr>acc_NumInflightDispatchRequests := acc_NumInflightDispatchRequests a - 1\<rparr>
          in if deleteRequest
             then (v\<lparr>cv_Account := a\<lparr>acc_RequestLocalAccount := mdel reqID (acc_RequestLocalAccount a)\<rparr>\<rparr>,
                   removeInstanceFromRequestIndex reqID instanceID e)
             else (v\<lparr>cv_Account := a\<rparr>, e)))"

definition set_entry :: "string \<Rightarrow> RequestLocalAccount \<Rightarrow> CmsView \<Rightarrow> CmsView" where
  "set_entry reqID la v =
     v\<lparr>cv_Account := (cv_Account v)\<lparr>acc_RequestLocalAccount :=
         mput reqID la (acc_RequestLocalAccount (cv_Account v))\<rparr>\<rparr>"

definition drop_entry :: "string \<Rightarrow> CmsView \<Rightarrow> CmsView" where
  "drop_entry reqID v =
     v\<lparr>cv_Account := (cv_Account v)\<lparr>acc_RequestLocalAccount :=
         mdel reqID (acc_RequestLocalAccount (cv_Account v))\<rparr>\<rparr>"

text \<open>
  One turn of the loop over the account's entries, in its three conditional statements: the request
  shows up in the engine's recent queue; a reported request has left the waiting queue; a request
  nobody reported is too old.
\<close>

definition mark_found ::
  "string list \<Rightarrow> string \<Rightarrow> string \<Rightarrow> RequestLocalAccount \<Rightarrow> CmsView \<times> Editor \<Rightarrow> RequestLocalAccount \<times> CmsView \<times> Editor" where
  "mark_found recent instanceID reqID la s =
     (if \<not> la_FoundInCMS la \<and> reqID \<in> set recent
      then let la = la\<lparr>la_FoundInCMS := True\<rparr>
           in (la, deleteRequestLocalAccount instanceID reqID False (set_entry reqID la (fst s), snd s))
      else (la, s))"

definition drop_found ::
  "string list \<Rightarrow> string \<Rightarrow> string \<Rightarrow> RequestLocalAccount \<Rightarrow> CmsView \<times> Editor \<Rightarrow> CmsView \<times> Editor" where
  "drop_found waiting instanceID reqID la s =
     (if la_FoundInCMS la \<and> reqID \<notin> set waiting
      then (drop_entry reqID (fst s), removeInstanceFromRequestIndex reqID instanceID (snd s))
      else s)"

definition expire_entry ::
  "(string \<Rightarrow> i64) \<Rightarrow> string list \<Rightarrow> string \<Rightarrow> string \<Rightarrow> RequestLocalAccount \<Rightarrow> CmsView \<times> Editor \<Rightarrow> CmsView \<times> Editor" where
  "expire_entry clock waiting instanceID reqID la s =
     (if \<not> la_FoundInCMS la \<and> reqID \<notin> set waiting \<and>
         sint (ed_stalenessSeconds (snd s)) \<le> go_quot (sint (clock reqID - la_ScheduleTimestampMs la)) 1000
      then deleteRequestLocalAccount instanceID reqID True s
      else s)"

definition update_entry ::
  "(string \<Rightarrow> i64) \<Rightarrow> string list \<Rightarrow> string list \<Rightarrow> string \<Rightarrow> CmsView \<times> Editor \<Rightarrow> string \<Rightarrow> CmsView \<times> Editor" where
  "update_entry clock recent waiting instanceID s reqID =
     (case mget (acc_RequestLocalAccount (cv_Account (fst s))) reqID of
        None \<Rightarrow> s
      | Some la \<Rightarrow>
          let (la, s) = mark_found recent instanceID reqID la s
          in expire_entry clock waiting instanceID reqID la (drop_found waiting instanceID reqID la s))"

definition sum_waiting :: "(string, RequestLocalAccount) gmap \<Rightarrow> string list \<Rightarrow> i32" where
  "sum_waiting accs waiting =
     foldl (\<lambda>n reqID. case mget accs reqID of None \<Rightarrow> n | Some la \<Rightarrow> n + la_NumUncomputedTokens la) 0 waiting"

definition updateInstanceStatusLocalAccount ::
  "(string \<Rightarrow> i64) \<Rightarrow> string \<Rightarrow> CmsView \<times> Editor \<Rightarrow> CmsView \<times> Editor" where
  "updateInstanceStatusLocalAccount clock instanceID = (\<lambda>(v, e).
     (let recent = trimRequestIDsToSets (st_RecentWaitingRequests (cv_Status v));
          waiting = trimRequestIDsToSets (st_WaitingRequests (cv_Status v));
          (v, e) = foldl (update_entry clock recent waiting instanceID) (v, e)
                     (mkeys (acc_RequestLocalAccount (cv_Account v)));
          waitingReqList = trimRequestIDsToList (st_WaitingRequests (cv_Status v))
      in if ed_enableCacheAwareScheduling e \<and> 0 < length waitingReqList
         then (v\<lparr>cv_Status := (cv_Status v)\<lparr>st_NumUncomputedTokensAllWaitingPrefills :=
                  sum_waiting (acc_RequestLocalAccount (cv_Account v)) waitingReqList\<rparr>\<rparr>, e)
         else (v, e)))"

definition uncomputed_tokens :: "Editor \<Rightarrow> i32 \<Rightarrow> i32 \<Rightarrow> i32" where
  "uncomputed_tokens e numTokens prefixHit =
     (if ed_enableCacheAwareScheduling e then numTokens - prefixHit else numTokens)"

definition addRequestLocalAccount ::
  "i64 \<Rightarrow> InferType \<Rightarrow> i32 \<Rightarrow> i32 \<Rightarrow> string \<Rightarrow> CmsView \<times> Editor \<Rightarrow> CmsView \<times> Editor" where
  "addRequestLocalAccount now inferType numTokens prefixHit requestId = (\<lambda>(v, e).
     (let numUncomputed = uncomputed_tokens e numTokens prefixHit
      in case mget (acc_RequestLocalAccount (cv_Account v)) requestId of
           Some la \<Rightarrow>
             if la_InferType la = inferType \<or> la_InferType la = InferTypeNeutral then (v, e)
             else (v\<lparr>cv_Account := (add_counters inferType numTokens numUncomputed (cv_Account v))
                       \<lparr>acc_RequestLocalAccount := mput requestId (la\<lparr>la_InferType := InferTypeNeutral\<rparr>)
                          (acc_RequestLocalAccount (cv_Account v))\<rparr>\<rparr>, e)
         | None \<Rightarrow>
             let la = \<lparr>la_ScheduleTimestampMs = now, la_InferType = inferType, la_NumTokens = numTokens,
                       la_NumUncomputedTokens = numUncomputed, la_FoundInCMS = False\<rparr>;
                 a = (cv_Account v)
                       \<lparr>acc_NumInflightDispatchRequests := acc_NumInflightDispatchRequests (cv_Account v) + 1,
                        acc_RequestLocalAccount := mput requestId la (acc_RequestLocalAccount (cv_Account v))\<rparr>;
                 e = e\<lparr>ed_requestToInstanceIds :=
                         mput requestId (index_ids requestId e @ [cv_GetInstanceId v]) (ed_requestToInstanceIds e)\<rparr>
             in (v\<lparr>cv_Account := add_counters inferType numTokens numUncomputed a\<rparr>, e)))"

definition revertRequestPrefillLocalAccount ::
  "i32 \<Rightarrow> i32 \<Rightarrow> string \<Rightarrow> CmsView \<times> Editor \<Rightarrow> CmsView \<times> Editor" where
  "revertRequestPrefillLocalAccount numTokens prefixHit requestId = (\<lambda>(v, e).
     (let numTokens = uncomputed_tokens e numTokens prefixHit; a = cv_Account v
      in (v\<lparr>cv_Account := a
              \<lparr>acc_NumInflightDispatchPrefillRequests := acc_NumInflightDispatchPrefillRequests a - 1,
               acc_NumUncomputedTokensInflightDispatchPrefillRequests :=
                 acc_NumUncomputedTokensInflightDispatchPrefillRequests a - numTokens,
               acc_RequestLocalAccount := mdel requestId (acc_RequestLocalAccount a)\<rparr>\<rparr>,
          e\<lparr>ed_requestToInstanceIds := mdel requestId (ed_requestToInstanceIds e)\<rparr>)))"

text \<open>
  The loop of \<open>removeRequestLocalAccount\<close>.  \<open>arr\<close> is the backing array of the slice the loop
  ranges over, \<open>i\<close> the next index and \<open>n\<close> the number of turns left.  Removing an identifier moves the
  later elements of the current slice (the first \<open>length (index_ids req e)\<close> cells) one cell down.
\<close>

definition shift_array :: "nat \<Rightarrow> string \<Rightarrow> string list \<Rightarrow> string list" where
  "shift_array m x arr =
     (if x \<in> set (take m arr) then remove1 x (take m arr) @ drop (m - 1) arr else arr)"

fun remove_loop ::
  "string \<Rightarrow> nat \<Rightarrow> nat \<Rightarrow> string list \<Rightarrow> (string, CmsView) gmap \<times> Editor \<Rightarrow> (string, CmsView) gmap \<times> Editor" where
  "remove_loop req i 0 arr (views, e) = (views, e)"
| "remove_loop req i (Suc n) arr (views, e) =
     (let instanceId = arr ! i; m = length (index_ids req e)
      in case mget views instanceId of
           None \<Rightarrow>
             remove_loop req (Suc i) n (shift_array m instanceId arr)
               (views, removeInstanceFromRequestIndex req instanceId e)
         | Some v \<Rightarrow>
             (case mget (acc_RequestLocalAccount (cv_Account v)) req of
                None \<Rightarrow> remove_loop req (Suc i) n arr (views, e)
              | Some _ \<Rightarrow>
                  let (v', e') = deleteRequestLocalAccount instanceId req True (v, e)
                  in remove_loop req (Suc i) n (shift_array m instanceId arr) (mput instanceId v' views, e')))"

definition removeRequestLocalAccount ::
  "string \<Rightarrow> (string, CmsView) gmap \<times> Editor \<Rightarrow> (string, CmsView) gmap \<times> Editor" where
  "removeRequestLocalAccount req = (\<lambda>(views, e).
     (case mget (ed_requestToInstanceIds e) req of
        None \<Rightarrow> (views, e)
      | Some ids \<Rightarrow> remove_loop req 0 (length ids) ids (views, e)))"

subsection \<open>The counters are sums over pending entries\<close>

definition pend :: "(RequestLocalAccount \<Rightarrow> bool) \<Rightarrow> (RequestLocalAccount \<Rightarrow> i32) \<Rightarrow> string \<Rightarrow> RequestLocalAccount \<Rightarrow> i32" where
  "pend P f r la = (if \<not> la_FoundInCMS la \<and> P la then f la else 0)"

abbreviation is_p :: "RequestLocalAccount \<Rightarrow> bool" where "is_p la \<equiv> counts_prefill (la_InferType la)"
abbreviation is_d :: "RequestLocalAccount \<Rightarrow> bool" where "is_d la \<equiv> counts_decode (la_InferType la)"

definition account_ok :: "InstanceStatusLocalAccount \<Rightarrow> bool" where
  "account_ok a \<longleftrightarrow>
     mwf (acc_RequestLocalAccount a) \<and>
     acc_NumInflightDispatchPrefillRequests a = msum (pend is_p (\<lambda>_. 1)) (acc_RequestLocalAccount a) \<and>
     acc_NumUncomputedTokensInflightDispatchPrefillRequests a =
       msum (pend is_p la_NumUncomputedTokens) (acc_RequestLocalAccount a) \<and>
     acc_NumInflightDispatchDecodeRequests a = msum (pend is_d (\<lambda>_. 1)) (acc_RequestLocalAccount a) \<and>
     acc_NumTokensInflightDispatchDecodeRequests a = msum (pend is_d la_NumTokens) (acc_RequestLocalAccount a) \<and>
     acc_NumInflightDispatchRequests a = msum (pend (\<lambda>_. True) (\<lambda>_. 1)) (acc_RequestLocalAccount a)"

lemma account_ok_empty: "account_ok empty_account"
  by (simp add: account_ok_def empty_account_def go_sum_simps)

lemmas account_simps =
  account_ok_def sub_counters_def add_counters_def pend_def msum_mdel msum_mput Let_def go_map_simps

lemma account_ok_delete:
  assumes "account_ok a" "mget (acc_RequestLocalAccount a) r = Some la" "\<not> la_FoundInCMS la"
  defines "b \<equiv> sub_counters (la_InferType la) (la_NumTokens la) (la_NumUncomputedTokens la) a"
  shows "account_ok (b\<lparr>acc_NumInflightDispatchRequests := acc_NumInflightDispatchRequests b - 1,
      acc_RequestLocalAccount := mdel r (acc_RequestLocalAccount b)\<rparr>)"
  using assms by (auto simp: account_simps)

lemma account_ok_found:
  assumes "account_ok a" "mget (acc_RequestLocalAccount a) r = Some la" "\<not> la_FoundInCMS la"
  defines "b \<equiv> sub_counters (la_InferType la) (la_NumTokens la) (la_NumUncomputedTokens la)
    (a\<lparr>acc_RequestLocalAccount := mput r (la\<lparr>la_FoundInCMS := True\<rparr>) (acc_RequestLocalAccount a)\<rparr>)"
  shows "account_ok (b\<lparr>acc_NumInflightDispatchRequests := acc_NumInflightDispatchRequests b - 1\<rparr>)"
  using assms by (auto simp: account_simps)

lemma account_ok_drop:
  assumes "account_ok a" "mget (acc_RequestLocalAccount a) r = Some la" "la_FoundInCMS la"
  shows "account_ok (a\<lparr>acc_RequestLocalAccount := mdel r (acc_RequestLocalAccount a)\<rparr>)"
  using assms by (auto simp: account_simps)

lemma account_ok_update_entry:
  assumes "account_ok (cv_Account (fst s))"
  shows "account_ok (cv_Account (fst (update_entry clock recent waiting i s r)))"
proof (cases "mget (acc_RequestLocalAccount (cv_Account (fst s))) r")
  case None
  then show ?thesis using assms by (auto simp: update_entry_def split_beta)
next
  case (Some la)
  let ?a = "cv_Account (fst s)"
  note del = account_ok_delete [OF assms Some] and fnd = account_ok_found [OF assms Some]
  have dropped: "account_ok (b\<lparr>acc_RequestLocalAccount := mdel r (acc_RequestLocalAccount b)\<rparr>)"
    if "account_ok b" "mget (acc_RequestLocalAccount b) r = Some (la\<lparr>la_FoundInCMS := True\<rparr>)" for b
    using account_ok_drop [OF that] by simp
  have keep: "acc_RequestLocalAccount (sub_counters t m n b) = acc_RequestLocalAccount b" for t m n b
    by (simp add: sub_counters_def Let_def)
  show ?thesis
  proof (cases "la_FoundInCMS la")
    case True
    then show ?thesis
      using assms Some account_ok_drop [OF assms Some]
      by (auto simp: update_entry_def mark_found_def drop_found_def expire_entry_def split_beta Let_def drop_entry_def)
  next
    case False
    then show ?thesis
      using assms Some del fnd dropped [OF fnd]
      by (auto simp: update_entry_def mark_found_def drop_found_def expire_entry_def split_beta Let_def
          drop_entry_def set_entry_def keep
          deleteRequestLocalAccount_def go_map_simps)
  qed
qed

lemma account_ok_foldl:
  "account_ok (cv_Account (fst s)) \<Longrightarrow>
   account_ok (cv_Account (fst (foldl (update_entry clock recent waiting i) s rs)))"
  by (induction rs arbitrary: s) (simp_all add: account_ok_update_entry)

lemma account_ok_update:
  assumes "account_ok (cv_Account (fst s))"
  shows "account_ok (cv_Account (fst (updateInstanceStatusLocalAccount clock i s)))"
  using account_ok_foldl [OF assms]
  by (auto simp: updateInstanceStatusLocalAccount_def split_beta Let_def)

text \<open>What the dispatcher guarantees when it adds a request: the three inference types only, and the
  second stage on the same instance comes before the engine reports the first one and with the same
  token counts.\<close>

definition add_ok :: "InferType \<Rightarrow> i32 \<Rightarrow> i32 \<Rightarrow> string \<Rightarrow> CmsView \<times> Editor \<Rightarrow> bool" where
  "add_ok t numTokens prefixHit r s \<longleftrightarrow>
     (case mget (acc_RequestLocalAccount (cv_Account (fst s))) r of
        None \<Rightarrow> True
      | Some la \<Rightarrow>
          la_InferType la = t \<or> la_InferType la = InferTypeNeutral \<or>
          \<not> la_FoundInCMS la \<and> la_NumTokens la = numTokens \<and>
          la_NumUncomputedTokens la = uncomputed_tokens (snd s) numTokens prefixHit \<and>
          (la_InferType la = InferTypePrefill \<and> t = InferTypeDecode \<or>
           la_InferType la = InferTypeDecode \<and> t = InferTypePrefill))"

lemma counts_simps [simp]:
  "counts_prefill InferTypePrefill" "counts_prefill InferTypeNeutral" "\<not> counts_prefill InferTypeDecode"
  "counts_decode InferTypeDecode" "counts_decode InferTypeNeutral" "\<not> counts_decode InferTypePrefill"
  by (simp_all add: counts_prefill_def counts_decode_def infer_types)

lemma account_ok_add:
  assumes "account_ok (cv_Account (fst s))" "add_ok t n h r s"
  shows "account_ok (cv_Account (fst (addRequestLocalAccount now t n h r s)))"
proof (cases "mget (acc_RequestLocalAccount (cv_Account (fst s))) r")
  case None
  with assms show ?thesis
    by (auto simp: addRequestLocalAccount_def split_beta account_simps)
next
  case (Some la)
  with assms show ?thesis
    by (auto simp: addRequestLocalAccount_def split_beta account_simps add_ok_def)
qed

lemma account_ok_deleteRequest:
  assumes "account_ok (cv_Account (fst s))"
    "\<And>la. mget (acc_RequestLocalAccount (cv_Account (fst s))) r = Some la \<Longrightarrow> \<not> la_FoundInCMS la"
  shows "account_ok (cv_Account (fst (deleteRequestLocalAccount i r True s)))"
proof (cases "mget (acc_RequestLocalAccount (cv_Account (fst s))) r")
  case None
  with assms show ?thesis by (auto simp: deleteRequestLocalAccount_def split_beta)
next
  case (Some la)
  with account_ok_delete [OF assms(1) Some] assms(2) show ?thesis
    by (auto simp: deleteRequestLocalAccount_def split_beta Let_def)
qed

subsection \<open>Histories of one instance\<close>

datatype acct_op =
    Dispatch i64 InferType i32 i32 string
  | Report InstanceStatus "string \<Rightarrow> i64"
  | Expire string

definition acct_exec :: "acct_op \<Rightarrow> CmsView \<times> Editor \<Rightarrow> (CmsView \<times> Editor) \<times> unit" where
  "acct_exec op s =
     (case op of
        Dispatch now t n h r \<Rightarrow> (addRequestLocalAccount now t n h r s, ())
      | Report st clock \<Rightarrow>
          (updateInstanceStatusLocalAccount clock (cv_GetInstanceId (fst s))
             ((fst s)\<lparr>cv_Status := st\<rparr>, snd s), ())
      | Expire r \<Rightarrow> (deleteRequestLocalAccount (cv_GetInstanceId (fst s)) r True s, ()))"

definition acct_op_ok :: "acct_op \<Rightarrow> CmsView \<times> Editor \<Rightarrow> bool" where
  "acct_op_ok op s \<longleftrightarrow>
     (case op of
        Dispatch now t n h r \<Rightarrow> add_ok t n h r s
      | Report st clock \<Rightarrow> True
      | Expire r \<Rightarrow> (case mget (acc_RequestLocalAccount (cv_Account (fst s))) r of
                       None \<Rightarrow> True | Some la \<Rightarrow> \<not> la_FoundInCMS la))"

definition acct_inv :: "CmsView \<times> Editor \<Rightarrow> bool" where
  "acct_inv s \<longleftrightarrow> account_ok (cv_Account (fst s))"

definition acct_init :: "CmsView \<Rightarrow> Editor \<Rightarrow> CmsView \<times> Editor" where
  "acct_init v e = (v\<lparr>cv_Account := empty_account\<rparr>, e)"

interpretation account: machine acct_exec acct_op_ok acct_inv "acct_init v e"
proof
  show "acct_inv (acct_init v e)" by (simp add: acct_inv_def acct_init_def account_ok_empty)
next
  fix s op assume s: "acct_inv s" "acct_op_ok op s"
  show "acct_inv (fst (acct_exec op s))"
  proof (cases op)
    case (Dispatch now t n h r)
    with s account_ok_add show ?thesis by (simp add: acct_inv_def acct_op_ok_def acct_exec_def)
  next
    case (Report st clock)
    with s account_ok_update [of "((fst s)\<lparr>cv_Status := st\<rparr>, snd s)"] show ?thesis
      by (simp add: acct_inv_def acct_exec_def)
  next
    case (Expire r)
    with s account_ok_deleteRequest [of s r] show ?thesis
      by (simp add: acct_inv_def acct_op_ok_def acct_exec_def split: option.splits)
  qed
qed

subsection \<open>Properties\<close>


definition ex_acct_ops :: "acct_op list" where
  "ex_acct_ops = [Dispatch 1000 InferTypePrefill 100 30 ''a'', Dispatch 1000 InferTypeDecode 100 30 ''a'',
     Dispatch 1000 InferTypeNeutral 50 0 ''b-1'',
     Report (empty_status\<lparr>st_RecentWaitingRequests := [''cmpl-a-0''], st_WaitingRequests := [''cmpl-a-0'']\<rparr>)
       (\<lambda>_. 2000)]"

definition ex_editor :: Editor where
  "ex_editor = newInstanceStatusLocalAccountEditor 60 True"


text \<open>Both stages of a request on one instance: adding the prefill stage, adding the decode stage and
  releasing the request gives back the account and the reverse index exactly as they were.
\<close>

theorem pd_same_instance_roundtrip:
  assumes "mget (acc_RequestLocalAccount (cv_Account v)) r = None"
    "cv_GetInstanceId v \<notin> set (index_ids r e)" "mget (ed_requestToInstanceIds e) r \<noteq> Some []"
  shows "deleteRequestLocalAccount (cv_GetInstanceId v) r True
      (addRequestLocalAccount now' InferTypeDecode n h r
        (addRequestLocalAccount now InferTypePrefill n h r (v, e))) = (v, e)"
proof -
  have "mget (acc_RequestLocalAccount (cv_Account v)) r = None \<longrightarrow>
      mdel r (mput r x (mput r y (acc_RequestLocalAccount (cv_Account v)))) = acc_RequestLocalAccount (cv_Account v)" for x y
    by (auto simp: mget_None_iff delete_update_same mdel_notin)
  moreover have "mdel r (mput r x (ed_requestToInstanceIds e)) = ed_requestToInstanceIds e"
    if "mget (ed_requestToInstanceIds e) r = None" for x
    using that by (simp add: delete_update_same mget_None_iff)
  moreover have "mput r ids (mput r x (ed_requestToInstanceIds e)) = ed_requestToInstanceIds e"
    if "mget (ed_requestToInstanceIds e) r = Some ids" for ids x
    using that by (simp add: mput_mput_same mput_same)
  ultimately show ?thesis
    using assms
    by (auto simp: addRequestLocalAccount_def deleteRequestLocalAccount_def sub_counters_def add_counters_def
        Let_def go_map_simps removeInstanceFromRequestIndex_def index_ids_def remove1_append cv_GetInstanceId_def
        split: option.splits)
qed

theorem pd_same_instance_roundtrip_witness:
  "deleteRequestLocalAccount ''i'' ''a'' True
      (addRequestLocalAccount 2 InferTypeDecode 100 30 ''a''
        (addRequestLocalAccount 1 InferTypePrefill 100 30 ''a'' (ex_view ''i'' InferTypeNeutral, ex_editor))) =
    (ex_view ''i'' InferTypeNeutral, ex_editor)"
  using pd_same_instance_roundtrip [of "ex_view ''i'' InferTypeNeutral" "''a''" ex_editor 2 100 30 1]
  by (simp add: ex_view_def ex_editor_def cv_GetInstanceId_def index_ids_def empty_account_def
      newInstanceStatusLocalAccountEditor_def)

lemma delete_view_indep:
  "fst (deleteRequestLocalAccount i r b (v, e)) = fst (deleteRequestLocalAccount i r b (v, e'))"
  by (simp add: deleteRequestLocalAccount_def Let_def split: option.splits)

lemma delete_editor:
  "mget (acc_RequestLocalAccount (cv_Account v)) r \<noteq> None \<Longrightarrow>
   snd (deleteRequestLocalAccount i r True (v, e)) = removeInstanceFromRequestIndex r i e"
  by (auto simp: deleteRequestLocalAccount_def Let_def)

lemma remove_index_lookup:
  "mget (ed_requestToInstanceIds (removeInstanceFromRequestIndex r i e)) r =
     (if remove1 i (index_ids r e) = [] then None else Some (remove1 i (index_ids r e)))"
  by (auto simp: removeInstanceFromRequestIndex_def Let_def index_ids_def go_map_simps remove1_idem
      split: option.splits)

lemma remove_loop_found:
  assumes "mget views (arr ! i) = Some v" "mget (acc_RequestLocalAccount (cv_Account v)) r \<noteq> None"
  shows "remove_loop r i (Suc n) arr (views, e) =
    remove_loop r (Suc i) n (shift_array (length (index_ids r e)) (arr ! i) arr)
      (mput (arr ! i) (fst (deleteRequestLocalAccount (arr ! i) r True (v, e))) views,
       removeInstanceFromRequestIndex r (arr ! i) e)"
  using assms delete_editor [OF assms(2), of "arr ! i" e]
  by (auto simp: Let_def split_beta split: option.splits)

text \<open>C33. Releasing a request that is accounted on one or two instances removes its entry from each of
  them, takes it out of each one's counters exactly once, leaves every other instance alone and drops
  the reverse index entry, although the loop shifts the very array it ranges over.
\<close>

theorem release_complete:
  assumes "mget (ed_requestToInstanceIds e) r = Some ids" "ids \<noteq> []" "length ids \<le> 2" "distinct ids"
    "\<forall>i\<in>set ids. \<exists>v. mget views i = Some v \<and> mget (acc_RequestLocalAccount (cv_Account v)) r \<noteq> None"
  shows "mget (ed_requestToInstanceIds (snd (removeRequestLocalAccount r (views, e)))) r = None \<and>
    (\<forall>i. mget (fst (removeRequestLocalAccount r (views, e))) i =
      (if i \<in> set ids
       then map_option (\<lambda>v. fst (deleteRequestLocalAccount i r True (v, e))) (mget views i)
       else mget views i))"
proof -
  from assms(2-4) consider (one) a where "ids = [a]" | (two) a b where "ids = [a, b]" "a \<noteq> b"
    by (cases ids rule: remdups_adj.cases) auto
  then show ?thesis
  proof cases
    case one
    with assms(5) obtain v where v: "mget views a = Some v"
      "mget (acc_RequestLocalAccount (cv_Account v)) r \<noteq> None" by auto
    have "removeRequestLocalAccount r (views, e) =
        (mput a (fst (deleteRequestLocalAccount a r True (v, e))) views, removeInstanceFromRequestIndex r a e)"
      using remove_loop_found [of views "[a]" 0 v r 0 e] v assms(1) one
      by (simp add: removeRequestLocalAccount_def del: remove_loop.simps(2))
    then show ?thesis
      using v assms(1) one by (simp add: go_map_simps remove_index_lookup index_ids_def)
  next
    case two
    with assms(5) obtain v w where v: "mget views a = Some v" "mget views b = Some w"
      "mget (acc_RequestLocalAccount (cv_Account v)) r \<noteq> None"
      "mget (acc_RequestLocalAccount (cv_Account w)) r \<noteq> None" by auto
    let ?v = "fst (deleteRequestLocalAccount a r True (v, e))" and ?e = "removeInstanceFromRequestIndex r a e"
    have ids: "index_ids r e = [a, b]" using assms(1) two by (simp add: index_ids_def)
    have e: "index_ids r ?e = [b]" using remove_index_lookup [of r a e] ids by (simp add: index_ids_def)
    have "removeRequestLocalAccount r (views, e) = remove_loop r 1 1 [b, b] (mput a ?v views, ?e)"
      using remove_loop_found [of views "[a, b]" 0 v r 1 e] v assms(1) two ids
      by (simp add: removeRequestLocalAccount_def shift_array_def del: remove_loop.simps(2) flip: numeral_2_eq_2)
    moreover have "remove_loop r 1 1 [b, b] (mput a ?v views, ?e) =
        (mput b (fst (deleteRequestLocalAccount b r True (w, ?e))) (mput a ?v views),
         removeInstanceFromRequestIndex r b ?e)"
      using remove_loop_found [of "mput a ?v views" "[b, b]" 1 w r 0 ?e] v two
      by (simp add: go_map_simps del: remove_loop.simps(2))
    ultimately have "removeRequestLocalAccount r (views, e) =
        (mput b (fst (deleteRequestLocalAccount b r True (w, ?e))) (mput a ?v views),
         removeInstanceFromRequestIndex r b ?e)" by simp
    then show ?thesis
      using v two e remove_index_lookup [of r b ?e] delete_view_indep [of b r True w ?e e]
      by (simp add: go_map_simps)
  qed
qed

definition ex_two_views :: "(string, CmsView) gmap \<times> Editor" where
  "ex_two_views =
     (let (p, e) = addRequestLocalAccount 1 InferTypePrefill 100 30 ''a'' (ex_view ''p'' InferTypePrefill, ex_editor);
          (d, e) = addRequestLocalAccount 1 InferTypeDecode 100 30 ''a'' (ex_view ''d'' InferTypeDecode, e)
      in ([(''p'', p), (''d'', d)], e))"

theorem release_complete_witness:
  "mget (ed_requestToInstanceIds (snd ex_two_views)) ''a'' = Some [''p'', ''d''] \<and>
   mget (ed_requestToInstanceIds (snd (removeRequestLocalAccount ''a'' ex_two_views))) ''a'' = None"
proof -
  have i: "mget (ed_requestToInstanceIds (snd ex_two_views)) ''a'' = Some [''p'', ''d'']" by code_simp
  have "(case mget (fst ex_two_views) ''p'' of None \<Rightarrow> False
      | Some v \<Rightarrow> mget (acc_RequestLocalAccount (cv_Account v)) ''a'' \<noteq> None)"
    "(case mget (fst ex_two_views) ''d'' of None \<Rightarrow> False
      | Some v \<Rightarrow> mget (acc_RequestLocalAccount (cv_Account v)) ''a'' \<noteq> None)" by code_simp+
  then have "\<forall>i\<in>set [''p'', ''d'']. \<exists>v. mget (fst ex_two_views) i = Some v \<and>
      mget (acc_RequestLocalAccount (cv_Account v)) ''a'' \<noteq> None"
    by (auto split: option.splits)
  from release_complete [OF i _ _ _ this] i show ?thesis by simp
qed

text \<open>Reverting the prefill account of a request that was just added gives back the prefill counters,
  the entries and the decode counters, but not the number of dispatched requests in flight: it stays
  one too high.
\<close>

theorem revert_leaks_inflight:
  assumes "mget (acc_RequestLocalAccount (cv_Account v)) r = None"
  shows "cv_Account (fst (revertRequestPrefillLocalAccount n h r
      (addRequestLocalAccount now InferTypePrefill n h r (v, e)))) =
    (cv_Account v)\<lparr>acc_NumInflightDispatchRequests := acc_NumInflightDispatchRequests (cv_Account v) + 1\<rparr>"
proof -
  have "mdel r (mput r x (acc_RequestLocalAccount (cv_Account v))) = acc_RequestLocalAccount (cv_Account v)" for x
    using assms by (simp add: delete_update_same mget_None_iff)
  with assms show ?thesis
    by (simp add: revertRequestPrefillLocalAccount_def addRequestLocalAccount_def add_counters_def Let_def
        uncomputed_tokens_def)
qed

theorem revert_leaks_inflight_witness:
  "acc_NumInflightDispatchRequests (cv_Account (fst (revertRequestPrefillLocalAccount 100 30 ''a''
      (addRequestLocalAccount 1 InferTypePrefill 100 30 ''a'' (ex_view ''i'' InferTypePrefill, ex_editor))))) = 1"
  using revert_leaks_inflight [of "ex_view ''i'' InferTypePrefill" "''a''" 100 30 1 ex_editor]
  by (simp add: ex_view_def empty_account_def)

text \<open>A release that arrives after the engine has reported the request, while the entry is still
  kept for the waiting queue, takes the request off the counters a second time: the number of requests
  in flight ends one below the number of pending entries.
\<close>

theorem release_after_report_undercounts:
  assumes "account_ok (cv_Account v)" "mget (acc_RequestLocalAccount (cv_Account v)) r = Some la"
    "la_FoundInCMS la"
  shows "acc_NumInflightDispatchRequests (cv_Account (fst (deleteRequestLocalAccount i r True (v, e)))) =
    of_nat (length (filter (\<lambda>(r, la). \<not> la_FoundInCMS la)
      (acc_RequestLocalAccount (cv_Account (fst (deleteRequestLocalAccount i r True (v, e))))))) - 1"
proof -
  have "msum (pend (\<lambda>_. True) (\<lambda>_. 1)) xs = of_nat (length (filter (\<lambda>(r, la). \<not> la_FoundInCMS la) xs))" for xs
    by (induction xs) (auto simp: go_sum_simps pend_def)
  moreover have "msum (pend (\<lambda>_. True) (\<lambda>_. 1)) (mdel r (acc_RequestLocalAccount (cv_Account v))) =
      msum (pend (\<lambda>_. True) (\<lambda>_. 1)) (acc_RequestLocalAccount (cv_Account v))"
    using assms by (simp add: account_ok_def msum_mdel pend_def)
  ultimately show ?thesis
    using assms by (simp add: deleteRequestLocalAccount_def sub_counters_def Let_def account_ok_def)
qed

theorem release_after_report_undercounts_witness:
  "acc_NumInflightDispatchRequests (cv_Account (fst (deleteRequestLocalAccount ''i'' ''a'' True
     (fst (run_ops acct_exec [Dispatch 1 InferTypeNeutral 9 0 ''a'',
        Report (empty_status\<lparr>st_RecentWaitingRequests := [''a-0''], st_WaitingRequests := [''a-0'']\<rparr>) (\<lambda>_. 2)]
        (acct_init (ex_view ''i'' InferTypeNeutral) ex_editor)))))) = - 1"
proof -
  let ?ops = "[Dispatch 1 InferTypeNeutral 9 0 ''a'',
        Report (empty_status\<lparr>st_RecentWaitingRequests := [''a-0''], st_WaitingRequests := [''a-0'']\<rparr>) (\<lambda>_. 2)]"
  let ?s = "fst (run_ops acct_exec ?ops (acct_init (ex_view ''i'' InferTypeNeutral) ex_editor))"
  have "ops_ok acct_exec acct_op_ok ?ops (acct_init (ex_view ''i'' InferTypeNeutral) ex_editor)" by code_simp
  from account.inv_history [OF this] have ok: "account_ok (cv_Account (fst ?s))" by (simp add: acct_inv_def)
  have "(case mget (acc_RequestLocalAccount (cv_Account (fst ?s))) ''a'' of None \<Rightarrow> False
      | Some la \<Rightarrow> la_FoundInCMS la)" by code_simp
  then obtain la where la: "mget (acc_RequestLocalAccount (cv_Account (fst ?s))) ''a'' = Some la" "la_FoundInCMS la"
    by (auto split: option.splits)
  have "length (filter (\<lambda>(r, la). \<not> la_FoundInCMS la) (acc_RequestLocalAccount (cv_Account
      (fst (deleteRequestLocalAccount ''i'' ''a'' True (fst ?s, snd ?s)))))) = 0" by code_simp
  with release_after_report_undercounts [OF ok la, of "''i''" "snd ?s"] show ?thesis by simp
qed

text \<open>The request identifier is recovered from every form an engine reports it in: with the prefix
  \<open>cmpl-\<close> or \<open>chatcmpl-\<close> or none, followed by a dash and a suffix without dash, or by a plus sign and
  anything.
\<close>

theorem trim_request_id:
  assumes "CHR ''+'' \<notin> set r"
    "pre = [] \<and> \<not> has_prefix (r @ suf) ''cmpl-'' \<and> \<not> has_prefix (r @ suf) ''chatcmpl-'' \<or>
     pre = ''cmpl-'' \<or> pre = ''chatcmpl-''"
    "(\<exists>t. suf = CHR ''-'' # t \<and> CHR ''-'' \<notin> set t \<and> CHR ''+'' \<notin> set t) \<or> (\<exists>t. suf = CHR ''+'' # t)"
  shows "trimRequestID (pre @ r @ suf) = r"
proof -
  have none: "before_last c t = None" if "c \<notin> set t" for c t
    using that by (induction t) auto
  have last: "before_last c (s @ c # t) = Some s" if "c \<notin> set t" for c s t
    using that by (induction s) (auto simp: none)
  have "trimSuffix (r @ suf) = r"
    using assms(1,3) by (auto simp: trimSuffix_def last split_on_append)
  with assms(2) show ?thesis
    by (auto simp: trimRequestID_def has_prefix_def trim_prefix_def)
qed

theorem trim_request_id_witness:
  "trimRequestID ''chatcmpl-8a7-b-0'' = ''8a7-b'' \<and> trimRequestID ''8a7-b+x-1'' = ''8a7-b''"
  using trim_request_id [of "''8a7-b''" "''chatcmpl-''" "''-0''"] trim_request_id [of "''8a7-b''" "[]" "''+x-1''"]
  by (simp add: has_prefix_def)

end
