(* ===== verification/CMS_Client.thy ===== *)
theory CMS_Client
  imports Local_Account
begin

text \<open>
  \<open>pkg/cms/cms_read_client.go\<close>: the scheduler's cache of the cluster metadata store.

  Two loops refresh the cache; each refresh holds the client's lock while it changes the cache, so the
  refreshes and the account operations form a sequence.  A refresh is a function of what the store
  answered: the keys, the values (\<open>None\<close> for a missing one), and the decoder of the protocol buffer
  library, which returns the content left in the message and whether decoding succeeded.  A run-time
  panic is caught at the end of the refresh: the model stops there and returns the cache as it stands,
  together with a flag.

  The status of a view is the object in the status table; the model keeps both copies and writes both.
  The grouped views hold the same pointers as the view table, so a group is a list of identifiers.

  Lemmas: the tables agree; the address index is exact; reports never go back in time.
\<close>

record CMSReadClient =
  c_instanceIDs :: "string list"
  c_instanceMetadatas :: "(string, (nat \<times> InstanceMetadata) option) gmap"
  c_instanceStatuses :: "(string, InstanceStatus) gmap"
  c_instanceViews :: "(string, CmsView) gmap"
  c_groupedInstanceViews :: "(InferType, string list) gmap"
  c_ipToInstanceIDs :: "(string, string list) gmap"
  c_instanceIDToIP :: "(string, string) gmap"
  c_isAlive :: bool
  c_enableInstanceStatusLocalAccount :: bool
  c_editor :: Editor
  c_enablePredictor :: bool
  c_predictorSamples :: "(f64 \<times> f64) list"
  c_predictorFitted :: bool
  c_numWarmupSamples :: nat
  c_enableAdaptivePD :: bool
  c_reservedPrefillInstance :: string
  c_reservedDecodeInstance :: string
  c_nextRef :: nat

definition LlumnixInstanceMetadataPrefix :: string where
  "LlumnixInstanceMetadataPrefix = ''llumnix:instance_metadata:''"

definition LlumnixInstanceStatusPrefix :: string where
  "LlumnixInstanceStatusPrefix = ''llumnix:instance_status:''"

definition NewCMSReadClient :: "bool \<Rightarrow> bool \<Rightarrow> i32 \<Rightarrow> bool \<Rightarrow> nat \<Rightarrow> bool \<Rightarrow> CMSReadClient" where
  "NewCMSReadClient localAccount cacheAware stale predictor warmup adaptivePD =
     \<lparr>c_instanceIDs = [], c_instanceMetadatas = [], c_instanceStatuses = [], c_instanceViews = [],
      c_groupedInstanceViews = [], c_ipToInstanceIDs = [], c_instanceIDToIP = [], c_isAlive = False,
      c_enableInstanceStatusLocalAccount = localAccount,
      c_editor = newInstanceStatusLocalAccountEditor stale cacheAware,
      c_enablePredictor = predictor, c_predictorSamples = [], c_predictorFitted = False,
      c_numWarmupSamples = warmup, c_enableAdaptivePD = adaptivePD,
      c_reservedPrefillInstance = [], c_reservedDecodeInstance = [], c_nextRef = 0\<rparr>"

subsection \<open>The address index\<close>

definition addToIpToInstanceIDsMap :: "string \<Rightarrow> string \<Rightarrow> CMSReadClient \<Rightarrow> CMSReadClient" where
  "addToIpToInstanceIDsMap ip i c =
     (if ip = [] then c
      else case mget (c_ipToInstanceIDs c) ip of
             Some ids \<Rightarrow> c\<lparr>c_ipToInstanceIDs := mput ip (List.insert i ids) (c_ipToInstanceIDs c)\<rparr>
           | None \<Rightarrow> c\<lparr>c_ipToInstanceIDs := mput ip [i] (c_ipToInstanceIDs c)\<rparr>)"

definition removeFromIp2InstanceIDsMap :: "string \<Rightarrow> string \<Rightarrow> CMSReadClient \<Rightarrow> CMSReadClient" where
  "removeFromIp2InstanceIDsMap ip i c =
     (if ip = [] then c
      else case mget (c_ipToInstanceIDs c) ip of
             None \<Rightarrow> c
           | Some ids \<Rightarrow>
               if length (removeAll i ids) = 0 then c\<lparr>c_ipToInstanceIDs := mdel ip (c_ipToInstanceIDs c)\<rparr>
               else c\<lparr>c_ipToInstanceIDs := mput ip (removeAll i ids) (c_ipToInstanceIDs c)\<rparr>)"

definition GetInstanceIDsByIPs :: "string list \<Rightarrow> CMSReadClient \<Rightarrow> string list" where
  "GetInstanceIDsByIPs ips c =
     foldl (\<lambda>ids ip. case mget (c_ipToInstanceIDs c) ip of None \<Rightarrow> ids | Some s \<Rightarrow> List.union s ids) [] ips"

definition ip_of :: "string \<Rightarrow> CMSReadClient \<Rightarrow> string" where
  "ip_of i c = (case mget (c_instanceIDToIP c) i of None \<Rightarrow> [] | Some ip \<Rightarrow> ip)"

subsection \<open>Refreshing the metadata\<close>

definition forget_metadata :: "string list \<Rightarrow> CMSReadClient \<Rightarrow> string \<times> (nat \<times> InstanceMetadata) option \<Rightarrow> CMSReadClient" where
  "forget_metadata ids c = (\<lambda>(i, meta).
     (if i \<in> set ids then c
      else
        let c = (if ip_of i c \<noteq> [] then removeFromIp2InstanceIDsMap (ip_of i c) i c
                 else case meta of
                        None \<Rightarrow> c
                      | Some (_, m) \<Rightarrow>
                          if md_IpKvs m \<noteq> [] then removeFromIp2InstanceIDsMap (md_IpKvs m) i c else c)
        in c\<lparr>c_instanceMetadatas := mdel i (c_instanceMetadatas c),
             c_instanceIDToIP := mdel i (c_instanceIDToIP c)\<rparr>))"

text \<open>Writing a metadata object: the table and every view built with that object see it.\<close>

definition write_metadata :: "string \<Rightarrow> nat \<Rightarrow> InstanceMetadata \<Rightarrow> CMSReadClient \<Rightarrow> CMSReadClient" where
  "write_metadata i ref m c =
     c\<lparr>c_instanceMetadatas := mput i (Some (ref, m)) (c_instanceMetadatas c),
       c_instanceViews := map_ran (\<lambda>_ v. if cv_MetadataRef v = ref then v\<lparr>cv_Metadata := m\<rparr> else v)
         (c_instanceViews c)\<rparr>"

definition move_ip :: "string \<Rightarrow> string \<Rightarrow> string \<Rightarrow> CMSReadClient \<Rightarrow> CMSReadClient" where
  "move_ip i oldIP newIP c =
     (if newIP \<noteq> oldIP
      then let c = (if oldIP \<noteq> [] then removeFromIp2InstanceIDsMap oldIP i c else c);
               c = (if newIP \<noteq> [] then addToIpToInstanceIDsMap newIP i c else c)
           in if newIP = [] then c\<lparr>c_instanceIDToIP := mdel i (c_instanceIDToIP c)\<rparr>
              else c\<lparr>c_instanceIDToIP := mput i newIP (c_instanceIDToIP c)\<rparr>
      else if newIP = [] then c\<lparr>c_instanceIDToIP := mdel i (c_instanceIDToIP c)\<rparr> else c)"

definition store_metadata ::
  "('b \<Rightarrow> InstanceMetadata \<times> bool) \<Rightarrow> string \<Rightarrow> 'b option \<Rightarrow> CMSReadClient \<Rightarrow> CMSReadClient" where
  "store_metadata unmarshal i bytes c =
     (case bytes of
        None \<Rightarrow> c\<lparr>c_instanceMetadatas := mput i None (c_instanceMetadatas c)\<rparr>
      | Some b \<Rightarrow>
          let old = (case mget (c_instanceMetadatas c) i of Some (Some rm) \<Rightarrow> Some rm | _ \<Rightarrow> None);
              oldIP = (case old of None \<Rightarrow> [] | Some (_, m) \<Rightarrow> md_IpKvs m);
              (ref, c) = (case old of Some (ref, _) \<Rightarrow> (ref, c)
                          | None \<Rightarrow> (c_nextRef c, c\<lparr>c_nextRef := Suc (c_nextRef c)\<rparr>));
              (m, ok) = unmarshal b;
              c = write_metadata i ref m c
          in if \<not> ok then c else move_ip i oldIP (md_IpKvs m) c)"

fun store_metadatas ::
  "('b \<Rightarrow> InstanceMetadata \<times> bool) \<Rightarrow> string list \<Rightarrow> 'b option list \<Rightarrow> CMSReadClient \<Rightarrow> CMSReadClient \<times> bool" where
  "store_metadatas unmarshal ids [] c = (c, False)"
| "store_metadatas unmarshal [] (b # bs) c = (c, True)"
| "store_metadatas unmarshal (i # ids) (b # bs) c =
     store_metadatas unmarshal ids bs (store_metadata unmarshal i b c)"

definition refreshInstanceMetadata ::
  "('b \<Rightarrow> InstanceMetadata \<times> bool) \<Rightarrow> string list option \<Rightarrow> 'b option list option \<Rightarrow>
   CMSReadClient \<Rightarrow> CMSReadClient \<times> bool" where
  "refreshInstanceMetadata unmarshal keys vals c =
     (case keys of
        None \<Rightarrow> (c\<lparr>c_isAlive := False\<rparr>, False)
      | Some instanceIDsInRedis \<Rightarrow>
          let ids = map (\<lambda>k. trim_prefix k LlumnixInstanceMetadataPrefix) instanceIDsInRedis
          in (case vals of
                None \<Rightarrow> (c\<lparr>c_isAlive := False\<rparr>, False)
              | Some bytesList \<Rightarrow>
                  let c = c\<lparr>c_isAlive := True, c_instanceIDs := ids\<rparr>;
                      c = foldl (forget_metadata ids) c (c_instanceMetadatas c)
                  in store_metadatas unmarshal ids bytesList c))"

subsection \<open>Refreshing the status\<close>

definition drop_from_groups :: "string \<Rightarrow> (InferType, string list) gmap \<Rightarrow> (InferType, string list) gmap" where
  "drop_from_groups i g = filter (\<lambda>(_, ids). ids \<noteq> []) (map_ran (\<lambda>_ ids. removeAll i ids) g)"

definition forget_view :: "string \<Rightarrow> CMSReadClient \<Rightarrow> CMSReadClient" where
  "forget_view i c =
     c\<lparr>c_instanceStatuses := mdel i (c_instanceStatuses c), c_instanceViews := mdel i (c_instanceViews c),
       c_groupedInstanceViews := drop_from_groups i (c_groupedInstanceViews c)\<rparr>"

definition forget_status :: "CMSReadClient \<Rightarrow> string \<Rightarrow> CMSReadClient" where
  "forget_status c i =
     (if i \<in> set (c_instanceIDs c) then c
      else
        let c = forget_view i c;
            c = (if c_reservedPrefillInstance c = i then c\<lparr>c_reservedPrefillInstance := []\<rparr> else c)
        in if c_reservedDecodeInstance c = i then c\<lparr>c_reservedDecodeInstance := []\<rparr> else c)"

definition initial_status :: InstanceStatus where
  "initial_status =
     empty_status\<lparr>st_StepId := word_of_int (- (2 ^ 31)), st_UpdateId := word_of_int (- (2 ^ 31)),
       st_TimestampMs := word_of_int (- (2 ^ 63)), st_ProfilingId := word_of_int (- (2 ^ 31))\<rparr>"

definition new_view :: "nat \<Rightarrow> InstanceMetadata \<Rightarrow> CmsView" where
  "new_view ref m =
     \<lparr>cv_Instance =
        \<lparr>li_Version = 0,
         li_ID = md_Ip m @ ''_instance'' @ show_int (sint (md_DpRank m)) @ ''_'' @ show_int (sint (md_DataParallelSize m)),
         li_Model = [], li_InferType = md_InstanceType m,
         li_Endpoint = \<lparr>ep_Host = md_Ip m, ep_Port = word_of_int (sint (md_ApiServerPort m))\<rparr>,
         li_AuxIp = md_IpKvt m, li_AuxPort = word_of_int (sint (md_KvtPort m)),
         li_DPRank = word_of_int (sint (md_DpRank m)), li_DPSize = word_of_int (sint (md_DataParallelSize m))\<rparr>,
      cv_Status = initial_status, cv_MetadataRef = ref, cv_Metadata = m, cv_Account = empty_account,
      cv_ReservedInferType = []\<rparr>"

definition add_to_group :: "InferType \<Rightarrow> string \<Rightarrow> (InferType, string list) gmap \<Rightarrow> (InferType, string list) gmap" where
  "add_to_group t i g = mput t (List.insert i (case mget g t of None \<Rightarrow> [] | Some ids \<Rightarrow> ids)) g"

text \<open>Writing a status object: the table and the view (if there is one) see it.\<close>

definition write_status :: "string \<Rightarrow> InstanceStatus \<Rightarrow> CMSReadClient \<Rightarrow> CMSReadClient" where
  "write_status i st c =
     c\<lparr>c_instanceStatuses := mput i st (c_instanceStatuses c),
       c_instanceViews := map_ran (\<lambda>j v. if j = i then v\<lparr>cv_Status := st\<rparr> else v) (c_instanceViews c)\<rparr>"

definition write_view :: "string \<Rightarrow> CmsView \<Rightarrow> CMSReadClient \<Rightarrow> CMSReadClient" where
  "write_view i v c =
     c\<lparr>c_instanceStatuses := mput i (cv_Status v) (c_instanceStatuses c),
       c_instanceViews := mput i v (c_instanceViews c)\<rparr>"

definition addSampleToTTFTPredictor :: "CmsView \<Rightarrow> CMSReadClient \<Rightarrow> CMSReadClient" where
  "addSampleToTTFTPredictor v c =
     (if cv_GetInferType v \<noteq> InferTypePrefill then c
      else if st_NumScheduledPrefillTokens (cv_Status v) = 0 \<or> fle (st_StepDuration (cv_Status v)) (Fin 0) then c
      else c\<lparr>c_predictorSamples := c_predictorSamples c @
               [(f64_of_int (sint (st_NumScheduledPrefillTokens (cv_Status v))), st_StepDuration (cv_Status v))],
             c_predictorFitted := False\<rparr>)"

text \<open>The new entry for an instance seen for the first time; the flag is the panic on nil metadata,
  after the status table has been written.\<close>

definition create_view :: "string \<Rightarrow> CMSReadClient \<Rightarrow> CMSReadClient \<times> bool" where
  "create_view i c =
     (let c = c\<lparr>c_instanceStatuses := mput i initial_status (c_instanceStatuses c)\<rparr>
      in case mget (c_instanceMetadatas c) i of
           Some (Some (ref, m)) \<Rightarrow>
             (c\<lparr>c_instanceViews := mput i (new_view ref m) (c_instanceViews c),
                c_groupedInstanceViews := add_to_group (md_InstanceType m) i (c_groupedInstanceViews c)\<rparr>, False)
         | _ \<Rightarrow> (c, True))"

text \<open>A newer report: either the whole message or, when its update counter is not newer, only the
  timestamp and the schedulable flag.\<close>

definition merge_report :: "InstanceStatus \<Rightarrow> InstanceStatus \<Rightarrow> InstanceStatus" where
  "merge_report cur buf =
     (if sint (st_UpdateId buf) \<le> sint (st_UpdateId cur)
      then cur\<lparr>st_TimestampMs := st_TimestampMs buf, st_Schedulable := st_Schedulable buf\<rparr> else buf)"

text \<open>What follows the write of the status; the flag is the panic on an instance without a view.\<close>

definition settle_report ::
  "(string \<Rightarrow> i64) \<Rightarrow> string \<Rightarrow> bool \<Rightarrow> bool \<Rightarrow> CMSReadClient \<Rightarrow> CMSReadClient \<times> bool" where
  "settle_report clock i updateInstanceStatus updateTTFTPredictor c =
     (case mget (c_instanceViews c) i of
        None \<Rightarrow> (c, True)
      | Some v \<Rightarrow>
          let (v, e) = (if c_enableInstanceStatusLocalAccount c \<and> updateInstanceStatus
                        then updateInstanceStatusLocalAccount clock i (v, c_editor c)
                        else (v, c_editor c));
              c = (write_view i v c)\<lparr>c_editor := e\<rparr>
          in (if c_enablePredictor c \<and> updateTTFTPredictor then addSampleToTTFTPredictor v c else c, False))"

definition apply_report ::
  "(string \<Rightarrow> i64) \<Rightarrow> string \<Rightarrow> InstanceStatus \<Rightarrow> CMSReadClient \<Rightarrow> CMSReadClient \<times> bool" where
  "apply_report clock i buf c =
     (let cur = the (mget (c_instanceStatuses c) i)
      in if sint (st_TimestampMs buf) \<le> sint (st_TimestampMs cur) then (c, False)
         else settle_report clock i (\<not> sint (st_UpdateId buf) \<le> sint (st_UpdateId cur))
                (\<not> (st_ProfilingId buf = - 1 \<or> sint (st_ProfilingId buf) \<le> sint (st_ProfilingId cur)))
                (write_status i (merge_report cur buf) c))"

definition refresh_status_entry ::
  "('b \<Rightarrow> InstanceStatus \<times> bool) \<Rightarrow> (string \<Rightarrow> i64) \<Rightarrow> string \<Rightarrow> 'b option \<Rightarrow> CMSReadClient \<Rightarrow> CMSReadClient \<times> bool" where
  "refresh_status_entry unmarshal clock i bytes c =
     (case bytes of
        None \<Rightarrow> (forget_view i c, False)
      | Some b \<Rightarrow>
          if mget (c_instanceMetadatas c) i = None then (c, False)
          else
            let (c, panic) = (if mget (c_instanceStatuses c) i = None then create_view i c else (c, False))
            in if panic then (c, True) else apply_report clock i (fst (unmarshal b)) c)"

fun refresh_statuses ::
  "('b \<Rightarrow> InstanceStatus \<times> bool) \<Rightarrow> (string \<Rightarrow> i64) \<Rightarrow> string list \<Rightarrow> 'b option list \<Rightarrow>
   CMSReadClient \<Rightarrow> CMSReadClient \<times> bool" where
  "refresh_statuses unmarshal clock ids [] c = (c, False)"
| "refresh_statuses unmarshal clock [] (b # bs) c = (c, True)"
| "refresh_statuses unmarshal clock (i # ids) (b # bs) c =
     (let (c, panic) = refresh_status_entry unmarshal clock i b c
      in if panic then (c, True) else refresh_statuses unmarshal clock ids bs c)"

subsection \<open>Reserved instances\<close>

definition decode_batch_of :: "InstanceStatus \<Rightarrow> i32" where
  "decode_batch_of st =
     st_HybridSchedulerWaitingToDecodeRequestsNum st + st_NumLoadingRequests st +
     st_SchedulerWaitingToDecodeRequestsNum st + st_SchedulerRunningToDecodeRequestsNum st"

definition prefill_tokens_of :: "InstanceStatus \<Rightarrow> i32" where
  "prefill_tokens_of st =
     st_NumUncomputedTokensAllWaitingPrefills st + st_NumUncomputedTokensSchedulerRunningPrefills st"

text \<open>Reserving an instance; the flag is the panic on an instance without a view.\<close>

definition reserve :: "InferType \<Rightarrow> string \<Rightarrow> CMSReadClient \<Rightarrow> CMSReadClient \<times> bool" where
  "reserve t i c =
     (let c = (if t = InferTypeDecode then c\<lparr>c_reservedDecodeInstance := i\<rparr>
               else c\<lparr>c_reservedPrefillInstance := i\<rparr>)
      in case mget (c_instanceViews c) i of
           None \<Rightarrow> (c, True)
         | Some v \<Rightarrow> (c\<lparr>c_instanceViews := mput i (v\<lparr>cv_ReservedInferType := t\<rparr>) (c_instanceViews c)\<rparr>, False))"

text \<open>One turn of the loop: reserve the instance if it is idle for the other stage.\<close>

definition reserve_step :: "string \<Rightarrow> InstanceStatus \<Rightarrow> CMSReadClient \<Rightarrow> CMSReadClient \<times> bool" where
  "reserve_step i st c =
     (let d = decode_batch_of st; p = prefill_tokens_of st;
          (c, panic) = (if 0 \<le> sint d \<and> p = 0 \<and> c_reservedDecodeInstance c = []
                        then reserve InferTypeDecode i c else (c, False))
      in if panic then (c, True)
         else if 0 \<le> sint p \<and> d = 0 \<and> c_reservedPrefillInstance c = [] \<and> i \<noteq> c_reservedDecodeInstance c
         then reserve InferTypePrefill i c else (c, False))"

definition both_reserved :: "CMSReadClient \<Rightarrow> bool" where
  "both_reserved c \<longleftrightarrow> c_reservedPrefillInstance c \<noteq> [] \<and> c_reservedDecodeInstance c \<noteq> []"

definition least_decode :: "string \<Rightarrow> InstanceStatus \<Rightarrow> i32 \<times> string \<Rightarrow> i32 \<times> string" where
  "least_decode i st least = (if sint (decode_batch_of st) < sint (fst least) then (decode_batch_of st, i) else least)"

definition least_prefill :: "string \<Rightarrow> InstanceStatus \<Rightarrow> CMSReadClient \<Rightarrow> i32 \<times> string \<Rightarrow> i32 \<times> string" where
  "least_prefill i st c least =
     (if sint (prefill_tokens_of st) < sint (fst least) \<and> i \<noteq> c_reservedDecodeInstance c
      then (prefill_tokens_of st, i) else least)"

text \<open>The loop keeps the least busy candidates; \<open>Inl\<close> is the early return (or a panic).\<close>

primrec reserve_loop ::
  "(string, InstanceStatus) gmap \<Rightarrow> i32 \<times> string \<Rightarrow> i32 \<times> string \<Rightarrow> CMSReadClient \<Rightarrow>
   CMSReadClient \<times> bool + CMSReadClient \<times> string \<times> string" where
  "reserve_loop [] ld lp c = Inr (c, snd ld, snd lp)"
| "reserve_loop (x # xs) ld lp c =
     (case reserve_step (fst x) (snd x) c of (c, panic) \<Rightarrow>
        if panic \<or> both_reserved c then Inl (c, panic)
        else reserve_loop xs (least_decode (fst x) (snd x) ld) (least_prefill (fst x) (snd x) c lp) c)"

definition max_i32 :: i32 where "max_i32 = word_of_int (2 ^ 31 - 1)"

definition setReservedInstance :: "CMSReadClient \<Rightarrow> CMSReadClient \<times> bool" where
  "setReservedInstance c =
     (if both_reserved c then (c, False)
      else case reserve_loop (c_instanceStatuses c) (max_i32, []) (max_i32, []) c of
             Inl r \<Rightarrow> r
           | Inr (c, leastDecodeId, leastPrefillId) \<Rightarrow>
               let (c, panic) = (if c_reservedDecodeInstance c = [] \<and> leastDecodeId \<noteq> []
                                 then reserve InferTypeDecode leastDecodeId c else (c, False))
               in if panic then (c, True)
                  else if c_reservedPrefillInstance c = [] \<and> leastPrefillId \<noteq> []
                  then reserve InferTypePrefill leastPrefillId c else (c, False))"

definition fitTTFTPredictor :: "CMSReadClient \<Rightarrow> CMSReadClient" where
  "fitTTFTPredictor c =
     (if length (c_predictorSamples c) < c_numWarmupSamples c then c else c\<lparr>c_predictorFitted := True\<rparr>)"

definition refreshInstanceStatus ::
  "('b \<Rightarrow> InstanceStatus \<times> bool) \<Rightarrow> (string \<Rightarrow> i64) \<Rightarrow> (string list \<Rightarrow> 'b option list option) \<Rightarrow>
   CMSReadClient \<Rightarrow> CMSReadClient \<times> bool" where
  "refreshInstanceStatus unmarshal clock MGetBytes c =
     (let redisKeys = map (\<lambda>i. LlumnixInstanceStatusPrefix @ i) (c_instanceIDs c)
      in case MGetBytes redisKeys of
           None \<Rightarrow> (c\<lparr>c_isAlive := False\<rparr>, False)
         | Some bytesList \<Rightarrow>
             let c = c\<lparr>c_isAlive := True\<rparr>;
                 c = foldl forget_status c (mkeys (c_instanceStatuses c));
                 (c, panic) = refresh_statuses unmarshal clock (c_instanceIDs c) bytesList c
             in if panic then (c, True)
                else
                  let (c, panic) = (if c_enableAdaptivePD c then setReservedInstance c else (c, False))
                  in if panic then (c, True)
                     else (if c_enablePredictor c \<and> \<not> c_predictorFitted c then fitTTFTPredictor c else c, False))"

subsection \<open>Account operations and readers\<close>

definition AddRequestLocalAccount ::
  "i64 \<Rightarrow> string \<Rightarrow> InferType \<Rightarrow> i32 \<Rightarrow> i32 \<Rightarrow> string \<Rightarrow> CMSReadClient \<Rightarrow> CMSReadClient" where
  "AddRequestLocalAccount now i t numTokens prefixHit req c =
     (case mget (c_instanceViews c) i of
        None \<Rightarrow> c
      | Some v \<Rightarrow>
          let (v, e) = addRequestLocalAccount now t numTokens prefixHit req (v, c_editor c)
          in (write_view i v c)\<lparr>c_editor := e\<rparr>)"

definition RevertRequestPrefillLocalAccount ::
  "string \<Rightarrow> i32 \<Rightarrow> i32 \<Rightarrow> string \<Rightarrow> CMSReadClient \<Rightarrow> CMSReadClient" where
  "RevertRequestPrefillLocalAccount i numTokens prefixHit req c =
     (case mget (c_instanceViews c) i of
        None \<Rightarrow> c
      | Some v \<Rightarrow>
          let (v, e) = revertRequestPrefillLocalAccount numTokens prefixHit req (v, c_editor c)
          in (write_view i v c)\<lparr>c_editor := e\<rparr>)"

definition RemoveRequestLocalAccount :: "string \<Rightarrow> CMSReadClient \<Rightarrow> CMSReadClient" where
  "RemoveRequestLocalAccount req c =
     (if \<not> c_enableInstanceStatusLocalAccount c then c
      else let (views, e) = removeRequestLocalAccount req (c_instanceViews c, c_editor c)
           in c\<lparr>c_instanceViews := views, c_editor := e\<rparr>)"

definition GetInstanceMetadataByID :: "string \<Rightarrow> CMSReadClient \<Rightarrow> InstanceMetadata option" where
  "GetInstanceMetadataByID i c =
     (case mget (c_instanceMetadatas c) i of Some (Some (_, m)) \<Rightarrow> Some m | _ \<Rightarrow> None)"

definition GetInstanceStatusByID :: "string \<Rightarrow> CMSReadClient \<Rightarrow> InstanceStatus option" where
  "GetInstanceStatusByID i c = mget (c_instanceStatuses c) i"

definition GetGroupedInstanceViews :: "CMSReadClient \<Rightarrow> (InferType, (string, CmsView) gmap) gmap" where
  "GetGroupedInstanceViews c =
     map (\<lambda>(t, ids). (t, map (\<lambda>i. (i, the (mget (c_instanceViews c) i))) ids)) (c_groupedInstanceViews c)"

subsection \<open>The address index is exact\<close>

definition at_ip :: "string \<Rightarrow> string \<Rightarrow> CMSReadClient \<Rightarrow> bool" where
  "at_ip ip i c \<longleftrightarrow> (\<exists>ids. mget (c_ipToInstanceIDs c) ip = Some ids \<and> i \<in> set ids)"

lemma at_ip_add [simp]:
  "at_ip ip i (addToIpToInstanceIDsMap ip' i' c) \<longleftrightarrow> at_ip ip i c \<or> ip' \<noteq> [] \<and> ip = ip' \<and> i = i'"
  by (auto simp: at_ip_def addToIpToInstanceIDsMap_def go_map_simps split: option.splits)

lemma at_ip_remove [simp]:
  "at_ip ip i (removeFromIp2InstanceIDsMap ip' i' c) \<longleftrightarrow> at_ip ip i c \<and> \<not> (ip' \<noteq> [] \<and> ip = ip' \<and> i = i')"
  by (auto simp: at_ip_def removeFromIp2InstanceIDsMap_def go_map_simps removeAll_filter_not_eq
      filter_empty_conv split: option.splits)

lemma ip_map_fields [simp]:
  "c_instanceMetadatas (addToIpToInstanceIDsMap ip i c) = c_instanceMetadatas c"
  "c_instanceIDToIP (addToIpToInstanceIDsMap ip i c) = c_instanceIDToIP c"
  "c_instanceMetadatas (removeFromIp2InstanceIDsMap ip i c) = c_instanceMetadatas c"
  "c_instanceIDToIP (removeFromIp2InstanceIDsMap ip i c) = c_instanceIDToIP c"
  by (auto simp: addToIpToInstanceIDsMap_def removeFromIp2InstanceIDsMap_def split: option.splits)

lemma at_ip_simps [simp]:
  "at_ip ip i (c\<lparr>c_instanceMetadatas := m\<rparr>) = at_ip ip i c"
  "at_ip ip i (c\<lparr>c_instanceIDToIP := t\<rparr>) = at_ip ip i c"
  "at_ip ip i (c\<lparr>c_nextRef := n\<rparr>) = at_ip ip i c"
  "at_ip ip i (c\<lparr>c_isAlive := b\<rparr>) = at_ip ip i c"
  "at_ip ip i (c\<lparr>c_instanceIDs := l\<rparr>) = at_ip ip i c"
  "at_ip ip i (c\<lparr>c_instanceViews := v\<rparr>) = at_ip ip i c"
  by (simp_all add: at_ip_def)

text \<open>The index holds an instance under an address exactly when its metadata gives that address.\<close>

definition meta_ip :: "string \<Rightarrow> CMSReadClient \<Rightarrow> string" where
  "meta_ip i c = (case mget (c_instanceMetadatas c) i of Some (Some (_, m)) \<Rightarrow> md_IpKvs m | _ \<Rightarrow> [])"

definition ip_ok :: "CMSReadClient \<Rightarrow> bool" where
  "ip_ok c \<longleftrightarrow>
     mwf (c_instanceMetadatas c) \<and>
     (\<forall>i. mget (c_instanceMetadatas c) i \<noteq> Some None) \<and>
     (\<forall>i. ip_of i c = meta_ip i c) \<and>
     (\<forall>ip i. at_ip ip i c \<longleftrightarrow> ip \<noteq> [] \<and> ip_of i c = ip)"

lemma ip_ok_forget:
  assumes "ip_ok c" "mget (c_instanceMetadatas c) i = Some meta"
  shows "ip_ok (forget_metadata ids c (i, meta))"
    "mget (c_instanceMetadatas (forget_metadata ids c (i, meta))) =
       (if i \<in> set ids then mget (c_instanceMetadatas c) else (mget (c_instanceMetadatas c))(i := None))"
proof -
  let ?c = "forget_metadata ids c (i, meta)"
  have m: "ip_of i c = (case meta of None \<Rightarrow> [] | Some (_, m) \<Rightarrow> md_IpKvs m)"
    using assms by (simp add: ip_ok_def meta_ip_def split: option.splits)
  have f: "c_instanceMetadatas ?c = mdel i (c_instanceMetadatas c) \<and>
      (\<forall>j. ip_of j ?c = (if j = i then [] else ip_of j c)) \<and>
      (\<forall>ip j. at_ip ip j ?c \<longleftrightarrow> at_ip ip j c \<and> j \<noteq> i)" if "i \<notin> set ids"
    using that m assms(1)
    by (auto simp: forget_metadata_def Let_def ip_of_def ip_ok_def go_map_simps split: option.splits)
  show "ip_ok ?c"
  proof (cases "i \<in> set ids")
    case True
    then show ?thesis using assms by (simp add: forget_metadata_def)
  next
    case False
    note f = f [OF this]
    have "meta_ip j ?c = (if j = i then [] else meta_ip j c)" for j
      using f by (simp add: meta_ip_def go_map_simps)
    with f assms(1) show ?thesis by (auto simp: ip_ok_def go_map_simps)
  qed
  show "mget (c_instanceMetadatas ?c) =
      (if i \<in> set ids then mget (c_instanceMetadatas c) else (mget (c_instanceMetadatas c))(i := None))"
    using f by (cases "i \<in> set ids") (auto simp: forget_metadata_def go_map_simps)
qed

lemma ip_ok_forget_fold:
  assumes "ip_ok c" "\<And>i meta. (i, meta) \<in> set ms \<Longrightarrow> mget (c_instanceMetadatas c) i = Some meta" "mwf ms"
  shows "ip_ok (foldl (forget_metadata ids) c ms) \<and>
    (\<forall>i. mget (c_instanceMetadatas (foldl (forget_metadata ids) c ms)) i =
      (if i \<in> set (mkeys ms) \<and> i \<notin> set ids then None else mget (c_instanceMetadatas c) i))"
  using assms
proof (induction ms arbitrary: c)
  case (Cons x ms)
  obtain i meta where x: "x = (i, meta)" by (cases x)
  have i: "mget (c_instanceMetadatas c) i = Some meta" using Cons.prems(2) x by simp
  note f = ip_ok_forget [OF Cons.prems(1) i, of ids]
  have "mget (c_instanceMetadatas (forget_metadata ids c (i, meta))) j = Some mj" if "(j, mj) \<in> set ms" for j mj
    using Cons.prems(2,3) that x f(2) by (auto simp: rev_image_eqI)
  from Cons.IH [OF f(1) this] Cons.prems(3) x f(2) show ?case by auto
qed simp

lemma move_ip_spec:
  assumes "\<And>ip j. at_ip ip j c \<longleftrightarrow> ip \<noteq> [] \<and> ip_of j c = ip" "ip_of i c = oldIP"
  shows "c_instanceMetadatas (move_ip i oldIP newIP c) = c_instanceMetadatas c"
    "ip_of j (move_ip i oldIP newIP c) = (if j = i then newIP else ip_of j c)"
    "at_ip ip j (move_ip i oldIP newIP c) \<longleftrightarrow> ip \<noteq> [] \<and> ip_of j (move_ip i oldIP newIP c) = ip"
  using assms by (auto simp: move_ip_def Let_def ip_of_def go_map_simps split: option.splits)

lemma write_metadata_fields [simp]:
  "c_instanceMetadatas (write_metadata i ref m c) = mput i (Some (ref, m)) (c_instanceMetadatas c)"
  "ip_of j (write_metadata i ref m c) = ip_of j c"
  "at_ip ip j (write_metadata i ref m c) = at_ip ip j c"
  by (simp_all add: write_metadata_def ip_of_def at_ip_def)

lemma ip_ok_store:
  assumes "ip_ok c" "snd (unmarshal b)"
  shows "ip_ok (store_metadata unmarshal i (Some b) c) \<and>
    (\<exists>ref. mget (c_instanceMetadatas (store_metadata unmarshal i (Some b) c)) =
      (mget (c_instanceMetadatas c))(i \<mapsto> Some (ref, fst (unmarshal b))))"
proof -
  obtain m where m: "unmarshal b = (m, True)" using assms(2) by (metis prod.collapse)
  obtain ref d where d: "store_metadata unmarshal i (Some b) c = move_ip i (ip_of i c) (md_IpKvs m) (write_metadata i ref m d)"
    "c_instanceMetadatas d = c_instanceMetadatas c" "\<And>j. ip_of j d = ip_of j c" "\<And>ip j. at_ip ip j d = at_ip ip j c"
  proof (cases "mget (c_instanceMetadatas c) i")
    case None
    then have "ip_of i c = []" using assms(1) by (simp add: ip_ok_def meta_ip_def)
    with None m that [of "c_nextRef c" "c\<lparr>c_nextRef := Suc (c_nextRef c)\<rparr>"] show ?thesis
      by (simp add: store_metadata_def ip_of_def)
  next
    case (Some meta)
    then obtain r n where "meta = Some (r, n)" using assms(1) by (cases meta) (auto simp: ip_ok_def)
    moreover from this Some have "ip_of i c = md_IpKvs n" using assms(1) by (simp add: ip_ok_def meta_ip_def)
    ultimately show ?thesis using Some m that [of r c] by (simp add: store_metadata_def)
  qed
  let ?w = "write_metadata i ref m d" and ?s = "store_metadata unmarshal i (Some b) c"
  have at: "at_ip ip j ?w \<longleftrightarrow> ip \<noteq> [] \<and> ip_of j ?w = ip" for ip j
    using assms(1) d by (simp add: ip_ok_def)
  have oldIP: "ip_of i ?w = ip_of i c" using d by simp
  note mv = move_ip_spec [OF at oldIP, where newIP = "md_IpKvs m"]
  have metas: "c_instanceMetadatas ?s = mput i (Some (ref, m)) (c_instanceMetadatas c)"
    using d mv(1) by simp
  have "meta_ip j ?s = (if j = i then md_IpKvs m else meta_ip j c)" for j
    by (simp add: metas meta_ip_def go_map_simps)
  moreover have "ip_of j ?s = (if j = i then md_IpKvs m else ip_of j c)" for j
    using d mv(2) [where j = j] by simp
  ultimately have "ip_ok ?s"
    using assms(1) d(1) mv(3) metas by (auto simp: ip_ok_def go_map_simps)
  then show ?thesis using metas m by (auto simp: go_map_simps fun_eq_iff)
qed

lemma store_metadatas_spec:
  assumes "ip_ok c" "\<forall>b\<in>set bs. snd (unmarshal b)" "length bs = length ids" "distinct ids"
  shows "\<exists>c'. store_metadatas unmarshal ids (map Some bs) c = (c', False) \<and> ip_ok c' \<and>
    (\<forall>i. meta_ip i c' = (case map_of (zip ids bs) i of Some b \<Rightarrow> md_IpKvs (fst (unmarshal b)) | None \<Rightarrow> meta_ip i c))"
  using assms
proof (induction bs arbitrary: ids c)
  case (Cons b bs)
  obtain j js where ids: "ids = j # js" using Cons.prems(3) by (cases ids) auto
  from ip_ok_store [OF Cons.prems(1), of unmarshal b j] Cons.prems(2) obtain ref where
    s: "ip_ok (store_metadata unmarshal j (Some b) c)"
       "mget (c_instanceMetadatas (store_metadata unmarshal j (Some b) c)) =
          (mget (c_instanceMetadatas c))(j \<mapsto> Some (ref, fst (unmarshal b)))" by auto
  have "j \<notin> set js" using Cons.prems(4) ids by simp
  then have "map_of (zip js bs) j = None" by (auto simp: map_of_eq_None_iff dest: set_zip_leftD)
  moreover have "meta_ip i (store_metadata unmarshal j (Some b) c) =
      (if i = j then md_IpKvs (fst (unmarshal b)) else meta_ip i c)" for i
    by (simp add: meta_ip_def s(2))
  moreover obtain c' where "store_metadatas unmarshal js (map Some bs) (store_metadata unmarshal j (Some b) c) = (c', False)"
    "ip_ok c'" "\<And>i. meta_ip i c' = (case map_of (zip js bs) i of Some b \<Rightarrow> md_IpKvs (fst (unmarshal b))
       | None \<Rightarrow> meta_ip i (store_metadata unmarshal j (Some b) c))"
    using Cons.IH [OF s(1), of js] Cons.prems ids by auto
  ultimately show ?case by (auto simp: ids split: option.splits)
qed simp

lemma set_GetInstanceIDsByIPs: "set (GetInstanceIDsByIPs ips c) = {i. \<exists>ip\<in>set ips. at_ip ip i c}"
proof -
  have "set (foldl (\<lambda>ids ip. case mget (c_ipToInstanceIDs c) ip of None \<Rightarrow> ids | Some s \<Rightarrow> List.union s ids) acc ips) =
      set acc \<union> {i. \<exists>ip\<in>set ips. at_ip ip i c}" for acc
    by (induction ips arbitrary: acc) (auto simp: at_ip_def split: option.splits)
  then show ?thesis by (simp add: GetInstanceIDsByIPs_def)
qed

lemma trim_metadata_prefix: "trim_prefix (LlumnixInstanceMetadataPrefix @ i) LlumnixInstanceMetadataPrefix = i"
  by (simp add: trim_prefix_def has_prefix_def)

lemma refreshInstanceMetadata_spec:
  assumes "ip_ok c" "distinct ids" "length bs = length ids" "\<forall>b\<in>set bs. snd (unmarshal b)"
  shows "\<exists>c'. refreshInstanceMetadata unmarshal (Some (map (\<lambda>i. LlumnixInstanceMetadataPrefix @ i) ids))
        (Some (map Some bs)) c = (c', False) \<and> ip_ok c' \<and>
    (\<forall>i. meta_ip i c' = (case map_of (zip ids bs) i of Some b \<Rightarrow> md_IpKvs (fst (unmarshal b)) | None \<Rightarrow> []))"
proof -
  let ?a = "c\<lparr>c_isAlive := True, c_instanceIDs := ids\<rparr>"
  let ?f = "foldl (forget_metadata ids) ?a (c_instanceMetadatas ?a)"
  have a: "ip_ok ?a" using assms(1) by (simp add: ip_ok_def ip_of_def meta_ip_def at_ip_def)
  then have wf: "mwf (c_instanceMetadatas ?a)" by (simp add: ip_ok_def)
  have f: "ip_ok ?f" "mget (c_instanceMetadatas ?f) i =
      (if i \<in> set (mkeys (c_instanceMetadatas ?a)) \<and> i \<notin> set ids then None else mget (c_instanceMetadatas ?a) i)" for i
    using ip_ok_forget_fold [OF a _ wf, of ids] wf by (auto simp: mget_iff_mem)
  have "meta_ip i ?f = []" if "i \<notin> set ids" for i
    using f(2) [of i] that mget_None_iff [of "c_instanceMetadatas ?a" i] by (auto simp: meta_ip_def)
  moreover have "map_of (zip ids bs) i = None \<Longrightarrow> i \<notin> set ids" for i
    using assms(3) by (metis map_of_zip_is_None)
  moreover obtain c' where "store_metadatas unmarshal ids (map Some bs) ?f = (c', False)" "ip_ok c'"
    "\<And>i. meta_ip i c' = (case map_of (zip ids bs) i of Some b \<Rightarrow> md_IpKvs (fst (unmarshal b)) | None \<Rightarrow> meta_ip i ?f)"
    using store_metadatas_spec [OF f(1) assms(4,3,2)] by auto
  ultimately show ?thesis
    by (auto simp: refreshInstanceMetadata_def Let_def o_def trim_metadata_prefix split: option.splits)
qed

text \<open>After a refresh in which the store answered every key with a decodable value, looking up
  addresses returns exactly the instances whose metadata carries one of them, and the refresh does not
  panic; the index stays exact for the next refresh.
\<close>

theorem ip_lookup_exact:
  assumes "ip_ok c" "distinct ids" "length bs = length ids" "\<forall>b\<in>set bs. snd (unmarshal b)"
  shows "\<exists>c'. refreshInstanceMetadata unmarshal (Some (map (\<lambda>i. LlumnixInstanceMetadataPrefix @ i) ids))
        (Some (map Some bs)) c = (c', False) \<and> ip_ok c' \<and>
    (\<forall>ips. set (GetInstanceIDsByIPs ips c') =
      {i. \<exists>b. (i, b) \<in> set (zip ids bs) \<and> md_IpKvs (fst (unmarshal b)) \<noteq> [] \<and>
          md_IpKvs (fst (unmarshal b)) \<in> set ips})"
proof -
  obtain c' where c': "refreshInstanceMetadata unmarshal (Some (map (\<lambda>i. LlumnixInstanceMetadataPrefix @ i) ids))
      (Some (map Some bs)) c = (c', False)" "ip_ok c'"
    "\<And>i. meta_ip i c' = (case map_of (zip ids bs) i of Some b \<Rightarrow> md_IpKvs (fst (unmarshal b)) | None \<Rightarrow> [])"
    using refreshInstanceMetadata_spec [OF assms] by auto
  have wf: "mwf (zip ids bs)" using assms(2,3) by simp
  have "at_ip ip i c' \<longleftrightarrow> (\<exists>b. (i, b) \<in> set (zip ids bs) \<and> md_IpKvs (fst (unmarshal b)) = ip \<and> ip \<noteq> [])" for ip i
  proof -
    have "at_ip ip i c' \<longleftrightarrow> ip \<noteq> [] \<and> meta_ip i c' = ip" using c'(2) by (simp add: ip_ok_def)
    then show ?thesis
      unfolding c'(3) mget_iff_mem [OF wf, symmetric] by (auto split: option.splits)
  qed
  then have "\<forall>ips. set (GetInstanceIDsByIPs ips c') =
      {i. \<exists>b. (i, b) \<in> set (zip ids bs) \<and> md_IpKvs (fst (unmarshal b)) \<noteq> [] \<and>
          md_IpKvs (fst (unmarshal b)) \<in> set ips}"
    by (auto simp: set_GetInstanceIDsByIPs)
  with c'(1,2) show ?thesis by blast
qed

definition ex_client :: CMSReadClient where
  "ex_client = NewCMSReadClient True True 60 False 0 False"

definition ex_meta :: "string \<Rightarrow> InferType \<Rightarrow> string \<Rightarrow> InstanceMetadata" where
  "ex_meta n t ip = empty_metadata\<lparr>md_InstanceId := n, md_InstanceType := t, md_IpKvs := ip\<rparr>"

theorem ip_lookup_exact_witness:
  "\<exists>c'. refreshInstanceMetadata (\<lambda>m. (m, True))
      (Some (map (\<lambda>i. LlumnixInstanceMetadataPrefix @ i) [''i'', ''j'']))
      (Some (map Some [ex_meta ''i'' InferTypePrefill ''1.1'', ex_meta ''j'' InferTypeDecode ''1.2''])) ex_client
      = (c', False) \<and> set (GetInstanceIDsByIPs [''1.2'', ''1.3''] c') = {''j''}"
proof -
  have "ip_ok ex_client"
    by (auto simp: ex_client_def NewCMSReadClient_def ip_ok_def ip_of_def meta_ip_def at_ip_def)
  from ip_lookup_exact [OF this, of "[''i'', ''j'']"
      "[ex_meta ''i'' InferTypePrefill ''1.1'', ex_meta ''j'' InferTypeDecode ''1.2'']" "\<lambda>m. (m, True)"]
  obtain c' where c': "refreshInstanceMetadata (\<lambda>m. (m, True))
      (Some (map (\<lambda>i. LlumnixInstanceMetadataPrefix @ i) [''i'', ''j'']))
      (Some (map Some [ex_meta ''i'' InferTypePrefill ''1.1'', ex_meta ''j'' InferTypeDecode ''1.2''])) ex_client
      = (c', False)"
    "\<And>ips. set (GetInstanceIDsByIPs ips c') =
      {i. \<exists>b. (i, b) \<in> {(''i'', ex_meta ''i'' InferTypePrefill ''1.1''), (''j'', ex_meta ''j'' InferTypeDecode ''1.2'')} \<and>
         md_IpKvs b \<noteq> [] \<and> md_IpKvs b \<in> set ips}" by auto
  have "set (GetInstanceIDsByIPs [''1.2'', ''1.3''] c') = {''j''}"
    unfolding c'(2) by (auto simp: ex_meta_def)
  with c'(1) show ?thesis by blast
qed

subsection \<open>Status table, view table and groups agree\<close>

definition in_group :: "InferType \<Rightarrow> string \<Rightarrow> CMSReadClient \<Rightarrow> bool" where
  "in_group t i c \<longleftrightarrow> (\<exists>ids. mget (c_groupedInstanceViews c) t = Some ids \<and> i \<in> set ids)"

definition groups_ok :: "(InferType, string list) gmap \<Rightarrow> bool" where
  "groups_ok g \<longleftrightarrow> mwf g \<and> (\<forall>ids\<in>ran (mget g). ids \<noteq> [] \<and> distinct ids)"

definition views_ok :: "CMSReadClient \<Rightarrow> bool" where
  "views_ok c \<longleftrightarrow>
     groups_ok (c_groupedInstanceViews c) \<and>
     (\<forall>i. mget (c_instanceStatuses c) i = map_option cv_Status (mget (c_instanceViews c) i)) \<and>
     (\<forall>t i. in_group t i c \<longleftrightarrow> (\<exists>v. mget (c_instanceViews c) i = Some v \<and> cv_GetInferType v = t))"

lemma views_okD:
  assumes "views_ok c"
  shows "groups_ok (c_groupedInstanceViews c)"
    "mget (c_instanceStatuses c) i = map_option cv_Status (mget (c_instanceViews c) i)"
    "in_group t i c \<longleftrightarrow> (\<exists>v. mget (c_instanceViews c) i = Some v \<and> cv_GetInferType v = t)"
  using assms unfolding views_ok_def by blast+

lemma views_okI:
  assumes "groups_ok (c_groupedInstanceViews c)"
    "\<And>i. mget (c_instanceStatuses c) i = map_option cv_Status (mget (c_instanceViews c) i)"
    "\<And>t i. in_group t i c \<longleftrightarrow> (\<exists>v. mget (c_instanceViews c) i = Some v \<and> cv_GetInferType v = t)"
  shows "views_ok c"
  using assms unfolding views_ok_def by blast

definition metas_ok :: "CMSReadClient \<Rightarrow> bool" where
  "metas_ok c \<longleftrightarrow> (\<forall>i. mget (c_instanceMetadatas c) i \<noteq> Some None)"

lemma mget_filter_map_ran:
  "mwf g \<Longrightarrow> mget (filter (\<lambda>(_, ids). ids \<noteq> []) (map_ran f g)) t =
     (case mget g t of None \<Rightarrow> None | Some ids \<Rightarrow> if f t ids = [] then None else Some (f t ids))"
proof (induction g arbitrary: t)
  case (Cons x g)
  obtain k ids where x: "x = (k, ids)" by (cases x)
  with Cons have "mget g k = None" by (simp add: mget_None_iff)
  then have "mget (filter (\<lambda>(_, ids). ids \<noteq> []) (map_ran f g)) k = None" using Cons x by simp
  with Cons x show ?case by (auto simp: map_ran_def)
qed (simp add: map_ran_def)

lemma groups_okD: "groups_ok g \<Longrightarrow> mget g t = Some ids \<Longrightarrow> ids \<noteq> [] \<and> distinct ids"
  unfolding groups_ok_def ran_def by blast

lemma groups_okI:
  "mwf g \<Longrightarrow> (\<And>t ids. mget g t = Some ids \<Longrightarrow> ids \<noteq> [] \<and> distinct ids) \<Longrightarrow> groups_ok g"
  unfolding groups_ok_def ran_def by blast

lemma drop_from_groups_spec:
  assumes "groups_ok g"
  shows "groups_ok (drop_from_groups i g)"
    "mget (drop_from_groups i g) t =
       (case mget g t of None \<Rightarrow> None | Some ids \<Rightarrow> if removeAll i ids = [] then None else Some (removeAll i ids))"
proof -
  have wf: "mwf g" using assms by (simp add: groups_ok_def)
  show lookup: "mget (drop_from_groups i g) t =
       (case mget g t of None \<Rightarrow> None | Some ids \<Rightarrow> if removeAll i ids = [] then None else Some (removeAll i ids))" for t
    using wf by (simp add: drop_from_groups_def mget_filter_map_ran)
  have "mwf (drop_from_groups i g)"
    using mwf_map_ran [OF wf] by (simp add: drop_from_groups_def distinct_map_filter)
  moreover have "ids \<noteq> [] \<and> distinct ids" if ids: "mget (drop_from_groups i g) t = Some ids" for t ids
  proof -
    obtain old where old: "mget g t = Some old" "ids = removeAll i old" "removeAll i old \<noteq> []"
      using ids by (auto simp: lookup split: option.splits if_splits)
    then have "distinct old" using groups_okD [OF assms] by blast
    with old show ?thesis by (simp add: distinct_removeAll)
  qed
  ultimately show "groups_ok (drop_from_groups i g)" by (rule groups_okI)
qed

lemma add_to_group_ok:
  assumes "groups_ok g"
  shows "groups_ok (add_to_group t i g)"
proof (rule groups_okI)
  show "mwf (add_to_group t i g)" using assms by (simp add: groups_ok_def add_to_group_def go_map_simps)
  fix u ids assume u: "mget (add_to_group t i g) u = Some ids"
  show "ids \<noteq> [] \<and> distinct ids"
  proof (cases "u = t")
    case True
    then have "ids = List.insert i (case mget g t of None \<Rightarrow> [] | Some ids \<Rightarrow> ids)"
      using u by (simp add: add_to_group_def go_map_simps)
    moreover have "distinct (case mget g t of None \<Rightarrow> [] | Some ids \<Rightarrow> ids)"
      using groups_okD [OF assms, of t] by (cases "mget g t") simp_all
    ultimately show ?thesis by (metis distinct_insert set_empty2 insert_not_empty List.set_insert)
  next
    case False
    then have "mget g u = Some ids" using u by (simp add: add_to_group_def go_map_simps)
    then show ?thesis by (rule groups_okD [OF assms])
  qed
qed

lemma add_to_group_mem:
  "(\<exists>ids. mget (add_to_group t i g) u = Some ids \<and> j \<in> set ids) \<longleftrightarrow>
   (\<exists>ids. mget g u = Some ids \<and> j \<in> set ids) \<or> j = i \<and> u = t"
  by (cases "mget g t"; cases "u = t") (auto simp: add_to_group_def go_map_simps)

lemma views_ok_forget:
  assumes "views_ok c"
  shows "views_ok (forget_view i c)"
proof (rule views_okI)
  note g = drop_from_groups_spec [OF views_okD(1) [OF assms], of i]
  show "groups_ok (c_groupedInstanceViews (forget_view i c))" using g(1) by (simp add: forget_view_def)
  show "mget (c_instanceStatuses (forget_view i c)) j =
      map_option cv_Status (mget (c_instanceViews (forget_view i c)) j)" for j
    using views_okD(2) [OF assms, of j] by (simp add: forget_view_def go_map_simps)
  have "in_group t j (forget_view i c) \<longleftrightarrow> in_group t j c \<and> j \<noteq> i" for t j
    by (auto simp: in_group_def forget_view_def g(2) removeAll_filter_not_eq
        filter_empty_conv split: option.splits)
  then show "in_group t j (forget_view i c) \<longleftrightarrow>
      (\<exists>v. mget (c_instanceViews (forget_view i c)) j = Some v \<and> cv_GetInferType v = t)" for t j
    using views_okD(3) [OF assms, of t j] by (simp add: forget_view_def go_map_simps)
qed

lemma views_ok_reserved [simp]:
  "views_ok (c\<lparr>c_reservedPrefillInstance := x\<rparr>) = views_ok c"
  "views_ok (c\<lparr>c_reservedDecodeInstance := x\<rparr>) = views_ok c"
  "views_ok (c\<lparr>c_editor := e\<rparr>) = views_ok c"
  "views_ok (c\<lparr>c_isAlive := b\<rparr>) = views_ok c"
  "views_ok (c\<lparr>c_predictorSamples := ps\<rparr>) = views_ok c"
  "views_ok (c\<lparr>c_predictorFitted := b\<rparr>) = views_ok c"
  by (simp_all add: views_ok_def in_group_def)

lemma views_ok_forget_status:
  "views_ok c \<Longrightarrow> views_ok (forget_status c i)"
  "c_instanceMetadatas (forget_status c i) = c_instanceMetadatas c"
  "c_instanceIDs (forget_status c i) = c_instanceIDs c"
  by (auto simp: forget_status_def Let_def views_ok_forget) (simp_all add: forget_view_def)

lemma views_ok_forget_statuses:
  "views_ok c \<Longrightarrow> views_ok (foldl forget_status c is)"
  "c_instanceMetadatas (foldl forget_status c is) = c_instanceMetadatas c"
  "c_instanceIDs (foldl forget_status c is) = c_instanceIDs c"
  by (induction "is" arbitrary: c) (simp_all add: views_ok_forget_status)

lemma views_ok_create:
  assumes "views_ok c" "mget (c_instanceStatuses c) i = None"
    "mget (c_instanceMetadatas c) i = Some (Some (ref, m))"
  shows "snd (create_view i c) = False" "views_ok (fst (create_view i c))"
    "mget (c_instanceStatuses (fst (create_view i c))) i = Some initial_status"
    "c_instanceMetadatas (fst (create_view i c)) = c_instanceMetadatas c"
proof -
  have none: "mget (c_instanceViews c) i = None"
    using views_okD(2) [OF assms(1), of i] assms(2) by simp
  let ?c = "fst (create_view i c)"
  have c: "c_instanceViews ?c = mput i (new_view ref m) (c_instanceViews c)"
    "c_instanceStatuses ?c = mput i initial_status (c_instanceStatuses c)"
    "c_groupedInstanceViews ?c = add_to_group (md_InstanceType m) i (c_groupedInstanceViews c)"
    using assms(3) by (simp_all add: create_view_def Let_def)
  have new: "cv_Status (new_view ref m) = initial_status" "cv_GetInferType (new_view ref m) = md_InstanceType m"
    by (simp_all add: new_view_def cv_GetInferType_def)
  show "views_ok ?c"
  proof (rule views_okI)
    show "groups_ok (c_groupedInstanceViews ?c)"
      using views_okD(1) [OF assms(1)] by (simp add: c add_to_group_ok)
    show "mget (c_instanceStatuses ?c) j = map_option cv_Status (mget (c_instanceViews ?c) j)" for j
      using views_okD(2) [OF assms(1), of j] new by (simp add: c go_map_simps)
    have "in_group t j ?c \<longleftrightarrow> in_group t j c \<or> j = i \<and> t = md_InstanceType m" for t j
      by (simp add: in_group_def c add_to_group_mem)
    then show "in_group t j ?c \<longleftrightarrow> (\<exists>v. mget (c_instanceViews ?c) j = Some v \<and> cv_GetInferType v = t)" for t j
      using views_okD(3) [OF assms(1), of t j] none new by (auto simp: c go_map_simps)
  qed
  show "snd (create_view i c) = False" "mget (c_instanceStatuses ?c) i = Some initial_status"
    "c_instanceMetadatas ?c = c_instanceMetadatas c"
    using assms(3) by (simp_all add: create_view_def Let_def go_map_simps)
qed

text \<open>Replacing views by views of the same instance, with their statuses.\<close>

lemma views_ok_replace:
  assumes "views_ok c" "c_groupedInstanceViews d = c_groupedInstanceViews c"
    "\<And>j. mget (c_instanceStatuses d) j = map_option cv_Status (mget (c_instanceViews d) j)"
    "\<And>j. map_option cv_Instance (mget (c_instanceViews d) j) = map_option cv_Instance (mget (c_instanceViews c) j)"
  shows "views_ok d"
proof (rule views_okI)
  show "in_group t j d \<longleftrightarrow> (\<exists>v. mget (c_instanceViews d) j = Some v \<and> cv_GetInferType v = t)" for t j
    using views_okD(3) [OF assms(1), of t j] assms(2) assms(4) [of j]
    by (cases "mget (c_instanceViews d) j"; cases "mget (c_instanceViews c) j")
      (auto simp: in_group_def cv_GetInferType_def)
  show "groups_ok (c_groupedInstanceViews d)" using views_okD(1) [OF assms(1)] by (simp add: assms(2))
qed (rule assms(3))

lemma views_ok_write:
  assumes "views_ok c" "mget (c_instanceViews c) i = Some v" "cv_Instance v' = cv_Instance v"
  shows "views_ok (write_view i v' c)"
  using assms(2,3) views_okD(2) [OF assms(1)]
  by (intro views_ok_replace [OF assms(1)]) (simp_all add: write_view_def go_map_simps)

lemma views_ok_write_status:
  assumes "views_ok c" "mget (c_instanceStatuses c) i \<noteq> None"
  shows "views_ok (write_status i st c)" "\<exists>v. mget (c_instanceViews (write_status i st c)) i = Some v"
proof -
  obtain v where v: "mget (c_instanceViews c) i = Some v"
    using assms(2) views_okD(2) [OF assms(1), of i] by auto
  then show "\<exists>v. mget (c_instanceViews (write_status i st c)) i = Some v"
    by (simp add: write_status_def go_map_simps)
  show "views_ok (write_status i st c)"
    using v views_okD(2) [OF assms(1)]
    by (intro views_ok_replace [OF assms(1)])
      (auto simp: write_status_def go_map_simps option.map_comp o_def if_distrib cong: if_cong)
qed

text \<open>Account operations leave the instance of a view and the fields other than the load alone.\<close>

lemma delete_frame:
  "cv_Instance (fst (deleteRequestLocalAccount i r b s)) = cv_Instance (fst s)"
  "cv_Status (fst (deleteRequestLocalAccount i r b s)) = cv_Status (fst s)"
  by (simp_all add: deleteRequestLocalAccount_def Let_def split_beta split: option.splits)

lemma stage_frames:
  "cv_Instance (fst (snd (mark_found recent i r la s))) = cv_Instance (fst s)"
  "cv_Status (fst (snd (mark_found recent i r la s))) = cv_Status (fst s)"
  "cv_Instance (fst (drop_found waiting i r la s)) = cv_Instance (fst s)"
  "cv_Status (fst (drop_found waiting i r la s)) = cv_Status (fst s)"
  "cv_Instance (fst (expire_entry clock waiting i r la s)) = cv_Instance (fst s)"
  "cv_Status (fst (expire_entry clock waiting i r la s)) = cv_Status (fst s)"
  by (simp_all add: mark_found_def drop_found_def expire_entry_def delete_frame Let_def set_entry_def drop_entry_def)

lemma update_entry_frame:
  "cv_Instance (fst (update_entry clock recent waiting i s r)) = cv_Instance (fst s)"
  "cv_Status (fst (update_entry clock recent waiting i s r)) = cv_Status (fst s)"
  by (simp_all add: update_entry_def split_beta stage_frames split: option.splits)

lemma update_foldl_frame:
  "cv_Instance (fst (foldl (update_entry clock recent waiting i) s rs)) = cv_Instance (fst s)"
  "cv_Status (fst (foldl (update_entry clock recent waiting i) s rs)) = cv_Status (fst s)"
  by (induction rs arbitrary: s) (simp_all add: update_entry_frame)

lemma update_account_frame:
  "cv_Instance (fst (updateInstanceStatusLocalAccount clock i s)) = cv_Instance (fst s)"
  "st_TimestampMs (cv_Status (fst (updateInstanceStatusLocalAccount clock i s))) = st_TimestampMs (cv_Status (fst s))"
  by (auto simp: updateInstanceStatusLocalAccount_def Let_def split_beta update_foldl_frame)

lemma addSample_frame [simp]:
  "views_ok (addSampleToTTFTPredictor v c) = views_ok c"
  "c_instanceMetadatas (addSampleToTTFTPredictor v c) = c_instanceMetadatas c"
  "c_instanceStatuses (addSampleToTTFTPredictor v c) = c_instanceStatuses c"
  by (simp_all add: addSampleToTTFTPredictor_def)

lemma settle_report_ok:
  assumes "views_ok c" "mget (c_instanceViews c) i = Some v"
  shows "views_ok (fst (settle_report clock i us up c))" "\<not> snd (settle_report clock i us up c)"
    "c_instanceMetadatas (fst (settle_report clock i us up c)) = c_instanceMetadatas c"
proof -
  have "views_ok (write_view i (fst (updateInstanceStatusLocalAccount clock i (v, e))) c)"
    "views_ok (write_view i v c)" for e
    using views_ok_write [OF assms] by (simp_all add: update_account_frame)
  then show "views_ok (fst (settle_report clock i us up c))"
    using assms(2) by (simp add: settle_report_def Let_def split_beta)
  show "\<not> snd (settle_report clock i us up c)"
    "c_instanceMetadatas (fst (settle_report clock i us up c)) = c_instanceMetadatas c"
    using assms(2) by (simp_all add: settle_report_def Let_def split_beta write_view_def)
qed

lemma settle_report_status:
  assumes "mget (c_instanceViews c) i = Some v"
  shows "\<exists>c' st. settle_report clock i us up c = (c', False) \<and>
    mget (c_instanceStatuses c') = (mget (c_instanceStatuses c))(i \<mapsto> st) \<and>
    st_TimestampMs st = st_TimestampMs (cv_Status v)"
proof -
  have "st_TimestampMs (cv_Status (fst (updateInstanceStatusLocalAccount clock i (v, c_editor c)))) =
      st_TimestampMs (cv_Status v)" by (simp add: update_account_frame)
  with assms show ?thesis
    by (auto simp: settle_report_def Let_def split_beta write_view_def go_map_simps fun_eq_iff)
qed

lemma apply_report_ok:
  assumes "views_ok c" "mget (c_instanceStatuses c) i \<noteq> None"
  shows "views_ok (fst (apply_report clock i buf c)) \<and> \<not> snd (apply_report clock i buf c) \<and>
    c_instanceMetadatas (fst (apply_report clock i buf c)) = c_instanceMetadatas c"
proof -
  let ?w = "write_status i (merge_report (the (mget (c_instanceStatuses c) i)) buf) c"
  obtain v where v: "mget (c_instanceViews ?w) i = Some v" using views_ok_write_status(2) [OF assms] by blast
  have "c_instanceMetadatas ?w = c_instanceMetadatas c" by (simp add: write_status_def)
  with settle_report_ok [OF views_ok_write_status(1) [OF assms] v] assms(1) show ?thesis
    by (simp add: apply_report_def Let_def)
qed

lemma refresh_entry_ok:
  assumes "views_ok c" "metas_ok c"
  shows "views_ok (fst (refresh_status_entry unmarshal clock i b c)) \<and>
    \<not> snd (refresh_status_entry unmarshal clock i b c) \<and>
    c_instanceMetadatas (fst (refresh_status_entry unmarshal clock i b c)) = c_instanceMetadatas c"
proof (cases "b = None \<or> mget (c_instanceMetadatas c) i = None")
  case True
  then show ?thesis
    using assms views_ok_forget [OF assms(1), of i]
    by (cases b) (auto simp: refresh_status_entry_def, simp add: forget_view_def)
next
  case False
  then obtain x ref m where b: "b = Some x" and m: "mget (c_instanceMetadatas c) i = Some (Some (ref, m))"
    using assms(2) by (auto simp: metas_ok_def) (metis option.exhaust surj_pair)
  show ?thesis
  proof (cases "mget (c_instanceStatuses c) i")
    case None
    note cr = views_ok_create [OF assms(1) None m]
    with cr b m None apply_report_ok [OF cr(2)] show ?thesis
      by (simp add: refresh_status_entry_def split_beta)
  next
    case (Some st)
    with b m apply_report_ok [OF assms(1)] show ?thesis
      by (simp add: refresh_status_entry_def)
  qed
qed

lemma refresh_statuses_ok:
  assumes "views_ok c" "metas_ok c" "length bs \<le> length ids"
  shows "views_ok (fst (refresh_statuses unmarshal clock ids bs c)) \<and>
    \<not> snd (refresh_statuses unmarshal clock ids bs c)"
  using assms
proof (induction unmarshal clock ids bs c rule: refresh_statuses.induct)
  case (3 unmarshal clock i ids b bs c)
  note ok = refresh_entry_ok [OF "3.prems"(1,2), of unmarshal clock i b]
  then obtain d where d: "refresh_status_entry unmarshal clock i b c = (d, False)"
    by (metis prod.collapse)
  with ok "3.prems" have "views_ok d" "metas_ok d" by (auto simp: metas_ok_def)
  with "3.IH" [OF d [symmetric] refl] "3.prems"(3) d show ?case by simp
qed simp_all

lemma reserve_ok:
  assumes "views_ok c" "mget (c_instanceStatuses c) i \<noteq> None"
  shows "\<not> snd (reserve t i c)" "views_ok (fst (reserve t i c))"
    "c_instanceStatuses (fst (reserve t i c)) = c_instanceStatuses c"
proof -
  obtain v where v: "mget (c_instanceViews c) i = Some v"
    using assms(2) views_okD(2) [OF assms(1), of i] by auto
  have "views_ok (c\<lparr>c_instanceViews := mput i (v\<lparr>cv_ReservedInferType := t\<rparr>) (c_instanceViews c)\<rparr>)"
    using v views_okD(2) [OF assms(1)] by (intro views_ok_replace [OF assms(1)]) (simp_all add: go_map_simps)
  moreover have "views_ok (c\<lparr>c_reservedDecodeInstance := i, c_instanceViews := w\<rparr>) = views_ok (c\<lparr>c_instanceViews := w\<rparr>)"
    "views_ok (c\<lparr>c_reservedPrefillInstance := i, c_instanceViews := w\<rparr>) = views_ok (c\<lparr>c_instanceViews := w\<rparr>)" for w
    by (simp_all add: views_ok_def in_group_def)
  ultimately show "views_ok (fst (reserve t i c))" using v by (auto simp: reserve_def Let_def)
  show "\<not> snd (reserve t i c)" "c_instanceStatuses (fst (reserve t i c)) = c_instanceStatuses c"
    using v by (simp_all add: reserve_def Let_def)
qed

lemma reserve_step_ok:
  assumes "views_ok c" "mget (c_instanceStatuses c) i \<noteq> None"
  shows "\<not> snd (reserve_step i st c)" "views_ok (fst (reserve_step i st c))"
    "c_instanceStatuses (fst (reserve_step i st c)) = c_instanceStatuses c"
  using assms reserve_ok [OF assms, of InferTypeDecode]
    reserve_ok [of "fst (reserve InferTypeDecode i c)" i InferTypePrefill] reserve_ok [OF assms, of InferTypePrefill]
  by (simp_all add: reserve_step_def Let_def split_beta)

lemma reserve_loop_ok:
  assumes "views_ok c" "\<forall>x\<in>set xs. mget (c_instanceStatuses c) (fst x) \<noteq> None"
    "snd ld = [] \<or> mget (c_instanceStatuses c) (snd ld) \<noteq> None"
    "snd lp = [] \<or> mget (c_instanceStatuses c) (snd lp) \<noteq> None"
  shows "case reserve_loop xs ld lp c of
      Inl (d, panic) \<Rightarrow> views_ok d \<and> \<not> panic \<and> c_instanceStatuses d = c_instanceStatuses c
    | Inr (d, dci, pri) \<Rightarrow> views_ok d \<and> c_instanceStatuses d = c_instanceStatuses c \<and>
        (dci = [] \<or> mget (c_instanceStatuses c) dci \<noteq> None) \<and> (pri = [] \<or> mget (c_instanceStatuses c) pri \<noteq> None)"
  using assms
proof (induction xs arbitrary: ld lp c)
  case (Cons x xs)
  obtain d where d: "reserve_step (fst x) (snd x) c = (d, False)" "views_ok d"
    "c_instanceStatuses d = c_instanceStatuses c"
    using reserve_step_ok [OF Cons.prems(1), of "fst x" "snd x"] Cons.prems(2)
    by (metis list.set_intros(1) prod.collapse)
  have "\<forall>y\<in>set xs. mget (c_instanceStatuses d) (fst y) \<noteq> None"
    "snd (least_decode (fst x) (snd x) ld) = [] \<or> mget (c_instanceStatuses d) (snd (least_decode (fst x) (snd x) ld)) \<noteq> None"
    "snd (least_prefill (fst x) (snd x) d lp) = [] \<or> mget (c_instanceStatuses d) (snd (least_prefill (fst x) (snd x) d lp)) \<noteq> None"
    using Cons.prems by (simp_all add: least_decode_def least_prefill_def d(3))
  note ih = Cons.IH [OF d(2) this, unfolded d(3)]
  show ?case
  proof (cases "both_reserved d")
    case True
    with d show ?thesis by simp
  next
    case False
    with d(1) ih show ?thesis by (simp only: reserve_loop.simps prod.case if_False simp_thms)
  qed
qed simp

lemma setReserved_ok:
  assumes "views_ok c"
  shows "views_ok (fst (setReservedInstance c)) \<and> \<not> snd (setReservedInstance c)"
proof -
  have "\<forall>x\<in>set (c_instanceStatuses c). mget (c_instanceStatuses c) (fst x) \<noteq> None"
    by (auto simp: map_of_eq_None_iff rev_image_eqI)
  note loop = reserve_loop_ok [OF assms this, of "(max_i32, [])" "(max_i32, [])"]
  show ?thesis
  proof (cases "reserve_loop (c_instanceStatuses c) (max_i32, []) (max_i32, []) c")
    case (Inl r)
    with loop assms show ?thesis by (auto simp: setReservedInstance_def split_beta)
  next
    case (Inr r)
    obtain d dci pri where r: "r = (d, dci, pri)" by (cases r)
    with loop Inr have d: "views_ok d" "dci = [] \<or> mget (c_instanceStatuses d) dci \<noteq> None"
      "pri = [] \<or> mget (c_instanceStatuses d) pri \<noteq> None" by auto
    have dec: "dci \<noteq> [] \<Longrightarrow> \<not> snd (reserve InferTypeDecode dci d) \<and> views_ok (fst (reserve InferTypeDecode dci d)) \<and>
        (pri = [] \<or> mget (c_instanceStatuses (fst (reserve InferTypeDecode dci d))) pri \<noteq> None)"
      using reserve_ok [OF d(1)] d(2,3) by auto
    show ?thesis
      using Inr r assms d dec reserve_ok [OF d(1), of pri InferTypePrefill]
        reserve_ok [of "fst (reserve InferTypeDecode dci d)" pri InferTypePrefill]
      by (auto simp: setReservedInstance_def split_beta Let_def)
  qed
qed

lemma refreshInstanceStatus_ok:
  assumes "views_ok c" "metas_ok c" "\<forall>ks vs. MGetBytes ks = Some vs \<longrightarrow> length vs \<le> length ks"
  shows "views_ok (fst (refreshInstanceStatus unmarshal clock MGetBytes c)) \<and>
    \<not> snd (refreshInstanceStatus unmarshal clock MGetBytes c)"
proof (cases "MGetBytes (map (\<lambda>i. LlumnixInstanceStatusPrefix @ i) (c_instanceIDs c))")
  case None
  then show ?thesis using assms(1) by (simp add: refreshInstanceStatus_def)
next
  case (Some vs)
  have len: "length vs \<le> length (c_instanceIDs c)" using assms(3) Some by fastforce
  let ?f = "foldl forget_status (c\<lparr>c_isAlive := True\<rparr>) (mkeys (c_instanceStatuses c))"
  have f: "views_ok ?f" "metas_ok ?f" "c_instanceIDs ?f = c_instanceIDs c"
    using assms(1,2) by (simp_all add: views_ok_forget_statuses metas_ok_def)
  obtain d where d: "refresh_statuses unmarshal clock (c_instanceIDs c) vs ?f = (d, False)" "views_ok d"
    using refresh_statuses_ok [OF f(1,2) len] by (metis prod.collapse)
  then have "views_ok (fitTTFTPredictor e) = views_ok e" for e by (simp add: fitTTFTPredictor_def)
  with Some d f(3) setReserved_ok [OF d(2)] show ?thesis
    by (simp add: refreshInstanceStatus_def Let_def split_beta)
qed

subsection \<open>Properties of the status refresh\<close>

text \<open>C15. A status refresh over a consistent cache, with no nil metadata, never panics and keeps the cache
  consistent: every instance with a status has a view holding that very status, and the grouped views
  list each instance exactly once, under the inference type of its view.
\<close>

theorem grouped_views_partition:
  assumes "views_ok c" "metas_ok c" "\<forall>ks vs. MGetBytes ks = Some vs \<longrightarrow> length vs \<le> length ks"
  shows "\<exists>c'. refreshInstanceStatus unmarshal clock MGetBytes c = (c', False) \<and> views_ok c' \<and>
    (\<forall>t i v. (\<exists>vs. mget (GetGroupedInstanceViews c') t = Some vs \<and> (i, v) \<in> set vs) \<longleftrightarrow>
      mget (c_instanceViews c') i = Some v \<and> cv_GetInferType v = t)"
proof -
  obtain c' where c': "refreshInstanceStatus unmarshal clock MGetBytes c = (c', False)" "views_ok c'"
    using refreshInstanceStatus_ok [OF assms] by (metis prod.collapse)
  have lookup: "mget (GetGroupedInstanceViews c') t =
      map_option (map (\<lambda>i. (i, the (mget (c_instanceViews c') i)))) (mget (c_groupedInstanceViews c') t)" for t
    by (simp add: GetGroupedInstanceViews_def map_of_map)
  have "(\<exists>vs. mget (GetGroupedInstanceViews c') t = Some vs \<and> (i, v) \<in> set vs) \<longleftrightarrow>
      in_group t i c' \<and> v = the (mget (c_instanceViews c') i)" for t i v
    by (auto simp: lookup in_group_def)
  then have "\<forall>t i v. (\<exists>vs. mget (GetGroupedInstanceViews c') t = Some vs \<and> (i, v) \<in> set vs) \<longleftrightarrow>
      mget (c_instanceViews c') i = Some v \<and> cv_GetInferType v = t"
    using views_okD(3) [OF c'(2)] by auto
  with c' show ?thesis by blast
qed

definition ex_status :: "string \<Rightarrow> int \<Rightarrow> InstanceStatus" where
  "ex_status n ts = empty_status\<lparr>st_InstanceId := n, st_Schedulable := True, st_TimestampMs := word_of_int ts,
     st_UpdateId := 1, st_NumTotalGpuTokens := 1000\<rparr>"

definition ex_client2 :: CMSReadClient where
  "ex_client2 = fst (refreshInstanceMetadata (\<lambda>m. (m, True))
      (Some (map (\<lambda>i. LlumnixInstanceMetadataPrefix @ i) [''i'', ''j'']))
      (Some (map Some [ex_meta ''i'' InferTypePrefill ''1.1'', ex_meta ''j'' InferTypeDecode ''1.2''])) ex_client)"

lemma ex_client2_ok: "views_ok ex_client2" "metas_ok ex_client2"
proof -
  have "c_groupedInstanceViews ex_client2 = []" "c_instanceViews ex_client2 = []" "c_instanceStatuses ex_client2 = []"
    by code_simp+
  then show "views_ok ex_client2" by (simp add: views_ok_def in_group_def groups_ok_def)
  have "list_all (\<lambda>(i, m). case m of None \<Rightarrow> False | Some _ \<Rightarrow> True) (c_instanceMetadatas ex_client2)" by code_simp
  then show "metas_ok ex_client2" by (auto simp: metas_ok_def list_all_iff dest!: map_of_SomeD)
qed

theorem grouped_views_partition_witness:
  "\<exists>c'. refreshInstanceStatus (\<lambda>s. (s, True)) (\<lambda>_. 0)
      (\<lambda>ks. if length ks = 2 then Some [Some (ex_status ''i'' 5), Some (ex_status ''j'' 6)] else None) ex_client2 = (c', False) \<and>
     views_ok c' \<and> mkeys (c_groupedInstanceViews c') = [InferTypePrefill, InferTypeDecode]"
proof -
  let ?get = "\<lambda>ks :: string list. if length ks = 2 then Some [Some (ex_status ''i'' 5), Some (ex_status ''j'' 6)] else None"
  have "\<forall>ks vs. ?get ks = Some vs \<longrightarrow> length vs \<le> length ks" by simp
  from grouped_views_partition [OF ex_client2_ok this, where unmarshal = "\<lambda>s. (s, True)" and clock = "\<lambda>_. 0"]
  obtain c' where "refreshInstanceStatus (\<lambda>s. (s, True)) (\<lambda>_. 0) ?get ex_client2 = (c', False)" "views_ok c'"
    by (elim exE conjE) (rule that)
  moreover have "mkeys (c_groupedInstanceViews (fst (refreshInstanceStatus (\<lambda>s. (s, True)) (\<lambda>_. 0) ?get ex_client2))) =
      [InferTypePrefill, InferTypeDecode]" by code_simp
  ultimately show ?thesis by auto
qed

text \<open>A report that is not newer than the cached status of an instance changes nothing; a newer one is
  taken over, with the timestamp of the report, and touches no other instance's status.
\<close>

theorem report_taken_iff_newer:
  assumes "views_ok c" "mget (c_instanceStatuses c) i = Some cur"
  shows "(sint (st_TimestampMs buf) \<le> sint (st_TimestampMs cur) \<longrightarrow> apply_report clock i buf c = (c, False)) \<and>
    (sint (st_TimestampMs cur) < sint (st_TimestampMs buf) \<longrightarrow>
      (\<exists>c' st. apply_report clock i buf c = (c', False) \<and> mget (c_instanceStatuses c') i = Some st \<and>
        st_TimestampMs st = st_TimestampMs buf \<and>
        (\<forall>j. j \<noteq> i \<longrightarrow> mget (c_instanceStatuses c') j = mget (c_instanceStatuses c) j)))"
proof -
  let ?w = "write_status i (merge_report cur buf) c"
  have s: "mget (c_instanceStatuses c) i \<noteq> None" using assms(2) by simp
  obtain v where v: "mget (c_instanceViews ?w) i = Some v" using views_ok_write_status(2) [OF assms(1) s] by blast
  have "views_ok ?w" using views_ok_write_status(1) [OF assms(1) s] .
  from views_okD(2) [OF this, of i] v have st: "cv_Status v = merge_report cur buf"
    by (auto simp: write_status_def go_map_simps)
  have ts: "st_TimestampMs (merge_report cur buf) = st_TimestampMs buf" by (simp add: merge_report_def)
  have "mget (c_instanceStatuses ?w) = (mget (c_instanceStatuses c))(i \<mapsto> merge_report cur buf)"
    by (simp add: write_status_def go_map_simps fun_eq_iff)
  with settle_report_status [OF v, of clock] st ts
  have "\<exists>c' st. settle_report clock i us up ?w = (c', False) \<and> mget (c_instanceStatuses c') i = Some st \<and>
      st_TimestampMs st = st_TimestampMs buf \<and>
      (\<forall>j. j \<noteq> i \<longrightarrow> mget (c_instanceStatuses c') j = mget (c_instanceStatuses c) j)" for us up
    by (metis fun_upd_apply)
  with assms(2) show ?thesis by (simp add: apply_report_def Let_def)
qed

theorem report_taken_iff_newer_witness:
  "\<exists>cur c'. mget (c_instanceStatuses (fst (create_view ''i'' ex_client2))) ''i'' = Some cur \<and>
     apply_report (\<lambda>_. 0) ''i'' (ex_status ''i'' 7) (fst (create_view ''i'' ex_client2)) = (c', False)"
proof -
  have "(case mget (c_instanceMetadatas ex_client2) ''i'' of Some (Some _) \<Rightarrow> True | _ \<Rightarrow> False)"
    "mget (c_instanceStatuses ex_client2) ''i'' = None" by code_simp+
  then obtain ref m where m: "mget (c_instanceMetadatas ex_client2) ''i'' = Some (Some (ref, m))"
    "mget (c_instanceStatuses ex_client2) ''i'' = None"
    by (auto split: option.splits)
  note c = views_ok_create [OF ex_client2_ok(1) m(2,1)]
  have "sint (st_TimestampMs initial_status) < sint (st_TimestampMs (ex_status ''i'' 7))" by code_simp
  with report_taken_iff_newer [OF c(2,3), of "ex_status ''i'' 7" "\<lambda>_. 0"] c(3) show ?thesis by blast
qed

text \<open>An instance whose metadata value was missing when its first status arrived is left with a status
  and no view, and from then on every newer report for it makes the refresh panic before the
  instances behind it in the list are looked at.
\<close>

theorem orphan_status_blocks_refresh:
  assumes "mget (c_instanceMetadatas c) i \<noteq> None" "mget (c_instanceStatuses c) i = Some cur"
    "mget (c_instanceViews c) i = None"
    "sint (st_TimestampMs cur) < sint (st_TimestampMs (fst (unmarshal b)))"
  shows "\<exists>c'. refresh_statuses unmarshal clock (i # ids) (Some b # bs) c = (c', True) \<and>
    (\<forall>j. j \<noteq> i \<longrightarrow> mget (c_instanceStatuses c') j = mget (c_instanceStatuses c) j) \<and>
    mget (c_instanceViews c') i = None"
  using assms
  by (auto simp: refresh_status_entry_def apply_report_def Let_def settle_report_def write_status_def go_map_simps)

definition ex_orphan :: CMSReadClient where
  "ex_orphan =
     (let c = fst (refreshInstanceMetadata (\<lambda>m. (m, True)) (Some [LlumnixInstanceMetadataPrefix @ ''i'']) (Some [None]) ex_client);
          c = fst (refreshInstanceStatus (\<lambda>s. (s, True)) (\<lambda>_. 0) (\<lambda>_. Some [Some (ex_status ''i'' 5)]) c)
      in fst (refreshInstanceMetadata (\<lambda>m. (m, True)) (Some [LlumnixInstanceMetadataPrefix @ ''i''])
           (Some [Some (ex_meta ''i'' InferTypePrefill ''1.1'')]) c))"

theorem orphan_status_blocks_refresh_witness:
  "\<exists>c'. refresh_statuses (\<lambda>s. (s, True)) (\<lambda>_. 0) [''i'', ''j''] [Some (ex_status ''i'' 9), None] ex_orphan = (c', True)"
proof -
  have "mget (c_instanceMetadatas ex_orphan) ''i'' \<noteq> None"
    "(case mget (c_instanceStatuses ex_orphan) ''i'' of None \<Rightarrow> False
      | Some cur \<Rightarrow> sint (st_TimestampMs cur) < sint (st_TimestampMs (ex_status ''i'' 9)))"
    by code_simp+
  moreover have "(case mget (c_instanceViews ex_orphan) ''i'' of None \<Rightarrow> True | Some _ \<Rightarrow> False)" by code_simp
  then have "mget (c_instanceViews ex_orphan) ''i'' = None" by (simp split: option.splits)
  ultimately show ?thesis
    using orphan_status_blocks_refresh [of ex_orphan "''i''" _ "\<lambda>s. (s, True)" "ex_status ''i'' 9" "\<lambda>_. 0" "[''j'']" "[None]"]
    by (auto split: option.splits)
qed

text \<open>When no instance is idle, the two fallback choices are made independently: with two busy
  instances of which one has both the smaller decode batch and the fewer prefill tokens, that one is
  reserved for both stages, and its mark for decode is overwritten by the one for prefill.
\<close>

theorem fallback_reserves_one_twice:
  assumes "c_instanceStatuses c = [(i, a), (j, b)]" "i \<noteq> []" "mget (c_instanceViews c) i = Some v"
    "c_reservedPrefillInstance c = []" "c_reservedDecodeInstance c = []"
    "0 < sint (decode_batch_of a)" "sint (decode_batch_of a) < sint (decode_batch_of b)"
    "0 < sint (prefill_tokens_of a)" "sint (prefill_tokens_of a) < sint (prefill_tokens_of b)"
  shows "\<exists>c'. setReservedInstance c = (c', False) \<and> c_reservedDecodeInstance c' = i \<and>
    c_reservedPrefillInstance c' = i \<and>
    mget (c_instanceViews c') i = Some (v\<lparr>cv_ReservedInferType := InferTypePrefill\<rparr>)"
proof -
  have "decode_batch_of a \<noteq> 0" "prefill_tokens_of a \<noteq> 0" "decode_batch_of b \<noteq> 0" "prefill_tokens_of b \<noteq> 0"
    using assms(6-9) by auto
  then have "reserve_step i a c = (c, False)" "reserve_step j b c = (c, False)" by (simp_all add: reserve_step_def)
  moreover have "sint (decode_batch_of a) < sint max_i32" "sint (prefill_tokens_of a) < sint max_i32"
    using assms(7,9) sint_lt [of "decode_batch_of b"] sint_lt [of "prefill_tokens_of b"]
    by (simp_all add: max_i32_def)
  moreover have "\<not> both_reserved c" using assms(4) by (simp add: both_reserved_def)
  ultimately have "reserve_loop (c_instanceStatuses c) (max_i32, []) (max_i32, []) c = Inr (c, i, i)"
    using assms(1,2,5,7,9) by (simp add: least_decode_def least_prefill_def)
  with assms(2-5) \<open>\<not> both_reserved c\<close> show ?thesis
    by (simp add: setReservedInstance_def reserve_def Let_def go_map_simps infer_types)
qed

definition ex_busy :: "string \<Rightarrow> i32 \<Rightarrow> i32 \<Rightarrow> InstanceStatus" where
  "ex_busy n d p = (ex_status n 5)\<lparr>st_SchedulerRunningToDecodeRequestsNum := d,
     st_NumUncomputedTokensAllWaitingPrefills := p\<rparr>"

theorem fallback_reserves_one_twice_witness:
  "\<exists>c'. setReservedInstance (ex_client\<lparr>c_instanceStatuses := [(''i'', ex_busy ''i'' 1 10), (''j'', ex_busy ''j'' 2 20)],
       c_instanceViews := [(''i'', ex_view ''i'' InferTypeNeutral), (''j'', ex_view ''j'' InferTypeNeutral)]\<rparr>) = (c', False) \<and>
     c_reservedDecodeInstance c' = ''i'' \<and> c_reservedPrefillInstance c' = ''i''"
proof -
  have "0 < sint (decode_batch_of (ex_busy ''i'' 1 10))"
    "sint (decode_batch_of (ex_busy ''i'' 1 10)) < sint (decode_batch_of (ex_busy ''j'' 2 20))"
    "0 < sint (prefill_tokens_of (ex_busy ''i'' 1 10))"
    "sint (prefill_tokens_of (ex_busy ''i'' 1 10)) < sint (prefill_tokens_of (ex_busy ''j'' 2 20))"
    by code_simp+
  from fallback_reserves_one_twice [OF _ _ _ _ _ this, of "ex_client\<lparr>c_instanceStatuses :=
      [(''i'', ex_busy ''i'' 1 10), (''j'', ex_busy ''j'' 2 20)],
      c_instanceViews := [(''i'', ex_view ''i'' InferTypeNeutral), (''j'', ex_view ''j'' InferTypeNeutral)]\<rparr>" "''i''"]
  show ?thesis by (auto simp: ex_client_def NewCMSReadClient_def)
qed

end
