(* ===== verification/Prefix_Cache.thy ===== *)
theory Prefix_Cache
  imports Metrics CMS_Client
begin

text \<open>
  Prefix-cache locality: \<open>pkg/scheduler/policy/prefix_cache_utils.go\<close>.

  The KV store's metadata service is external: its health and its answer (the addresses that hold a
  chunk, per chunk hash) are arguments.  Addresses become instances through the CMS client.

  Lemmas: the hit length of an instance is the chunk size times the length of its first run of
  consecutive hits; instances without a hit keep a miss count of zero.
\<close>

subsection \<open>Hit lengths\<close>

record hit_state =
  hs_hitLen :: "(string, i64) gmap"
  hs_lastHitIdx :: "(string, nat) gmap"
  hs_broken :: "string list"

definition add_hit :: "i64 \<Rightarrow> nat \<Rightarrow> string \<Rightarrow> hit_state \<Rightarrow> hit_state" where
  "add_hit chunkSize idx i s =
     s\<lparr>hs_lastHitIdx := mput i idx (hs_lastHitIdx s),
       hs_hitLen := mput i ((case mget (hs_hitLen s) i of None \<Rightarrow> 0 | Some n \<Rightarrow> n) + chunkSize) (hs_hitLen s)\<rparr>"

definition hit_step :: "i64 \<Rightarrow> nat \<Rightarrow> hit_state \<Rightarrow> string \<Rightarrow> hit_state" where
  "hit_step chunkSize idx s i =
     (if i \<in> set (hs_broken s) then s
      else case mget (hs_lastHitIdx s) i of
             None \<Rightarrow> add_hit chunkSize idx i s
           | Some lastIdx \<Rightarrow>
               if int lastIdx = int idx - 1 then add_hit chunkSize idx i s
               else s\<lparr>hs_broken := i # hs_broken s\<rparr>)"

fun hit_loop :: "i64 \<Rightarrow> (string, string list) gmap \<Rightarrow> nat \<Rightarrow> string list \<Rightarrow> hit_state \<Rightarrow> hit_state" where
  "hit_loop chunkSize hits idx [] s = s"
| "hit_loop chunkSize hits idx (h # hs) s =
     hit_loop chunkSize hits (Suc idx) hs
       (case mget hits h of None \<Rightarrow> s | Some instances \<Rightarrow> foldl (hit_step chunkSize idx) s instances)"

text \<open>A nil map is \<open>None\<close>, for the argument and for the result.\<close>

definition calcInstancesPrefixCacheHitLen ::
  "i64 \<Rightarrow> string list \<Rightarrow> (string, string list) gmap option \<Rightarrow> (string, i64) gmap option" where
  "calcInstancesPrefixCacheHitLen chunkSize prefixHashes hits =
     (case hits of
        None \<Rightarrow> None
      | Some m \<Rightarrow>
          if prefixHashes = [] then None
          else Some (hs_hitLen (hit_loop chunkSize m 0 prefixHashes
                       \<lparr>hs_hitLen = [], hs_lastHitIdx = [], hs_broken = []\<rparr>)))"

definition convertToCacheHitInstances ::
  "CMSReadClient \<Rightarrow> (string, string list) gmap \<Rightarrow> (string, string list) gmap option" where
  "convertToCacheHitInstances cms kvs =
     (if kvs = [] then None else Some (map_ran (\<lambda>_ ips. GetInstanceIDsByIPs ips cms) kvs))"

subsection \<open>Writing the scheduling context\<close>

definition write_hit :: "i64 \<Rightarrow> view_map \<Rightarrow> string \<times> i64 \<Rightarrow> view_map" where
  "write_hit numPromptTokens views e =
     (case mget views (fst e) of
        None \<Rightarrow> views
      | Some v \<Rightarrow>
          mput (fst e)
            (v\<lparr>vs_prefixHitTokens := snd e,
               vs_prefixHitRatio :=
                 (if 0 < sint numPromptTokens
                  then fdiv round32 (f32_of_int (sint (snd e))) (f32_of_int (sint numPromptTokens))
                  else Fin 0),
               vs_prefixMissTokens := numPromptTokens - snd e\<rparr>) views)"

definition getInstancesPrefixCacheHitLen ::
  "bool \<Rightarrow> (string list \<Rightarrow> (string, string list) gmap) \<Rightarrow> CMSReadClient \<Rightarrow> string list \<Rightarrow> i64 \<Rightarrow> i64 \<Rightarrow>
   view_map \<Rightarrow> view_map" where
  "getInstancesPrefixCacheHitLen down query cms prefixHashes chunkSize numPromptTokens views =
     (if down then views
      else case calcInstancesPrefixCacheHitLen chunkSize prefixHashes
                  (convertToCacheHitInstances cms (query prefixHashes)) of
             None \<Rightarrow> views
           | Some hitLen \<Rightarrow> foldl (write_hit numPromptTokens) views hitLen)"

subsection \<open>The hit length is the first run\<close>

definition is_hit :: "(string, string list) gmap \<Rightarrow> string \<Rightarrow> string \<Rightarrow> bool" where
  "is_hit hits i h \<longleftrightarrow> (\<exists>ids. mget hits h = Some ids \<and> i \<in> set ids)"

definition first_run :: "('a \<Rightarrow> bool) \<Rightarrow> 'a list \<Rightarrow> nat" where
  "first_run P xs = length (takeWhile P (dropWhile (\<lambda>x. \<not> P x) xs))"

text \<open>What one instance sees of the loop: its length, its last index, and whether its run is over.\<close>

type_synonym run_state = "i64 option \<times> nat option \<times> bool"

definition run_of :: "string \<Rightarrow> hit_state \<Rightarrow> run_state" where
  "run_of i s = (mget (hs_hitLen s) i, mget (hs_lastHitIdx s) i, i \<in> set (hs_broken s))"

fun run_step :: "i64 \<Rightarrow> nat \<Rightarrow> run_state \<Rightarrow> run_state" where
  "run_step c idx (n, t, True) = (n, t, True)"
| "run_step c idx (n, None, False) = (Some ((case n of None \<Rightarrow> 0 | Some x \<Rightarrow> x) + c), Some idx, False)"
| "run_step c idx (n, Some j, False) =
     (if Suc j = idx then (Some ((case n of None \<Rightarrow> 0 | Some x \<Rightarrow> x) + c), Some idx, False)
      else (n, Some j, True))"

fun run_loop :: "i64 \<Rightarrow> nat \<Rightarrow> bool list \<Rightarrow> run_state \<Rightarrow> run_state" where
  "run_loop c idx [] r = r"
| "run_loop c idx (b # bs) r = run_loop c (Suc idx) bs (if b then run_step c idx r else r)"

lemma run_of_hit_step: "run_of i (hit_step c idx s j) = (if i = j then run_step c idx (run_of i s) else run_of i s)"
  by (cases "j \<in> set (hs_broken s)"; cases "mget (hs_lastHitIdx s) j")
    (auto simp: run_of_def hit_step_def add_hit_def go_map_simps)

lemma run_of_hits:
  "distinct ids \<Longrightarrow>
   run_of i (foldl (hit_step c idx) s ids) = (if i \<in> set ids then run_step c idx (run_of i s) else run_of i s)"
  by (induction ids arbitrary: s) (auto simp: run_of_hit_step)

lemma run_of_loop:
  assumes "\<forall>ids\<in>set (mvals hits). distinct ids"
  shows "run_of i (hit_loop c hits idx hs s) = run_loop c idx (map (is_hit hits i) hs) (run_of i s)"
proof (induction hs arbitrary: idx s)
  case (Cons h hs)
  have "run_of i (case mget hits h of None \<Rightarrow> s | Some ids \<Rightarrow> foldl (hit_step c idx) s ids) =
      (if is_hit hits i h then run_step c idx (run_of i s) else run_of i s)"
  proof (cases "mget hits h")
    case (Some ids)
    then have "(h, ids) \<in> set hits" by (rule map_of_SomeD)
    then have "distinct ids" using assms by auto
    with Some show ?thesis by (simp add: run_of_hits is_hit_def)
  qed (simp add: is_hit_def)
  then show ?case by (simp add: Cons.IH)
qed simp

lemma run_loop_over: "run_loop c idx bs (n, t, True) = (n, t, True)"
  by (induction bs arbitrary: idx) auto

lemma run_loop_gap: "Suc j < idx \<Longrightarrow> fst (run_loop c idx bs (n, Some j, False)) = n"
  by (induction bs arbitrary: idx) (auto simp: run_loop_over)

lemma run_loop_run:
  "fst (run_loop c (Suc j) bs (Some n, Some j, False)) = Some (n + of_nat (length (takeWhile (\<lambda>b. b) bs)) * c)"
proof (induction bs arbitrary: j n)
  case (Cons b bs)
  show ?case
  proof (cases b)
    case True
    with Cons.IH [of "Suc j" "n + c"] show ?thesis by (simp add: algebra_simps)
  next
    case False
    then show ?thesis by (simp add: run_loop_gap)
  qed
qed simp

lemma run_loop_start:
  "fst (run_loop c idx bs (None, None, False)) =
     (if first_run (\<lambda>b. b) bs = 0 then None else Some (of_nat (first_run (\<lambda>b. b) bs) * c))"
proof (induction bs arbitrary: idx)
  case (Cons b bs)
  show ?case
  proof (cases b)
    case True
    then show ?thesis using run_loop_run [of c idx bs c] by (simp add: first_run_def algebra_simps)
  next
    case False
    then show ?thesis using Cons.IH [of "Suc idx"] by (simp add: first_run_def)
  qed
qed (simp add: first_run_def)

lemma first_run_map: "first_run (\<lambda>b. b) (map P xs) = first_run P xs"
  by (simp add: first_run_def dropWhile_map takeWhile_map o_def)

text \<open>C36. The hit length of an instance is the chunk size times the length of its first run of
  consecutive hits, and an instance without a hit has no entry.  The run need not start at the first
  chunk.\<close>

theorem hit_length_is_first_run:
  assumes "prefixHashes \<noteq> []" "\<forall>ids\<in>set (mvals hits). distinct ids"
  shows "\<exists>hitLen. calcInstancesPrefixCacheHitLen chunkSize prefixHashes (Some hits) = Some hitLen \<and>
    mget hitLen i =
      (let n = first_run (is_hit hits i) prefixHashes in if n = 0 then None else Some (of_nat n * chunkSize))"
proof -
  let ?s = "\<lparr>hs_hitLen = [], hs_lastHitIdx = [], hs_broken = []\<rparr>"
  have "run_of i ?s = (None, None, False)" by (simp add: run_of_def)
  with run_of_loop [OF assms(2), of i chunkSize 0 prefixHashes ?s]
    run_loop_start [of chunkSize 0 "map (is_hit hits i) prefixHashes"]
  have "fst (run_of i (hit_loop chunkSize hits 0 prefixHashes ?s)) =
      (let n = first_run (is_hit hits i) prefixHashes in if n = 0 then None else Some (of_nat n * chunkSize))"
    by (simp add: first_run_map Let_def)
  with assms(1) show ?thesis by (simp add: calcInstancesPrefixCacheHitLen_def run_of_def)
qed

text \<open>The first chunk is missing and the second is there: 256 tokens are counted as a cached prefix.\<close>

theorem hit_length_is_first_run_witness:
  "list_all distinct (mvals [(''h2'', [''a''])]) \<and>
   (\<exists>hitLen. calcInstancesPrefixCacheHitLen 256 [''h1'', ''h2''] (Some [(''h2'', [''a''])]) = Some hitLen \<and>
     mget hitLen ''a'' = Some 256)"
  using hit_length_is_first_run [of "[''h1'', ''h2'']" "[(''h2'', [''a''])]" 256 "''a''"]
  by (simp add: first_run_def is_hit_def)

subsection \<open>Cold instances\<close>

lemma write_hit_other: "i \<noteq> fst e \<Longrightarrow> mget (write_hit n views e) i = mget views i"
  by (auto simp: write_hit_def go_map_simps split: option.splits)

lemma write_hits_cold: "i \<notin> set (mkeys hitLen) \<Longrightarrow> mget (foldl (write_hit n) views hitLen) i = mget views i"
  by (induction hitLen arbitrary: views) (auto simp: write_hit_other)

lemma write_hit_same:
  "mget views i = Some v \<Longrightarrow>
   \<exists>v'. mget (write_hit n views (i, k)) i = Some v' \<and> vs_prefixHitTokens v' = k \<and>
    vs_prefixMissTokens v' = n - k \<and> vs_cmsView v' = vs_cmsView v \<and>
    vs_numComputedPrefillTokensPredicted v' = vs_numComputedPrefillTokensPredicted v"
  by (simp add: write_hit_def go_map_simps)

lemma write_hits_warm:
  assumes "mwf hitLen" "mget hitLen i = Some k" "mget views i = Some v"
  shows "\<exists>v'. mget (foldl (write_hit n) views hitLen) i = Some v' \<and> vs_prefixHitTokens v' = k \<and>
    vs_prefixMissTokens v' = n - k \<and> vs_cmsView v' = vs_cmsView v \<and>
    vs_numComputedPrefillTokensPredicted v' = vs_numComputedPrefillTokensPredicted v"
  using assms
proof (induction hitLen arbitrary: views)
  case (Cons e hitLen)
  show ?case
  proof (cases "fst e = i")
    case True
    then have e: "e = (i, k)" "i \<notin> set (mkeys hitLen)" using Cons.prems by (cases e; auto)+
    show ?thesis using write_hit_same [OF Cons.prems(3), of n k] write_hits_cold [OF e(2), of n "write_hit n views e"]
      by (simp add: e(1))
  next
    case False
    with Cons.prems have "mget (write_hit n views e) i = Some v" by (simp add: write_hit_other)
    with Cons False show ?thesis by (cases e) auto
  qed
qed simp

lemma hit_step_wf: "mwf (hs_hitLen s) \<Longrightarrow> mwf (hs_hitLen (hit_step c idx s i))"
  by (auto simp: hit_step_def add_hit_def go_map_simps split: option.splits)

lemma hit_steps_wf: "mwf (hs_hitLen s) \<Longrightarrow> mwf (hs_hitLen (foldl (hit_step c idx) s ids))"
  by (induction ids arbitrary: s) (simp_all add: hit_step_wf)

lemma hit_loop_wf: "mwf (hs_hitLen s) \<Longrightarrow> mwf (hs_hitLen (hit_loop c hits idx hs s))"
  by (induction hs arbitrary: idx s) (auto simp: hit_steps_wf split: option.splits)

lemma calc_wf: "calcInstancesPrefixCacheHitLen c hs hits = Some hitLen \<Longrightarrow> mwf hitLen"
  by (auto simp: calcInstancesPrefixCacheHitLen_def intro!: hit_loop_wf split: option.splits if_splits)

lemma f32_add_exact:
  assumes "0 \<le> a" "0 \<le> b" "a + b < 2 ^ 24"
  shows "fadd round32 (f32_of_int a) (Fin (of_int b)) = Fin (of_int (a + b))"
proof -
  have "f32_of_int a = Fin (of_int a)" "f32_of_int (a + b) = Fin (of_int (a + b))"
    using assms f32_of_int_exact [of a] f32_of_int_exact [of "a + b"] by (simp_all del: of_int_add)
  then show ?thesis by (simp add: f32_of_int_def)
qed

text \<open>Two instances have the same prefill load; one of them holds a cached part of the prompt, the
  other nothing.  The miss count of the cold instance stays at its initial zero, so the cache-aware
  load metric ranks the cold instance before the warm one.\<close>

theorem cold_instance_preferred:
  assumes "calcInstancesPrefixCacheHitLen chunkSize hashes (convertToCacheHitInstances cms (query hashes)) = Some hitLen"
    "mget hitLen warm = Some k" "mget hitLen cold = None"
    "mget views warm = Some v" "mget views cold = Some u" "vs_prefixMissTokens u = 0"
    "vs_cmsView v = Some cv" "vs_cmsView u = Some cu"
    "all_prefills_value (vs_numComputedPrefillTokensPredicted v) cv = Fin (of_int load)"
    "all_prefills_value (vs_numComputedPrefillTokensPredicted u) cu = Fin (of_int load)"
    "0 \<le> load" "0 < sint (n - k)" "sint (n - k) + load < 2 ^ 24"
  shows "let views' = getInstancesPrefixCacheHitLen False query cms hashes chunkSize n views
    in \<exists>v' u' mw mc. mget views' warm = Some v' \<and> mget views' cold = Some u' \<and> vs_prefixHitTokens v' = k \<and>
         Calculate lp now req v' (CacheAwareAllPrefillsTokensNum x) = Some mw \<and>
         Calculate lp now req u' (CacheAwareAllPrefillsTokensNum x) = Some mc \<and> metric_Less mc mw"
proof -
  let ?views' = "foldl (write_hit n) views hitLen"
  have views': "getInstancesPrefixCacheHitLen False query cms hashes chunkSize n views = ?views'"
    using assms(1) by (simp add: getInstancesPrefixCacheHitLen_def)
  have "cold \<notin> set (mkeys hitLen)" using assms(3) by (simp add: mget_None_iff)
  then have cold: "mget ?views' cold = Some u" using assms(5) by (simp add: write_hits_cold)
  obtain v' where warm: "mget ?views' warm = Some v'" "vs_prefixHitTokens v' = k" "vs_prefixMissTokens v' = n - k"
    "vs_cmsView v' = Some cv" "vs_numComputedPrefillTokensPredicted v' = vs_numComputedPrefillTokensPredicted v"
    using write_hits_warm [OF calc_wf [OF assms(1)] assms(2,4), of n] assms(7) by auto
  have "Calculate lp now req v' (CacheAwareAllPrefillsTokensNum x) =
      Some (CacheAwareAllPrefillsTokensNum (Fin (of_int (sint (n - k) + load))))"
    using assms warm f32_add_exact [of "sint (n - k)" load] by simp
  moreover have "Calculate lp now req u (CacheAwareAllPrefillsTokensNum x) =
      Some (CacheAwareAllPrefillsTokensNum (Fin (of_int load)))"
    using assms f32_add_exact [of 0 load] by simp
  moreover have "metric_Less (CacheAwareAllPrefillsTokensNum (Fin (of_int load)))
      (CacheAwareAllPrefillsTokensNum (Fin (of_int (sint (n - k) + load))))"
    using assms(12) by (simp add: metric_Less_def del: of_int_sint of_int_add)
  ultimately show ?thesis using views' cold warm by (auto simp: Let_def)
qed

definition ex_kvs_client :: CMSReadClient where
  "ex_kvs_client = addToIpToInstanceIDsMap ''10.0.0.1'' ''a'' (NewCMSReadClient True True 10 False 0 False)"

theorem cold_instance_preferred_witness:
  "let view = (\<lambda>i. new_scheduling_view (CmsInstanceView (ex_view i InferTypePrefill)));
       views = [(''a'', view ''a''), (''b'', view ''b'')];
       query = (\<lambda>_. [(''h1'', [''10.0.0.1''])]);
       views' = getInstancesPrefixCacheHitLen False query ex_kvs_client [''h1'', ''h2''] 256 1000 views
   in \<exists>v' u' mw mc. mget views' ''a'' = Some v' \<and> mget views' ''b'' = Some u' \<and> vs_prefixHitTokens v' = 256 \<and>
        Calculate ex_lp 0 None v' (CacheAwareAllPrefillsTokensNum (Fin 0)) = Some mw \<and>
        Calculate ex_lp 0 None u' (CacheAwareAllPrefillsTokensNum (Fin 0)) = Some mc \<and> metric_Less mc mw"
proof -
  let ?view = "\<lambda>i. new_scheduling_view (CmsInstanceView (ex_view i InferTypePrefill))"
  let ?views = "[(''a'', ?view ''a''), (''b'', ?view ''b'')]"
  let ?query = "\<lambda>_. [(''h1'', [''10.0.0.1''])]"
  have hit: "calcInstancesPrefixCacheHitLen 256 [''h1'', ''h2'']
      (convertToCacheHitInstances ex_kvs_client (?query [''h1'', ''h2''])) = Some [(''a'', 256)]"
    by code_simp
  have load: "all_prefills_value 0 (ex_view i InferTypePrefill) = Fin (of_int 0)" for i
    by (simp add: all_prefills_value_def ex_view_def empty_status_def empty_account_def f32_of_int_exact)
  show ?thesis
    using cold_instance_preferred [OF hit, of "''a''" 256 "''b''" ?views "?view ''a''" "?view ''b''"
        "ex_view ''a'' InferTypePrefill" "ex_view ''b'' InferTypePrefill" 0 1000] load
    by (simp add: new_scheduling_view_def Let_def)
qed

end
