(* ===== verification/LRS_Client.thy ===== *)
theory LRS_Client
  imports Local_Realtime_State
begin

text \<open>
  \<open>pkg/lrs/lrs_client.go\<close> and \<open>pkg/lrs/request_state_tracker.go\<close>.

  The client keeps one local realtime state per inference type and dispatches on it; each write
  method holds the client's mutex for its whole body, so a concurrent execution is a sequence of the
  operations below.  The tracker is the gateway's side: it counts the tokens of a running request and
  builds the periodic reports.  The tokenizer is a service outside the repository and enters as a
  parameter: \<open>None\<close> when it is not available, otherwise a function giving the length of the token
  list it returns for a text (empty when encoding fails).

  Lemmas: each of the three states keeps its invariant under every history of client calls; a call
  touches only the state its inference type selects; the reported token count accumulates.
\<close>

subsection \<open>The client\<close>

record LocalRealtimeStateClient =
  neutralState :: LocalRealtimeState
  prefillState :: LocalRealtimeState
  decodeState :: LocalRealtimeState
  multiModelSupport :: bool

definition NewLocalRealtimeStateClient :: "bool \<Rightarrow> LocalRealtimeStateClient" where
  "NewLocalRealtimeStateClient multi =
     \<lparr>neutralState = NewLocalRealtimeState, prefillState = NewLocalRealtimeState,
      decodeState = NewLocalRealtimeState, multiModelSupport = multi\<rparr>"

definition cl_AddInstance :: "LLMInstance \<Rightarrow> LocalRealtimeStateClient \<Rightarrow> LocalRealtimeStateClient" where
  "cl_AddInstance inst c =
     (if li_InferType inst = InferTypeDecode then c\<lparr>decodeState := lrs_AddInstance inst (decodeState c)\<rparr>
      else if li_InferType inst = InferTypePrefill
      then c\<lparr>prefillState := lrs_AddInstance inst (prefillState c)\<rparr>
      else c\<lparr>neutralState := lrs_AddInstance inst (neutralState c)\<rparr>)"

definition cl_RemoveInstance ::
  "InferType \<Rightarrow> string \<Rightarrow> LocalRealtimeStateClient \<Rightarrow> LocalRealtimeStateClient" where
  "cl_RemoveInstance inferType i c =
     (if inferType = InferTypeDecode then c\<lparr>decodeState := lrs_RemoveInstance i (decodeState c)\<rparr>
      else if inferType = InferTypePrefill then c\<lparr>prefillState := lrs_RemoveInstance i (prefillState c)\<rparr>
      else c\<lparr>neutralState := lrs_RemoveInstance i (neutralState c)\<rparr>)"

definition cl_AddGateway :: "string \<Rightarrow> LocalRealtimeStateClient \<Rightarrow> LocalRealtimeStateClient" where
  "cl_AddGateway g c =
     c\<lparr>neutralState := lrs_AddGateway g (neutralState c), prefillState := lrs_AddGateway g (prefillState c),
       decodeState := lrs_AddGateway g (decodeState c)\<rparr>"

definition cl_RemoveGateway :: "string \<Rightarrow> LocalRealtimeStateClient \<Rightarrow> LocalRealtimeStateClient" where
  "cl_RemoveGateway g c =
     c\<lparr>neutralState := lrs_RemoveGateway g (neutralState c),
       prefillState := lrs_RemoveGateway g (prefillState c),
       decodeState := lrs_RemoveGateway g (decodeState c)\<rparr>"

definition getLocalRealtimeState :: "InferType \<Rightarrow> LocalRealtimeStateClient \<Rightarrow> LocalRealtimeState option" where
  "getLocalRealtimeState inferType c =
     (if inferType = InferTypePrefill then Some (prefillState c)
      else if inferType = InferTypeDecode then Some (decodeState c)
      else if inferType = InferTypeNeutral then Some (neutralState c)
      else None)"

text \<open>Go mutates the state behind the returned pointer; \<open>with_state\<close> writes the result back.\<close>

definition with_state ::
  "InferType \<Rightarrow> (LocalRealtimeState \<Rightarrow> LocalRealtimeState \<times> go_error option) \<Rightarrow>
   LocalRealtimeStateClient \<Rightarrow> LocalRealtimeStateClient \<times> go_error option" where
  "with_state inferType f c =
     (if inferType = InferTypePrefill
      then (let (s, e) = f (prefillState c) in (c\<lparr>prefillState := s\<rparr>, e))
      else if inferType = InferTypeDecode
      then (let (s, e) = f (decodeState c) in (c\<lparr>decodeState := s\<rparr>, e))
      else if inferType = InferTypeNeutral
      then (let (s, e) = f (neutralState c) in (c\<lparr>neutralState := s\<rparr>, e))
      else (c, Some ErrorNoMatchInferType))"

definition cl_AllocateRequestState ::
  "InferType \<Rightarrow> RequestState \<Rightarrow> LocalRealtimeStateClient \<Rightarrow> LocalRealtimeStateClient \<times> go_error option" where
  "cl_AllocateRequestState inferType r c =
     (let inferType = (if inferType = [] then InferTypeNeutral else inferType)
      in with_state inferType (lrs_AllocateRequestState r) c)"

definition cl_UpdateRequestState ::
  "InferType \<Rightarrow> RequestState \<Rightarrow> LocalRealtimeStateClient \<Rightarrow> LocalRealtimeStateClient \<times> go_error option" where
  "cl_UpdateRequestState inferType r c = with_state inferType (lrs_UpdateRequestState r) c"

definition cl_MarkPrefillComplete ::
  "InferType \<Rightarrow> RequestState \<Rightarrow> LocalRealtimeStateClient \<Rightarrow> LocalRealtimeStateClient \<times> go_error option" where
  "cl_MarkPrefillComplete inferType r c = with_state inferType (lrs_MarkPrefillComplete r) c"

definition cl_ReleaseRequestState ::
  "InferType \<Rightarrow> RequestState \<Rightarrow> LocalRealtimeStateClient \<Rightarrow> LocalRealtimeStateClient" where
  "cl_ReleaseRequestState inferType r c =
     fst (with_state inferType (\<lambda>s. (lrs_ReleaseRequestState r s, None)) c)"

definition cl_GetGroupedInstanceViews ::
  "LocalRealtimeStateClient \<Rightarrow> (InferType, (string, InstanceView) gmap) gmap" where
  "cl_GetGroupedInstanceViews c =
     foldl (\<lambda>grouped inferType.
              case getLocalRealtimeState inferType c of
                None \<Rightarrow> grouped
              | Some s \<Rightarrow>
                  if 0 < length (lrs_instanceViews s) then mput inferType (lrs_instanceViews s) grouped
                  else grouped)
       [] [InferTypeNeutral, InferTypePrefill, InferTypeDecode]"

definition cl_GetInstanceViews ::
  "InferType \<Rightarrow> LocalRealtimeStateClient \<Rightarrow> (string, InstanceView) gmap option" where
  "cl_GetInstanceViews inferType c = map_option lrs_instanceViews (getLocalRealtimeState inferType c)"

definition cl_GetInstanceViewsByModel ::
  "string \<Rightarrow> InferType \<Rightarrow> LocalRealtimeStateClient \<Rightarrow> (string, InstanceView) gmap option" where
  "cl_GetInstanceViewsByModel model inferType c =
     (case getLocalRealtimeState inferType c of
        None \<Rightarrow> None
      | Some s \<Rightarrow> Some (if multiModelSupport c then lrs_GetInstanceViewsByModel model s
                        else lrs_instanceViews s))"

definition cl_GetInstanceView ::
  "InferType \<Rightarrow> string \<Rightarrow> LocalRealtimeStateClient \<Rightarrow> InstanceView option" where
  "cl_GetInstanceView inferType i c =
     (case getLocalRealtimeState inferType c of None \<Rightarrow> None | Some s \<Rightarrow> lrs_GetInstanceView i s)"

subsection \<open>Client histories\<close>

datatype cl_op =
    ClAddInstance LLMInstance
  | ClRemoveInstance InferType string
  | ClAddGateway string
  | ClRemoveGateway string
  | ClAllocate InferType RequestState
  | ClUpdate InferType RequestState
  | ClMarkPrefill InferType RequestState
  | ClRelease InferType RequestState

fun cl_exec :: "cl_op \<Rightarrow> LocalRealtimeStateClient \<Rightarrow> LocalRealtimeStateClient \<times> go_error option" where
  "cl_exec (ClAddInstance w) c = (cl_AddInstance w c, None)"
| "cl_exec (ClRemoveInstance t i) c = (cl_RemoveInstance t i c, None)"
| "cl_exec (ClAddGateway g) c = (cl_AddGateway g c, None)"
| "cl_exec (ClRemoveGateway g) c = (cl_RemoveGateway g c, None)"
| "cl_exec (ClAllocate t r) c = cl_AllocateRequestState t r c"
| "cl_exec (ClUpdate t r) c = cl_UpdateRequestState t r c"
| "cl_exec (ClMarkPrefill t r) c = cl_MarkPrefillComplete t r c"
| "cl_exec (ClRelease t r) c = (cl_ReleaseRequestState t r c, None)"

text \<open>The operation a client call performs on the state of inference type \<open>k\<close>, if any.\<close>

fun cl_proj :: "InferType \<Rightarrow> cl_op \<Rightarrow> lrs_op option" where
  "cl_proj k (ClAddInstance w) =
     (if k = (if li_InferType w = InferTypeDecode \<or> li_InferType w = InferTypePrefill
              then li_InferType w else InferTypeNeutral) then Some (AddInstanceOp w) else None)"
| "cl_proj k (ClRemoveInstance t i) =
     (if k = (if t = InferTypeDecode \<or> t = InferTypePrefill then t else InferTypeNeutral)
      then Some (RemoveInstanceOp i) else None)"
| "cl_proj k (ClAddGateway g) = Some (AddGatewayOp g)"
| "cl_proj k (ClRemoveGateway g) = Some (RemoveGatewayOp g)"
| "cl_proj k (ClAllocate t r) =
     (if k = (if t = [] then InferTypeNeutral else t) then Some (AllocateOp r) else None)"
| "cl_proj k (ClUpdate t r) = (if k = t then Some (UpdateOp r) else None)"
| "cl_proj k (ClMarkPrefill t r) = (if k = t then Some (MarkPrefillOp r) else None)"
| "cl_proj k (ClRelease t r) = (if k = t then Some (ReleaseOp r) else None)"

definition three_types :: "InferType list" where
  "three_types = [InferTypeNeutral, InferTypePrefill, InferTypeDecode]"

definition cl_op_ok :: "cl_op \<Rightarrow> LocalRealtimeStateClient \<Rightarrow> bool" where
  "cl_op_ok op c \<longleftrightarrow>
     list_all (\<lambda>k. case cl_proj k op of None \<Rightarrow> True
                   | Some lop \<Rightarrow> lrs_op_ok lop (the (getLocalRealtimeState k c))) three_types"

definition cl_wf :: "LocalRealtimeStateClient \<Rightarrow> bool" where
  "cl_wf c \<longleftrightarrow> lrs_wf (neutralState c) \<and> lrs_wf (prefillState c) \<and> lrs_wf (decodeState c)"

subsection \<open>The gateway's request state tracker\<close>

record RequestTokenState =
  ts_reqId :: string
  ts_reqModel :: string
  ts_Model :: string
  ts_InferType :: InferType
  ts_InstanceId :: string
  ts_GatewayId :: string
  ts_numTokens :: u64
  ts_lastNumTokens :: u64
  ts_ResponseText :: string

definition NewRequestTokenState ::
  "string \<Rightarrow> string \<Rightarrow> 32 word list option \<Rightarrow> string \<Rightarrow> InferType \<Rightarrow> string \<Rightarrow> string \<Rightarrow> RequestTokenState option" where
  "NewRequestTokenState reqId reqModel promptTokens model inferType instanceId gatewayId =
     (case promptTokens of
        None \<Rightarrow> None
      | Some toks \<Rightarrow>
          Some \<lparr>ts_reqId = reqId, ts_reqModel = reqModel, ts_Model = model, ts_InferType = inferType,
                ts_InstanceId = instanceId, ts_GatewayId = gatewayId, ts_numTokens = 0, ts_lastNumTokens = of_nat (length toks),
                ts_ResponseText = []\<rparr>)"

definition UpdateNumTokens :: "u64 \<Rightarrow> RequestTokenState \<Rightarrow> RequestTokenState" where
  "UpdateNumTokens num rs = rs\<lparr>ts_numTokens := num\<rparr>"

definition AppendResponseText :: "string \<Rightarrow> RequestTokenState \<Rightarrow> RequestTokenState" where
  "AppendResponseText t rs = rs\<lparr>ts_ResponseText := ts_ResponseText rs @ t\<rparr>"

definition GetNumTokens ::
  "(string \<Rightarrow> nat) option \<Rightarrow> RequestTokenState \<Rightarrow> u64 \<times> RequestTokenState" where
  "GetNumTokens tokenizer rs =
     (if ts_numTokens rs \<noteq> 0 then (ts_numTokens rs, rs)
      else
        let count = (case tokenizer of
                       None \<Rightarrow> of_nat (length (ts_ResponseText rs))
                     | Some encode \<Rightarrow> of_nat (encode (ts_ResponseText rs)));
            rs = rs\<lparr>ts_ResponseText := [], ts_lastNumTokens := ts_lastNumTokens rs + count\<rparr>
        in (ts_lastNumTokens rs, rs))"

datatype Kind = KindStateUpdate | KindPrefillDone | KindOther string

record RequestReportData =
  rd_Kind :: Kind
  rd_Id :: string
  rd_Model :: string
  rd_InferType :: InferType
  rd_InstanceId :: string
  rd_GatewayId :: string
  rd_NumTokens :: u64

type_synonym RequestStateTracker = "(string, RequestTokenState) gmap"

definition AddRequestState :: "RequestTokenState \<Rightarrow> RequestStateTracker \<Rightarrow> RequestStateTracker" where
  "AddRequestState rs t =
     (case mget t (ts_reqId rs) of Some _ \<Rightarrow> t | None \<Rightarrow> mput (ts_reqId rs) rs t)"

definition DeleteRequestState :: "string \<Rightarrow> RequestStateTracker \<Rightarrow> RequestStateTracker" where
  "DeleteRequestState i t = mdel i t"

fun report :: "(string \<Rightarrow> nat) option \<Rightarrow> RequestStateTracker \<Rightarrow> RequestReportData list \<times> RequestStateTracker" where
  "report tokenizer [] = ([], [])"
| "report tokenizer ((i, rs) # t) =
     (let (n, rs') = GetNumTokens tokenizer rs;
          d = \<lparr>rd_Kind = KindStateUpdate, rd_Id = ts_reqId rs, rd_Model = ts_reqModel rs,
               rd_InferType = ts_InferType rs, rd_InstanceId = ts_InstanceId rs,
               rd_GatewayId = ts_GatewayId rs, rd_NumTokens = n\<rparr>;
          (ds, t') = report tokenizer t
      in (d # ds, (i, rs') # t'))"

definition ReportPrefillComplete ::
  "string \<Rightarrow> string \<Rightarrow> string \<Rightarrow> SchedulingResult \<Rightarrow> RequestReportData list" where
  "ReportPrefillComplete reqId model gatewayId results =
     (case GetInstanceByInferType results InferTypeNeutral of
        None \<Rightarrow> []
      | Some inst \<Rightarrow>
          [\<lparr>rd_Kind = KindPrefillDone, rd_Id = reqId, rd_Model = model, rd_InferType = InferTypeNeutral,
            rd_InstanceId = fst (LLMInstance_Id inst), rd_GatewayId = gatewayId, rd_NumTokens = 0\<rparr>])"

subsection \<open>Each state evolves on its own\<close>

lemma infer_types_neq [simp]:
  "InferTypeNeutral \<noteq> InferTypePrefill" "InferTypePrefill \<noteq> InferTypeNeutral"
  "InferTypeNeutral \<noteq> InferTypeDecode" "InferTypeDecode \<noteq> InferTypeNeutral"
  "InferTypePrefill \<noteq> InferTypeDecode" "InferTypeDecode \<noteq> InferTypePrefill"
  "InferTypeNeutral \<noteq> []" "InferTypePrefill \<noteq> []" "InferTypeDecode \<noteq> []"
  by (simp_all add: infer_types)

definition on_state :: "lrs_op option \<Rightarrow> LocalRealtimeState \<Rightarrow> LocalRealtimeState" where
  "on_state lop s = (case lop of None \<Rightarrow> s | Some lop \<Rightarrow> fst (lrs_exec lop s))"

lemmas client_defs =
  cl_AddInstance_def cl_RemoveInstance_def cl_AddGateway_def cl_RemoveGateway_def
  cl_AllocateRequestState_def cl_UpdateRequestState_def cl_MarkPrefillComplete_def
  cl_ReleaseRequestState_def with_state_def getLocalRealtimeState_def on_state_def

lemma cl_exec_proj:
  assumes "k \<in> set three_types"
  shows "getLocalRealtimeState k (fst (cl_exec op c)) =
    Some (on_state (cl_proj k op) (the (getLocalRealtimeState k c)))"
  using assms by (cases op) (auto simp: client_defs three_types_def Let_def split_beta)

lemma cl_state_Some: "k \<in> set three_types \<Longrightarrow> \<exists>s. getLocalRealtimeState k c = Some s"
  by (auto simp: three_types_def getLocalRealtimeState_def)

lemma cl_run_proj:
  assumes "k \<in> set three_types"
  shows "getLocalRealtimeState k (fst (run_ops cl_exec ops c)) =
    Some (fst (run_ops lrs_exec (List.map_filter (cl_proj k) ops) (the (getLocalRealtimeState k c))))"
proof (induction ops arbitrary: c)
  case Nil
  then show ?case using cl_state_Some [OF assms, of c] by (auto simp: List.map_filter_simps)
next
  case (Cons op ops)
  then show ?case
    using cl_exec_proj [OF assms, of op c]
    by (auto simp: Let_def split_beta List.map_filter_simps on_state_def split: option.splits)
qed

lemma cl_wf_iff: "cl_wf c \<longleftrightarrow> (\<forall>k\<in>set three_types. lrs_wf (the (getLocalRealtimeState k c)))"
  by (auto simp: cl_wf_def three_types_def getLocalRealtimeState_def)

interpretation client: machine cl_exec cl_op_ok cl_wf "NewLocalRealtimeStateClient multi"
proof
  show "cl_wf (NewLocalRealtimeStateClient multi)"
    by (simp add: cl_wf_def NewLocalRealtimeStateClient_def wf_init)
next
  fix c op assume c: "cl_wf c" "cl_op_ok op c"
  show "cl_wf (fst (cl_exec op c))"
    unfolding cl_wf_iff
  proof
    fix k assume k: "k \<in> set three_types"
    with c show "lrs_wf (the (getLocalRealtimeState k (fst (cl_exec op c))))"
      by (auto simp: cl_exec_proj on_state_def cl_wf_iff cl_op_ok_def list_all_iff wf_exec
          split: option.splits)
  qed
qed

subsection \<open>Properties\<close>

text \<open>The client keeps the three inference types apart: after any sequence of calls the state of an
  inference type is the one obtained by performing, on that state alone, just the operations the calls
  direct to that type.
\<close>

theorem client_isolation:
  assumes "k \<in> {InferTypeNeutral, InferTypePrefill, InferTypeDecode}" "getLocalRealtimeState k c = Some s"
  shows "getLocalRealtimeState k (fst (run_ops cl_exec ops c)) =
    Some (fst (run_ops lrs_exec (List.map_filter (cl_proj k) ops) s))"
  using assms cl_run_proj [of k ops c] by (simp add: three_types_def)

theorem client_isolation_witness:
  "getLocalRealtimeState InferTypeDecode (fst (run_ops cl_exec [ClAddGateway ''g'',
      ClAddInstance (ex_instance ''i''), ClAllocate [] (ex_request ''a'' 5)] (NewLocalRealtimeStateClient False))) =
   Some (fst (run_ops lrs_exec [AddGatewayOp ''g''] NewLocalRealtimeState))"
  using client_isolation [of InferTypeDecode "NewLocalRealtimeStateClient False" NewLocalRealtimeState
      "[ClAddGateway ''g'', ClAddInstance (ex_instance ''i''), ClAllocate [] (ex_request ''a'' 5)]"]
  by (simp add: getLocalRealtimeState_def NewLocalRealtimeStateClient_def List.map_filter_simps ex_instance_def)

text \<open>After every history of client calls that meet the callers' obligations, in each of the three
  states every instance's token counter is the sum over the requests the table assigns to it; the
  grouped view the scheduler reads lists exactly the types with at least one instance.
\<close>

theorem client_tokens_exact:
  assumes "ops_ok cl_exec cl_op_ok ops (NewLocalRealtimeStateClient multi)"
    "c = fst (run_ops cl_exec ops (NewLocalRealtimeStateClient multi))"
    "mget (cl_GetGroupedInstanceViews c) k = Some views" "mget views i = Some iv"
  shows "\<exists>s. getLocalRealtimeState k c = Some s \<and> lrs_instanceViews s = views \<and>
    sint (iv_NumTokens iv) =
      (\<Sum>(r, p) \<leftarrow> filter (\<lambda>(r, p). rs_instanceId (lrs_heap s ! p) = i) (lrs_requestStates s).
         sint (rs_numTokens (lrs_heap s ! p)))"
proof -
  have "cl_wf c" using client.inv_history [OF assms(1)] assms(2) by simp
  moreover obtain s where s: "getLocalRealtimeState k c = Some s" "lrs_instanceViews s = views"
    "k \<in> set three_types"
    using assms(3)
    by (auto simp: cl_GetGroupedInstanceViews_def three_types_def getLocalRealtimeState_def go_map_simps
        split: if_splits)
  ultimately have core: "lrs_core s" by (force simp: cl_wf_iff lrs_wf_def)
  from s assms(4) have iv: "mget (lrs_instanceViews s) i = Some iv" by simp
  from view_sum_table [OF core iv, of "\<lambda>_ p. sint (rs_numTokens (lrs_heap s ! p))"] core_view [OF core iv] s
  show ?thesis by (auto simp: view_ok_def iv_NumTokens_def msum_def)
qed

definition ex_client_ops :: "cl_op list" where
  "ex_client_ops = [ClAddGateway ''g'', ClAddInstance (ex_instance ''i''), ClAllocate [] (ex_request ''a'' 5)]"

theorem client_tokens_exact_witness:
  "\<exists>views iv. mget (cl_GetGroupedInstanceViews
       (fst (run_ops cl_exec ex_client_ops (NewLocalRealtimeStateClient False)))) InferTypeNeutral = Some views \<and>
     mget views ''i'' = Some iv \<and> sint (iv_NumTokens iv) = 5 \<and>
     (\<exists>s. getLocalRealtimeState InferTypeNeutral
            (fst (run_ops cl_exec ex_client_ops (NewLocalRealtimeStateClient False))) = Some s \<and>
          lrs_instanceViews s = views)"
proof -
  let ?c = "fst (run_ops cl_exec ex_client_ops (NewLocalRealtimeStateClient False))"
  have ok: "ops_ok cl_exec cl_op_ok ex_client_ops (NewLocalRealtimeStateClient False)" by code_simp
  have "(case mget (cl_GetGroupedInstanceViews ?c) InferTypeNeutral of None \<Rightarrow> False
      | Some views \<Rightarrow> (case mget views ''i'' of None \<Rightarrow> False | Some iv \<Rightarrow> sint (iv_NumTokens iv) = 5))"
    by code_simp
  then obtain views iv where v: "mget (cl_GetGroupedInstanceViews ?c) InferTypeNeutral = Some views"
    "mget views ''i'' = Some iv" "sint (iv_NumTokens iv) = 5"
    by (auto split: option.splits)
  from client_tokens_exact [OF ok refl v(1,2)] v show ?thesis by blast
qed

text \<open>The gateway's counting of one request: text arrives and the count is read, in any order.\<close>

datatype trk_event = Text string | Read

definition trk_step :: "RequestTokenState \<Rightarrow> trk_event \<Rightarrow> RequestTokenState" where
  "trk_step rs ev = (case ev of Text t \<Rightarrow> AppendResponseText t rs | Read \<Rightarrow> snd (GetNumTokens None rs))"

definition trk_text :: "trk_event list \<Rightarrow> nat" where
  "trk_text evs = (\<Sum>ev \<leftarrow> evs. case ev of Text t \<Rightarrow> length t | Read \<Rightarrow> 0)"

lemma trk_fold:
  assumes "ts_numTokens rs = 0"
  shows "ts_numTokens (foldl trk_step rs evs) = 0 \<and>
    ts_lastNumTokens (foldl trk_step rs evs) + of_nat (length (ts_ResponseText (foldl trk_step rs evs))) =
    ts_lastNumTokens rs + of_nat (length (ts_ResponseText rs)) + of_nat (trk_text evs)"
  using assms
proof (induction evs arbitrary: rs)
  case (Cons ev evs)
  have "ts_numTokens (trk_step rs ev) = 0"
    using Cons.prems by (cases ev) (auto simp: trk_step_def AppendResponseText_def GetNumTokens_def Let_def)
  with Cons.IH [of "trk_step rs ev"] Cons.prems show ?case
    by (cases ev) (auto simp: trk_step_def trk_text_def AppendResponseText_def GetNumTokens_def Let_def)
qed (simp add: trk_text_def)

text \<open>Without a tokenizer the gateway's count of a request is exact however often it is read in
  between: it is the number of prompt tokens plus the bytes of all response text so far (modulo the
  width of the counter), and it never counts a piece of text twice.
\<close>

theorem tracker_count_exact:
  assumes "NewRequestTokenState reqId reqModel (Some toks) model inferType inst gw = Some rs"
  shows "fst (GetNumTokens None (foldl trk_step rs evs)) = of_nat (length toks) + of_nat (trk_text evs)"
proof -
  have rs: "ts_numTokens rs = 0" "ts_lastNumTokens rs = of_nat (length toks)" "ts_ResponseText rs = []"
    using assms by (auto simp: NewRequestTokenState_def)
  with trk_fold [of rs evs] show ?thesis by (simp add: GetNumTokens_def Let_def)
qed

theorem tracker_count_exact_witness:
  "\<exists>rs. NewRequestTokenState ''r'' ''m'' (Some [1, 2, 3]) ''m'' InferTypeNeutral ''i'' ''g'' = Some rs \<and>
     fst (GetNumTokens None (foldl trk_step rs [Text ''ab'', Read, Read, Text ''cde''])) = 8"
proof -
  obtain rs where "NewRequestTokenState ''r'' ''m'' (Some [1, 2, 3]) ''m'' InferTypeNeutral ''i'' ''g'' = Some rs"
    by (simp add: NewRequestTokenState_def)
  with tracker_count_exact [OF this, of "[Text ''ab'', Read, Read, Text ''cde'']"] show ?thesis
    by (auto simp: trk_text_def)
qed

text \<open>A request whose instance carries an empty inference type is allocated in the neutral state but
  a release that carries the same empty type is dropped: the request stays in the table.
\<close>

theorem client_empty_type_not_released:
  assumes "cl_AllocateRequestState [] r c = (c', None)"
  shows "lrs_requestExists (rs_reqId r) (neutralState (cl_ReleaseRequestState [] r c'))"
proof -
  have "cl_ReleaseRequestState [] r c' = c'" by (simp add: cl_ReleaseRequestState_def with_state_def infer_types)
  moreover have "neutralState c' = fst (lrs_AllocateRequestState r (neutralState c))"
    "snd (lrs_AllocateRequestState r (neutralState c)) = None"
    using assms by (auto simp: cl_AllocateRequestState_def with_state_def Let_def split_beta)
  ultimately show ?thesis
    by (cases rule: Allocate_cases [of "neutralState c" r]) (auto simp: lrs_requestExists_def go_map_simps)
qed

theorem client_empty_type_not_released_witness:
  "lrs_requestExists ''b'' (neutralState (cl_ReleaseRequestState [] (ex_request ''b'' 1)
     (fst (cl_AllocateRequestState [] (ex_request ''b'' 1)
       (fst (run_ops cl_exec ex_client_ops (NewLocalRealtimeStateClient False)))))))"
proof -
  let ?c = "fst (run_ops cl_exec ex_client_ops (NewLocalRealtimeStateClient False))"
  have "snd (cl_AllocateRequestState [] (ex_request ''b'' 1) ?c) = None" by code_simp
  then have "cl_AllocateRequestState [] (ex_request ''b'' 1) ?c =
      (fst (cl_AllocateRequestState [] (ex_request ''b'' 1) ?c), None)"
    by (metis prod.collapse)
  from client_empty_type_not_released [OF this] show ?thesis
    by (simp add: ex_request_def NewRequestState_def)
qed

end
