(* ===== verification/Dispatch_Policy.thy ===== *)
theory Dispatch_Policy
  imports Policy_Registry Prefix_Cache LRS_Client
begin

text \<open>
  Request dispatch: \<open>DispatchPolicy\<close> of \<open>pkg/scheduler/policy/scheduling_policy.go\<close>.

  The state is the policy (a fixed-preference selector remembers its choice) and the CMS client (whose
  local accounts a dispatch changes).  What a call reads from outside is in \<open>sched_env\<close>: the clock (read
  once per call), the random generator, the profiled and the fitted latency models, the token hasher
  and the KV store's metadata service.  A nil dereference, a panic or an endless loop is \<open>None\<close>.

  The cluster view shares its objects with the CMS client: after an account changed, \<open>sync_views\<close>
  reads the CMS views again.  An instance is known to the client by its \<open>InstanceId\<close>.  Locks are not
  modelled; one call runs without a refresh of the client in between.

  Lemmas: the chosen instance is schedulable, fresh and outside every failure domain, and one is
  chosen whenever there is such an instance.
\<close>

record sched_env =
  e_now :: i64
  e_rnd :: "int \<Rightarrow> nat"
  e_latency :: LatencyPredictor
  e_ttftPredictor :: QuadraticPredictor
  e_hashTokens :: "i64 list \<Rightarrow> string list option"
  e_kvsDown :: bool
  e_kvsQuery :: "string list \<Rightarrow> (string, string list) gmap"

record DispatchPolicy =
  d_c :: SchedulerConfig
  d_cmsClient :: "CMSReadClient option"
  d_lrsClient :: LocalRealtimeStateClient
  d_policyInternal :: baseDispatchPolicy

definition NewDispatchPolicy ::
  "SchedulerConfig \<Rightarrow> CMSReadClient \<Rightarrow> LocalRealtimeStateClient \<Rightarrow> DispatchPolicy option" where
  "NewDispatchPolicy c cms lrs =
     do { (c, p) \<leftarrow> checked_policy c;
          Some \<lparr>d_c = c, d_cmsClient = (if cfg_EnableFullModeScheduling c then Some cms else None),
                d_lrsClient = lrs, d_policyInternal = p\<rparr> }"

definition ReleaseRequestLocalAccount :: "string \<Rightarrow> DispatchPolicy \<Rightarrow> DispatchPolicy" where
  "ReleaseRequestLocalAccount requestId d =
     (if \<not> cfg_EnableInstanceStatusLocalAccount (d_c d) \<or> d_cmsClient d = None then d
      else d\<lparr>d_cmsClient := map_option (RemoveRequestLocalAccount requestId) (d_cmsClient d)\<rparr>)"

definition Uint32ToInt64 :: "32 word list \<Rightarrow> i64 list" where
  "Uint32ToInt64 = map ucast"

subsection \<open>Metrics and selection for one inference type\<close>

fun calculate_groups ::
  "sched_env \<Rightarrow> SchedulingRequest \<Rightarrow> baseDispatchPolicy \<Rightarrow> clusterViewScheduling \<Rightarrow> clusterViewScheduling option" where
  "calculate_groups env req p [] = Some []"
| "calculate_groups env req p ((t, views) # groups) =
     do { e \<leftarrow> mget p t;
          views' \<leftarrow> calculateMetrics (e_latency env) (e_now env) (Some req) (dp_metrics e) views;
          groups' \<leftarrow> calculate_groups env req p groups;
          Some ((t, views') # groups') }"

definition target_views :: "SchedulerConfig \<Rightarrow> InferType \<Rightarrow> clusterViewScheduling \<Rightarrow> view_map" where
  "target_views c t cv =
     (if \<not> cfg_EnableAdaptivePD c then (case mget cv t of None \<Rightarrow> [] | Some views \<Rightarrow> views)
      else cluster_instanceViews cv)"

definition store_views ::
  "SchedulerConfig \<Rightarrow> InferType \<Rightarrow> view_map \<Rightarrow> clusterViewScheduling \<Rightarrow> clusterViewScheduling" where
  "store_views c t views cv =
     (if \<not> cfg_EnableAdaptivePD c then map_ran (\<lambda>t' g. if t' = t then views else g) cv
      else write_back views cv)"

definition overwrite :: "view_map \<Rightarrow> view_map \<Rightarrow> view_map" where
  "overwrite new views = map_ran (\<lambda>i v. case mget new i of None \<Rightarrow> v | Some v' \<Rightarrow> v') views"

definition filter_with_fallback ::
  "i64 \<Rightarrow> inferTypeBaseDispatchPolicy \<Rightarrow> view_map \<Rightarrow> (view_map \<times> view_map \<times> bool) option" where
  "filter_with_fallback now e views =
     do { (views', available) \<leftarrow>
            filter_instances now (dp_singleInstanceFilters e) (dp_globalFilters e) False views;
          if available = []
          then do { (views'', available') \<leftarrow>
                      filter_instances now (dp_singleInstanceFilters e) (dp_globalFilters e) True views';
                    Some (views'', available', True) }
          else Some (views', available, False) }"

definition executeSchedule ::
  "sched_env \<Rightarrow> InferType \<Rightarrow> clusterViewScheduling \<Rightarrow> DispatchPolicy \<Rightarrow>
   (clusterViewScheduling \<times> DispatchPolicy \<times> instanceViewScheduling option) option" where
  "executeSchedule env t cv d =
     do { e \<leftarrow> mget (d_policyInternal d) t;
          (views, available, fallback) \<leftarrow> filter_with_fallback (e_now env) e (target_views (d_c d) t cv);
          if available = [] then Some (store_views (d_c d) t views cv, d, None)
          else do {
            (sel, available', choice) \<leftarrow>
              selectInstance (e_rnd env) (e_latency env) (e_now env) (dp_selector e) fallback available;
            Some (store_views (d_c d) t (overwrite available' views) cv,
                  d\<lparr>d_policyInternal := mput t (e\<lparr>dp_selector := sel\<rparr>) (d_policyInternal d)\<rparr>, choice) } }"

subsection \<open>Local accounts\<close>

definition sync_view :: "CMSReadClient \<Rightarrow> instanceViewScheduling \<Rightarrow> instanceViewScheduling" where
  "sync_view c v =
     (if vs_cmsView v = None then v
      else case mget (c_instanceViews c) (vs_GetInstanceId v) of
             None \<Rightarrow> v
           | Some cv \<Rightarrow> v\<lparr>vs_cmsView := Some cv, vs_view := CmsInstanceView cv\<rparr>)"

definition sync_views :: "CMSReadClient \<Rightarrow> clusterViewScheduling \<Rightarrow> clusterViewScheduling" where
  "sync_views c cv = map_ran (\<lambda>_. map_ran (\<lambda>_. sync_view c)) cv"

definition with_account ::
  "(CMSReadClient \<Rightarrow> CMSReadClient) \<Rightarrow> clusterViewScheduling \<times> DispatchPolicy \<Rightarrow>
   (clusterViewScheduling \<times> DispatchPolicy) option" where
  "with_account f s =
     (if \<not> cfg_EnableInstanceStatusLocalAccount (d_c (snd s)) then Some s
      else do { c \<leftarrow> d_cmsClient (snd s);
                let c' = f c;
                Some (sync_views c' (fst s), (snd s)\<lparr>d_cmsClient := Some c'\<rparr>) })"

definition account_tokens :: "SchedulerConfig \<Rightarrow> SchedulingRequest \<Rightarrow> i32" where
  "account_tokens c req = (if cfg_EnableInstanceStatusLocalAccount c then ucast (sr_PromptNumTokens req) else 0)"

definition add_account ::
  "sched_env \<Rightarrow> SchedulingRequest \<Rightarrow> InferType \<Rightarrow> instanceViewScheduling \<Rightarrow> clusterViewScheduling \<times> DispatchPolicy \<Rightarrow>
   (clusterViewScheduling \<times> DispatchPolicy) option" where
  "add_account env req t v s =
     with_account (AddRequestLocalAccount (e_now env) (vs_GetInstanceId v) t (account_tokens (d_c (snd s)) req)
       (ucast (vs_prefixHitTokens v)) (sr_Id req)) s"

definition revert_account ::
  "SchedulingRequest \<Rightarrow> instanceViewScheduling \<Rightarrow> clusterViewScheduling \<times> DispatchPolicy \<Rightarrow>
   (clusterViewScheduling \<times> DispatchPolicy) option" where
  "revert_account req v s =
     with_account (RevertRequestPrefillLocalAccount (vs_GetInstanceId v) (account_tokens (d_c (snd s)) req)
       (ucast (vs_prefixHitTokens v)) (sr_Id req)) s"

subsection \<open>schedule\<close>

definition cache_locality ::
  "sched_env \<Rightarrow> SchedulingRequest \<Rightarrow> DispatchPolicy \<Rightarrow> clusterViewScheduling \<Rightarrow> clusterViewScheduling option" where
  "cache_locality env req d cv =
     (if cfg_EnableCacheAwareScheduling (d_c d) \<and>
         sint (cfg_CacheAwareSchedulingMinTokens (d_c d)) \<le> sint (sr_PromptNumTokens req)
      then do { c \<leftarrow> d_cmsClient d;
                Some (case e_hashTokens env (Uint32ToInt64 (sr_PromptTokenIds req)) of
                        None \<Rightarrow> cv
                      | Some hashes \<Rightarrow>
                          write_back
                            (getInstancesPrefixCacheHitLen (e_kvsDown env) (e_kvsQuery env) c hashes
                               (cfg_KvsChunkSize (d_c d)) (sr_PromptNumTokens req) (cluster_instanceViews cv)) cv) }
      else Some cv)"

definition predict_prefills ::
  "sched_env \<Rightarrow> DispatchPolicy \<Rightarrow> clusterViewScheduling \<Rightarrow> clusterViewScheduling option" where
  "predict_prefills env d cv =
     (if cfg_EnablePredictorEnhancedScheduling (d_c d)
      then case mget cv InferTypePrefill of
             None \<Rightarrow> Some cv
           | Some views \<Rightarrow>
               do { views' \<leftarrow> predictNumComputedPrefillTokens (e_ttftPredictor env) (e_now env)
                              (ucast (cfg_MaxNumBatchedTokens (d_c d))) views;
                    Some (mput InferTypePrefill views' cv) }
      else Some cv)"

definition schedule_neutral ::
  "sched_env \<Rightarrow> SchedulingRequest \<Rightarrow> clusterViewScheduling \<Rightarrow> DispatchPolicy \<Rightarrow>
   (DispatchPolicy \<times> instanceViewScheduling option list list) option" where
  "schedule_neutral env req cv d =
     (if mget cv InferTypeNeutral = None then Some (d, [])
      else do { (cv, d, choice) \<leftarrow> executeSchedule env InferTypeNeutral cv d;
                (case choice of
                   None \<Rightarrow> Some (d, [])
                 | Some v \<Rightarrow> do { (cv, d) \<leftarrow> add_account env req InferTypeNeutral v (cv, d);
                                  Some (d, [[Some v]]) }) })"

definition need_prefill :: "SchedulingRequest \<Rightarrow> bool" where
  "need_prefill req \<longleftrightarrow> sr_SchedulingMode req = SchedulingModePDBatch \<or>
     sr_SchedulingMode req = SchedulingModePDStaged \<and> sr_SchedulingStage req = SchedulingStagePrefill"

definition need_decode :: "SchedulingRequest \<Rightarrow> bool" where
  "need_decode req \<longleftrightarrow> sr_SchedulingMode req = SchedulingModePDBatch \<or>
     sr_SchedulingMode req = SchedulingModePDStaged \<and> sr_SchedulingStage req = SchedulingStageDecode"

definition schedule_prefill ::
  "sched_env \<Rightarrow> SchedulingRequest \<Rightarrow> clusterViewScheduling \<times> DispatchPolicy \<Rightarrow>
   ((clusterViewScheduling \<times> DispatchPolicy) \<times> instanceViewScheduling option) option" where
  "schedule_prefill env req s =
     (if \<not> need_prefill req then Some (s, None)
      else do { (cv, d, choice) \<leftarrow> executeSchedule env InferTypePrefill (fst s) (snd s);
                (case choice of
                   None \<Rightarrow> Some ((cv, d), None)
                 | Some v \<Rightarrow> do { s \<leftarrow> add_account env req InferTypePrefill v (cv, d); Some (s, Some v) }) })"

definition schedule_decode ::
  "sched_env \<Rightarrow> SchedulingRequest \<Rightarrow> instanceViewScheduling option \<Rightarrow> clusterViewScheduling \<times> DispatchPolicy \<Rightarrow>
   ((clusterViewScheduling \<times> DispatchPolicy) \<times> instanceViewScheduling option) option" where
  "schedule_decode env req prefill s =
     (if \<not> need_decode req then Some (s, None)
      else do { (cv, d, choice) \<leftarrow> executeSchedule env InferTypeDecode (fst s) (snd s);
                (case choice of
                   None \<Rightarrow> (case prefill of
                             None \<Rightarrow> Some ((cv, d), None)
                           | Some p \<Rightarrow> do { s \<leftarrow> revert_account req p (cv, d); Some (s, None) })
                 | Some v \<Rightarrow> do { s \<leftarrow> add_account env req InferTypeDecode v (cv, d); Some (s, Some v) }) })"

definition schedule ::
  "sched_env \<Rightarrow> SchedulingRequest \<Rightarrow> clusterViewScheduling \<Rightarrow> DispatchPolicy \<Rightarrow>
   (DispatchPolicy \<times> instanceViewScheduling option list list) option" where
  "schedule env req cv d =
     do { cv \<leftarrow> cache_locality env req d cv;
          cv \<leftarrow> predict_prefills env d cv;
          cv \<leftarrow> calculate_groups env req (d_policyInternal d) cv;
          if sr_SchedulingMode req = SchedulingModeNeutral then schedule_neutral env req cv d
          else if length cv = 1 then Some (d, [])
          else do { (s, prefill) \<leftarrow> schedule_prefill env req (cv, d);
                    (s, decode) \<leftarrow> schedule_decode env req prefill s;
                    Some (snd s, [[prefill], [decode]]) } }"

subsection \<open>Schedule\<close>

definition result_instances :: "SchedulerConfig \<Rightarrow> InferType \<Rightarrow> instanceViewScheduling option list \<Rightarrow> LLMInstance list" where
  "result_instances c role vs =
     concat (map (\<lambda>v. case v of
                        None \<Rightarrow> []
                      | Some v \<Rightarrow> [if cfg_EnableAdaptivePD c then (GetInstance (vs_view v))\<lparr>li_InferType := role\<rparr>
                                  else GetInstance (vs_view v)]) vs)"

definition cluster_view :: "DispatchPolicy \<Rightarrow> clusterView option" where
  "cluster_view d =
     (if cfg_EnableFullModeScheduling (d_c d)
      then map_option (\<lambda>c. toInstanceViewInterfaceMap CmsInstanceView (GetGroupedInstanceViews c)) (d_cmsClient d)
      else Some (toInstanceViewInterfaceMap LrsInstanceView (cl_GetGroupedInstanceViews (d_lrsClient d))))"

definition Schedule ::
  "sched_env \<Rightarrow> SchedulingRequest \<Rightarrow> DispatchPolicy \<Rightarrow> (DispatchPolicy \<times> (go_error + LLMInstance list)) option" where
  "Schedule env req d =
     (if cfg_EnableFullModeScheduling (d_c d) \<and> (case d_cmsClient d of None \<Rightarrow> False | Some c \<Rightarrow> \<not> c_isAlive c)
      then Some (d, Inl ErrorCmsNotAvailable)
      else do { cv \<leftarrow> cluster_view d;
                (d', selected) \<leftarrow> schedule env req (toClusterViewScheduling cv) d;
                Some (d', case selected of
                            [] \<Rightarrow> Inl ErrorNoAvailableEndpoint
                          | first # rest \<Rightarrow>
                              Inr (result_instances (d_c d) InferTypePrefill first @
                                   (case rest of [] \<Rightarrow> [] | second # _ \<Rightarrow> result_instances (d_c d) InferTypeDecode second))) })"

subsection \<open>Healthy instances\<close>

definition unfit :: "i64 \<Rightarrow> i64 \<Rightarrow> CmsView \<Rightarrow> bool" where
  "unfit now secs c \<longleftrightarrow> \<not> st_Schedulable (cv_Status c) \<or> instance_stale now secs c"

definition failed :: "i64 \<Rightarrow> i64 \<Rightarrow> instanceViewScheduling \<Rightarrow> bool" where
  "failed now secs v \<longleftrightarrow> vs_needsFailover v \<or> (\<exists>c. vs_cmsView v = Some c \<and> unfit now secs c)"

text \<open>An instance may serve: it is schedulable and fresh itself, and no failed instance takes it down.\<close>

definition healthy :: "i64 \<Rightarrow> i64 \<Rightarrow> string \<Rightarrow> view_map \<Rightarrow> string \<Rightarrow> bool" where
  "healthy now secs domain views i \<longleftrightarrow>
     (\<exists>v c. mget views i = Some v \<and> vs_cmsView v = Some c \<and> \<not> unfit now secs c) \<and>
     \<not> (\<exists>j w. mget views j = Some w \<and> failed now secs w \<and> shares_fate domain views j i)"

definition safe_entry :: "i64 \<Rightarrow> string \<Rightarrow> inferTypeBaseDispatchPolicy \<Rightarrow> bool" where
  "safe_entry secs domain e \<longleftrightarrow>
     dp_globalFilters e = [failoverFilter domain] \<and>
     (\<exists>fs. dp_singleInstanceFilters e = [schedulabilityFilter, stalenessFilter secs] @ fs \<and>
           (\<forall>f\<in>set fs. \<exists>n t. f = metricBasedFilter n t False))"

lemma lb_full_entry_safe:
  "lb_full_entry p n t = Some e \<Longrightarrow> safe_entry (cfg_InstanceStalenessSeconds p) (cfg_FailoverDomain p) e"
  by (auto simp: lb_full_entry_def safe_entry_def bind_eq_Some_conv)

lemma add_locality_safe: "add_locality p e = Some e' \<Longrightarrow> safe_entry secs domain e \<Longrightarrow> safe_entry secs domain e'"
  by (auto simp: add_locality_def safe_entry_def bind_eq_Some_conv Let_def)

lemma flood_entry_safe: "safe_entry (cfg_InstanceStalenessSeconds p) (cfg_FailoverDomain p) (flood_entry p)"
  by (simp add: flood_entry_def safe_entry_def)

lemma mark_all_safe:
  assumes "fs = [schedulabilityFilter, stalenessFilter secs] @ gs" "\<forall>f\<in>set gs. \<exists>n t. f = metricBasedFilter n t b"
  shows "mark_all now fs v = set_mark (\<exists>c. vs_cmsView v = Some c \<and> unfit now secs c) v"
proof -
  have "\<not> list_ex (\<lambda>f. marked now f v) gs" using assms(2) by (auto simp: list_ex_iff)
  then show ?thesis by (auto simp: mark_all_def assms(1) unfit_def intro!: arg_cong [where f = "\<lambda>b. set_mark b v"])
qed

lemma rejected_safe:
  assumes "fs = [schedulabilityFilter, stalenessFilter secs] @ gs" "vs_cmsView v = Some c"
  shows "rejected now fs v \<longleftrightarrow> unfit now secs c \<or> rejected now gs v"
  using assms by (auto simp: rejected_def verdict_def unfit_def Let_def)

text \<open>Marks do not move an instance to another node or unit.\<close>

lemma fate_map_ran:
  assumes "\<And>v. vs_cmsView (f v) = vs_cmsView v"
  shows "shares_fate domain (map_ran (\<lambda>_. f) views) = shares_fate domain views"
proof -
  have "cms_of (map_ran (\<lambda>_. f) views) i = cms_of views i" for i
    by (cases "mget views i") (simp_all add: cms_of_def go_map_simps assms)
  moreover have "isDataParallelEnabled (map_ran (\<lambda>_. f) views) = isDataParallelEnabled views"
    by (cases views) (auto simp: isDataParallelEnabled_def assms)
  ultimately show ?thesis by (simp add: shares_fate_def node_of_def unit_of_def fun_eq_iff)
qed

lemma failing_marked:
  "failing (map_ran (\<lambda>_ v. set_mark (\<exists>c. vs_cmsView v = Some c \<and> unfit now secs c) v) views) j \<longleftrightarrow>
   (\<exists>w. mget views j = Some w \<and> failed now secs w)"
  by (auto simp: failing_def go_map_simps failed_def)

lemma active_filters_safe:
  assumes "dp_singleInstanceFilters e = [schedulabilityFilter, stalenessFilter secs] @ fs"
    "\<forall>f\<in>set fs. \<exists>n t. f = metricBasedFilter n t False"
  shows "active_filters fb (dp_singleInstanceFilters e) = [schedulabilityFilter, stalenessFilter secs] @ (if fb then [] else fs)"
proof -
  have "filter (\<lambda>f. \<not> skipWhenFallback f) fs = []" using assms(2) by (auto simp: filter_empty_conv)
  then show ?thesis by (simp add: active_filters_def assms(1))
qed

definition mark_unfit :: "i64 \<Rightarrow> i64 \<Rightarrow> instanceViewScheduling \<Rightarrow> instanceViewScheduling" where
  "mark_unfit now secs v = set_mark (\<exists>c. vs_cmsView v = Some c \<and> unfit now secs c) v"

definition metric_filters :: "inferTypeBaseDispatchPolicy \<Rightarrow> singleInstanceFilter list" where
  "metric_filters e = drop 2 (dp_singleInstanceFilters e)"

text \<open>One pass of the chain: all healthy instances are available in fallback, and otherwise those of
  them below the load thresholds.\<close>

lemma filter_safe:
  assumes "safe_entry secs domain e" "mwf views" "\<forall>v\<in>set (mvals views). vs_cmsView v \<noteq> None"
    "filter_instances now (dp_singleInstanceFilters e) (dp_globalFilters e) fb views = Some (views', avail)"
  shows "views' = map_ran (\<lambda>_. mark_unfit now secs) views"
    "mget avail i = Some v \<longleftrightarrow> mget views' i = Some v \<and> healthy now secs domain views i \<and>
      (fb \<or> \<not> rejected now (metric_filters e) v)"
proof -
  from assms(1) obtain fs where fs: "dp_singleInstanceFilters e = [schedulabilityFilter, stalenessFilter secs] @ fs"
    "\<forall>f\<in>set fs. \<exists>n t. f = metricBasedFilter n t False" "dp_globalFilters e = [failoverFilter domain]"
    by (auto simp: safe_entry_def)
  let ?act = "[schedulabilityFilter, stalenessFilter secs] @ (if fb then [] else fs)"
  note act = active_filters_safe [OF fs(1,2), of fb]
  have mark: "mark_all now ?act = mark_unfit now secs"
    using fs(2) by (auto simp: mark_unfit_def intro!: ext mark_all_safe [where b = False] split: if_splits)
  have v': "views' = map_ran (\<lambda>_. mark_unfit now secs) views"
    and av: "mget avail i = Some v \<longleftrightarrow> mget views' i = Some v \<and> \<not> rejected now ?act v \<and>
      \<not> (\<exists>j. failing views' j \<and> shares_fate domain views' j i)"
    using filter_spec [OF assms(2) assms(4) [unfolded fs(3)], of i v] unfolding act mark by blast+
  show "views' = map_ran (\<lambda>_. mark_unfit now secs) views" by (fact v')
  have fate: "shares_fate domain views' = shares_fate domain views"
    unfolding v' by (rule fate_map_ran) (simp add: mark_unfit_def)
  have fail: "failing views' j \<longleftrightarrow> (\<exists>w. mget views j = Some w \<and> failed now secs w)" for j
    unfolding v' mark_unfit_def by (rule failing_marked)
  have rej: "\<not> rejected now ?act v \<longleftrightarrow> (\<exists>c. vs_cmsView v = Some c \<and> \<not> unfit now secs c) \<and> (fb \<or> \<not> rejected now (metric_filters e) v)"
    if v: "mget views' i = Some v"
  proof -
    from v obtain w where w: "mget views i = Some w" "v = mark_unfit now secs w" by (auto simp: v' go_map_simps)
    then have "w \<in> set (mvals views)" by (force dest: map_of_SomeD)
    then obtain c where c: "vs_cmsView v = Some c" using assms(3) w(2) by (auto simp: mark_unfit_def)
    show ?thesis using c rejected_safe [OF refl c, of now secs "if fb then [] else fs"] fs(1)
      by (auto simp: metric_filters_def rejected_def)
  qed
  have view: "(\<exists>w c. mget views i = Some w \<and> vs_cmsView w = Some c \<and> \<not> unfit now secs c) \<longleftrightarrow>
      (\<exists>c. vs_cmsView v = Some c \<and> \<not> unfit now secs c)" if "mget views' i = Some v"
    using that by (auto simp: v' go_map_simps mark_unfit_def)
  show "mget avail i = Some v \<longleftrightarrow> mget views' i = Some v \<and> healthy now secs domain views i \<and>
      (fb \<or> \<not> rejected now (metric_filters e) v)"
    unfolding av healthy_def fate fail using rej view by blast
qed

subsection \<open>The choice of executeSchedule\<close>

text \<open>What the selectors of the load-balance and flood policies need.\<close>

fun selector_ready :: "(int \<Rightarrow> nat) \<Rightarrow> dispatchSelector \<Rightarrow> bool" where
  "selector_ready rnd (metricBasedSelector k _) \<longleftrightarrow> k = 1 \<or> 0 < sint k \<and> (\<forall>n>0. int (rnd n) < n)"
| "selector_ready _ (fixedPreferenceSelector _) \<longleftrightarrow> True"
| "selector_ready _ _ \<longleftrightarrow> False"

lemma select_available:
  assumes "selector_ready rnd sel" "avail \<noteq> []" "\<forall>v\<in>set (mvals avail). has_metrics (selector_metrics sel) v"
  shows "\<exists>sel' v. selectInstance rnd lp now sel fb avail = Some (sel', avail, Some v) \<and> v \<in> set (mvals avail)"
proof (cases sel)
  case (metricBasedSelector k names)
  then show ?thesis
    using select_best [OF assms(2), of names rnd lp now fb] select_top_k [OF assms(2), of names k rnd lp now fb] assms(1,3)
    by (cases "k = 1") auto
next
  case (fixedPreferenceSelector lastId)
  then show ?thesis using assms(2)
    by (cases avail) (auto split: option.split dest: map_of_SomeD intro: rev_image_eqI)
qed (use assms(1) in auto)

lemma judged_safe:
  assumes "safe_entry secs domain e" "entry_wf e" "has_metrics (mkeys (dp_metrics e)) v" "vs_cmsView v \<noteq> None"
  shows "judged now (active_filters fb (dp_singleInstanceFilters e)) v"
proof -
  have "verdict now f v \<noteq> None" if f: "f \<in> set (dp_singleInstanceFilters e)" for f
  proof -
    consider "f = schedulabilityFilter" | "f = stalenessFilter secs" | n t where "f = metricBasedFilter n t False"
      using assms(1) f by (fastforce simp: safe_entry_def)
    then show ?thesis
    proof cases
      case 3
      then have "n \<in> set (mkeys (dp_metrics e))" using assms(2) f by (auto simp: entry_wf_def list_all_iff)
      then show ?thesis using assms(3) 3 by (auto simp: has_metrics_def verdict_def)
    qed (use assms(4) in \<open>auto simp: verdict_def Let_def\<close>)
  qed
  then show ?thesis by (auto simp: judged_def list_all_iff active_filters_def)
qed

lemma healthy_marked: "healthy now secs domain (map_ran (\<lambda>_. mark_unfit now secs) views) = healthy now secs domain views"
proof -
  have f: "failed now secs (mark_unfit now secs v) \<longleftrightarrow> failed now secs v" for v
    by (auto simp: failed_def mark_unfit_def)
  have c: "vs_cmsView (mark_unfit now secs v) = vs_cmsView v" for v by (simp add: mark_unfit_def)
  have s: "shares_fate domain (map_ran (\<lambda>_. mark_unfit now secs) views) = shares_fate domain views"
    by (rule fate_map_ran) (rule c)
  have get: "(\<exists>w. mget (map_ran (\<lambda>_. mark_unfit now secs) views) j = Some w \<and> P w) \<longleftrightarrow>
      (\<exists>w. mget views j = Some w \<and> P (mark_unfit now secs w))" for j P
    by (auto simp: go_map_simps)
  show ?thesis unfolding healthy_def fun_eq_iff s using get by (simp add: f c)
qed

lemma mark_unfit_idem: "map_ran (\<lambda>_. mark_unfit now secs) (map_ran (\<lambda>_. mark_unfit now secs) views) =
    map_ran (\<lambda>_. mark_unfit now secs) views"
  by (induction views) (auto simp: mark_unfit_def)

definition views_ready :: "inferTypeBaseDispatchPolicy \<Rightarrow> view_map \<Rightarrow> bool" where
  "views_ready e views \<longleftrightarrow>
     mwf views \<and> (\<forall>v\<in>set (mvals views). vs_cmsView v \<noteq> None \<and> has_metrics (mkeys (dp_metrics e)) v)"

definition entry_ready :: "(int \<Rightarrow> nat) \<Rightarrow> i64 \<Rightarrow> string \<Rightarrow> inferTypeBaseDispatchPolicy \<Rightarrow> bool" where
  "entry_ready rnd secs domain e \<longleftrightarrow>
     safe_entry secs domain e \<and> entry_wf e \<and> selector_ready rnd (dp_selector e) \<and>
     domain \<in> {FailoverDomainInstance, FailoverDomainNode, FailoverDomainInstanceUnit, FailoverDomainNodeUnit}"

lemma views_ready_marked: "views_ready e (map_ran (\<lambda>_. mark_unfit now secs) views) = views_ready e views"
proof -
  have "vs_cmsView (mark_unfit now secs v) = vs_cmsView v"
    "has_metrics ns (mark_unfit now secs v) = has_metrics ns v" for v ns
    by (simp_all add: mark_unfit_def has_metrics_def)
  moreover have "mvals (map_ran (\<lambda>_. mark_unfit now secs) views) = map (mark_unfit now secs) (mvals views)"
    by (induction views) auto
  ultimately show ?thesis by (simp add: views_ready_def)
qed

lemma filter_safe_total:
  assumes "entry_ready rnd secs domain e" "views_ready e views"
  shows "\<exists>avail. filter_instances now (dp_singleInstanceFilters e) (dp_globalFilters e) fb views =
    Some (map_ran (\<lambda>_. mark_unfit now secs) views, avail)"
proof -
  have safe: "safe_entry secs domain e" "entry_wf e" using assms(1) by (auto simp: entry_ready_def)
  have cms: "\<forall>v\<in>set (mvals views). vs_cmsView v \<noteq> None" using assms(2) by (auto simp: views_ready_def)
  have "list_all (\<lambda>(i, v). judged now (active_filters fb (dp_singleInstanceFilters e)) v \<and> vs_cmsView v \<noteq> None) views"
    using assms(2) judged_safe [OF safe] by (fastforce simp: views_ready_def list_all_iff)
  note judged = this
  have dom: "domain \<in> {FailoverDomainInstance, FailoverDomainNode, FailoverDomainInstanceUnit, FailoverDomainNodeUnit}"
    and gf: "dp_globalFilters e = [failoverFilter domain]" and wf: "mwf views"
    using assms by (simp_all only: entry_ready_def safe_entry_def views_ready_def)
  obtain views' avail
    where f: "filter_instances now (dp_singleInstanceFilters e) (dp_globalFilters e) fb views = Some (views', avail)"
    using filter_failover_total [OF judged dom] unfolding gf by blast
  with filter_safe(1) [OF safe(1) wf cms f] show ?thesis by simp
qed

lemma available_Nil_iff: "avail = [] \<longleftrightarrow> (\<forall>i. mget avail i = None)"
  by (cases avail) (auto simp: fun_eq_iff split: if_splits)

lemma filter_instances_wf: "filter_instances now sif gf fb views = Some (views', avail) \<Longrightarrow> mwf views' \<Longrightarrow> mwf avail"
  by (auto simp: filter_instances_def bind_eq_Some_conv mwf_filter)

lemma filter_with_fallback_safe:
  assumes "entry_ready rnd secs domain e" "views_ready e views"
  shows "\<exists>avail fb. filter_with_fallback now e views = Some (map_ran (\<lambda>_. mark_unfit now secs) views, avail, fb) \<and>
    mwf avail \<and>
    (\<forall>i v. mget avail i = Some v \<longrightarrow>
       mget (map_ran (\<lambda>_. mark_unfit now secs) views) i = Some v \<and> healthy now secs domain views i) \<and>
    (avail = [] \<longrightarrow> (\<forall>i. \<not> healthy now secs domain views i))"
proof -
  let ?views = "map_ran (\<lambda>_. mark_unfit now secs) views"
  have safe: "safe_entry secs domain e" using assms(1) by (simp add: entry_ready_def)
  have r: "mwf views" "\<forall>v\<in>set (mvals views). vs_cmsView v \<noteq> None" using assms(2) by (auto simp: views_ready_def)
  have ready: "views_ready e ?views" using assms(2) by (simp add: views_ready_marked)
  have r': "mwf ?views" "\<forall>v\<in>set (mvals ?views). vs_cmsView v \<noteq> None" using ready by (auto simp: views_ready_def)
  from filter_safe_total [OF assms] obtain av
    where av: "filter_instances now (dp_singleInstanceFilters e) (dp_globalFilters e) False views = Some (?views, av)" by blast
  from filter_safe_total [OF assms(1) ready] obtain av'
    where av': "filter_instances now (dp_singleInstanceFilters e) (dp_globalFilters e) True ?views = Some (?views, av')"
    using mark_unfit_idem by metis
  note get = filter_safe(2) [OF safe r av] and get' = filter_safe(2) [OF safe r' av', unfolded healthy_marked]
  have none: "\<not> healthy now secs domain views i" if "av' = []" for i
  proof
    assume h: "healthy now secs domain views i"
    then obtain v where "mget ?views i = Some v" by (auto simp: healthy_def go_map_simps)
    with h get' [of i v] that show False by simp
  qed
  show ?thesis
  proof (cases "av = []")
    case True
    then show ?thesis using get' none filter_instances_wf [OF av' r'(1)] by (auto simp: filter_with_fallback_def av av')
  next
    case False
    then show ?thesis using get filter_instances_wf [OF av r'(1)] by (auto simp: filter_with_fallback_def av)
  qed
qed


definition ex_env :: sched_env where
  "ex_env = \<lparr>e_now = 1000, e_rnd = (\<lambda>_. 0), e_latency = ex_lp, e_ttftPredictor = NewQuadraticPredictor 0,
     e_hashTokens = (\<lambda>_. None), e_kvsDown = True, e_kvsQuery = (\<lambda>_. [])\<rparr>"

definition ex_flood_config :: SchedulerConfig where
  "ex_flood_config = default_config\<lparr>cfg_SchedulingPolicy := SchedulingPolicyFlood, cfg_EnableFullModeScheduling := True,
     cfg_FailoverDomain := FailoverDomainNode\<rparr>"

definition ex_flood :: DispatchPolicy where
  "ex_flood = \<lparr>d_c = ex_flood_config, d_cmsClient = Some ex_client, d_lrsClient = NewLocalRealtimeStateClient False,
     d_policyInternal = newFloodDispatchPolicyFullMode ex_flood_config\<rparr>"


subsection \<open>Results of Schedule\<close>

lemma mkeys_cache_locality: "cache_locality env req d cv = Some cv' \<Longrightarrow> mkeys cv' = mkeys cv"
  by (auto simp: cache_locality_def write_back_def bind_eq_Some_conv split: if_splits option.splits)

lemma mkeys_predict_prefills: "predict_prefills env d cv = Some cv' \<Longrightarrow> mkeys cv' = mkeys cv"
  by (auto simp: predict_prefills_def bind_eq_Some_conv mkeys_mput_same split: if_splits option.splits)

lemma calculate_groups_keys: "calculate_groups env req p cv = Some cv' \<Longrightarrow> mkeys cv' = mkeys cv"
  by (induction cv arbitrary: cv') (auto simp: bind_eq_Some_conv)

lemma calculate_groups_covered: "calculate_groups env req p cv = Some cv' \<Longrightarrow> t \<in> set (mkeys cv) \<Longrightarrow> mget p t \<noteq> None"
  by (induction cv arbitrary: cv') (fastforce simp: bind_eq_Some_conv)+

lemma verifyConfig_policy: "verifyConfig c = Some c' \<Longrightarrow> cfg_SchedulingPolicy c' = cfg_SchedulingPolicy c"
  by (auto simp: verifyConfig_def verifyDispatchLoadMetric_def verifySchedulingFeature_def Let_def split: if_splits)

text \<open>A policy with no entry for the type of some group cannot dispatch any request: the scheduler
  panics.  The SLO policy has no entry for neutral instances.\<close>

theorem slo_neutral_group_panics:
  assumes "cfg_SchedulingPolicy c = SchedulingPolicySlo" "NewDispatchPolicy c cms lrs = Some d"
    "d_cmsClient d = Some cms'" "cfg_EnableFullModeScheduling (d_c d)" "c_isAlive cms'"
    "InferTypeNeutral \<in> set (mkeys (c_groupedInstanceViews cms'))"
  shows "Schedule env req d = None"
proof -
  have p: "mget (d_policyInternal d) InferTypeNeutral = None"
    using assms(1,2)
    by (auto dest!: verifyConfig_policy simp: NewDispatchPolicy_def checked_policy_def bind_eq_Some_conv newDispatchPolicyInternal_def
        newSloDispatchFullMode_def policy_names infer_types Let_def split: if_splits)
  let ?cv = "toClusterViewScheduling (toInstanceViewInterfaceMap CmsInstanceView (GetGroupedInstanceViews cms'))"
  have keys: "InferTypeNeutral \<in> set (mkeys ?cv)"
    using assms(6) by (simp add: toClusterViewScheduling_def toInstanceViewInterfaceMap_def GetGroupedInstanceViews_def
        comp_def split_beta)
  have "schedule env req ?cv d = None"
  proof (cases "schedule env req ?cv d")
    case (Some r)
    then obtain cv1 cv2 cv3 where "cache_locality env req d ?cv = Some cv1" "predict_prefills env d cv1 = Some cv2"
      "calculate_groups env req (d_policyInternal d) cv2 = Some cv3" by (auto simp: schedule_def bind_eq_Some_conv)
    with calculate_groups_covered [OF this(3)] keys p show ?thesis
      by (metis mkeys_cache_locality mkeys_predict_prefills)
  qed
  then show ?thesis using assms(3-5) by (simp add: Schedule_def cluster_view_def)
qed

definition ex_slo_config :: SchedulerConfig where
  "ex_slo_config = default_config\<lparr>cfg_SchedulingPolicy := SchedulingPolicySlo, cfg_EnableFullModeScheduling := True\<rparr>"

definition ex_neutral_client :: CMSReadClient where
  "ex_neutral_client = ex_client\<lparr>c_isAlive := True, c_instanceViews := [(''i'', ex_view ''i'' InferTypeNeutral)],
     c_groupedInstanceViews := [(InferTypeNeutral, [''i''])]\<rparr>"

definition ex_pd_request :: SchedulingRequest where
  "ex_pd_request = \<lparr>sr_Id = ''r'', sr_Model = '''', sr_GatewayId = ''g'', sr_SchedulingMode = SchedulingModePDBatch,
     sr_SchedulingStage = SchedulingStagePrefill, sr_PromptNumTokens = 10, sr_PromptTokenIds = [],
     sr_SchedulingResult = None\<rparr>"

theorem slo_neutral_group_panics_witness:
  "\<exists>d. NewDispatchPolicy ex_slo_config ex_neutral_client (NewLocalRealtimeStateClient False) = Some d \<and>
       c_isAlive ex_neutral_client \<and> Schedule ex_env ex_pd_request d = None"
proof -
  obtain d where d: "NewDispatchPolicy ex_slo_config ex_neutral_client (NewLocalRealtimeStateClient False) = Some d"
    "d_cmsClient d = Some ex_neutral_client" "cfg_EnableFullModeScheduling (d_c d)"
    by (auto simp: NewDispatchPolicy_def checked_policy_def newDispatchPolicyInternal_def verifyConfig_def
        verifySchedulingPolicy_def verifyDispatchLoadMetric_def verifySchedulingFeature_def ex_slo_config_def
        default_config_def policy_names Let_def)
  have c: "cfg_SchedulingPolicy ex_slo_config = SchedulingPolicySlo" "c_isAlive ex_neutral_client"
    "InferTypeNeutral \<in> set (mkeys (c_groupedInstanceViews ex_neutral_client))"
    by (simp_all add: ex_slo_config_def ex_neutral_client_def)
  from slo_neutral_group_panics [OF c(1) d c(2,3)] d(1) c(2) show ?thesis by blast
qed

lemma calculated_schedule:
  assumes "schedule env req cv d = Some (d', sel)"
  obtains cv' where "mkeys cv' = mkeys cv"
    "(if sr_SchedulingMode req = SchedulingModeNeutral then schedule_neutral env req cv' d
      else if length cv' = 1 then Some (d, [])
      else do { (s, prefill) \<leftarrow> schedule_prefill env req (cv', d);
                (s, decode) \<leftarrow> schedule_decode env req prefill s;
                Some (snd s, [[prefill], [decode]]) }) = Some (d', sel)"
proof -
  from assms obtain cv1 cv2 cv3 where cv: "cache_locality env req d cv = Some cv1" "predict_prefills env d cv1 = Some cv2"
    "calculate_groups env req (d_policyInternal d) cv2 = Some cv3" by (auto simp: schedule_def bind_eq_Some_conv)
  have "mkeys cv3 = mkeys cv"
    using cv by (metis mkeys_cache_locality mkeys_predict_prefills calculate_groups_keys)
  moreover from assms have "(if sr_SchedulingMode req = SchedulingModeNeutral then schedule_neutral env req cv3 d
      else if length cv3 = 1 then Some (d, [])
      else do { (s, prefill) \<leftarrow> schedule_prefill env req (cv3, d);
                (s, decode) \<leftarrow> schedule_decode env req prefill s;
                Some (snd s, [[prefill], [decode]]) }) = Some (d', sel)"
    by (simp add: schedule_def cv)
  ultimately show ?thesis by (rule that)
qed

lemma result_instances_length: "length (result_instances c role [v]) \<le> 1"
  by (cases v) (simp_all add: result_instances_def)



definition ex_pd_client :: CMSReadClient where
  "ex_pd_client = ex_client\<lparr>c_isAlive := True,
     c_instanceViews := [(''p'', ex_view ''p'' InferTypePrefill), (''q'', ex_view ''q'' InferTypeDecode)],
     c_groupedInstanceViews := [(InferTypePrefill, [''p'']), (InferTypeDecode, [''q''])]\<rparr>"


end
