(* ===== verification/Llumlet_Clients.thy ===== *)
theory Llumlet_Clients
  imports Go_Prelude "HOL-Library.Monad_Syntax"
begin

text \<open>
  The pool of gRPC connections to the llumlets: \<open>pkg/scheduler/llumlet/llumlet_client_manager.go\<close>.

  A connection is its instance, its address and the time of its last use; the elements of the LRU
  list are the connections of the pool, named by their instances, most recently used first.  Whether
  \<open>grpc.NewClient\<close> accepts an address is a parameter.  \<open>cm_closed\<close> records the connections that were
  closed.  Migrations run concurrently; every method holds the lock of the manager, so a run is a
  sequence of the methods in any order.

  Lemmas: the list and the map agree, the eviction loop returns, and under every interleaving of
  migrations a connection in use stays in the pool.
\<close>

record ClientConnection =
  cc_instanceId :: string
  cc_address :: string
  cc_lastUsedTime :: i64

record ClientManager =
  cm_clientConnections :: "(string, ClientConnection) gmap"
  cm_requestCnt :: "(string, int) gmap"
  cm_maxSize :: int
  cm_lruList :: "string list"
  cm_closed :: "ClientConnection list"

datatype client_error = ErrMaxSize | ErrDial

definition NewClientConnection :: "string \<Rightarrow> string \<Rightarrow> i64 \<Rightarrow> ClientConnection" where
  "NewClientConnection instanceId address now =
     \<lparr>cc_instanceId = instanceId, cc_address = address, cc_lastUsedTime = now\<rparr>"

definition NewClientManager :: "int \<Rightarrow> ClientManager" where
  "NewClientManager maxSize =
     \<lparr>cm_clientConnections = [], cm_requestCnt = [], cm_maxSize = (if maxSize \<le> 0 then - 1 else maxSize),
      cm_lruList = [], cm_closed = []\<rparr>"

definition request_cnt :: "ClientManager \<Rightarrow> string \<Rightarrow> int" where
  "request_cnt cm i = (case mget (cm_requestCnt cm) i of None \<Rightarrow> 0 | Some n \<Rightarrow> n)"

definition DecrClientConnectionRequestCnt :: "string \<Rightarrow> ClientManager \<Rightarrow> ClientManager" where
  "DecrClientConnectionRequestCnt i cm =
     (case mget (cm_requestCnt cm) i of
        None \<Rightarrow> cm
      | Some cnt \<Rightarrow> if 0 < cnt then cm\<lparr>cm_requestCnt := mput i (cnt - 1) (cm_requestCnt cm)\<rparr> else cm)"

definition use_client :: "i64 \<Rightarrow> string \<Rightarrow> ClientConnection \<Rightarrow> ClientManager \<Rightarrow> ClientManager \<times> ClientConnection" where
  "use_client now i c cm =
     (let c' = c\<lparr>cc_lastUsedTime := now\<rparr>
      in (cm\<lparr>cm_clientConnections := mput i c' (cm_clientConnections cm), cm_lruList := i # remove1 i (cm_lruList cm),
             cm_requestCnt := mput i (request_cnt cm i + 1) (cm_requestCnt cm)\<rparr>, c'))"

definition GetClient :: "i64 \<Rightarrow> string \<Rightarrow> ClientManager \<Rightarrow> ClientManager \<times> ClientConnection option" where
  "GetClient now i cm =
     (case mget (cm_clientConnections cm) i of
        None \<Rightarrow> (cm, None)
      | Some c \<Rightarrow> map_prod (\<lambda>m. m) Some (use_client now i c cm))"

definition evict :: "string \<Rightarrow> ClientManager \<Rightarrow> ClientManager" where
  "evict i cm =
     cm\<lparr>cm_closed := (case mget (cm_clientConnections cm) i of None \<Rightarrow> [] | Some c \<Rightarrow> [c]) @ cm_closed cm,
        cm_clientConnections := mdel i (cm_clientConnections cm), cm_requestCnt := mdel i (cm_requestCnt cm),
        cm_lruList := butlast (cm_lruList cm)\<rparr>"

text \<open>The loop that makes room; the flag says that it gave up on a connection in use.  An empty list
  with a full pool would make it spin.\<close>

partial_function (option) make_room :: "ClientManager \<Rightarrow> (ClientManager \<times> bool) option" where
  "make_room cm =
     (if 0 < cm_maxSize cm \<and> cm_maxSize cm \<le> int (length (cm_clientConnections cm))
      then if cm_lruList cm = [] then make_room cm
           else let i = last (cm_lruList cm)
                in if 0 < request_cnt cm i then Some (cm, True) else make_room (evict i cm)
      else Some (cm, False))"

definition createClient ::
  "(string \<Rightarrow> bool) \<Rightarrow> i64 \<Rightarrow> string \<Rightarrow> string \<Rightarrow> ClientManager \<Rightarrow> (ClientManager \<times> (client_error + ClientConnection)) option" where
  "createClient dial now i address cm =
     (case mget (cm_clientConnections cm) i of
        Some c \<Rightarrow> Some (map_prod (\<lambda>m. m) Inr (use_client now i c cm))
      | None \<Rightarrow>
          do { (cm, full) \<leftarrow> make_room cm;
               if full then Some (cm, Inl ErrMaxSize)
               else if \<not> dial address then Some (cm, Inl ErrDial)
               else let c = NewClientConnection i address now
                    in Some (cm\<lparr>cm_lruList := i # cm_lruList cm,
                                cm_clientConnections := mput i c (cm_clientConnections cm),
                                cm_requestCnt := mput i 1 (cm_requestCnt cm)\<rparr>, Inr c) })"

definition GetOrCreateClient ::
  "(string \<Rightarrow> bool) \<Rightarrow> i64 \<Rightarrow> string \<Rightarrow> string \<Rightarrow> ClientManager \<Rightarrow> (ClientManager \<times> (client_error + ClientConnection)) option" where
  "GetOrCreateClient dial now i address cm =
     (case GetClient now i cm of
        (cm', Some c) \<Rightarrow> Some (cm', Inr c)
      | (cm', None) \<Rightarrow> createClient dial now i address cm')"

definition CloseAll :: "ClientManager \<Rightarrow> ClientManager" where
  "CloseAll cm =
     cm\<lparr>cm_closed := mvals (cm_clientConnections cm) @ cm_closed cm, cm_lruList := [], cm_clientConnections := [],
        cm_requestCnt := []\<rparr>"

subsection \<open>Well-formed pools\<close>

definition pool_ok :: "ClientManager \<Rightarrow> bool" where
  "pool_ok cm \<longleftrightarrow>
     mwf (cm_clientConnections cm) \<and> mwf (cm_requestCnt cm) \<and> distinct (cm_lruList cm) \<and>
     set (cm_lruList cm) = set (mkeys (cm_clientConnections cm)) \<and>
     set (mkeys (cm_requestCnt cm)) = set (mkeys (cm_clientConnections cm)) \<and>
     (\<forall>i. 0 \<le> request_cnt cm i) \<and>
     (0 < cm_maxSize cm \<longrightarrow> int (length (cm_clientConnections cm)) \<le> cm_maxSize cm)"

lemma keys_mput: "fst ` set (mput k v m) = insert k (fst ` set m)"
  by (induction m) auto

lemma keys_mdel: "fst ` set (mdel k m) = fst ` set m - {k}"
  by (induction m) auto

lemma mget_key: "mget m k = Some v \<Longrightarrow> k \<in> fst ` set m"
  by (force dest: map_of_SomeD)

lemma length_mput_same: "k \<in> set (mkeys m) \<Longrightarrow> length (mput k v m) = length m"
  by (induction m) auto

lemma length_mput_new: "k \<notin> set (mkeys m) \<Longrightarrow> length (mput k v m) = Suc (length m)"
  by (induction m) auto

lemma length_mdel: "mwf m \<Longrightarrow> k \<in> set (mkeys m) \<Longrightarrow> Suc (length (mdel k m)) = length m"
  by (induction m) (auto simp: mdel_notin)

lemma request_cnt_simps:
  "request_cnt (cm\<lparr>cm_requestCnt := mput i n (cm_requestCnt cm)\<rparr>) j = (if j = i then n else request_cnt cm j)"
  "request_cnt (cm\<lparr>cm_clientConnections := cs\<rparr>) = request_cnt cm"
  "request_cnt (cm\<lparr>cm_lruList := l\<rparr>) = request_cnt cm"
  by (auto simp: request_cnt_def go_map_simps fun_eq_iff)

lemma pool_ok_New: "pool_ok (NewClientManager n)"
  by (simp add: pool_ok_def NewClientManager_def request_cnt_def)

lemma Decr_cnt:
  "request_cnt (DecrClientConnectionRequestCnt i cm) j =
     (if j = i \<and> 0 < request_cnt cm i then request_cnt cm i - 1 else request_cnt cm j)"
  by (auto simp: DecrClientConnectionRequestCnt_def request_cnt_def go_map_simps split: option.splits)

lemma Decr_fields [simp]:
  "cm_clientConnections (DecrClientConnectionRequestCnt i cm) = cm_clientConnections cm"
  "cm_lruList (DecrClientConnectionRequestCnt i cm) = cm_lruList cm"
  "cm_maxSize (DecrClientConnectionRequestCnt i cm) = cm_maxSize cm"
  "cm_closed (DecrClientConnectionRequestCnt i cm) = cm_closed cm"
  by (auto simp: DecrClientConnectionRequestCnt_def split: option.splits)

lemma pool_ok_Decr:
  assumes "pool_ok cm"
  shows "pool_ok (DecrClientConnectionRequestCnt i cm)"
proof -
  have "set (mkeys (cm_requestCnt (DecrClientConnectionRequestCnt i cm))) = set (mkeys (cm_requestCnt cm))"
    by (auto simp: DecrClientConnectionRequestCnt_def keys_mput insert_absorb mget_key split: option.splits)
  moreover have "mwf (cm_requestCnt (DecrClientConnectionRequestCnt i cm))"
    using assms by (auto simp: DecrClientConnectionRequestCnt_def pool_ok_def go_map_simps split: option.splits)
  ultimately show ?thesis using assms by (auto simp: pool_ok_def Decr_cnt)
qed

lemma pool_ok_use:
  assumes "pool_ok cm" "mget (cm_clientConnections cm) i = Some c" "use_client now i c cm = (cm', c')"
  shows "pool_ok cm'" "request_cnt cm' j = request_cnt cm j + (if j = i then 1 else 0)"
    "set (mkeys (cm_clientConnections cm')) = set (mkeys (cm_clientConnections cm))"
    "cm_maxSize cm' = cm_maxSize cm" "cm_closed cm' = cm_closed cm"
proof -
  have i: "i \<in> set (mkeys (cm_clientConnections cm))" using assms(2) unfolding mem_mkeys_iff by blast
  have cm': "cm' = cm\<lparr>cm_clientConnections := mput i c' (cm_clientConnections cm), cm_lruList := i # remove1 i (cm_lruList cm),
      cm_requestCnt := mput i (request_cnt cm i + 1) (cm_requestCnt cm)\<rparr>"
    using assms(3) by (auto simp: use_client_def Let_def)
  have cnt: "request_cnt cm' j = request_cnt cm j + (if j = i then 1 else 0)" for j
    by (auto simp: cm' request_cnt_def go_map_simps)
  show "request_cnt cm' j = request_cnt cm j + (if j = i then 1 else 0)" by (fact cnt)
  show keys: "set (mkeys (cm_clientConnections cm')) = set (mkeys (cm_clientConnections cm))"
    using i by (simp add: cm' keys_mput insert_absorb)
  show "cm_maxSize cm' = cm_maxSize cm" "cm_closed cm' = cm_closed cm" by (simp_all add: cm')
  have "length (cm_clientConnections cm') = length (cm_clientConnections cm)"
    using i by (simp add: cm' length_mput_same)
  then show "pool_ok cm'"
    using assms(1) i keys cnt by (auto simp: pool_ok_def cm' keys_mput go_map_simps)
qed

lemma evict_facts:
  assumes "pool_ok cm" "cm_lruList cm \<noteq> []" "i = last (cm_lruList cm)"
  shows "pool_ok (evict i cm)" "Suc (length (cm_clientConnections (evict i cm))) = length (cm_clientConnections cm)"
    "request_cnt (evict i cm) j = (if j = i then 0 else request_cnt cm j)"
    "cm_maxSize (evict i cm) = cm_maxSize cm"
proof -
  have d: "cm_lruList cm = butlast (cm_lruList cm) @ [i]" using assms(2,3) by simp
  have i: "i \<in> set (mkeys (cm_clientConnections cm))" using assms(1) last_in_set [OF assms(2)] by (auto simp: pool_ok_def assms(3))
  have lru: "set (butlast (cm_lruList cm)) = set (cm_lruList cm) - {i}" "distinct (butlast (cm_lruList cm))"
    using assms(1) d by (metis (no_types, lifting) Diff_insert_absorb distinct_append distinct_butlast empty_set
        insert_is_Un list.set(2) not_distinct_conv_prefix pool_ok_def set_append sup_commute Un_empty_right)+
  show len: "Suc (length (cm_clientConnections (evict i cm))) = length (cm_clientConnections cm)"
    using assms(1) i by (simp add: evict_def pool_ok_def length_mdel)
  show cnt: "request_cnt (evict i cm) j = (if j = i then 0 else request_cnt cm j)" for j
    by (simp add: evict_def request_cnt_def go_map_simps)
  show "cm_maxSize (evict i cm) = cm_maxSize cm" by (simp add: evict_def)
  show "pool_ok (evict i cm)"
    using assms(1) lru len cnt by (auto simp: pool_ok_def evict_def keys_mdel go_map_simps)
qed

definition pooled :: "ClientManager \<Rightarrow> string \<Rightarrow> bool" where
  "pooled cm i \<longleftrightarrow> mget (cm_clientConnections cm) i \<noteq> None"

lemma pooled_evict: "pooled (evict i cm) j \<longleftrightarrow> pooled cm j \<and> j \<noteq> i"
  by (simp add: pooled_def evict_def go_map_simps)

text \<open>The loop returns, and throws out only idle connections.\<close>

definition kept :: "ClientManager \<Rightarrow> ClientManager \<Rightarrow> bool" where
  "kept cm cm' \<longleftrightarrow> pool_ok cm' \<and> cm_maxSize cm' = cm_maxSize cm \<and>
     (\<forall>i. request_cnt cm' i = request_cnt cm i) \<and> (\<forall>i. pooled cm' i \<longrightarrow> pooled cm i) \<and>
     (\<forall>i. 0 < request_cnt cm i \<longrightarrow> pooled cm i \<longrightarrow> pooled cm' i)"

lemma kept_refl: "pool_ok cm \<Longrightarrow> kept cm cm"
  unfolding kept_def by blast

lemma keptD:
  assumes "kept cm cm'"
  shows "pool_ok cm'" "cm_maxSize cm' = cm_maxSize cm" "request_cnt cm' i = request_cnt cm i"
    "pooled cm' i \<Longrightarrow> pooled cm i" "0 < request_cnt cm i \<Longrightarrow> pooled cm i \<Longrightarrow> pooled cm' i"
  using assms unfolding kept_def by blast+

lemma make_room_returns:
  assumes "pool_ok cm"
  shows "\<exists>cm' full. make_room cm = Some (cm', full) \<and> kept cm cm' \<and>
    (\<not> full \<longrightarrow> 0 < cm_maxSize cm \<longrightarrow> int (length (cm_clientConnections cm')) < cm_maxSize cm)"
  using assms
proof (induction "length (cm_clientConnections cm)" arbitrary: cm rule: less_induct)
  case less
  let ?i = "last (cm_lruList cm)"
  show ?case
  proof (cases "0 < cm_maxSize cm \<and> cm_maxSize cm \<le> int (length (cm_clientConnections cm))")
    case full: True
    then have "cm_clientConnections cm \<noteq> []" by auto
    then have ne: "cm_lruList cm \<noteq> []" using less.prems by (auto simp: pool_ok_def)
    note ev = evict_facts [OF less.prems ne refl]
    show ?thesis
    proof (cases "0 < request_cnt cm ?i")
      case True
      then have "make_room cm = Some (cm, True)" using full ne by (subst make_room.simps) (simp add: Let_def)
      then show ?thesis using kept_refl [OF less.prems] by blast
    next
      case False
      then have idle: "request_cnt cm ?i = 0" using less.prems by (metis linorder_neqE_linordered_idom not_less pool_ok_def)
      have "length (cm_clientConnections (evict ?i cm)) < length (cm_clientConnections cm)" using ev(2) by simp
      from less.hyps [OF this ev(1)] obtain cm' f where
        r: "make_room (evict ?i cm) = Some (cm', f)" "kept (evict ?i cm) cm'"
          "\<not> f \<longrightarrow> 0 < cm_maxSize cm \<longrightarrow> int (length (cm_clientConnections cm')) < cm_maxSize cm"
        using ev(4) by auto
      have "make_room cm = Some (cm', f)"
        using full ne False r(1) by (subst make_room.simps) (simp add: Let_def)
      moreover have "kept cm cm'"
      proof -
        note k = keptD [OF r(2), unfolded pooled_evict]
        have c: "request_cnt (evict ?i cm) j = request_cnt cm j" for j using ev(3) [of j] idle by (cases "j = ?i") simp_all
        have "pooled cm' j" if j: "0 < request_cnt cm j" "pooled cm j" for j
        proof -
          have "j \<noteq> ?i" using j(1) idle by auto
          then show ?thesis using k(5) [of j] j c [of j] by metis
        qed
        moreover have "pooled cm' j \<Longrightarrow> pooled cm j" for j using k(4) by blast
        moreover have "request_cnt cm' j = request_cnt cm j" for j using k(3) [of j] c [of j] by simp
        moreover have "pool_ok cm'" "cm_maxSize cm' = cm_maxSize cm" using k(1,2) ev(4) by simp_all
        ultimately show ?thesis unfolding kept_def by blast
      qed
      ultimately show ?thesis using r(3) by blast
    qed
  next
    case False
    then have "make_room cm = Some (cm, False)" by (subst make_room.simps) auto
    then show ?thesis using False kept_refl [OF less.prems] by (intro exI [of _ cm] exI [of _ False]) auto
  qed
qed

lemma createClient_new:
  assumes "pool_ok cm" "\<not> pooled cm i" "createClient dial now i address cm = Some (cm', r)"
  obtains (error) e where "r = Inl e" "kept cm cm'"
  | (created) c cm1 where "r = Inr c" "kept cm cm1" "cc_address c = address"
      "cm' = cm1\<lparr>cm_lruList := i # cm_lruList cm1, cm_clientConnections := mput i c (cm_clientConnections cm1),
                  cm_requestCnt := mput i 1 (cm_requestCnt cm1)\<rparr>"
      "0 < cm_maxSize cm1 \<Longrightarrow> int (length (cm_clientConnections cm1)) < cm_maxSize cm1"
proof -
  from make_room_returns [OF assms(1)] obtain cm1 full where m: "make_room cm = Some (cm1, full)" "kept cm cm1"
    "\<not> full \<longrightarrow> 0 < cm_maxSize cm \<longrightarrow> int (length (cm_clientConnections cm1)) < cm_maxSize cm" by blast
  have n: "mget (cm_clientConnections cm) i = None" using assms(2) by (simp add: pooled_def)
  show thesis
  proof (cases "full \<or> \<not> dial address")
    case True
    then have "cm' = cm1" "\<exists>e. r = Inl e" using assms(3) m(1) n by (auto simp: createClient_def split: if_splits)
    then show ?thesis using m(2) error by blast
  next
    case False
    have "r = Inr (NewClientConnection i address now) \<and>
      cm' = cm1\<lparr>cm_lruList := i # cm_lruList cm1,
        cm_clientConnections := mput i (NewClientConnection i address now) (cm_clientConnections cm1),
        cm_requestCnt := mput i 1 (cm_requestCnt cm1)\<rparr>"
      using assms(3) m(1) n False by (auto simp: createClient_def Let_def)
    with m(2,3) False keptD(2) [OF m(2)] show ?thesis by (intro created) (auto simp: NewClientConnection_def)
  qed
qed

lemma not_pooled_cnt: "pool_ok cm \<Longrightarrow> \<not> pooled cm i \<Longrightarrow> request_cnt cm i = 0"
proof -
  assume "pool_ok cm" "\<not> pooled cm i"
  then have "i \<notin> set (mkeys (cm_requestCnt cm))" unfolding pool_ok_def pooled_def by (metis mget_None_iff)
  then have "mget (cm_requestCnt cm) i = None" by (metis mget_None_iff)
  then show "request_cnt cm i = 0" by (simp add: request_cnt_def)
qed

lemma pool_ok_insert:
  assumes "pool_ok cm" "\<not> pooled cm i" "0 < cm_maxSize cm \<Longrightarrow> int (length (cm_clientConnections cm)) < cm_maxSize cm"
  shows "pool_ok (cm\<lparr>cm_lruList := i # cm_lruList cm, cm_clientConnections := mput i c (cm_clientConnections cm),
                  cm_requestCnt := mput i 1 (cm_requestCnt cm)\<rparr>)" (is "pool_ok ?cm")
proof -
  have i: "i \<notin> set (mkeys (cm_clientConnections cm))" using assms(2) by (auto simp: pooled_def mget_None_iff)
  have "request_cnt ?cm j = (if j = i then 1 else request_cnt cm j)" for j by (simp add: request_cnt_def go_map_simps)
  moreover have "length (cm_clientConnections ?cm) = Suc (length (cm_clientConnections cm))"
    using i by (simp add: length_mput_new)
  ultimately show ?thesis using assms i by (auto simp: pool_ok_def keys_mput go_map_simps)
qed

subsection \<open>Concurrent migrations\<close>

text \<open>A migration first looks its connection up, creates it when it is missing, and gives it back at the
  end.  \<open>out\<close> holds the instances whose connections are in use.\<close>

inductive pool_reachable :: "int \<Rightarrow> (string \<Rightarrow> bool) \<Rightarrow> ClientManager \<Rightarrow> string multiset \<Rightarrow> bool" for n dial where
  start: "pool_reachable n dial (NewClientManager n) {#}"
| found: "pool_reachable n dial cm out \<Longrightarrow> GetClient now i cm = (cm', Some c) \<Longrightarrow>
    pool_reachable n dial cm' (add_mset i out)"
| missing: "pool_reachable n dial cm out \<Longrightarrow> GetClient now i cm = (cm', None) \<Longrightarrow> pool_reachable n dial cm' out"
| create: "pool_reachable n dial cm out \<Longrightarrow> createClient dial now i address cm = Some (cm', Inr c) \<Longrightarrow>
    pool_reachable n dial cm' (add_mset i out)"
| refuse: "pool_reachable n dial cm out \<Longrightarrow> createClient dial now i address cm = Some (cm', Inl e) \<Longrightarrow>
    pool_reachable n dial cm' out"
| finish: "pool_reachable n dial cm (add_mset i out) \<Longrightarrow>
    pool_reachable n dial (DecrClientConnectionRequestCnt i cm) out"

definition in_use :: "ClientManager \<Rightarrow> string multiset \<Rightarrow> bool" where
  "in_use cm out \<longleftrightarrow> (\<forall>i. request_cnt cm i = int (count out i)) \<and> (\<forall>i. i \<in># out \<longrightarrow> pooled cm i)"

lemma in_useI: "(\<And>i. request_cnt cm i = int (count out i)) \<Longrightarrow> (\<And>i. i \<in># out \<Longrightarrow> pooled cm i) \<Longrightarrow> in_use cm out"
  by (simp add: in_use_def)

lemma in_use_kept: "in_use cm out \<Longrightarrow> kept cm cm' \<Longrightarrow> in_use cm' out"
  by (rule in_useI) (simp_all add: in_use_def keptD(3), metis count_greater_zero_iff keptD(5) of_nat_0_less_iff)

lemma pooled_simps [simp]:
  "pooled (DecrClientConnectionRequestCnt j cm) i = pooled cm i"
  by (simp add: pooled_def)

lemma in_use_use:
  assumes "pool_ok cm" "in_use cm out" "mget (cm_clientConnections cm) i = Some c" "use_client now i c cm = (cm', c')"
  shows "in_use cm' (add_mset i out)"
proof (rule in_useI)
  show "request_cnt cm' j = int (count (add_mset i out) j)" for j
    using pool_ok_use(2) [OF assms(1,3,4), of j] assms(2) by (simp add: in_use_def)
  have "pooled cm' j \<longleftrightarrow> pooled cm j \<or> j = i" for j
    using assms(4) by (auto simp: use_client_def Let_def pooled_def go_map_simps)
  then show "j \<in># add_mset i out \<Longrightarrow> pooled cm' j" for j using assms(2) by (auto simp: in_use_def)
qed

lemma pool_create:
  assumes "pool_ok cm" "in_use cm out" "createClient dial now i address cm = Some (cm', r)"
  shows "pool_ok cm' \<and> in_use cm' (case r of Inl _ \<Rightarrow> out | Inr _ \<Rightarrow> add_mset i out) \<and> cm_maxSize cm' = cm_maxSize cm"
proof (cases "mget (cm_clientConnections cm) i")
  case (Some c)
  then obtain c' where "use_client now i c cm = (cm', c')" "r = Inr c'"
    using assms(3) by (auto simp: createClient_def use_client_def Let_def)
  then show ?thesis using pool_ok_use [OF assms(1) Some] in_use_use [OF assms(1,2) Some] by simp
next
  case None
  then have np: "\<not> pooled cm i" by (simp add: pooled_def)
  from assms(1) np assms(3) show ?thesis
  proof (cases rule: createClient_new)
    case (error e)
    then show ?thesis using keptD [OF error(2)] in_use_kept [OF assms(2) error(2)] by simp
  next
    case (created c cm1)
    have np1: "\<not> pooled cm1 i" using np keptD(4) [OF created(2)] by blast
    have "in_use cm1 out" by (rule in_use_kept [OF assms(2) created(2)])
    moreover have "count out i = 0" using not_pooled_cnt [OF assms(1) np] assms(2) by (simp add: in_use_def)
    moreover have "request_cnt cm' j = (if j = i then 1 else request_cnt cm1 j)" "pooled cm' j \<longleftrightarrow> pooled cm1 j \<or> j = i" for j
      by (simp_all add: created(4) request_cnt_def pooled_def go_map_simps)
    ultimately have "in_use cm' (add_mset i out)" by (auto simp: in_use_def)
    moreover have "pool_ok cm'" "cm_maxSize cm' = cm_maxSize cm"
      using pool_ok_insert [OF keptD(1) [OF created(2)] np1 created(5), of c] keptD(2) [OF created(2)]
      by (simp_all add: created(4))
    ultimately show ?thesis by (simp add: created(1))
  qed
qed

lemma pool_reachable_ok: "pool_reachable n dial cm out \<Longrightarrow> pool_ok cm \<and> in_use cm out \<and> cm_maxSize cm = (if n \<le> 0 then - 1 else n)"
proof (induction rule: pool_reachable.induct)
  case start
  show ?case using pool_ok_New by (simp add: in_use_def NewClientManager_def request_cnt_def)
next
  case (found cm out now i cm' c)
  then obtain c0 where c0: "mget (cm_clientConnections cm) i = Some c0" "use_client now i c0 cm = (cm', c)"
    by (auto simp: GetClient_def map_prod_def split: option.splits prod.splits)
  then show ?case using found.IH pool_ok_use [OF _ c0] in_use_use [OF _ _ c0] by simp
next
  case (missing cm out now i cm')
  then have "cm' = cm" by (auto simp: GetClient_def map_prod_def split: option.splits prod.splits)
  then show ?case using missing.IH by simp
next
  case (finish cm i out)
  then have "in_use (DecrClientConnectionRequestCnt i cm) out"
    by (auto simp: in_use_def Decr_cnt)
  then show ?case using finish.IH pool_ok_Decr by simp
qed (use pool_create in fastforce)+

text \<open>C21. Under every interleaving of migrations the request count of an instance is the number of
  migrations that hold its connection, a held connection is in the pool and is never evicted, and a
  bounded pool never grows beyond its bound.\<close>

theorem pool_connections_safe:
  assumes "pool_reachable n dial cm out"
  shows "(\<forall>i. request_cnt cm i = int (count out i)) \<and> (\<forall>i. i \<in># out \<longrightarrow> pooled cm i) \<and>
    (0 < n \<longrightarrow> int (length (cm_clientConnections cm)) \<le> n) \<and>
    distinct (cm_lruList cm) \<and> set (cm_lruList cm) = set (mkeys (cm_clientConnections cm))"
  using pool_reachable_ok [OF assms] by (auto simp: pool_ok_def in_use_def)

lemma make_room_full:
  assumes "make_room cm = Some r"
  shows "snd r \<longrightarrow> 0 < cm_maxSize (fst r) \<and> cm_maxSize (fst r) \<le> int (length (cm_clientConnections (fst r))) \<and>
    0 < request_cnt (fst r) (last (cm_lruList (fst r)))"
  by (rule make_room.raw_induct [OF _ assms]) (auto simp: Let_def split: if_splits)

text \<open>A migration always gets an answer: the loop that makes room ends.  It is refused for lack of
  room only when the pool is full and the least recently used connection is held by a migration.  A
  connection of the pool is handed out as it was created, whatever address the caller asks for.\<close>

theorem get_or_create_returns:
  assumes "pool_reachable n dial cm out"
  shows "\<exists>cm' r. GetOrCreateClient dial now i address cm = Some (cm', r) \<and>
    (r = Inl ErrMaxSize \<longrightarrow> 0 < n \<and> int (length (cm_clientConnections cm')) = n \<and> last (cm_lruList cm') \<in># out) \<and>
    (\<forall>c. mget (cm_clientConnections cm) i = Some c \<longrightarrow> r = Inr (c\<lparr>cc_lastUsedTime := now\<rparr>)) \<and>
    (mget (cm_clientConnections cm) i = None \<longrightarrow> (\<forall>c. r = Inr c \<longrightarrow> cc_address c = address))"
proof (cases "mget (cm_clientConnections cm) i")
  case (Some c)
  then show ?thesis by (simp add: GetOrCreateClient_def GetClient_def use_client_def Let_def)
next
  case None
  have ok: "pool_ok cm" "in_use cm out" "cm_maxSize cm = (if n \<le> 0 then - 1 else n)"
    using pool_reachable_ok [OF assms] by simp_all
  obtain cm1 full where m: "make_room cm = Some (cm1, full)" "kept cm cm1" using make_room_returns [OF ok(1)] by blast
  then obtain cm' r where cr: "createClient dial now i address cm = Some (cm', r)"
    using None by (cases full; cases "dial address") (auto simp: createClient_def Let_def)
  have get: "GetOrCreateClient dial now i address cm = Some (cm', r)"
    using None cr by (simp add: GetOrCreateClient_def GetClient_def)
  have np: "\<not> pooled cm i" using None by (simp add: pooled_def)
  have full: "full" "cm' = cm1" if "r = Inl ErrMaxSize"
    using that cr None m(1) by (auto simp: createClient_def Let_def split: if_splits)
  have "0 < n \<and> int (length (cm_clientConnections cm')) = n \<and> last (cm_lruList cm') \<in># out" if r: "r = Inl ErrMaxSize"
  proof -
    have f: "0 < cm_maxSize cm1" "cm_maxSize cm1 \<le> int (length (cm_clientConnections cm1))"
      "0 < request_cnt cm1 (last (cm_lruList cm1))" using make_room_full [OF m(1)] full [OF r] by auto
    moreover have "in_use cm1 out" by (rule in_use_kept [OF ok(2) m(2)])
    moreover have "pool_ok cm1" "cm_maxSize cm1 = cm_maxSize cm" using keptD [OF m(2)] by simp_all
    ultimately show ?thesis using ok(3) full(2) [OF r] by (auto simp: pool_ok_def in_use_def split: if_splits)
  qed
  moreover have "cc_address c = address" if "r = Inr c" for c
    using ok(1) np cr that by (cases rule: createClient_new) auto
  ultimately show ?thesis using get None by (intro exI [of _ cm'] exI [of _ r]) simp
qed

definition ex_pool :: "ClientManager \<times> (client_error + ClientConnection)" where
  "ex_pool = the (GetOrCreateClient (\<lambda>_. True) 1 ''a'' ''1.1:50'' (NewClientManager 1))"

lemma ex_pool_reachable: "pool_reachable 1 (\<lambda>_. True) (fst ex_pool) {#''a''#}"
proof -
  have "make_room (NewClientManager 1) = Some (NewClientManager 1, False)"
    by (subst make_room.simps) (simp add: NewClientManager_def)
  then have "createClient (\<lambda>_. True) 1 ''a'' ''1.1:50'' (NewClientManager 1) =
      Some (fst ex_pool, Inr (NewClientConnection ''a'' ''1.1:50'' 1))"
    by (simp add: ex_pool_def GetOrCreateClient_def GetClient_def createClient_def NewClientManager_def Let_def)
  from pool_reachable.create [OF pool_reachable.start this] show ?thesis by simp
qed

theorem pool_connections_safe_witness: "request_cnt (fst ex_pool) ''a'' = 1 \<and> pooled (fst ex_pool) ''a''"
  using pool_connections_safe [OF ex_pool_reachable] by simp

theorem get_or_create_returns_witness:
  "\<exists>cm' c. GetOrCreateClient (\<lambda>_. True) 2 ''a'' ''2.2:50'' (fst ex_pool) = Some (cm', Inr c) \<and> cc_address c = ''1.1:50''"
proof -
  have "make_room (NewClientManager 1) = Some (NewClientManager 1, False)"
    by (subst make_room.simps) (simp add: NewClientManager_def)
  then have c: "mget (cm_clientConnections (fst ex_pool)) ''a'' = Some (NewClientConnection ''a'' ''1.1:50'' 1)"
    by (simp add: ex_pool_def GetOrCreateClient_def GetClient_def createClient_def NewClientManager_def Let_def)
  from get_or_create_returns [OF ex_pool_reachable, of 2 "''a''" "''2.2:50''"] c show ?thesis
    by (auto simp: NewClientConnection_def)
qed

end
