(* ===== verification/Rescheduling.thy ===== *)
theory Rescheduling
  imports Dispatch_Policy Llumlet_Clients "HOL-Library.List_Lexorder" "HOL-Library.Char_ord"
begin

text \<open>
  Migration of requests between instances: \<open>rescheduling_policy.go\<close>, \<open>rescheduling_selectors.go\<close> and
  \<open>rescheduling_policy_registry.go\<close> of \<open>pkg/scheduler/policy\<close>.

  A round takes the views of all instances and runs the configured policies in order.  The policies
  share the views: a mark or a metric that one of them writes is seen by the next.  Strings compare
  bytewise, as in Go.  A nil dereference or a panic is \<open>None\<close>.  The RPC to the llumlet is outside the
  model; \<open>migrate_request\<close> builds its argument.

  Lemmas: no round asks for both directions between two instances; failover moves every instance that
  goes down, and only to healthy instances of its type; load balancing moves from higher to lower load.
\<close>

definition MigrationReqSelectRuleNumReq :: string where "MigrationReqSelectRuleNumReq = ''NUM_REQ''"
definition MigrationReqSelectRuleToken :: string where "MigrationReqSelectRuleToken = ''TOKEN''"
definition MigrationReqSelectRuleRatio :: string where "MigrationReqSelectRuleRatio = ''RATIO''"
definition MigrationReqSelectOrderLCR :: string where "MigrationReqSelectOrderLCR = ''LCR''"
definition MigrationReqSelectOrderLR :: string where "MigrationReqSelectOrderLR = ''LR''"

lemmas migration_names =
  MigrationReqSelectRuleNumReq_def MigrationReqSelectRuleToken_def MigrationReqSelectRuleRatio_def
  MigrationReqSelectOrderLCR_def MigrationReqSelectOrderLR_def

record reschedulingPair =
  rp_srcView :: instanceViewScheduling
  rp_dstView :: instanceViewScheduling
  rp_reqSelectRule :: string
  rp_reqSelectOrder :: string
  rp_reqSelectValue :: f32
  rp_triggerPolicy :: string

record migrationReqSelectPolicy =
  sp_rule :: string
  sp_order :: string
  sp_value :: f32

definition new_pair :: "instanceViewScheduling \<Rightarrow> instanceViewScheduling \<Rightarrow> reschedulingPair" where
  "new_pair src dst =
     \<lparr>rp_srcView = src, rp_dstView = dst, rp_reqSelectRule = [], rp_reqSelectOrder = [], rp_reqSelectValue = Fin 0,
      rp_triggerPolicy = []\<rparr>"

abbreviation src_id :: "reschedulingPair \<Rightarrow> string" where
  "src_id p \<equiv> vs_GetInstanceId (rp_srcView p)"

abbreviation dst_id :: "reschedulingPair \<Rightarrow> string" where
  "dst_id p \<equiv> vs_GetInstanceId (rp_dstView p)"

definition pair_equal :: "reschedulingPair \<Rightarrow> reschedulingPair \<Rightarrow> bool" where
  "pair_equal p q \<longleftrightarrow> src_id p = src_id q \<and> dst_id p = dst_id q"

definition conflict :: "reschedulingPair \<Rightarrow> reschedulingPair \<Rightarrow> bool" where
  "conflict p q \<longleftrightarrow> src_id p = dst_id q \<and> dst_id p = src_id q"

subsection \<open>Selectors\<close>

datatype reschedulingSelector =
    aggregateSelector string string
  | metricBalanceSelector string string bool string
  | roundRobinSelector
  | binPackingMitigationSelector
  | binPackingConsolidationSelector

text \<open>Comparisons of two views by a metric.  \<open>sort_views\<close> panics on a missing metric when there is
  something to compare.\<close>

definition view_Less :: "string \<Rightarrow> instanceViewScheduling \<Rightarrow> instanceViewScheduling \<Rightarrow> bool" where
  "view_Less name v w =
     (case (vs_metric v name, vs_metric w name) of (Some m, Some m') \<Rightarrow> metric_Less m m' | _ \<Rightarrow> False)"

definition sort_views ::
  "string \<Rightarrow> (instanceViewScheduling \<Rightarrow> instanceViewScheduling \<Rightarrow> bool) \<Rightarrow> instanceViewScheduling list \<Rightarrow>
   instanceViewScheduling list option" where
  "sort_views name before vs =
     (if 2 \<le> length vs \<and> \<not> list_all (\<lambda>v. vs_metric v name \<noteq> None) vs then None else Some (sort_stable before vs))"

text \<open>\<open>aggregateSelector\<close>: the two-pointer loop over the sorted candidates.\<close>

fun aggregate_loop ::
  "string list \<Rightarrow> (string \<times> instanceViewScheduling) list \<Rightarrow> (string \<times> instanceViewScheduling) list \<Rightarrow> reschedulingPair list" where
  "aggregate_loop used (s # ss) (d # ds) =
     (if fst s \<in> set used then aggregate_loop used ss (d # ds)
      else if fst d \<in> set used then aggregate_loop used (s # ss) ds
      else if fst s = fst d then aggregate_loop used (s # ss) ds
      else new_pair (snd s) (snd d) # aggregate_loop (fst s # fst d # used) ss ds)"
| "aggregate_loop used _ _ = []"

definition sort_candidates ::
  "string \<Rightarrow> (instanceViewScheduling \<Rightarrow> instanceViewScheduling \<Rightarrow> bool) \<Rightarrow> view_map \<Rightarrow> view_map option" where
  "sort_candidates name before m =
     (if 2 \<le> length m \<and> \<not> list_all (\<lambda>v. vs_metric v name \<noteq> None) (mvals m) then None
      else Some (sort_stable (\<lambda>a b. before (snd a) (snd b)) m))"

text \<open>\<open>metricBalanceSelector\<close>: sources from high to low, destinations from low to high load.\<close>

definition src_before :: "string \<Rightarrow> instanceViewScheduling \<Rightarrow> instanceViewScheduling \<Rightarrow> bool" where
  "src_before name v w \<longleftrightarrow>
     \<not> view_Less name v w \<and> (view_Less name w v \<or> vs_GetInstanceId v < vs_GetInstanceId w)"

definition dst_before :: "string \<Rightarrow> instanceViewScheduling \<Rightarrow> instanceViewScheduling \<Rightarrow> bool" where
  "dst_before name v w \<longleftrightarrow>
     view_Less name v w \<or> \<not> view_Less name w v \<and> vs_GetInstanceId v < vs_GetInstanceId w"

fun pair_loop ::
  "string \<Rightarrow> string \<Rightarrow> bool \<Rightarrow> instanceViewScheduling list \<Rightarrow> instanceViewScheduling list \<Rightarrow> reschedulingPair list option" where
  "pair_loop srcMetric dstMetric force (s # ss) (d # ds) =
     (if force
      then do { ms \<leftarrow> vs_metric s srcMetric;
                md \<leftarrow> vs_metric d dstMetric;
                if \<not> metric_Less md ms then Some []
                else map_option ((#) (new_pair s d)) (pair_loop srcMetric dstMetric force ss ds) }
      else map_option ((#) (new_pair s d)) (pair_loop srcMetric dstMetric force ss ds))"
| "pair_loop srcMetric dstMetric force _ _ = Some []"

definition pairLists ::
  "string \<Rightarrow> string \<Rightarrow> bool \<Rightarrow> instanceViewScheduling list \<Rightarrow> instanceViewScheduling list \<Rightarrow> reschedulingPair list option" where
  "pairLists srcMetric dstMetric force srcList dstList =
     do { srcs \<leftarrow> sort_views srcMetric (src_before srcMetric) srcList;
          dsts \<leftarrow> sort_views dstMetric (dst_before dstMetric) dstList;
          pair_loop srcMetric dstMetric force srcs dsts }"

fun by_unit ::
  "(string, instanceViewScheduling list) gmap \<Rightarrow> instanceViewScheduling list \<Rightarrow>
   (string, instanceViewScheduling list) gmap option" where
  "by_unit units [] = Some units"
| "by_unit units (v # vs) =
     do { c \<leftarrow> vs_cmsView v;
          let u = md_UnitId (cv_Metadata c);
          by_unit (if u = [] then units
                   else mput u ((case mget units u of None \<Rightarrow> [] | Some l \<Rightarrow> l) @ [v]) units) vs }"

fun unit_pairs ::
  "string \<Rightarrow> string \<Rightarrow> bool \<Rightarrow> (string, instanceViewScheduling list) gmap \<Rightarrow>
   (string, instanceViewScheduling list) gmap \<Rightarrow> reschedulingPair list option" where
  "unit_pairs srcMetric dstMetric force dstByUnit [] = Some []"
| "unit_pairs srcMetric dstMetric force dstByUnit ((u, srcs) # rest) =
     (case mget dstByUnit u of
        None \<Rightarrow> unit_pairs srcMetric dstMetric force dstByUnit rest
      | Some dsts \<Rightarrow>
          do { ps \<leftarrow> pairLists srcMetric dstMetric force srcs dsts;
               qs \<leftarrow> unit_pairs srcMetric dstMetric force dstByUnit rest;
               Some (ps @ qs) })"

definition id_before :: "instanceViewScheduling \<Rightarrow> instanceViewScheduling \<Rightarrow> bool" where
  "id_before v w \<longleftrightarrow> vs_GetInstanceId v < vs_GetInstanceId w"

definition round_robin :: "instanceViewScheduling list \<Rightarrow> instanceViewScheduling list \<Rightarrow> reschedulingPair list" where
  "round_robin srcs dsts =
     (if dsts = [] then []
      else filter (\<lambda>p. src_id p \<noteq> dst_id p)
             (map (\<lambda>i. new_pair (srcs ! i) (dsts ! (i mod length dsts))) [0..<length srcs]))"

fun max_tpot :: "instanceViewScheduling \<Rightarrow> instanceViewScheduling list \<Rightarrow> instanceViewScheduling option" where
  "max_tpot sel [] = Some sel"
| "max_tpot sel (v # vs) =
     do { ms \<leftarrow> vs_metric sel SchedulingMetricPredictedTpot;
          mv \<leftarrow> vs_metric v SchedulingMetricPredictedTpot;
          max_tpot (if metric_Less ms mv then v else sel) vs }"

definition most_loaded :: "instanceViewScheduling list \<Rightarrow> instanceViewScheduling option option" where
  "most_loaded vs = (case vs of [] \<Rightarrow> Some None | v # vs \<Rightarrow> map_option Some (max_tpot v vs))"

text \<open>The destination of a consolidation: the first decode-reserved candidate after the first one ends
  the search.\<close>

fun pack_target :: "instanceViewScheduling \<Rightarrow> instanceViewScheduling list \<Rightarrow> instanceViewScheduling option" where
  "pack_target sel [] = Some sel"
| "pack_target sel (v # vs) =
     do { c \<leftarrow> vs_cmsView v;
          if cv_ReservedInferType c = InferTypeDecode then Some v
          else do { mv \<leftarrow> vs_metric v SchedulingMetricPredictedTpot;
                    ms \<leftarrow> vs_metric sel SchedulingMetricPredictedTpot;
                    pack_target (if \<not> metric_Less mv ms then v else sel) vs } }"

fun min_tpot :: "instanceViewScheduling \<Rightarrow> instanceViewScheduling list \<Rightarrow> instanceViewScheduling option" where
  "min_tpot sel [] = Some sel"
| "min_tpot sel (v # vs) =
     do { mv \<leftarrow> vs_metric v SchedulingMetricPredictedTpot;
          ms \<leftarrow> vs_metric sel SchedulingMetricPredictedTpot;
          min_tpot (if metric_Less mv ms then v else sel) vs }"

fun select_pairs :: "reschedulingSelector \<Rightarrow> view_map \<Rightarrow> view_map \<Rightarrow> reschedulingPair list option" where
  "select_pairs (aggregateSelector srcMetric dstMetric) srcs dsts =
     do { ss \<leftarrow> sort_candidates srcMetric (view_Less srcMetric) srcs;
          ds \<leftarrow> sort_candidates dstMetric (\<lambda>v w. \<not> view_Less dstMetric v w) dsts;
          Some (aggregate_loop [] ss ds) }"
| "select_pairs (metricBalanceSelector srcMetric dstMetric force scope) srcs dsts =
     (if scope = ReschedulingLoadBalanceScopeCluster then pairLists srcMetric dstMetric force (mvals srcs) (mvals dsts)
      else if scope = ReschedulingLoadBalanceScopeUnit
      then do { srcByUnit \<leftarrow> by_unit [] (mvals srcs);
                dstByUnit \<leftarrow> by_unit [] (mvals dsts);
                unit_pairs srcMetric dstMetric force dstByUnit srcByUnit }
      else Some [])"
| "select_pairs roundRobinSelector srcs dsts =
     Some (round_robin (sort_stable id_before (mvals srcs)) (sort_stable id_before (mvals dsts)))"
| "select_pairs binPackingMitigationSelector srcs dsts =
     do { s \<leftarrow> most_loaded (mvals srcs);
          d \<leftarrow> most_loaded (mvals dsts);
          Some (case (s, d) of (Some v, Some w) \<Rightarrow> [new_pair v w] | _ \<Rightarrow> []) }"
| "select_pairs binPackingConsolidationSelector srcs dsts =
     (case mvals dsts of
        [] \<Rightarrow> Some []
      | d # ds \<Rightarrow>
          do { dst \<leftarrow> pack_target d ds;
               case filter (\<lambda>v. vs_GetInstanceId v \<noteq> vs_GetInstanceId dst) (mvals srcs) of
                 [] \<Rightarrow> Some []
               | s # ss \<Rightarrow> do { src \<leftarrow> min_tpot s ss; Some [new_pair src dst] } })"

subsection \<open>Policies\<close>

record baseReschedulingPolicy =
  brp_name :: string
  brp_metrics :: "(string, instanceSchedulingMetric) gmap"
  brp_srcSingleInstanceFilters :: "singleInstanceFilter list"
  brp_srcGlobalFilters :: "globalFilter list"
  brp_dstSingleInstanceFilters :: "singleInstanceFilter list"
  brp_dstGlobalFilters :: "globalFilter list"
  brp_selector :: reschedulingSelector

datatype reschedulingPolicyInternal =
    decodeLoadBalanceRescheduling baseReschedulingPolicy migrationReqSelectPolicy string f32
  | failoverRescheduling baseReschedulingPolicy InferType
  | binPackingMitigationRescheduling baseReschedulingPolicy
  | binPackingConsolidationRescheduling baseReschedulingPolicy

fun base_policy :: "reschedulingPolicyInternal \<Rightarrow> baseReschedulingPolicy" where
  "base_policy (decodeLoadBalanceRescheduling b _ _ _) = b"
| "base_policy (failoverRescheduling b _) = b"
| "base_policy (binPackingMitigationRescheduling b) = b"
| "base_policy (binPackingConsolidationRescheduling b) = b"

fun getMigrationReqSelectPolicy :: "reschedulingPolicyInternal \<Rightarrow> migrationReqSelectPolicy" where
  "getMigrationReqSelectPolicy (decodeLoadBalanceRescheduling _ sp _ _) = sp"
| "getMigrationReqSelectPolicy (failoverRescheduling _ _) =
     \<lparr>sp_rule = MigrationReqSelectRuleNumReq, sp_order = MigrationReqSelectOrderLR, sp_value = Fin (- 1)\<rparr>"
| "getMigrationReqSelectPolicy _ =
     \<lparr>sp_rule = MigrationReqSelectRuleNumReq, sp_order = MigrationReqSelectOrderLCR, sp_value = Fin 1\<rparr>"

fun accept_pairs :: "string \<Rightarrow> f32 \<Rightarrow> reschedulingPair list \<Rightarrow> reschedulingPair list option" where
  "accept_pairs metric threshold [] = Some []"
| "accept_pairs metric threshold (p # ps) =
     do { ms \<leftarrow> vs_metric (rp_srcView p) metric;
          md \<leftarrow> vs_metric (rp_dstView p) metric;
          qs \<leftarrow> accept_pairs metric threshold ps;
          Some (if flt (fsub round32 (GetValue ms) (GetValue md)) threshold then qs else p # qs) }"

definition acceptLoadImbalancePairs :: "string \<Rightarrow> f32 \<Rightarrow> reschedulingPair list \<Rightarrow> reschedulingPair list option" where
  "acceptLoadImbalancePairs metric threshold pairs =
     (if fle threshold (Fin 0) then Some pairs else accept_pairs metric threshold pairs)"

fun policy_selectPairs :: "reschedulingPolicyInternal \<Rightarrow> view_map \<Rightarrow> view_map \<Rightarrow> reschedulingPair list option" where
  "policy_selectPairs (decodeLoadBalanceRescheduling b _ metric threshold) srcs dsts =
     do { pairs \<leftarrow> select_pairs (brp_selector b) srcs dsts; acceptLoadImbalancePairs metric threshold pairs }"
| "policy_selectPairs p srcs dsts = select_pairs (brp_selector (base_policy p)) srcs dsts"

definition policy_calculateMetrics ::
  "LatencyPredictor \<Rightarrow> i64 \<Rightarrow> baseReschedulingPolicy \<Rightarrow> view_map \<Rightarrow> view_map option" where
  "policy_calculateMetrics lp now b views = calculateMetrics lp now None (brp_metrics b) views"

text \<open>The two passes run over the same views: what the first marks, the second sees.\<close>

definition policy_filter ::
  "i64 \<Rightarrow> baseReschedulingPolicy \<Rightarrow> view_map \<Rightarrow> (view_map \<times> view_map \<times> view_map) option" where
  "policy_filter now b views =
     do { (views, srcs) \<leftarrow> filter_instances now (brp_srcSingleInstanceFilters b) (brp_srcGlobalFilters b) False views;
          (views, dsts) \<leftarrow> filter_instances now (brp_dstSingleInstanceFilters b) (brp_dstGlobalFilters b) False views;
          Some (views, overwrite views srcs, dsts) }"

subsection \<open>The registry\<close>

definition alive_filters :: "SchedulerConfig \<Rightarrow> singleInstanceFilter list" where
  "alive_filters p = [schedulabilityFilter, stalenessFilter (cfg_InstanceStalenessSeconds p)]"

definition newLoadBalanceRescheduling :: "SchedulerConfig \<Rightarrow> InferType \<Rightarrow> reschedulingPolicyInternal option" where
  "newLoadBalanceRescheduling p t =
     do { (metric, threshold, name) \<leftarrow>
            (if t = InferTypeDecode
             then Some (cfg_ReschedulingDecodeLoadMetric p, cfg_ReschedulingDecodeLoadThreshold p, ReschedulingPolicyDecodeLoad)
             else if t = InferTypeNeutral
             then Some (cfg_ReschedulingNeutralLoadMetric p, cfg_ReschedulingNeutralLoadThreshold p, ReschedulingPolicyNeutralLoad)
             else None);
          if cfg_ReschedulingLoadBalanceScope p \<noteq> ReschedulingLoadBalanceScopeCluster \<and>
             cfg_ReschedulingLoadBalanceScope p \<noteq> ReschedulingLoadBalanceScopeUnit then None
          else do {
            ctor \<leftarrow> getSchedulingMetric p metric;
            let limited = flt (Fin 0) threshold \<and> cfg_ReschedulingLoadBalanceScope p \<noteq> ReschedulingLoadBalanceScopeUnit;
            Some (decodeLoadBalanceRescheduling
              \<lparr>brp_name = name, brp_metrics = [(metric, ctor)],
               brp_srcSingleInstanceFilters =
                 [inferTypeFilter t] @ alive_filters p @
                 (if limited then [invertedSingleInstanceFilterWrapper (metricBasedFilter metric threshold False)] else []),
               brp_srcGlobalFilters = [failoverFilter (cfg_FailoverDomain p)],
               brp_dstSingleInstanceFilters =
                 [inferTypeFilter t] @ alive_filters p @ (if limited then [metricBasedFilter metric threshold False] else []),
               brp_dstGlobalFilters = [failoverFilter (cfg_FailoverDomain p)],
               brp_selector = metricBalanceSelector metric metric True (cfg_ReschedulingLoadBalanceScope p)\<rparr>
              \<lparr>sp_rule = cfg_ReschedulingReqSelectRule p, sp_order = cfg_ReschedulingReqSelectOrder p,
               sp_value = cfg_ReschedulingReqSelectValue p\<rparr>
              metric (cfg_ReschedulingLoadBalanceThreshold p)) } }"

definition newFailoverRescheduling :: "SchedulerConfig \<Rightarrow> InferType \<Rightarrow> reschedulingPolicyInternal option" where
  "newFailoverRescheduling p t =
     do { (metric, name) \<leftarrow>
            (if t = InferTypePrefill then Some (cfg_ReschedulingPrefillLoadMetric p, ReschedulingPolicyPrefillFailover)
             else if t = InferTypeDecode then Some (cfg_ReschedulingDecodeLoadMetric p, ReschedulingPolicyDecodeFailover)
             else if t = InferTypeNeutral then Some (cfg_ReschedulingNeutralLoadMetric p, ReschedulingPolicyNeutralFailover)
             else None);
          ctor \<leftarrow> getSchedulingMetric p metric;
          Some (failoverRescheduling
            \<lparr>brp_name = name, brp_metrics = [(metric, ctor)],
             brp_srcSingleInstanceFilters = [inferTypeFilter t],
             brp_srcGlobalFilters = [failoverMigrationSrcFilter (cfg_InstanceStalenessSeconds p) (cfg_FailoverDomain p)],
             brp_dstSingleInstanceFilters = [inferTypeFilter t] @ alive_filters p,
             brp_dstGlobalFilters = [failoverFilter (cfg_FailoverDomain p)],
             brp_selector = roundRobinSelector\<rparr> t) }"

definition reserved_out :: "InferType \<Rightarrow> singleInstanceFilter" where
  "reserved_out t = instanceAttributeFilter AttrKeyReservedInferType (AttrInferType t)"

definition busy_filter :: singleInstanceFilter where
  "busy_filter = invertedSingleInstanceFilterWrapper (metricBasedFilter SchedulingMetricDecodeBatchSize (round32 (1 / 10)) False)"

definition newBinPackingMitigationRescheduling :: "SchedulerConfig \<Rightarrow> reschedulingPolicyInternal" where
  "newBinPackingMitigationRescheduling p =
     binPackingMitigationRescheduling
       \<lparr>brp_name = ReschedulingPolicyBinPackingMitigation,
        brp_metrics = [(SchedulingMetricPredictedTpot, PredictedTpot (Fin 0))],
        brp_srcSingleInstanceFilters =
          [reserved_out InferTypePrefill] @ alive_filters p @
          [invertedSingleInstanceFilterWrapper
             (metricBasedFilter SchedulingMetricPredictedTpot
                (fmul round32 (cfg_TpotSlo p) (cfg_TpotMigrateOutCeilThreshold p)) False)],
        brp_srcGlobalFilters = [failoverFilter (cfg_FailoverDomain p)],
        brp_dstSingleInstanceFilters =
          [reserved_out InferTypePrefill] @ alive_filters p @
          [metricBasedFilter SchedulingMetricPredictedTpot (tpot_limit p) False],
        brp_dstGlobalFilters = [failoverFilter (cfg_FailoverDomain p)],
        brp_selector = binPackingMitigationSelector\<rparr>"

definition newBinPackingConsolidationRescheduling :: "SchedulerConfig \<Rightarrow> reschedulingPolicyInternal" where
  "newBinPackingConsolidationRescheduling p =
     binPackingConsolidationRescheduling
       \<lparr>brp_name = ReschedulingPolicyBinPackingConsolidation,
        brp_metrics = [(SchedulingMetricPredictedTpot, PredictedTpot (Fin 0)),
                       (SchedulingMetricDecodeBatchSize, decodeBatchSize (Fin 0))],
        brp_srcSingleInstanceFilters =
          [reserved_out InferTypePrefill, reserved_out InferTypeDecode] @ alive_filters p @
          [metricBasedFilter SchedulingMetricPredictedTpot
             (fmul round32 (cfg_TpotSlo p) (cfg_TpotMigrateOutFloorThreshold p)) False, busy_filter],
        brp_srcGlobalFilters = [failoverFilter (cfg_FailoverDomain p)],
        brp_dstSingleInstanceFilters =
          [reserved_out InferTypePrefill] @ alive_filters p @
          [metricBasedFilter SchedulingMetricPredictedTpot (tpot_limit p) False, busy_filter],
        brp_dstGlobalFilters = [failoverFilter (cfg_FailoverDomain p)],
        brp_selector = binPackingConsolidationSelector\<rparr>"

definition newReschedulingPolicyInternal :: "SchedulerConfig \<Rightarrow> string \<Rightarrow> reschedulingPolicyInternal option" where
  "newReschedulingPolicyInternal p policy =
     (if policy = ReschedulingPolicyNeutralLoad then newLoadBalanceRescheduling p InferTypeNeutral
      else if policy = ReschedulingPolicyDecodeLoad then newLoadBalanceRescheduling p InferTypeDecode
      else if policy = ReschedulingPolicyPrefillFailover then newFailoverRescheduling p InferTypePrefill
      else if policy = ReschedulingPolicyDecodeFailover then newFailoverRescheduling p InferTypeDecode
      else if policy = ReschedulingPolicyNeutralFailover then newFailoverRescheduling p InferTypeNeutral
      else if policy = ReschedulingPolicyBinPackingMitigation then Some (newBinPackingMitigationRescheduling p)
      else if policy = ReschedulingPolicyBinPackingConsolidation then Some (newBinPackingConsolidationRescheduling p)
      else None)"

subsection \<open>A round of rescheduling\<close>

record ReschedulingPolicy =
  rs_c :: SchedulerConfig
  rs_cmsClient :: CMSReadClient
  rs_llumletClientManager :: ClientManager
  rs_policies :: "reschedulingPolicyInternal list"
  rs_grpcTimeoutSeconds :: i64

definition policy_names_of :: "SchedulerConfig \<Rightarrow> string list" where
  "policy_names_of c =
     (let add = (\<lambda>name names. if name \<in> set names then names else names @ [name]);
          names = split_on (CHR '','') (cfg_ReschedulingPolicies c)
      in if cfg_EnableAdaptivePD c
         then add ReschedulingPolicyBinPackingMitigation (add ReschedulingPolicyBinPackingConsolidation names)
         else names)"

definition newReschedulingPolicy :: "SchedulerConfig \<Rightarrow> CMSReadClient \<Rightarrow> int \<Rightarrow> ReschedulingPolicy option" where
  "newReschedulingPolicy c cms poolSize =
     do { policies \<leftarrow> those (map (newReschedulingPolicyInternal c) (policy_names_of c));
          Some \<lparr>rs_c = c, rs_cmsClient = cms, rs_llumletClientManager = NewClientManager poolSize,
                rs_policies = policies,
                rs_grpcTimeoutSeconds =
                  (if sint (cfg_LlumletGrpcTimeoutSeconds c) \<le> 0 then 5 else cfg_LlumletGrpcTimeoutSeconds c)\<rparr> }"

definition validateAndAppendPairs ::
  "reschedulingPair list \<Rightarrow> migrationReqSelectPolicy \<Rightarrow> string \<Rightarrow> reschedulingPair list \<Rightarrow> reschedulingPair list" where
  "validateAndAppendPairs selected sp policyName pairs =
     foldl (\<lambda>pairs q. if list_ex (\<lambda>p. conflict p q) pairs then pairs
                      else pairs @ [q\<lparr>rp_reqSelectRule := sp_rule sp, rp_reqSelectOrder := sp_order sp,
                                      rp_reqSelectValue := sp_value sp, rp_triggerPolicy := policyName\<rparr>]) pairs selected"

definition run_policy ::
  "LatencyPredictor \<Rightarrow> i64 \<Rightarrow> reschedulingPolicyInternal \<Rightarrow> view_map \<times> reschedulingPair list \<Rightarrow>
   (view_map \<times> reschedulingPair list) option" where
  "run_policy lp now policy s =
     do { views \<leftarrow> policy_calculateMetrics lp now (base_policy policy) (fst s);
          (views, srcs, dsts) \<leftarrow> policy_filter now (base_policy policy) views;
          selected \<leftarrow> policy_selectPairs policy srcs dsts;
          Some (views, validateAndAppendPairs selected (getMigrationReqSelectPolicy policy)
                         (brp_name (base_policy policy)) (snd s)) }"

fun getMigrationPairs ::
  "LatencyPredictor \<Rightarrow> i64 \<Rightarrow> reschedulingPolicyInternal list \<Rightarrow> view_map \<times> reschedulingPair list \<Rightarrow>
   (view_map \<times> reschedulingPair list) option" where
  "getMigrationPairs lp now [] s = Some s"
| "getMigrationPairs lp now (p # ps) s = do { s \<leftarrow> run_policy lp now p s; getMigrationPairs lp now ps s }"

definition reschedule :: "LatencyPredictor \<Rightarrow> i64 \<Rightarrow> ReschedulingPolicy \<Rightarrow> reschedulingPair list option" where
  "reschedule lp now r =
     map_option snd
       (getMigrationPairs lp now (rs_policies r)
          (cluster_instanceViews (toClusterViewScheduling
             (toInstanceViewInterfaceMap CmsInstanceView (GetGroupedInstanceViews (rs_cmsClient r)))), []))"

subsection \<open>Executing migrations\<close>

datatype migration_value = NumReqs i64 | NumTokens i64 | KvCacheUsageRatio f32

record MigrateRequest =
  mr_SrcEngineId :: string
  mr_DstEngineId :: string
  mr_DstEngineIp :: string
  mr_DstEnginePort :: i32
  mr_MigrationType :: string
  mr_MigrationReqPolicy :: string
  mr_TriggerPolicy :: string
  mr_MigrationValue :: migration_value

record MigrateResponse =
  ms_Success :: bool
  ms_Message :: string

datatype migration_error = ClientError client_error | UnknownMigrationType string | RpcError string

record migrationResult =
  res_reschedulingPair :: reschedulingPair
  res_migrateResponse :: "MigrateResponse option"
  res_err :: "migration_error option"

definition migration_value_of :: "reschedulingPair \<Rightarrow> migration_value option" where
  "migration_value_of p =
     (if rp_reqSelectRule p = MigrationReqSelectRuleNumReq then Some (NumReqs (i64_of_float (rp_reqSelectValue p)))
      else if rp_reqSelectRule p = MigrationReqSelectRuleToken then Some (NumTokens (i64_of_float (rp_reqSelectValue p)))
      else if rp_reqSelectRule p = MigrationReqSelectRuleRatio then Some (KvCacheUsageRatio (rp_reqSelectValue p))
      else None)"

definition migrate_request :: "reschedulingPair \<Rightarrow> CmsView \<Rightarrow> migration_value \<Rightarrow> MigrateRequest" where
  "migrate_request p dst value =
     \<lparr>mr_SrcEngineId = src_id p, mr_DstEngineId = dst_id p, mr_DstEngineIp = md_IpKvs (cv_Metadata dst),
      mr_DstEnginePort = md_KvtPort (cv_Metadata dst), mr_MigrationType = rp_reqSelectRule p,
      mr_MigrationReqPolicy = rp_reqSelectOrder p, mr_TriggerPolicy = rp_triggerPolicy p, mr_MigrationValue = value\<rparr>"

definition llumlet_address :: "CmsView \<Rightarrow> string" where
  "llumlet_address c = md_Ip (cv_Metadata c) @ '':'' @ show_int (sint (md_LlumletPort (cv_Metadata c)))"

text \<open>One migration, run to its end.  \<open>rpc\<close> is the answer of the llumlet.\<close>

definition execute_migration ::
  "(string \<Rightarrow> bool) \<Rightarrow> (MigrateRequest \<Rightarrow> string + MigrateResponse) \<Rightarrow> i64 \<Rightarrow> reschedulingPair \<Rightarrow> ClientManager \<Rightarrow>
   (ClientManager \<times> migrationResult) option" where
  "execute_migration dial rpc now p cm =
     do { src \<leftarrow> vs_cmsView (rp_srcView p);
          dst \<leftarrow> vs_cmsView (rp_dstView p);
          (cm, client) \<leftarrow> GetOrCreateClient dial now (src_id p) (llumlet_address src) cm;
          case client of
            Inl e \<Rightarrow> Some (cm, \<lparr>res_reschedulingPair = p, res_migrateResponse = None, res_err = Some (ClientError e)\<rparr>)
          | Inr c \<Rightarrow>
              (case migration_value_of p of
                 None \<Rightarrow> Some (cm, \<lparr>res_reschedulingPair = p, res_migrateResponse = None,
                                   res_err = Some (UnknownMigrationType (rp_reqSelectRule p))\<rparr>)
               | Some value \<Rightarrow>
                   (let cm' = DecrClientConnectionRequestCnt (src_id p) cm
                    in case rpc (migrate_request p dst value) of
                         Inl e \<Rightarrow> Some (cm', \<lparr>res_reschedulingPair = p, res_migrateResponse = None,
                                            res_err = Some (RpcError e)\<rparr>)
                       | Inr resp \<Rightarrow> Some (cm', \<lparr>res_reschedulingPair = p, res_migrateResponse = Some resp,
                                               res_err = None\<rparr>))) }"

text \<open>The goroutines of a round in the order in which they finish.\<close>

fun executeMigrations ::
  "(string \<Rightarrow> bool) \<Rightarrow> (MigrateRequest \<Rightarrow> string + MigrateResponse) \<Rightarrow> i64 \<Rightarrow> reschedulingPair list \<Rightarrow> ClientManager \<Rightarrow>
   (ClientManager \<times> migrationResult list) option" where
  "executeMigrations dial rpc now [] cm = Some (cm, [])"
| "executeMigrations dial rpc now (p # ps) cm =
     do { (cm, r) \<leftarrow> execute_migration dial rpc now p cm;
          (cm, rs) \<leftarrow> executeMigrations dial rpc now ps cm;
          Some (cm, r # rs) }"

subsection \<open>No swapped pairs\<close>

lemma conflict_fields [simp]:
  "conflict p (q\<lparr>rp_reqSelectRule := a, rp_reqSelectOrder := b, rp_reqSelectValue := c, rp_triggerPolicy := e\<rparr>) = conflict p q"
  by (simp add: conflict_def)

lemma validate_snoc:
  "validateAndAppendPairs (qs @ [q]) sp n pairs =
     (let acc = validateAndAppendPairs qs sp n pairs
      in if list_ex (\<lambda>p. conflict p q) acc then acc
         else acc @ [q\<lparr>rp_reqSelectRule := sp_rule sp, rp_reqSelectOrder := sp_order sp,
                       rp_reqSelectValue := sp_value sp, rp_triggerPolicy := n\<rparr>])"
  by (simp add: validateAndAppendPairs_def Let_def)

lemma validate_no_conflict:
  "sorted_wrt (\<lambda>p q. \<not> conflict p q) pairs \<Longrightarrow> sorted_wrt (\<lambda>p q. \<not> conflict p q) (validateAndAppendPairs selected sp n pairs)"
proof (induction selected rule: rev_induct)
  case Nil
  then show ?case by (simp add: validateAndAppendPairs_def)
next
  case (snoc q qs)
  then show ?case by (auto simp: validate_snoc Let_def sorted_wrt_append list_ex_iff)
qed

lemma getMigrationPairs_no_conflict:
  "getMigrationPairs lp now ps s = Some s' \<Longrightarrow> sorted_wrt (\<lambda>p q. \<not> conflict p q) (snd s) \<Longrightarrow>
   sorted_wrt (\<lambda>p q. \<not> conflict p q) (snd s')"
proof (induction ps arbitrary: s)
  case (Cons p ps)
  then obtain t where t: "run_policy lp now p s = Some t" "getMigrationPairs lp now ps t = Some s'"
    by (auto simp: bind_eq_Some_conv)
  moreover have "sorted_wrt (\<lambda>p q. \<not> conflict p q) (snd t)"
    using t(1) Cons.prems(2) by (auto simp: run_policy_def bind_eq_Some_conv intro: validate_no_conflict)
  ultimately show ?case using Cons.IH by blast
qed simp

text \<open>C31. A round never asks for migrations in both directions between two instances, whichever policies
  asked for them and in whatever order.\<close>

theorem no_swapped_migrations:
  assumes "reschedule lp now r = Some pairs" "i < j" "j < length pairs"
  shows "\<not> (src_id (pairs ! i) = dst_id (pairs ! j) \<and> dst_id (pairs ! i) = src_id (pairs ! j))"
proof -
  have "sorted_wrt (\<lambda>p q. \<not> conflict p q) pairs"
    using assms(1) getMigrationPairs_no_conflict by (force simp: reschedule_def)
  then show ?thesis using sorted_wrt_nth_less [OF _ assms(2,3)] by (auto simp: conflict_def)
qed

subsection \<open>Failover\<close>

abbreviation marked_views :: "i64 \<Rightarrow> i64 \<Rightarrow> view_map \<Rightarrow> view_map" where
  "marked_views now secs \<equiv> map_ran (\<lambda>_. mark_unfit now secs)"

definition cms_ready :: "view_map \<Rightarrow> bool" where
  "cms_ready views \<longleftrightarrow> mwf views \<and> list_all (\<lambda>(i, v). vs_cmsView v \<noteq> None \<and> vs_GetInstanceId v = i) views"

definition doomed :: "i64 \<Rightarrow> i64 \<Rightarrow> string \<Rightarrow> view_map \<Rightarrow> string \<Rightarrow> bool" where
  "doomed now secs domain views i \<longleftrightarrow> (\<exists>j w. mget views j = Some w \<and> failed now secs w \<and> shares_fate domain views j i)"

lemma healthy_not_doomed: "healthy now secs domain views i \<Longrightarrow> \<not> doomed now secs domain views i"
  by (simp add: healthy_def doomed_def)

lemma mark_unfit_simps [simp]:
  "vs_cmsView (mark_unfit now secs v) = vs_cmsView v" "vs_view (mark_unfit now secs v) = vs_view v"
  "vs_metrics (mark_unfit now secs v) = vs_metrics v"
  by (simp_all add: mark_unfit_def)

lemma cms_ready_marked: "cms_ready views \<Longrightarrow> cms_ready (marked_views now secs views)"
proof -
  have "list_all (\<lambda>(i, v). vs_cmsView v \<noteq> None \<and> vs_GetInstanceId v = i) (marked_views now secs views) =
      list_all (\<lambda>(i, v). vs_cmsView v \<noteq> None \<and> vs_GetInstanceId v = i) views"
    by (induction views) auto
  then show "cms_ready views \<Longrightarrow> cms_ready (marked_views now secs views)" by (simp add: cms_ready_def)
qed

lemma cms_ready_get: "cms_ready views \<Longrightarrow> mget views i = Some v \<Longrightarrow> (\<exists>c. vs_cmsView v = Some c) \<and> vs_GetInstanceId v = i"
  by (auto simp: cms_ready_def list_all_iff dest: map_of_SomeD)

lemma cms_ready_cms: "cms_ready views \<Longrightarrow> list_all (\<lambda>(i, v). vs_cmsView v \<noteq> None) views"
  by (auto simp: cms_ready_def list_all_iff)

lemma mark_all_alive: "mark_all now (inferTypeFilter t # schedulabilityFilter # stalenessFilter secs # fs) v =
    set_mark (list_ex (\<lambda>f. marked now f v) fs) (mark_unfit now secs v)"
  by (auto simp: mark_all_def mark_unfit_def unfit_def intro!: arg_cong [where f = "\<lambda>b. set_mark b v"])

lemma map_views_mark: "cms_ready views \<Longrightarrow> map_views (mark_view now secs) views = Some (marked_views now secs views)"
proof -
  have "mark_view now secs v = Some (mark_unfit now secs v)" if c: "vs_cmsView v = Some c" for v c
  proof -
    have "judged now [schedulabilityFilter, stalenessFilter secs] v" using c by (simp add: judged_def verdict_def Let_def)
    moreover have "mark_all now [schedulabilityFilter, stalenessFilter secs] v = mark_unfit now secs v"
      using mark_all_safe [of "[schedulabilityFilter, stalenessFilter secs]" secs "[]" False now v] by (simp add: mark_unfit_def)
    ultimately show ?thesis by (simp add: mark_view_def run_filters_eq)
  qed
  then show "cms_ready views \<Longrightarrow> ?thesis" by (induction views) (auto simp: cms_ready_def)
qed

lemma doomed_marked:
  "(\<exists>j. failing (marked_views now secs views) j \<and> shares_fate domain (marked_views now secs views) j i) \<longleftrightarrow>
   doomed now secs domain views i"
proof -
  have "shares_fate domain (marked_views now secs views) = shares_fate domain views" by (rule fate_map_ran) simp
  moreover have "failing (marked_views now secs views) j \<longleftrightarrow> (\<exists>w. mget views j = Some w \<and> failed now secs w)" for j
    unfolding mark_unfit_def by (rule failing_marked)
  ultimately show ?thesis by (auto simp: doomed_def)
qed

abbreviation valid_domain :: "string \<Rightarrow> bool" where
  "valid_domain domain \<equiv>
     domain \<in> {FailoverDomainInstance, FailoverDomainNode, FailoverDomainInstanceUnit, FailoverDomainNodeUnit}"

lemma failover_sources:
  assumes "cms_ready views" "valid_domain domain"
  shows "\<exists>srcs. filter_instances now [inferTypeFilter t] [failoverMigrationSrcFilter secs domain] False views =
      Some (marked_views now secs views, srcs) \<and> mwf srcs \<and>
    (\<forall>i v. mget srcs i = Some v \<longleftrightarrow> mget (marked_views now secs views) i = Some v \<and> vs_GetInferType v = t \<and>
       doomed now secs domain views i)"
proof -
  let ?views = "marked_views now secs views"
  have ready: "cms_ready ?views" by (rule cms_ready_marked [OF assms(1)])
  have wf: "mwf ?views" "mwf views" using ready assms(1) by (simp_all add: cms_ready_def)
  obtain out where out: "failover_instances domain ?views = Some out"
    using failover_instances_total [OF cms_ready_cms [OF ready] assms(2)] by blast
  have spec: "i \<in> set out \<longleftrightarrow> i \<in> set (mkeys ?views) \<and> doomed now secs domain views i" for i
    using failover_domain_spec [OF wf(1) out, of i] doomed_marked by blast
  let ?typed = "map fst (filter (\<lambda>(i, v). vs_GetInferType v = t) views)"
  have "active_filters False [inferTypeFilter t] = [inferTypeFilter t]" by (simp add: active_filters_def)
  moreover have "filter_singles now [inferTypeFilter t] views = Some (views, ?typed)"
    by (induction views) auto
  ultimately have f: "filter_instances now [inferTypeFilter t] [failoverMigrationSrcFilter secs domain] False views =
      Some (?views, filter (\<lambda>(i, v). i \<in> set (filter (\<lambda>i. i \<notin> set (getRemainingInstanceIds ?views out)) ?typed)) ?views)"
    (is "_ = Some (_, ?srcs)") by (simp add: filter_instances_def map_views_mark [OF assms(1)] out)
  have get: "mget ?srcs i = Some v \<longleftrightarrow> mget ?views i = Some v \<and> vs_GetInferType v = t \<and> doomed now secs domain views i" for i v
  proof -
    have "i \<in> set ?typed \<longleftrightarrow> (\<exists>v. mget ?views i = Some v \<and> vs_GetInferType v = t)"
      using set_map_fst_filter [OF wf(2), of i "\<lambda>_ v. vs_GetInferType v = t"] by (auto simp: go_map_simps)
    moreover have "mget ?views i = Some v \<Longrightarrow> i \<in> set (mkeys ?views)" by (metis mem_mkeys_iff)
    ultimately show ?thesis unfolding mget_filter_keys [OF wf(1)] using spec [of i]
      by (auto simp: getRemainingInstanceIds_def split: if_splits)
  qed
  show ?thesis using f get mwf_filter [OF wf(1)] by blast
qed

lemma alive_spec:
  assumes "cms_ready views" "fs = inferTypeFilter t # schedulabilityFilter # stalenessFilter secs # gs"
    "\<forall>f\<in>set gs. \<forall>v. \<not> marked now f v"
    "filter_instances now fs [failoverFilter domain] False views = Some (views', avail)"
  shows "views' = marked_views now secs views" "mwf avail"
    "mget avail i = Some v \<longleftrightarrow> mget views' i = Some v \<and> vs_GetInferType v = t \<and>
      healthy now secs domain views i \<and> \<not> rejected now (active_filters False gs) v"
proof -
  have act: "active_filters False fs = fs" "active_filters False gs = gs" by (simp_all add: active_filters_def)
  have mark: "mark_all now fs = mark_unfit now secs"
    using assms(3) by (auto simp: assms(2) mark_all_alive list_ex_iff fun_eq_iff)
  have wf: "mwf views" using assms(1) by (simp add: cms_ready_def)
  note spec = filter_spec [OF wf assms(4), unfolded act mark]
  show v': "views' = marked_views now secs views" using spec by blast
  show "mwf avail" using filter_instances_wf [OF assms(4)] wf by (simp add: v')
  have "\<not> rejected now fs v \<longleftrightarrow> vs_GetInferType v = t \<and> \<not> unfit now secs c \<and> \<not> rejected now gs v"
    if "vs_cmsView v = Some c" for c
    using that by (auto simp: assms(2) rejected_def verdict_def unfit_def Let_def)
  moreover have "healthy now secs domain views i \<longleftrightarrow> (\<exists>c. vs_cmsView v = Some c \<and> \<not> unfit now secs c) \<and>
      \<not> doomed now secs domain views i" if "mget views' i = Some v"
    using that by (auto simp: healthy_def doomed_def v' go_map_simps)
  moreover have "\<exists>c. vs_cmsView v = Some c" if "mget views' i = Some v"
    using that cms_ready_get [OF cms_ready_marked [OF assms(1)]] v' by blast
  ultimately show "mget avail i = Some v \<longleftrightarrow> mget views' i = Some v \<and> vs_GetInferType v = t \<and>
      healthy now secs domain views i \<and> \<not> rejected now (active_filters False gs) v"
    using spec [of i v] doomed_marked [of now secs views domain i] unfolding act v' by blast
qed

lemma alive_total:
  assumes "cms_ready views" "valid_domain domain" "fs = [inferTypeFilter t, schedulabilityFilter, stalenessFilter secs]"
  shows "\<exists>views' avail. filter_instances now fs [failoverFilter domain] False views = Some (views', avail)"
proof -
  have act: "active_filters False fs = fs" by (simp add: active_filters_def)
  have "list_all (\<lambda>(i, v). judged now fs v \<and> vs_cmsView v \<noteq> None) views"
    using assms(1) by (fastforce simp: list_all_iff cms_ready_def judged_def assms(3) verdict_def Let_def)
  then show ?thesis using filter_failover_total [of now False fs views domain] assms(2) by (auto simp only: act)
qed

lemma round_robin_Nil: "round_robin srcs [] = []"
  by (simp add: round_robin_def)

lemma round_robin_all:
  assumes "dsts \<noteq> []" "\<forall>s\<in>set srcs. \<forall>d\<in>set dsts. vs_GetInstanceId s \<noteq> vs_GetInstanceId d"
  shows "map rp_srcView (round_robin srcs dsts) = srcs" "rp_dstView ` set (round_robin srcs dsts) \<subseteq> set dsts"
proof -
  let ?pair = "\<lambda>i. new_pair (srcs ! i) (dsts ! (i mod length dsts))"
  have "\<forall>i<length srcs. src_id (?pair i) \<noteq> dst_id (?pair i)"
    using assms by (auto simp: new_pair_def)
  then have all: "round_robin srcs dsts = map ?pair [0..<length srcs]"
    using assms(1) by (auto simp: round_robin_def intro!: filter_True)
  show "map rp_srcView (round_robin srcs dsts) = srcs"
    by (simp add: all o_def new_pair_def map_nth)
  show "rp_dstView ` set (round_robin srcs dsts) \<subseteq> set dsts"
    using assms(1) by (auto simp: all new_pair_def)
qed

lemma rejected_Nil: "rejected now [] v \<longleftrightarrow> False"
  by (simp add: rejected_def)

lemma active_filters_Nil: "active_filters fb [] = []"
  by (simp add: active_filters_def)

lemma distinct_ids:
  assumes "mwf m" "\<And>i v. mget m i = Some v \<Longrightarrow> vs_GetInstanceId v = i"
  shows "distinct (map vs_GetInstanceId (sort_stable lt (mvals m)))"
proof -
  have "vs_GetInstanceId v = i" if "(i, v) \<in> set m" for i v using assms that by (simp add: mget_iff_mem)
  then have "map vs_GetInstanceId (mvals m) = mkeys m" by auto
  moreover have "mset (map vs_GetInstanceId (sort_stable lt (mvals m))) = mset (map vs_GetInstanceId (mvals m))"
    by (simp only: mset_map mset_sort_stable)
  ultimately show ?thesis using assms(1) by (metis mset_eq_imp_distinct_iff)
qed

lemma overwrite_same: "mwf m \<Longrightarrow> (\<And>i v. mget m i = Some v \<Longrightarrow> mget views i = Some v) \<Longrightarrow> overwrite views m = m"
proof (induction m)
  case (Cons e m)
  obtain i v where e: "e = (i, v)" by (cases e)
  have "mget views i = Some v" using Cons.prems(2) [of i v] by (simp add: e)
  moreover have "mget views j = Some w" if "mget m j = Some w" for j w
  proof -
    have "j \<noteq> i" using mget_key [OF that] Cons.prems(1) by (auto simp: e)
    then show ?thesis using Cons.prems(2) [of j w] that by (simp add: e)
  qed
  ultimately show ?case using Cons.IH Cons.prems(1) by (simp add: overwrite_def e)
qed (simp add: overwrite_def)

lemma failover_policy:
  assumes "newFailoverRescheduling p t = Some pol"
  shows "brp_srcSingleInstanceFilters (base_policy pol) = [inferTypeFilter t]"
    "brp_srcGlobalFilters (base_policy pol) = [failoverMigrationSrcFilter (cfg_InstanceStalenessSeconds p) (cfg_FailoverDomain p)]"
    "brp_dstSingleInstanceFilters (base_policy pol) =
       [inferTypeFilter t, schedulabilityFilter, stalenessFilter (cfg_InstanceStalenessSeconds p)]"
    "brp_dstGlobalFilters (base_policy pol) = [failoverFilter (cfg_FailoverDomain p)]"
    "policy_selectPairs pol srcs dsts = select_pairs roundRobinSelector srcs dsts"
  using assms by (auto simp: newFailoverRescheduling_def alive_filters_def bind_eq_Some_conv split: if_splits)

lemma mark_unfit_type: "vs_GetInferType (mark_unfit now secs v) = t \<longleftrightarrow> vs_GetInferType v = t"
  by simp

lemma candidate_ids:
  assumes "cms_ready views" "mwf m" "\<And>i v. mget m i = Some v \<longleftrightarrow> mget (marked_views now secs views) i = Some v \<and> P v \<and> Q i"
    "\<And>v. P (mark_unfit now secs v) \<longleftrightarrow> P v"
  shows "i \<in> vs_GetInstanceId ` set (mvals m) \<longleftrightarrow> (\<exists>v. mget views i = Some v \<and> P v \<and> Q i)"
proof -
  have "i \<in> vs_GetInstanceId ` set (mvals m) \<longleftrightarrow> (\<exists>k v. mget m k = Some v \<and> vs_GetInstanceId v = i)"
    using mvals_mget [OF assms(2)] by blast
  also have "\<dots> \<longleftrightarrow> (\<exists>v. mget (marked_views now secs views) i = Some v \<and> P v \<and> Q i)"
    using assms(3) cms_ready_get [OF cms_ready_marked [OF assms(1)]] by metis
  also have "\<dots> \<longleftrightarrow> (\<exists>v. mget views i = Some v \<and> P v \<and> Q i)" using assms(4) by (auto simp: go_map_simps)
  finally show ?thesis .
qed

lemma failover_candidates:
  assumes "newFailoverRescheduling p t = Some pol" "cms_ready views" "valid_domain (cfg_FailoverDomain p)"
  obtains srcs dsts where
    "policy_filter now (base_policy pol) views = Some (marked_views now (cfg_InstanceStalenessSeconds p) views, srcs, dsts)"
    "mwf srcs" "\<And>i v. mget srcs i = Some v \<longleftrightarrow>
      mget (marked_views now (cfg_InstanceStalenessSeconds p) views) i = Some v \<and> vs_GetInferType v = t \<and>
      doomed now (cfg_InstanceStalenessSeconds p) (cfg_FailoverDomain p) views i"
    "mwf dsts" "\<And>i v. mget dsts i = Some v \<longleftrightarrow>
      mget (marked_views now (cfg_InstanceStalenessSeconds p) views) i = Some v \<and> vs_GetInferType v = t \<and>
      healthy now (cfg_InstanceStalenessSeconds p) (cfg_FailoverDomain p) views i"
proof -
  let ?secs = "cfg_InstanceStalenessSeconds p" and ?dom = "cfg_FailoverDomain p"
  let ?views = "marked_views now ?secs views"
  note pol = failover_policy [OF assms(1)]
  obtain srcs where srcs: "filter_instances now [inferTypeFilter t] [failoverMigrationSrcFilter ?secs ?dom] False views =
      Some (?views, srcs)" "mwf srcs" "\<And>i v. mget srcs i = Some v \<longleftrightarrow>
      mget ?views i = Some v \<and> vs_GetInferType v = t \<and> doomed now ?secs ?dom views i"
    using failover_sources [OF assms(2,3), of now t] by blast
  have ready: "cms_ready ?views" by (rule cms_ready_marked [OF assms(2)])
  obtain dsts where dsts: "filter_instances now [inferTypeFilter t, schedulabilityFilter, stalenessFilter ?secs] [failoverFilter ?dom]
      False ?views = Some (?views, dsts)" "mwf dsts" "\<And>i v. mget dsts i = Some v \<longleftrightarrow>
      mget ?views i = Some v \<and> vs_GetInferType v = t \<and> healthy now ?secs ?dom views i"
  proof -
    obtain views' dsts where f: "filter_instances now [inferTypeFilter t, schedulabilityFilter, stalenessFilter ?secs]
        [failoverFilter ?dom] False ?views = Some (views', dsts)" using alive_total [OF ready assms(3) refl] by blast
    note a = alive_spec [OF ready refl _ f, unfolded mark_unfit_idem healthy_marked active_filters_Nil rejected_Nil, simplified]
    from that [OF _ a(2)] f a(1,3) show ?thesis by auto
  qed
  have filt: "policy_filter now (base_policy pol) views = Some (?views, srcs, dsts)"
    using overwrite_same [OF srcs(2), of ?views] srcs(3) by (simp add: policy_filter_def pol srcs(1) dsts(1))
  from that [OF filt srcs(2,3) dsts(2,3)] show ?thesis .
qed

text \<open>C16. A failover policy moves the requests of exactly the instances of its type that go down with a
  failed instance, each in one pair, as soon as the type has a healthy instance; and it moves them
  only to healthy instances of the type.\<close>

theorem failover_evacuates:
  assumes "newFailoverRescheduling p t = Some pol" "cms_ready views" "valid_domain (cfg_FailoverDomain p)"
  shows "\<exists>views' srcs dsts pairs.
    policy_filter now (base_policy pol) views = Some (views', srcs, dsts) \<and>
    policy_selectPairs pol srcs dsts = Some pairs \<and> distinct (map src_id pairs) \<and>
    (\<forall>i. i \<in> set (map src_id pairs) \<longleftrightarrow>
       (\<exists>v. mget views i = Some v \<and> vs_GetInferType v = t \<and>
            doomed now (cfg_InstanceStalenessSeconds p) (cfg_FailoverDomain p) views i) \<and>
       (\<exists>j w. mget views j = Some w \<and> vs_GetInferType w = t \<and>
            healthy now (cfg_InstanceStalenessSeconds p) (cfg_FailoverDomain p) views j)) \<and>
    (\<forall>i. i \<in> set (map dst_id pairs) \<longrightarrow>
       (\<exists>w. mget views i = Some w \<and> vs_GetInferType w = t \<and>
            healthy now (cfg_InstanceStalenessSeconds p) (cfg_FailoverDomain p) views i))"
proof -
  let ?secs = "cfg_InstanceStalenessSeconds p" and ?dom = "cfg_FailoverDomain p"
  from failover_candidates [OF assms] obtain srcs dsts where
    filt: "policy_filter now (base_policy pol) views = Some (marked_views now ?secs views, srcs, dsts)"
    and srcs: "mwf srcs" "\<And>i v. mget srcs i = Some v \<longleftrightarrow>
      mget (marked_views now ?secs views) i = Some v \<and> vs_GetInferType v = t \<and> doomed now ?secs ?dom views i"
    and dsts: "mwf dsts" "\<And>i v. mget dsts i = Some v \<longleftrightarrow>
      mget (marked_views now ?secs views) i = Some v \<and> vs_GetInferType v = t \<and> healthy now ?secs ?dom views i" by blast
  note ready = cms_ready_marked [OF assms(2)]
  define ss ds where "ss = sort_stable id_before (mvals srcs)" and "ds = sort_stable id_before (mvals dsts)"
  have pairs: "policy_selectPairs pol srcs dsts = Some (round_robin ss ds)" by (simp add: failover_policy [OF assms(1)] ss_def ds_def)
  have sorted: "set (mvals srcs) = set ss" "set (mvals dsts) = set ds" by (simp_all add: ss_def ds_def)
  note sid = candidate_ids [OF assms(2) srcs mark_unfit_type, unfolded sorted] and
    did = candidate_ids [OF assms(2) dsts mark_unfit_type, unfolded sorted]
  have apart: "\<forall>s\<in>set ss. \<forall>d\<in>set ds. vs_GetInstanceId s \<noteq> vs_GetInstanceId d"
    using sid did healthy_not_doomed by blast
  have dist: "distinct (map vs_GetInstanceId ss)"
    unfolding ss_def by (rule distinct_ids [OF srcs(1)]) (use srcs(2) cms_ready_get [OF ready] in blast)
  show ?thesis
  proof (cases "ds = []")
    case True
    then have "\<And>j. \<not> (\<exists>w. mget views j = Some w \<and> vs_GetInferType w = t \<and> healthy now ?secs ?dom views j)"
      using did True by simp
    then show ?thesis using filt pairs True by (auto simp: round_robin_Nil)
  next
    case False
    note rr = round_robin_all [OF False apart]
    have src: "map src_id (round_robin ss ds) = map vs_GetInstanceId ss" 
      using arg_cong [OF rr(1), of "map vs_GetInstanceId"] by (simp add: o_def)
    have "\<exists>j w. mget views j = Some w \<and> vs_GetInferType w = t \<and> healthy now ?secs ?dom views j"
    proof -
      have "vs_GetInstanceId (hd ds) \<in> vs_GetInstanceId ` set ds" using False by simp
      then show ?thesis unfolding did by blast
    qed
    then have all: "\<forall>i. i \<in> set (map src_id (round_robin ss ds)) \<longleftrightarrow>
        (\<exists>v. mget views i = Some v \<and> vs_GetInferType v = t \<and> doomed now ?secs ?dom views i) \<and>
        (\<exists>j w. mget views j = Some w \<and> vs_GetInferType w = t \<and> healthy now ?secs ?dom views j)"
      unfolding src using sid by simp
    have "i \<in> vs_GetInstanceId ` set ds" if "i \<in> set (map dst_id (round_robin ss ds))" for i
      using rr(2) that by auto
    then have dst: "\<forall>i. i \<in> set (map dst_id (round_robin ss ds)) \<longrightarrow>
        (\<exists>w. mget views i = Some w \<and> vs_GetInferType w = t \<and> healthy now ?secs ?dom views i)"
      unfolding did by blast
    have "distinct (map src_id (round_robin ss ds))" unfolding src by (rule dist)
    then show ?thesis by (intro exI conjI) (rule filt, rule pairs, assumption, rule all, rule dst)
  qed
qed

subsection \<open>Load balancing\<close>

definition pair_from :: "string \<Rightarrow> string \<Rightarrow> instanceViewScheduling set \<Rightarrow> instanceViewScheduling set \<Rightarrow> reschedulingPair \<Rightarrow> bool" where
  "pair_from srcMetric dstMetric S D p \<longleftrightarrow>
     rp_srcView p \<in> S \<and> rp_dstView p \<in> D \<and>
     (\<exists>ms md. vs_metric (rp_srcView p) srcMetric = Some ms \<and> vs_metric (rp_dstView p) dstMetric = Some md \<and> metric_Less md ms)"

lemma pair_from_mono: "pair_from a b S D p \<Longrightarrow> S \<subseteq> S' \<Longrightarrow> D \<subseteq> D' \<Longrightarrow> pair_from a b S' D' p"
  by (auto simp: pair_from_def)

lemma pair_loop_from:
  "pair_loop a b True ss ds = Some ps \<Longrightarrow> p \<in> set ps \<Longrightarrow> pair_from a b (set ss) (set ds) p"
proof (induction a b True ss ds arbitrary: ps rule: pair_loop.induct)
  case (1 a b s ss d ds)
  then show ?case
    by (auto simp: bind_eq_Some_conv pair_from_def new_pair_def split: if_splits) blast+
qed (auto)

lemma pairLists_from:
  assumes "pairLists a b True ss ds = Some ps" "p \<in> set ps"
  shows "pair_from a b (set ss) (set ds) p"
proof -
  from assms(1) have "pair_loop a b True (sort_stable (src_before a) ss) (sort_stable (dst_before b) ds) = Some ps"
    by (auto simp: pairLists_def sort_views_def bind_eq_Some_conv split: if_splits)
  from pair_loop_from [OF this assms(2)] show ?thesis by simp
qed

definition unit_id :: "instanceViewScheduling \<Rightarrow> string" where
  "unit_id v = (case vs_cmsView v of None \<Rightarrow> [] | Some c \<Rightarrow> md_UnitId (cv_Metadata c))"

lemma by_unit_sound:
  "by_unit units vs = Some units' \<Longrightarrow> mget units' u = Some l \<Longrightarrow> v \<in> set l \<Longrightarrow>
   (\<exists>l0. mget units u = Some l0 \<and> v \<in> set l0) \<or> v \<in> set vs \<and> unit_id v = u"
proof (induction vs arbitrary: units)
  case (Cons w vs)
  then obtain c where c: "vs_cmsView w = Some c"
    "by_unit (if md_UnitId (cv_Metadata c) = [] then units
       else mput (md_UnitId (cv_Metadata c)) ((case mget units (md_UnitId (cv_Metadata c)) of None \<Rightarrow> [] | Some l \<Rightarrow> l) @ [w]) units) vs
     = Some units'" by (auto simp: bind_eq_Some_conv Let_def)
  from Cons.IH [OF c(2) Cons.prems(2,3)] show ?case
    using c(1) by (cases "mget units (md_UnitId (cv_Metadata c))")
      (auto simp: unit_id_def go_map_simps split: if_splits)
qed auto

lemma unit_pairs_from:
  "unit_pairs a b True dbu sbu = Some ps \<Longrightarrow> p \<in> set ps \<Longrightarrow> mwf sbu \<Longrightarrow>
   \<exists>u ss ds. mget sbu u = Some ss \<and> mget dbu u = Some ds \<and> pair_from a b (set ss) (set ds) p"
proof (induction sbu arbitrary: ps)
  case (Cons e sbu)
  obtain u ss where e: "e = (u, ss)" by (cases e)
  show ?case
  proof (cases "mget dbu u")
    case None
    then have "unit_pairs a b True dbu sbu = Some ps" using Cons.prems(1) by (simp add: e)
    with Cons.IH Cons.prems obtain u' ss' ds' where
      "mget sbu u' = Some ss'" "mget dbu u' = Some ds'" "pair_from a b (set ss') (set ds') p" by auto
    with None show ?thesis by (intro exI [of _ u']) (auto simp: e)
  next
    case (Some ds)
    then obtain ps1 ps2 where r: "pairLists a b True ss ds = Some ps1" "unit_pairs a b True dbu sbu = Some ps2" "ps = ps1 @ ps2"
      using Cons.prems(1) by (auto simp: e bind_eq_Some_conv)
    show ?thesis
    proof (cases "p \<in> set ps1")
      case True
      then show ?thesis using pairLists_from [OF r(1)] Some by (intro exI [of _ u]) (auto simp: e)
    next
      case False
      then have "p \<in> set ps2" using Cons.prems(2) r(3) by simp
      with Cons.IH [OF r(2)] Cons.prems(3) obtain u' ss' ds' where
        u': "mget sbu u' = Some ss'" "mget dbu u' = Some ds'" "pair_from a b (set ss') (set ds') p" by (auto simp: e)
      moreover have "u' \<noteq> u" using mget_key [OF u'(1)] Cons.prems(3) by (auto simp: e)
      ultimately show ?thesis by (intro exI [of _ u']) (auto simp: e)
    qed
  qed
qed auto

lemma by_unit_wf: "by_unit units vs = Some units' \<Longrightarrow> mwf units \<Longrightarrow> mwf units'"
  by (induction vs arbitrary: units) (auto simp: bind_eq_Some_conv Let_def go_map_simps split: if_splits)

lemma balance_pairs_from:
  assumes "select_pairs (metricBalanceSelector a b True scope) srcs dsts = Some ps" "p \<in> set ps"
  shows "pair_from a b (set (mvals srcs)) (set (mvals dsts)) p \<and>
    (scope = ReschedulingLoadBalanceScopeUnit \<longrightarrow> unit_id (rp_srcView p) = unit_id (rp_dstView p))"
proof (cases "scope = ReschedulingLoadBalanceScopeCluster")
  case True
  then show ?thesis using assms pairLists_from [of a b "mvals srcs" "mvals dsts" ps p] by (simp add: rescheduling_names)
next
  case False
  then obtain sbu dbu where u: "scope = ReschedulingLoadBalanceScopeUnit" "by_unit [] (mvals srcs) = Some sbu"
    "by_unit [] (mvals dsts) = Some dbu" "unit_pairs a b True dbu sbu = Some ps"
    using assms by (auto simp: bind_eq_Some_conv split: if_splits)
  obtain u ss ds where p: "mget sbu u = Some ss" "mget dbu u = Some ds" "pair_from a b (set ss) (set ds) p"
    using unit_pairs_from [OF u(4) assms(2)] by_unit_wf [OF u(2)] by auto
  have "set ss \<subseteq> {v\<in>set (mvals srcs). unit_id v = u}" "set ds \<subseteq> {v\<in>set (mvals dsts). unit_id v = u}"
    using by_unit_sound [OF u(2) p(1)] by_unit_sound [OF u(3) p(2)] by auto
  from pair_from_mono [OF p(3) this] show ?thesis by (auto simp: pair_from_def)
qed

lemma accept_pairs_from:
  "accept_pairs metric thr ps = Some qs \<Longrightarrow> p \<in> set qs \<Longrightarrow>
   p \<in> set ps \<and> (\<exists>ms md. vs_metric (rp_srcView p) metric = Some ms \<and> vs_metric (rp_dstView p) metric = Some md \<and>
     \<not> flt (fsub round32 (GetValue ms) (GetValue md)) thr)"
  by (induction ps arbitrary: qs) (auto simp: bind_eq_Some_conv split: if_splits)

definition load_metric :: "SchedulerConfig \<Rightarrow> InferType \<Rightarrow> string" where
  "load_metric p t = (if t = InferTypeDecode then cfg_ReschedulingDecodeLoadMetric p else cfg_ReschedulingNeutralLoadMetric p)"

lemma load_balance_policy:
  assumes "newLoadBalanceRescheduling p t = Some pol"
  obtains gs gs' where
    "brp_srcSingleInstanceFilters (base_policy pol) =
       inferTypeFilter t # schedulabilityFilter # stalenessFilter (cfg_InstanceStalenessSeconds p) # gs"
    "brp_dstSingleInstanceFilters (base_policy pol) =
       inferTypeFilter t # schedulabilityFilter # stalenessFilter (cfg_InstanceStalenessSeconds p) # gs'"
    "\<forall>f\<in>set (gs @ gs'). \<forall>now v. \<not> marked now f v"
    "brp_srcGlobalFilters (base_policy pol) = [failoverFilter (cfg_FailoverDomain p)]"
    "brp_dstGlobalFilters (base_policy pol) = [failoverFilter (cfg_FailoverDomain p)]"
    "\<And>srcs dsts. policy_selectPairs pol srcs dsts =
       do { pairs \<leftarrow> select_pairs (metricBalanceSelector (load_metric p t) (load_metric p t) True
                                 (cfg_ReschedulingLoadBalanceScope p)) srcs dsts;
            acceptLoadImbalancePairs (load_metric p t) (cfg_ReschedulingLoadBalanceThreshold p) pairs }"
  using assms
  by (fastforce simp: newLoadBalanceRescheduling_def alive_filters_def load_metric_def bind_eq_Some_conv Let_def
      split: if_splits)

lemma accepted_pair:
  assumes "policy_selectPairs pol srcs dsts = Some pairs" "pair \<in> set pairs" "newLoadBalanceRescheduling p t = Some pol"
  shows "pair_from (load_metric p t) (load_metric p t) (set (mvals srcs)) (set (mvals dsts)) pair \<and>
    (cfg_ReschedulingLoadBalanceScope p = ReschedulingLoadBalanceScopeUnit \<longrightarrow>
       unit_id (rp_srcView pair) = unit_id (rp_dstView pair)) \<and>
    (\<not> fle (cfg_ReschedulingLoadBalanceThreshold p) (Fin 0) \<longrightarrow>
       (\<exists>ms md. vs_metric (rp_srcView pair) (load_metric p t) = Some ms \<and> vs_metric (rp_dstView pair) (load_metric p t) = Some md \<and>
         \<not> flt (fsub round32 (GetValue ms) (GetValue md)) (cfg_ReschedulingLoadBalanceThreshold p)))"
proof -
  let ?m = "load_metric p t" and ?scope = "cfg_ReschedulingLoadBalanceScope p" and ?thr = "cfg_ReschedulingLoadBalanceThreshold p"
  from assms(3) obtain gs gs' where sel: "policy_selectPairs pol srcs dsts =
       do { pairs \<leftarrow> select_pairs (metricBalanceSelector ?m ?m True ?scope) srcs dsts;
            acceptLoadImbalancePairs ?m ?thr pairs }" by (rule load_balance_policy) blast
  from assms(1) obtain ps where ps: "select_pairs (metricBalanceSelector ?m ?m True ?scope) srcs dsts = Some ps"
    "acceptLoadImbalancePairs ?m ?thr ps = Some pairs" unfolding sel bind_eq_Some_conv by blast
  have "pair \<in> set ps \<and> (\<not> fle ?thr (Fin 0) \<longrightarrow> (\<exists>ms md. vs_metric (rp_srcView pair) ?m = Some ms \<and>
      vs_metric (rp_dstView pair) ?m = Some md \<and> \<not> flt (fsub round32 (GetValue ms) (GetValue md)) ?thr))"
    using ps(2) assms(2) accept_pairs_from [of ?m ?thr ps pairs pair]
    by (simp add: acceptLoadImbalancePairs_def split: if_splits)
  with balance_pairs_from [OF ps(1)] show ?thesis by blast
qed

lemma metric_Less_irrefl: "\<not> metric_Less m m"
  by (simp add: metric_Less_rank)

lemma pair_from_ids: "pair_from a a S D p \<Longrightarrow> rp_srcView p \<noteq> rp_dstView p"
  by (auto simp: pair_from_def metric_Less_irrefl)

lemma load_balance_candidate:
  assumes "newLoadBalanceRescheduling p t = Some pol" "cms_ready views"
    "policy_filter now (base_policy pol) views = Some (views', srcs, dsts)" "x \<in> set (mvals srcs) \<union> set (mvals dsts)"
  shows "\<exists>v. mget views (vs_GetInstanceId x) = Some v \<and> vs_GetInferType v = t \<and> unit_id v = unit_id x \<and>
    healthy now (cfg_InstanceStalenessSeconds p) (cfg_FailoverDomain p) views (vs_GetInstanceId x) \<and>
    mget views' (vs_GetInstanceId x) = Some x"
proof -
  let ?secs = "cfg_InstanceStalenessSeconds p" and ?dom = "cfg_FailoverDomain p"
  from assms(1) obtain gs gs' where fl:
    "brp_srcSingleInstanceFilters (base_policy pol) = inferTypeFilter t # schedulabilityFilter # stalenessFilter ?secs # gs"
    "brp_dstSingleInstanceFilters (base_policy pol) = inferTypeFilter t # schedulabilityFilter # stalenessFilter ?secs # gs'"
    "\<forall>f\<in>set (gs @ gs'). \<forall>now v. \<not> marked now f v"
    "brp_srcGlobalFilters (base_policy pol) = [failoverFilter ?dom]"
    "brp_dstGlobalFilters (base_policy pol) = [failoverFilter ?dom]" by (rule load_balance_policy) blast
  have nm: "\<forall>f\<in>set gs. \<forall>v. \<not> marked now f v" "\<forall>f\<in>set gs'. \<forall>v. \<not> marked now f v" using fl(3) by auto
  from assms(3) obtain views1 srcs1 where
    f: "filter_instances now (brp_srcSingleInstanceFilters (base_policy pol)) [failoverFilter ?dom] False views = Some (views1, srcs1)"
       "filter_instances now (brp_dstSingleInstanceFilters (base_policy pol)) [failoverFilter ?dom] False views1 = Some (views', dsts)"
    and srcs: "srcs = overwrite views' srcs1" by (auto simp: policy_filter_def fl(4,5) bind_eq_Some_conv)
  note s = alive_spec [OF assms(2) fl(1) nm(1) f(1)]
  have ready: "cms_ready views1" using s(1) cms_ready_marked [OF assms(2)] by simp
  note d = alive_spec [OF ready fl(2) nm(2) f(2)]
  have v': "views' = marked_views now ?secs views" "views1 = views'"
    using d(1) unfolding s(1) by (simp_all add: mark_unfit_idem)
  have "srcs = srcs1" unfolding srcs by (rule overwrite_same [OF s(2)]) (use s(3) v'(2) in blast)
  obtain k where k: "mget views' k = Some x" "vs_GetInferType x = t" "healthy now ?secs ?dom views k"
    using assms(4) unfolding \<open>srcs = srcs1\<close> Un_iff mvals_mget [OF s(2)] mvals_mget [OF d(2)] s(3) d(3)
    unfolding s(1) healthy_marked v'(1) by blast
  have id: "vs_GetInstanceId x = k" using cms_ready_get [OF ready [unfolded v'(2)] k(1)] by blast
  show ?thesis using k by (auto simp: id v'(1) go_map_simps unit_id_def)
qed

text \<open>C17. A load balancing policy moves requests only between two different healthy instances of its type,
  from the one with the higher to the one with the lower load, within one unit when the scope is the
  unit, and with a positive threshold only when the loads are at least that far apart.\<close>

theorem load_balance_pairs:
  assumes "newLoadBalanceRescheduling p t = Some pol" "cms_ready views"
    "policy_filter now (base_policy pol) views = Some (views', srcs, dsts)"
    "policy_selectPairs pol srcs dsts = Some pairs" "pair \<in> set pairs"
  shows "src_id pair \<noteq> dst_id pair \<and>
    (\<exists>v w. mget views (src_id pair) = Some v \<and> mget views (dst_id pair) = Some w \<and>
       vs_GetInferType v = t \<and> vs_GetInferType w = t \<and>
       (cfg_ReschedulingLoadBalanceScope p = ReschedulingLoadBalanceScopeUnit \<longrightarrow> unit_id v = unit_id w)) \<and>
    healthy now (cfg_InstanceStalenessSeconds p) (cfg_FailoverDomain p) views (src_id pair) \<and>
    healthy now (cfg_InstanceStalenessSeconds p) (cfg_FailoverDomain p) views (dst_id pair) \<and>
    (\<exists>ms md. vs_metric (rp_srcView pair) (load_metric p t) = Some ms \<and> vs_metric (rp_dstView pair) (load_metric p t) = Some md \<and>
       metric_Less md ms \<and>
       (\<not> fle (cfg_ReschedulingLoadBalanceThreshold p) (Fin 0) \<longrightarrow>
         \<not> flt (fsub round32 (GetValue ms) (GetValue md)) (cfg_ReschedulingLoadBalanceThreshold p)))"
proof -
  let ?secs = "cfg_InstanceStalenessSeconds p" and ?dom = "cfg_FailoverDomain p"
  note ok = accepted_pair [OF assms(4,5,1)]
  note side = load_balance_candidate [OF assms(1-3)]
  have in_sets: "rp_srcView pair \<in> set (mvals srcs)" "rp_dstView pair \<in> set (mvals dsts)" using ok by (simp_all add: pair_from_def)
  obtain v w where vw: "mget views (src_id pair) = Some v" "vs_GetInferType v = t" "unit_id v = unit_id (rp_srcView pair)"
    "healthy now ?secs ?dom views (src_id pair)" "mget views' (src_id pair) = Some (rp_srcView pair)"
    "mget views (dst_id pair) = Some w" "vs_GetInferType w = t" "unit_id w = unit_id (rp_dstView pair)"
    "healthy now ?secs ?dom views (dst_id pair)" "mget views' (dst_id pair) = Some (rp_dstView pair)"
    using side [of "rp_srcView pair"] side [of "rp_dstView pair"] in_sets by blast
  have "src_id pair \<noteq> dst_id pair" using vw(5,10) pair_from_ids ok by (metis option.inject)
  moreover have "\<exists>ms md. vs_metric (rp_srcView pair) (load_metric p t) = Some ms \<and> vs_metric (rp_dstView pair) (load_metric p t) = Some md \<and>
       metric_Less md ms \<and> (\<not> fle (cfg_ReschedulingLoadBalanceThreshold p) (Fin 0) \<longrightarrow>
         \<not> flt (fsub round32 (GetValue ms) (GetValue md)) (cfg_ReschedulingLoadBalanceThreshold p))"
    using ok by (auto simp: pair_from_def)
  ultimately show ?thesis using vw ok by auto
qed

subsection \<open>Connections of failed migrations\<close>

text \<open>A migration whose rule is unknown fails after it took its connection and does not give it back:
  a pool of one connection never serves another instance again.\<close>

theorem unknown_rule_blocks_pool:
  assumes "migration_value_of pair = None" "vs_cmsView (rp_srcView pair) = Some src" "vs_cmsView (rp_dstView pair) = Some dst"
    "dial (llumlet_address src)" "i \<noteq> src_id pair"
  shows "\<exists>cm' r. execute_migration dial rpc now pair (NewClientManager 1) = Some (cm', r) \<and>
    res_err r = Some (UnknownMigrationType (rp_reqSelectRule pair)) \<and>
    GetOrCreateClient dial now' i address cm' = Some (cm', Inl ErrMaxSize)"
proof -
  let ?c = "NewClientConnection (src_id pair) (llumlet_address src) now"
  let ?cm = "\<lparr>cm_clientConnections = [(src_id pair, ?c)], cm_requestCnt = [(src_id pair, 1)], cm_maxSize = 1,
    cm_lruList = [src_id pair], cm_closed = []\<rparr>"
  have room: "make_room (NewClientManager 1) = Some (NewClientManager 1, False)"
    by (subst make_room.simps) (simp add: NewClientManager_def)
  have full: "make_room ?cm = Some (?cm, True)"
    by (subst make_room.simps) (simp add: request_cnt_def Let_def)
  have "GetOrCreateClient dial now (src_id pair) (llumlet_address src) (NewClientManager 1) = Some (?cm, Inr ?c)"
    using assms(4) room by (simp add: GetOrCreateClient_def GetClient_def createClient_def NewClientManager_def Let_def)
  then have "execute_migration dial rpc now pair (NewClientManager 1) =
      Some (?cm, \<lparr>res_reschedulingPair = pair, res_migrateResponse = None,
        res_err = Some (UnknownMigrationType (rp_reqSelectRule pair))\<rparr>)"
    by (simp add: execute_migration_def assms(1-3))
  moreover have "GetOrCreateClient dial now' i address ?cm = Some (?cm, Inl ErrMaxSize)"
    using assms(5) full by (simp add: GetOrCreateClient_def GetClient_def createClient_def)
  ultimately show ?thesis by simp
qed

definition ex_swap_pair :: reschedulingPair where
  "ex_swap_pair = new_pair (new_scheduling_view (CmsInstanceView (ex_view ''a'' InferTypeDecode)))
     (new_scheduling_view (CmsInstanceView (ex_view ''b'' InferTypeDecode)))"

theorem unknown_rule_blocks_pool_witness:
  "\<exists>cm' r. execute_migration (\<lambda>_. True) (\<lambda>_. Inl []) 1 ex_swap_pair (NewClientManager 1) = Some (cm', r) \<and>
     GetOrCreateClient (\<lambda>_. True) 2 ''c'' ''1.3:50'' cm' = Some (cm', Inl ErrMaxSize)"
proof -
  let ?a = "ex_view ''a'' InferTypeDecode" and ?b = "ex_view ''b'' InferTypeDecode"
  have h: "migration_value_of ex_swap_pair = None" "vs_cmsView (rp_srcView ex_swap_pair) = Some ?a"
    "vs_cmsView (rp_dstView ex_swap_pair) = Some ?b" "(\<lambda>_. True) (llumlet_address ?a)" "''c'' \<noteq> src_id ex_swap_pair"
    by (simp_all add: migration_value_of_def ex_swap_pair_def new_pair_def migration_names new_scheduling_view_def
        cv_GetInstanceId_def ex_view_def)
  from unknown_rule_blocks_pool [OF h, of "\<lambda>_. Inl []" 1 2 "''1.3:50''"] show ?thesis by blast
qed

subsection \<open>Examples\<close>

definition ex_failover_config :: SchedulerConfig where
  "ex_failover_config = default_config\<lparr>cfg_FailoverDomain := FailoverDomainNode,
     cfg_ReschedulingDecodeLoadMetric := SchedulingMetricDecodeBatchSize, cfg_ReschedulingDecodeLoadThreshold := Fin 0,
     cfg_ReschedulingLoadBalanceThreshold := Fin 0, cfg_ReschedulingPolicies := ReschedulingPolicyDecodeFailover\<rparr>"

lemma ex_cluster_ready: "cms_ready ex_cluster"
  by (simp add: cms_ready_def ex_cluster_def Let_def new_scheduling_view_def cv_GetInstanceId_def ex_view_def)

theorem failover_evacuates_witness:
  "\<exists>pol views' srcs dsts pairs. newFailoverRescheduling ex_failover_config InferTypeDecode = Some pol \<and>
     policy_filter 1000 (base_policy pol) ex_cluster = Some (views', srcs, dsts) \<and>
     policy_selectPairs pol srcs dsts = Some pairs \<and> distinct (map src_id pairs)"
proof -
  obtain pol where pol: "newFailoverRescheduling ex_failover_config InferTypeDecode = Some pol"
    by (simp add: newFailoverRescheduling_def ex_failover_config_def default_config_def infer_types
        getSchedulingMetric_def metric_names)
  have "valid_domain (cfg_FailoverDomain ex_failover_config)" by (simp add: ex_failover_config_def)
  from failover_evacuates [OF pol ex_cluster_ready this, of 1000] pol show ?thesis by blast
qed

theorem load_balance_pairs_witness:
  "\<exists>pol views' srcs dsts pairs pair. newLoadBalanceRescheduling ex_failover_config InferTypeDecode = Some pol \<and>
     policy_filter 1000 (base_policy pol) (ex_scored [(''a'', 3), (''b'', 1)]) = Some (views', srcs, dsts) \<and>
     policy_selectPairs pol srcs dsts = Some pairs \<and> pair \<in> set pairs \<and> src_id pair \<noteq> dst_id pair"
proof -
  let ?views = "ex_scored [(''a'', 3), (''b'', 1)]"
  have ready: "cms_ready ?views"
    by (simp add: cms_ready_def ex_scored_def new_scheduling_view_def cv_GetInstanceId_def ex_view_def)
  have run: "(case newLoadBalanceRescheduling ex_failover_config InferTypeDecode of None \<Rightarrow> False
      | Some pol \<Rightarrow> (case policy_filter 1000 (base_policy pol) ?views of None \<Rightarrow> False
      | Some (_, srcs, dsts) \<Rightarrow> (case policy_selectPairs pol srcs dsts of None \<Rightarrow> False | Some pairs \<Rightarrow> pairs \<noteq> [])))"
    by code_simp
  then obtain pol views' srcs dsts pairs where
    r: "newLoadBalanceRescheduling ex_failover_config InferTypeDecode = Some pol"
      "policy_filter 1000 (base_policy pol) ?views = Some (views', srcs, dsts)"
      "policy_selectPairs pol srcs dsts = Some pairs" "pairs \<noteq> []"
    by (auto split: option.splits)
  from load_balance_pairs [OF r(1) ready r(2,3) hd_in_set [OF r(4)]] r hd_in_set [OF r(4)] show ?thesis by blast
qed

definition ex_failing_client :: CMSReadClient where
  "ex_failing_client =
     (let down = (\<lambda>i. (ex_view i InferTypeDecode)\<lparr>cv_Status := (cv_Status (ex_view i InferTypeDecode))\<lparr>st_Schedulable := False\<rparr>\<rparr>)
      in ex_client\<lparr>c_isAlive := True,
           c_instanceViews := [(''a'', down ''a''), (''b'', down ''b''), (''c'', ex_view ''c'' InferTypeDecode)],
           c_groupedInstanceViews := [(InferTypeDecode, [''a'', ''b'', ''c''])]\<rparr>)"

definition ex_rescheduler :: ReschedulingPolicy where
  "ex_rescheduler = the (newReschedulingPolicy (ex_failover_config\<lparr>cfg_FailoverDomain := FailoverDomainInstance\<rparr>) ex_failing_client 0)"

theorem no_swapped_migrations_witness:
  "\<exists>p q. reschedule ex_lp 1000 ex_rescheduler = Some [p, q] \<and> \<not> (src_id p = dst_id q \<and> dst_id p = src_id q)"
proof -
  have "map_option length (reschedule ex_lp 1000 ex_rescheduler) = Some 2" by code_simp
  then obtain p q where pq: "reschedule ex_lp 1000 ex_rescheduler = Some [p, q]"
    by (auto simp: length_Suc_conv numeral_2_eq_2)
  from no_swapped_migrations [OF pq, of 0 1] pq show ?thesis by simp
qed

end
