(* ===== verification/Lite_Dispatch.thy ===== *)
theory Lite_Dispatch
  imports Dispatch_Policy
begin

text \<open>
  Dispatch in lite mode, where the scheduler has no cluster metadata and balances on its own realtime
  state (\<open>pkg/scheduler/policy/scheduling_policy.go\<close> with the lite policies of
  \<open>scheduling_policy_registry.go\<close>).

  Lemmas: a lite policy never panics; it refuses a stage only when the stage has no instance at all,
  whatever the load threshold is; the instance it returns carries the least load of its group.
\<close>

subsection \<open>Lite policies\<close>

definition lite_policy :: "DispatchPolicy \<Rightarrow> bool" where
  "lite_policy d \<longleftrightarrow> \<not> cfg_EnableFullModeScheduling (d_c d) \<and>
     (\<exists>c0. checked_policy c0 = Some (d_c d, d_policyInternal d))"

definition lite_name :: "SchedulerConfig \<Rightarrow> InferType \<Rightarrow> string" where
  "lite_name c t = (if t = InferTypePrefill then cfg_DispatchPrefillLoadMetric c
     else if t = InferTypeDecode then cfg_DispatchDecodeLoadMetric c
     else cfg_DispatchNeutralLoadMetric c)"

definition lite_threshold :: "SchedulerConfig \<Rightarrow> InferType \<Rightarrow> f32" where
  "lite_threshold c t = (if t = InferTypePrefill then cfg_DispatchPrefillLoadThreshold c
     else if t = InferTypeDecode then cfg_DispatchDecodeLoadThreshold c
     else cfg_DispatchNeutralLoadThreshold c)"

definition lite_load :: "string \<Rightarrow> InstanceView \<Rightarrow> f32" where
  "lite_load n iv =
     f32_of_int (sint (if n = SchedulingMetricNumRequests then iv_NumRequests iv else iv_NumTokens iv))"

definition lite_metric :: "string \<Rightarrow> InstanceView \<Rightarrow> instanceSchedulingMetric" where
  "lite_metric n iv = (if n = SchedulingMetricNumRequests then numRequests False (lite_load n iv) else numTokens (lite_load n iv))"

definition lite_view :: "string \<Rightarrow> InstanceView \<Rightarrow> instanceViewScheduling" where
  "lite_view n iv = (new_scheduling_view (LrsInstanceView iv))\<lparr>vs_metrics := [(n, lite_metric n iv)]\<rparr>"

definition lite_entry :: "SchedulerConfig \<Rightarrow> InferType \<Rightarrow> inferTypeBaseDispatchPolicy" where
  "lite_entry c t =
     (let n = lite_name c t
      in \<lparr>dp_metrics = [(n, if n = SchedulingMetricNumRequests then numRequests False (Fin 0) else numTokens (Fin 0))],
          dp_globalFilters = [], dp_singleInstanceFilters = [metricBasedFilter n (lite_threshold c t) False],
          dp_selector = metricBasedSelector (cfg_DispatchTopK c) [n]\<rparr>)"

lemma verifyConfig_lite:
  assumes "verifyConfig c0 = Some c" "\<not> cfg_EnableFullModeScheduling c"
  shows "\<not> cfg_EnableCacheAwareScheduling c" "\<not> cfg_EnablePredictorEnhancedScheduling c" "\<not> cfg_EnableAdaptivePD c"
    "\<not> cfg_EnableInstanceStatusLocalAccount c" "cfg_SchedulingPolicy c = SchedulingPolicyLoadBalance"
    "lite_name c t \<in> {SchedulingMetricNumRequests, SchedulingMetricNumTokens}"
proof -
  from assms have c: "c = verifyDispatchLoadMetric (verifySchedulingFeature c0)" "verifySchedulingPolicy c0"
    by (auto simp: verifyConfig_def split: if_splits)
  with assms(2) have full: "\<not> cfg_EnableFullModeScheduling c0"
    by (auto simp: verifySchedulingFeature_def verifyDispatchLoadMetric_def Let_def split: if_splits)
  note defs = c(1) full verifySchedulingFeature_def verifyDispatchLoadMetric_def Let_def
  show "\<not> cfg_EnableCacheAwareScheduling c" "\<not> cfg_EnablePredictorEnhancedScheduling c" "\<not> cfg_EnableAdaptivePD c"
    "\<not> cfg_EnableInstanceStatusLocalAccount c"
    by (simp_all add: defs)
  show "cfg_SchedulingPolicy c = SchedulingPolicyLoadBalance"
    using c(2) by (simp add: defs verifySchedulingPolicy_def)
  have "supported_or liteModeSchedulingMetricSet SchedulingMetricNumTokens n \<in> {SchedulingMetricNumRequests, SchedulingMetricNumTokens}" for n
    by (auto simp: supported_or_def liteModeSchedulingMetricSet_def)
  then show "lite_name c t \<in> {SchedulingMetricNumRequests, SchedulingMetricNumTokens}"
    unfolding lite_name_def by (simp add: defs)
qed

lemma lite_checked:
  assumes "lite_policy d"
  obtains c0 where "verifyConfig c0 = Some (d_c d)" "newDispatchPolicyInternal (d_c d) = Some (d_policyInternal d)"
    "\<not> cfg_EnableFullModeScheduling (d_c d)"
  using assms by (auto simp: lite_policy_def checked_policy_def bind_eq_Some_conv)

lemma lite_config:
  assumes "lite_policy d"
  shows "\<not> cfg_EnableFullModeScheduling (d_c d)" "\<not> cfg_EnableCacheAwareScheduling (d_c d)"
    "\<not> cfg_EnablePredictorEnhancedScheduling (d_c d)" "\<not> cfg_EnableAdaptivePD (d_c d)"
    "\<not> cfg_EnableInstanceStatusLocalAccount (d_c d)" "cfg_SchedulingPolicy (d_c d) = SchedulingPolicyLoadBalance"
    "lite_name (d_c d) t \<in> {SchedulingMetricNumRequests, SchedulingMetricNumTokens}"
  by (rule lite_checked [OF assms]; rule verifyConfig_lite; assumption | rule lite_checked [OF assms]; assumption)+

lemma lite_names_neq [simp]: "SchedulingMetricNumRequests \<noteq> SchedulingMetricNumTokens"
  "SchedulingMetricNumTokens \<noteq> SchedulingMetricNumRequests"
  by code_simp+

lemma lb_lite_entry_eq:
  assumes "\<not> cfg_EnableFullModeScheduling c" "n \<in> {SchedulingMetricNumRequests, SchedulingMetricNumTokens}"
  shows "getSchedulingMetric c n =
    Some (if n = SchedulingMetricNumRequests then numRequests False (Fin 0) else numTokens (Fin 0))"
proof -
  have "getSchedulingMetric c SchedulingMetricNumRequests = Some (numRequests (cfg_EnableFullModeScheduling c) (Fin 0))"
    "getSchedulingMetric c SchedulingMetricNumTokens = Some (numTokens (Fin 0))"
    by (simp_all add: getSchedulingMetric_def metric_names)
  then show ?thesis using assms by auto
qed

lemma lite_entries:
  assumes "lite_policy d"
  shows "d_policyInternal d = map (\<lambda>t. (t, lite_entry (d_c d) t)) [InferTypePrefill, InferTypeDecode, InferTypeNeutral]"
proof -
  note c = lite_config [OF assms]
  have "newDispatchPolicyInternal (d_c d) = Some (d_policyInternal d)" by (rule lite_checked [OF assms])
  with c(1,6) have "newLoadBalanceDispatchLiteMode (d_c d) = Some (d_policyInternal d)"
    by (simp add: newDispatchPolicyInternal_def)
  moreover have "lb_lite_entry (d_c d) (lite_name (d_c d) t) (lite_threshold (d_c d) t) = Some (lite_entry (d_c d) t)" for t
    using lb_lite_entry_eq [OF c(1) c(7) [of t]] by (simp add: lb_lite_entry_def lite_entry_def Let_def)
  from this [of InferTypePrefill] this [of InferTypeDecode] this [of InferTypeNeutral] calculation
  show ?thesis by (simp add: newLoadBalanceDispatchLiteMode_def lite_name_def lite_threshold_def)
qed

subsection \<open>Metrics of a lite group\<close>

abbreviation lite_views :: "string \<Rightarrow> (string, InstanceView) gmap \<Rightarrow> view_map" where
  "lite_views n m \<equiv> map_ran (\<lambda>_. lite_view n) m"

definition lite_groups :: "DispatchPolicy \<Rightarrow> clusterViewScheduling" where
  "lite_groups d = map_ran (\<lambda>t. lite_views (lite_name (d_c d) t)) (cl_GetGroupedInstanceViews (d_lrsClient d))"

definition lrs_views :: "LocalRealtimeStateClient \<Rightarrow> InferType \<Rightarrow> (string, InstanceView) gmap" where
  "lrs_views c t = (case getLocalRealtimeState t c of None \<Rightarrow> [] | Some s \<Rightarrow> lrs_instanceViews s)"

lemma calculate_lite_view:
  assumes "lite_policy d"
  shows "calculate_view lp now req (mvals (dp_metrics (lite_entry (d_c d) t))) (new_scheduling_view (LrsInstanceView iv)) =
    Some (lite_view (lite_name (d_c d) t) iv)"
  using lite_config(7) [OF assms, of t]
  by (auto simp: lite_entry_def Let_def calculate_one_def new_scheduling_view_def lite_view_def lite_metric_def lite_load_def)

lemma calculate_lite_group:
  assumes "lite_policy d"
  shows "calculateMetrics lp now req (dp_metrics (lite_entry (d_c d) t))
      (map_ran (\<lambda>_. new_scheduling_view) (map_ran (\<lambda>_. LrsInstanceView) m)) = Some (lite_views (lite_name (d_c d) t) m)"
  using calculate_lite_view [OF assms] by (induction m) (auto simp: calculateMetrics_def)

lemma lite_entry_of: "lite_policy d \<Longrightarrow> t \<in> set three_types \<Longrightarrow> mget (d_policyInternal d) t = Some (lite_entry (d_c d) t)"
  using lite_entries by (auto simp: three_types_def)

lemma calculate_lite_groups:
  assumes "lite_policy d" "set (mkeys g) \<subseteq> set three_types"
  shows "calculate_groups env req (d_policyInternal d)
      (toClusterViewScheduling (toInstanceViewInterfaceMap LrsInstanceView g)) =
    Some (map_ran (\<lambda>t. lite_views (lite_name (d_c d) t)) g)"
  using assms(2)
  by (induction g) (auto simp: toClusterViewScheduling_def toInstanceViewInterfaceMap_def
      lite_entry_of [OF assms(1)] calculate_lite_group [OF assms(1)])

lemma grouped_views_get:
  "t \<in> set three_types \<Longrightarrow>
   mget (cl_GetGroupedInstanceViews c) t = (if lrs_views c t = [] then None else Some (lrs_views c t))"
  by (auto simp: three_types_def cl_GetGroupedInstanceViews_def lrs_views_def getLocalRealtimeState_def go_map_simps)

lemma grouped_views_keys: "set (mkeys (cl_GetGroupedInstanceViews c)) \<subseteq> set three_types"
  by (auto simp: three_types_def cl_GetGroupedInstanceViews_def getLocalRealtimeState_def mkeys_mput)

lemma lite_target:
  assumes "lite_policy d" "t \<in> set three_types"
  shows "target_views (d_c d) t (lite_groups d) = lite_views (lite_name (d_c d) t) (lrs_views (d_lrsClient d) t)"
  using lite_config(4) [OF assms(1)] grouped_views_get [OF assms(2), of "d_lrsClient d"]
  by (simp add: target_views_def lite_groups_def go_map_simps)

subsection \<open>Filtering and selection\<close>

definition under_threshold :: "string \<Rightarrow> f32 \<Rightarrow> (string, InstanceView) gmap \<Rightarrow> (string, InstanceView) gmap" where
  "under_threshold n threshold m = filter (\<lambda>(i, iv). flt (lite_load n iv) threshold) m"

lemma lite_ValueLess: "ValueLess (lite_metric n iv) x \<longleftrightarrow> flt (lite_load n iv) x"
  by (simp add: lite_metric_def)

lemma filter_singles_lite:
  "filter_singles now [metricBasedFilter n threshold b] (lite_views n m) = Some (lite_views n m, mkeys (under_threshold n threshold m))"
  by (induction m) (auto simp: under_threshold_def lite_view_def lite_ValueLess)

lemma filter_singles_none: "filter_singles now [] views = Some (views, mkeys views)"
  by (induction views) auto

lemma filter_map_ran_keys:
  assumes "mwf m"
  shows "filter (\<lambda>(i, v). i \<in> set (mkeys (filter P m))) (map_ran f m) = map_ran f (filter P m)"
proof -
  have "filter (\<lambda>(i, v). i \<in> S) (map_ran f m) = map_ran f (filter P m)" if "\<And>e. e \<in> set m \<Longrightarrow> fst e \<in> S \<longleftrightarrow> P e" for S m
    using that by (induction m) (fastforce simp: map_ran_def)+
  moreover have "fst e \<in> set (mkeys (filter P m)) \<longleftrightarrow> P e" if "e \<in> set m" for e
  proof
    assume "fst e \<in> set (mkeys (filter P m))"
    then obtain b where "(fst e, b) \<in> set m" "P (fst e, b)" by auto
    then have "b = snd e" using assms that by (metis eq_key_imp_eq_value prod.collapse)
    with \<open>P (fst e, b)\<close> show "P e" by simp
  qed (use that in auto)
  ultimately show ?thesis by blast
qed

lemma filter_lite:
  assumes "mwf m"
  shows "filter_with_fallback now (lite_entry c t) (lite_views (lite_name c t) m) =
    (let m' = under_threshold (lite_name c t) (lite_threshold c t) m
     in if m' = [] then Some (lite_views (lite_name c t) m, lite_views (lite_name c t) m, True)
        else Some (lite_views (lite_name c t) m, lite_views (lite_name c t) m', False))"
proof -
  have all: "filter (\<lambda>(i, v). i \<in> fst ` set m) (lite_views n m) = lite_views n m" for n
    by (rule filter_True) (force simp: map_ran_def)
  have under: "filter (\<lambda>(i, v). i \<in> fst ` set (under_threshold n x m)) (lite_views n m) = lite_views n (under_threshold n x m)" for n x
    using filter_map_ran_keys [OF assms] by (simp add: under_threshold_def)
  have "lite_views n a = [] \<longleftrightarrow> a = []" for n a by (auto simp: map_ran_def)
  then show ?thesis
    by (simp add: filter_with_fallback_def filter_instances_def lite_entry_def Let_def active_filters_def
        filter_singles_lite filter_singles_none under all)
qed

lemma lite_view_simps [simp]:
  "vs_metrics (lite_view n iv) = [(n, lite_metric n iv)]" "vs_view (lite_view n iv) = LrsInstanceView iv"
  "vs_cmsView (lite_view n iv) = None"
  by (simp_all add: lite_view_def new_scheduling_view_def)

lemma lite_has_metrics:
  "n \<in> {SchedulingMetricNumRequests, SchedulingMetricNumTokens} \<Longrightarrow> has_metrics [n] (lite_view n iv)"
  by (auto simp: has_metrics_def metric_ok_def lite_metric_def lite_load_def)

lemma lite_lex_less: "lex_less [n] (lite_view n a) (lite_view n b) \<longleftrightarrow> flt (lite_load n a) (lite_load n b)"
  by (simp add: lex_less_def metric_Less_def lite_metric_def)

lemma mvals_lite: "mvals (lite_views n m) = map (lite_view n) (mvals m)"
  by (induction m) auto

definition least_loaded :: "string \<Rightarrow> (string, InstanceView) gmap \<Rightarrow> InstanceView \<Rightarrow> bool" where
  "least_loaded n m iv \<longleftrightarrow> list_all (\<lambda>(j, jv). \<not> flt (lite_load n jv) (lite_load n iv)) m"

definition lite_choice :: "i64 \<Rightarrow> string \<Rightarrow> (string, InstanceView) gmap \<Rightarrow> InstanceView \<Rightarrow> bool" where
  "lite_choice topK n m iv \<longleftrightarrow> iv \<in> set (mvals m) \<and> (topK = 1 \<longrightarrow> least_loaded n m iv)"

lemma least_loaded_under:
  assumes "least_loaded n (under_threshold n x m) iv" "iv \<in> set (mvals (under_threshold n x m))"
  shows "least_loaded n m iv"
proof -
  have "flt (lite_load n iv) x" using assms(2) by (auto simp: under_threshold_def)
  then have "\<not> flt (lite_load n jv) (lite_load n iv)" if "(j, jv) \<in> set m" for j jv
    using assms(1) that flt_trans by (fastforce simp: least_loaded_def under_threshold_def list_all_iff)
  then show ?thesis by (auto simp: least_loaded_def list_all_iff)
qed

lemma select_lite:
  assumes "n \<in> {SchedulingMetricNumRequests, SchedulingMetricNumTokens}" "m \<noteq> []" "selector_ready rnd (metricBasedSelector k [n])"
  shows "\<exists>iv. selectInstance rnd lp now (metricBasedSelector k [n]) fb (lite_views n m) =
      Some (metricBasedSelector k [n], lite_views n m, Some (lite_view n iv)) \<and> lite_choice k n m iv"
proof -
  have ne: "lite_views n m \<noteq> []" using assms(2) by (cases m) auto
  have ok: "\<forall>v\<in>set (mvals (lite_views n m)). has_metrics [n] v"
    unfolding mvals_lite using lite_has_metrics [OF assms(1)] by auto
  show ?thesis
  proof (cases "k = 1")
    case True
    from select_best [OF ne ok, of rnd lp now fb] obtain v
      where v: "selectInstance rnd lp now (metricBasedSelector 1 [n]) fb (lite_views n m) =
          Some (metricBasedSelector 1 [n], lite_views n m, Some v)" "v \<in> set (mvals (lite_views n m))"
        "\<forall>w\<in>set (mvals (lite_views n m)). \<not> lex_less [n] w v" by blast
    from v(2) obtain iv where iv: "iv \<in> set (mvals m)" "v = lite_view n iv" unfolding mvals_lite by auto
    have "least_loaded n m iv"
      using v(3) unfolding mvals_lite iv(2) by (force simp: least_loaded_def list_all_iff lite_lex_less)
    with iv v(1) True show ?thesis by (auto simp: lite_choice_def)
  next
    case False
    then have "0 < sint k" "\<forall>n>0. int (rnd n) < n" using assms(3) by simp_all
    from select_top_k [OF ne ok False this] obtain v
      where v: "selectInstance rnd lp now (metricBasedSelector k [n]) fb (lite_views n m) =
          Some (metricBasedSelector k [n], lite_views n m, Some v)" "v \<in> set (mvals (lite_views n m))" by blast
    from v(2) obtain iv where "iv \<in> set (mvals m)" "v = lite_view n iv" unfolding mvals_lite by auto
    with v(1) False show ?thesis by (auto simp: lite_choice_def)
  qed
qed

subsection \<open>One stage\<close>

lemma map_ran_id: "(\<And>k v. (k, v) \<in> set m \<Longrightarrow> f k v = v) \<Longrightarrow> map_ran f m = m"
  by (induction m) auto

lemma overwrite_sub:
  assumes "mwf m" "set a \<subseteq> set m" "mwf a"
  shows "overwrite (map_ran f a) (map_ran f m) = map_ran f m"
  unfolding overwrite_def
proof (rule map_ran_id)
  fix i v assume "(i, v) \<in> set (map_ran f m)"
  then obtain x where x: "(i, x) \<in> set m" "v = f i x" by (auto simp: map_ran_def)
  have "y = x" if "mget a i = Some y" for y
    using that assms x(1) by (metis eq_key_imp_eq_value map_of_SomeD subsetD)
  then show "(case mget (map_ran f a) i of None \<Rightarrow> v | Some v' \<Rightarrow> v') = v"
    using x(2) by (auto simp: go_map_simps split: option.split)
qed

lemma store_same:
  assumes "\<not> cfg_EnableAdaptivePD c" "mwf cv" "mget cv t = None \<or> mget cv t = Some views"
  shows "store_views c t views cv = cv"
proof -
  have "map_ran (\<lambda>t' g. if t' = t then views else g) cv = cv"
  proof (rule map_ran_id)
    fix k g assume "(k, g) \<in> set cv"
    then have "mget cv k = Some g" using assms(2) by simp
    then show "(if k = t then views else g) = g" using assms(3) by auto
  qed
  then show ?thesis using assms(1) by (simp add: store_views_def)
qed

lemma mwf_lite_groups: "mwf (lite_groups d)"
  by (auto simp: lite_groups_def cl_GetGroupedInstanceViews_def intro!: mwf_map_ran split: option.split)

lemma lite_execute:
  assumes "lite_policy d" "t \<in> set three_types" "mwf (lrs_views (d_lrsClient d) t)"
    "selector_ready (e_rnd env) (dp_selector (lite_entry (d_c d) t))"
  defines "m \<equiv> lrs_views (d_lrsClient d) t" and "n \<equiv> lite_name (d_c d) t"
  shows "if m = [] then executeSchedule env t (lite_groups d) d = Some (lite_groups d, d, None)
    else \<exists>iv. executeSchedule env t (lite_groups d) d = Some (lite_groups d, d, Some (lite_view n iv)) \<and>
      lite_choice (cfg_DispatchTopK (d_c d)) n m iv"
proof -
  let ?m' = "under_threshold n (lite_threshold (d_c d) t) m"
  define a where "a = (if ?m' = [] then m else ?m')"
  define fb where "fb \<longleftrightarrow> ?m' = []"
  have f: "filter_with_fallback (e_now env) (lite_entry (d_c d) t) (lite_views n m) = Some (lite_views n m, lite_views n a, fb)"
    using filter_lite [OF assms(3)] by (simp add: a_def fb_def m_def n_def Let_def)
  have n: "n \<in> {SchedulingMetricNumRequests, SchedulingMetricNumTokens}" using lite_config(7) [OF assms(1)] by (simp add: n_def)
  have get: "mget (lite_groups d) t = None \<or> mget (lite_groups d) t = Some (lite_views n m)"
    using grouped_views_get [OF assms(2), of "d_lrsClient d"] by (auto simp: lite_groups_def go_map_simps m_def n_def)
  note store = store_same [OF lite_config(4) [OF assms(1)] mwf_lite_groups get]
  have ov: "overwrite (lite_views n a) (lite_views n m) = lite_views n m"
    by (rule overwrite_sub) (use assms(3) in \<open>auto simp: a_def under_threshold_def m_def intro: mwf_filter\<close>)
  have sel: "dp_selector (lite_entry (d_c d) t) = metricBasedSelector (cfg_DispatchTopK (d_c d)) [n]"
    by (simp add: lite_entry_def Let_def n_def)
  note ex = executeSchedule_def lite_entry_of [OF assms(1,2)] lite_target [OF assms(1,2), folded m_def n_def] f store
  show ?thesis
  proof (cases "m = []")
    case True
    then have "lite_views n a = []" by (simp add: a_def under_threshold_def)
    then have "executeSchedule env t (lite_groups d) d = Some (lite_groups d, d, None)" by (simp add: ex)
    then show ?thesis using True by simp
  next
    case False
    then have ne: "a \<noteq> []" "lite_views n a \<noteq> []" by (auto simp: a_def map_ran_def)
    from select_lite [OF n ne(1) assms(4) [unfolded sel], of "e_latency env" "e_now env" fb] obtain iv
      where iv: "selectInstance (e_rnd env) (e_latency env) (e_now env) (dp_selector (lite_entry (d_c d) t)) fb (lite_views n a) =
        Some (dp_selector (lite_entry (d_c d) t), lite_views n a, Some (lite_view n iv))"
        "lite_choice (cfg_DispatchTopK (d_c d)) n a iv" unfolding sel by blast
    have "lite_choice (cfg_DispatchTopK (d_c d)) n m iv"
    proof (cases "?m' = []")
      case False
      then have a: "a = ?m'" by (simp add: a_def)
      have "iv \<in> set (mvals m)" using iv(2) unfolding a lite_choice_def under_threshold_def by auto
      then show ?thesis using iv(2) least_loaded_under unfolding a lite_choice_def by blast
    qed (use iv(2) in \<open>simp add: a_def\<close>)
    moreover have "executeSchedule env t (lite_groups d) d = Some (lite_groups d, d, Some (lite_view n iv))"
      using ne(2) mput_same [OF lite_entry_of [OF assms(1,2)]] by (simp add: ex iv(1) ov)
    ultimately show ?thesis using False by auto
  qed
qed

subsection \<open>A whole request\<close>

definition rnd_ready :: "(int \<Rightarrow> nat) \<Rightarrow> SchedulerConfig \<Rightarrow> bool" where
  "rnd_ready rnd c \<longleftrightarrow> cfg_DispatchTopK c = 1 \<or> 0 < sint (cfg_DispatchTopK c) \<and> (\<forall>n>0. int (rnd n) < n)"

text \<open>What one stage contributes to the answer.\<close>

definition stage_result :: "DispatchPolicy \<Rightarrow> InferType \<Rightarrow> bool \<Rightarrow> LLMInstance list \<Rightarrow> bool" where
  "stage_result d t needed ws \<longleftrightarrow>
     (let m = lrs_views (d_lrsClient d) t
      in if \<not> needed \<or> m = [] then ws = []
         else \<exists>iv. ws = [iv_instance iv] \<and> lite_choice (cfg_DispatchTopK (d_c d)) (lite_name (d_c d) t) m iv)"

lemma lite_stage:
  assumes "lite_policy d" "t \<in> set three_types" "cl_wf (d_lrsClient d)" "rnd_ready (e_rnd env) (d_c d)"
  shows "\<exists>choice. executeSchedule env t (lite_groups d) d = Some (lite_groups d, d, choice) \<and>
    (choice = None \<longleftrightarrow> lrs_views (d_lrsClient d) t = []) \<and>
    stage_result d t True (result_instances (d_c d) role [choice])"
proof -
  have "mwf (lrs_views (d_lrsClient d) t)"
    using assms(2,3) by (auto simp: cl_wf_iff lrs_views_def lrs_wf_def lrs_core_def split: option.split)
  moreover have "selector_ready (e_rnd env) (dp_selector (lite_entry (d_c d) t))"
    using assms(4) by (simp add: lite_entry_def Let_def rnd_ready_def)
  ultimately have ex: "if lrs_views (d_lrsClient d) t = []
      then executeSchedule env t (lite_groups d) d = Some (lite_groups d, d, None)
      else \<exists>iv. executeSchedule env t (lite_groups d) d = Some (lite_groups d, d, Some (lite_view (lite_name (d_c d) t) iv)) \<and>
        lite_choice (cfg_DispatchTopK (d_c d)) (lite_name (d_c d) t) (lrs_views (d_lrsClient d) t) iv"
    by (rule lite_execute [OF assms(1,2)])
  show ?thesis
  proof (cases "lrs_views (d_lrsClient d) t = []")
    case True
    with ex show ?thesis by (intro exI [of _ None]) (simp add: stage_result_def result_instances_def)
  next
    case False
    with ex obtain iv where iv: "executeSchedule env t (lite_groups d) d = Some (lite_groups d, d, Some (lite_view (lite_name (d_c d) t) iv))"
      "lite_choice (cfg_DispatchTopK (d_c d)) (lite_name (d_c d) t) (lrs_views (d_lrsClient d) t) iv" by auto
    then show ?thesis using False lite_config(4) [OF assms(1)]
      by (intro exI [of _ "Some (lite_view (lite_name (d_c d) t) iv)"]) (auto simp: stage_result_def result_instances_def Let_def)
  qed
qed

lemma lite_accounts:
  assumes "lite_policy (snd s)"
  shows "add_account env req t v s = Some s" "revert_account req v s = Some s"
  using lite_config(5) [OF assms] by (simp_all add: add_account_def revert_account_def with_account_def)

lemma lite_calculated:
  assumes "lite_policy d" "cluster_view d = Some cv"
  shows "schedule env req (toClusterViewScheduling cv) d =
    (if sr_SchedulingMode req = SchedulingModeNeutral then schedule_neutral env req (lite_groups d) d
     else if length (lite_groups d) = 1 then Some (d, [])
     else do { (s, prefill) \<leftarrow> schedule_prefill env req (lite_groups d, d);
               (s, decode) \<leftarrow> schedule_decode env req prefill s;
               Some (snd s, [[prefill], [decode]]) })"
proof -
  note c = lite_config [OF assms(1)]
  have cv: "cv = toInstanceViewInterfaceMap LrsInstanceView (cl_GetGroupedInstanceViews (d_lrsClient d))"
    using assms(2) c(1) by (simp add: cluster_view_def)
  show ?thesis
    using calculate_lite_groups [OF assms(1) grouped_views_keys, of env req "d_lrsClient d", folded lite_groups_def cv]
    by (simp add: schedule_def cache_locality_def predict_prefills_def c)
qed

lemma lite_prefill:
  assumes "lite_policy d" "cl_wf (d_lrsClient d)" "rnd_ready (e_rnd env) (d_c d)"
  shows "\<exists>choice. schedule_prefill env req (lite_groups d, d) = Some ((lite_groups d, d), choice) \<and>
    stage_result d InferTypePrefill (need_prefill req) (result_instances (d_c d) role [choice])"
proof (cases "need_prefill req")
  case True
  then show ?thesis using lite_stage [OF assms(1) _ assms(2,3), of InferTypePrefill role]
    by (auto simp: schedule_prefill_def three_types_def lite_accounts assms(1) split: option.split)
qed (simp add: schedule_prefill_def stage_result_def result_instances_def)

lemma lite_decode:
  assumes "lite_policy d" "cl_wf (d_lrsClient d)" "rnd_ready (e_rnd env) (d_c d)"
  shows "\<exists>choice. schedule_decode env req prefill (lite_groups d, d) = Some ((lite_groups d, d), choice) \<and>
    stage_result d InferTypeDecode (need_decode req) (result_instances (d_c d) role [choice])"
proof (cases "need_decode req")
  case True
  then show ?thesis using lite_stage [OF assms(1) _ assms(2,3), of InferTypeDecode role]
    by (auto simp: schedule_decode_def three_types_def lite_accounts assms(1) split: option.split)
qed (simp add: schedule_decode_def stage_result_def result_instances_def)

definition lite_answer :: "SchedulingRequest \<Rightarrow> DispatchPolicy \<Rightarrow> go_error + LLMInstance list \<Rightarrow> bool" where
  "lite_answer req d r \<longleftrightarrow>
     (if sr_SchedulingMode req = SchedulingModeNeutral
      then if lrs_views (d_lrsClient d) InferTypeNeutral = [] then r = Inl ErrorNoAvailableEndpoint
           else \<exists>ws. r = Inr ws \<and> stage_result d InferTypeNeutral True ws
      else if length (cl_GetGroupedInstanceViews (d_lrsClient d)) = 1 then r = Inl ErrorNoAvailableEndpoint
      else \<exists>ps ds. r = Inr (ps @ ds) \<and> stage_result d InferTypePrefill (need_prefill req) ps \<and>
             stage_result d InferTypeDecode (need_decode req) ds)"

lemma lite_schedule:
  assumes "lite_policy d" "cl_wf (d_lrsClient d)" "rnd_ready (e_rnd env) (d_c d)"
  shows "\<exists>r. Schedule env req d = Some (d, r) \<and> lite_answer req d r"
proof -
  note c = lite_config [OF assms(1)]
  obtain cv where cv: "cluster_view d = Some cv" using c(1) by (simp add: cluster_view_def)
  note s = Schedule_def cv lite_calculated [OF assms(1) cv] c(1)
  have t: "InferTypeNeutral \<in> set three_types" by (simp add: three_types_def)
  show ?thesis
  proof (cases "sr_SchedulingMode req = SchedulingModeNeutral")
    case True
    from lite_stage [OF assms(1) t assms(2,3), of InferTypePrefill] obtain choice
      where ch: "executeSchedule env InferTypeNeutral (lite_groups d) d = Some (lite_groups d, d, choice)"
        "choice = None \<longleftrightarrow> lrs_views (d_lrsClient d) InferTypeNeutral = []"
        "stage_result d InferTypeNeutral True (result_instances (d_c d) InferTypePrefill [choice])" by blast
    have get: "mget (lite_groups d) InferTypeNeutral = None \<longleftrightarrow> lrs_views (d_lrsClient d) InferTypeNeutral = []"
      using grouped_views_get [OF t, of "d_lrsClient d"] by (simp add: lite_groups_def go_map_simps)
    show ?thesis using True ch get
      by (cases choice) (auto simp: s schedule_neutral_def lite_accounts assms(1) lite_answer_def simp del: map_of_eq_None_iff)
  next
    case False
    from lite_prefill [OF assms, of req InferTypePrefill] obtain p
      where p: "schedule_prefill env req (lite_groups d, d) = Some ((lite_groups d, d), p)"
        "stage_result d InferTypePrefill (need_prefill req) (result_instances (d_c d) InferTypePrefill [p])" by blast
    from lite_decode [OF assms, of req p InferTypeDecode] obtain q
      where q: "schedule_decode env req p (lite_groups d, d) = Some ((lite_groups d, d), q)"
        "stage_result d InferTypeDecode (need_decode req) (result_instances (d_c d) InferTypeDecode [q])" by blast
    have "length (lite_groups d) = length (cl_GetGroupedInstanceViews (d_lrsClient d))" by (simp add: lite_groups_def)
    then show ?thesis using False p q by (auto simp: s lite_answer_def)
  qed
qed

end
