(* ===== verification/Scheduler_Service.thy ===== *)
theory Scheduler_Service
  imports Lite_Dispatch
begin

text \<open>
  The scheduler's HTTP service: \<open>pkg/scheduler/service/scheduler_service.go\<close>, with the connection
  bookkeeping of \<open>pkg/keepalive/keepalive_server.go\<close>.

  The service, its dispatch policy and the local realtime state share one configuration and one
  client by pointer; the model keeps both inside the policy.  A handler takes the body as
  \<open>encoding/json\<close> decodes it (the decoders are parameters) and returns the new state and the reply.  A
  keepalive handler blocks until its connection ends, so it is two steps: \<open>keepalive_open\<close> up to the
  blocking call and \<open>keepalive_close\<close>, its callback.  Logging and the Prometheus counters are left
  out.

  Lemmas: in lite mode every dispatched instance is one the realtime state knows, so a successful
  answer means the request is accounted on every instance it names, and releasing it restores the
  state; what the realtime state holds after any history of handler calls is exact.
\<close>

subsection \<open>Requests and replies\<close>

fun go_error_Error :: "go_error \<Rightarrow> string" where
  "go_error_Error ErrorNoAvailableEndpoint = ''no available endpoint''"
| "go_error_Error ErrorEndpointNotFound = ''endpoint not found''"
| "go_error_Error ErrorBackendServiceNoFound = ''backend service not found''"
| "go_error_Error ErrorSchedulerNotReady = ''scheduler not ready''"
| "go_error_Error ErrorMayNetworkBroken = ''may network broken''"
| "go_error_Error ErrorAllEndpointBusy = ''all endpoints busy''"
| "go_error_Error ErrorNoMatchInferType = ''not match infer type''"
| "go_error_Error ErrorGatewayNotFound = ''gateway not found''"
| "go_error_Error ErrorRequestExits = ''request state exists''"
| "go_error_Error ErrorRequestNotExits = ''request state not exists''"
| "go_error_Error ErrorRequestGatewayChanged = ''request gateway changed''"
| "go_error_Error ErrorReadTimeout = ''read timeout''"
| "go_error_Error ErrorUnitLimitExceeded = ''unit limit exceeded''"
| "go_error_Error ErrorRequestTooLong = ''request too long''"
| "go_error_Error ErrorRequestAbortedByEngine = ''request aborted by LLM engine''"
| "go_error_Error ErrorReadSSETimeout = ''read sse timeout''"
| "go_error_Error ErrorCmsNotAvailable = ''cms not available''"
| "go_error_Error ErrorBackendBadRequest = ''bad inference request''"
| "go_error_Error ErrorInternalServerError = ''internal server error''"
| "go_error_Error ErrorBadRequest = ''bad request''"
| "go_error_Error ErrorRateLimitExceeded = ''rate limit exceeded''"
| "go_error_Error ErrorInvalidModel = ''this model is not supported now''"
| "go_error_Error ErrorContentFieldsMisused = ''can't use both Content and MultiContent properties simultaneously''"
| "go_error_Error ErrorCompletionRequestPromptTypeNotSupported =
     ''the type of CompletionRequest.Prompt only supports string and []string''"
| "go_error_Error ErrorUnSupportedProtocol = ''not support this protocol''"

definition classifySchedulingError :: "go_error \<Rightarrow> string" where
  "classifySchedulingError e =
     (if e = ErrorEndpointNotFound then ''endpoint_not_found''
      else if e = ErrorNoAvailableEndpoint then ''no_available_endpoint''
      else if e = ErrorAllEndpointBusy then ''all_endpoints_busy''
      else if e = ErrorNoMatchInferType then ''no_match_infer_type''
      else if e = ErrorCmsNotAvailable then ''cms_not_available''
      else if e = ErrorSchedulerNotReady then ''scheduler_not_ready''
      else ''unknown'')"

abbreviation StatusSwitchingProtocols :: nat where "StatusSwitchingProtocols \<equiv> 101"
abbreviation StatusOK :: nat where "StatusOK \<equiv> 200"
abbreviation StatusBadRequest :: nat where "StatusBadRequest \<equiv> 400"
abbreviation StatusNotFound :: nat where "StatusNotFound \<equiv> 404"
abbreviation StatusTooManyRequests :: nat where "StatusTooManyRequests \<equiv> 429"

text \<open>The answer of the WebSocket library to \<open>/keepalive\<close> and the text of \<open>/metrics\<close> are not modelled.\<close>

datatype reply_body = NoBody | ErrorText string | Scheduled SchedulingRequest | MetricsText | WebSocket

type_synonym reply = "nat \<times> reply_body"

definition http_Error :: "string \<Rightarrow> nat \<Rightarrow> reply" where
  "http_Error msg code = (code, ErrorText (msg @ [CHR 0x0A]))"

record HTTPRequest =
  hr_Path :: string
  hr_Body :: "string option"
  hr_Handshake :: "Endpoint option"

record service_env =
  sv_sched :: sched_env
  sv_clock :: int
  sv_decodeRequest :: "string \<Rightarrow> SchedulingRequest option"
  sv_decodeReports :: "string \<Rightarrow> RequestReportData list option"

record SchedulerService =
  ss_StandaloneReschedulingMode :: bool
  ss_schedulingPolicy :: DispatchPolicy

abbreviation ss_lrsClient :: "SchedulerService \<Rightarrow> LocalRealtimeStateClient" where
  "ss_lrsClient ss \<equiv> d_lrsClient (ss_schedulingPolicy ss)"

definition on_lrs ::
  "(LocalRealtimeStateClient \<Rightarrow> LocalRealtimeStateClient) \<Rightarrow> SchedulerService \<Rightarrow> SchedulerService" where
  "on_lrs f ss = ss\<lparr>ss_schedulingPolicy :=
     (ss_schedulingPolicy ss)\<lparr>d_lrsClient := f (ss_lrsClient ss)\<rparr>\<rparr>"

definition EnableRequestStateTracking :: "SchedulerService \<Rightarrow> bool" where
  "EnableRequestStateTracking ss \<longleftrightarrow>
     \<not> cfg_EnableFullModeScheduling (d_c (ss_schedulingPolicy ss)) \<and> \<not> ss_StandaloneReschedulingMode ss"

definition NewSchedulerService ::
  "SchedulerConfig \<Rightarrow> bool \<Rightarrow> bool \<Rightarrow> CMSReadClient \<Rightarrow> SchedulerService option" where
  "NewSchedulerService c standalone multi cms =
     do { d \<leftarrow> NewDispatchPolicy c cms (NewLocalRealtimeStateClient multi);
          Some \<lparr>ss_StandaloneReschedulingMode = standalone, ss_schedulingPolicy = d\<rparr> }"

subsection \<open>The watch loop\<close>

definition watch_add :: "LLMInstance list \<Rightarrow> SchedulerService \<Rightarrow> SchedulerService" where
  "watch_add ws ss = foldl (\<lambda>ss w. on_lrs (cl_AddInstance w) ss) ss ws"

definition watch_del :: "LLMInstance list \<Rightarrow> SchedulerService \<Rightarrow> SchedulerService" where
  "watch_del ws ss =
     foldl (\<lambda>ss w. on_lrs (cl_RemoveInstance (li_InferType w) (fst (LLMInstance_Id w))) ss) ss ws"

subsection \<open>Keepalive\<close>

text \<open>The handshake gives the gateway's endpoint, or fails.\<close>

definition keepalive_open :: "Endpoint option \<Rightarrow> SchedulerService \<Rightarrow> SchedulerService" where
  "keepalive_open handshake ss =
     (case handshake of
        None \<Rightarrow> ss
      | Some ep \<Rightarrow> if EnableRequestStateTracking ss then on_lrs (cl_AddGateway (Endpoint_String ep)) ss else ss)"

definition keepalive_close :: "Endpoint \<Rightarrow> SchedulerService \<Rightarrow> SchedulerService" where
  "keepalive_close ep ss =
     (if EnableRequestStateTracking ss then on_lrs (cl_RemoveGateway (Endpoint_String ep)) ss else ss)"

text \<open>One ticker period or one message of the ping-pong loop.  The state is the number of pongs missed;
  \<open>None\<close> ends the loop and so the connection.\<close>

datatype ping_event = Pong | is_Tick: Tick bool | Message bool bool

fun ping_step :: "ping_event \<Rightarrow> i32 \<Rightarrow> i32 option" where
  "ping_step Pong missedPongs = Some 0"
| "ping_step (Tick writeOk) missedPongs =
     (if 2 \<le> sint missedPongs then None
      else if \<not> writeOk then None
      else Some (missedPongs + 1))"
| "ping_step (Message writeOk needClose) missedPongs =
     (if \<not> writeOk then None else if needClose then None else Some missedPongs)"

subsection \<open>Handlers\<close>

definition request_state :: "service_env \<Rightarrow> SchedulingRequest \<Rightarrow> i64 \<Rightarrow> LLMInstance \<Rightarrow> RequestState" where
  "request_state sv req n w =
     NewRequestState (sv_clock sv) (sr_Id req) n (fst (LLMInstance_Id w)) (sr_GatewayId req)"

definition allocate_results ::
  "service_env \<Rightarrow> SchedulingRequest \<Rightarrow> LLMInstance list \<Rightarrow> SchedulerService \<Rightarrow> SchedulerService" where
  "allocate_results sv req results ss =
     foldl (\<lambda>ss w. on_lrs (\<lambda>c. fst (cl_AllocateRequestState (li_InferType w)
                                  (request_state sv req (sr_PromptNumTokens req) w) c)) ss) ss results"

definition release_results ::
  "service_env \<Rightarrow> SchedulingRequest \<Rightarrow> LLMInstance list \<Rightarrow> SchedulerService \<Rightarrow> SchedulerService" where
  "release_results sv req results ss =
     foldl (\<lambda>ss w. on_lrs (cl_ReleaseRequestState (li_InferType w) (request_state sv req 0 w)) ss) ss results"

definition status_of_error :: "go_error \<Rightarrow> nat" where
  "status_of_error e =
     (if e = ErrorEndpointNotFound then StatusNotFound
      else if e = ErrorNoAvailableEndpoint then StatusTooManyRequests
      else StatusBadRequest)"

definition empty_result_error :: "go_error + LLMInstance list \<Rightarrow> go_error + LLMInstance list" where
  "empty_result_error r = (case r of Inr [] \<Rightarrow> Inl ErrorNoAvailableEndpoint | _ \<Rightarrow> r)"

definition handleSchedule ::
  "service_env \<Rightarrow> string option \<Rightarrow> SchedulerService \<Rightarrow> (SchedulerService \<times> reply) option" where
  "handleSchedule sv body ss =
     (case body of
        None \<Rightarrow> Some (ss, (StatusOK, NoBody))
      | Some bytes \<Rightarrow>
          (case sv_decodeRequest sv bytes of
             None \<Rightarrow> Some (ss, http_Error ''invalid scheduling req'' StatusBadRequest)
           | Some req \<Rightarrow>
               do { (d, r) \<leftarrow> Schedule (sv_sched sv) req (ss_schedulingPolicy ss);
                    let ss = ss\<lparr>ss_schedulingPolicy := d\<rparr>;
                    Some (case empty_result_error r of
                            Inl e \<Rightarrow> (ss, (status_of_error e, ErrorText (go_error_Error e)))
                          | Inr results \<Rightarrow>
                              (if EnableRequestStateTracking ss then allocate_results sv req results ss else ss,
                               (StatusOK, Scheduled (req\<lparr>sr_SchedulingResult := Some results\<rparr>)))) }))"

definition handleRelease ::
  "service_env \<Rightarrow> string option \<Rightarrow> SchedulerService \<Rightarrow> SchedulerService \<times> reply" where
  "handleRelease sv body ss =
     (case body of
        None \<Rightarrow> (ss, (StatusOK, NoBody))
      | Some bytes \<Rightarrow>
          (case sv_decodeRequest sv bytes of
             None \<Rightarrow> (ss, http_Error ''invalid release request'' StatusBadRequest)
           | Some req \<Rightarrow>
               (case sr_SchedulingResult req of
                  Some (w # ws) \<Rightarrow>
                    let ss1 = (if EnableRequestStateTracking ss then release_results sv req (w # ws) ss else ss);
                        ss2 = (if cfg_EnableFullModeScheduling (d_c (ss_schedulingPolicy ss1))
                               then ss1\<lparr>ss_schedulingPolicy :=
                                      ReleaseRequestLocalAccount (sr_Id req) (ss_schedulingPolicy ss1)\<rparr>
                               else ss1)
                    in (ss2, (StatusOK, NoBody))
                | _ \<Rightarrow> (ss, http_Error ''ignore, release 0 request.'' StatusBadRequest))))"

definition report_one :: "service_env \<Rightarrow> RequestReportData \<Rightarrow> SchedulerService \<Rightarrow> SchedulerService" where
  "report_one sv d ss =
     (let r = NewRequestState (sv_clock sv) (rd_Id d) (rd_NumTokens d) (rd_InstanceId d) (rd_GatewayId d)
      in case rd_Kind d of
           KindPrefillDone \<Rightarrow> on_lrs (\<lambda>c. fst (cl_MarkPrefillComplete (rd_InferType d) r c)) ss
         | _ \<Rightarrow> on_lrs (\<lambda>c. fst (cl_UpdateRequestState (rd_InferType d) r c)) ss)"

definition handleReport ::
  "service_env \<Rightarrow> string option \<Rightarrow> SchedulerService \<Rightarrow> SchedulerService \<times> reply" where
  "handleReport sv body ss =
     (case body of
        None \<Rightarrow> (ss, (StatusOK, NoBody))
      | Some bytes \<Rightarrow>
          (case sv_decodeReports sv bytes of
             None \<Rightarrow> (ss, http_Error ''invalid report request'' StatusBadRequest)
           | Some ds \<Rightarrow> (foldl (\<lambda>ss d. report_one sv d ss) ss ds, (StatusOK, NoBody))))"

definition ServeHTTP ::
  "service_env \<Rightarrow> HTTPRequest \<Rightarrow> SchedulerService \<Rightarrow> (SchedulerService \<times> reply) option" where
  "ServeHTTP sv r ss =
     (if hr_Path r = ''/schedule'' then handleSchedule sv (hr_Body r) ss
      else if hr_Path r = ''/release'' then Some (handleRelease sv (hr_Body r) ss)
      else if hr_Path r = ''/keepalive'' then Some (keepalive_open (hr_Handshake r) ss, (StatusSwitchingProtocols, WebSocket))
      else if hr_Path r = ''/report'' then Some (handleReport sv (hr_Body r) ss)
      else if hr_Path r = ''/healthz'' then Some (ss, (StatusOK, NoBody))
      else if hr_Path r = ''/metrics'' then Some (ss, (StatusOK, MetricsText))
      else Some (ss, http_Error ''Not found'' StatusNotFound))"

subsection \<open>Handlers as calls of the realtime state client\<close>

definition allocate_ops :: "service_env \<Rightarrow> SchedulingRequest \<Rightarrow> LLMInstance list \<Rightarrow> cl_op list" where
  "allocate_ops sv req ws =
     map (\<lambda>w. ClAllocate (li_InferType w) (request_state sv req (sr_PromptNumTokens req) w)) ws"

definition release_ops :: "service_env \<Rightarrow> SchedulingRequest \<Rightarrow> LLMInstance list \<Rightarrow> cl_op list" where
  "release_ops sv req ws = map (\<lambda>w. ClRelease (li_InferType w) (request_state sv req 0 w)) ws"

definition report_op :: "service_env \<Rightarrow> RequestReportData \<Rightarrow> cl_op" where
  "report_op sv d =
     (let r = NewRequestState (sv_clock sv) (rd_Id d) (rd_NumTokens d) (rd_InstanceId d) (rd_GatewayId d)
      in case rd_Kind d of KindPrefillDone \<Rightarrow> ClMarkPrefill (rd_InferType d) r | _ \<Rightarrow> ClUpdate (rd_InferType d) r)"

definition on_client :: "cl_op list \<Rightarrow> SchedulerService \<Rightarrow> SchedulerService" where
  "on_client ops ss = on_lrs (\<lambda>c. fst (run_ops cl_exec ops c)) ss"

lemma on_lrs_simps [simp]:
  "ss_lrsClient (on_lrs f ss) = f (ss_lrsClient ss)"
  "d_c (ss_schedulingPolicy (on_lrs f ss)) = d_c (ss_schedulingPolicy ss)"
  "d_policyInternal (ss_schedulingPolicy (on_lrs f ss)) = d_policyInternal (ss_schedulingPolicy ss)"
  "EnableRequestStateTracking (on_lrs f ss) = EnableRequestStateTracking ss"
  "ss_StandaloneReschedulingMode (on_lrs f ss) = ss_StandaloneReschedulingMode ss"
  "lite_policy (ss_schedulingPolicy (on_lrs f ss)) = lite_policy (ss_schedulingPolicy ss)"
  by (simp_all add: on_lrs_def EnableRequestStateTracking_def lite_policy_def)

lemma on_lrs_on_lrs [simp]: "on_lrs f (on_lrs g ss) = on_lrs (\<lambda>c. f (g c)) ss"
  by (simp add: on_lrs_def)

lemma on_lrs_id [simp]: "on_lrs (\<lambda>c. c) ss = ss"
  by (simp add: on_lrs_def)

lemma fold_on_client: "foldl (\<lambda>ss x. on_lrs (\<lambda>c. fst (cl_exec (f x) c)) ss) ss xs = on_client (map f xs) ss"
proof (induction xs arbitrary: ss)
  case (Cons x xs)
  have "on_client (map f xs) (on_lrs g ss) = on_lrs (\<lambda>c. fst (run_ops cl_exec (map f xs) (g c))) ss" for g
    by (simp add: on_client_def)
  then show ?case using Cons.IH by (simp add: on_client_def Let_def split_beta)
qed (simp add: on_client_def)

lemma allocate_results_ops: "allocate_results sv req ws ss = on_client (allocate_ops sv req ws) ss"
  using fold_on_client [of "\<lambda>w. ClAllocate (li_InferType w) (request_state sv req (sr_PromptNumTokens req) w)"]
  by (simp add: allocate_results_def allocate_ops_def)

lemma release_results_ops: "release_results sv req ws ss = on_client (release_ops sv req ws) ss"
  using fold_on_client [of "\<lambda>w. ClRelease (li_InferType w) (request_state sv req 0 w)"]
  by (simp add: release_results_def release_ops_def)

lemma report_one_op: "report_one sv d ss = on_lrs (\<lambda>c. fst (cl_exec (report_op sv d) c)) ss"
  by (simp add: report_one_def report_op_def Let_def split: Kind.split)

lemma report_ops: "foldl (\<lambda>ss d. report_one sv d ss) ss ds = on_client (map (report_op sv) ds) ss"
  unfolding report_one_op by (rule fold_on_client)

lemma watch_add_ops: "watch_add ws ss = on_client (map ClAddInstance ws) ss"
  using fold_on_client [of ClAddInstance] by (simp add: watch_add_def)

lemma watch_del_ops:
  "watch_del ws ss = on_client (map (\<lambda>w. ClRemoveInstance (li_InferType w) (fst (LLMInstance_Id w))) ws) ss"
  using fold_on_client [of "\<lambda>w. ClRemoveInstance (li_InferType w) (fst (LLMInstance_Id w))"] by (simp add: watch_del_def)

lemma client_run_wf:
  "cl_wf c \<Longrightarrow> ops_ok cl_exec cl_op_ok ops c \<Longrightarrow> cl_wf (fst (run_ops cl_exec ops c))"
  by (rule client.inv_run)

subsection \<open>Answers of a lite scheduler\<close>

lemma schedule_lite:
  assumes "lite_policy (ss_schedulingPolicy ss)" "cl_wf (ss_lrsClient ss)"
    "rnd_ready (e_rnd (sv_sched sv)) (d_c (ss_schedulingPolicy ss))" "sv_decodeRequest sv bytes = Some req"
  shows "\<exists>r. lite_answer req (ss_schedulingPolicy ss) r \<and>
    handleSchedule sv (Some bytes) ss =
      Some (case empty_result_error r of
              Inl e \<Rightarrow> (ss, (status_of_error e, ErrorText (go_error_Error e)))
            | Inr ws \<Rightarrow> (if EnableRequestStateTracking ss then on_client (allocate_ops sv req ws) ss else ss,
                        (StatusOK, Scheduled (req\<lparr>sr_SchedulingResult := Some ws\<rparr>))))"
proof -
  from lite_schedule [OF assms(1-3)] obtain r
    where r: "Schedule (sv_sched sv) req (ss_schedulingPolicy ss) = Some (ss_schedulingPolicy ss, r)"
      "lite_answer req (ss_schedulingPolicy ss) r" by blast
  then show ?thesis
    by (intro exI [of _ r]) (simp add: handleSchedule_def assms(4) allocate_results_ops split: sum.split)
qed

text \<open>Every instance of a realtime state has the inference type of that state.\<close>

definition cl_typed :: "LocalRealtimeStateClient \<Rightarrow> bool" where
  "cl_typed c \<longleftrightarrow> list_all (\<lambda>t. list_all (\<lambda>(i, iv). li_InferType (iv_instance iv) = t) (lrs_views c t)) three_types"

definition known_instance :: "LocalRealtimeStateClient \<Rightarrow> LLMInstance \<Rightarrow> bool" where
  "known_instance c w \<longleftrightarrow> li_InferType w \<in> set three_types \<and>
     w \<in> iv_instance ` set (mvals (lrs_views c (li_InferType w)))"

lemma stage_result_known:
  assumes "stage_result d t needed ws" "cl_typed (d_lrsClient d)" "t \<in> set three_types"
  shows "ws = [] \<or> (\<exists>w. ws = [w] \<and> li_InferType w = t \<and> known_instance (d_lrsClient d) w)"
proof (cases "ws = []")
  case False
  with assms(1) obtain iv where iv: "ws = [iv_instance iv]" "iv \<in> set (mvals (lrs_views (d_lrsClient d) t))"
    by (auto simp: stage_result_def lite_choice_def Let_def split: if_splits)
  then have "li_InferType (iv_instance iv) = t" using assms(2,3) by (fastforce simp: cl_typed_def list_all_iff)
  with iv assms(3) show ?thesis by (auto simp: known_instance_def)
qed simp

lemma lite_answer_known:
  assumes "lite_answer req d (Inr ws)" "cl_typed (d_lrsClient d)"
  shows "distinct (map li_InferType ws)" "list_all (known_instance (d_lrsClient d)) ws"
proof -
  have t: "InferTypeNeutral \<in> set three_types" "InferTypePrefill \<in> set three_types" "InferTypeDecode \<in> set three_types"
    by (simp_all add: three_types_def)
  have "distinct (map li_InferType ws) \<and> list_all (known_instance (d_lrsClient d)) ws"
  proof (cases "sr_SchedulingMode req = SchedulingModeNeutral")
    case True
    with assms(1) have "stage_result d InferTypeNeutral True ws" by (auto simp: lite_answer_def split: if_splits)
    from stage_result_known [OF this assms(2) t(1)] show ?thesis by auto
  next
    case False
    with assms(1) obtain ps ds where "ws = ps @ ds" "stage_result d InferTypePrefill (need_prefill req) ps"
      "stage_result d InferTypeDecode (need_decode req) ds" by (auto simp: lite_answer_def split: if_splits)
    with stage_result_known [OF _ assms(2) t(2), of "need_prefill req" ps]
      stage_result_known [OF _ assms(2) t(3), of "need_decode req" ds] show ?thesis by auto
  qed
  then show "distinct (map li_InferType ws)" "list_all (known_instance (d_lrsClient d)) ws" by simp_all
qed

subsection \<open>Accounting a request and releasing it\<close>

text \<open>The abstract realtime state of one inference type.\<close>

definition cl_abs :: "LocalRealtimeStateClient \<Rightarrow> InferType \<Rightarrow> lrs_spec" where
  "cl_abs c t = lrs_abs (the (getLocalRealtimeState t c))"

definition cl_total :: "LocalRealtimeStateClient \<Rightarrow> InferType \<Rightarrow> string \<Rightarrow> int" where
  "cl_total c t i = lrs_total i (the (getLocalRealtimeState t c))"

text \<open>A request that can be accounted: its gateway is connected, its identifier is not in use, and its
  tokens fit the counters.\<close>

definition can_account :: "SchedulingRequest \<Rightarrow> LocalRealtimeStateClient \<Rightarrow> bool" where
  "can_account req c \<longleftrightarrow>
     0 \<le> sint (sr_PromptNumTokens req) \<and>
     list_all (\<lambda>t. case getLocalRealtimeState t c of
                     None \<Rightarrow> False
                   | Some s \<Rightarrow> lrs_gatewayExists (sr_GatewayId req) s \<and> \<not> lrs_requestExists (sr_Id req) s \<and>
                       list_all (\<lambda>(i, iv). sint (iv_numTokens iv) + sint (sr_PromptNumTokens req) < 2 ^ 63)
                         (lrs_instanceViews s)) three_types"

lemma nil_type: "[] \<notin> set three_types"
  by (simp add: three_types_def infer_types)

lemma proj_ops:
  assumes "distinct (map li_InferType ws)" "t \<in> set three_types" "list_all (\<lambda>w. li_InferType w \<in> set three_types) ws"
  shows "List.map_filter (cl_proj t) (allocate_ops sv req ws) =
      (case find (\<lambda>w. li_InferType w = t) ws of
         None \<Rightarrow> [] | Some w \<Rightarrow> [AllocateOp (request_state sv req (sr_PromptNumTokens req) w)])"
    "List.map_filter (cl_proj t) (release_ops sv req ws) =
      (case find (\<lambda>w. li_InferType w = t) ws of
         None \<Rightarrow> [] | Some w \<Rightarrow> [ReleaseOp (request_state sv req 0 w)])"
proof -
  have none: "List.map_filter (cl_proj t) (allocate_ops sv req ws) = []"
      "List.map_filter (cl_proj t) (release_ops sv req ws) = []"
    if "t \<notin> li_InferType ` set ws" "list_all (\<lambda>w. li_InferType w \<in> set three_types) ws" for ws
    using that assms(2) by (induction ws) (auto simp: allocate_ops_def release_ops_def List.map_filter_simps nil_type split: if_splits)
  show "List.map_filter (cl_proj t) (allocate_ops sv req ws) =
      (case find (\<lambda>w. li_InferType w = t) ws of
         None \<Rightarrow> [] | Some w \<Rightarrow> [AllocateOp (request_state sv req (sr_PromptNumTokens req) w)])"
    using assms
  proof (induction ws)
    case (Cons w ws)
    then show ?case using none(1) [of ws] by (auto simp: allocate_ops_def List.map_filter_simps nil_type split: if_splits)
  qed (simp add: allocate_ops_def List.map_filter_simps)
  show "List.map_filter (cl_proj t) (release_ops sv req ws) =
      (case find (\<lambda>w. li_InferType w = t) ws of
         None \<Rightarrow> [] | Some w \<Rightarrow> [ReleaseOp (request_state sv req 0 w)])"
    using assms
  proof (induction ws)
    case (Cons w ws)
    then show ?case using none(2) [of ws] by (auto simp: release_ops_def List.map_filter_simps nil_type split: if_splits)
  qed (simp add: release_ops_def List.map_filter_simps)
qed

lemma known_allocates:
  fixes sv :: service_env
  assumes "cl_wf c" "can_account req c" "known_instance c w" "getLocalRealtimeState (li_InferType w) c = Some s"
  defines "r \<equiv> request_state sv req (sr_PromptNumTokens req) w"
  shows "lrs_op_ok (AllocateOp r) s" "snd (lrs_AllocateRequestState r s) = None"
proof -
  have t: "li_InferType w \<in> set three_types" using assms(3) by (simp add: known_instance_def)
  have wf: "lrs_core s" using assms(1,4) t by (force simp: cl_wf_iff lrs_wf_def)
  from assms(3,4) obtain i iv where iv: "(i, iv) \<in> set (lrs_instanceViews s)" "w = iv_instance iv"
    by (auto simp: known_instance_def lrs_views_def)
  then have get: "mget (lrs_instanceViews s) i = Some iv" using wf by (simp add: lrs_core_def mget_iff_mem)
  have id: "fst (LLMInstance_Id w) = i" using core_view [OF wf get] iv(2) by (auto simp: view_ok_def LLMInstance_Id_def)
  have ok: "0 \<le> sint (sr_PromptNumTokens req)" "lrs_gatewayExists (sr_GatewayId req) s" "\<not> lrs_requestExists (sr_Id req) s"
    "sint (iv_numTokens iv) + sint (sr_PromptNumTokens req) < 2 ^ 63"
    using assms(2,4) t iv(1) by (fastforce simp: can_account_def list_all_iff)+
  then show "lrs_op_ok (AllocateOp r) s"
    by (simp add: r_def request_state_def NewRequestState_def id lrs_total_def get)
  show "snd (lrs_AllocateRequestState r s) = None"
    using ok(2,3) iv(1) by (auto simp: lrs_AllocateRequestState_def r_def request_state_def NewRequestState_def id
        lrs_instanceExists_def get Let_def)
qed

lemma allocated_live:
  "snd (lrs_AllocateRequestState r s) = None \<Longrightarrow> sp_live (lrs_abs (fst (lrs_AllocateRequestState r s))) (rs_reqId r) = Some r"
  by (auto simp: lrs_AllocateRequestState_def Let_def go_map_simps split: if_splits)

lemma release_same:
  assumes "rs_reqId r = rs_reqId r'" "rs_instanceId r = rs_instanceId r'" "rs_gatewayId r = rs_gatewayId r'"
  shows "lrs_ReleaseRequestState r s = lrs_ReleaseRequestState r' s"
  using assms by (simp add: lrs_ReleaseRequestState_def)

lemma known_types: "list_all (known_instance c) ws \<Longrightarrow> list_all (\<lambda>w. li_InferType w \<in> set three_types) ws"
  by (auto simp: list_all_iff known_instance_def)

lemma allocated_state:
  assumes "cl_wf c" "can_account req c" "distinct (map li_InferType ws)" "list_all (known_instance c) ws"
    "t \<in> set three_types" "getLocalRealtimeState t c = Some s"
  shows "getLocalRealtimeState t (fst (run_ops cl_exec (allocate_ops sv req ws) c)) =
    (case find (\<lambda>w. li_InferType w = t) ws of
       None \<Rightarrow> Some s
     | Some w \<Rightarrow> Some (fst (lrs_AllocateRequestState (request_state sv req (sr_PromptNumTokens req) w) s)))"
  using cl_run_proj [OF assms(5), of "allocate_ops sv req ws" c] assms(6) proj_ops(1) [OF assms(3,5) known_types [OF assms(4)]]
  by (simp add: split_beta Let_def split: option.splits)

lemma released_state:
  assumes "distinct (map li_InferType ws)" "list_all (\<lambda>w. li_InferType w \<in> set three_types) ws"
    "t \<in> set three_types" "getLocalRealtimeState t c = Some s"
  shows "getLocalRealtimeState t (fst (run_ops cl_exec (release_ops sv req ws) c)) =
    (case find (\<lambda>w. li_InferType w = t) ws of
       None \<Rightarrow> Some s
     | Some w \<Rightarrow> Some (lrs_ReleaseRequestState (request_state sv req 0 w) s))"
  using cl_run_proj [OF assms(3), of "release_ops sv req ws" c] assms(4) proj_ops(2) [OF assms(1,3,2)]
  by (simp add: split_beta Let_def split: option.splits)

lemma account_roundtrip:
  fixes sv sv' :: service_env
  assumes "cl_wf c" "can_account req c" "distinct (map li_InferType ws)" "list_all (known_instance c) ws" "t \<in> set three_types"
    "sr_Id req' = sr_Id req" "sr_GatewayId req' = sr_GatewayId req"
  defines "c1 \<equiv> fst (run_ops cl_exec (allocate_ops sv req ws) c)"
  defines "c2 \<equiv> fst (run_ops cl_exec (release_ops sv' req' ws) c1)"
  shows "cl_abs c2 t = cl_abs c t \<and> cl_total c2 t i = cl_total c t i"
proof -
  obtain s where s: "getLocalRealtimeState t c = Some s" using cl_state_Some [OF assms(5)] by blast
  note a = allocated_state [OF assms(1-5) s, of sv, folded c1_def]
  show ?thesis
  proof (cases "find (\<lambda>w. li_InferType w = t) ws")
    case None
    then show ?thesis using a s released_state [OF assms(3) known_types [OF assms(4)] assms(5)]
      by (simp add: c2_def cl_abs_def cl_total_def)
  next
    case (Some w)
    then have w: "li_InferType w = t" "known_instance c w" using assms(4) by (auto simp: find_Some_iff list_all_iff)
    define r where "r = request_state sv req (sr_PromptNumTokens req) w"
    obtain s' where s': "lrs_AllocateRequestState r s = (s', None)"
      using known_allocates(2) [OF assms(1,2) w(2), of s sv] s w(1) unfolding r_def by (metis prod.collapse)
    have "lrs_wf s" using assms(1,5) s by (force simp: cl_wf_iff)
    moreover have "lrs_op_ok (AllocateOp r) s" using known_allocates(1) [OF assms(1,2) w(2), of s sv] s w(1) by (simp add: r_def)
    ultimately have rel: "lrs_abs (lrs_ReleaseRequestState r s') = lrs_abs s" "lrs_total i (lrs_ReleaseRequestState r s') = lrs_total i s"
      using lrs_allocate_release s' by blast+
    have "getLocalRealtimeState t c1 = Some s'" using a Some s' by (simp add: r_def)
    from released_state [OF assms(3) known_types [OF assms(4)] assms(5) this, of sv' req'] Some
    have "getLocalRealtimeState t c2 = Some (lrs_ReleaseRequestState r s')"
      using release_same [of "request_state sv' req' 0 w" r] assms(6,7)
      by (simp add: c2_def r_def request_state_def NewRequestState_def)
    then show ?thesis using rel s by (simp add: cl_abs_def cl_total_def)
  qed
qed

subsection \<open>Histories of the service\<close>

definition request_ops :: "service_env \<Rightarrow> HTTPRequest \<Rightarrow> SchedulerService \<Rightarrow> cl_op list" where
  "request_ops sv r ss =
     (if hr_Path r = ''/schedule''
      then (case handleSchedule sv (hr_Body r) ss of
              Some (_, _, Scheduled req) \<Rightarrow> allocate_ops sv req (the (sr_SchedulingResult req))
            | _ \<Rightarrow> [])
      else if hr_Path r = ''/release''
      then (case Option.bind (hr_Body r) (sv_decodeRequest sv) of
              None \<Rightarrow> []
            | Some req \<Rightarrow> (case sr_SchedulingResult req of None \<Rightarrow> [] | Some ws \<Rightarrow> release_ops sv req ws))
      else if hr_Path r = ''/keepalive''
      then (case hr_Handshake r of None \<Rightarrow> [] | Some ep \<Rightarrow> [ClAddGateway (Endpoint_String ep)])
      else if hr_Path r = ''/report''
      then (case Option.bind (hr_Body r) (sv_decodeReports sv) of None \<Rightarrow> [] | Some ds \<Rightarrow> map (report_op sv) ds)
      else [])"

definition request_ok :: "service_env \<Rightarrow> HTTPRequest \<Rightarrow> SchedulerService \<Rightarrow> bool" where
  "request_ok sv r ss \<longleftrightarrow>
     rnd_ready (e_rnd (sv_sched sv)) (d_c (ss_schedulingPolicy ss)) \<and>
     ops_ok cl_exec cl_op_ok (request_ops sv r ss) (ss_lrsClient ss)"

inductive svc_reachable :: "SchedulerService \<Rightarrow> bool" where
  svc_start: "NewSchedulerService c standalone multi cms = Some ss \<Longrightarrow> EnableRequestStateTracking ss \<Longrightarrow> svc_reachable ss"
| svc_request: "svc_reachable ss \<Longrightarrow> request_ok sv r ss \<Longrightarrow> ServeHTTP sv r ss = Some (ss', rep) \<Longrightarrow> svc_reachable ss'"
| svc_closed: "svc_reachable ss \<Longrightarrow> svc_reachable (keepalive_close ep ss)"
| svc_added: "svc_reachable ss \<Longrightarrow> list_all (\<lambda>w. li_InferType w \<in> set three_types) ws \<Longrightarrow> svc_reachable (watch_add ws ss)"
| svc_removed: "svc_reachable ss \<Longrightarrow> svc_reachable (watch_del ws ss)"

definition svc_inv :: "SchedulerService \<Rightarrow> bool" where
  "svc_inv ss \<longleftrightarrow> EnableRequestStateTracking ss \<and> lite_policy (ss_schedulingPolicy ss) \<and>
     cl_wf (ss_lrsClient ss) \<and> cl_typed (ss_lrsClient ss)"

lemma on_client_Nil [simp]: "on_client [] ss = ss"
  by (simp add: on_client_def)

lemma allocate_ops_result [simp]: "allocate_ops sv (req\<lparr>sr_SchedulingResult := x\<rparr>) ws = allocate_ops sv req ws"
  by (simp add: allocate_ops_def request_state_def)

lemma handleSchedule_ops:
  assumes "svc_inv ss" "rnd_ready (e_rnd (sv_sched sv)) (d_c (ss_schedulingPolicy ss))"
    "handleSchedule sv body ss = Some (ss', rep)"
  shows "ss' = on_client (case snd rep of Scheduled req \<Rightarrow> allocate_ops sv req (the (sr_SchedulingResult req)) | _ \<Rightarrow> []) ss"
proof (cases "Option.bind body (sv_decodeRequest sv)")
  case None
  then show ?thesis using assms(3) by (auto simp: handleSchedule_def http_Error_def split: option.splits)
next
  case (Some req)
  then obtain bytes where b: "body = Some bytes" "sv_decodeRequest sv bytes = Some req" by (auto simp: bind_eq_Some_conv)
  from schedule_lite [of ss sv bytes req] assms(1,2) b(2) obtain r
    where r: "handleSchedule sv (Some bytes) ss =
      Some (case empty_result_error r of
              Inl e \<Rightarrow> (ss, (status_of_error e, ErrorText (go_error_Error e)))
            | Inr ws \<Rightarrow> (if EnableRequestStateTracking ss then on_client (allocate_ops sv req ws) ss else ss,
                        (StatusOK, Scheduled (req\<lparr>sr_SchedulingResult := Some ws\<rparr>))))" by (auto simp: svc_inv_def)
  have "EnableRequestStateTracking ss" using assms(1) by (simp add: svc_inv_def)
  then show ?thesis using r assms(3) by (cases "empty_result_error r") (auto simp: b(1))
qed

lemma ServeHTTP_ops:
  assumes "svc_inv ss" "rnd_ready (e_rnd (sv_sched sv)) (d_c (ss_schedulingPolicy ss))" "ServeHTTP sv r ss = Some (ss', rep)"
  shows "ss' = on_client (request_ops sv r ss) ss"
proof -
  have t: "EnableRequestStateTracking ss" and full: "\<not> cfg_EnableFullModeScheduling (d_c (ss_schedulingPolicy ss))"
    using assms(1) by (auto simp: svc_inv_def EnableRequestStateTracking_def)
  have gw: "keepalive_open hs ss = on_client (case hs of None \<Rightarrow> [] | Some ep \<Rightarrow> [ClAddGateway (Endpoint_String ep)]) ss" for hs
    using t by (simp add: keepalive_open_def on_client_def split: option.split)
  have rel: "fst (handleRelease sv body ss) = on_client (case Option.bind body (sv_decodeRequest sv) of
      None \<Rightarrow> [] | Some req \<Rightarrow> (case sr_SchedulingResult req of None \<Rightarrow> [] | Some ws \<Rightarrow> release_ops sv req ws)) ss" for body
    using t full by (auto simp: handleRelease_def Let_def release_results_ops on_client_def release_ops_def split: option.split list.split)
  have rep: "fst (handleReport sv body ss) = on_client (case Option.bind body (sv_decodeReports sv) of
      None \<Rightarrow> [] | Some ds \<Rightarrow> map (report_op sv) ds) ss" for body
    by (auto simp: handleReport_def report_ops split: option.split)
  consider "hr_Path r = ''/schedule''" | "hr_Path r = ''/release''" | "hr_Path r = ''/keepalive''" | "hr_Path r = ''/report''"
    | "hr_Path r \<notin> {''/schedule'', ''/release'', ''/keepalive'', ''/report''}" by auto
  then show ?thesis
  proof cases
    case 1
    with assms(3) have h: "handleSchedule sv (hr_Body r) ss = Some (ss', rep)" by (simp add: ServeHTTP_def)
    with handleSchedule_ops [OF assms(1,2) h] 1 show ?thesis by (simp add: request_ops_def split: reply_body.splits prod.splits)
  next
    case 2
    with assms(3) rel [of "hr_Body r"] show ?thesis by (simp add: ServeHTTP_def request_ops_def prod_eq_iff)
  next
    case 4
    with assms(3) rep [of "hr_Body r"] show ?thesis by (simp add: ServeHTTP_def request_ops_def prod_eq_iff)
  qed (use assms(3) gw in \<open>auto simp: ServeHTTP_def request_ops_def split: if_splits\<close>)
qed

lemma sp_exec_insts:
  "sp_insts (fst (sp_exec op sp)) i = Some w \<Longrightarrow>
   sp_insts sp i = Some w \<or> (\<exists>v. op = AddInstanceOp v \<and> w = snd (LLMInstance_Id v))"
  by (cases op) (auto simp: sp_drop_def sp_known_def Let_def split_beta split: if_splits option.splits)

lemma cl_typed_iff:
  assumes "cl_wf c"
  shows "cl_typed c \<longleftrightarrow> (\<forall>t\<in>set three_types. \<forall>i w. sp_insts (cl_abs c t) i = Some w \<longrightarrow> li_InferType w = t)"
proof -
  have "list_all (\<lambda>(i, iv). li_InferType (iv_instance iv) = t) (lrs_views c t) \<longleftrightarrow>
      (\<forall>i w. sp_insts (cl_abs c t) i = Some w \<longrightarrow> li_InferType w = t)" if t: "t \<in> set three_types" for t
  proof -
    obtain s where s: "getLocalRealtimeState t c = Some s" using cl_state_Some [OF t] by blast
    with assms t have "mwf (lrs_instanceViews s)" by (force simp: cl_wf_iff lrs_wf_def lrs_core_def)
    then show ?thesis by (auto simp: s lrs_views_def cl_abs_def list_all_iff mget_iff_mem)
  qed
  then show ?thesis by (simp add: cl_typed_def list_all_iff)
qed

lemma LLMInstance_Id_type [simp]: "li_InferType (snd (LLMInstance_Id w)) = li_InferType w"
  by (simp add: LLMInstance_Id_def Let_def)

definition op_typed :: "cl_op \<Rightarrow> bool" where
  "op_typed op \<longleftrightarrow> (case op of ClAddInstance w \<Rightarrow> li_InferType w \<in> set three_types | _ \<Rightarrow> True)"

lemma cl_typed_exec:
  assumes "cl_wf c" "cl_op_ok op c" "cl_typed c" "op_typed op"
  shows "cl_typed (fst (cl_exec op c))"
proof -
  have wf': "cl_wf (fst (cl_exec op c))" using assms(1,2) by (rule client.inv_exec)
  have "li_InferType w = t" if t: "t \<in> set three_types" and w: "sp_insts (cl_abs (fst (cl_exec op c)) t) i = Some w" for t i w
  proof -
    obtain s where s: "getLocalRealtimeState t c = Some s" using cl_state_Some [OF t] by blast
    have old: "li_InferType w = t" if "sp_insts (lrs_abs s) i = Some w" for i w
      using assms(3) that t s by (simp add: cl_typed_iff [OF assms(1)] cl_abs_def)
    show ?thesis
    proof (cases "cl_proj t op")
      case None
      then show ?thesis using w old s by (simp add: cl_abs_def cl_exec_proj [OF t] on_state_def)
    next
      case (Some lop)
      have "lrs_wf s" "lrs_op_ok lop s" using assms(1,2) t s Some by (force simp: cl_wf_iff cl_op_ok_def list_all_iff)+
      from lrs.simulates [OF this] w s Some have "sp_insts (fst (sp_exec lop (lrs_abs s))) i = Some w"
        by (simp add: cl_abs_def cl_exec_proj [OF t] on_state_def)
      from sp_exec_insts [OF this] show ?thesis
      proof
        assume "\<exists>v. lop = AddInstanceOp v \<and> w = snd (LLMInstance_Id v)"
        then show ?thesis using Some assms(4)
          by (cases op) (auto simp: op_typed_def three_types_def split: if_splits)
      qed (rule old)
    qed
  qed
  then show ?thesis by (simp add: cl_typed_iff [OF wf'])
qed

lemma client_run_inv:
  "cl_wf c \<Longrightarrow> cl_typed c \<Longrightarrow> ops_ok cl_exec cl_op_ok ops c \<Longrightarrow> list_all op_typed ops \<Longrightarrow>
   cl_wf (fst (run_ops cl_exec ops c)) \<and> cl_typed (fst (run_ops cl_exec ops c))"
  by (induction ops arbitrary: c) (auto simp: Let_def split_beta cl_typed_exec client.inv_exec)

lemma svc_inv_client:
  assumes "svc_inv ss" "ops_ok cl_exec cl_op_ok ops (ss_lrsClient ss)" "list_all op_typed ops"
  shows "svc_inv (on_client ops ss)"
  using assms client_run_inv [of "ss_lrsClient ss" ops] by (simp add: svc_inv_def on_client_def)

lemma free_ops_ok: "list_all (\<lambda>op. \<forall>c. cl_op_ok op c) ops \<Longrightarrow> ops_ok cl_exec cl_op_ok ops c"
  by (induction ops arbitrary: c) auto

lemma free_ops: "cl_op_ok (ClAddInstance w) c" "cl_op_ok (ClRemoveInstance t i) c" "cl_op_ok (ClAddGateway g) c" "cl_op_ok (ClRemoveGateway g) c"
  by (simp_all add: cl_op_ok_def list_all_iff)

lemma ops_typed:
  "list_all op_typed (allocate_ops sv req ws)" "list_all op_typed (release_ops sv req ws)" "list_all op_typed (map (report_op sv) ds)"
proof -
  have "op_typed (report_op sv d)" for d by (cases "rd_Kind d") (simp_all add: report_op_def op_typed_def Let_def)
  then show "list_all op_typed (allocate_ops sv req ws)" "list_all op_typed (release_ops sv req ws)"
    "list_all op_typed (map (report_op sv) ds)"
    by (auto simp: list_all_iff allocate_ops_def release_ops_def op_typed_def)
qed

lemma request_ops_typed: "list_all op_typed (request_ops sv r ss)"
  unfolding request_ops_def
  by (auto split: option.split reply_body.split simp: ops_typed) (simp_all add: op_typed_def)

lemma NewSchedulerService_inv:
  assumes "NewSchedulerService c standalone multi cms = Some ss" "EnableRequestStateTracking ss"
  shows "svc_inv ss"
proof -
  have "lite_policy (ss_schedulingPolicy ss)"
    using assms by (auto simp: NewSchedulerService_def NewDispatchPolicy_def lite_policy_def EnableRequestStateTracking_def
        bind_eq_Some_conv)
  moreover have "ss_lrsClient ss = NewLocalRealtimeStateClient multi"
    using assms by (auto simp: NewSchedulerService_def NewDispatchPolicy_def bind_eq_Some_conv)
  moreover have "cl_typed (NewLocalRealtimeStateClient multi)"
    by (simp add: cl_typed_def lrs_views_def three_types_def getLocalRealtimeState_def NewLocalRealtimeStateClient_def NewLocalRealtimeState_def)
  ultimately show ?thesis using assms(2) client.inv_init by (simp add: svc_inv_def)
qed

lemma reachable_inv: "svc_reachable ss \<Longrightarrow> svc_inv ss"
proof (induction rule: svc_reachable.induct)
  case (svc_request ss sv r ss' rep)
  then show ?case
    using ServeHTTP_ops [of ss sv r ss' rep] svc_inv_client [OF _ _ request_ops_typed] by (simp add: request_ok_def)
next
  case (svc_closed ss ep)
  have "keepalive_close ep ss = on_client [ClRemoveGateway (Endpoint_String ep)] ss"
    using svc_closed.IH by (simp add: keepalive_close_def on_client_def svc_inv_def)
  moreover have "svc_inv (on_client [ClRemoveGateway (Endpoint_String ep)] ss)"
    by (intro svc_inv_client svc_closed.IH free_ops_ok) (auto simp: free_ops op_typed_def list_all_iff)
  ultimately show ?case by simp
next
  case (svc_added ss ws)
  then show ?case unfolding watch_add_ops
    by (intro svc_inv_client free_ops_ok) (auto simp: free_ops op_typed_def list_all_iff)
next
  case (svc_removed ss ws)
  then show ?case unfolding watch_del_ops
    by (intro svc_inv_client free_ops_ok) (auto simp: free_ops op_typed_def list_all_iff)
qed (rule NewSchedulerService_inv)

subsection \<open>Properties\<close>

definition servable :: "SchedulingRequest \<Rightarrow> LocalRealtimeStateClient \<Rightarrow> bool" where
  "servable req c \<longleftrightarrow>
     (if sr_SchedulingMode req = SchedulingModeNeutral then lrs_views c InferTypeNeutral \<noteq> []
      else length (cl_GetGroupedInstanceViews c) \<noteq> 1 \<and>
           (need_prefill req \<and> lrs_views c InferTypePrefill \<noteq> [] \<or> need_decode req \<and> lrs_views c InferTypeDecode \<noteq> []))"

lemma stage_result_Nil: "stage_result d t needed ws \<Longrightarrow> ws = [] \<longleftrightarrow> \<not> needed \<or> lrs_views (d_lrsClient d) t = []"
  by (auto simp: stage_result_def Let_def split: if_splits)

lemma lite_answer_cases:
  assumes "lite_answer req d r"
  shows "if servable req (d_lrsClient d) then \<exists>w ws. empty_result_error r = Inr (w # ws) \<and> r = Inr (w # ws)
    else empty_result_error r = Inl ErrorNoAvailableEndpoint"
proof (cases r)
  case (Inl e)
  then show ?thesis using assms by (auto simp: lite_answer_def servable_def empty_result_error_def split: if_splits)
next
  case (Inr ws)
  have "ws = [] \<longleftrightarrow> \<not> servable req (d_lrsClient d)"
    using assms unfolding Inr by (auto simp: lite_answer_def servable_def dest!: stage_result_Nil split: if_splits)
  then show ?thesis by (cases ws) (auto simp: Inr empty_result_error_def)
qed


lemma scheduled_lite:
  assumes "svc_inv ss" "rnd_ready (e_rnd (sv_sched sv)) (d_c (ss_schedulingPolicy ss))" "sv_decodeRequest sv bytes = Some req"
    "handleSchedule sv (Some bytes) ss = Some (ss', StatusOK, Scheduled req')"
  obtains w ws where "lite_answer req (ss_schedulingPolicy ss) (Inr (w # ws))"
    "req' = req\<lparr>sr_SchedulingResult := Some (w # ws)\<rparr>" "ss' = on_client (allocate_ops sv req (w # ws)) ss"
proof -
  have inv: "lite_policy (ss_schedulingPolicy ss)" "cl_wf (ss_lrsClient ss)" "EnableRequestStateTracking ss"
    using assms(1) by (simp_all add: svc_inv_def)
  from schedule_lite [OF inv(1,2) assms(2,3)] obtain r where r: "lite_answer req (ss_schedulingPolicy ss) r"
    "handleSchedule sv (Some bytes) ss =
      Some (case empty_result_error r of
              Inl e \<Rightarrow> (ss, (status_of_error e, ErrorText (go_error_Error e)))
            | Inr ws \<Rightarrow> (if EnableRequestStateTracking ss then on_client (allocate_ops sv req ws) ss else ss,
                        (StatusOK, Scheduled (req\<lparr>sr_SchedulingResult := Some ws\<rparr>))))" by blast
  with assms(4) obtain w ws where "empty_result_error r = Inr (w # ws)" "r = Inr (w # ws)"
    using lite_answer_cases [OF r(1)] by (auto split: if_splits)
  with that r assms(4) inv(3) show ?thesis by simp
qed



lemma scheduled_request:
  assumes "sv_decodeRequest sv bytes = Some req" "handleSchedule sv (Some bytes) ss = Some (ss', c, Scheduled req')"
  shows "sr_GatewayId req' = sr_GatewayId req"
proof -
  from assms obtain d r where "Schedule (sv_sched sv) req (ss_schedulingPolicy ss) = Some (d, r)"
    by (auto simp: handleSchedule_def bind_eq_Some_conv)
  with assms show ?thesis by (cases "empty_result_error r") (auto simp: handleSchedule_def Let_def)
qed

text \<open>When a gateway reconnects before the scheduler noticed that its old connection is gone, the end
  of the old connection removes the gateway although the new one is alive.  From then on its requests
  are answered but not accounted: the realtime state stays as it is.\<close>

theorem reconnect_loses_gateway:
  assumes "svc_inv ss" "ss1 = keepalive_open (Some ep) (keepalive_open (Some ep) ss)" "ss2 = keepalive_close ep ss1"
    "sr_GatewayId req = Endpoint_String ep" "sv_decodeRequest sv bytes = Some req"
    "rnd_ready (e_rnd (sv_sched sv)) (d_c (ss_schedulingPolicy ss))" "handleSchedule sv (Some bytes) ss2 = Some (ss', rep)"
  shows "\<not> lrs_gatewayExists (Endpoint_String ep) (neutralState (ss_lrsClient ss2)) \<and>
    cl_abs (ss_lrsClient ss') = cl_abs (ss_lrsClient ss2)"
proof -
  let ?g = "Endpoint_String ep"
  let ?ops = "[ClAddGateway ?g, ClAddGateway ?g, ClRemoveGateway ?g]"
  have t: "EnableRequestStateTracking ss" using assms(1) by (simp add: svc_inv_def)
  have ss2: "ss2 = on_client ?ops ss" using t by (simp add: assms(2,3) keepalive_open_def keepalive_close_def on_client_def)
  have inv: "svc_inv ss2" unfolding ss2
    by (intro svc_inv_client assms(1) free_ops_ok) (auto simp: free_ops op_typed_def list_all_iff)
  have gone: "mget (lrs_gatewayRequestSet s) ?g = None" if "getLocalRealtimeState t (ss_lrsClient ss2) = Some s" for t s
    using that by (auto simp: ss2 on_client_def cl_RemoveGateway_def cl_AddGateway_def getLocalRealtimeState_def
        lrs_RemoveGateway_def Let_def go_map_simps split: if_splits option.splits)
  have no_alloc: "fst (cl_AllocateRequestState k r c) = c"
    if "rs_gatewayId r = ?g" "c = ss_lrsClient ss2" for k r c
  proof -
    have keep: "fst (lrs_AllocateRequestState r s) = s" if "getLocalRealtimeState k (ss_lrsClient ss2) = Some s" for k s
      using gone [OF that] \<open>rs_gatewayId r = ?g\<close> by (simp add: lrs_AllocateRequestState_def lrs_gatewayExists_def)
    have "fst (lrs_AllocateRequestState r (neutralState c)) = neutralState c"
      "fst (lrs_AllocateRequestState r (prefillState c)) = prefillState c"
      "fst (lrs_AllocateRequestState r (decodeState c)) = decodeState c"
      unfolding that(2) using keep [of InferTypeNeutral] keep [of InferTypePrefill] keep [of InferTypeDecode]
      by (simp_all add: getLocalRealtimeState_def)
    then show ?thesis by (simp add: cl_AllocateRequestState_def with_state_def Let_def split_beta)
  qed
  have "fst (run_ops cl_exec (allocate_ops sv req' ws) c) = c" if "sr_GatewayId req' = ?g" "c = ss_lrsClient ss2" for ws req' c
    using that no_alloc by (induction ws) (simp_all add: allocate_ops_def request_state_def NewRequestState_def Let_def split_beta)
  moreover from handleSchedule_ops [OF inv _ assms(7)] assms(6)
  have "ss' = on_client (case snd rep of Scheduled req \<Rightarrow> allocate_ops sv req (the (sr_SchedulingResult req)) | _ \<Rightarrow> []) ss2"
    by (simp add: ss2 on_client_def)
  moreover have "sr_GatewayId req' = ?g" if "snd rep = Scheduled req'" for req'
    using scheduled_request [OF assms(5), of ss2 ss' "fst rep" req'] assms(4,7) that by (metis prod.collapse)
  ultimately have "ss_lrsClient ss' = ss_lrsClient ss2" by (cases "snd rep") (simp_all add: on_client_def)
  moreover have "getLocalRealtimeState InferTypeNeutral (ss_lrsClient ss2) = Some (neutralState (ss_lrsClient ss2))"
    by (simp add: getLocalRealtimeState_def)
  ultimately show ?thesis using gone by (auto simp: lrs_gatewayExists_def)
qed

subsection \<open>A concrete service\<close>

definition ex_lite_request :: SchedulingRequest where
  "ex_lite_request = ex_pd_request\<lparr>sr_GatewayId := ''h:80'', sr_SchedulingMode := SchedulingModeNeutral\<rparr>"

definition ex_sv :: service_env where
  "ex_sv = \<lparr>sv_sched = ex_env, sv_clock = 0, sv_decodeRequest = (\<lambda>_. Some ex_lite_request), sv_decodeReports = (\<lambda>_. None)\<rparr>"

definition ex_endpoint :: Endpoint where
  "ex_endpoint = \<lparr>ep_Host = ''h'', ep_Port = 80\<rparr>"

definition ex_keepalive :: HTTPRequest where
  "ex_keepalive = \<lparr>hr_Path = ''/keepalive'', hr_Body = None, hr_Handshake = Some ex_endpoint\<rparr>"

definition ex_start :: SchedulerService where
  "ex_start = the (NewSchedulerService (default_config\<lparr>cfg_EnableFullModeScheduling := False\<rparr>) False False ex_client)"

definition ex_service :: SchedulerService where
  "ex_service = keepalive_open (Some ex_endpoint) (watch_add [ex_instance ''i'', ex_instance ''j''] ex_start)"

lemma ex_start_tracks: "EnableRequestStateTracking ex_start" "cfg_DispatchTopK (d_c (ss_schedulingPolicy ex_start)) = 1"
  by code_simp+

lemma ex_start_reachable: "svc_reachable ex_start"
proof (rule svc_start)
  have "NewSchedulerService (default_config\<lparr>cfg_EnableFullModeScheduling := False\<rparr>) False False ex_client \<noteq> None"
    by code_simp
  then show "NewSchedulerService (default_config\<lparr>cfg_EnableFullModeScheduling := False\<rparr>) False False ex_client = Some ex_start"
    by (auto simp: ex_start_def)
qed (rule ex_start_tracks)

lemma ex_rnd_ready: "rnd_ready rnd (d_c (ss_schedulingPolicy ex_service))"
  by (simp add: rnd_ready_def ex_service_def watch_add_def keepalive_open_def ex_start_tracks)

lemma ex_service_reachable: "svc_reachable ex_service"
proof -
  let ?ss = "watch_add [ex_instance ''i'', ex_instance ''j''] ex_start"
  have ss: "svc_reachable ?ss" by (rule svc_added [OF ex_start_reachable]) (simp add: ex_instance_def three_types_def)
  moreover have "request_ok ex_sv ex_keepalive ?ss"
    by (auto simp: request_ok_def rnd_ready_def watch_add_def ex_start_tracks request_ops_def ex_keepalive_def free_ops)
  moreover have "ServeHTTP ex_sv ex_keepalive ?ss = Some (ex_service, (StatusSwitchingProtocols, WebSocket))"
    by (simp add: ServeHTTP_def ex_keepalive_def ex_service_def)
  ultimately show ?thesis by (rule svc_request)
qed

definition ex_lite_answer :: SchedulingRequest where
  "ex_lite_answer = ex_lite_request\<lparr>sr_SchedulingResult := Some [ex_instance ''i'']\<rparr>"

lemma ex_scheduled:
  "\<exists>ss'. handleSchedule ex_sv (Some []) ex_service = Some (ss', StatusOK, Scheduled ex_lite_answer)"
proof -
  have "(case handleSchedule ex_sv (Some []) ex_service of
      Some (ss', c, Scheduled r) \<Rightarrow> c = StatusOK \<and> r = ex_lite_answer | _ \<Rightarrow> False)" by code_simp
  then show ?thesis by (auto split: option.splits prod.splits reply_body.splits)
qed




theorem reconnect_loses_gateway_witness:
  "\<exists>ss' rep. handleSchedule ex_sv (Some []) (keepalive_close ex_endpoint
       (keepalive_open (Some ex_endpoint) (keepalive_open (Some ex_endpoint) ex_service))) = Some (ss', StatusOK, rep) \<and>
     \<not> lrs_gatewayExists ''h:80'' (neutralState (ss_lrsClient ss'))"
proof -
  let ?ss2 = "keepalive_close ex_endpoint (keepalive_open (Some ex_endpoint) (keepalive_open (Some ex_endpoint) ex_service))"
  have "(case handleSchedule ex_sv (Some []) ?ss2 of Some (_, c, _) \<Rightarrow> c = StatusOK | _ \<Rightarrow> False)" by code_simp
  then obtain ss' rep where h: "handleSchedule ex_sv (Some []) ?ss2 = Some (ss', StatusOK, rep)"
    by (auto split: option.splits)
  have ep: "Endpoint_String ex_endpoint = ''h:80''" by code_simp
  have g: "sr_GatewayId ex_lite_request = Endpoint_String ex_endpoint" by code_simp
  have dec: "sv_decodeRequest ex_sv [] = Some ex_lite_request" by (simp add: ex_sv_def)
  from reconnect_loses_gateway [OF reachable_inv [OF ex_service_reachable] refl refl g dec ex_rnd_ready h]
  have n: "\<not> lrs_gatewayExists ''h:80'' (neutralState (ss_lrsClient ?ss2))"
    "cl_abs (ss_lrsClient ss') InferTypeNeutral = cl_abs (ss_lrsClient ?ss2) InferTypeNeutral" by (auto simp: ep)
  have gw: "lrs_gatewayExists i s \<longleftrightarrow> i \<in> sp_gws (lrs_abs s)" for i s by (auto simp: lrs_gatewayExists_def)
  have st: "cl_abs c InferTypeNeutral = lrs_abs (neutralState c)" for c by (simp add: cl_abs_def getLocalRealtimeState_def)
  have "\<not> lrs_gatewayExists ''h:80'' (neutralState (ss_lrsClient ss'))" using n unfolding gw st by simp
  then show ?thesis using h by blast
qed

subsection \<open>Ping-pong\<close>

fun ping_run :: "ping_event list \<Rightarrow> i32 \<Rightarrow> i32 option" where
  "ping_run [] m = Some m"
| "ping_run (e # es) m = Option.bind (ping_step e m) (ping_run es)"

lemma sint_ping: "sint (m + 1 :: i32) = sint m + 1" if "0 \<le> sint m" "sint m < 2"
  using that by (simp add: sint_word_ariths signed_take_bit_int_eq_self)

lemma ping_silent:
  assumes "Pong \<notin> set es" "0 \<le> sint m" "sint m \<le> 2" "3 \<le> sint m + int (length (filter is_Tick es))"
  shows "ping_run es m = None"
  using assms
proof (induction es arbitrary: m)
  case (Cons e es)
  show ?case
  proof (cases e)
    case (Tick ok)
    show ?thesis
    proof (cases "ok \<and> sint m < 2")
      case True
      then have "sint (m + 1) = sint m + 1" using Cons.prems by (intro sint_ping) auto
      with Cons.IH [of "m + 1"] Cons.prems True Tick show ?thesis by simp
    qed (use Cons.prems Tick in auto)
  qed (use Cons in auto)
qed simp

end
