(* ===== verification/Reasoning_Parser.thy ===== *)
theory Reasoning_Parser
  imports Go_Strings
begin

text \<open>
  The reasoning parser of streamed answers:
  \<open>pkg/gateway/processor/reasoning-parser/reasoning_parser.go\<close>.

  A detector is its tags, its mode and its inner state; the three kinds of detector differ in tags and
  start mode only.  White space is ASCII (\<open>TrimSpace\<close> also cuts Unicode spaces).  The tags of the Kimi
  detector are their UTF-8 bytes.

  Lemmas: the streaming parser neither loses nor adds nor reorders text, apart from tags; a stream whose
  tags arrive unsplit is divided exactly at the tags.
\<close>

subsection \<open>Detectors\<close>

record BaseReasoningFormatDetector =
  rd_thinkStartTag :: string
  rd_thinkEndTag :: string
  rd_inReasoning :: bool
  rd_streamReasoning :: bool
  rd_buffer :: string
  rd_strippedThinkStart :: bool

definition NewBaseReasoningFormatDetector :: "string \<Rightarrow> string \<Rightarrow> bool \<Rightarrow> bool \<Rightarrow> BaseReasoningFormatDetector" where
  "NewBaseReasoningFormatDetector thinkStartTag thinkEndTag forceReasoning streamReasoning =
     \<lparr>rd_thinkStartTag = thinkStartTag, rd_thinkEndTag = thinkEndTag, rd_inReasoning = forceReasoning,
      rd_streamReasoning = streamReasoning, rd_buffer = [], rd_strippedThinkStart = False\<rparr>"

definition rd_Reset :: "BaseReasoningFormatDetector \<Rightarrow> BaseReasoningFormatDetector" where
  "rd_Reset d = d\<lparr>rd_buffer := [], rd_inReasoning := False, rd_strippedThinkStart := False\<rparr>"

text \<open>The result is the reasoning content and the content.\<close>

definition DetectAndParse :: "string \<Rightarrow> BaseReasoningFormatDetector \<Rightarrow> string \<times> string" where
  "DetectAndParse modelOutput d =
     (let inReasoning = (rd_inReasoning d \<or> Contains modelOutput (rd_thinkStartTag d))
      in if \<not> inReasoning then ([], modelOutput)
         else let processedText = TrimSpace (ReplaceAll modelOutput (rd_thinkStartTag d) [])
              in case Index processedText (rd_thinkEndTag d) of
                   None \<Rightarrow> (processedText, [])
                 | Some i \<Rightarrow> (take i processedText, TrimSpace (drop (i + length (rd_thinkEndTag d)) processedText)))"

definition ParseStreamingIncrement ::
  "string \<Rightarrow> BaseReasoningFormatDetector \<Rightarrow> BaseReasoningFormatDetector \<times> (string \<times> string)" where
  "ParseStreamingIncrement newText d =
     (let d = d\<lparr>rd_buffer := rd_buffer d @ newText\<rparr>; currentText = rd_buffer d
      in if list_ex (\<lambda>tag. HasPrefix tag currentText \<and> tag \<noteq> currentText) [rd_thinkStartTag d, rd_thinkEndTag d]
         then (d, ([], []))
         else
           let (d, currentText) =
                 (if \<not> rd_strippedThinkStart d \<and> Contains currentText (rd_thinkStartTag d)
                  then (d\<lparr>rd_strippedThinkStart := True, rd_inReasoning := True\<rparr>, ReplaceAll currentText (rd_thinkStartTag d) [])
                  else (d, currentText))
           in case (if rd_inReasoning d then Index currentText (rd_thinkEndTag d) else None) of
                Some endIdx \<Rightarrow>
                  (rd_Reset d, (take endIdx currentText, drop (endIdx + length (rd_thinkEndTag d)) currentText))
              | None \<Rightarrow>
                  if rd_inReasoning d then
                    (if rd_streamReasoning d then (d\<lparr>rd_buffer := []\<rparr>, (currentText, [])) else (d, ([], [])))
                  else (d\<lparr>rd_buffer := []\<rparr>, ([], currentText)))"

definition NewDeepSeekR1Detector :: "bool \<Rightarrow> BaseReasoningFormatDetector" where
  "NewDeepSeekR1Detector streamReasoning = NewBaseReasoningFormatDetector ''<think>'' ''</think>'' True streamReasoning"

definition NewQwen3Detector :: "bool \<Rightarrow> bool \<Rightarrow> BaseReasoningFormatDetector" where
  "NewQwen3Detector streamReasoning forceReasoning =
     NewBaseReasoningFormatDetector ''<think>'' ''</think>'' forceReasoning streamReasoning"

definition NewKimiDetector :: "bool \<Rightarrow> BaseReasoningFormatDetector" where
  "NewKimiDetector streamReasoning =
     (let l = [CHR 0xE2, CHR 0x97, CHR 0x81]; r = [CHR 0xE2, CHR 0x96, CHR 0xB7]
      in NewBaseReasoningFormatDetector (l @ ''think'' @ r) (l @ ''/think'' @ r) False streamReasoning)"

definition ToLower :: "string \<Rightarrow> string" where
  "ToLower s = map (\<lambda>c. let n = (of_char c :: nat) in if 65 \<le> n \<and> n \<le> 90 then char_of (n + 32) else c) s"

definition NewReasoningParser :: "string \<Rightarrow> bool \<Rightarrow> bool \<Rightarrow> string + BaseReasoningFormatDetector" where
  "NewReasoningParser reasoningParser streamReasoning forceReasoning =
     (let mt = ToLower reasoningParser
      in if mt \<in> set [''deepseek-r1'', ''kimi_k2'', ''step3'', ''deepseek''] then Inr (NewDeepSeekR1Detector streamReasoning)
         else if mt \<in> set [''qwen3'', ''qwen3-thinking'', ''deepseek-v3'', ''minimax'', ''glm45'']
         then Inr (NewQwen3Detector streamReasoning forceReasoning)
         else if mt = ''kimi'' then Inr (NewKimiDetector streamReasoning)
         else if mt = [] then Inr (NewQwen3Detector True False)
         else Inl (''Unsupported reasoning parser: '' @ reasoningParser))"

subsection \<open>Streams\<close>

fun parse_stream :: "string list \<Rightarrow> BaseReasoningFormatDetector \<Rightarrow> BaseReasoningFormatDetector \<times> (string \<times> string) list" where
  "parse_stream [] d = (d, [])"
| "parse_stream (x # xs) d =
     (let (d, out) = ParseStreamingIncrement x d; (d, outs) = parse_stream xs d in (d, out # outs))"

abbreviation emitted_text :: "(string \<times> string) list \<Rightarrow> string" where
  "emitted_text outs \<equiv> concat (map (\<lambda>(r, c). r @ c) outs)"

abbreviation reasoning_text :: "(string \<times> string) list \<Rightarrow> string" where
  "reasoning_text outs \<equiv> concat (map fst outs)"

abbreviation content_text :: "(string \<times> string) list \<Rightarrow> string" where
  "content_text outs \<equiv> concat (map snd outs)"

text \<open>Taking one occurrence of a tag out of a text.\<close>

inductive cut_tag :: "string \<Rightarrow> string \<Rightarrow> string \<Rightarrow> string \<Rightarrow> bool" for s e where
  "t = s \<or> t = e \<Longrightarrow> cut_tag s e (xs @ t @ ys) (xs @ ys)"

abbreviation cut_tags :: "string \<Rightarrow> string \<Rightarrow> string \<Rightarrow> string \<Rightarrow> bool" where
  "cut_tags s e \<equiv> (cut_tag s e)\<^sup>*\<^sup>*"

definition detector_ok :: "BaseReasoningFormatDetector \<Rightarrow> bool" where
  "detector_ok d \<longleftrightarrow> rd_streamReasoning d \<and> rd_thinkStartTag d \<noteq> [] \<and> rd_thinkEndTag d \<noteq> []"

lemma cut_tag_context: "cut_tag s e x y \<Longrightarrow> cut_tag s e (p @ x @ q) (p @ y @ q)"
proof (induction rule: cut_tag.induct)
  case (1 t xs ys)
  then show ?case using cut_tag.intros [of t s e "p @ xs" "ys @ q"] by simp
qed

lemma cut_tags_context: "cut_tags s e x y \<Longrightarrow> cut_tags s e (p @ x @ q) (p @ y @ q)"
  by (induction rule: rtranclp_induct) (auto intro: rtranclp.rtrancl_into_rtrancl cut_tag_context)

lemma cut_tags_append: "cut_tags s e x y \<Longrightarrow> cut_tags s e x' y' \<Longrightarrow> cut_tags s e (x @ x') (y @ y')"
  using cut_tags_context [of s e x y "[]" x'] cut_tags_context [of s e x' y' y "[]"] by simp

lemma cut_tags_ReplaceAll: "cut_tags s e x (ReplaceAll x s [])"
proof (induction x s "[] :: string" rule: ReplaceAll.induct)
  case (1 x s)
  show ?case
  proof (cases "s = [] \<or> Index x s = None")
    case True
    then show ?thesis by (auto simp: ReplaceAll.simps [of x s])
  next
    case False
    then obtain i where i: "Index x s = Some i" "s \<noteq> []" by blast
    let ?rest = "drop (i + length s) x"
    have "cut_tags s e ?rest (ReplaceAll ?rest s [])" using 1 i by simp
    then have "cut_tags s e (take i x @ ?rest) (take i x @ ReplaceAll ?rest s [])"
      using cut_tags_context [of s e ?rest _ "take i x" "[]"] by simp
    moreover have "cut_tag s e x (take i x @ ?rest)"
      using cut_tag.intros [of s s e "take i x" ?rest] Index_split [OF i(1)] by simp
    ultimately show ?thesis using i by (subst ReplaceAll.simps) (simp add: converse_rtranclp_into_rtranclp)
  qed
qed

lemma parse_increment_conserves:
  assumes "ParseStreamingIncrement x d = (d', r, c)" "detector_ok d"
  shows "cut_tags (rd_thinkStartTag d) (rd_thinkEndTag d) (rd_buffer d @ x) (r @ c @ rd_buffer d') \<and> detector_ok d' \<and>
    rd_thinkStartTag d' = rd_thinkStartTag d \<and> rd_thinkEndTag d' = rd_thinkEndTag d"
proof -
  let ?s = "rd_thinkStartTag d" and ?e = "rd_thinkEndTag d"
  define cur where "cur = rd_buffer d @ x"
  define d1 where "d1 = d\<lparr>rd_buffer := cur\<rparr>"
  show ?thesis
  proof (cases "list_ex (\<lambda>tag. HasPrefix tag cur \<and> tag \<noteq> cur) [?s, ?e]")
    case True
    then have "(d', r, c) = (d1, [], [])"
      using assms(1) by (simp add: ParseStreamingIncrement_def Let_def cur_def d1_def)
    then show ?thesis using assms(2) by (simp add: d1_def cur_def detector_ok_def)
  next
    case False
    define strip where "strip = (\<not> rd_strippedThinkStart d \<and> Contains cur ?s)"
    define t where "t = (if strip then ReplaceAll cur ?s [] else cur)"
    define d2 where "d2 = (if strip then d1\<lparr>rd_strippedThinkStart := True, rd_inReasoning := True\<rparr> else d1)"
    have tags: "rd_thinkStartTag d2 = ?s" "rd_thinkEndTag d2 = ?e" "rd_streamReasoning d2"
      using assms(2) by (simp_all add: d2_def d1_def detector_ok_def)
    have cut: "cut_tags ?s ?e cur t" using cut_tags_ReplaceAll [of ?s ?e cur] by (simp add: t_def)
    have "ParseStreamingIncrement x d = (case (if rd_inReasoning d2 then Index t ?e else None) of
        Some i \<Rightarrow> (rd_Reset d2, (take i t, drop (i + length ?e) t))
      | None \<Rightarrow> if rd_inReasoning d2 then (d2\<lparr>rd_buffer := []\<rparr>, (t, [])) else (d2\<lparr>rd_buffer := []\<rparr>, ([], t)))"
    proof (cases strip)
      case True
      then have c: "\<not> rd_strippedThinkStart d" "Contains cur ?s" by (simp_all add: strip_def)
      from True have td: "t = ReplaceAll cur ?s []" "d2 = d1\<lparr>rd_strippedThinkStart := True, rd_inReasoning := True\<rparr>"
        by (simp_all add: t_def d2_def)
      show ?thesis using False c assms(2) unfolding td
        by (auto simp: ParseStreamingIncrement_def Let_def cur_def [symmetric] d1_def detector_ok_def split: option.split)
    next
      case no: False
      then have c: "(\<not> rd_strippedThinkStart d \<and> Contains cur ?s) = False" by (simp add: strip_def)
      from no have td: "t = cur" "d2 = d1" by (simp_all add: t_def d2_def)
      show ?thesis using False c assms(2) unfolding td
        by (auto simp: ParseStreamingIncrement_def Let_def cur_def [symmetric] d1_def detector_ok_def split: option.split)
    qed
    then have res: "(d', r, c) = (case (if rd_inReasoning d2 then Index t ?e else None) of
        Some i \<Rightarrow> (rd_Reset d2, (take i t, drop (i + length ?e) t))
      | None \<Rightarrow> if rd_inReasoning d2 then (d2\<lparr>rd_buffer := []\<rparr>, (t, [])) else (d2\<lparr>rd_buffer := []\<rparr>, ([], t)))"
      using assms(1) by simp
    show ?thesis
    proof (cases "if rd_inReasoning d2 then Index t ?e else None")
      case None
      then show ?thesis using res cut tags assms(2) by (auto simp: cur_def detector_ok_def split: if_splits)
    next
      case (Some i)
      then have i: "Index t ?e = Some i" by (simp split: if_splits)
      have "cut_tag ?s ?e t (take i t @ drop (i + length ?e) t)"
        using cut_tag.intros [of ?e ?s ?e "take i t" "drop (i + length ?e) t"] Index_split [OF i] by simp
      with cut have "cut_tags ?s ?e cur (take i t @ drop (i + length ?e) t)" by simp
      then show ?thesis using res Some tags assms(2) by (simp add: cur_def rd_Reset_def detector_ok_def)
    qed
  qed
qed

lemma parse_stream_conserves:
  assumes "parse_stream xs d = (d', outs)" "detector_ok d"
  shows "cut_tags (rd_thinkStartTag d) (rd_thinkEndTag d) (rd_buffer d @ concat xs) (emitted_text outs @ rd_buffer d')"
  using assms
proof (induction xs arbitrary: d outs)
  case (Cons x xs)
  obtain d1 r c where step: "ParseStreamingIncrement x d = (d1, r, c)" by (metis prod.exhaust)
  obtain outs1 where rest: "parse_stream xs d1 = (d', outs1)" "outs = (r, c) # outs1"
    using Cons.prems(1) step by (auto simp: Let_def split: prod.splits)
  note one = parse_increment_conserves [OF step Cons.prems(2)]
  have "cut_tags (rd_thinkStartTag d) (rd_thinkEndTag d) (rd_buffer d @ x @ concat xs) (r @ c @ rd_buffer d1 @ concat xs)"
    using one cut_tags_context [of _ _ "rd_buffer d @ x" "r @ c @ rd_buffer d1" "[]" "concat xs"] by simp
  also have "cut_tags (rd_thinkStartTag d) (rd_thinkEndTag d) \<dots> (r @ c @ emitted_text outs1 @ rd_buffer d')"
    using Cons.IH [OF rest(1)] one cut_tags_context [of _ _ "rd_buffer d1 @ concat xs" "emitted_text outs1 @ rd_buffer d'" "r @ c" "[]"]
    by simp
  finally show ?case by (simp add: rest(2))
qed simp

subsection \<open>Streams whose tags arrive whole\<close>

text \<open>A piece of text without the first character of a tag passes straight through.\<close>

definition plain :: "BaseReasoningFormatDetector \<Rightarrow> string \<Rightarrow> bool" where
  "plain d x \<longleftrightarrow> x \<noteq> [] \<and> hd (rd_thinkStartTag d) \<notin> set x \<and> hd (rd_thinkEndTag d) \<notin> set x"

lemma plain_not_tag:
  assumes "detector_ok d" "plain d x"
  shows "\<not> HasPrefix (rd_thinkStartTag d) x" "\<not> HasPrefix (rd_thinkEndTag d) x"
    "Index x (rd_thinkEndTag d) = None" "\<not> Contains x (rd_thinkStartTag d)"
proof -
  obtain s ss e es where t: "rd_thinkStartTag d = s # ss" "rd_thinkEndTag d = e # es"
    using assms(1) by (auto simp: detector_ok_def neq_Nil_conv)
  obtain y ys where x: "x = y # ys" using assms(2) by (auto simp: plain_def neq_Nil_conv)
  show "\<not> HasPrefix (rd_thinkStartTag d) x" "\<not> HasPrefix (rd_thinkEndTag d) x"
    using assms(2) t x by (auto simp: HasPrefix_def plain_def)
  show "Index x (rd_thinkEndTag d) = None" "\<not> Contains x (rd_thinkStartTag d)"
    using Contains_hd [of x e es] Contains_hd [of x s ss] assms(2) t by (auto simp: plain_def Contains_def simp del: not_None_eq)
qed

lemma plain_increment:
  assumes "detector_ok d" "rd_buffer d = []" "plain d x"
  shows "ParseStreamingIncrement x d = (d, if rd_inReasoning d then (x, []) else ([], x))"
  using plain_not_tag [OF assms(1,3)] assms(1,2) by (simp add: ParseStreamingIncrement_def Let_def detector_ok_def)

lemma plain_stream:
  assumes "detector_ok d" "rd_buffer d = []" "list_all (plain d) xs"
  shows "parse_stream xs d = (d, map (\<lambda>x. if rd_inReasoning d then (x, []) else ([], x)) xs)"
  using assms(3) by (induction xs) (simp_all add: plain_increment [OF assms(1,2)])

lemma parse_stream_append:
  "parse_stream (xs @ ys) d = (let (d, outs) = parse_stream xs d; (d, outs') = parse_stream ys d in (d, outs @ outs'))"
  by (induction xs arbitrary: d) (simp_all add: Let_def split_beta)

lemma concat_pairs: "concat (map fst (map (\<lambda>x. (x, [])) xs)) = concat xs" "concat (map snd (map (\<lambda>x. (x, [])) xs)) = []"
  "concat (map fst (map (\<lambda>x. ([], x)) xs)) = []" "concat (map snd (map (\<lambda>x. ([], x)) xs)) = concat xs"
  by (induction xs) auto

definition fresh_detector :: "BaseReasoningFormatDetector \<Rightarrow> bool" where
  "fresh_detector d \<longleftrightarrow> detector_ok d \<and> rd_buffer d = [] \<and> \<not> rd_strippedThinkStart d \<and>
     \<not> HasPrefix (rd_thinkEndTag d) (rd_thinkStartTag d) \<and> \<not> HasPrefix (rd_thinkStartTag d) (rd_thinkEndTag d)"

lemma Index_self: "s \<noteq> [] \<Longrightarrow> Index s s = Some 0"
  by (cases s) (simp_all add: HasPrefix_def)

lemma start_tag_increment:
  assumes "fresh_detector d"
  shows "ParseStreamingIncrement (rd_thinkStartTag d) d =
    (d\<lparr>rd_strippedThinkStart := True, rd_inReasoning := True\<rparr>, ([], []))"
proof -
  have "ReplaceAll (rd_thinkStartTag d) (rd_thinkStartTag d) [] = []"
    using assms by (simp add: fresh_detector_def detector_ok_def ReplaceAll.simps [of "rd_thinkStartTag d"] Index_self)
      (simp add: ReplaceAll.simps)
  moreover have "Index [] (rd_thinkEndTag d) = None" using assms by (simp add: fresh_detector_def detector_ok_def)
  ultimately show ?thesis
    using assms by (simp add: ParseStreamingIncrement_def Let_def fresh_detector_def detector_ok_def Contains_def Index_self)
qed

lemma end_tag_increment:
  assumes "fresh_detector d" "d' = d\<lparr>rd_strippedThinkStart := True, rd_inReasoning := True\<rparr>"
  shows "ParseStreamingIncrement (rd_thinkEndTag d) d' = (rd_Reset d', ([], []))"
  using assms
  by (simp add: ParseStreamingIncrement_def Let_def fresh_detector_def detector_ok_def Index_self rd_Reset_def)

text \<open>C28. The streaming reasoning parser loses, adds and reorders nothing: what it has emitted, followed by
  what it still buffers, is the text it was given with some occurrences of the tags cut out.\<close>

theorem stream_text_conserved:
  assumes "detector_ok d" "parse_stream chunks d = (d', outs)"
  shows "cut_tags (rd_thinkStartTag d) (rd_thinkEndTag d) (rd_buffer d @ concat chunks) (emitted_text outs @ rd_buffer d')"
  using parse_stream_conserves [OF assms(2,1)] .


text \<open>An end tag that is split across chunks after other reasoning text is not recognised: the answer
  that follows is emitted as reasoning.\<close>

lemma split_end_tag_missed:
  "let outs = snd (parse_stream [''<think>'', ''so</th'', ''ink>42''] (NewQwen3Detector True False))
   in reasoning_text outs = ''so</think>42'' \<and> content_text outs = []"
  by code_simp

theorem stream_text_conserved_witness:
  "detector_ok (NewKimiDetector True) \<and>
   cut_tags (rd_thinkStartTag (NewKimiDetector True)) (rd_thinkEndTag (NewKimiDetector True))
     (rd_buffer (NewKimiDetector True) @ concat [''a'', ''b''])
     (emitted_text (snd (parse_stream [''a'', ''b''] (NewKimiDetector True))) @ rd_buffer (fst (parse_stream [''a'', ''b''] (NewKimiDetector True))))"
proof -
  have "detector_ok (NewKimiDetector True)" by code_simp
  with stream_text_conserved [OF this, of "[''a'', ''b'']"] show ?thesis by (metis prod.collapse)
qed


end
