(* ===== verification/Gateway_Types.thy ===== *)
theory Gateway_Types
  imports Go_Float Reasoning_Parser
begin

text \<open>
  Data of the gateway: error values (\<open>pkg/consts/error.go\<close>), the requests and responses of the OpenAI
  protocol (\<open>pkg/gateway/protocol\<close>) and the request context (\<open>pkg/types/request.go\<close>).

  An error is the value Go carries, with the chain \<open>errors.Is\<close> and \<open>errors.As\<close> walk along.  A request
  context holds the fields the gateway's control flow reads or writes; its response channel is the
  list of messages sent so far and whether it was closed.
\<close>

subsection \<open>Errors\<close>

datatype gw_error =
    Sentinel go_error
  | Canceled
  | DeadlineExceeded
  | IoEOF
  | ErrRateLimitRetryExhausted
  | is_Upstream: UpstreamError (ue_StatusCode: i64) (ue_Body: string) (ue_URL: string) (ue_InstanceID: string)
  | is_Network: NetworkError (ne_URL: string) (ne_Err: "gw_error option") (ne_InstanceID: string)
  | Wrapped string gw_error
  | Errorf string

text \<open>The error and what it wraps, outermost first.\<close>

fun err_chain :: "gw_error \<Rightarrow> gw_error list" where
  "err_chain (NetworkError url (Some e) i) = NetworkError url (Some e) i # err_chain e"
| "err_chain (Wrapped s e) = Wrapped s e # err_chain e"
| "err_chain e = [e]"

definition errors_Is :: "gw_error \<Rightarrow> gw_error \<Rightarrow> bool" where
  "errors_Is e target \<longleftrightarrow> target \<in> set (err_chain e)"

definition as_UpstreamError :: "gw_error \<Rightarrow> gw_error option" where
  "as_UpstreamError e = find is_Upstream (err_chain e)"

definition as_RetryableError :: "gw_error \<Rightarrow> gw_error option" where
  "as_RetryableError e = find (\<lambda>x. is_Upstream x \<or> is_Network x) (err_chain e)"

fun IsRetryable :: "gw_error \<Rightarrow> bool" where
  "IsRetryable (UpstreamError code body url i) \<longleftrightarrow> 500 \<le> sint code"
| "IsRetryable (NetworkError url err i) \<longleftrightarrow>
     (case err of None \<Rightarrow> False | Some e \<Rightarrow> \<not> errors_Is e Canceled \<and> \<not> errors_Is e DeadlineExceeded)"
| "IsRetryable _ \<longleftrightarrow> False"

fun FailedInstanceID :: "gw_error \<Rightarrow> string" where
  "FailedInstanceID (UpstreamError code body url i) = i"
| "FailedInstanceID (NetworkError url err i) = i"
| "FailedInstanceID _ = []"

definition IsClientError :: "gw_error \<Rightarrow> bool" where
  "IsClientError e \<longleftrightarrow> 400 \<le> sint (ue_StatusCode e) \<and> sint (ue_StatusCode e) < 500"

definition retryable :: "gw_error \<Rightarrow> bool" where
  "retryable e \<longleftrightarrow> (case as_RetryableError e of None \<Rightarrow> False | Some r \<Rightarrow> IsRetryable r)"

subsection \<open>Protocol\<close>

datatype PromptValue = PString string | PStrings "string list" | PTokens "32 word list" | PMatrix "32 word list list" | PNil

datatype json_value = JNull | JBool bool | JString string | JInt i64

record CompletionRequest =
  cr_Id :: string
  cr_Rid :: string
  cr_Model :: string
  cr_Prompt :: PromptValue
  cr_MaxTokens :: "u64 option"
  cr_N :: i64
  cr_FrequencyPenalty :: gofloat
  cr_PresencePenalty :: gofloat
  cr_Seed :: "i64 option"
  cr_Stop :: "string list"
  cr_Stream :: bool
  cr_StreamOptions :: "(bool \<times> bool) option"
  cr_Temperature :: "gofloat option"
  cr_TopP :: gofloat
  cr_User :: string
  cr_KvTransferParams :: "(string, json_value) gmap option"
  cr_BootStrapHost :: string
  cr_BootStrapRoom :: string

record ChatCompletionRequest =
  cq_Model :: string
  cq_MaxTokens :: i64
  cq_N :: i64
  cq_FrequencyPenalty :: gofloat
  cq_PresencePenalty :: gofloat
  cq_Seed :: "i64 option"
  cq_Stop :: "string list"
  cq_Stream :: bool
  cq_Temperature :: "gofloat option"
  cq_TopP :: gofloat
  cq_User :: string
  cq_Tools :: "string list"

record Usage =
  us_PromptTokens :: u64
  us_CompletionTokens :: u64
  us_TotalTokens :: u64
  us_ReasoningTokens :: "u64 option"

record CompletionChoice =
  cc_Text :: string
  cc_Index :: i64
  cc_FinishReason :: string

record CompletionResponse =
  cp_ID :: string
  cp_Object :: string
  cp_Created :: i64
  cp_Model :: string
  cp_Choices :: "CompletionChoice list"
  cp_Usage :: "Usage option"
  cp_KvTransferParams :: "(string, json_value) gmap option"

record ToolCall =
  tc_ID :: string
  tc_Name :: string
  tc_Arguments :: string

text \<open>A choice of a chat response: the message of a full response, the delta of a streamed one.\<close>

record ChatChoice =
  ch_Index :: i64
  ch_FinishReason :: string
  ch_Role :: string
  ch_Content :: string
  ch_ReasoningContent :: string
  ch_ToolCalls :: "ToolCall list"

record ChatResponse =
  ct_ID :: string
  ct_Object :: string
  ct_Created :: i64
  ct_Model :: string
  ct_Choices :: "ChatChoice list"
  ct_Usage :: "Usage option"

datatype ProtocolType = OpenAIChatCompletion | OpenAICompletion

subsection \<open>Request context\<close>

text \<open>The tool parser is an object of the inference SDK; what it knows is what it was fed.\<close>

record LLMRequest =
  lr_Model :: string
  lr_RawData :: string
  lr_Protocol :: ProtocolType
  lr_ClientStream :: bool
  lr_ChatCompletionRequest :: "ChatCompletionRequest option"
  lr_ChatCompletionResponse :: "ChatResponse option"
  lr_ChatCompletionStreamResponse :: "ChatResponse option"
  lr_CompletionRequest :: "CompletionRequest option"
  lr_CompletionResponse :: "CompletionResponse option"
  lr_ReasoningParser :: "BaseReasoningFormatDetector option"
  lr_ToolParser :: "string list option"
  lr_BufferChatResp :: "ChatResponse option"
  lr_LastChatStreamResp :: "ChatResponse option"
  lr_BufferCompletionResponse :: "CompletionResponse option"

definition GetPromptTokens :: "LLMRequest \<Rightarrow> 32 word list option option" where
  "GetPromptTokens req =
     map_option (\<lambda>c. case cr_Prompt c of PTokens ts \<Rightarrow> Some ts | _ \<Rightarrow> None) (lr_CompletionRequest req)"

record RequestStats =
  rs_ITLs :: nat
  rs_InputTokensLen :: u64
  rs_OutputTokensLen :: u64
  rs_ReasoningTokensLen :: u64
  rs_MaxTokensLimit :: u64
  rs_HasToolCalls :: bool
  rs_FallbackAttempt :: int
  rs_RetryCount :: int
  rs_FailedInstances :: "string list"

definition RecordFailedInstance :: "string \<Rightarrow> RequestStats \<Rightarrow> RequestStats" where
  "RecordFailedInstance i st = st\<lparr>rs_FailedInstances := rs_FailedInstances st @ [i]\<rparr>"

definition OutputExceedMaxTokens :: "RequestStats \<Rightarrow> bool" where
  "OutputExceedMaxTokens st \<longleftrightarrow>
     (if rs_MaxTokensLimit st = 0 then False else rs_MaxTokensLimit st \<le> rs_OutputTokensLen st - rs_ReasoningTokensLen st)"

record ResponseMsg =
  rm_Err :: "gw_error option"
  rm_Message :: string

record RequestContext =
  rc_Id :: string
  rc_URL :: string
  rc_LLM :: LLMRequest
  rc_Stats :: RequestStats
  rc_SchedulingResults :: SchedulingResult
  rc_SchedulingMode :: SchedulingMode
  rc_SchedulingStage :: SchedulingStage
  rc_GatewayId :: string
  rc_NotNeedScheduling :: bool
  rc_StatusCode :: i64
  rc_HeaderResponded :: bool
  rc_HasTokenState :: bool
  rc_ForwardSucceeded :: bool
  rc_Sent :: "ResponseMsg list"
  rc_Closed :: bool

abbreviation rc_Model :: "RequestContext \<Rightarrow> string" where
  "rc_Model rc \<equiv> lr_Model (rc_LLM rc)"

abbreviation rc_FallbackAttempt :: "RequestContext \<Rightarrow> int" where
  "rc_FallbackAttempt rc \<equiv> rs_FallbackAttempt (rc_Stats rc)"

definition on_llm :: "(LLMRequest \<Rightarrow> LLMRequest) \<Rightarrow> RequestContext \<Rightarrow> RequestContext" where
  "on_llm f rc = rc\<lparr>rc_LLM := f (rc_LLM rc)\<rparr>"

definition on_stats :: "(RequestStats \<Rightarrow> RequestStats) \<Rightarrow> RequestContext \<Rightarrow> RequestContext" where
  "on_stats f rc = rc\<lparr>rc_Stats := f (rc_Stats rc)\<rparr>"

definition send :: "gw_error option \<Rightarrow> string \<Rightarrow> RequestContext \<Rightarrow> RequestContext" where
  "send err msg rc = rc\<lparr>rc_Sent := rc_Sent rc @ [\<lparr>rm_Err = err, rm_Message = msg\<rparr>]\<rparr>"

end
