(* ===== verification/Gateway_Balancer.thy ===== *)
theory Gateway_Balancer
  imports Gateway_Types "HOL-Library.Monad_Syntax"
begin

text \<open>
  The gateway's load balancers: \<open>pkg/gateway/load-balancer/*.go\<close> and the options they read
  (\<open>cmd/gateway/app/options/config.go\<close>).

  The round-robin balancer is its instance list and counter.  The scheduler client talks to a world
  \<open>'w\<close> through the functions of a \<open>net\<close>: the keepalive connection's flags and endpoints, one HTTP
  exchange, the clock, and JSON.  An exchange returns what is left unread of the request body, since
  the release path sends the same request again.  A nil balancer and an impossible mode are panics
  (\<open>None\<close>); so is a scheduling loop that never ends.

  Lemmas: round robin is fair; the scheduler client's wait ends; the composite balancer asks the
  scheduler first and falls back to round robin exactly when the scheduler is not ready.
\<close>

subsection \<open>Configuration\<close>

record GatewayConfig =
  gc_PDDisaggProtocol :: string
  gc_SchedulingPolicy :: string
  gc_SeparatePDScheduling :: bool
  gc_EnableFullModeScheduling :: bool
  gc_RequestStateReportInterval :: int
  gc_ServiceToken :: string
  gc_WaitSchedulingTimeout :: int
  gc_WaitSchedulingRetryInterval :: int
  gc_ForwardTokens :: bool
  gc_RetryMaxCount :: int

definition SchedulingPolicyRoundRobin :: string where "SchedulingPolicyRoundRobin = ''round-robin''"

definition IsPDDisagg :: "GatewayConfig \<Rightarrow> bool" where
  "IsPDDisagg c \<longleftrightarrow> gc_PDDisaggProtocol c \<noteq> []"

definition IsPDRoundRobin :: "GatewayConfig \<Rightarrow> bool" where
  "IsPDRoundRobin c \<longleftrightarrow> IsPDDisagg c \<and> gc_SchedulingPolicy c = SchedulingPolicyRoundRobin"

definition gc_EnableRequestStateTracking :: "GatewayConfig \<Rightarrow> bool" where
  "gc_EnableRequestStateTracking c \<longleftrightarrow> 0 < gc_RequestStateReportInterval c \<and> \<not> gc_EnableFullModeScheduling c"

subsection \<open>Round robin\<close>

record RoundRobinBalancer =
  rr_currentIndex :: "64 word"
  rr_instances :: "LLMInstance list"

definition NewRoundRobinBalancer :: "bool \<Rightarrow> RoundRobinBalancer option" where
  "NewRoundRobinBalancer watchOk = (if watchOk then Some \<lparr>rr_currentIndex = 0, rr_instances = []\<rparr> else None)"

definition rr_add :: "LLMInstance list \<Rightarrow> RoundRobinBalancer \<Rightarrow> RoundRobinBalancer" where
  "rr_add instances lb = lb\<lparr>rr_instances := rr_instances lb @ instances\<rparr>"

text \<open>\<open>Id\<close> memoises the identifier of the elements it visits.\<close>

fun remove_id :: "string \<Rightarrow> LLMInstance list \<Rightarrow> LLMInstance list" where
  "remove_id i [] = []"
| "remove_id i (x # xs) = (let (j, x') = LLMInstance_Id x in if j = i then xs else x' # remove_id i xs)"

definition rr_del :: "LLMInstance list \<Rightarrow> RoundRobinBalancer \<Rightarrow> RoundRobinBalancer" where
  "rr_del instances lb =
     lb\<lparr>rr_instances := foldl (\<lambda>xs w. remove_id (fst (LLMInstance_Id w)) xs) (rr_instances lb) instances\<rparr>"

definition rr_Get :: "RoundRobinBalancer \<Rightarrow> RoundRobinBalancer \<times> (gw_error + SchedulingResult)" where
  "rr_Get lb =
     (if rr_instances lb = [] then (lb, Inl (Sentinel ErrorNoAvailableEndpoint))
      else let cur = rr_currentIndex lb + 1;
               index = unat (cur mod of_nat (length (rr_instances lb)));
               w = snd (LLMInstance_Id (rr_instances lb ! index))
           in (lb\<lparr>rr_currentIndex := cur, rr_instances := (rr_instances lb)[index := w]\<rparr>, Inr [w]))"

subsection \<open>Scheduler client\<close>

record 'w net =
  nt_ready :: "'w \<Rightarrow> bool"
  nt_local :: "'w \<Rightarrow> Endpoint"
  nt_remote :: "'w \<Rightarrow> Endpoint"
  nt_Do :: "string \<Rightarrow> string option \<Rightarrow> string \<Rightarrow> 'w \<Rightarrow> 'w \<times> string \<times> (nat \<times> string option) option"
  nt_now :: "'w \<Rightarrow> int"
  nt_sleep :: "int \<Rightarrow> 'w \<Rightarrow> 'w"
  nt_marshal :: "SchedulingRequest \<Rightarrow> string option"
  nt_unmarshal :: "string \<Rightarrow> SchedulingRequest option"

definition createSchedulingRequest ::
  "'w net \<Rightarrow> GatewayConfig \<Rightarrow> 32 word list option \<Rightarrow> RequestContext \<Rightarrow> 'w \<Rightarrow> RequestContext \<times> SchedulingRequest" where
  "createSchedulingRequest net cfg tokens rc w =
     (let localEndpoint = Endpoint_String (nt_local net w);
          schRequest = \<lparr>sr_Id = rc_Id rc, sr_Model = rc_Model rc, sr_GatewayId = localEndpoint,
            sr_SchedulingMode = rc_SchedulingMode rc, sr_SchedulingStage = rc_SchedulingStage rc,
            sr_PromptNumTokens = 0, sr_PromptTokenIds = [], sr_SchedulingResult = None\<rparr>;
          schRequest = (case tokens of
            None \<Rightarrow> schRequest
          | Some tokenIds \<Rightarrow>
              let schRequest = schRequest\<lparr>sr_PromptNumTokens := of_nat (length tokenIds)\<rparr>
              in if gc_ForwardTokens cfg then schRequest\<lparr>sr_PromptTokenIds := tokenIds\<rparr> else schRequest)
      in (rc\<lparr>rc_GatewayId := localEndpoint\<rparr>, schRequest))"

definition handleResponse :: "'w net \<Rightarrow> string \<Rightarrow> gw_error + SchedulingResult" where
  "handleResponse net body =
     (case nt_unmarshal net body of
        None \<Rightarrow> Inl (Sentinel ErrorEndpointNotFound)
      | Some schReq \<Rightarrow>
          (case sr_SchedulingResult schReq of
             Some (x # xs) \<Rightarrow> Inr (x # xs)
           | _ \<Rightarrow> Inl (Sentinel ErrorNoAvailableEndpoint)))"

definition auth_header :: "GatewayConfig \<Rightarrow> string option" where
  "auth_header cfg = (if 0 < length (gc_ServiceToken cfg) then Some (gc_ServiceToken cfg) else None)"

definition scheduler_url :: "'w net \<Rightarrow> string \<Rightarrow> 'w \<Rightarrow> string" where
  "scheduler_url net path w = ''http://'' @ Endpoint_String (nt_remote net w) @ path"

definition post_schedule ::
  "'w net \<Rightarrow> GatewayConfig \<Rightarrow> SchedulingRequest \<Rightarrow> 'w \<Rightarrow> 'w \<times> (gw_error + SchedulingResult)" where
  "post_schedule net cfg schReq w =
     (case nt_marshal net schReq of
        None \<Rightarrow> (w, Inl (Errorf ''json''))
      | Some data \<Rightarrow>
          let (w, _, resp) = nt_Do net (scheduler_url net ''/schedule'' w) (auth_header cfg) data w
          in case resp of
               None \<Rightarrow> (w, Inl (Sentinel ErrorMayNetworkBroken))
             | Some (_, None) \<Rightarrow> (w, Inl (Sentinel ErrorMayNetworkBroken))
             | Some (status, Some body) \<Rightarrow>
                 (w,
                  if status = 200 then handleResponse net body
                  else if status = 429 then Inl (Sentinel ErrorNoAvailableEndpoint)
                  else if status = 404 then Inl (Sentinel ErrorEndpointNotFound)
                  else Inl (Sentinel ErrorEndpointNotFound)))"

text \<open>The request's completion form is read through a pointer: nil panics.\<close>

definition doSchedule ::
  "'w net \<Rightarrow> GatewayConfig \<Rightarrow> RequestContext \<Rightarrow> 'w \<Rightarrow> ('w \<times> RequestContext \<times> (gw_error + SchedulingResult)) option" where
  "doSchedule net cfg rc w =
     (if \<not> nt_ready net w then Some (w, rc, Inl (Sentinel ErrorSchedulerNotReady))
      else do { tokens \<leftarrow> GetPromptTokens (rc_LLM rc);
                let (rc, schReq) = createSchedulingRequest net cfg tokens rc w;
                let (w, r) = post_schedule net cfg schReq w;
                Some (w, rc, r) })"

partial_function (option) schedule_loop ::
  "'w net \<Rightarrow> GatewayConfig \<Rightarrow> int \<Rightarrow> RequestContext \<Rightarrow> 'w \<Rightarrow> ('w \<times> RequestContext \<times> (gw_error + SchedulingResult)) option" where
  [code]: "schedule_loop net cfg tStart rc w =
     do { (w, rc, r) \<leftarrow> doSchedule net cfg rc w;
          case r of
            Inr result \<Rightarrow> Some (w, rc, Inr result)
          | Inl err \<Rightarrow>
              if errors_Is err (Sentinel ErrorNoAvailableEndpoint) then
                (if gc_WaitSchedulingTimeout cfg < nt_now net w - tStart then Some (w, rc, Inl err)
                 else schedule_loop net cfg tStart rc (nt_sleep net (gc_WaitSchedulingRetryInterval cfg) w))
              else Some (w, rc, Inl (Sentinel ErrorSchedulerNotReady)) }"

definition sc_Get ::
  "'w net \<Rightarrow> GatewayConfig \<Rightarrow> RequestContext \<Rightarrow> 'w \<Rightarrow> ('w \<times> RequestContext \<times> (gw_error + SchedulingResult)) option" where
  "sc_Get net cfg rc w =
     (let tStart = nt_now net w
      in if \<not> nt_ready net w then Some (w, rc, Inl (Sentinel ErrorSchedulerNotReady))
         else schedule_loop net cfg tStart rc w)"

definition createReleaseRequest :: "'w net \<Rightarrow> RequestContext \<Rightarrow> LLMInstance \<Rightarrow> 'w \<Rightarrow> SchedulingRequest" where
  "createReleaseRequest net rc inst w =
     \<lparr>sr_Id = rc_Id rc, sr_Model = rc_Model rc, sr_GatewayId = Endpoint_String (nt_local net w),
      sr_SchedulingMode = rc_SchedulingMode rc, sr_SchedulingStage = rc_SchedulingStage rc,
      sr_PromptNumTokens = 0, sr_PromptTokenIds = [], sr_SchedulingResult = Some [inst]\<rparr>"

definition releaseTryCount :: nat where "releaseTryCount = 3"

fun release_try :: "'w net \<Rightarrow> GatewayConfig \<Rightarrow> string \<Rightarrow> nat \<Rightarrow> string \<Rightarrow> 'w \<Rightarrow> 'w" where
  "release_try net cfg url 0 data w = w"
| "release_try net cfg url (Suc retry) data w =
     (let (w, rest, resp) = nt_Do net url (auth_header cfg) data w
      in case resp of
           Some _ \<Rightarrow> w
         | None \<Rightarrow> if 0 < retry then release_try net cfg url retry rest (nt_sleep net 500000000 w) else w)"

definition sc_Release :: "'w net \<Rightarrow> GatewayConfig \<Rightarrow> RequestContext \<Rightarrow> LLMInstance \<Rightarrow> 'w \<Rightarrow> 'w" where
  "sc_Release net cfg rc inst w =
     (let localEndpoint = Endpoint_String (nt_local net w); ready = nt_ready net w
      in if localEndpoint \<noteq> rc_GatewayId rc \<or> \<not> ready then w
         else case nt_marshal net (createReleaseRequest net rc inst w) of
                None \<Rightarrow> w
              | Some data \<Rightarrow> release_try net cfg (scheduler_url net ''/release'' w) releaseTryCount data w)"

subsection \<open>Composite balancer\<close>

datatype balanceMode = LocalBalancer | PDLocalBalancer | RemoteBalancer | PDRemoteBalancer

record CompositeBalancer =
  cb_config :: GatewayConfig
  cb_balanceMode :: balanceMode
  cb_localBalancer :: "RoundRobinBalancer option"
  cb_prefillLocalBalancer :: "RoundRobinBalancer option"
  cb_decodeLocalBalancer :: "RoundRobinBalancer option"

definition setupPDDisaggBalancer :: "(InferType \<Rightarrow> bool) \<Rightarrow> GatewayConfig \<Rightarrow> CompositeBalancer" where
  "setupPDDisaggBalancer watchOk config =
     \<lparr>cb_config = config,
      cb_balanceMode = (if IsPDRoundRobin config then PDLocalBalancer else PDRemoteBalancer),
      cb_localBalancer = None,
      cb_prefillLocalBalancer = NewRoundRobinBalancer (watchOk InferTypePrefill),
      cb_decodeLocalBalancer = NewRoundRobinBalancer (watchOk InferTypeDecode)\<rparr>"

definition setupNeutralBalancer :: "(InferType \<Rightarrow> bool) \<Rightarrow> GatewayConfig \<Rightarrow> CompositeBalancer" where
  "setupNeutralBalancer watchOk config =
     \<lparr>cb_config = config,
      cb_balanceMode = (if gc_SchedulingPolicy config \<noteq> SchedulingPolicyRoundRobin then RemoteBalancer else LocalBalancer),
      cb_localBalancer = NewRoundRobinBalancer (watchOk InferTypeNeutral),
      cb_prefillLocalBalancer = None,
      cb_decodeLocalBalancer = None\<rparr>"

definition NewCompositeBalancer :: "(InferType \<Rightarrow> bool) \<Rightarrow> GatewayConfig \<Rightarrow> CompositeBalancer" where
  "NewCompositeBalancer watchOk config =
     (if IsPDDisagg config then setupPDDisaggBalancer watchOk config else setupNeutralBalancer watchOk config)"

type_synonym got = "CompositeBalancer \<times> (gw_error + SchedulingResult)"

definition get_local :: "CompositeBalancer \<Rightarrow> got option" where
  "get_local bp = map_option (\<lambda>lb. let (lb, r) = rr_Get lb in (bp\<lparr>cb_localBalancer := Some lb\<rparr>, r)) (cb_localBalancer bp)"

definition get_prefill :: "CompositeBalancer \<Rightarrow> got option" where
  "get_prefill bp =
     map_option (\<lambda>lb. let (lb, r) = rr_Get lb in (bp\<lparr>cb_prefillLocalBalancer := Some lb\<rparr>, r)) (cb_prefillLocalBalancer bp)"

definition get_decode :: "CompositeBalancer \<Rightarrow> got option" where
  "get_decode bp =
     map_option (\<lambda>lb. let (lb, r) = rr_Get lb in (bp\<lparr>cb_decodeLocalBalancer := Some lb\<rparr>, r)) (cb_decodeLocalBalancer bp)"

definition pdDisaggLocalGet :: "RequestContext \<Rightarrow> CompositeBalancer \<Rightarrow> got option" where
  "pdDisaggLocalGet rc bp =
     (if rc_SchedulingMode rc = SchedulingModePDStaged then
        (if rc_SchedulingStage rc = SchedulingStagePrefill then get_prefill bp
         else if rc_SchedulingStage rc = SchedulingStageDecode then get_decode bp
         else Some (bp, Inl (Errorf (''invalid scheduling stage: '' @ rc_SchedulingStage rc))))
      else do { (bp, p) \<leftarrow> get_prefill bp;
                case p of
                  Inl err \<Rightarrow> Some (bp, Inl err)
                | Inr pResult \<Rightarrow>
                    do { (bp, d) \<leftarrow> get_decode bp;
                         case d of
                           Inl err \<Rightarrow> Some (bp, Inl err)
                         | Inr dResult \<Rightarrow> Some (bp, Inr (pResult @ dResult)) } })"

definition localGet :: "RequestContext \<Rightarrow> CompositeBalancer \<Rightarrow> got option" where
  "localGet rc bp =
     (case cb_balanceMode bp of
        LocalBalancer \<Rightarrow> get_local bp
      | RemoteBalancer \<Rightarrow> get_local bp
      | PDLocalBalancer \<Rightarrow> pdDisaggLocalGet rc bp
      | PDRemoteBalancer \<Rightarrow> pdDisaggLocalGet rc bp)"

type_synonym 'w got_w = "CompositeBalancer \<times> 'w \<times> RequestContext \<times> (gw_error + SchedulingResult)"

definition getWithFallback :: "'w net \<Rightarrow> RequestContext \<Rightarrow> CompositeBalancer \<Rightarrow> 'w \<Rightarrow> 'w got_w option" where
  "getWithFallback net rc bp w =
     do { (w, rc, r) \<leftarrow> sc_Get net (cb_config bp) rc w;
          case r of
            Inr result \<Rightarrow> Some (bp, w, rc, r)
          | Inl err \<Rightarrow>
              if \<not> errors_Is err (Sentinel ErrorSchedulerNotReady) then Some (bp, w, rc, r)
              else (case cb_balanceMode bp of
                      RemoteBalancer \<Rightarrow> map_option (\<lambda>(bp, r). (bp, w, rc, r)) (get_local bp)
                    | PDRemoteBalancer \<Rightarrow> map_option (\<lambda>(bp, r). (bp, w, rc, r)) (pdDisaggLocalGet rc bp)
                    | _ \<Rightarrow> None) }"

definition cb_Get :: "'w net \<Rightarrow> RequestContext \<Rightarrow> CompositeBalancer \<Rightarrow> 'w \<Rightarrow> 'w got_w option" where
  "cb_Get net rc bp w =
     (let here = map_option (\<lambda>(bp, r). (bp, w, rc, r))
      in if rc_NotNeedScheduling rc then here (localGet rc bp)
         else (case cb_balanceMode bp of
                 RemoteBalancer \<Rightarrow> getWithFallback net rc bp w
               | PDRemoteBalancer \<Rightarrow> getWithFallback net rc bp w
               | LocalBalancer \<Rightarrow> here (get_local bp)
               | PDLocalBalancer \<Rightarrow> here (pdDisaggLocalGet rc bp)))"

definition cb_Release :: "'w net \<Rightarrow> RequestContext \<Rightarrow> LLMInstance \<Rightarrow> CompositeBalancer \<Rightarrow> 'w \<Rightarrow> 'w" where
  "cb_Release net rc inst bp w =
     (if cb_balanceMode bp = RemoteBalancer \<or> cb_balanceMode bp = PDRemoteBalancer
      then sc_Release net (cb_config bp) rc inst w else w)"

subsection \<open>Round robin is fair\<close>

abbreviation memo :: "LLMInstance \<Rightarrow> LLMInstance" where
  "memo w \<equiv> snd (LLMInstance_Id w)"

fun rr_gets :: "nat \<Rightarrow> RoundRobinBalancer \<Rightarrow> (gw_error + SchedulingResult) list" where
  "rr_gets 0 lb = []"
| "rr_gets (Suc k) lb = (let (lb, r) = rr_Get lb in r # rr_gets k lb)"

lemma LLMInstance_String_ID [simp]: "LLMInstance_String (w\<lparr>li_ID := i\<rparr>) = LLMInstance_String w"
  by (simp add: LLMInstance_String_def Let_def cong: if_cong)

lemma memo_memo [simp]: "memo (memo w) = memo w"
  by (auto simp: LLMInstance_Id_def Let_def)

lemma rr_index:
  assumes "0 < n" "unat (c :: 64 word) + 1 < 2 ^ 64" "n < 2 ^ 64"
  shows "unat ((c + 1) mod of_nat n) = (unat c + 1) mod n"
proof -
  have "unat (c + 1) = unat c + 1" using assms(2) by (subst unat_word_ariths) (simp add: take_bit_nat_eq_self)
  then show ?thesis using assms(3) by (simp add: unat_mod unat_of_nat take_bit_nat_eq_self)
qed

lemma rr_gets_exact:
  assumes "rr_instances lb \<noteq> []" "length (rr_instances lb) < 2 ^ 64" "unat (rr_currentIndex lb) + k < 2 ^ 64"
  shows "rr_gets k lb = map (\<lambda>i. Inr [memo (rr_instances lb ! ((unat (rr_currentIndex lb) + 1 + i) mod length (rr_instances lb)))]) [0..<k]"
  using assms
proof (induction k arbitrary: lb)
  case (Suc k)
  let ?n = "length (rr_instances lb)" and ?c = "rr_currentIndex lb"
  define j where "j = (unat ?c + 1) mod ?n"
  define lb' where "lb' = lb\<lparr>rr_currentIndex := ?c + 1, rr_instances := (rr_instances lb)[j := memo (rr_instances lb ! j)]\<rparr>"
  have j: "unat ((?c + 1) mod of_nat ?n) = j" unfolding j_def using Suc.prems by (intro rr_index) auto
  have jn: "j < ?n" using Suc.prems(1) by (simp add: j_def)
  have get: "rr_Get lb = (lb', Inr [memo (rr_instances lb ! j)])"
    using Suc.prems(1) by (simp add: rr_Get_def Let_def j lb'_def)
  have c: "unat (?c + 1) = unat ?c + 1" using Suc.prems(3) by (subst unat_word_ariths) (simp add: take_bit_nat_eq_self)
  have m: "memo (rr_instances lb' ! i) = memo (rr_instances lb ! i)" for i
    by (cases "i = j") (simp_all add: lb'_def jn)
  have len: "length (rr_instances lb') = ?n" by (simp add: lb'_def)
  have "rr_gets k lb' = map (\<lambda>i. Inr [memo (rr_instances lb ! ((unat ?c + 2 + i) mod ?n))]) [0..<k]"
    using Suc.IH [of lb'] Suc.prems by (simp add: m len) (simp add: lb'_def c)
  then have "rr_gets (Suc k) lb = Inr [memo (rr_instances lb ! j)] # map (\<lambda>i. Inr [memo (rr_instances lb ! ((unat ?c + 2 + i) mod ?n))]) [0..<k]"
    by (simp add: get)
  also have "\<dots> = map (\<lambda>i. Inr [memo (rr_instances lb ! ((unat ?c + 1 + i) mod ?n))]) [0..<Suc k]"
    by (simp add: j_def map_upt_Suc del: upt_Suc)
  finally show ?case .
qed simp

definition residues :: "nat \<Rightarrow> nat \<Rightarrow> nat \<Rightarrow> nat \<Rightarrow> nat set" where
  "residues n c j k = {i. i < k \<and> (c + i) mod n = j}"

lemma residues_one:
  assumes "j < n"
  shows "\<exists>i<n. residues n c j n = {i}"
proof -
  let ?i = "(j + n - c mod n) mod n"
  have n: "0 < n" using assms by simp
  have "(c + ?i) mod n = (c mod n + (j + n - c mod n)) mod n" by (simp add: mod_add_left_eq mod_add_right_eq)
  also have "c mod n + (j + n - c mod n) = j + n" using n by (simp add: mod_less_divisor [THEN less_imp_le] trans_le_add2)
  finally have i: "(c + ?i) mod n = j" using assms by simp
  have "i' = ?i" if "i' < n" "(c + i') mod n = j" for i'
  proof -
    have "(c + i') mod n = (c + ?i) mod n" using i that by simp
    then obtain q r where "c + i' + n * q = c + ?i + n * r" unfolding nat_mod_eq_iff by blast
    then have "(i' + n * q) mod n = (?i + n * r) mod n" by simp
    then show ?thesis using that n by simp
  qed
  then have "residues n c j n = {?i}" using i n by (auto simp: residues_def)
  then show ?thesis using n by (intro exI [of _ ?i]) simp
qed

lemma residues_shift: "residues n c j (n + k) = residues n c j n \<union> (\<lambda>i. i + n) ` residues n c j k"
proof -
  have "(c + (i + n)) mod n = (c + i) mod n" for i by (simp add: add.assoc [symmetric])
  then show ?thesis
    by (auto simp: residues_def image_iff) (metis add.commute add_diff_inverse_nat add_less_cancel_left)
qed

lemma residues_count:
  assumes "j < n"
  shows "card (residues n c j k) \<in> {k div n, k div n + 1}"
proof (induction k rule: less_induct)
  case (less k)
  have fin: "finite (residues n c j m)" for m by (simp add: residues_def)
  show ?case
  proof (cases "k < n")
    case True
    obtain i where i: "residues n c j n = {i}" using residues_one [OF assms] by blast
    have "residues n c j k \<subseteq> residues n c j n" using True by (auto simp: residues_def)
    then have "card (residues n c j k) \<le> 1" using card_mono [of "{i}" "residues n c j k"] i by simp
    then show ?thesis using True by auto
  next
    case False
    then obtain m where k: "k = n + m" using le_Suc_ex not_less by blast
    obtain i where i: "residues n c j n = {i}" "i < n" using residues_one [OF assms] by blast
    have "card (residues n c j k) = card (residues n c j n) + card ((\<lambda>i. i + n) ` residues n c j m)"
      unfolding k residues_shift using i fin by (intro card_Un_disjoint) auto
    then have "card (residues n c j k) = 1 + card (residues n c j m)" using i by (simp add: card_image inj_on_def)
    moreover have "k div n = m div n + 1" using assms k by (simp add: div_add_self1)
    ultimately show ?thesis using less.IH [of m] assms k by auto
  qed
qed


subsection \<open>The wait for a scheduling result ends\<close>

definition clock_ok :: "'w net \<Rightarrow> bool" where
  "clock_ok net \<longleftrightarrow>
     (\<forall>url auth data w. nt_now net w \<le> nt_now net (fst (nt_Do net url auth data w))) \<and>
     (\<forall>d w. nt_now net w + d \<le> nt_now net (nt_sleep net d w))"

lemma handleResponse_cases:
  "(\<exists>x xs. handleResponse net body = Inr (x # xs)) \<or> handleResponse net body = Inl (Sentinel ErrorEndpointNotFound) \<or>
   handleResponse net body = Inl (Sentinel ErrorNoAvailableEndpoint)"
  by (auto simp: handleResponse_def split: option.split list.split)

abbreviation has_prompt :: "RequestContext \<Rightarrow> bool" where
  "has_prompt rc \<equiv> lr_CompletionRequest (rc_LLM rc) \<noteq> None"

lemma createSchedulingRequest_rc: "fst (createSchedulingRequest net cfg tokens rc w) = rc\<lparr>rc_GatewayId := Endpoint_String (nt_local net w)\<rparr>"
  by (simp add: createSchedulingRequest_def Let_def)

lemma post_schedule_effect:
  assumes "post_schedule net cfg req w = (w', r)" "clock_ok net"
  shows "nt_now net w \<le> nt_now net w'" "r = Inr ws \<Longrightarrow> ws \<noteq> []"
    "r = Inl e \<Longrightarrow> errors_Is e (Sentinel ErrorNoAvailableEndpoint) \<Longrightarrow> e = Sentinel ErrorNoAvailableEndpoint"
proof -
  have h: "handleResponse net b = Inr ws \<Longrightarrow> ws \<noteq> []" "handleResponse net b = Inl e \<Longrightarrow> Sentinel ErrorNoAvailableEndpoint \<in> set (err_chain e) \<Longrightarrow> e = Sentinel ErrorNoAvailableEndpoint" for b
    using handleResponse_cases [of net b] by auto
  have le: "nt_now net v \<le> nt_now net (fst (nt_Do net url auth data v))" for url auth data v
    using assms(2) unfolding clock_ok_def by blast
  show "nt_now net w \<le> nt_now net w'"
    using assms(1) le [of w] by (auto simp: post_schedule_def split_beta Let_def split: if_splits option.splits)
  show "ws \<noteq> []" if "r = Inr ws"
    using assms(1) that h(1) by (auto simp: post_schedule_def split_beta Let_def split: if_splits option.splits)
  show "e = Sentinel ErrorNoAvailableEndpoint" if "r = Inl e" "errors_Is e (Sentinel ErrorNoAvailableEndpoint)"
    using assms(1) that h(2) by (auto simp: post_schedule_def errors_Is_def split_beta Let_def split: if_splits option.splits)
qed

lemma doSchedule_effect:
  assumes "doSchedule net cfg rc w = Some (w', rc', r)" "clock_ok net"
  shows "nt_now net w \<le> nt_now net w'" "rc_LLM rc' = rc_LLM rc" "r = Inr ws \<Longrightarrow> ws \<noteq> []"
    "r = Inl e \<Longrightarrow> errors_Is e (Sentinel ErrorNoAvailableEndpoint) \<Longrightarrow> e = Sentinel ErrorNoAvailableEndpoint"
proof -
  have "(w' = w \<and> rc' = rc \<and> r = Inl (Sentinel ErrorSchedulerNotReady)) \<or>
    (\<exists>tokens. rc' = fst (createSchedulingRequest net cfg tokens rc w) \<and>
       post_schedule net cfg (snd (createSchedulingRequest net cfg tokens rc w)) w = (w', r))"
    using assms(1) by (auto simp: doSchedule_def bind_eq_Some_conv split_beta Let_def split: if_splits)
  then consider "w' = w" "rc' = rc" "r = Inl (Sentinel ErrorSchedulerNotReady)"
    | req tokens where "rc' = fst (createSchedulingRequest net cfg tokens rc w)" "post_schedule net cfg req w = (w', r)" by blast
  note cases = this
  show "nt_now net w \<le> nt_now net w'" by (cases rule: cases) (auto dest: post_schedule_effect(1) [OF _ assms(2)])
  show "rc_LLM rc' = rc_LLM rc" by (cases rule: cases) (auto simp: createSchedulingRequest_rc)
  show "r = Inr ws \<Longrightarrow> ws \<noteq> []" by (cases rule: cases) (use post_schedule_effect(2) [OF _ assms(2)] in blast)+
  show "r = Inl e \<Longrightarrow> errors_Is e (Sentinel ErrorNoAvailableEndpoint) \<Longrightarrow> e = Sentinel ErrorNoAvailableEndpoint"
    by (cases rule: cases) (auto simp: errors_Is_def, use post_schedule_effect(3) [OF _ assms(2)] errors_Is_def in blast)
qed

lemma doSchedule_returns: "has_prompt rc \<Longrightarrow> \<exists>x. doSchedule net cfg rc w = Some x"
  by (auto simp: doSchedule_def GetPromptTokens_def split_beta Let_def)

definition get_outcome :: "gw_error + SchedulingResult \<Rightarrow> bool" where
  "get_outcome r \<longleftrightarrow>
     (case r of Inr ws \<Rightarrow> ws \<noteq> []
      | Inl e \<Rightarrow> e = Sentinel ErrorNoAvailableEndpoint \<or> e = Sentinel ErrorSchedulerNotReady)"

lemma schedule_loop_ends:
  assumes "clock_ok net" "0 < gc_WaitSchedulingRetryInterval cfg" "has_prompt rc"
  shows "\<exists>w' rc' r. schedule_loop net cfg tStart rc w = Some (w', rc', r) \<and> get_outcome r \<and> rc_LLM rc' = rc_LLM rc"
  using assms(3)
proof (induction "nat (tStart + gc_WaitSchedulingTimeout cfg + 1 - nt_now net w)" arbitrary: rc w rule: less_induct)
  case less
  obtain w1 rc1 r where d: "doSchedule net cfg rc w = Some (w1, rc1, r)" using doSchedule_returns [OF less.prems] by (metis prod.exhaust)
  note eff = doSchedule_effect [OF d assms(1)]
  show ?case
  proof (cases r)
    case (Inr ws)
    then show ?thesis using d eff(2,3) by (subst schedule_loop.simps) (simp add: get_outcome_def)
  next
    case (Inl e)
    show ?thesis
    proof (cases "errors_Is e (Sentinel ErrorNoAvailableEndpoint) \<and> nt_now net w1 - tStart \<le> gc_WaitSchedulingTimeout cfg")
      case True
      let ?w = "nt_sleep net (gc_WaitSchedulingRetryInterval cfg) w1"
      have "nt_now net w1 + gc_WaitSchedulingRetryInterval cfg \<le> nt_now net ?w" using assms(1) by (simp add: clock_ok_def)
      then have "nat (tStart + gc_WaitSchedulingTimeout cfg + 1 - nt_now net ?w) < nat (tStart + gc_WaitSchedulingTimeout cfg + 1 - nt_now net w)"
        using True eff(1) assms(2) by linarith
      from less.hyps [OF this, of rc1] show ?thesis using True d Inl eff(2) less.prems by (subst schedule_loop.simps) simp
    next
      case False
      then show ?thesis using d Inl eff(2,4) by (subst schedule_loop.simps) (auto simp: get_outcome_def)
    qed
  qed
qed

lemma sc_Get_ends:
  assumes "clock_ok net" "0 < gc_WaitSchedulingRetryInterval cfg" "has_prompt rc"
  shows "\<exists>w' rc' r. sc_Get net cfg rc w = Some (w', rc', r) \<and> get_outcome r \<and> rc_LLM rc' = rc_LLM rc"
  using schedule_loop_ends [OF assms] by (simp add: sc_Get_def Let_def get_outcome_def)

subsection \<open>The composite balancer\<close>

text \<open>A balancer as \<open>NewCompositeBalancer\<close> sets it up when every resolver can be watched.\<close>

definition cb_wf :: "CompositeBalancer \<Rightarrow> bool" where
  "cb_wf bp \<longleftrightarrow>
     (case cb_balanceMode bp of
        LocalBalancer \<Rightarrow> cb_localBalancer bp \<noteq> None
      | RemoteBalancer \<Rightarrow> cb_localBalancer bp \<noteq> None
      | PDLocalBalancer \<Rightarrow> cb_prefillLocalBalancer bp \<noteq> None \<and> cb_decodeLocalBalancer bp \<noteq> None
      | PDRemoteBalancer \<Rightarrow> cb_prefillLocalBalancer bp \<noteq> None \<and> cb_decodeLocalBalancer bp \<noteq> None)"

lemma cb_wf_New: "(\<And>t. watchOk t) \<Longrightarrow> cb_wf (NewCompositeBalancer watchOk config)"
  by (simp add: cb_wf_def NewCompositeBalancer_def setupPDDisaggBalancer_def setupNeutralBalancer_def NewRoundRobinBalancer_def)

definition same_setup :: "CompositeBalancer \<Rightarrow> CompositeBalancer \<Rightarrow> bool" where
  "same_setup bp bp' \<longleftrightarrow> cb_balanceMode bp' = cb_balanceMode bp \<and> cb_config bp' = cb_config bp \<and>
     (cb_localBalancer bp' = None \<longleftrightarrow> cb_localBalancer bp = None) \<and>
     (cb_prefillLocalBalancer bp' = None \<longleftrightarrow> cb_prefillLocalBalancer bp = None) \<and>
     (cb_decodeLocalBalancer bp' = None \<longleftrightarrow> cb_decodeLocalBalancer bp = None)"

lemma same_setup_wf: "same_setup bp bp' \<Longrightarrow> cb_wf bp' = cb_wf bp"
  by (auto simp: same_setup_def cb_wf_def split: balanceMode.splits)

lemma get_stage_returns:
  "cb_localBalancer bp \<noteq> None \<Longrightarrow> \<exists>bp' r. get_local bp = Some (bp', r) \<and> same_setup bp bp'"
  "cb_prefillLocalBalancer bp \<noteq> None \<Longrightarrow> \<exists>bp' r. get_prefill bp = Some (bp', r) \<and> same_setup bp bp'"
  "cb_decodeLocalBalancer bp \<noteq> None \<Longrightarrow> \<exists>bp' r. get_decode bp = Some (bp', r) \<and> same_setup bp bp'"
  by (auto simp: get_local_def get_prefill_def get_decode_def same_setup_def split_beta Let_def)

lemma pdDisaggLocalGet_returns:
  assumes "cb_prefillLocalBalancer bp \<noteq> None" "cb_decodeLocalBalancer bp \<noteq> None"
  shows "\<exists>bp' r. pdDisaggLocalGet rc bp = Some (bp', r) \<and> same_setup bp bp'"
proof -
  obtain bp1 p where p: "get_prefill bp = Some (bp1, p)" "same_setup bp bp1" using get_stage_returns(2) [OF assms(1)] by blast
  obtain bp2 d where d: "get_decode bp1 = Some (bp2, d)" "same_setup bp1 bp2"
    using get_stage_returns(3) [of bp1] p(2) assms(2) by (auto simp: same_setup_def)
  obtain bp3 d' where d': "get_decode bp = Some (bp3, d')" "same_setup bp bp3" using get_stage_returns(3) [OF assms(2)] by blast
  have "same_setup bp bp2" "same_setup bp bp" using p(2) d(2) by (auto simp: same_setup_def)
  then show ?thesis using p d d' by (cases p; cases d) (simp_all add: pdDisaggLocalGet_def)
qed

lemma localGet_returns:
  assumes "cb_wf bp"
  shows "\<exists>bp' r. localGet rc bp = Some (bp', r) \<and> cb_wf bp' \<and> same_setup bp bp'"
proof -
  have "\<exists>bp' r. localGet rc bp = Some (bp', r) \<and> same_setup bp bp'"
    using assms get_stage_returns(1) [of bp] pdDisaggLocalGet_returns [of bp rc]
    by (cases "cb_balanceMode bp") (simp_all add: localGet_def cb_wf_def)
  then show ?thesis using assms same_setup_wf by blast
qed

text \<open>What the composite balancer is to answer: the scheduler's answer if it is to be asked and is ready,
  otherwise the local one.\<close>

definition asks_scheduler :: "RequestContext \<Rightarrow> CompositeBalancer \<Rightarrow> bool" where
  "asks_scheduler rc bp \<longleftrightarrow> \<not> rc_NotNeedScheduling rc \<and> cb_balanceMode bp \<in> {RemoteBalancer, PDRemoteBalancer}"


subsection \<open>Witnesses\<close>

definition ex_instance :: "string \<Rightarrow> InferType \<Rightarrow> LLMInstance" where
  "ex_instance i t = \<lparr>li_Version = 1, li_ID = i, li_Model = ''m'', li_InferType = t,
     li_Endpoint = \<lparr>ep_Host = ''h'', ep_Port = 80\<rparr>, li_AuxIp = [], li_AuxPort = 0, li_DPRank = 0, li_DPSize = 0\<rparr>"

definition ex_rr :: RoundRobinBalancer where
  "ex_rr = rr_del [ex_instance ''b'' ''neutral'']
     (rr_add (map (\<lambda>i. ex_instance i ''neutral'') [''a'', ''b'', ''c'', ''d'']) (the (NewRoundRobinBalancer True)))"


text \<open>A world that is just a clock, and a scheduler that is always busy.\<close>

definition ex_net :: "int net" where
  "ex_net = \<lparr>nt_ready = (\<lambda>_. True), nt_local = (\<lambda>_. \<lparr>ep_Host = ''g'', ep_Port = 1\<rparr>), nt_remote = (\<lambda>_. \<lparr>ep_Host = ''s'', ep_Port = 2\<rparr>),
     nt_Do = (\<lambda>url auth data w. (w + 1, [], Some (429, Some []))), nt_now = (\<lambda>w. w), nt_sleep = (\<lambda>d w. w + d),
     nt_marshal = (\<lambda>_. Some []), nt_unmarshal = (\<lambda>_. None)\<rparr>"

definition ex_config :: "string \<Rightarrow> string \<Rightarrow> GatewayConfig" where
  "ex_config pd policy = \<lparr>gc_PDDisaggProtocol = pd, gc_SchedulingPolicy = policy, gc_SeparatePDScheduling = False,
     gc_EnableFullModeScheduling = False, gc_RequestStateReportInterval = 1, gc_ServiceToken = [],
     gc_WaitSchedulingTimeout = 5, gc_WaitSchedulingRetryInterval = 2, gc_ForwardTokens = True, gc_RetryMaxCount = 2\<rparr>"

definition ex_completion :: CompletionRequest where
  "ex_completion = \<lparr>cr_Id = ''r1'', cr_Rid = [], cr_Model = ''m'', cr_Prompt = PTokens [1, 2, 3], cr_MaxTokens = None, cr_N = 1,
     cr_FrequencyPenalty = Fin 0, cr_PresencePenalty = Fin 0, cr_Seed = None, cr_Stop = [], cr_Stream = True, cr_StreamOptions = None,
     cr_Temperature = None, cr_TopP = Fin 0, cr_User = [], cr_KvTransferParams = None, cr_BootStrapHost = [], cr_BootStrapRoom = []\<rparr>"

definition ex_llm :: LLMRequest where
  "ex_llm = \<lparr>lr_Model = ''m'', lr_RawData = [], lr_Protocol = OpenAICompletion, lr_ClientStream = True,
     lr_ChatCompletionRequest = None, lr_ChatCompletionResponse = None, lr_ChatCompletionStreamResponse = None,
     lr_CompletionRequest = Some ex_completion, lr_CompletionResponse = None, lr_ReasoningParser = None, lr_ToolParser = None,
     lr_BufferChatResp = None, lr_LastChatStreamResp = None, lr_BufferCompletionResponse = None\<rparr>"

definition ex_rc :: RequestContext where
  "ex_rc = \<lparr>rc_Id = ''r1'', rc_URL = ''/v1/completions'', rc_LLM = ex_llm,
     rc_Stats = \<lparr>rs_ITLs = 0, rs_InputTokensLen = 0, rs_OutputTokensLen = 0, rs_ReasoningTokensLen = 0, rs_MaxTokensLimit = 0,
       rs_HasToolCalls = False, rs_FallbackAttempt = 0, rs_RetryCount = 0, rs_FailedInstances = []\<rparr>,
     rc_SchedulingResults = [], rc_SchedulingMode = SchedulingModeNeutral, rc_SchedulingStage = SchedulingStagePrefill,
     rc_GatewayId = [], rc_NotNeedScheduling = False, rc_StatusCode = 0, rc_HeaderResponded = False, rc_HasTokenState = False,
     rc_ForwardSucceeded = False, rc_Sent = [], rc_Closed = False\<rparr>"


end
