(* ===== verification/Gateway_Forwarder.thy ===== *)
theory Gateway_Forwarder
  imports Gateway_Types Gateway_Balancer
begin

text \<open>
  Forwarding to inference engines: \<open>pkg/gateway/forwarder/*.go\<close>, with the decode-scheduling hook of
  \<open>pkg/gateway/service/gateway_service.go\<close>.

  The world \<open>'s\<close> is changed by HTTP exchanges and by the balancer, which is the Go interface: a pair of
  functions.  A forwarder's goroutine touches the request only before it sends its first chunk, so it
  runs to its end and returns the list of chunks.  The map of transfer parameters is shared between a
  completion request and its shallow copies; where the code writes through the copy, the model updates
  both.

  Lemmas: the SSE reader hands over every event whole and in order, whatever the buffer size; the
  connection is tried at most three times; the room number sent to a decode instance belongs to its
  data-parallel rank.
\<close>

subsection \<open>SSE reader\<close>

datatype sse_item = Event string | Failed gw_error

datatype read_result = ReadEOF | ReadErr gw_error | ShortBuffer nat | ReadData string

type_synonym SSEReader = "string option \<times> sse_item list"

definition deliver :: "nat \<Rightarrow> string \<Rightarrow> sse_item list \<Rightarrow> SSEReader \<times> read_result" where
  "deliver n d ch = (if n < length d then ((Some d, ch), ShortBuffer (length d)) else ((None, ch), ReadData d))"

definition sse_Read :: "nat \<Rightarrow> SSEReader \<Rightarrow> SSEReader \<times> read_result" where
  "sse_Read n = (\<lambda>(pending, ch).
     case pending of
       Some d \<Rightarrow> deliver n d ch
     | None \<Rightarrow> (case ch of
                  [] \<Rightarrow> ((None, ch), ReadEOF)
                | Failed e # ch' \<Rightarrow> ((None, ch'), ReadErr e)
                | Event d # ch' \<Rightarrow> deliver n d ch'))"

text \<open>Chunks sent and the error the read ended with.  A cancelled context and a read timeout are \<open>Failed\<close>
  items at the place where they hit.\<close>

function streamRead :: "nat \<Rightarrow> SSEReader \<Rightarrow> string list \<times> gw_error option" where
  "streamRead n s =
     (case sse_Read n s of
        (s, ReadEOF) \<Rightarrow> ([], None)
      | (s, ReadErr e) \<Rightarrow> ([], Some e)
      | (s, ShortBuffer m) \<Rightarrow> streamRead m s
      | (s, ReadData d) \<Rightarrow> (let (cs, e) = streamRead n s in (d # cs, e)))"
  by pat_completeness auto
termination
  by (relation "measures [\<lambda>(n, p, ch). 2 * length ch + (case p of None \<Rightarrow> 0 | Some _ \<Rightarrow> 1),
      \<lambda>(n, p, ch). case p of None \<Rightarrow> 0 | Some d \<Rightarrow> length d - n]")
    (auto simp: sse_Read_def deliver_def split: option.splits list.splits sse_item.splits if_splits)

declare streamRead.simps [simp del]

definition ReadBufferSize :: nat where "ReadBufferSize = 8192"

subsection \<open>Exchanges with a backend\<close>

record StreamChunk =
  sk_Err :: "gw_error option"
  sk_Data :: string

record http_body =
  hb_all :: "string option"
  hb_events :: "sse_item list"

datatype http_answer = DoFailed gw_error bool | Response i64 http_body

record 's fenv =
  fe_Do :: "string \<Rightarrow> string \<Rightarrow> 's \<Rightarrow> 's \<times> http_answer"
  fe_newRequest :: "string \<Rightarrow> gw_error option"
  fe_marshal :: "CompletionRequest option \<Rightarrow> string option"
  fe_unmarshal :: "string \<Rightarrow> CompletionResponse option"
  fe_Intn :: "'s \<Rightarrow> 's \<times> i64"
  fe_prefillFails :: "'s \<Rightarrow> bool"

definition connectRetry :: nat where "connectRetry = 2"

fun do_tries :: "'s fenv \<Rightarrow> string \<Rightarrow> string \<Rightarrow> nat \<Rightarrow> 's \<Rightarrow> 's \<times> (gw_error + i64 \<times> http_body)" where
  "do_tries fe url body retries w =
     (case fe_Do fe url body w of
        (w, Response code b) \<Rightarrow> (w, Inr (code, b))
      | (w, DoFailed err timeout) \<Rightarrow>
          if timeout then (w, Inl (NetworkError url (Some err) []))
          else (case retries of 0 \<Rightarrow> (w, Inl (NetworkError url (Some err) [])) | Suc r \<Rightarrow> do_tries fe url body r w))"

declare do_tries.simps [simp del]

definition doRequest :: "'s fenv \<Rightarrow> string \<Rightarrow> string \<Rightarrow> 's \<Rightarrow> 's \<times> (gw_error + http_body)" where
  "doRequest fe url body w =
     (case do_tries fe url body connectRetry w of
        (w, Inl err) \<Rightarrow> (w, Inl err)
      | (w, Inr (code, b)) \<Rightarrow>
          if code \<noteq> 200 then (w, Inl (UpstreamError code (case hb_all b of None \<Rightarrow> [] | Some s \<Rightarrow> s) url [])) else (w, Inr b))"

definition backend_url :: "LLMInstance \<Rightarrow> string" where
  "backend_url inst = ''http://'' @ Endpoint_String (li_Endpoint inst) @ ''/v1/completions''"

definition backend_request :: "'s fenv \<Rightarrow> LLMInstance \<Rightarrow> string \<Rightarrow> 's \<Rightarrow> 's \<times> (gw_error + http_body)" where
  "backend_request fe inst body w =
     (case fe_newRequest fe (backend_url inst) of
        Some err \<Rightarrow> (w, Inl err)
      | None \<Rightarrow> doRequest fe (backend_url inst) body w)"

definition error_chunk :: "gw_error \<Rightarrow> StreamChunk list" where
  "error_chunk err = [\<lparr>sk_Err = Some err, sk_Data = []\<rparr>]"

definition stream_chunks :: "http_body \<Rightarrow> StreamChunk list" where
  "stream_chunks b =
     (let (ds, e) = streamRead ReadBufferSize (None, hb_events b)
      in map (\<lambda>d. \<lparr>sk_Err = None, sk_Data = d\<rparr>) ds @ (case e of None \<Rightarrow> [] | Some err \<Rightarrow> error_chunk err))"

definition streamBackendResponse :: "'s fenv \<Rightarrow> string \<Rightarrow> LLMInstance \<Rightarrow> 's \<Rightarrow> 's \<times> StreamChunk list" where
  "streamBackendResponse fe body inst w =
     (case backend_request fe inst body w of
        (w, Inl err) \<Rightarrow> (w, error_chunk err)
      | (w, Inr b) \<Rightarrow> (w, stream_chunks b))"

definition marshal_err :: gw_error where
  "marshal_err = Errorf ''json''"

subsection \<open>Scheduling the decode stage\<close>

text \<open>\<open>Get\<close> gives back what it leaves in the request's \<open>GatewayId\<close>, the only field it writes
  (lemma \<open>cb_Get_writes\<close>).\<close>

record 's Balancer =
  bl_Get :: "RequestContext \<Rightarrow> 's \<Rightarrow> ('s \<times> string \<times> (gw_error + SchedulingResult)) option"
  bl_Release :: "RequestContext \<Rightarrow> LLMInstance \<Rightarrow> 's \<Rightarrow> 's"

definition balancer_Get :: "'s Balancer \<Rightarrow> RequestContext \<Rightarrow> 's \<Rightarrow> ('s \<times> RequestContext \<times> (gw_error + SchedulingResult)) option" where
  "balancer_Get bl rc w = map_option (\<lambda>(w, g, r). (w, rc\<lparr>rc_GatewayId := g\<rparr>, r)) (bl_Get bl rc w)"

definition composite_balancer :: "'w net \<Rightarrow> (CompositeBalancer \<times> 'w) Balancer" where
  "composite_balancer net =
     \<lparr>bl_Get = \<lambda>rc (bp, w). map_option (\<lambda>(bp, w, rc, r). ((bp, w), rc_GatewayId rc, r)) (cb_Get net rc bp w),
      bl_Release = \<lambda>rc inst (bp, w). (bp, cb_Release net rc inst bp w)\<rparr>"

definition ScheduleDecode ::
  "'s Balancer \<Rightarrow> RequestContext \<Rightarrow> 's \<Rightarrow> ('s \<times> RequestContext \<times> (gw_error + SchedulingResult)) option" where
  "ScheduleDecode bl rc w =
     (if rc_SchedulingMode rc \<noteq> SchedulingModePDStaged then Some (w, rc, Inl (Errorf ''not in staged scheduling mode''))
      else do { (w, rc, r) \<leftarrow> balancer_Get bl (rc\<lparr>rc_SchedulingStage := SchedulingStageDecode\<rparr>) w;
                Some (case r of
                        Inl err \<Rightarrow> (w, rc, Inl err)
                      | Inr results \<Rightarrow> (w, rc\<lparr>rc_SchedulingResults := rc_SchedulingResults rc @ results\<rparr>, Inr results)) })"

subsection \<open>Forwarders\<close>

type_synonym 's forwarded = "('s \<times> RequestContext \<times> (gw_error + StreamChunk list)) option"

definition with_completion :: "(CompletionRequest \<Rightarrow> CompletionRequest) \<Rightarrow> RequestContext \<Rightarrow> RequestContext" where
  "with_completion f rc = on_llm (\<lambda>r. r\<lparr>lr_CompletionRequest := map_option f (lr_CompletionRequest r)\<rparr>) rc"

definition neutral_Forward :: "'s fenv \<Rightarrow> RequestContext \<Rightarrow> 's \<Rightarrow> 's forwarded" where
  "neutral_Forward fe rc w =
     (case GetInstanceByInferType (rc_SchedulingResults rc) InferTypeNeutral of
        None \<Rightarrow> Some (w, rc, Inl (Errorf ''no available instance for infer type: neutral''))
      | Some inst \<Rightarrow>
          Some (case fe_marshal fe (lr_CompletionRequest (rc_LLM rc)) of
                  None \<Rightarrow> (w, rc, Inr (error_chunk marshal_err))
                | Some body \<Rightarrow> (let (w, cs) = streamBackendResponse fe body inst w in (w, rc, Inr cs))))"

text \<open>\<open>prefill\<close> and \<open>decode\<close> are the engine-specific stages.\<close>

definition stagedSchedulingForward ::
  "'s Balancer \<Rightarrow> (RequestContext \<Rightarrow> LLMInstance \<Rightarrow> 's \<Rightarrow> ('s \<times> RequestContext \<times> gw_error option) option) \<Rightarrow>
   (RequestContext \<Rightarrow> LLMInstance \<Rightarrow> LLMInstance \<Rightarrow> 's \<Rightarrow> ('s \<times> RequestContext \<times> StreamChunk list) option) \<Rightarrow>
   RequestContext \<Rightarrow> 's \<Rightarrow> 's forwarded" where
  "stagedSchedulingForward bl prefill decode rc w =
     (case GetInstanceByInferType (rc_SchedulingResults rc) InferTypePrefill of
        None \<Rightarrow> Some (w, rc, Inl (Errorf ''no scheduled prefill instance''))
      | Some p \<Rightarrow>
          do { (w, rc, e) \<leftarrow> prefill rc p w;
               case e of
                 Some err \<Rightarrow> Some (w, rc, Inr (error_chunk err))
               | None \<Rightarrow>
                   do { (w, rc, r) \<leftarrow> ScheduleDecode bl rc w;
                        case r of
                          Inl err \<Rightarrow> Some (w, rc, Inr (error_chunk err))
                        | Inr results \<Rightarrow>
                            (case GetInstanceByInferType results InferTypeDecode of
                               None \<Rightarrow> Some (w, rc, Inr (error_chunk (Errorf ''decode instance not found'')))
                             | Some d \<Rightarrow> do { (w, rc, cs) \<leftarrow> decode rc p d w; Some (w, rc, Inr cs) }) } })"

definition batch_instances :: "RequestContext \<Rightarrow> gw_error + LLMInstance \<times> LLMInstance" where
  "batch_instances rc =
     (case GetInstanceByInferType (rc_SchedulingResults rc) InferTypePrefill of
        None \<Rightarrow> Inl (Errorf ''no scheduled prefill instance'')
      | Some p \<Rightarrow> (case GetInstanceByInferType (rc_SchedulingResults rc) InferTypeDecode of
                     None \<Rightarrow> Inl (Errorf ''no scheduled decode instance'')
                   | Some d \<Rightarrow> Inr (p, d)))"

subsubsection \<open>vLLM with KV transfer\<close>

definition buildTransferParams :: "SchedulingMode \<Rightarrow> LLMInstance \<Rightarrow> (string, json_value) gmap" where
  "buildTransferParams mode p =
     (let m = mput ''remote_port'' (JInt (li_AuxPort p)) (mput ''remote_host'' (JString (li_AuxIp p)) [])
      in if mode = SchedulingModePDStaged then mput ''do_remote_prefill'' (JBool True) m else m)"

definition kvt_batchForward :: "'s fenv \<Rightarrow> RequestContext \<Rightarrow> 's \<Rightarrow> 's forwarded" where
  "kvt_batchForward fe rc w =
     (case batch_instances rc of
        Inl err \<Rightarrow> Some (w, rc, Inl err)
      | Inr (p, d) \<Rightarrow>
          do { let rc = with_completion (\<lambda>c. c\<lparr>cr_KvTransferParams := Some (buildTransferParams SchedulingModePDBatch p)\<rparr>) rc;
               c \<leftarrow> lr_CompletionRequest (rc_LLM rc);
               Some (case fe_marshal fe (Some c) of
                       None \<Rightarrow> (w, rc, Inr (error_chunk marshal_err))
                     | Some body \<Rightarrow> (let (w, cs) = streamBackendResponse fe body d w in (w, rc, Inr cs))) })"

text \<open>The request kept and the copy sent.  A map that exists already is shared by both.\<close>

definition kvt_prefill_copy :: "CompletionRequest \<Rightarrow> CompletionRequest \<times> CompletionRequest" where
  "kvt_prefill_copy c =
     (let copy = c\<lparr>cr_MaxTokens := Some 1\<rparr>
      in case cr_KvTransferParams c of
           None \<Rightarrow> (c, copy\<lparr>cr_KvTransferParams := Some (mput ''do_remote_decode'' (JBool True) [])\<rparr>)
         | Some m \<Rightarrow> let m = mput ''do_remote_decode'' (JBool True) m
                     in (c\<lparr>cr_KvTransferParams := Some m\<rparr>, copy\<lparr>cr_KvTransferParams := Some m\<rparr>))"

definition kvt_doPrefill :: "'s fenv \<Rightarrow> RequestContext \<Rightarrow> LLMInstance \<Rightarrow> 's \<Rightarrow> ('s \<times> RequestContext \<times> gw_error option) option" where
  "kvt_doPrefill fe rc p w =
     do { c \<leftarrow> lr_CompletionRequest (rc_LLM rc);
          let (c, copy) = kvt_prefill_copy c;
          let rc = with_completion (\<lambda>_. c) rc;
          Some (case fe_marshal fe (Some copy) of
                  None \<Rightarrow> (w, rc, Some marshal_err)
                | Some data \<Rightarrow>
                    (case backend_request fe p data w of
                       (w, Inl err) \<Rightarrow> (w, rc, Some err)
                     | (w, Inr b) \<Rightarrow> (w, rc, if hb_all b = None then Some (Errorf ''read'') else None))) }"

definition kvt_decode_request :: "LLMInstance \<Rightarrow> CompletionRequest \<Rightarrow> CompletionRequest" where
  "kvt_decode_request p c =
     (let m = (case cr_KvTransferParams c of None \<Rightarrow> [] | Some m \<Rightarrow> m);
          m = mput ''remote_host'' (JString (li_AuxIp p)) m;
          m = mput ''remote_port'' (JInt (li_AuxPort p)) m;
          m = mput ''do_remote_prefill'' (JBool True) m
      in c\<lparr>cr_KvTransferParams := Some m\<rparr>)"

definition kvt_doDecode ::
  "'s fenv \<Rightarrow> RequestContext \<Rightarrow> LLMInstance \<Rightarrow> LLMInstance \<Rightarrow> 's \<Rightarrow> ('s \<times> RequestContext \<times> StreamChunk list) option" where
  "kvt_doDecode fe rc p d w =
     do { let rc = with_completion (kvt_decode_request p) rc;
          c \<leftarrow> lr_CompletionRequest (rc_LLM rc);
          Some (case fe_marshal fe (Some c) of
                  None \<Rightarrow> (w, rc, error_chunk marshal_err)
                | Some data \<Rightarrow> (let (w, cs) = streamBackendResponse fe data d w in (w, rc, cs))) }"

subsubsection \<open>vLLM with Mooncake\<close>

definition mooncake_prefill_copy :: "CompletionRequest \<Rightarrow> CompletionRequest" where
  "mooncake_prefill_copy c = c\<lparr>cr_MaxTokens := Some 1, cr_Stream := False, cr_StreamOptions := None,
     cr_KvTransferParams := Some [(''do_remote_decode'', JBool True), (''do_remote_prefill'', JBool False), (''remote_engine_id'', JNull),
       (''remote_block_ids'', JNull), (''remote_host'', JNull), (''remote_port'', JNull)]\<rparr>"

definition mooncake_doPrefill :: "'s fenv \<Rightarrow> RequestContext \<Rightarrow> LLMInstance \<Rightarrow> 's \<Rightarrow> ('s \<times> RequestContext \<times> gw_error option) option" where
  "mooncake_doPrefill fe rc p w =
     do { c \<leftarrow> lr_CompletionRequest (rc_LLM rc);
          Some (case fe_marshal fe (Some (mooncake_prefill_copy c)) of
                  None \<Rightarrow> (w, rc, Some marshal_err)
                | Some data \<Rightarrow>
                    (case backend_request fe p data w of
                       (w, Inl err) \<Rightarrow> (w, rc, Some err)
                     | (w, Inr b) \<Rightarrow>
                         (case hb_all b of
                            None \<Rightarrow> (w, rc, Some (Errorf ''read''))
                          | Some s \<Rightarrow>
                              (case fe_unmarshal fe s of
                                 None \<Rightarrow> (w, rc, Some marshal_err)
                               | Some resp \<Rightarrow>
                                   (w, with_completion (\<lambda>c. c\<lparr>cr_KvTransferParams := cp_KvTransferParams resp\<rparr>) rc, None))))) }"

definition mooncake_doDecode :: "'s fenv \<Rightarrow> RequestContext \<Rightarrow> LLMInstance \<Rightarrow> 's \<Rightarrow> 's \<times> RequestContext \<times> StreamChunk list" where
  "mooncake_doDecode fe rc d w =
     (case fe_marshal fe (lr_CompletionRequest (rc_LLM rc)) of
        None \<Rightarrow> (w, rc, error_chunk marshal_err)
      | Some data \<Rightarrow> (let (w, cs) = streamBackendResponse fe data d w in (w, rc, cs)))"

definition mooncake_batchForward :: "'s fenv \<Rightarrow> RequestContext \<Rightarrow> 's \<Rightarrow> 's forwarded" where
  "mooncake_batchForward fe rc w =
     (case batch_instances rc of
        Inl err \<Rightarrow> Some (w, rc, Inl err)
      | Inr (p, d) \<Rightarrow>
          do { (w, rc, e) \<leftarrow> mooncake_doPrefill fe rc p w;
               case e of
                 Some err \<Rightarrow> Some (w, rc, Inr (error_chunk err))
               | None \<Rightarrow> (let (w, rc, cs) = mooncake_doDecode fe rc d w in Some (w, rc, Inr cs)) })"

subsubsection \<open>SGLang with Mooncake\<close>

text \<open>Go's integer division truncates and panics on zero; the random number is not negative.\<close>

definition bootstrap_room :: "i64 \<Rightarrow> i64 \<Rightarrow> i64 \<Rightarrow> i64 option" where
  "bootstrap_room r dpSize dpRank =
     (if dpSize = 0 then None
      else Some (word_of_int ((let q = \<bar>sint r\<bar> div \<bar>sint dpSize\<bar> in if (sint r < 0) = (sint dpSize < 0) then q else - q) * sint dpSize) + dpRank))"

text \<open>Both instances are asked at once; if both fail, the error that comes first is reported.\<close>

definition sgl_Forward :: "'s fenv \<Rightarrow> RequestContext \<Rightarrow> 's \<Rightarrow> 's forwarded" where
  "sgl_Forward fe rc w =
     (case batch_instances rc of
        Inl err \<Rightarrow> Some (w, rc, Inl err)
      | Inr (p, d) \<Rightarrow>
          do { let (w, r) = fe_Intn fe w;
               room \<leftarrow> bootstrap_room r (li_DPSize d) (li_DPRank d);
               let rc = with_completion (\<lambda>c. c\<lparr>cr_Rid := rc_Id rc, cr_BootStrapHost := ep_Host (li_Endpoint p),
                          cr_BootStrapRoom := show_int (sint room)\<rparr>) rc;
               c \<leftarrow> lr_CompletionRequest (rc_LLM rc);
               Some (case fe_marshal fe (Some c) of
                       None \<Rightarrow> (w, rc, Inr (error_chunk marshal_err))
                     | Some body \<Rightarrow>
                         let prefillFirst = fe_prefillFails fe w;
                             (w, rp) = backend_request fe p body w;
                             (w, rd) = backend_request fe d body w
                         in case (rp, rd) of
                              (Inr _, Inr b) \<Rightarrow> (w, rc, Inr (stream_chunks b))
                            | (Inl e, Inr _) \<Rightarrow> (w, rc, Inr (error_chunk e))
                            | (Inr _, Inl e) \<Rightarrow> (w, rc, Inr (error_chunk e))
                            | (Inl e, Inl e') \<Rightarrow> (w, rc, Inr (error_chunk (if prefillFirst then e else e')))) })"

subsubsection \<open>Building a forwarder\<close>

datatype Forwarder = NeutralForwarder | VllmKvt SchedulingMode | VllmMooncake SchedulingMode | SglMooncake SchedulingMode

definition BuildForwarder :: "string \<Rightarrow> SchedulingMode \<Rightarrow> gw_error + Forwarder" where
  "BuildForwarder name mode =
     (if name = ''neutral'' then Inr NeutralForwarder
      else if name = ''vllm-kvt'' then
        (if mode \<noteq> SchedulingModePDBatch \<and> mode \<noteq> SchedulingModePDStaged then Inl (Errorf ''unsupported scheduling mode'') else Inr (VllmKvt mode))
      else if name = ''vllm-mooncake'' then
        (if mode \<noteq> SchedulingModePDBatch \<and> mode \<noteq> SchedulingModePDStaged then Inl (Errorf ''unsupported scheduling mode'') else Inr (VllmMooncake mode))
      else if name = ''sglang-mooncake'' then
        (if mode \<noteq> SchedulingModePDBatch then Inl (Errorf ''unsupported scheduling mode'') else Inr (SglMooncake mode))
      else Inl (Errorf (''unknown forwarder type: '' @ name)))"

definition Forward :: "'s fenv \<Rightarrow> 's Balancer \<Rightarrow> Forwarder \<Rightarrow> RequestContext \<Rightarrow> 's \<Rightarrow> 's forwarded" where
  "Forward fe bl f rc w =
     (case f of
        NeutralForwarder \<Rightarrow> neutral_Forward fe rc w
      | VllmKvt mode \<Rightarrow>
          if mode = SchedulingModePDBatch then kvt_batchForward fe rc w
          else if mode = SchedulingModePDStaged then stagedSchedulingForward bl (kvt_doPrefill fe) (kvt_doDecode fe) rc w
          else Some (w, rc, Inl (Errorf ''unsupported scheduling mode''))
      | VllmMooncake mode \<Rightarrow>
          if mode = SchedulingModePDBatch then mooncake_batchForward fe rc w
          else if mode = SchedulingModePDStaged
          then stagedSchedulingForward bl (mooncake_doPrefill fe) (\<lambda>rc p d w. Some (mooncake_doDecode fe rc d w)) rc w
          else Some (w, rc, Inl (Errorf ''unsupported scheduling mode''))
      | SglMooncake mode \<Rightarrow> sgl_Forward fe rc w)"

subsection \<open>What the reader hands over\<close>

fun delivered :: "sse_item list \<Rightarrow> string list \<times> gw_error option" where
  "delivered [] = ([], None)"
| "delivered (Failed e # ch) = ([], Some e)"
| "delivered (Event d # ch) = (let (ds, e) = delivered ch in (d # ds, e))"

lemma streamRead_pending:
  "streamRead n (Some d, ch) = (let (ds, e) = streamRead (max n (length d)) (None, ch) in (d # ds, e))"
proof -
  have fits: "streamRead m (Some d, ch) = (let (ds, e) = streamRead m (None, ch) in (d # ds, e))" if "length d \<le> m" for m
    using that by (subst streamRead.simps) (simp add: sse_Read_def deliver_def)
  show ?thesis
  proof (cases "n < length d")
    case True
    then have "streamRead n (Some d, ch) = streamRead (length d) (Some d, ch)"
      by (subst streamRead.simps) (simp add: sse_Read_def deliver_def)
    with True fits [of "length d"] show ?thesis by (simp add: max_def)
  next
    case False
    with fits [of n] show ?thesis by (simp add: max_def)
  qed
qed

lemma streamRead_delivered: "streamRead n (None, ch) = delivered ch"
proof (induction ch arbitrary: n)
  case Nil
  show ?case by (subst streamRead.simps) (simp add: sse_Read_def)
next
  case (Cons x ch)
  show ?case
  proof (cases x)
    case (Failed e)
    then show ?thesis by (subst streamRead.simps) (simp add: sse_Read_def)
  next
    case (Event d)
    have "streamRead n (None, Event d # ch) = streamRead n (Some d, ch)"
    proof (cases "n < length d")
      case True
      then show ?thesis using streamRead_pending [of n d ch] streamRead_pending [of "length d" d ch]
        by (subst streamRead.simps) (simp add: sse_Read_def deliver_def max_def)
    next
      case False
      then show ?thesis using streamRead_pending [of n d ch]
        by (subst streamRead.simps) (simp add: sse_Read_def deliver_def max_def)
    qed
    with Event Cons.IH show ?thesis by (simp add: streamRead_pending)
  qed
qed

text \<open>C20. The reader and the loop around it pass on every event of the stream whole and in order, up to the
  first failure and whatever the size of the buffer: a forwarder's chunks are exactly the events received,
  followed by one error chunk if the stream broke.\<close>

theorem stream_chunks_exact:
  "stream_chunks b = map (\<lambda>d. \<lparr>sk_Err = None, sk_Data = d\<rparr>) (fst (delivered (hb_events b))) @
     (case snd (delivered (hb_events b)) of None \<Rightarrow> [] | Some err \<Rightarrow> [\<lparr>sk_Err = Some err, sk_Data = []\<rparr>])
   \<and> streamRead n (None, hb_events b) = delivered (hb_events b)"
  by (simp add: stream_chunks_def streamRead_delivered error_chunk_def case_prod_beta split: option.split)

lemma do_tries_final:
  assumes "do_tries fe url body k w = (w', Inl err)"
  shows "\<exists>e. err = NetworkError url (Some e) []"
  using assms
proof (induction k arbitrary: w)
  case 0
  then show ?case by (subst (asm) do_tries.simps) (auto split: prod.splits http_answer.splits if_splits)
next
  case (Suc k)
  from Suc.prems show ?case by (subst (asm) do_tries.simps) (auto split: prod.splits http_answer.splits if_splits dest: Suc.IH)
qed

text \<open>An engine that always refuses is asked \<open>connectRetry + 1\<close> times.\<close>

lemma do_tries_count:
  assumes "\<And>w. \<exists>e. fe_Do fe url body w = (calls w, DoFailed e False)"
  shows "fst (do_tries fe url body k w) = (calls ^^ (k + 1)) w"
proof (induction k arbitrary: w)
  case 0
  from assms [of w] show ?case by (subst do_tries.simps) auto
next
  case (Suc k)
  from assms [of w] Suc [of "calls w"] show ?case by (subst do_tries.simps) (auto simp: funpow_swap1)
qed

lemma doRequest_error:
  assumes "doRequest fe url body w = (w', Inl err)"
  shows "(\<exists>e. err = NetworkError url (Some e) []) \<or> (\<exists>code s. code \<noteq> 200 \<and> err = UpstreamError code s url [])"
  using assms do_tries_final [of fe url body connectRetry w]
  by (auto simp: doRequest_def split: prod.splits sum.splits if_splits)

text \<open>No error of an exchange names the instance it failed on.\<close>

lemma doRequest_no_instance: "doRequest fe url body w = (w', Inl err) \<Longrightarrow> FailedInstanceID err = []"
  by (auto dest: doRequest_error)

text \<open>The prefill copy of a retried request carries the decode flags of the earlier attempt, since both
  share one map.\<close>

lemma kvt_retry_both_flags:
  assumes "kvt_prefill_copy (kvt_decode_request p c) = (c', copy)" "cr_KvTransferParams copy = Some m"
  shows "mget m ''do_remote_decode'' = Some (JBool True) \<and> mget m ''do_remote_prefill'' = Some (JBool True)"
  using assms by (auto simp: kvt_prefill_copy_def kvt_decode_request_def Let_def mget_mput)

lemma bootstrap_room_rank:
  assumes "bootstrap_room r dpSize dpRank = Some room" "0 \<le> sint r" "0 < sint dpSize" "0 \<le> sint dpRank" "sint dpRank < sint dpSize"
    "sint r + sint dpRank < 2 ^ 63"
  shows "sint room mod sint dpSize = sint dpRank"
proof -
  let ?q = "sint r div sint dpSize * sint dpSize"
  have b: "0 \<le> ?q" "?q \<le> sint r" using assms by (simp_all add: pos_imp_zdiv_nonneg_iff) (metis assms(3) div_mult_mod_eq less_eq_int_code(1) pos_mod_sign zle_add1_eq_le add_increasing2 le_add_same_cancel1)
  have "room = word_of_int (?q + sint dpRank)"
    using assms by (auto simp: bootstrap_room_def Let_def split: if_splits)
  then have "sint room = ?q + sint dpRank"
    using b assms by (simp only: sint_sbintrunc') (simp add: signed_take_bit_int_eq_self)
  with assms show ?thesis by simp
qed

subsection \<open>Getting instances writes only the gateway id\<close>

lemma gateway_kept: "\<exists>g. rc = rc\<lparr>rc_GatewayId := g\<rparr>" for rc :: RequestContext
  by (rule exI [of _ "rc_GatewayId rc"]) simp

lemma doSchedule_writes:
  assumes "doSchedule net cfg rc w = Some (w', rc', r)"
  shows "\<exists>g. rc' = rc\<lparr>rc_GatewayId := g\<rparr>"
proof (cases "nt_ready net w")
  case False
  with assms gateway_kept show ?thesis by (auto simp: doSchedule_def)
next
  case True
  with assms show ?thesis
    by (auto simp: doSchedule_def createSchedulingRequest_def Let_def split_beta split: bind_splits)
qed

lemma schedule_loop_writes:
  assumes "schedule_loop net cfg t rc w = Some x"
  shows "\<exists>g. fst (snd x) = rc\<lparr>rc_GatewayId := g\<rparr>"
proof (rule schedule_loop.raw_induct [OF _ assms])
  fix f net cfg t rc w x
  assume IH: "\<And>net cfg t rc w x. f net cfg t rc w = Some x \<Longrightarrow> \<exists>g. fst (snd x) = rc\<lparr>rc_GatewayId := g\<rparr>"
    and run: "do { (w, rc, r) \<leftarrow> doSchedule net cfg rc w;
          case r of
            Inr result \<Rightarrow> Some (w, rc, Inr result)
          | Inl err \<Rightarrow>
              if errors_Is err (Sentinel ErrorNoAvailableEndpoint) then
                (if gc_WaitSchedulingTimeout cfg < nt_now net w - t then Some (w, rc, Inl err)
                 else f net cfg t rc (nt_sleep net (gc_WaitSchedulingRetryInterval cfg) w))
              else Some (w, rc, Inl (Sentinel ErrorSchedulerNotReady)) } = Some x"
  from run obtain w1 rc1 r where d: "doSchedule net cfg rc w = Some (w1, rc1, r)" by (auto split: bind_splits)
  with doSchedule_writes [OF d] obtain g where g: "rc1 = rc\<lparr>rc_GatewayId := g\<rparr>" by blast
  from run d show "\<exists>g. fst (snd x) = rc\<lparr>rc_GatewayId := g\<rparr>"
    by (cases r) (auto simp: g split: if_splits dest!: IH)
qed

lemma cb_Get_writes:
  assumes "cb_Get net rc bp w = Some (bp', w', rc', r)"
  shows "rc' = rc\<lparr>rc_GatewayId := rc_GatewayId rc'\<rparr>"
proof -
  have sc: "\<exists>g. rc1 = rc\<lparr>rc_GatewayId := g\<rparr>" if "sc_Get net cfg rc w = Some (w1, rc1, r1)" for cfg w1 rc1 r1
    using that schedule_loop_writes [of net cfg _ rc w "(w1, rc1, r1)"] 
    by (auto simp: sc_Get_def Let_def split: if_splits intro: gateway_kept)
  have fb: "\<exists>g. rc' = rc\<lparr>rc_GatewayId := g\<rparr>" if "getWithFallback net rc bp w = Some (bp', w', rc', r)"
    using that sc by (auto simp: getWithFallback_def split: bind_splits sum.splits if_splits balanceMode.splits)
  show ?thesis
    using assms fb by (auto simp: cb_Get_def Let_def split: if_splits balanceMode.splits)
qed

end
