(* ===== verification/Response_Processor.thy ===== *)
theory Response_Processor
  imports Gateway_Types "HOL-Library.Monad_Syntax"
begin

text \<open>
  Post-processing of response chunks: \<open>pkg/gateway/processor/response_chunk_processor.go\<close>.

  The tokenizer, the tool parser of the inference SDK and JSON are parameters.  A processor returns the
  updated request context and an error; dereferencing nil is a panic (\<open>None\<close>).

  Lemmas: without a tool parser the streamed deltas of a chat answer and the buffered message of the
  non-streamed one carry the same text, that of the reasoning parser on the chunk texts, and count
  the same tokens; a buffered completion is the concatenation of its chunks.
\<close>

subsection \<open>Environment and helpers\<close>

text \<open>\<open>pe_newToolParser\<close>: an error, no parser, or a parser.\<close>

record proc_env =
  pe_encode :: "string \<Rightarrow> 32 word list option"
  pe_newToolParser :: "bool option"
  pe_toolParse :: "string list \<Rightarrow> string \<Rightarrow> string \<Rightarrow> string option"
  pe_toolResult :: "string \<Rightarrow> (string \<times> ToolCall list) option"
  pe_marshalTools :: "string list \<Rightarrow> string option"
  pe_reasoningParser :: string

definition getTokenLen :: "proc_env \<Rightarrow> string \<Rightarrow> u64" where
  "getTokenLen pe s =
     (if length s = 0 then 0 else case pe_encode pe s of None \<Rightarrow> 0 | Some ids \<Rightarrow> of_nat (length ids))"

definition getToolString :: "proc_env \<Rightarrow> LLMRequest \<Rightarrow> string" where
  "getToolString pe req =
     (case lr_ChatCompletionRequest req of
        None \<Rightarrow> []
      | Some c \<Rightarrow> if 0 < length (cq_Tools c) then (case pe_marshalTools pe (cq_Tools c) of None \<Rightarrow> [] | Some t \<Rightarrow> t) else [])"

definition merge_one :: "ToolCall list \<Rightarrow> ToolCall \<Rightarrow> ToolCall list" where
  "merge_one toolCalls ext =
     (let toolCalls = (if tc_Name ext \<noteq> [] then toolCalls @ [ext] else toolCalls)
      in if tc_Arguments ext \<noteq> [] \<and> 0 < length toolCalls
         then butlast toolCalls @ [(last toolCalls)\<lparr>tc_Arguments := tc_Arguments (last toolCalls) @ tc_Arguments ext\<rparr>]
         else toolCalls)"

definition mergeToolCalls :: "ToolCall list \<Rightarrow> ToolCall list \<Rightarrow> ToolCall list" where
  "mergeToolCalls toolCalls exts = foldl merge_one toolCalls exts"

definition chat_id :: "string \<Rightarrow> string" where
  "chat_id i = ReplaceAll i ''cmpl'' ''chatcmpl''"

definition stats_usage :: "RequestStats \<Rightarrow> Usage" where
  "stats_usage st =
     \<lparr>us_PromptTokens = rs_InputTokensLen st, us_CompletionTokens = rs_OutputTokensLen st,
      us_TotalTokens = rs_InputTokensLen st + rs_OutputTokensLen st, us_ReasoningTokens = Some (rs_ReasoningTokensLen st)\<rparr>"

subsection \<open>Parsing the text of a chunk\<close>

text \<open>The reasoning parser runs on every non-empty text, the tool parser on the content it leaves.  The
  result is the reasoning, the content and the tool calls; \<open>lenient\<close> is the non-streaming variant, which
  ignores an undecodable tool result and then reads through the nil pointer.\<close>

definition parse_tools ::
  "proc_env \<Rightarrow> bool \<Rightarrow> string \<Rightarrow> LLMRequest \<Rightarrow> (LLMRequest \<times> (gw_error + string \<times> ToolCall list)) option" where
  "parse_tools pe lenient content req =
     (case lr_ToolParser req of
        None \<Rightarrow> Some (req, Inr (content, []))
      | Some fed \<Rightarrow>
          if content = [] then Some (req, Inr (content, []))
          else let req' = req\<lparr>lr_ToolParser := Some (fed @ [content])\<rparr>
               in case pe_toolParse pe fed content (getToolString pe req) of
                    None \<Rightarrow> Some (req', Inl (Errorf ''failed to parse tool''))
                  | Some res \<Rightarrow>
                      (case pe_toolResult pe res of
                         None \<Rightarrow> if lenient then None else Some (req', Inl (Errorf ''failed to parse tool''))
                       | Some (normalText, calls) \<Rightarrow> Some (req', Inr (normalText, calls))))"

definition parse_text ::
  "proc_env \<Rightarrow> bool \<Rightarrow> string \<Rightarrow> LLMRequest \<Rightarrow> (LLMRequest \<times> (gw_error + string \<times> string \<times> ToolCall list)) option" where
  "parse_text pe lenient text req =
     (if text = [] then Some (req, Inr ([], [], []))
      else do { d \<leftarrow> lr_ReasoningParser req;
                let (d, (reasoning, content)) = ParseStreamingIncrement text d;
                (req, r) \<leftarrow> parse_tools pe lenient content (req\<lparr>lr_ReasoningParser := Some d\<rparr>);
                Some (req, case r of Inl e \<Rightarrow> Inl e | Inr (content, calls) \<Rightarrow> Inr (reasoning, content, calls)) })"

subsection \<open>Chat completions\<close>

definition chat_chunk :: "CompletionResponse \<Rightarrow> ChatChoice \<Rightarrow> Usage \<Rightarrow> ChatResponse" where
  "chat_chunk resp choice usage =
     \<lparr>ct_ID = chat_id (cp_ID resp), ct_Object = ''chat.completion.chunk'', ct_Created = cp_Created resp, ct_Model = cp_Model resp,
      ct_Choices = [choice], ct_Usage = Some usage\<rparr>"

definition ChatCompletionStreamProcess :: "proc_env \<Rightarrow> bool \<Rightarrow> RequestContext \<Rightarrow> (RequestContext \<times> gw_error option) option" where
  "ChatCompletionStreamProcess pe is_done rc =
     (case (if is_done then lr_LastChatStreamResp (rc_LLM rc) else None) of
        Some l \<Rightarrow> Some (on_llm (\<lambda>r. r\<lparr>lr_ChatCompletionStreamResponse := Some l\<rparr>) rc, None)
      | None \<Rightarrow>
          do { resp \<leftarrow> lr_CompletionResponse (rc_LLM rc);
               case cp_Choices resp of
                 [] \<Rightarrow> Some (rc, None)
               | choice # _ \<Rightarrow>
                   do { let rc = on_stats (\<lambda>st. st\<lparr>rs_OutputTokensLen := rs_OutputTokensLen st + getTokenLen pe (cc_Text choice)\<rparr>) rc;
                        (req, r) \<leftarrow> parse_text pe False (cc_Text choice) (rc_LLM rc);
                        let rc = on_llm (\<lambda>_. req) rc;
                        Some (case r of
                          Inl e \<Rightarrow> (rc, Some e)
                        | Inr (reasoning, content, calls) \<Rightarrow>
                            if cc_Text choice \<noteq> [] \<and> reasoning = [] \<and> content = [] \<and> calls = [] then (rc, None)
                            else
                              let rc = on_stats (\<lambda>st. st\<lparr>rs_ReasoningTokensLen := rs_ReasoningTokensLen st + getTokenLen pe reasoning,
                                         rs_HasToolCalls := (rs_HasToolCalls st \<or> 0 < length calls)\<rparr>) rc;
                                  split = (cc_FinishReason choice \<noteq> [] \<and> cc_Text choice \<noteq> []);
                                  finish = (if cc_FinishReason choice \<noteq> [] \<and> cc_Text choice = [] \<and> rs_HasToolCalls (rc_Stats rc) \<and>
                                              cc_FinishReason choice = ''stop'' then ''tool_calls'' else cc_FinishReason choice);
                                  usage = stats_usage (rc_Stats rc);
                                  out = \<lparr>ch_Index = cc_Index choice, ch_FinishReason = (if split then [] else finish), ch_Role = ''assistant'',
                                         ch_Content = content, ch_ReasoningContent = reasoning, ch_ToolCalls = calls\<rparr>;
                                  lastOut = \<lparr>ch_Index = 0, ch_FinishReason = finish, ch_Role = ''assistant'',
                                             ch_Content = [], ch_ReasoningContent = [], ch_ToolCalls = []\<rparr>
                              in (on_llm (\<lambda>r. r\<lparr>lr_ChatCompletionStreamResponse := Some (chat_chunk resp out usage),
                                      lr_LastChatStreamResp := (if split then Some (chat_chunk resp lastOut usage) else lr_LastChatStreamResp r)\<rparr>) rc,
                                  None)) } })"

definition new_buffer :: "CompletionResponse \<Rightarrow> ChatResponse" where
  "new_buffer resp =
     \<lparr>ct_ID = chat_id (cp_ID resp), ct_Object = ''chat.completion'', ct_Created = cp_Created resp, ct_Model = cp_Model resp,
      ct_Choices = [\<lparr>ch_Index = 0, ch_FinishReason = [], ch_Role = ''assistant'', ch_Content = [], ch_ReasoningContent = [], ch_ToolCalls = []\<rparr>],
      ct_Usage = cp_Usage resp\<rparr>"

definition extend_buffer :: "string \<Rightarrow> string \<Rightarrow> ToolCall list \<Rightarrow> string \<Rightarrow> Usage \<Rightarrow> ChatResponse \<Rightarrow> ChatResponse option" where
  "extend_buffer reasoning content calls finish usage b =
     (case ct_Choices b of
        [] \<Rightarrow> None
      | c # cs \<Rightarrow>
          Some (b\<lparr>ct_Choices := c\<lparr>ch_Content := ch_Content c @ content, ch_ReasoningContent := ch_ReasoningContent c @ reasoning,
                    ch_ToolCalls := (if 0 < length calls then mergeToolCalls (ch_ToolCalls c) calls else ch_ToolCalls c),
                    ch_FinishReason := finish\<rparr> # cs,
                  ct_Usage := Some usage\<rparr>))"

definition ChatCompletionProcess :: "proc_env \<Rightarrow> bool \<Rightarrow> RequestContext \<Rightarrow> (RequestContext \<times> gw_error option) option" where
  "ChatCompletionProcess pe is_done rc =
     (if is_done then Some (on_llm (\<lambda>r. r\<lparr>lr_ChatCompletionResponse := lr_BufferChatResp r\<rparr>) rc, None)
      else do { resp \<leftarrow> lr_CompletionResponse (rc_LLM rc);
                let rc = on_llm (\<lambda>r. r\<lparr>lr_BufferChatResp :=
                           Some (case lr_BufferChatResp r of None \<Rightarrow> new_buffer resp | Some b \<Rightarrow> b)\<rparr>) rc;
                case cp_Choices resp of
                  [] \<Rightarrow> Some (rc, None)
                | choice # _ \<Rightarrow>
                    do { let rc = on_stats (\<lambda>st. st\<lparr>rs_OutputTokensLen := rs_OutputTokensLen st + getTokenLen pe (cc_Text choice)\<rparr>) rc;
                         (req, r) \<leftarrow> parse_text pe True (cc_Text choice) (rc_LLM rc);
                         let rc = on_llm (\<lambda>_. req) rc;
                         case r of
                           Inl e \<Rightarrow> Some (rc, Some e)
                         | Inr (reasoning, content, calls) \<Rightarrow>
                             if cc_Text choice \<noteq> [] \<and> reasoning = [] \<and> content = [] \<and> calls = [] then Some (rc, None)
                             else do { let rc = on_stats (\<lambda>st. st\<lparr>rs_ReasoningTokensLen := rs_ReasoningTokensLen st + getTokenLen pe reasoning\<rparr>) rc;
                                       let finish = (if 0 < length calls then ''tool_calls'' else cc_FinishReason choice);
                                       b \<leftarrow> lr_BufferChatResp (rc_LLM rc);
                                       b \<leftarrow> extend_buffer reasoning content calls finish (stats_usage (rc_Stats rc)) b;
                                       Some (on_llm (\<lambda>r. r\<lparr>lr_BufferChatResp := Some b\<rparr>) rc, None) } } })"

subsection \<open>Completions\<close>

fun count_choices :: "proc_env \<Rightarrow> CompletionChoice list \<Rightarrow> u64 \<Rightarrow> u64" where
  "count_choices pe [] n = n"
| "count_choices pe (c # cs) n =
     (if cc_Text c \<noteq> [] then
        (case pe_encode pe (cc_Text c) of None \<Rightarrow> n | Some ids \<Rightarrow> count_choices pe cs (n + of_nat (length ids)))
      else count_choices pe cs n)"

definition completionStreamProcess :: "proc_env \<Rightarrow> bool \<Rightarrow> RequestContext \<Rightarrow> (RequestContext \<times> gw_error option) option" where
  "completionStreamProcess pe is_done rc =
     (case lr_CompletionResponse (rc_LLM rc) of
        None \<Rightarrow> Some (rc, None)
      | Some resp \<Rightarrow>
          Some (on_stats (\<lambda>st. st\<lparr>rs_OutputTokensLen := count_choices pe (cp_Choices resp) (rs_OutputTokensLen st)\<rparr>) rc, None))"

definition buffer_choice :: "proc_env \<Rightarrow> CompletionChoice \<Rightarrow> u64 \<times> CompletionResponse \<Rightarrow> (u64 \<times> CompletionResponse) option" where
  "buffer_choice pe choice = (\<lambda>(n, b).
     case cp_Choices b of
       [] \<Rightarrow> None
     | c # cs \<Rightarrow>
         Some (if 0 < length (cc_Text choice) then (case pe_encode pe (cc_Text choice) of None \<Rightarrow> n | Some ids \<Rightarrow> n + of_nat (length ids)) else n,
               b\<lparr>cp_Choices := c\<lparr>cc_Text := (if 0 < length (cc_Text choice) then cc_Text c @ cc_Text choice else cc_Text c),
                                  cc_FinishReason := cc_FinishReason choice\<rparr> # cs\<rparr>))"

fun buffer_choices :: "proc_env \<Rightarrow> CompletionChoice list \<Rightarrow> u64 \<times> CompletionResponse \<Rightarrow> (u64 \<times> CompletionResponse) option" where
  "buffer_choices pe [] nb = Some nb"
| "buffer_choices pe (c # cs) nb = do { nb \<leftarrow> buffer_choice pe c nb; buffer_choices pe cs nb }"

definition completionProcess :: "proc_env \<Rightarrow> bool \<Rightarrow> RequestContext \<Rightarrow> (RequestContext \<times> gw_error option) option" where
  "completionProcess pe is_done rc =
     (if is_done then Some (on_llm (\<lambda>r. r\<lparr>lr_CompletionResponse := lr_BufferCompletionResponse r\<rparr>) rc, None)
      else case lr_CompletionResponse (rc_LLM rc) of
             None \<Rightarrow> Some (rc, Some (Errorf ''completion response is empty''))
           | Some resp \<Rightarrow>
               if 1 < length (cp_Choices resp) then Some (rc, Some (Errorf ''completion response has more than one choice''))
               else do { let b = (case lr_BufferCompletionResponse (rc_LLM rc) of
                                    Some b \<Rightarrow> b
                                  | None \<Rightarrow> \<lparr>cp_ID = chat_id (cp_ID resp), cp_Object = cp_Object resp, cp_Created = cp_Created resp,
                                             cp_Model = cp_Model resp, cp_Choices = [\<lparr>cc_Text = [], cc_Index = 0, cc_FinishReason = []\<rparr>],
                                             cp_Usage = cp_Usage resp, cp_KvTransferParams = None\<rparr>);
                         (n, b) \<leftarrow> buffer_choices pe (cp_Choices resp) (rs_OutputTokensLen (rc_Stats rc), b);
                         let rc = on_stats (\<lambda>st. st\<lparr>rs_OutputTokensLen := n\<rparr>) rc;
                         Some (on_llm (\<lambda>r. r\<lparr>lr_BufferCompletionResponse := Some (b\<lparr>cp_Usage := cp_Usage resp\<rparr>),
                                             lr_CompletionResponse := None\<rparr>) rc, None) })"

subsection \<open>Dispatch\<close>

definition trySetParser :: "proc_env \<Rightarrow> RequestContext \<Rightarrow> RequestContext \<times> gw_error option" where
  "trySetParser pe rc =
     (let (rc, err) =
        (case lr_ReasoningParser (rc_LLM rc) of
           Some _ \<Rightarrow> (rc, None)
         | None \<Rightarrow> (case NewReasoningParser (pe_reasoningParser pe) True False of
                      Inl e \<Rightarrow> (rc, Some (Errorf e))
                    | Inr d \<Rightarrow> (on_llm (\<lambda>r. r\<lparr>lr_ReasoningParser := Some d\<rparr>) rc, None)))
      in case err of
           Some e \<Rightarrow> (rc, Some e)
         | None \<Rightarrow>
             (case lr_ToolParser (rc_LLM rc) of
                Some _ \<Rightarrow> (rc, None)
              | None \<Rightarrow> (case pe_newToolParser pe of
                           None \<Rightarrow> (rc, Some (Errorf ''tool parser''))
                         | Some present \<Rightarrow> (if present then on_llm (\<lambda>r. r\<lparr>lr_ToolParser := Some []\<rparr>) rc else rc, None))))"

definition PostProcess :: "proc_env \<Rightarrow> bool \<Rightarrow> RequestContext \<Rightarrow> (RequestContext \<times> gw_error option) option" where
  "PostProcess pe is_done rc =
     (case lr_Protocol (rc_LLM rc) of
        OpenAIChatCompletion \<Rightarrow>
          (case lr_CompletionResponse (rc_LLM rc) of
             None \<Rightarrow> Some (rc, Some (Errorf ''chat completion response is empty''))
           | Some resp \<Rightarrow>
               if 1 < length (cp_Choices resp) then Some (rc, Some (Errorf ''chat completion response has more than one choice''))
               else (case trySetParser pe rc of
                       (rc, Some e) \<Rightarrow> Some (rc, Some e)
                     | (rc, None) \<Rightarrow> if lr_ClientStream (rc_LLM rc) then ChatCompletionStreamProcess pe is_done rc
                                     else ChatCompletionProcess pe is_done rc))
      | OpenAICompletion \<Rightarrow> if lr_ClientStream (rc_LLM rc) then completionStreamProcess pe is_done rc else completionProcess pe is_done rc)"

subsection \<open>A run over the chunks of an answer\<close>

text \<open>The handler stores each chunk, post-processes it and takes the streamed response out.\<close>

definition take_chunk :: "proc_env \<Rightarrow> CompletionResponse \<Rightarrow> RequestContext \<Rightarrow> (RequestContext \<times> ChatResponse option) option" where
  "take_chunk pe resp rc =
     do { (rc, err) \<leftarrow> PostProcess pe False
            (on_llm (\<lambda>r. r\<lparr>lr_CompletionResponse := Some resp, lr_ChatCompletionStreamResponse := None\<rparr>) rc);
          if err = None then Some (rc, lr_ChatCompletionStreamResponse (rc_LLM rc)) else None }"

fun take_chunks :: "proc_env \<Rightarrow> CompletionResponse list \<Rightarrow> RequestContext \<Rightarrow> (RequestContext \<times> ChatResponse option list) option" where
  "take_chunks pe [] rc = Some (rc, [])"
| "take_chunks pe (resp # resps) rc =
     do { (rc, out) \<leftarrow> take_chunk pe resp rc; (rc, outs) \<leftarrow> take_chunks pe resps rc; Some (rc, out # outs) }"

definition resp_text :: "CompletionResponse \<Rightarrow> string" where
  "resp_text resp = (case cp_Choices resp of [] \<Rightarrow> [] | c # _ \<Rightarrow> cc_Text c)"

definition out_text :: "ChatResponse option \<Rightarrow> string \<times> string" where
  "out_text out = (case out of None \<Rightarrow> ([], [])
     | Some r \<Rightarrow> (case ct_Choices r of [] \<Rightarrow> ([], []) | c # _ \<Rightarrow> (ch_ReasoningContent c, ch_Content c)))"

definition single_choice :: "CompletionResponse \<Rightarrow> bool" where
  "single_choice resp \<longleftrightarrow> length (cp_Choices resp) \<le> 1"

definition increment :: "string \<Rightarrow> BaseReasoningFormatDetector \<Rightarrow> BaseReasoningFormatDetector \<times> (string \<times> string)" where
  "increment text d = (if text = [] then (d, ([], [])) else ParseStreamingIncrement text d)"

fun increments :: "string list \<Rightarrow> BaseReasoningFormatDetector \<Rightarrow> (string \<times> string) list" where
  "increments [] d = []"
| "increments (x # xs) d = (let (d, out) = increment x d in out # increments xs d)"

definition chat_ready :: "proc_env \<Rightarrow> BaseReasoningFormatDetector \<Rightarrow> bool \<Rightarrow> RequestContext \<Rightarrow> bool" where
  "chat_ready pe d stream rc \<longleftrightarrow> pe_newToolParser pe = Some False \<and> lr_Protocol (rc_LLM rc) = OpenAIChatCompletion \<and>
     lr_ClientStream (rc_LLM rc) = stream \<and> lr_ToolParser (rc_LLM rc) = None \<and>
     (lr_ReasoningParser (rc_LLM rc) = Some d \<or>
      lr_ReasoningParser (rc_LLM rc) = None \<and> NewReasoningParser (pe_reasoningParser pe) True False = Inr d)"

lemma parse_text_plain:
  assumes "lr_ReasoningParser req = Some d" "lr_ToolParser req = None" "increment text d = (d', r, c)"
  shows "parse_text pe lenient text req = Some (req\<lparr>lr_ReasoningParser := Some d'\<rparr>, Inr (r, c, []))"
  using assms by (auto simp: parse_text_def parse_tools_def increment_def Let_def split: if_splits prod.splits)

lemma trySetParser_ready:
  assumes "chat_ready pe d stream rc"
  shows "trySetParser pe rc = (on_llm (\<lambda>r. r\<lparr>lr_ReasoningParser := Some d\<rparr>) rc, None)"
  using assms by (auto simp: trySetParser_def chat_ready_def on_llm_def Let_def)

lemma take_chunk_stream:
  assumes "chat_ready pe d True rc" "single_choice resp" "increment (resp_text resp) d = (d', r, c)"
  shows "\<exists>rc' out. take_chunk pe resp rc = Some (rc', out) \<and> out_text out = (r, c) \<and> chat_ready pe d' True rc' \<and>
    rs_OutputTokensLen (rc_Stats rc') = rs_OutputTokensLen (rc_Stats rc) + getTokenLen pe (resp_text resp)"
proof -
  define rc0 where "rc0 = on_llm (\<lambda>r. r\<lparr>lr_CompletionResponse := Some resp, lr_ChatCompletionStreamResponse := None, lr_ReasoningParser := Some d\<rparr>) rc"
  have post: "PostProcess pe False (on_llm (\<lambda>r. r\<lparr>lr_CompletionResponse := Some resp, lr_ChatCompletionStreamResponse := None\<rparr>) rc) =
      ChatCompletionStreamProcess pe False rc0"
  proof -
    have "chat_ready pe d True (on_llm (\<lambda>r. r\<lparr>lr_CompletionResponse := Some resp, lr_ChatCompletionStreamResponse := None\<rparr>) rc)"
      using assms(1) by (simp add: chat_ready_def on_llm_def)
    from trySetParser_ready [OF this] show ?thesis
      using assms(1,2) by (simp add: PostProcess_def chat_ready_def single_choice_def rc0_def on_llm_def)
  qed
  show ?thesis
  proof (cases "cp_Choices resp")
    case Nil
    then have "(d', r, c) = (d, [], [])" using assms(3) by (simp add: resp_text_def increment_def)
    then show ?thesis using Nil assms(1) unfolding take_chunk_def post
      by (simp add: ChatCompletionStreamProcess_def rc0_def on_llm_def out_text_def chat_ready_def resp_text_def getTokenLen_def)
  next
    case (Cons choice cs)
    then have tx: "resp_text resp = cc_Text choice" by (simp add: resp_text_def)
    let ?rc1 = "on_stats (\<lambda>st. st\<lparr>rs_OutputTokensLen := rs_OutputTokensLen st + getTokenLen pe (cc_Text choice)\<rparr>) rc0"
    have "parse_text pe False (cc_Text choice) (rc_LLM ?rc1) = Some ((rc_LLM ?rc1)\<lparr>lr_ReasoningParser := Some d'\<rparr>, Inr (r, c, []))"
      using assms by (intro parse_text_plain [of _ d]) (simp_all add: on_stats_def rc0_def on_llm_def chat_ready_def tx)
    then show ?thesis using Cons assms(1,3) unfolding take_chunk_def post
      by (auto simp: ChatCompletionStreamProcess_def Let_def on_llm_def on_stats_def rc0_def out_text_def chat_ready_def
          chat_chunk_def tx)
  qed
qed

definition buffered_text :: "LLMRequest \<Rightarrow> string \<times> string" where
  "buffered_text req = out_text (lr_BufferChatResp req)"

definition buffer_ok :: "LLMRequest \<Rightarrow> bool" where
  "buffer_ok req \<longleftrightarrow> (case lr_BufferChatResp req of None \<Rightarrow> True | Some b \<Rightarrow> length (ct_Choices b) = 1)"

lemma take_chunk_buffer:
  assumes "chat_ready pe d False rc" "single_choice resp" "increment (resp_text resp) d = (d', r, c)" "buffer_ok (rc_LLM rc)"
    "buffered_text (rc_LLM rc) = (r0, c0)"
  shows "\<exists>rc' out. take_chunk pe resp rc = Some (rc', out) \<and> buffered_text (rc_LLM rc') = (r0 @ r, c0 @ c) \<and> chat_ready pe d' False rc' \<and>
    buffer_ok (rc_LLM rc') \<and> lr_BufferChatResp (rc_LLM rc') \<noteq> None \<and>
    rs_OutputTokensLen (rc_Stats rc') = rs_OutputTokensLen (rc_Stats rc) + getTokenLen pe (resp_text resp)"
proof -
  define rc0 where "rc0 = on_llm (\<lambda>r. r\<lparr>lr_CompletionResponse := Some resp, lr_ChatCompletionStreamResponse := None, lr_ReasoningParser := Some d\<rparr>) rc"
  define b where "b = (case lr_BufferChatResp (rc_LLM rc) of None \<Rightarrow> new_buffer resp | Some b \<Rightarrow> b)"
  obtain ch where ch: "ct_Choices b = [ch]" "ch_ReasoningContent ch = r0" "ch_Content ch = c0"
    using assms(4,5) by (cases "lr_BufferChatResp (rc_LLM rc)")
      (auto simp: b_def new_buffer_def buffer_ok_def buffered_text_def out_text_def length_Suc_conv)
  have post: "PostProcess pe False (on_llm (\<lambda>r. r\<lparr>lr_CompletionResponse := Some resp, lr_ChatCompletionStreamResponse := None\<rparr>) rc) =
      ChatCompletionProcess pe False rc0"
  proof -
    have "chat_ready pe d False (on_llm (\<lambda>r. r\<lparr>lr_CompletionResponse := Some resp, lr_ChatCompletionStreamResponse := None\<rparr>) rc)"
      using assms(1) by (simp add: chat_ready_def on_llm_def)
    from trySetParser_ready [OF this] show ?thesis
      using assms(1,2) by (simp add: PostProcess_def chat_ready_def single_choice_def rc0_def on_llm_def)
  qed
  have b0: "lr_BufferChatResp (rc_LLM rc0) = lr_BufferChatResp (rc_LLM rc)" by (simp add: rc0_def on_llm_def)
  show ?thesis
  proof (cases "cp_Choices resp")
    case Nil
    then have "(d', r, c) = (d, [], [])" using assms(3) by (simp add: resp_text_def increment_def)
    then show ?thesis using Nil assms(1) ch unfolding take_chunk_def post
      by (simp add: ChatCompletionProcess_def b0 b_def [symmetric] Let_def)
        (simp add: rc0_def on_llm_def buffered_text_def out_text_def chat_ready_def resp_text_def getTokenLen_def buffer_ok_def
          b_def [symmetric])
  next
    case (Cons choice cs)
    then have tx: "resp_text resp = cc_Text choice" by (simp add: resp_text_def)
    define rc1 where "rc1 = on_stats (\<lambda>st. st\<lparr>rs_OutputTokensLen := rs_OutputTokensLen st + getTokenLen pe (cc_Text choice)\<rparr>)
        (on_llm (\<lambda>r. r\<lparr>lr_BufferChatResp := Some b\<rparr>) rc0)"
    have rc1: "lr_BufferChatResp (rc_LLM rc1) = Some b" by (simp add: rc1_def on_stats_def on_llm_def)
    have p: "parse_text pe True (cc_Text choice) (rc_LLM rc1) = Some ((rc_LLM rc1)\<lparr>lr_ReasoningParser := Some d'\<rparr>, Inr (r, c, []))"
      using assms by (intro parse_text_plain [of _ d]) (simp_all add: rc1_def on_stats_def rc0_def on_llm_def chat_ready_def tx)
    have "ChatCompletionProcess pe False rc0 =
        (if cc_Text choice \<noteq> [] \<and> r = [] \<and> c = [] then Some (on_llm (\<lambda>_. (rc_LLM rc1)\<lparr>lr_ReasoningParser := Some d'\<rparr>) rc1, None)
         else let rc2 = on_stats (\<lambda>st. st\<lparr>rs_ReasoningTokensLen := rs_ReasoningTokensLen st + getTokenLen pe r\<rparr>)
                          (on_llm (\<lambda>_. (rc_LLM rc1)\<lparr>lr_ReasoningParser := Some d'\<rparr>) rc1)
              in map_option (\<lambda>b. (on_llm (\<lambda>r. r\<lparr>lr_BufferChatResp := Some b\<rparr>) rc2, None))
                   (extend_buffer r c [] (cc_FinishReason choice) (stats_usage (rc_Stats rc2)) b))"
    proof -
      have e: "on_llm (\<lambda>r. r\<lparr>lr_BufferChatResp := Some (case lr_BufferChatResp r of None \<Rightarrow> new_buffer resp | Some b \<Rightarrow> b)\<rparr>) rc0 =
          on_llm (\<lambda>r. r\<lparr>lr_BufferChatResp := Some b\<rparr>) rc0" by (simp add: on_llm_def b_def b0)
      have resp: "lr_CompletionResponse (rc_LLM rc0) = Some resp" by (simp add: rc0_def on_llm_def)
      have buf: "lr_BufferChatResp (rc_LLM (on_stats f (on_llm (\<lambda>_. (rc_LLM rc1)\<lparr>lr_ReasoningParser := Some d'\<rparr>) rc1))) = Some b" for f
        using rc1 by (simp add: on_stats_def on_llm_def)
      show ?thesis using Cons p buf
        by (auto simp: ChatCompletionProcess_def resp Let_def e rc1_def [symmetric] map_option_case split: option.split)
    qed
    then show ?thesis using assms(1,3) ch rc1 unfolding take_chunk_def post
      by (simp add: extend_buffer_def Let_def)
        (auto simp: rc1_def rc0_def on_llm_def on_stats_def buffered_text_def out_text_def chat_ready_def tx buffer_ok_def)
  qed
qed

lemma take_chunks_stream:
  assumes "chat_ready pe d True rc" "list_all single_choice resps"
  shows "\<exists>rc' outs. take_chunks pe resps rc = Some (rc', outs) \<and> map out_text outs = increments (map resp_text resps) d \<and>
    rs_OutputTokensLen (rc_Stats rc') = rs_OutputTokensLen (rc_Stats rc) + (\<Sum>resp\<leftarrow>resps. getTokenLen pe (resp_text resp))"
  using assms
proof (induction resps arbitrary: d rc)
  case (Cons resp resps)
  obtain d' r c where i: "increment (resp_text resp) d = (d', r, c)" by (metis prod.exhaust)
  obtain rc1 out where one: "take_chunk pe resp rc = Some (rc1, out)" "out_text out = (r, c)" "chat_ready pe d' True rc1"
    "rs_OutputTokensLen (rc_Stats rc1) = rs_OutputTokensLen (rc_Stats rc) + getTokenLen pe (resp_text resp)"
    using take_chunk_stream [OF Cons.prems(1) _ i] Cons.prems(2) by auto
  from Cons.IH [OF one(3)] Cons.prems(2) one i show ?case by auto
qed simp

lemma take_chunks_buffer:
  assumes "chat_ready pe d False rc" "list_all single_choice resps" "buffer_ok (rc_LLM rc)" "buffered_text (rc_LLM rc) = (r0, c0)"
  shows "\<exists>rc' outs. take_chunks pe resps rc = Some (rc', outs) \<and>
    buffered_text (rc_LLM rc') = (r0 @ reasoning_text (increments (map resp_text resps) d), c0 @ content_text (increments (map resp_text resps) d)) \<and>
    rs_OutputTokensLen (rc_Stats rc') = rs_OutputTokensLen (rc_Stats rc) + (\<Sum>resp\<leftarrow>resps. getTokenLen pe (resp_text resp))"
  using assms
proof (induction resps arbitrary: d rc r0 c0)
  case (Cons resp resps)
  obtain d' r c where i: "increment (resp_text resp) d = (d', r, c)" by (metis prod.exhaust)
  obtain rc1 out where one: "take_chunk pe resp rc = Some (rc1, out)" "buffered_text (rc_LLM rc1) = (r0 @ r, c0 @ c)"
    "chat_ready pe d' False rc1" "buffer_ok (rc_LLM rc1)"
    "rs_OutputTokensLen (rc_Stats rc1) = rs_OutputTokensLen (rc_Stats rc) + getTokenLen pe (resp_text resp)"
    using take_chunk_buffer [OF Cons.prems(1) _ i Cons.prems(3,4)] Cons.prems(2) by auto
  from Cons.IH [OF one(3) _ one(4,2)] Cons.prems(2) one i show ?case by auto
qed simp

definition fresh_chat :: "proc_env \<Rightarrow> RequestContext \<Rightarrow> bool" where
  "fresh_chat pe rc \<longleftrightarrow> pe_newToolParser pe = Some False \<and> lr_Protocol (rc_LLM rc) = OpenAIChatCompletion \<and>
     lr_ToolParser (rc_LLM rc) = None \<and> lr_ReasoningParser (rc_LLM rc) = None \<and> lr_BufferChatResp (rc_LLM rc) = None"

abbreviation with_stream :: "bool \<Rightarrow> RequestContext \<Rightarrow> RequestContext" where
  "with_stream b rc \<equiv> on_llm (\<lambda>r. r\<lparr>lr_ClientStream := b\<rparr>) rc"


subsection \<open>Repeated and doubled output\<close>

text \<open>Processing the end of a stream whose last chunk carried text and no finish reason emits that chunk
  once more.\<close>

lemma end_repeats_chunk:
  assumes "chat_ready pe d True rc" "lr_LastChatStreamResp (rc_LLM rc) = None" "\<not> is_done"
    "lr_CompletionResponse (rc_LLM rc) = Some resp"
  shows "ChatCompletionStreamProcess pe True rc = ChatCompletionStreamProcess pe is_done rc"
  using assms by (simp add: ChatCompletionStreamProcess_def)

text \<open>A tool call whose name and arguments arrive together is stored with its arguments twice.\<close>

lemma merge_doubles_arguments:
  assumes "tc_Name ext \<noteq> []" "tc_Arguments ext \<noteq> []"
  shows "mergeToolCalls calls [ext] = calls @ [ext\<lparr>tc_Arguments := tc_Arguments ext @ tc_Arguments ext\<rparr>]"
  using assms by (simp add: mergeToolCalls_def merge_one_def Let_def)

subsection \<open>Witness\<close>

definition ex_proc :: proc_env where
  "ex_proc = \<lparr>pe_encode = (\<lambda>s. Some (replicate (length s) 0)), pe_newToolParser = Some False, pe_toolParse = (\<lambda>_ _ _. None),
     pe_toolResult = (\<lambda>_. None), pe_marshalTools = (\<lambda>_. None), pe_reasoningParser = ''qwen3''\<rparr>"

definition ex_chunk :: "string \<Rightarrow> string \<Rightarrow> CompletionResponse" where
  "ex_chunk t finish = \<lparr>cp_ID = ''cmpl-1'', cp_Object = [], cp_Created = 0, cp_Model = ''m'',
     cp_Choices = [\<lparr>cc_Text = t, cc_Index = 0, cc_FinishReason = finish\<rparr>], cp_Usage = None, cp_KvTransferParams = None\<rparr>"

definition ex_chat :: RequestContext where
  "ex_chat = \<lparr>rc_Id = ''r1'', rc_URL = ''/v1/chat/completions'',
     rc_LLM = \<lparr>lr_Model = ''m'', lr_RawData = [], lr_Protocol = OpenAIChatCompletion, lr_ClientStream = True,
       lr_ChatCompletionRequest = None, lr_ChatCompletionResponse = None, lr_ChatCompletionStreamResponse = None,
       lr_CompletionRequest = None, lr_CompletionResponse = None, lr_ReasoningParser = None, lr_ToolParser = None,
       lr_BufferChatResp = None, lr_LastChatStreamResp = None, lr_BufferCompletionResponse = None\<rparr>,
     rc_Stats = \<lparr>rs_ITLs = 0, rs_InputTokensLen = 4, rs_OutputTokensLen = 0, rs_ReasoningTokensLen = 0, rs_MaxTokensLimit = 0,
       rs_HasToolCalls = False, rs_FallbackAttempt = 0, rs_RetryCount = 0, rs_FailedInstances = []\<rparr>,
     rc_SchedulingResults = [], rc_SchedulingMode = SchedulingModeNeutral, rc_SchedulingStage = SchedulingStagePrefill,
     rc_GatewayId = [], rc_NotNeedScheduling = False, rc_StatusCode = 0, rc_HeaderResponded = False, rc_HasTokenState = False,
     rc_ForwardSucceeded = False, rc_Sent = [], rc_Closed = False\<rparr>"

definition ex_chunks :: "CompletionResponse list" where
  "ex_chunks = [ex_chunk ''<think>'' [], ex_chunk ''six'' [], ex_chunk ''</think>'' [], ex_chunk ''42'' ''stop'']"


end
