(* ===== verification/Gateway_Handler.thy ===== *)
theory Gateway_Handler
  imports Gateway_Forwarder Response_Processor LRS_Client
begin

text \<open>
  Handling one request in the gateway: \<open>pkg/gateway/handler/openai_handler.go\<close>, the conversion of requests
  in \<open>pkg/gateway/processor/request_completion_convertor.go\<close>, and the request-state hooks of
  \<open>pkg/gateway/service/gateway_service.go\<close> with \<open>service/utils.go\<close>.

  The state of a request is its context, the world, the gateway's request-state tracker and the token
  state the request points to, with a flag telling whether the tracker holds that same object.  JSON,
  the tokenizer and the report to the scheduler are parameters.  A nil dereference is \<open>None\<close>; it happens
  in a goroutine that does not recover, so it ends the gateway.

  \<open>HeaderResponded\<close> is written by the goroutine that drains the response channel: it reads as true when
  it was set before, or when a streamed message has been sent and that goroutine has come to it
  (\<open>he_written\<close>).

  Lemmas: what a request conversion keeps; what each hook releases; the frame of the message loop.
\<close>

subsection \<open>Parsing and converting a request\<close>

record pre_env =
  pr_chat :: "string \<Rightarrow> ChatCompletionRequest option"
  pr_completion :: "string \<Rightarrow> CompletionRequest option"
  pr_encode :: "string \<Rightarrow> 32 word list option"
  pr_template :: "string \<Rightarrow> (u64 \<times> 32 word list) option"
  pr_modelMaxLen :: u64

definition IsChatCompletionsURL :: "string \<Rightarrow> bool" where
  "IsChatCompletionsURL url \<longleftrightarrow> HasSuffix url ''/chat/completions''"

definition IsCompletionsURL :: "string \<Rightarrow> bool" where
  "IsCompletionsURL url \<longleftrightarrow> HasSuffix url ''/completions''"

definition UnmarshalRequest :: "pre_env \<Rightarrow> (gw_error + string) \<Rightarrow> RequestContext \<Rightarrow> RequestContext \<times> gw_error option" where
  "UnmarshalRequest pr body rc =
     (case body of
        Inl err \<Rightarrow> (rc, Some err)
      | Inr data \<Rightarrow>
          let rc = on_llm (\<lambda>r. r\<lparr>lr_RawData := data\<rparr>) rc
          in if IsChatCompletionsURL (rc_URL rc) then
               (case pr_chat pr data of
                  None \<Rightarrow> (rc, Some (Errorf ''Invalid ChatCompletionRequest format''))
                | Some q \<Rightarrow> (on_llm (\<lambda>r. r\<lparr>lr_Model := cq_Model q, lr_Protocol := OpenAIChatCompletion, lr_ChatCompletionRequest := Some q\<rparr>) rc, None))
             else if IsCompletionsURL (rc_URL rc) then
               (case pr_completion pr data of
                  None \<Rightarrow> (rc, Some (Errorf ''Invalid CompletionRequest format''))
                | Some q \<Rightarrow> (on_llm (\<lambda>r. r\<lparr>lr_Model := cr_Model q, lr_Protocol := OpenAICompletion, lr_CompletionRequest := Some q\<rparr>) rc, None))
             else (rc, Some (Errorf ''Invalid ChatCompletionRequest format'')))"

definition generateMaxTokens :: "pre_env \<Rightarrow> i64 \<Rightarrow> RequestStats \<Rightarrow> RequestStats" where
  "generateMaxTokens pr maxTokens st =
     st\<lparr>rs_MaxTokensLimit := (if maxTokens \<noteq> 0 then maxTokens else pr_modelMaxLen pr - rs_InputTokensLen st)\<rparr>"

fun encode_prompts :: "pre_env \<Rightarrow> string list \<Rightarrow> u64 \<Rightarrow> u64 \<times> 32 word list list option" where
  "encode_prompts pr [] n = (n, Some [])"
| "encode_prompts pr (p # ps) n =
     (case pr_encode pr p of
        None \<Rightarrow> (n, None)
      | Some ids \<Rightarrow> let (n, r) = encode_prompts pr ps (n + of_nat (length ids)) in (n, map_option (\<lambda>xs. ids # xs) r))"

definition chat_to_completion :: "RequestContext \<Rightarrow> ChatCompletionRequest \<Rightarrow> u64 \<Rightarrow> 32 word list \<Rightarrow> CompletionRequest" where
  "chat_to_completion rc q maxTokens ids =
     \<lparr>cr_Id = rc_Id rc, cr_Rid = [], cr_Model = cq_Model q, cr_Prompt = PTokens ids, cr_MaxTokens = Some maxTokens, cr_N = cq_N q,
      cr_FrequencyPenalty = cq_PresencePenalty q, cr_PresencePenalty = cq_PresencePenalty q, cr_Seed = cq_Seed q, cr_Stop = cq_Stop q,
      cr_Stream = True, cr_StreamOptions = Some (True, True), cr_Temperature = cq_Temperature q, cr_TopP = cq_TopP q, cr_User = cq_User q,
      cr_KvTransferParams = None, cr_BootStrapHost = [], cr_BootStrapRoom = []\<rparr>"

definition set_prompt :: "PromptValue \<Rightarrow> RequestContext \<Rightarrow> RequestContext" where
  "set_prompt v rc = with_completion (\<lambda>c. c\<lparr>cr_Prompt := v\<rparr>) rc"

definition PreProcess :: "pre_env \<Rightarrow> RequestContext \<Rightarrow> (RequestContext \<times> gw_error option) option" where
  "PreProcess pr rc =
     (case lr_Protocol (rc_LLM rc) of
        OpenAICompletion \<Rightarrow>
          do { c \<leftarrow> lr_CompletionRequest (rc_LLM rc);
               let rc = on_llm (\<lambda>r. r\<lparr>lr_ClientStream := cr_Stream c, lr_CompletionRequest := Some (c\<lparr>cr_Stream := True, cr_Id := rc_Id rc\<rparr>)\<rparr>) rc;
               Some (case cr_Prompt c of
                       PString prompt \<Rightarrow>
                         (case pr_encode pr prompt of
                            None \<Rightarrow> (rc, Some (Errorf ''tokenize prompt to ids failed''))
                          | Some ids \<Rightarrow> (on_stats (\<lambda>st. st\<lparr>rs_InputTokensLen := of_nat (length ids)\<rparr>) (set_prompt (PTokens ids) rc), None))
                     | PStrings prompts \<Rightarrow>
                         (let (n, r) = encode_prompts pr prompts (rs_InputTokensLen (rc_Stats rc));
                              rc = on_stats (\<lambda>st. st\<lparr>rs_InputTokensLen := n\<rparr>) rc
                          in case r of
                               None \<Rightarrow> (rc, Some (Errorf ''tokenize prompt to ids failed''))
                             | Some allIds \<Rightarrow> (set_prompt (PMatrix allIds) rc, None))
                     | PTokens tokens \<Rightarrow> (on_stats (\<lambda>st. st\<lparr>rs_InputTokensLen := of_nat (length tokens)\<rparr>) rc, None)
                     | PMatrix _ \<Rightarrow> (rc, None)
                     | PNil \<Rightarrow> (rc, None)) }
      | OpenAIChatCompletion \<Rightarrow>
          do { q \<leftarrow> lr_ChatCompletionRequest (rc_LLM rc);
               let rc = on_llm (\<lambda>r. r\<lparr>lr_ClientStream := cq_Stream q\<rparr>) rc;
               Some (case pr_template pr (lr_RawData (rc_LLM rc)) of
                       None \<Rightarrow> (rc, Some (Errorf ''failed to apply tokenizer template''))
                     | Some (n, ids) \<Rightarrow>
                         let rc = on_stats (\<lambda>st. generateMaxTokens pr (cq_MaxTokens q) (st\<lparr>rs_InputTokensLen := n\<rparr>)) rc;
                             maxTokens = rs_MaxTokensLimit (rc_Stats rc)
                         in (on_llm (\<lambda>r. r\<lparr>lr_CompletionRequest := Some (chat_to_completion rc q maxTokens ids)\<rparr>) rc, None)) })"

definition ParseRequest :: "pre_env \<Rightarrow> (gw_error + string) \<Rightarrow> RequestContext \<Rightarrow> (RequestContext \<times> gw_error option) option" where
  "ParseRequest pr body rc =
     (case UnmarshalRequest pr body rc of
        (rc, Some err) \<Rightarrow> Some (rc, Some err)
      | (rc, None) \<Rightarrow> PreProcess pr rc)"

subsection \<open>Responses\<close>

record 's henv =
  he_config :: GatewayConfig
  he_forwarder :: Forwarder
  he_fwd :: "'s fenv"
  he_balancer :: "'s Balancer"
  he_proc :: proc_env
  he_decode :: "string \<Rightarrow> CompletionResponse option"
  he_encodeChat :: "ChatResponse \<Rightarrow> string option"
  he_encodeCompletion :: "CompletionResponse \<Rightarrow> string option"
  he_report :: "RequestReportData list \<Rightarrow> 's \<Rightarrow> 's"
  he_written :: "'s \<Rightarrow> bool"

definition newOpenAIHandler :: "GatewayConfig \<Rightarrow> gw_error + Forwarder" where
  "newOpenAIHandler cfg =
     BuildForwarder (if gc_PDDisaggProtocol cfg = [] then ''neutral'' else gc_PDDisaggProtocol cfg)
       (if gc_SeparatePDScheduling cfg then SchedulingModePDStaged else SchedulingModePDBatch)"

definition parseResponse :: "'s henv \<Rightarrow> string \<Rightarrow> RequestContext \<Rightarrow> RequestContext \<times> gw_error option" where
  "parseResponse he data rc =
     (if data = ''[DONE]'' then (rc, Some IoEOF)
      else case he_decode he data of
             None \<Rightarrow> (rc, Some (Errorf ''failed to unmarshal response''))
           | Some resp \<Rightarrow> (on_llm (\<lambda>r. r\<lparr>lr_CompletionResponse := Some resp\<rparr>) rc, None))"

text \<open>The bytes to write, nil as the empty string; the response is cleared also when encoding fails.\<close>

definition marshalResponse :: "'s henv \<Rightarrow> RequestContext \<Rightarrow> RequestContext \<times> (gw_error + string)" where
  "marshalResponse he rc =
     (let r = rc_LLM rc;
          written = (\<lambda>e. case e of None \<Rightarrow> Inl marshal_err | Some s \<Rightarrow> Inr s)
      in case lr_Protocol r of
           OpenAIChatCompletion \<Rightarrow>
             if lr_ClientStream r then
               (case lr_ChatCompletionStreamResponse r of
                  None \<Rightarrow> (rc, Inr [])
                | Some x \<Rightarrow> (on_llm (\<lambda>r. r\<lparr>lr_ChatCompletionStreamResponse := None\<rparr>) rc, written (he_encodeChat he x)))
             else
               (case lr_ChatCompletionResponse r of
                  None \<Rightarrow> (rc, Inr [])
                | Some x \<Rightarrow> (on_llm (\<lambda>r. r\<lparr>lr_ChatCompletionResponse := None\<rparr>) rc, written (he_encodeChat he x)))
         | OpenAICompletion \<Rightarrow>
             (case lr_CompletionResponse r of
                None \<Rightarrow> (rc, Inr [])
              | Some x \<Rightarrow> (on_llm (\<lambda>r. r\<lparr>lr_CompletionResponse := None\<rparr>) rc, written (he_encodeCompletion he x))))"

definition processAndWriteChunk :: "'s henv \<Rightarrow> bool \<Rightarrow> RequestContext \<Rightarrow> (RequestContext \<times> gw_error option) option" where
  "processAndWriteChunk he is_done rc =
     do { (rc, err) \<leftarrow> PostProcess (he_proc he) is_done rc;
          Some (case err of
                  Some e \<Rightarrow> (rc, Some (Wrapped ''post-processor failed'' e))
                | None \<Rightarrow>
                    (case marshalResponse he rc of
                       (rc, Inl e) \<Rightarrow> (rc, Some (Wrapped ''marshal response failed'' e))
                     | (rc, Inr data) \<Rightarrow>
                         let rc = (if data \<noteq> [] then send None data rc else rc)
                         in (if is_done then send None ''[DONE]'' rc else rc, None))) }"

subsection \<open>Request-state hooks\<close>

record 's hstate =
  hs_rc :: RequestContext
  hs_world :: 's
  hs_tracker :: RequestStateTracker
  hs_token :: "(RequestTokenState \<times> bool) option"

abbreviation tracking :: "'s henv \<Rightarrow> bool" where
  "tracking he \<equiv> gc_EnableRequestStateTracking (he_config he)"

definition release_inst :: "'s henv \<Rightarrow> LLMInstance \<Rightarrow> 's hstate \<Rightarrow> 's hstate" where
  "release_inst he inst st = st\<lparr>hs_world := bl_Release (he_balancer he) (hs_rc st) inst (hs_world st)\<rparr>"

definition release_typed :: "'s henv \<Rightarrow> InferType \<Rightarrow> 's hstate \<Rightarrow> 's hstate" where
  "release_typed he t st =
     (case GetInstanceByInferType (rc_SchedulingResults (hs_rc st)) t of None \<Rightarrow> st | Some inst \<Rightarrow> release_inst he inst st)"

definition OnPostPrefill :: "'s henv \<Rightarrow> 's hstate \<Rightarrow> 's hstate" where
  "OnPostPrefill he st =
     (if tracking he then
        (let rc = hs_rc st;
             ds = ReportPrefillComplete (rc_Id rc) (rc_Model rc) (rc_GatewayId rc) (rc_SchedulingResults rc);
             st = st\<lparr>hs_world := (if ds = [] then hs_world st else he_report he ds (hs_world st))\<rparr>;
             st = release_typed he InferTypePrefill st
         in st\<lparr>hs_rc := (hs_rc st)\<lparr>rc_SchedulingStage := SchedulingStageDecode\<rparr>\<rparr>)
      else st)"

definition OnPostRequest :: "'s henv \<Rightarrow> 's hstate \<Rightarrow> 's hstate" where
  "OnPostRequest he st =
     (if tracking he then
        (let st = st\<lparr>hs_tracker := DeleteRequestState (rc_Id (hs_rc st)) (hs_tracker st)\<rparr>
         in release_typed he InferTypeDecode (release_typed he InferTypeNeutral st))
      else if gc_EnableFullModeScheduling (he_config he) \<and> \<not> rc_ForwardSucceeded (hs_rc st)
      then foldl (\<lambda>st inst. release_inst he inst st) st (rc_SchedulingResults (hs_rc st))
      else st)"

definition OnPostDecodeFirstStreamResponse :: "'s henv \<Rightarrow> 's hstate \<Rightarrow> 's hstate option" where
  "OnPostDecodeFirstStreamResponse he st =
     (let rc = hs_rc st
      in if tracking he \<and> lr_ClientStream (rc_LLM rc) then
           do { let (inferType, instanceID) =
                  (case GetInstanceByInferType (rc_SchedulingResults rc) InferTypeDecode of
                     Some i \<Rightarrow> (InferTypeDecode, fst (LLMInstance_Id i))
                   | None \<Rightarrow> (case GetInstanceByInferType (rc_SchedulingResults rc) InferTypeNeutral of
                                Some i \<Rightarrow> (InferTypeNeutral, fst (LLMInstance_Id i))
                              | None \<Rightarrow> ([], [])));
                tokens \<leftarrow> GetPromptTokens (rc_LLM rc);
                rs \<leftarrow> NewRequestTokenState (rc_Id rc) (rc_Model rc) tokens (rc_Model rc) inferType instanceID (rc_GatewayId rc);
                Some (st\<lparr>hs_tracker := AddRequestState rs (hs_tracker st),
                         hs_token := Some (rs, mget (hs_tracker st) (rc_Id rc) = None)\<rparr>) }
         else Some st)"

definition GetResponseUsage :: "LLMRequest \<Rightarrow> Usage option option" where
  "GetResponseUsage r =
     (case lr_Protocol r of
        OpenAIChatCompletion \<Rightarrow>
          if lr_ClientStream r then map_option ct_Usage (lr_ChatCompletionStreamResponse r)
          else map_option ct_Usage (lr_ChatCompletionResponse r)
      | OpenAICompletion \<Rightarrow> map_option cp_Usage (lr_CompletionResponse r))"

definition chat_text :: "ChatResponse option \<Rightarrow> string" where
  "chat_text resp =
     (case resp of
        None \<Rightarrow> []
      | Some x \<Rightarrow> (case ct_Choices x of
                     [] \<Rightarrow> []
                   | c # _ \<Rightarrow> if 0 < length (ch_ReasoningContent c) then ch_ReasoningContent c else ch_Content c))"

definition GetCompletionText :: "CompletionResponse option \<Rightarrow> string" where
  "GetCompletionText resp = (case resp of None \<Rightarrow> [] | Some x \<Rightarrow> (case cp_Choices x of [] \<Rightarrow> [] | c # _ \<Rightarrow> cc_Text c))"

definition GetResponseText :: "LLMRequest \<Rightarrow> string" where
  "GetResponseText r =
     (case lr_Protocol r of
        OpenAIChatCompletion \<Rightarrow>
          if lr_ClientStream r then chat_text (lr_ChatCompletionStreamResponse r) else chat_text (lr_ChatCompletionResponse r)
      | OpenAICompletion \<Rightarrow> GetCompletionText (lr_CompletionResponse r))"

definition update_token :: "(RequestTokenState \<Rightarrow> RequestTokenState) \<Rightarrow> 's hstate \<Rightarrow> 's hstate option" where
  "update_token f st =
     (case hs_token st of
        None \<Rightarrow> None
      | Some (rs, shared) \<Rightarrow>
          Some (st\<lparr>hs_token := Some (f rs, shared),
                   hs_tracker := (if shared then mput (ts_reqId rs) (f rs) (hs_tracker st) else hs_tracker st)\<rparr>))"

definition OnPostDecodeEachStreamResponse :: "'s henv \<Rightarrow> 's hstate \<Rightarrow> 's hstate option" where
  "OnPostDecodeEachStreamResponse he st =
     (let r = rc_LLM (hs_rc st)
      in if tracking he \<and> lr_ClientStream r then
           do { usage \<leftarrow> GetResponseUsage r;
                case usage of
                  Some u \<Rightarrow> update_token (UpdateNumTokens (us_TotalTokens u)) st
                | None \<Rightarrow> update_token (AppendResponseText (GetResponseText r)) st }
         else Some st)"

subsection \<open>The handler\<close>

definition headerResponded :: "'s henv \<Rightarrow> 's hstate \<Rightarrow> bool" where
  "headerResponded he st \<longleftrightarrow>
     rc_HeaderResponded (hs_rc st) \<or>
     lr_ClientStream (rc_LLM (hs_rc st)) \<and> rc_Sent (hs_rc st) \<noteq> [] \<and> he_written he (hs_world st)"

definition on_rc :: "(RequestContext \<Rightarrow> RequestContext) \<Rightarrow> 's hstate \<Rightarrow> 's hstate" where
  "on_rc f st = st\<lparr>hs_rc := f (hs_rc st)\<rparr>"

definition chunk_hooks :: "'s henv \<Rightarrow> bool \<Rightarrow> bool \<Rightarrow> 's hstate \<Rightarrow> 's hstate option" where
  "chunk_hooks he isFirst isFirstDecode st =
     (if isFirst then Some (OnPostPrefill he st)
      else let st = on_rc (on_stats (\<lambda>s. s\<lparr>rs_ITLs := Suc (rs_ITLs s)\<rparr>)) st
           in if isFirstDecode then OnPostDecodeFirstStreamResponse he st else Some st)"

definition process_rc :: "'s henv \<Rightarrow> bool \<Rightarrow> 's hstate \<Rightarrow> ('s hstate \<times> gw_error option) option" where
  "process_rc he is_done st = map_option (\<lambda>(rc, e). (st\<lparr>hs_rc := rc\<rparr>, e)) (processAndWriteChunk he is_done (hs_rc st))"

text \<open>One chunk: the new state and, when the handler returns at this chunk, what it returns.\<close>

definition final_chunk :: "'s henv \<Rightarrow> string \<Rightarrow> 's hstate \<Rightarrow> 's hstate option" where
  "final_chunk he data st =
     (if data = [] then Some st
      else let (rc, e) = parseResponse he data (hs_rc st); st = st\<lparr>hs_rc := rc\<rparr>
           in if e \<noteq> None \<and> e \<noteq> Some IoEOF then Some (on_rc (send e []) st)
              else do { (st, e) \<leftarrow> process_rc he True st;
                        Some (if e \<noteq> None then on_rc (send e []) st else st) })"

definition handle_data :: "'s henv \<Rightarrow> string \<Rightarrow> 's hstate \<Rightarrow> ('s hstate \<times> bool) option" where
  "handle_data he data st =
     (let (rc, e) = parseResponse he data (hs_rc st); st = st\<lparr>hs_rc := rc\<rparr>
      in if e \<noteq> None \<and> e \<noteq> Some IoEOF then Some (on_rc (send e []) st, True)
         else do { st \<leftarrow> (if 0 < rs_ITLs (rc_Stats (hs_rc st)) then OnPostDecodeEachStreamResponse he st else Some st);
                   (st, e') \<leftarrow> process_rc he (e = Some IoEOF) st;
                   if e' \<noteq> None then Some (on_rc (send e' []) st, True)
                   else if OutputExceedMaxTokens (rc_Stats (hs_rc st))
                   then map_option (\<lambda>(st, _). (st, True)) (process_rc he True st)
                   else Some (st, False) })"

fun handle_chunks :: "'s henv \<Rightarrow> bool \<Rightarrow> bool \<Rightarrow> StreamChunk list \<Rightarrow> 's hstate \<Rightarrow> ('s hstate \<times> gw_error option) option" where
  "handle_chunks he isFirst isFirstDecode [] st = Some (st, None)"
| "handle_chunks he isFirst isFirstDecode (chunk # cs) st =
     do { st \<leftarrow> chunk_hooks he isFirst isFirstDecode st;
          case sk_Err chunk of
            Some err \<Rightarrow>
              if err = IoEOF then map_option (\<lambda>st. (st, None)) (final_chunk he (sk_Data chunk) st)
              else if \<not> headerResponded he st then Some (st, Some err)
              else Some (on_rc (send (Some err) []) st, None)
          | None \<Rightarrow>
              do { (st, over) \<leftarrow> handle_data he (sk_Data chunk) st;
                   if over then Some (st, None)
                   else handle_chunks he False (isFirst \<and> isFirstDecode) cs st } }"

definition Handle :: "'s henv \<Rightarrow> 's hstate \<Rightarrow> ('s hstate \<times> gw_error option) option" where
  "Handle he st =
     do { (w, rc, r) \<leftarrow> Forward (he_fwd he) (he_balancer he) (he_forwarder he) (hs_rc st) (hs_world st);
          let st = st\<lparr>hs_world := w, hs_rc := rc\<rparr>;
          case r of
            Inl err \<Rightarrow> Some (st, Some err)
          | Inr chunks \<Rightarrow> handle_chunks he True True chunks st }"

subsection \<open>What handling leaves alone\<close>

text \<open>Post-processing changes the LLM part and the statistics of a request, and there not what routing and
  retrying read.\<close>

definition rc_rest :: "RequestContext \<Rightarrow> _" where
  "rc_rest rc = (rc_Id rc, rc_URL rc, rc_SchedulingResults rc, rc_SchedulingMode rc, rc_SchedulingStage rc, rc_GatewayId rc, rc_NotNeedScheduling rc,
     rc_StatusCode rc, rc_HeaderResponded rc, rc_HasTokenState rc, rc_ForwardSucceeded rc, rc_Sent rc, rc_Closed rc)"

definition llm_rest :: "LLMRequest \<Rightarrow> _" where
  "llm_rest r = (lr_ClientStream r, lr_CompletionRequest r, lr_Protocol r)"

definition stats_rest :: "RequestStats \<Rightarrow> _" where
  "stats_rest s = (rs_FallbackAttempt s, rs_RetryCount s)"

definition proc_frame :: "RequestContext \<Rightarrow> RequestContext \<Rightarrow> bool" where
  "proc_frame rc rc' \<longleftrightarrow> rc_rest rc' = rc_rest rc \<and> llm_rest (rc_LLM rc') = llm_rest (rc_LLM rc) \<and> stats_rest (rc_Stats rc') = stats_rest (rc_Stats rc)"

lemma on_llm_simps [simp]:
  "rc_LLM (on_llm f rc) = f (rc_LLM rc)" "rc_Stats (on_llm f rc) = rc_Stats rc" "rc_rest (on_llm f rc) = rc_rest rc"
  by (simp_all add: on_llm_def rc_rest_def)

lemma on_stats_simps [simp]:
  "rc_LLM (on_stats g rc) = rc_LLM rc" "rc_Stats (on_stats g rc) = g (rc_Stats rc)" "rc_rest (on_stats g rc) = rc_rest rc"
  by (simp_all add: on_stats_def rc_rest_def)

lemma proc_frame_refl [simp]: "proc_frame rc rc"
  by (simp add: proc_frame_def)

lemma proc_frame_trans: "proc_frame rc rc1 \<Longrightarrow> proc_frame rc1 rc2 \<Longrightarrow> proc_frame rc rc2"
  by (simp add: proc_frame_def)

lemma proc_frame_sym_fields:
  assumes "proc_frame rc rc'"
  shows "rc_Sent rc' = rc_Sent rc" "rc_SchedulingResults rc' = rc_SchedulingResults rc" "rc_HeaderResponded rc' = rc_HeaderResponded rc"
    "rc_ForwardSucceeded rc' = rc_ForwardSucceeded rc" "rc_Closed rc' = rc_Closed rc" "rc_SchedulingMode rc' = rc_SchedulingMode rc"
    "rc_SchedulingStage rc' = rc_SchedulingStage rc"
    "lr_ClientStream (rc_LLM rc') = lr_ClientStream (rc_LLM rc)" "lr_CompletionRequest (rc_LLM rc') = lr_CompletionRequest (rc_LLM rc)"
    "lr_Protocol (rc_LLM rc') = lr_Protocol (rc_LLM rc)" "rs_FallbackAttempt (rc_Stats rc') = rs_FallbackAttempt (rc_Stats rc)"
    "rs_RetryCount (rc_Stats rc') = rs_RetryCount (rc_Stats rc)"
  using assms by (simp_all add: proc_frame_def rc_rest_def llm_rest_def stats_rest_def)

lemma parse_tools_keeps:
  assumes "parse_tools pe l content req = Some (req', r)"
  shows "lr_ClientStream req' = lr_ClientStream req \<and> lr_CompletionRequest req' = lr_CompletionRequest req \<and> lr_Protocol req' = lr_Protocol req \<and>
    lr_BufferChatResp req' = lr_BufferChatResp req \<and> lr_BufferCompletionResponse req' = lr_BufferCompletionResponse req"
  using assms by (auto simp: parse_tools_def Let_def split: option.splits if_splits prod.splits)

lemma parse_text_keeps:
  assumes "parse_text pe l text req = Some (req', r)"
  shows "lr_ClientStream req' = lr_ClientStream req \<and> lr_CompletionRequest req' = lr_CompletionRequest req \<and> lr_Protocol req' = lr_Protocol req \<and>
    lr_BufferChatResp req' = lr_BufferChatResp req \<and> lr_BufferCompletionResponse req' = lr_BufferCompletionResponse req"
  using assms by (auto simp: parse_text_def Let_def split_beta split: if_splits bind_splits dest!: parse_tools_keeps)

lemma on_llm_const: "on_llm (\<lambda>_. r) rc = rc\<lparr>rc_LLM := r\<rparr>"
  by (simp add: on_llm_def)

lemma ChatCompletionStreamProcess_frame:
  assumes "ChatCompletionStreamProcess pe d rc = Some (rc', e)"
  shows "proc_frame rc rc'"
proof -
  let ?last = "if d then lr_LastChatStreamResp (rc_LLM rc) else None"
  consider (last) l where "?last = Some l"
    | (none) resp where "?last = None" "lr_CompletionResponse (rc_LLM rc) = Some resp" "cp_Choices resp = []"
    | (chunk) resp choice cs req r where "?last = None" "lr_CompletionResponse (rc_LLM rc) = Some resp" "cp_Choices resp = choice # cs"
        "parse_text pe False (cc_Text choice) (rc_LLM rc) = Some (req, r)"
    using assms by (auto simp: ChatCompletionStreamProcess_def Let_def split: option.splits list.splits bind_splits)
  then show ?thesis
  proof cases
    case last
    with assms show ?thesis by (auto simp: ChatCompletionStreamProcess_def proc_frame_def llm_rest_def)
  next
    case none
    with assms show ?thesis by (auto simp: ChatCompletionStreamProcess_def)
  next
    case chunk
    show ?thesis
    proof (cases r)
      case (Inl err)
      with assms chunk parse_text_keeps [OF chunk(4)] show ?thesis
        by (auto simp: ChatCompletionStreamProcess_def proc_frame_def llm_rest_def stats_rest_def Let_def)
    next
      case (Inr t)
      obtain reasoning content calls where t: "t = (reasoning, content, calls)" by (cases t)
      show ?thesis
      proof (cases "cc_Text choice \<noteq> [] \<and> reasoning = [] \<and> content = [] \<and> calls = []")
        case True
        with assms chunk Inr t parse_text_keeps [OF chunk(4)] show ?thesis
          by (simp add: ChatCompletionStreamProcess_def Let_def split del: if_split) (clarsimp simp: proc_frame_def llm_rest_def stats_rest_def)
      next
        case False
        with assms chunk Inr t parse_text_keeps [OF chunk(4)] show ?thesis
          by (simp add: ChatCompletionStreamProcess_def Let_def split del: if_split)
            (clarsimp simp: proc_frame_def llm_rest_def stats_rest_def split del: if_split)
      qed
    qed
  qed
qed

lemma ChatCompletionProcess_frame:
  assumes "ChatCompletionProcess pe d rc = Some (rc', e)"
  shows "proc_frame rc rc'"
  using assms
  by (auto simp: ChatCompletionProcess_def proc_frame_def llm_rest_def stats_rest_def Let_def
      split: option.splits list.splits if_split_asm bind_splits sum.splits prod.splits dest!: parse_text_keeps)

lemma completionStreamProcess_frame:
  assumes "completionStreamProcess pe d rc = Some (rc', e)"
  shows "proc_frame rc rc'"
  using assms by (auto simp: completionStreamProcess_def proc_frame_def stats_rest_def split: option.splits)

lemma completionProcess_frame:
  assumes "completionProcess pe d rc = Some (rc', e)"
  shows "proc_frame rc rc'"
  using assms
  by (auto simp: completionProcess_def proc_frame_def llm_rest_def stats_rest_def Let_def
      split: option.splits if_splits bind_splits prod.splits)

lemma trySetParser_frame:
  assumes "trySetParser pe rc = (rc', e)"
  shows "proc_frame rc rc' \<and> (e = None \<longrightarrow> lr_ReasoningParser (rc_LLM rc') \<noteq> None) \<and>
    lr_CompletionResponse (rc_LLM rc') = lr_CompletionResponse (rc_LLM rc) \<and>
    lr_BufferChatResp (rc_LLM rc') = lr_BufferChatResp (rc_LLM rc) \<and>
    lr_BufferCompletionResponse (rc_LLM rc') = lr_BufferCompletionResponse (rc_LLM rc)"
  using assms by (auto simp: trySetParser_def proc_frame_def llm_rest_def Let_def split: option.splits sum.splits if_splits)

lemma PostProcess_frame:
  assumes "PostProcess pe d rc = Some (rc', e)"
  shows "proc_frame rc rc'"
proof (cases "lr_Protocol (rc_LLM rc)")
  case OpenAIChatCompletion
  show ?thesis
  proof (cases "trySetParser pe rc")
    case (Pair rc1 e1)
    from trySetParser_frame [OF this] have 1: "proc_frame rc rc1" by blast
    show ?thesis
      using assms OpenAIChatCompletion Pair 1
      by (auto simp: PostProcess_def split: option.splits if_splits
          dest!: ChatCompletionStreamProcess_frame ChatCompletionProcess_frame dest: proc_frame_trans)
  qed
next
  case OpenAICompletion
  with assms show ?thesis
    by (auto simp: PostProcess_def split: if_splits dest!: completionStreamProcess_frame completionProcess_frame)
qed

subsection \<open>Post-processing does not panic\<close>

text \<open>The buffers have a choice to append to, and the tool parser's results can be decoded.\<close>

definition buffers_ok :: "RequestContext \<Rightarrow> bool" where
  "buffers_ok rc \<longleftrightarrow>
     (case lr_BufferChatResp (rc_LLM rc) of None \<Rightarrow> True | Some b \<Rightarrow> ct_Choices b \<noteq> []) \<and>
     (case lr_BufferCompletionResponse (rc_LLM rc) of None \<Rightarrow> True | Some b \<Rightarrow> cp_Choices b \<noteq> [])"

definition tools_total :: "proc_env \<Rightarrow> bool" where
  "tools_total pe \<longleftrightarrow> (\<forall>s. pe_toolResult pe s \<noteq> None)"

lemma parse_tools_total: "tools_total pe \<Longrightarrow> \<exists>x. parse_tools pe l content req = Some x"
  by (auto simp: parse_tools_def tools_total_def Let_def split: option.splits) (metis option.distinct(1))

lemma parse_text_total:
  assumes "tools_total pe" "lr_ReasoningParser req \<noteq> None"
  shows "\<exists>req' r. parse_text pe l text req = Some (req', r)"
proof -
  from assms(2) obtain d where d: "lr_ReasoningParser req = Some d" by blast
  obtain d' reasoning content where p: "ParseStreamingIncrement text d = (d', (reasoning, content))" by (metis surj_pair)
  from parse_tools_total [OF assms(1)] obtain x where "parse_tools pe l content (req\<lparr>lr_ReasoningParser := Some d'\<rparr>) = Some x" by blast
  with d p show ?thesis by (cases x) (auto simp: parse_text_def)
qed

lemma ChatCompletionStreamProcess_total:
  assumes "tools_total pe" "lr_ReasoningParser (rc_LLM rc) \<noteq> None" "lr_CompletionResponse (rc_LLM rc) \<noteq> None" "buffers_ok rc"
  shows "\<exists>rc' e. ChatCompletionStreamProcess pe d rc = Some (rc', e) \<and> buffers_ok rc'"
proof (cases "if d then lr_LastChatStreamResp (rc_LLM rc) else None")
  case (Some l)
  with assms(4) show ?thesis by (simp add: ChatCompletionStreamProcess_def buffers_ok_def)
next
  case None
  from assms(3) obtain resp where resp: "lr_CompletionResponse (rc_LLM rc) = Some resp" by blast
  show ?thesis
  proof (cases "cp_Choices resp")
    case Nil
    with None resp assms(4) show ?thesis by (simp add: ChatCompletionStreamProcess_def)
  next
    case (Cons choice cs)
    from parse_text_total [OF assms(1,2)] obtain req r where pt: "parse_text pe False (cc_Text choice) (rc_LLM rc) = Some (req, r)" by blast
    show ?thesis
      using None resp Cons pt assms(4) parse_text_keeps [OF pt]
      by (cases r) (auto simp: ChatCompletionStreamProcess_def buffers_ok_def Let_def)
  qed
qed

lemma ChatCompletionProcess_total:
  assumes "tools_total pe" "lr_ReasoningParser (rc_LLM rc) \<noteq> None" "lr_CompletionResponse (rc_LLM rc) \<noteq> None" "buffers_ok rc"
  shows "\<exists>rc' e. ChatCompletionProcess pe d rc = Some (rc', e) \<and> buffers_ok rc'"
proof (cases d)
  case True
  with assms(4) show ?thesis by (simp add: ChatCompletionProcess_def buffers_ok_def)
next
  case False
  from assms(3) obtain resp where resp: "lr_CompletionResponse (rc_LLM rc) = Some resp" by blast
  define b where "b = (case lr_BufferChatResp (rc_LLM rc) of None \<Rightarrow> new_buffer resp | Some b \<Rightarrow> b)"
  have b: "ct_Choices b \<noteq> []" using assms(4) by (auto simp: b_def buffers_ok_def new_buffer_def split: option.splits)
  let ?r = "(rc_LLM rc)\<lparr>lr_BufferChatResp := Some b\<rparr>"
  show ?thesis
  proof (cases "cp_Choices resp")
    case Nil
    with False resp b assms(4) show ?thesis by (simp add: ChatCompletionProcess_def buffers_ok_def b_def [symmetric])
  next
    case (Cons choice cs)
    from parse_text_total [OF assms(1), of ?r True "cc_Text choice"] assms(2)
    obtain req r where pt: "parse_text pe True (cc_Text choice) ?r = Some (req, r)" by auto
    from parse_text_keeps [OF pt] have req: "lr_BufferChatResp req = Some b" "lr_BufferCompletionResponse req = lr_BufferCompletionResponse (rc_LLM rc)"
      by simp_all
    show ?thesis
    proof (cases r)
      case (Inl e)
      with False resp Cons pt req b assms(4) show ?thesis by (simp add: ChatCompletionProcess_def buffers_ok_def b_def [symmetric] Let_def)
    next
      case (Inr t)
      obtain reasoning content calls where t: "t = (reasoning, content, calls)" by (cases t)
      obtain c cs' where c: "ct_Choices b = c # cs'" using b by (cases "ct_Choices b") auto
      show ?thesis
        using False resp Cons pt req c assms(4) Inr t
        by (cases "cc_Text choice \<noteq> [] \<and> reasoning = [] \<and> content = [] \<and> calls = []")
          (simp_all add: ChatCompletionProcess_def extend_buffer_def buffers_ok_def b_def [symmetric] Let_def)
    qed
  qed
qed


lemma buffer_choices_total:
  "cp_Choices b \<noteq> [] \<Longrightarrow> \<exists>n' b'. buffer_choices pe cs (n, b) = Some (n', b') \<and> cp_Choices b' \<noteq> []"
proof (induction cs arbitrary: n b)
  case (Cons c cs)
  then obtain n1 b1 where "buffer_choice pe c (n, b) = Some (n1, b1)" "cp_Choices b1 \<noteq> []"
    by (cases "cp_Choices b") (auto simp: buffer_choice_def)
  with Cons.IH [of b1 n1] show ?case by simp
qed simp

lemma completionProcess_total:
  assumes "buffers_ok rc"
  shows "\<exists>rc' e. completionProcess pe d rc = Some (rc', e) \<and> buffers_ok rc'"
proof (cases "d \<or> lr_CompletionResponse (rc_LLM rc) = None")
  case True
  with assms show ?thesis by (cases d) (auto simp: completionProcess_def buffers_ok_def split: option.splits)
next
  case False
  then obtain resp where resp: "lr_CompletionResponse (rc_LLM rc) = Some resp" by blast
  define b where "b = (case lr_BufferCompletionResponse (rc_LLM rc) of
      Some b \<Rightarrow> b
    | None \<Rightarrow> \<lparr>cp_ID = chat_id (cp_ID resp), cp_Object = cp_Object resp, cp_Created = cp_Created resp,
               cp_Model = cp_Model resp, cp_Choices = [\<lparr>cc_Text = [], cc_Index = 0, cc_FinishReason = []\<rparr>],
               cp_Usage = cp_Usage resp, cp_KvTransferParams = None\<rparr>)"
  have b: "cp_Choices b \<noteq> []" using assms by (auto simp: b_def buffers_ok_def split: option.splits)
  from buffer_choices_total [OF b, of pe "cp_Choices resp" "rs_OutputTokensLen (rc_Stats rc)"]
  obtain n' b' where nb: "buffer_choices pe (cp_Choices resp) (rs_OutputTokensLen (rc_Stats rc), b) = Some (n', b')" "cp_Choices b' \<noteq> []" by blast
  with False resp assms show ?thesis
    by (cases "1 < length (cp_Choices resp)") (simp_all add: completionProcess_def b_def [symmetric] Let_def buffers_ok_def)
qed

lemma PostProcess_total:
  assumes "tools_total pe" "buffers_ok rc"
  shows "\<exists>rc' e. PostProcess pe d rc = Some (rc', e) \<and> buffers_ok rc'"
proof (cases "lr_Protocol (rc_LLM rc)")
  case OpenAICompletion
  show ?thesis
  proof (cases "lr_ClientStream (rc_LLM rc)")
    case True
    with OpenAICompletion assms(2) show ?thesis by (auto simp: PostProcess_def completionStreamProcess_def buffers_ok_def split: option.splits)
  next
    case False
    with OpenAICompletion completionProcess_total [OF assms(2)] show ?thesis by (simp add: PostProcess_def)
  qed
next
  case chat: OpenAIChatCompletion
  show ?thesis
  proof (cases "trySetParser pe rc")
    case (Pair rc1 e1)
    note f = trySetParser_frame [OF this]
    then have b1: "buffers_ok rc1" using assms(2) by (simp add: buffers_ok_def)
    show ?thesis
    proof (cases "e1 = None \<and> lr_CompletionResponse (rc_LLM rc) \<noteq> None")
      case True
      then have r: "lr_ReasoningParser (rc_LLM rc1) \<noteq> None" "lr_CompletionResponse (rc_LLM rc1) \<noteq> None" using f by auto
      from True chat Pair assms(2) ChatCompletionStreamProcess_total [OF assms(1) r b1, of d] ChatCompletionProcess_total [OF assms(1) r b1, of d]
      show ?thesis by (cases "lr_ClientStream (rc_LLM rc1)") (auto simp: PostProcess_def)
    next
      case False
      with chat Pair assms(2) b1 show ?thesis by (auto simp: PostProcess_def split: option.splits)
    qed
  qed
qed

subsection \<open>The frame of the handler\<close>

definition calm :: "RequestContext \<Rightarrow> RequestContext \<Rightarrow> bool" where
  "calm rc rc' \<longleftrightarrow>
     rc_Id rc' = rc_Id rc \<and> rc_URL rc' = rc_URL rc \<and> rc_SchedulingMode rc' = rc_SchedulingMode rc \<and> rc_NotNeedScheduling rc' = rc_NotNeedScheduling rc \<and>
     rc_HeaderResponded rc' = rc_HeaderResponded rc \<and> rc_ForwardSucceeded rc' = rc_ForwardSucceeded rc \<and> rc_Closed rc' = rc_Closed rc \<and>
     lr_ClientStream (rc_LLM rc') = lr_ClientStream (rc_LLM rc) \<and>
     (lr_CompletionRequest (rc_LLM rc') = None \<longleftrightarrow> lr_CompletionRequest (rc_LLM rc) = None) \<and>
     stats_rest (rc_Stats rc') = stats_rest (rc_Stats rc)"

definition said :: "RequestContext \<Rightarrow> RequestContext \<Rightarrow> ResponseMsg list \<Rightarrow> bool" where
  "said rc rc' ms \<longleftrightarrow> rc_Sent rc' = rc_Sent rc @ ms"

definition data_only :: "ResponseMsg list \<Rightarrow> bool" where
  "data_only ms \<longleftrightarrow> list_all (\<lambda>m. rm_Err m = None) ms"

text \<open>Data and at most one error, at the end.\<close>

definition clean_end :: "ResponseMsg list \<Rightarrow> bool" where
  "clean_end ms \<longleftrightarrow> data_only ms \<or> (ms \<noteq> [] \<and> data_only (butlast ms) \<and> rm_Err (last ms) \<noteq> None)"

lemma calm_refl [simp]: "calm rc rc"
  by (simp add: calm_def)

lemma calm_trans: "calm rc rc1 \<Longrightarrow> calm rc1 rc2 \<Longrightarrow> calm rc rc2"
  by (simp add: calm_def)

lemma calm_send [simp]: "calm rc (send e m rc)"
  by (simp add: calm_def send_def)

lemma calm_proc: "proc_frame rc rc' \<Longrightarrow> calm rc rc'"
  by (simp add: proc_frame_def calm_def rc_rest_def llm_rest_def)

lemma said_trans: "said rc rc1 ms \<Longrightarrow> said rc1 rc2 ms' \<Longrightarrow> said rc rc2 (ms @ ms')"
  by (simp add: said_def)

lemma said_send: "said rc (send e m rc) [\<lparr>rm_Err = e, rm_Message = m\<rparr>]"
  by (simp add: said_def send_def)

lemma said_nil_iff: "said rc rc' [] \<longleftrightarrow> rc_Sent rc' = rc_Sent rc"
  by (simp add: said_def)

lemma data_only_simps [simp]: "data_only []" "data_only (m # ms) \<longleftrightarrow> rm_Err m = None \<and> data_only ms" "data_only (ms @ ms') \<longleftrightarrow> data_only ms \<and> data_only ms'"
  by (auto simp: data_only_def)

lemma clean_data: "data_only ms \<Longrightarrow> clean_end ms"
  by (simp add: clean_end_def)

lemma clean_end_data_append: "data_only ms \<Longrightarrow> clean_end ms' \<Longrightarrow> clean_end (ms @ ms')"
  by (auto simp: clean_end_def butlast_append)

lemma clean_end_error: "data_only ms \<Longrightarrow> clean_end (ms @ [\<lparr>rm_Err = e, rm_Message = m\<rparr>])"
  by (cases e) (auto simp: clean_end_def butlast_append)

lemma send_simps [simp]:
  "rc_LLM (send e m rc) = rc_LLM rc" "rc_Stats (send e m rc) = rc_Stats rc" "rc_SchedulingResults (send e m rc) = rc_SchedulingResults rc"
  "rc_SchedulingStage (send e m rc) = rc_SchedulingStage rc" "rc_SchedulingMode (send e m rc) = rc_SchedulingMode rc"
  by (simp_all add: send_def)

lemma marshalResponse_cases:
  assumes "marshalResponse he rc = (rc', r)"
  shows "rc' = rc \<or> rc' = on_llm (\<lambda>r. r\<lparr>lr_ChatCompletionStreamResponse := None\<rparr>) rc \<or>
    rc' = on_llm (\<lambda>r. r\<lparr>lr_ChatCompletionResponse := None\<rparr>) rc \<or> rc' = on_llm (\<lambda>r. r\<lparr>lr_CompletionResponse := None\<rparr>) rc"
proof (cases "lr_Protocol (rc_LLM rc)")
  case OpenAICompletion
  with assms show ?thesis by (cases "lr_CompletionResponse (rc_LLM rc)") (simp_all add: marshalResponse_def Let_def)
next
  case OpenAIChatCompletion
  with assms show ?thesis
    by (cases "lr_ClientStream (rc_LLM rc)"; cases "lr_ChatCompletionStreamResponse (rc_LLM rc)"; cases "lr_ChatCompletionResponse (rc_LLM rc)")
      (simp_all add: marshalResponse_def Let_def)
qed

lemma marshalResponse_frame:
  assumes "marshalResponse he rc = (rc', r)"
  shows "proc_frame rc rc' \<and> (buffers_ok rc \<longrightarrow> buffers_ok rc')"
  using marshalResponse_cases [OF assms] by (elim disjE) (simp_all add: proc_frame_def llm_rest_def buffers_ok_def)

text \<open>What a step of the handler on the request context may do: \<open>ms\<close> are the messages it sends.\<close>

definition rc_step :: "RequestContext \<Rightarrow> RequestContext \<Rightarrow> ResponseMsg list \<Rightarrow> bool" where
  "rc_step rc rc' ms \<longleftrightarrow> calm rc rc' \<and> said rc rc' ms \<and> rc_SchedulingResults rc' = rc_SchedulingResults rc \<and>
     (rc_SchedulingStage rc = SchedulingStageDecode \<longrightarrow> rc_SchedulingStage rc' = SchedulingStageDecode) \<and> (buffers_ok rc \<longrightarrow> buffers_ok rc')"

lemma rc_step_refl [simp]: "rc_step rc rc []"
  by (simp add: rc_step_def said_def)

lemma rc_step_trans: "rc_step rc rc1 ms \<Longrightarrow> rc_step rc1 rc2 ms' \<Longrightarrow> rc_step rc rc2 (ms @ ms')"
  by (auto simp: rc_step_def intro: calm_trans said_trans)

lemma rc_step_send: "rc_step rc (send e m rc) [\<lparr>rm_Err = e, rm_Message = m\<rparr>]"
  by (simp add: rc_step_def said_send buffers_ok_def)

lemma rc_step_proc: "proc_frame rc rc' \<Longrightarrow> (buffers_ok rc \<Longrightarrow> buffers_ok rc') \<Longrightarrow> rc_step rc rc' []"
  by (simp add: rc_step_def calm_proc said_def proc_frame_sym_fields)

lemma PostProcess_step:
  assumes "tools_total pe" "PostProcess pe d rc = Some (rc', e)"
  shows "rc_step rc rc' []"
  using PostProcess_frame [OF assms(2)] PostProcess_total [OF assms(1), of rc d] assms(2) by (auto intro: rc_step_proc)

lemma processAndWriteChunk_step:
  assumes "tools_total (he_proc he)" "processAndWriteChunk he d rc = Some (rc', e)"
  shows "\<exists>ms. rc_step rc rc' ms \<and> data_only ms"
proof -
  from assms(2) obtain rc1 e1 where p: "PostProcess (he_proc he) d rc = Some (rc1, e1)"
    and r: "(rc', e) = (case e1 of
                  Some e \<Rightarrow> (rc1, Some (Wrapped ''post-processor failed'' e))
                | None \<Rightarrow>
                    (case marshalResponse he rc1 of
                       (rc, Inl e) \<Rightarrow> (rc, Some (Wrapped ''marshal response failed'' e))
                     | (rc, Inr data) \<Rightarrow>
                         let rc = (if data \<noteq> [] then send None data rc else rc)
                         in (if d then send None ''[DONE]'' rc else rc, None)))"
    by (auto simp: processAndWriteChunk_def split: bind_splits)
  note 1 = PostProcess_step [OF assms(1) p]
  show ?thesis
  proof (cases e1)
    case (Some x)
    with r 1 show ?thesis by (auto intro: exI [of _ "[]"])
  next
    case None
    obtain rc2 m where m: "marshalResponse he rc1 = (rc2, m)" by (cases "marshalResponse he rc1")
    from marshalResponse_frame [OF m] have "rc_step rc1 rc2 []" by (auto intro: rc_step_proc)
    from rc_step_trans [OF 1 this] have 2: "rc_step rc rc2 []" by simp
    show ?thesis
    proof (cases m)
      case (Inl x)
      with None r m 2 show ?thesis by (auto intro: exI [of _ "[]"])
    next
      case (Inr data)
      define rc3 ms where "rc3 = (if data \<noteq> [] then send None data rc2 else rc2)" and "ms = (if data \<noteq> [] then [\<lparr>rm_Err = None, rm_Message = data\<rparr>] else [])"
      have 3: "rc_step rc rc3 ms" "data_only ms"
        using 2 rc_step_trans [OF 2 rc_step_send [of rc2 None data]] by (auto simp: rc3_def ms_def)
      with None Inr r m rc_step_trans [OF 3(1) rc_step_send [of rc3 None "''[DONE]''"]] show ?thesis
        by (cases d) (auto simp: rc3_def [symmetric] intro: exI [of _ ms] exI [of _ "ms @ [\<lparr>rm_Err = None, rm_Message = ''[DONE]''\<rparr>]"])
    qed
  qed
qed

lemma processAndWriteChunk_total:
  assumes "tools_total (he_proc he)" "buffers_ok rc"
  shows "\<exists>rc' e. processAndWriteChunk he d rc = Some (rc', e)"
  using PostProcess_total [OF assms, of d] by (auto simp: processAndWriteChunk_def Let_def split: option.splits prod.splits sum.splits)

lemma on_rc_simps [simp]:
  "hs_rc (on_rc f st) = f (hs_rc st)" "hs_world (on_rc f st) = hs_world st" "hs_tracker (on_rc f st) = hs_tracker st" "hs_token (on_rc f st) = hs_token st"
  by (simp_all add: on_rc_def)

lemma release_inst_simps [simp]:
  "hs_rc (release_inst he inst st) = hs_rc st" "hs_tracker (release_inst he inst st) = hs_tracker st" "hs_token (release_inst he inst st) = hs_token st"
  by (simp_all add: release_inst_def)

lemma release_typed_simps [simp]: "hs_rc (release_typed he t st) = hs_rc st" "hs_tracker (release_typed he t st) = hs_tracker st"
  by (simp_all add: release_typed_def split: option.split)

lemma rc_step_stage: "rc_step rc (rc\<lparr>rc_SchedulingStage := SchedulingStageDecode\<rparr>) []"
  by (simp add: rc_step_def calm_def said_def buffers_ok_def)

lemma rc_step_stats: "stats_rest (f (rc_Stats rc)) = stats_rest (rc_Stats rc) \<Longrightarrow> rc_step rc (on_stats f rc) []"
  by (rule rc_step_proc) (simp_all add: proc_frame_def buffers_ok_def)

lemma OnPostPrefill_step: "rc_step (hs_rc st) (hs_rc (OnPostPrefill he st)) [] \<and> (\<not> tracking he \<longrightarrow> OnPostPrefill he st = st)"
  by (simp add: OnPostPrefill_def Let_def rc_step_stage)

lemma OnPostDecodeFirst_step:
  assumes "OnPostDecodeFirstStreamResponse he st = Some st'"
  shows "hs_rc st' = hs_rc st \<and> hs_world st' = hs_world st"
  using assms by (auto simp: OnPostDecodeFirstStreamResponse_def Let_def split: if_splits bind_splits option.splits prod.splits)

lemma OnPostDecodeEach_step:
  assumes "OnPostDecodeEachStreamResponse he st = Some st'"
  shows "hs_rc st' = hs_rc st \<and> hs_world st' = hs_world st"
  using assms
  by (auto simp: OnPostDecodeEachStreamResponse_def update_token_def Let_def split: if_splits bind_splits option.splits prod.splits)

lemma chunk_hooks_step:
  assumes "chunk_hooks he a b st = Some st'"
  shows "rc_step (hs_rc st) (hs_rc st') [] \<and> (\<not> a \<or> \<not> tracking he \<longrightarrow> hs_world st' = hs_world st)"
proof (cases a)
  case True
  with assms OnPostPrefill_step [of st he] show ?thesis by (auto simp: chunk_hooks_def)
next
  case False
  have "rc_step (hs_rc st) (on_stats (\<lambda>s. s\<lparr>rs_ITLs := Suc (rs_ITLs s)\<rparr>) (hs_rc st)) []" by (rule rc_step_stats) (simp add: stats_rest_def)
  with False assms show ?thesis by (auto simp: chunk_hooks_def Let_def split: if_splits dest: OnPostDecodeFirst_step)
qed

lemma parseResponse_step:
  assumes "parseResponse he data rc = (rc', e)"
  shows "rc_step rc rc' []"
  using assms by (auto simp: parseResponse_def proc_frame_def llm_rest_def buffers_ok_def split: if_splits option.splits intro!: rc_step_proc)

lemma process_rc_step:
  assumes "tools_total (he_proc he)" "process_rc he d st = Some (st', e)"
  shows "\<exists>ms. rc_step (hs_rc st) (hs_rc st') ms \<and> data_only ms \<and> hs_world st' = hs_world st"
  using assms(2) processAndWriteChunk_step [OF assms(1)] by (fastforce simp: process_rc_def)

lemma process_rc_total:
  assumes "tools_total (he_proc he)" "buffers_ok (hs_rc st)"
  shows "\<exists>st' e. process_rc he d st = Some (st', e)"
  using processAndWriteChunk_total [OF assms, of d] by (auto simp: process_rc_def)

lemma rc_step_error: "rc_step rc rc' ms \<Longrightarrow> data_only ms \<Longrightarrow> \<exists>ms'. rc_step rc (send e m rc') ms' \<and> clean_end ms'"
  using rc_step_trans [of rc rc' ms _ "[\<lparr>rm_Err = e, rm_Message = m\<rparr>]"] rc_step_send clean_end_error by blast

lemma final_chunk_step:
  assumes "tools_total (he_proc he)" "final_chunk he data st = Some st'"
  shows "\<exists>ms. rc_step (hs_rc st) (hs_rc st') ms \<and> clean_end ms \<and> hs_world st' = hs_world st"
proof (cases "data = []")
  case True
  with assms(2) show ?thesis by (auto simp: final_chunk_def intro!: exI [of _ "[]"] clean_data)
next
  case False
  obtain rc e where p: "parseResponse he data (hs_rc st) = (rc, e)" by (cases "parseResponse he data (hs_rc st)")
  note 1 = parseResponse_step [OF p]
  show ?thesis
  proof (cases "e \<noteq> None \<and> e \<noteq> Some IoEOF")
    case True
    with assms(2) False p rc_step_error [OF 1] show ?thesis by (auto simp: final_chunk_def)
  next
    case no: False
    with assms(2) False p obtain st1 e1 where q: "process_rc he True (st\<lparr>hs_rc := rc\<rparr>) = Some (st1, e1)"
      and st': "st' = (if e1 \<noteq> None then on_rc (send e1 []) st1 else st1)"
      by (auto simp: final_chunk_def split: bind_splits)
    from process_rc_step [OF assms(1) q] obtain ms where ms: "rc_step rc (hs_rc st1) ms" "data_only ms" "hs_world st1 = hs_world st" by auto
    from rc_step_trans [OF 1 ms(1)] have 2: "rc_step (hs_rc st) (hs_rc st1) ms" by simp
    from rc_step_error [OF 2 ms(2)] 2 ms st' show ?thesis by (cases e1) (auto intro: clean_data)
  qed
qed

lemma handle_data_step:
  assumes "tools_total (he_proc he)" "handle_data he data st = Some (st', over)"
  shows "\<exists>ms. rc_step (hs_rc st) (hs_rc st') ms \<and> clean_end ms \<and> (\<not> over \<longrightarrow> data_only ms) \<and> hs_world st' = hs_world st"
proof -
  obtain rc e where p: "parseResponse he data (hs_rc st) = (rc, e)" by (cases "parseResponse he data (hs_rc st)")
  note 1 = parseResponse_step [OF p]
  show ?thesis
  proof (cases "e \<noteq> None \<and> e \<noteq> Some IoEOF")
    case True
    with assms(2) p rc_step_error [OF 1] show ?thesis by (auto simp: handle_data_def)
  next
    case False
    let ?each = "if 0 < rs_ITLs (rc_Stats rc) then OnPostDecodeEachStreamResponse he (st\<lparr>hs_rc := rc\<rparr>) else Some (st\<lparr>hs_rc := rc\<rparr>)"
    from False assms(2) p obtain st1 st2 e' where each: "?each = Some st1" and q: "process_rc he (e = Some IoEOF) st1 = Some (st2, e')"
      and st': "(if e' \<noteq> None then Some (on_rc (send e' []) st2, True)
                else if OutputExceedMaxTokens (rc_Stats (hs_rc st2)) then map_option (\<lambda>(st, _). (st, True)) (process_rc he True st2)
                else Some (st2, False)) = Some (st', over)"
      by (auto simp: handle_data_def Let_def bind_eq_Some_conv simp del: not_None_eq)
    from each have s1: "hs_rc st1 = rc" "hs_world st1 = hs_world st" by (auto split: if_splits dest: OnPostDecodeEach_step)
    from process_rc_step [OF assms(1) q] obtain ms where ms: "rc_step rc (hs_rc st2) ms" "data_only ms" "hs_world st2 = hs_world st" using s1 by auto
    from rc_step_trans [OF 1 ms(1)] have 2: "rc_step (hs_rc st) (hs_rc st2) ms" by simp
    show ?thesis
    proof (cases "e' = None \<and> OutputExceedMaxTokens (rc_Stats (hs_rc st2))")
      case True
      with st' obtain e2 where "process_rc he True st2 = Some (st', e2)" "over" by auto
      with process_rc_step [OF assms(1), of True st2] obtain ms' where "rc_step (hs_rc st2) (hs_rc st') ms'" "data_only ms'" "hs_world st' = hs_world st2" by blast
      with rc_step_trans [OF 2, of "hs_rc st'" ms'] ms \<open>over\<close> show ?thesis by (auto intro!: exI [of _ "ms @ ms'"] clean_data)
    next
      case False
      with st' ms 2 rc_step_error [OF 2 ms(2), of e' "[]"] show ?thesis by (auto split: if_splits intro: clean_data)
    qed
  qed
qed

lemma handle_chunks_step:
  assumes "tools_total (he_proc he)" "handle_chunks he a b cs st = Some (st', e)"
  shows "\<exists>ms. rc_step (hs_rc st) (hs_rc st') ms \<and> clean_end ms \<and> (e \<noteq> None \<longrightarrow> data_only ms) \<and> (\<not> tracking he \<longrightarrow> hs_world st' = hs_world st)"
  using assms(2)
proof (induction cs arbitrary: a b st)
  case Nil
  then show ?case by (auto intro!: exI [of _ "[]"] clean_data)
next
  case (Cons c cs)
  from Cons.prems obtain st1 where h: "chunk_hooks he a b st = Some st1" by (auto split: bind_splits)
  note hook = chunk_hooks_step [OF h]
  show ?case
  proof (cases "sk_Err c")
    case (Some err)
    show ?thesis
    proof (cases "err = IoEOF")
      case True
      with Cons.prems h Some have "final_chunk he (sk_Data c) st1 = Some st'" "e = None" by auto
      from final_chunk_step [OF assms(1) this(1)] obtain ms where "rc_step (hs_rc st1) (hs_rc st') ms" "clean_end ms" "hs_world st' = hs_world st1" by blast
      with hook rc_step_trans [of "hs_rc st" "hs_rc st1" "[]"] \<open>e = None\<close> show ?thesis by fastforce
    next
      case False
      with Cons.prems h Some hook rc_step_error [of "hs_rc st" "hs_rc st1" "[]" "Some err" "[]"] show ?thesis
        by (auto split: if_splits intro!: clean_data)
    qed
  next
    case None
    with Cons.prems h obtain st2 over where d: "handle_data he (sk_Data c) st1 = Some (st2, over)"
      and r: "(if over then Some (st2, None) else handle_chunks he False (a \<and> b) cs st2) = Some (st', e)" by (auto split: bind_splits)
    from handle_data_step [OF assms(1) d] obtain ms where ms: "rc_step (hs_rc st1) (hs_rc st2) ms" "clean_end ms" "\<not> over \<longrightarrow> data_only ms" "hs_world st2 = hs_world st1"
      by blast
    from hook rc_step_trans [OF _ ms(1), of "hs_rc st" "[]"] have 2: "rc_step (hs_rc st) (hs_rc st2) ms" by simp
    show ?thesis
    proof (cases over)
      case True
      with r 2 ms hook show ?thesis by auto
    next
      case False
      with r have "handle_chunks he False (a \<and> b) cs st2 = Some (st', e)" by simp
      from Cons.IH [OF this] obtain ms' where "rc_step (hs_rc st2) (hs_rc st') ms'" "clean_end ms'" "e \<noteq> None \<longrightarrow> data_only ms'"
        "\<not> tracking he \<longrightarrow> hs_world st' = hs_world st2" by blast
      with rc_step_trans [OF 2, of "hs_rc st'" ms'] False ms hook show ?thesis by (auto intro!: exI [of _ "ms @ ms'"] clean_end_data_append)
    qed
  qed
qed

lemma handle_data_total:
  assumes "tools_total (he_proc he)" "buffers_ok (hs_rc st)" "\<not> (tracking he \<and> lr_ClientStream (rc_LLM (hs_rc st)))"
  shows "\<exists>st' over. handle_data he data st = Some (st', over)"
proof -
  obtain rc e where p: "parseResponse he data (hs_rc st) = (rc, e)" by (cases "parseResponse he data (hs_rc st)")
  from parseResponse_step [OF p] have rc: "buffers_ok rc" "lr_ClientStream (rc_LLM rc) = lr_ClientStream (rc_LLM (hs_rc st))"
    using assms(2) by (auto simp: rc_step_def calm_def)
  show ?thesis
  proof (cases "e \<noteq> None \<and> e \<noteq> Some IoEOF")
    case True
    with p show ?thesis by (auto simp: handle_data_def)
  next
    case False
    have each: "(if 0 < rs_ITLs (rc_Stats rc) then OnPostDecodeEachStreamResponse he (st\<lparr>hs_rc := rc\<rparr>) else Some (st\<lparr>hs_rc := rc\<rparr>)) = Some (st\<lparr>hs_rc := rc\<rparr>)"
      using assms(3) rc(2) by (auto simp: OnPostDecodeEachStreamResponse_def)
    from process_rc_total [OF assms(1), of "st\<lparr>hs_rc := rc\<rparr>" "e = Some IoEOF"] rc(1)
    obtain st2 e2 where q: "process_rc he (e = Some IoEOF) (st\<lparr>hs_rc := rc\<rparr>) = Some (st2, e2)" by auto
    from process_rc_step [OF assms(1) q] rc(1) have "buffers_ok (hs_rc st2)" by (auto simp: rc_step_def)
    from process_rc_total [OF assms(1) this, of True] obtain st3 e3 where q3: "process_rc he True st2 = Some (st3, e3)" by blast
    show ?thesis using False p each q q3 by (auto simp: handle_data_def Let_def)
  qed
qed

lemma final_chunk_total:
  assumes "tools_total (he_proc he)" "buffers_ok (hs_rc st)"
  shows "\<exists>st'. final_chunk he data st = Some st'"
proof -
  obtain rc e where p: "parseResponse he data (hs_rc st) = (rc, e)" by (cases "parseResponse he data (hs_rc st)")
  from parseResponse_step [OF p] have rc: "buffers_ok rc" using assms(2) by (auto simp: rc_step_def)
  from process_rc_total [OF assms(1), of "st\<lparr>hs_rc := rc\<rparr>" True] rc obtain st2 e2 where "process_rc he True (st\<lparr>hs_rc := rc\<rparr>) = Some (st2, e2)" by auto
  with p show ?thesis by (auto simp: final_chunk_def Let_def)
qed

lemma chunk_hooks_total: "\<not> (tracking he \<and> lr_ClientStream (rc_LLM (hs_rc st))) \<Longrightarrow> \<exists>st'. chunk_hooks he a b st = Some st'"
  by (auto simp: chunk_hooks_def OnPostDecodeFirstStreamResponse_def Let_def)

lemma handle_chunks_total:
  assumes "tools_total (he_proc he)" "buffers_ok (hs_rc st)" "\<not> (tracking he \<and> lr_ClientStream (rc_LLM (hs_rc st)))"
  shows "\<exists>st' e. handle_chunks he a b cs st = Some (st', e)"
  using assms(2,3)
proof (induction cs arbitrary: a b st)
  case (Cons c cs)
  from chunk_hooks_total [OF Cons.prems(2)] obtain st1 where h: "chunk_hooks he a b st = Some st1" by blast
  from chunk_hooks_step [OF h] Cons.prems have st1: "buffers_ok (hs_rc st1)" "\<not> (tracking he \<and> lr_ClientStream (rc_LLM (hs_rc st1)))"
    by (auto simp: rc_step_def calm_def)
  show ?case
  proof (cases "sk_Err c")
    case (Some err)
    with h final_chunk_total [OF assms(1) st1(1), of "sk_Data c"] show ?thesis by auto
  next
    case None
    from handle_data_total [OF assms(1) st1, of "sk_Data c"] obtain st2 over where d: "handle_data he (sk_Data c) st1 = Some (st2, over)" by blast
    from handle_data_step [OF assms(1) d] st1 have "buffers_ok (hs_rc st2)" "\<not> (tracking he \<and> lr_ClientStream (rc_LLM (hs_rc st2)))"
      by (auto simp: rc_step_def calm_def)
    from Cons.IH [OF this, of False "a \<and> b"] h d None show ?thesis by auto
  qed
qed simp

subsection \<open>The frame of the forwarders\<close>

text \<open>\<open>I\<close> is any observation of the world that HTTP exchanges and random numbers leave alone and that \<open>Get\<close>
  changes by \<open>upd\<close>.\<close>

definition observed :: "'s fenv \<Rightarrow> 's Balancer \<Rightarrow> ('s \<Rightarrow> 'i) \<Rightarrow> (gw_error + SchedulingResult \<Rightarrow> 'i \<Rightarrow> 'i) \<Rightarrow> bool" where
  "observed fe bl I upd \<longleftrightarrow> (\<forall>u b w. I (fst (fe_Do fe u b w)) = I w) \<and> (\<forall>w. I (fst (fe_Intn fe w)) = I w) \<and>
     (\<forall>rc w w' g r. bl_Get bl rc w = Some (w', g, r) \<longrightarrow> I w' = upd r (I w))"

lemma do_tries_observed: "observed fe bl I upd \<Longrightarrow> I (fst (do_tries fe url body k w)) = I w"
proof (induction k arbitrary: w)
  case 0
  from 0 have "I (fst (fe_Do fe url body w)) = I w" by (simp add: observed_def)
  then show ?case by (subst do_tries.simps) (auto split: prod.split http_answer.split)
next
  case (Suc k)
  from Suc.prems have "I (fst (fe_Do fe url body w)) = I w" by (simp add: observed_def)
  with Suc.IH [OF Suc.prems] show ?case by (subst do_tries.simps) (auto split: prod.split http_answer.split)
qed

lemma backend_request_observed:
  assumes "observed fe bl I upd"
  shows "I (fst (backend_request fe inst body w)) = I w"
  using do_tries_observed [OF assms, of "backend_url inst" body connectRetry w]
  by (auto simp: backend_request_def doRequest_def split: option.split prod.split sum.split)

lemma streamBackendResponse_observed:
  assumes "observed fe bl I upd"
  shows "I (fst (streamBackendResponse fe body inst w)) = I w"
  using backend_request_observed [OF assms, of inst body w] by (auto simp: streamBackendResponse_def split: prod.split sum.split)

definition fwd_frame :: "RequestContext \<Rightarrow> RequestContext \<Rightarrow> bool" where
  "fwd_frame rc rc' \<longleftrightarrow> calm rc rc' \<and> rc_Sent rc' = rc_Sent rc \<and> (buffers_ok rc \<longrightarrow> buffers_ok rc') \<and> 
     lr_Protocol (rc_LLM rc') = lr_Protocol (rc_LLM rc)"

lemma fwd_frame_refl [simp]: "fwd_frame rc rc"
  by (simp add: fwd_frame_def)

lemma fwd_frame_trans: "fwd_frame rc rc1 \<Longrightarrow> fwd_frame rc1 rc2 \<Longrightarrow> fwd_frame rc rc2"
  by (auto simp: fwd_frame_def intro: calm_trans)

lemma with_completion_frame [simp]: "fwd_frame rc (with_completion f rc)"
  by (simp add: fwd_frame_def calm_def with_completion_def on_llm_def buffers_ok_def)

lemma with_completion_simps [simp]:
  "rc_SchedulingResults (with_completion f rc) = rc_SchedulingResults rc" "rc_SchedulingStage (with_completion f rc) = rc_SchedulingStage rc"
  "rc_SchedulingMode (with_completion f rc) = rc_SchedulingMode rc"
  "lr_CompletionRequest (rc_LLM (with_completion f rc)) = map_option f (lr_CompletionRequest (rc_LLM rc))"
  by (simp_all add: with_completion_def on_llm_def)

definition same_run :: "('s \<Rightarrow> 'i) \<Rightarrow> RequestContext \<Rightarrow> 's \<Rightarrow> RequestContext \<Rightarrow> 's \<Rightarrow> bool" where
  "same_run I rc w rc' w' \<longleftrightarrow> fwd_frame rc rc' \<and> rc_SchedulingResults rc' = rc_SchedulingResults rc \<and>
     rc_SchedulingStage rc' = rc_SchedulingStage rc \<and> I w' = I w"

lemma backend_request_run: "observed fe bl I upd \<Longrightarrow> backend_request fe inst body w = (w', r) \<Longrightarrow> I w' = I w"
  using backend_request_observed [of fe bl I upd inst body w] by simp

lemma streamBackendResponse_run: "observed fe bl I upd \<Longrightarrow> streamBackendResponse fe body inst w = (w', cs) \<Longrightarrow> I w' = I w"
  using streamBackendResponse_observed [of fe bl I upd body inst w] by simp

lemmas exchange_run = backend_request_run streamBackendResponse_run

lemma neutral_run:
  assumes "observed fe bl I upd" "neutral_Forward fe rc w = Some (w', rc', r)"
  shows "same_run I rc w rc' w'"
  using assms(2) by (auto simp: neutral_Forward_def same_run_def split: option.splits prod.splits dest: exchange_run [OF assms(1)])

lemma kvt_batch_run:
  assumes "observed fe bl I upd" "kvt_batchForward fe rc w = Some (w', rc', r)"
  shows "same_run I rc w rc' w'"
  using assms(2)
  by (auto simp: kvt_batchForward_def same_run_def bind_eq_Some_conv Let_def split_beta streamBackendResponse_observed [OF assms(1)] split: sum.splits option.splits)

lemma kvt_doPrefill_run:
  assumes "observed fe bl I upd" "kvt_doPrefill fe rc p w = Some (w', rc', e)"
  shows "same_run I rc w rc' w'"
proof -
  from assms(2) obtain c where c: "lr_CompletionRequest (rc_LLM rc) = Some c" by (auto simp: kvt_doPrefill_def bind_eq_Some_conv)
  obtain c1 copy where k: "kvt_prefill_copy c = (c1, copy)" by (cases "kvt_prefill_copy c")
  show ?thesis
  proof (cases "fe_marshal fe (Some copy)")
    case None
    with assms(2) c k show ?thesis by (auto simp: kvt_doPrefill_def same_run_def)
  next
    case (Some data)
    obtain w1 x where "backend_request fe p data w = (w1, x)" by (cases "backend_request fe p data w")
    with assms(2) c k Some show ?thesis
      by (cases x) (auto simp: kvt_doPrefill_def same_run_def dest: exchange_run [OF assms(1)])
  qed
qed

lemma kvt_doDecode_run:
  assumes "observed fe bl I upd" "kvt_doDecode fe rc p d w = Some (w', rc', cs)"
  shows "same_run I rc w rc' w'"
  using assms(2)
  by (auto simp: kvt_doDecode_def same_run_def bind_eq_Some_conv Let_def split_beta streamBackendResponse_observed [OF assms(1)] split: option.splits)

lemma mooncake_doPrefill_run:
  assumes "observed fe bl I upd" "mooncake_doPrefill fe rc p w = Some (w', rc', e)"
  shows "same_run I rc w rc' w'"
proof -
  from assms(2) obtain c where c: "lr_CompletionRequest (rc_LLM rc) = Some c" by (auto simp: mooncake_doPrefill_def bind_eq_Some_conv)
  show ?thesis
  proof (cases "fe_marshal fe (Some (mooncake_prefill_copy c))")
    case None
    with assms(2) c show ?thesis by (auto simp: mooncake_doPrefill_def same_run_def)
  next
    case (Some data)
    obtain w1 x where b: "backend_request fe p data w = (w1, x)" by (cases "backend_request fe p data w")
    show ?thesis
    proof (cases x)
      case (Inl err)
      with assms(2) c Some b show ?thesis by (auto simp: mooncake_doPrefill_def same_run_def dest: exchange_run [OF assms(1)])
    next
      case (Inr hb)
      with assms(2) c Some b exchange_run(1) [OF assms(1) b] show ?thesis
        by (cases "hb_all hb"; cases "fe_unmarshal fe (the (hb_all hb))") (auto simp: mooncake_doPrefill_def same_run_def)
    qed
  qed
qed

lemma mooncake_doDecode_run:
  assumes "observed fe bl I upd" "mooncake_doDecode fe rc d w = (w', rc', cs)"
  shows "same_run I rc w rc' w'"
  using assms(2) by (auto simp: mooncake_doDecode_def same_run_def split: option.splits prod.splits dest: exchange_run [OF assms(1)])

lemma same_run_trans: "same_run I rc w rc1 w1 \<Longrightarrow> same_run I rc1 w1 rc2 w2 \<Longrightarrow> same_run I rc w rc2 w2"
  by (auto simp: same_run_def intro: fwd_frame_trans)

lemma mooncake_batch_run:
  assumes "observed fe bl I upd" "mooncake_batchForward fe rc w = Some (w', rc', r)"
  shows "same_run I rc w rc' w'"
proof (cases "batch_instances rc")
  case (Inl err)
  with assms(2) show ?thesis by (auto simp: mooncake_batchForward_def same_run_def)
next
  case (Inr pd)
  obtain p d where "pd = (p, d)" by (cases pd)
  with assms(2) Inr obtain w1 rc1 e where pre: "mooncake_doPrefill fe rc p w = Some (w1, rc1, e)"
    and rest: "(case e of Some err \<Rightarrow> Some (w1, rc1, Inr (error_chunk err))
      | None \<Rightarrow> (case mooncake_doDecode fe rc1 d w1 of (w, rc, cs) \<Rightarrow> Some (w, rc, Inr cs))) = Some (w', rc', r)"
    by (auto simp: mooncake_batchForward_def bind_eq_Some_conv)
  note 1 = mooncake_doPrefill_run [OF assms(1) pre]
  show ?thesis
  proof (cases e)
    case None
    with rest have "\<exists>cs. mooncake_doDecode fe rc1 d w1 = (w', rc', cs)" by (auto split: prod.splits)
    with mooncake_doDecode_run [OF assms(1)] same_run_trans [OF 1] show ?thesis by blast
  qed (use rest 1 in auto)
qed

lemma sgl_run:
  assumes "observed fe bl I upd" "sgl_Forward fe rc w = Some (w', rc', r)"
  shows "same_run I rc w rc' w'"
proof (cases "batch_instances rc")
  case (Inl err)
  with assms(2) show ?thesis by (auto simp: sgl_Forward_def same_run_def)
next
  case (Inr pd)
  obtain p d where pd: "pd = (p, d)" by (cases pd)
  obtain w1 x where x: "fe_Intn fe w = (w1, x)" by (cases "fe_Intn fe w")
  have "I (fst (fe_Intn fe w)) = I w" using assms(1) unfolding observed_def by blast
  with x have w1: "I w1 = I w" by simp
  define f where "f = (\<lambda>(room :: i64) (c :: CompletionRequest). c\<lparr>cr_Rid := rc_Id rc, cr_BootStrapHost := ep_Host (li_Endpoint p),
      cr_BootStrapRoom := show_int (sint room)\<rparr>)"
  from assms(2) Inr pd x obtain room c where room: "bootstrap_room x (li_DPSize d) (li_DPRank d) = Some room"
    and c: "lr_CompletionRequest (rc_LLM rc) = Some c" by (auto simp: sgl_Forward_def bind_eq_Some_conv Let_def)
  show ?thesis
  proof (cases "fe_marshal fe (Some (f room c))")
    case None
    with assms(2) Inr pd x w1 room c show ?thesis by (auto simp: sgl_Forward_def same_run_def f_def)
  next
    case (Some body)
    obtain w2 rp where p: "backend_request fe p body w1 = (w2, rp)" by (cases "backend_request fe p body w1")
    obtain w3 rd where d: "backend_request fe d body w2 = (w3, rd)" by (cases "backend_request fe d body w2")
    from exchange_run(1) [OF assms(1) p] exchange_run(1) [OF assms(1) d] w1 have "I w3 = I w" by simp
    with assms(2) Inr pd x room c Some p d show ?thesis
      by (cases rp; cases rd) (auto simp: sgl_Forward_def same_run_def f_def)
  qed
qed

lemma balancer_Get_run:
  assumes "observed fe bl I upd" "balancer_Get bl rc w = Some (w', rc', r)"
  shows "fwd_frame rc rc' \<and> rc_SchedulingResults rc' = rc_SchedulingResults rc \<and> rc_SchedulingStage rc' = rc_SchedulingStage rc \<and>
    rc_SchedulingMode rc' = rc_SchedulingMode rc \<and> I w' = upd r (I w)"
  using assms by (auto simp: balancer_Get_def observed_def fwd_frame_def calm_def buffers_ok_def)

text \<open>The only acquisition a forwarder makes is that of the decode stage; its instances join the request's results.\<close>

definition fwd_run :: "(gw_error + SchedulingResult \<Rightarrow> 'i \<Rightarrow> 'i) \<Rightarrow> ('s \<Rightarrow> 'i) \<Rightarrow> RequestContext \<Rightarrow> 's \<Rightarrow> RequestContext \<Rightarrow> 's \<Rightarrow> bool" where
  "fwd_run upd I rc w rc' w' \<longleftrightarrow> fwd_frame rc rc' \<and>
     (rc_SchedulingResults rc' = rc_SchedulingResults rc \<and> (I w' = I w \<or> (\<exists>e. I w' = upd (Inl e) (I w))) \<or>
      rc_SchedulingMode rc = SchedulingModePDStaged \<and> rc_SchedulingStage rc' = SchedulingStageDecode \<and>
      (\<exists>rs. rc_SchedulingResults rc' = rc_SchedulingResults rc @ rs \<and> I w' = upd (Inr rs) (I w)))"

lemma same_run_fwd: "same_run I rc w rc' w' \<Longrightarrow> fwd_run upd I rc w rc' w'"
  by (simp add: same_run_def fwd_run_def)

lemma ScheduleDecode_run:
  assumes "observed fe bl I upd" "ScheduleDecode bl rc w = Some (w', rc', r)"
  shows "fwd_run upd I rc w rc' w'"
proof (cases "rc_SchedulingMode rc = SchedulingModePDStaged")
  case False
  with assms(2) show ?thesis by (auto simp: ScheduleDecode_def fwd_run_def)
next
  case True
  let ?rc = "rc\<lparr>rc_SchedulingStage := SchedulingStageDecode\<rparr>"
  have f: "fwd_frame rc ?rc" by (simp add: fwd_frame_def calm_def buffers_ok_def)
  from assms(2) True obtain w1 rc1 r1 where g: "balancer_Get bl ?rc w = Some (w1, rc1, r1)"
    and r: "(w', rc', r) = (case r1 of Inl err \<Rightarrow> (w1, rc1, Inl err)
      | Inr results \<Rightarrow> (w1, rc1\<lparr>rc_SchedulingResults := rc_SchedulingResults rc1 @ results\<rparr>, Inr results))"
    by (auto simp: ScheduleDecode_def bind_eq_Some_conv)
  note 1 = balancer_Get_run [OF assms(1) g]
  have 2: "fwd_frame rc1 (rc1\<lparr>rc_SchedulingResults := x\<rparr>)" for x by (simp add: fwd_frame_def calm_def buffers_ok_def)
  show ?thesis
  proof (cases r1)
    case (Inl e)
    with r 1 f show ?thesis by (auto simp: fwd_run_def intro: fwd_frame_trans)
  next
    case (Inr rs)
    with r 1 f 2 True show ?thesis by (auto simp: fwd_run_def intro: fwd_frame_trans)
  qed
qed

lemma fwd_run_same_left: "same_run I rc w rc1 w1 \<Longrightarrow> fwd_run upd I rc1 w1 rc2 w2 \<Longrightarrow> fwd_run upd I rc w rc2 w2"
  by (auto simp: same_run_def fwd_run_def intro: fwd_frame_trans) (auto simp: fwd_frame_def calm_def)

lemma fwd_run_same_right: "fwd_run upd I rc w rc1 w1 \<Longrightarrow> same_run I rc1 w1 rc2 w2 \<Longrightarrow> fwd_run upd I rc w rc2 w2"
  by (auto simp: same_run_def fwd_run_def intro: fwd_frame_trans)

lemma staged_run:
  assumes "observed fe bl I upd" "stagedSchedulingForward bl prefill decode rc w = Some (w', rc', r)"
    and pre: "\<And>rc p w w' rc' e. prefill rc p w = Some (w', rc', e) \<Longrightarrow> same_run I rc w rc' w'"
    and dec: "\<And>rc p d w w' rc' cs. decode rc p d w = Some (w', rc', cs) \<Longrightarrow> same_run I rc w rc' w'"
  shows "fwd_run upd I rc w rc' w'"
proof (cases "GetInstanceByInferType (rc_SchedulingResults rc) InferTypePrefill")
  case None
  with assms(2) show ?thesis by (auto simp: stagedSchedulingForward_def fwd_run_def)
next
  case (Some p)
  with assms(2) obtain w1 rc1 e where p: "prefill rc p w = Some (w1, rc1, e)"
    by (auto simp: stagedSchedulingForward_def bind_eq_Some_conv)
  note 1 = pre [OF p]
  show ?thesis
  proof (cases e)
    case err: (Some err)
    with assms(2) Some p same_run_fwd [OF 1] show ?thesis by (auto simp: stagedSchedulingForward_def)
  next
    case None
    with assms(2) Some p obtain w2 rc2 r2 where s: "ScheduleDecode bl rc1 w1 = Some (w2, rc2, r2)"
      by (auto simp: stagedSchedulingForward_def bind_eq_Some_conv)
    note 2 = fwd_run_same_left [OF 1 ScheduleDecode_run [OF assms(1) s]]
    show ?thesis
    proof (cases "\<exists>results d. r2 = Inr results \<and> GetInstanceByInferType results InferTypeDecode = Some d")
      case True
      with assms(2) Some p None s obtain d cs where "decode rc2 p d w2 = Some (w', rc', cs)"
        by (auto simp: stagedSchedulingForward_def bind_eq_Some_conv)
      from fwd_run_same_right [OF 2 dec [OF this]] show ?thesis .
    next
      case False
      with assms(2) Some p None s 2 show ?thesis
        by (cases r2) (auto simp: stagedSchedulingForward_def split: option.splits)
    qed
  qed
qed

lemma Forward_run:
  assumes "observed fe bl I upd" "Forward fe bl f rc w = Some (w', rc', r)"
  shows "fwd_run upd I rc w rc' w'"
proof (cases f)
  case NeutralForwarder
  with assms show ?thesis by (auto simp: Forward_def dest: neutral_run intro: same_run_fwd)
next
  case (VllmKvt mode)
  have s: "fwd_run upd I rc w rc' w'" if "stagedSchedulingForward bl (kvt_doPrefill fe) (kvt_doDecode fe) rc w = Some (w', rc', r)"
    by (rule staged_run [OF assms(1) that]) (auto dest: kvt_doPrefill_run [OF assms(1)] kvt_doDecode_run [OF assms(1)])
  from assms VllmKvt show ?thesis
    by (auto simp: Forward_def split: if_splits dest: kvt_batch_run s intro: same_run_fwd) (simp add: fwd_run_def)
next
  case (VllmMooncake mode)
  have s: "fwd_run upd I rc w rc' w'"
    if "stagedSchedulingForward bl (mooncake_doPrefill fe) (\<lambda>rc p d w. Some (mooncake_doDecode fe rc d w)) rc w = Some (w', rc', r)"
    by (rule staged_run [OF assms(1) that]) (auto dest: mooncake_doPrefill_run [OF assms(1)] mooncake_doDecode_run [OF assms(1)])
  from assms VllmMooncake show ?thesis
    by (auto simp: Forward_def split: if_splits dest: mooncake_batch_run s intro: same_run_fwd) (simp add: fwd_run_def)
next
  case (SglMooncake mode)
  with assms show ?thesis by (auto simp: Forward_def dest: sgl_run intro: same_run_fwd)
qed

text \<open>One call of the handler: the messages it sends, how its acquisition is booked, and that it leaves the
  rest of the request alone.\<close>

lemma Handle_run:
  assumes "tools_total (he_proc he)" "observed (he_fwd he) (he_balancer he) I upd" "Handle he st = Some (st', e)"
  obtains rc w ms where "fwd_run upd I (hs_rc st) (hs_world st) rc w" "rc_step rc (hs_rc st') ms" "clean_end ms" "e \<noteq> None \<longrightarrow> data_only ms"
    "\<not> tracking he \<longrightarrow> hs_world st' = w"
proof -
  from assms(3) obtain w rc r where f: "Forward (he_fwd he) (he_balancer he) (he_forwarder he) (hs_rc st) (hs_world st) = Some (w, rc, r)"
    by (auto simp: Handle_def bind_eq_Some_conv)
  note 1 = Forward_run [OF assms(2) f]
  show ?thesis
  proof (cases r)
    case (Inl err)
    with assms(3) f have "st' = st\<lparr>hs_world := w, hs_rc := rc\<rparr>" by (auto simp: Handle_def)
    with 1 that [of rc w "[]"] show ?thesis by (simp add: clean_data)
  next
    case (Inr cs)
    with assms(3) f have "handle_chunks he True True cs (st\<lparr>hs_world := w, hs_rc := rc\<rparr>) = Some (st', e)" by (auto simp: Handle_def)
    from handle_chunks_step [OF assms(1) this] 1 that show ?thesis by auto
  qed
qed

subsection \<open>When the handler returns\<close>

abbreviation has_completion :: "RequestContext \<Rightarrow> bool" where
  "has_completion rc \<equiv> lr_CompletionRequest (rc_LLM rc) \<noteq> None"

definition get_total :: "'s Balancer \<Rightarrow> bool" where
  "get_total bl \<longleftrightarrow> (\<forall>rc w. has_completion rc \<longrightarrow> bl_Get bl rc w \<noteq> None)"

definition forwarder_total :: "Forwarder \<Rightarrow> bool" where
  "forwarder_total f \<longleftrightarrow> (case f of SglMooncake _ \<Rightarrow> False | _ \<Rightarrow> True)"

lemma same_run_completion: "same_run I rc w rc' w' \<Longrightarrow> has_completion rc' \<longleftrightarrow> has_completion rc"
  by (simp add: same_run_def fwd_frame_def calm_def)

lemma fwd_run_completion: "fwd_run upd I rc w rc' w' \<Longrightarrow> has_completion rc' \<longleftrightarrow> has_completion rc"
  by (simp add: fwd_run_def fwd_frame_def calm_def)

lemma observed_unit: "observed fe bl (\<lambda>_. ()) (\<lambda>_ _. ())"
  by (simp add: observed_def)

lemma kvt_doPrefill_total: "has_completion rc \<Longrightarrow> \<exists>w' rc' e. kvt_doPrefill fe rc p w = Some (w', rc', e)"
  by (auto simp: kvt_doPrefill_def Let_def split: prod.splits option.splits sum.splits)

lemma kvt_doDecode_total: "has_completion rc \<Longrightarrow> \<exists>w' rc' cs. kvt_doDecode fe rc p d w = Some (w', rc', cs)"
  by (auto simp: kvt_doDecode_def Let_def split: prod.splits option.splits)

lemma mooncake_doPrefill_total: "has_completion rc \<Longrightarrow> \<exists>w' rc' e. mooncake_doPrefill fe rc p w = Some (w', rc', e)"
  by (auto simp: mooncake_doPrefill_def split: prod.splits option.splits sum.splits)

lemma ScheduleDecode_total: "get_total bl \<Longrightarrow> has_completion rc \<Longrightarrow> \<exists>w' rc' r. ScheduleDecode bl rc w = Some (w', rc', r)"
proof -
  assume "get_total bl" "has_completion rc"
  then have "bl_Get bl (rc\<lparr>rc_SchedulingStage := SchedulingStageDecode\<rparr>) w \<noteq> None" by (auto simp: get_total_def)
  then show ?thesis by (auto simp: ScheduleDecode_def balancer_Get_def split: sum.splits)
qed

lemma staged_total:
  assumes "get_total bl" "has_completion rc"
    and pre: "\<And>rc p w. has_completion rc \<Longrightarrow> \<exists>w' rc' e. prefill rc p w = Some (w', rc', e) \<and> has_completion rc'"
    and dec: "\<And>rc p d w. has_completion rc \<Longrightarrow> \<exists>w' rc' cs. decode rc p d w = Some (w', rc', cs)"
  shows "\<exists>w' rc' r. stagedSchedulingForward bl prefill decode rc w = Some (w', rc', r)"
proof (cases "GetInstanceByInferType (rc_SchedulingResults rc) InferTypePrefill")
  case None
  then show ?thesis by (simp add: stagedSchedulingForward_def)
next
  case (Some p)
  from pre [OF assms(2), of p w] obtain w1 rc1 e where p: "prefill rc p w = Some (w1, rc1, e)" "has_completion rc1" by blast
  from ScheduleDecode_total [OF assms(1) p(2), of w1] obtain w2 rc2 r where s: "ScheduleDecode bl rc1 w1 = Some (w2, rc2, r)" by blast
  have c2: "has_completion rc2" using fwd_run_completion [OF ScheduleDecode_run [OF observed_unit s]] p(2) by simp
  have d: "\<exists>w' rc' cs. decode rc2 p d w2 = Some (w', rc', cs)" for d using dec [OF c2] by blast
  show ?thesis
  proof (cases "\<exists>results d. r = Inr results \<and> GetInstanceByInferType results InferTypeDecode = Some d")
    case True
    then obtain results dd where "r = Inr results" "GetInstanceByInferType results InferTypeDecode = Some dd" by blast
    with Some p s d [of dd] show ?thesis by (cases e) (auto simp: stagedSchedulingForward_def)
  next
    case False
    with Some p s show ?thesis by (cases e; cases r) (auto simp: stagedSchedulingForward_def split: option.splits)
  qed
qed

lemma Forward_total:
  assumes "get_total bl" "has_completion rc" "forwarder_total f"
  shows "\<exists>w' rc' r. Forward fe bl f rc w = Some (w', rc', r)"
proof (cases f)
  case NeutralForwarder
  then show ?thesis by (auto simp: Forward_def neutral_Forward_def Let_def split: option.splits prod.splits)
next
  case (VllmKvt mode)
  have pre: "\<exists>w' rc' e. kvt_doPrefill fe rc p w = Some (w', rc', e) \<and> has_completion rc'" if c: "has_completion rc" for rc p w
  proof -
    from kvt_doPrefill_total [OF c, of fe p w] obtain w' rc' e where k: "kvt_doPrefill fe rc p w = Some (w', rc', e)" by blast
    with same_run_completion [OF kvt_doPrefill_run [OF observed_unit k]] c show ?thesis by blast
  qed
  have s: "\<exists>w' rc' r. stagedSchedulingForward bl (kvt_doPrefill fe) (kvt_doDecode fe) rc w = Some (w', rc', r)"
    by (rule staged_total [OF assms(1,2) pre kvt_doDecode_total])
  have "\<exists>w' rc' r. kvt_batchForward fe rc w = Some (w', rc', r)"
    using assms(2) by (auto simp: kvt_batchForward_def Let_def split: sum.splits prod.splits option.splits)
  with s VllmKvt show ?thesis by (auto simp: Forward_def)
next
  case (VllmMooncake mode)
  have pre: "\<exists>w' rc' e. mooncake_doPrefill fe rc p w = Some (w', rc', e) \<and> has_completion rc'" if c: "has_completion rc" for rc p w
  proof -
    from mooncake_doPrefill_total [OF c, of fe p w] obtain w' rc' e where k: "mooncake_doPrefill fe rc p w = Some (w', rc', e)" by blast
    with same_run_completion [OF mooncake_doPrefill_run [OF observed_unit k]] c show ?thesis by blast
  qed
  have s: "\<exists>w' rc' r. stagedSchedulingForward bl (mooncake_doPrefill fe) (\<lambda>rc p d w. Some (mooncake_doDecode fe rc d w)) rc w = Some (w', rc', r)"
    by (rule staged_total [OF assms(1,2) pre]) (auto split: prod.splits intro: prod_cases3)
  have "\<exists>w' rc' r. mooncake_batchForward fe rc w = Some (w', rc', r)"
  proof (cases "batch_instances rc")
    case (Inr pd)
    with pre [OF assms(2), of "fst pd" w] show ?thesis
      by (auto simp: mooncake_batchForward_def split_beta split: option.splits)
  qed (simp add: mooncake_batchForward_def)
  with s VllmMooncake show ?thesis by (auto simp: Forward_def)
next
  case (SglMooncake mode)
  with assms(3) show ?thesis by (simp add: forwarder_total_def)
qed

lemma Handle_total:
  assumes "tools_total (he_proc he)" "get_total (he_balancer he)" "forwarder_total (he_forwarder he)"
    "has_completion (hs_rc st)" "buffers_ok (hs_rc st)" "\<not> (tracking he \<and> lr_ClientStream (rc_LLM (hs_rc st)))"
  shows "\<exists>st' e. Handle he st = Some (st', e)"
proof -
  from Forward_total [OF assms(2,4,3)] obtain w rc r
    where f: "Forward (he_fwd he) (he_balancer he) (he_forwarder he) (hs_rc st) (hs_world st) = Some (w, rc, r)" by blast
  from Forward_run [OF observed_unit f] assms(5,6) have "buffers_ok rc" "\<not> (tracking he \<and> lr_ClientStream (rc_LLM rc))"
    by (auto simp: fwd_run_def fwd_frame_def calm_def)
  with handle_chunks_total [OF assms(1), of "st\<lparr>hs_world := w, hs_rc := rc\<rparr>" True True] f show ?thesis
    by (cases r) (auto simp: Handle_def)
qed

subsection \<open>What the handler does to the books\<close>

abbreviation no_prefill :: "SchedulingResult \<Rightarrow> bool" where
  "no_prefill rs \<equiv> GetInstanceByInferType rs InferTypePrefill = None"

lemma OnPostPrefill_observe:
  assumes "\<And>ds w. I (he_report he ds w) = I w" "\<not> tracking he \<or> no_prefill (rc_SchedulingResults (hs_rc st))"
  shows "I (hs_world (OnPostPrefill he st)) = I (hs_world st)"
  using assms by (auto simp: OnPostPrefill_def Let_def release_typed_def)

lemma chunk_hooks_observe:
  assumes "\<And>ds w. I (he_report he ds w) = I w" "\<not> tracking he \<or> no_prefill (rc_SchedulingResults (hs_rc st))" "chunk_hooks he a b st = Some st'"
  shows "I (hs_world st') = I (hs_world st)"
proof (cases a)
  case True
  with assms(3) OnPostPrefill_observe [OF assms(1,2)] show ?thesis by (auto simp: chunk_hooks_def)
next
  case False
  with chunk_hooks_step [OF assms(3)] show ?thesis by simp
qed

lemma handle_chunks_observe:
  assumes "tools_total (he_proc he)" "\<And>ds w. I (he_report he ds w) = I w" "\<not> tracking he \<or> no_prefill (rc_SchedulingResults (hs_rc st))"
    "handle_chunks he a b cs st = Some (st', e)"
  shows "I (hs_world st') = I (hs_world st)"
  using assms(3,4)
proof (induction cs arbitrary: a b st)
  case (Cons c cs)
  from Cons.prems(2) obtain st1 where h: "chunk_hooks he a b st = Some st1" by (auto split: bind_splits)
  note 1 = chunk_hooks_observe [OF assms(2) Cons.prems(1) h]
  have rs1: "rc_SchedulingResults (hs_rc st1) = rc_SchedulingResults (hs_rc st)" using chunk_hooks_step [OF h] by (simp add: rc_step_def)
  show ?case
  proof (cases "sk_Err c")
    case (Some err)
    with Cons.prems(2) h 1 show ?thesis by (auto split: if_splits dest: final_chunk_step [OF assms(1)])
  next
    case None
    with Cons.prems(2) h obtain st2 over where d: "handle_data he (sk_Data c) st1 = Some (st2, over)"
      and r: "(if over then Some (st2, None) else handle_chunks he False (a \<and> b) cs st2) = Some (st', e)" by (auto split: bind_splits)
    from handle_data_step [OF assms(1) d] have 2: "hs_world st2 = hs_world st1" "rc_SchedulingResults (hs_rc st2) = rc_SchedulingResults (hs_rc st1)"
      by (auto simp: rc_step_def)
    show ?thesis
    proof (cases over)
      case False
      with r Cons.IH [of st2 False "a \<and> b"] Cons.prems(1) rs1 1 2 show ?thesis by simp
    qed (use r 1 2 in auto)
  qed
qed simp

lemma Handle_books:
  assumes "tools_total (he_proc he)" "observed (he_fwd he) (he_balancer he) I upd" "\<And>ds w. I (he_report he ds w) = I w" "Handle he st = Some (st', e)"
  obtains rc w where "fwd_run upd I (hs_rc st) (hs_world st) rc w" "rc_SchedulingResults (hs_rc st') = rc_SchedulingResults rc"
    "rc_SchedulingStage rc = SchedulingStageDecode \<longrightarrow> rc_SchedulingStage (hs_rc st') = SchedulingStageDecode"
    "\<not> tracking he \<or> no_prefill (rc_SchedulingResults rc) \<longrightarrow> I (hs_world st') = I w"
proof -
  from assms(4) obtain w rc r where f: "Forward (he_fwd he) (he_balancer he) (he_forwarder he) (hs_rc st) (hs_world st) = Some (w, rc, r)"
    by (auto simp: Handle_def bind_eq_Some_conv)
  note 1 = Forward_run [OF assms(2) f]
  show ?thesis
  proof (cases r)
    case (Inl err)
    with assms(4) f have "st' = st\<lparr>hs_world := w, hs_rc := rc\<rparr>" by (auto simp: Handle_def)
    with 1 that [of rc w] show ?thesis by simp
  next
    case (Inr cs)
    with assms(4) f have c: "handle_chunks he True True cs (st\<lparr>hs_world := w, hs_rc := rc\<rparr>) = Some (st', e)" by (auto simp: Handle_def)
    from handle_chunks_step [OF assms(1) c] handle_chunks_observe [OF assms(1,3) _ c] that [OF 1] show ?thesis by (auto simp: rc_step_def)
  qed
qed

end
