(* ===== verification/Gateway_Router.thy ===== *)
theory Gateway_Router
  imports Gateway_Types
begin

text \<open>
  Routing of requests: \<open>pkg/gateway/router/service_router.go\<close>.

  The random number of the weighted policy is an argument; \<open>rand.Intn\<close> panics (\<open>None\<close>) unless its bound
  is positive, as \<open>Route\<close> does for an unknown policy.  The two regular expressions of \<open>JoinURL\<close> are the
  functions \<open>ends_with_version\<close> and \<open>drop_version\<close>.

  Lemmas: under the weighted policy every route is chosen by exactly as many random numbers as its
  weight; under the prefix policy the first exact match wins, then the longest wildcard prefix; the
  fallback routes are handed out in order, each once.
\<close>

subsection \<open>Definitions\<close>

definition RoutePolicyWeight :: string where "RoutePolicyWeight = ''weight''"
definition RoutePolicyPrefix :: string where "RoutePolicyPrefix = ''prefix''"
definition RouteInternalURL :: string where "RouteInternalURL = ''local''"

datatype RouteType = RouteUnknown | RouteInternal | RouteExternal

record RouteEndpoint =
  re_URL :: string
  re_APIKey :: string
  re_Model :: string

text \<open>\<open>/v\d+$\<close> matches.\<close>

definition ends_with_version :: "string \<Rightarrow> bool" where
  "ends_with_version s \<longleftrightarrow>
     (let r = rev s; ds = takeWhile is_digit r
      in ds \<noteq> [] \<and> take 2 (dropWhile is_digit r) = ''v/'')"

text \<open>Replacing \<open>^/v\d+\<close> by nothing.\<close>

definition drop_version :: "string \<Rightarrow> string" where
  "drop_version s =
     (if HasPrefix s ''/v'' \<and> takeWhile is_digit (drop 2 s) \<noteq> [] then dropWhile is_digit (drop 2 s) else s)"

definition JoinURL :: "RouteEndpoint \<Rightarrow> string \<Rightarrow> string" where
  "JoinURL re path =
     (let base = TrimSuffix (re_URL re) ''/'';
          path = (if ends_with_version base \<and> HasPrefix path ''/v'' then drop_version path else path)
      in base @ path)"

record RouteConfig =
  rt_URL :: string
  rt_APIKey :: string
  rt_Model :: string
  rt_IsFallback :: bool
  rt_Weight :: i64
  rt_Prefix :: string

record ServiceRouter =
  sr_routingPolicy :: string
  sr_routingConfigs :: "RouteConfig list"
  sr_fallbackConfigs :: "RouteConfig list"

definition setupRoutingConfigs :: "(string \<Rightarrow> RouteConfig list option) \<Rightarrow> string \<Rightarrow> RouteConfig list" where
  "setupRoutingConfigs unmarshal raw =
     (if raw \<noteq> [] then (case unmarshal raw of None \<Rightarrow> [] | Some cs \<Rightarrow> cs) else [])"

definition setupFallbackConfigs :: "RouteConfig list \<Rightarrow> RouteConfig list" where
  "setupFallbackConfigs cs = filter (\<lambda>c. rt_IsFallback c \<and> rt_URL c \<noteq> RouteInternalURL) cs"

definition NewServiceRouter :: "(string \<Rightarrow> RouteConfig list option) \<Rightarrow> string \<Rightarrow> string \<Rightarrow> ServiceRouter" where
  "NewServiceRouter unmarshal policy raw =
     (let cs = setupRoutingConfigs unmarshal raw
      in \<lparr>sr_routingPolicy = policy, sr_routingConfigs = cs, sr_fallbackConfigs = setupFallbackConfigs cs\<rparr>)"

fun weight_index :: "i64 \<Rightarrow> i64 \<Rightarrow> nat \<Rightarrow> RouteConfig list \<Rightarrow> nat" where
  "weight_index randNum currentWeight i [] = 0"
| "weight_index randNum currentWeight i (config # cs) =
     (let currentWeight = currentWeight + rt_Weight config
      in if sint randNum < sint currentWeight then i else weight_index randNum currentWeight (Suc i) cs)"

definition route_of :: "RouteConfig list \<Rightarrow> nat \<Rightarrow> RouteConfig option \<times> RouteType" where
  "route_of cs i = (if rt_URL (cs ! i) = RouteInternalURL then (None, RouteInternal) else (Some (cs ! i), RouteExternal))"

definition total_weight :: "RouteConfig list \<Rightarrow> i64" where
  "total_weight cs = foldl (\<lambda>w c. w + rt_Weight c) 0 cs"

definition selectByWeight :: "i64 \<Rightarrow> ServiceRouter \<Rightarrow> (RouteConfig option \<times> RouteType) option" where
  "selectByWeight randNum sr =
     (let cs = sr_routingConfigs sr; totalWeight = total_weight cs
      in if cs = [] then Some (None, RouteUnknown)
         else if totalWeight = 0 then Some (None, RouteUnknown)
         else if sint totalWeight < 0 then None
         else Some (route_of cs (weight_index randNum 0 0 cs)))"

fun prefix_index :: "string \<Rightarrow> int \<Rightarrow> nat option \<Rightarrow> nat \<Rightarrow> RouteConfig list \<Rightarrow> nat option" where
  "prefix_index model currentLength selected i [] = selected"
| "prefix_index model currentLength selected i (config # cs) =
     (if HasSuffix (rt_Prefix config) ''*'' then
        (let prefix = TrimSuffix (rt_Prefix config) ''*''
         in if HasPrefix model prefix \<and> currentLength < int (length prefix)
            then prefix_index model (int (length prefix)) (Some i) (Suc i) cs
            else prefix_index model currentLength selected (Suc i) cs)
      else if model = rt_Prefix config then Some i
      else prefix_index model currentLength selected (Suc i) cs)"

definition selectByPrefix :: "RequestContext \<Rightarrow> ServiceRouter \<Rightarrow> RouteConfig option \<times> RouteType" where
  "selectByPrefix rc sr =
     (if rc_Model rc = [] then (None, RouteInternal)
      else case prefix_index (rc_Model rc) (- 1) None 0 (sr_routingConfigs sr) of
             None \<Rightarrow> (None, RouteUnknown)
           | Some i \<Rightarrow> route_of (sr_routingConfigs sr) i)"

definition endpoint_of :: "RouteConfig \<Rightarrow> RouteEndpoint" where
  "endpoint_of c = \<lparr>re_URL = rt_URL c, re_APIKey = rt_APIKey c, re_Model = rt_Model c\<rparr>"

definition Route :: "i64 \<Rightarrow> RequestContext \<Rightarrow> ServiceRouter \<Rightarrow> (RouteEndpoint option \<times> RouteType) option" where
  "Route randNum rc sr =
     (if sr_routingConfigs sr = [] then Some (None, RouteInternal)
      else map_option (\<lambda>(c, t). if t = RouteExternal then (map_option endpoint_of c, RouteExternal) else (None, t))
        (if sr_routingPolicy sr = RoutePolicyWeight then selectByWeight randNum sr
         else if sr_routingPolicy sr = RoutePolicyPrefix then Some (selectByPrefix rc sr)
         else None))"

definition CanFallback :: "ServiceRouter \<Rightarrow> RequestContext \<Rightarrow> bool" where
  "CanFallback sr rc \<longleftrightarrow> 0 < length (sr_fallbackConfigs sr) \<and> rc_FallbackAttempt rc < int (length (sr_fallbackConfigs sr))"

definition Fallback :: "ServiceRouter \<Rightarrow> RequestContext \<Rightarrow> RequestContext \<times> (gw_error + RouteEndpoint)" where
  "Fallback sr rc =
     (let n = rc_FallbackAttempt rc
      in if length (sr_fallbackConfigs sr) = 0 \<or> int (length (sr_fallbackConfigs sr)) \<le> n
         then (rc, Inl (Sentinel ErrorNoAvailableEndpoint))
         else (on_stats (\<lambda>st. st\<lparr>rs_FallbackAttempt := n + 1\<rparr>) rc, Inr (endpoint_of (sr_fallbackConfigs sr ! nat n))))"

subsection \<open>Weighted routes\<close>

definition weight_sum :: "RouteConfig list \<Rightarrow> int" where
  "weight_sum cs = sum_list (map (\<lambda>c. sint (rt_Weight c)) cs)"

definition weights_ok :: "RouteConfig list \<Rightarrow> bool" where
  "weights_ok cs \<longleftrightarrow> list_all (\<lambda>c. 0 \<le> sint (rt_Weight c)) cs \<and> weight_sum cs < 2 ^ 63"

lemma weight_sum_simps [simp]: "weight_sum [] = 0" "weight_sum (c # cs) = sint (rt_Weight c) + weight_sum cs"
  by (simp_all add: weight_sum_def)

lemma weight_sum_nonneg: "list_all (\<lambda>c. 0 \<le> sint (rt_Weight c)) cs \<Longrightarrow> 0 \<le> weight_sum cs"
  by (induction cs) auto

lemma weight_sum_take_mono:
  assumes "list_all (\<lambda>c. 0 \<le> sint (rt_Weight c)) cs" "i \<le> j"
  shows "weight_sum (take i cs) \<le> weight_sum (take j cs)"
  using assms
proof (induction cs arbitrary: i j)
  case (Cons c cs)
  have "0 \<le> weight_sum (take n cs)" for n
    using weight_sum_nonneg [of "take n cs"] Cons.prems(1) by (auto simp: list_all_iff dest: in_set_takeD)
  then show ?case using Cons by (cases i; cases j) auto
qed simp

lemma foldl_weight:
  assumes "0 \<le> sint w" "list_all (\<lambda>c. 0 \<le> sint (rt_Weight c)) cs" "sint w + weight_sum cs < 2 ^ 63"
  shows "sint (foldl (\<lambda>w c. w + rt_Weight c) w cs) = sint w + weight_sum cs"
  using assms
proof (induction cs arbitrary: w)
  case (Cons c cs)
  have "sint (w + rt_Weight c) = sint w + sint (rt_Weight c)"
    using Cons.prems weight_sum_nonneg [of cs] by (intro sint_add_i64) auto
  then show ?case using Cons.IH [of "w + rt_Weight c"] Cons.prems by simp
qed simp

lemma total_weight_sum: "weights_ok cs \<Longrightarrow> sint (total_weight cs) = weight_sum cs"
  unfolding total_weight_def weights_ok_def by (subst foldl_weight) auto

lemma weight_index_cell:
  assumes "0 \<le> sint w" "list_all (\<lambda>c. 0 \<le> sint (rt_Weight c)) cs" "sint w + weight_sum cs < 2 ^ 63"
    "sint w \<le> sint r" "sint r < sint w + weight_sum cs"
  shows "\<exists>j<length cs. weight_index r w i cs = i + j \<and>
    sint w + weight_sum (take j cs) \<le> sint r \<and> sint r < sint w + weight_sum (take (Suc j) cs)"
  using assms
proof (induction cs arbitrary: w i)
  case (Cons c cs)
  have add: "sint (w + rt_Weight c) = sint w + sint (rt_Weight c)"
    using Cons.prems weight_sum_nonneg [of cs] by (intro sint_add_i64) auto
  show ?case
  proof (cases "sint r < sint (w + rt_Weight c)")
    case True
    then show ?thesis using Cons.prems add by (intro exI [of _ 0]) (simp add: Let_def)
  next
    case False
    then obtain j where "j < length cs" "weight_index r (w + rt_Weight c) (Suc i) cs = Suc i + j"
      "sint (w + rt_Weight c) + weight_sum (take j cs) \<le> sint r" "sint r < sint (w + rt_Weight c) + weight_sum (take (Suc j) cs)"
      using Cons.IH [of "w + rt_Weight c" "Suc i"] Cons.prems add by auto
    with False add show ?thesis by (intro exI [of _ "Suc j"]) (simp add: Let_def)
  qed
qed simp

lemma weight_cells_unique:
  assumes "list_all (\<lambda>c. 0 \<le> sint (rt_Weight c)) cs"
    "weight_sum (take i cs) \<le> r" "r < weight_sum (take (Suc i) cs)" "weight_sum (take j cs) \<le> r" "r < weight_sum (take (Suc j) cs)"
  shows "i = j"
proof (rule ccontr)
  assume "i \<noteq> j"
  then have "Suc i \<le> j \<or> Suc j \<le> i" by arith
  then show False using weight_sum_take_mono [OF assms(1), of "Suc i" j] weight_sum_take_mono [OF assms(1), of "Suc j" i] assms(2-) by auto
qed

lemma weight_index_range:
  assumes "weights_ok cs" "0 \<le> r" "r < weight_sum cs" "j < length cs"
  shows "weight_index (word_of_int r) 0 0 cs = j \<longleftrightarrow> weight_sum (take j cs) \<le> r \<and> r < weight_sum (take (Suc j) cs)"
proof -
  have r: "sint (word_of_int r :: i64) = r"
    using assms(1-3) by (simp add: weights_ok_def signed_take_bit_int_eq_self sint_sbintrunc')
  obtain i where i: "i < length cs" "weight_index (word_of_int r) 0 0 cs = i"
    "weight_sum (take i cs) \<le> r" "r < weight_sum (take (Suc i) cs)"
    using weight_index_cell [of 0 cs "word_of_int r" 0] assms(1-3) r by (auto simp: weights_ok_def)
  then show ?thesis using weight_cells_unique [of cs i r j] assms(1) by (auto simp: weights_ok_def)
qed

lemma weight_sum_take_Suc: "j < length cs \<Longrightarrow> weight_sum (take (Suc j) cs) = weight_sum (take j cs) + sint (rt_Weight (cs ! j))"
  by (simp add: take_Suc_conv_app_nth weight_sum_def)

subsection \<open>Prefix routes\<close>

definition exact_match :: "string \<Rightarrow> RouteConfig \<Rightarrow> bool" where
  "exact_match model c \<longleftrightarrow> \<not> HasSuffix (rt_Prefix c) ''*'' \<and> model = rt_Prefix c"

definition wildcard_length :: "string \<Rightarrow> RouteConfig \<Rightarrow> nat option" where
  "wildcard_length model c =
     (let p = TrimSuffix (rt_Prefix c) ''*''
      in if HasSuffix (rt_Prefix c) ''*'' \<and> HasPrefix model p then Some (length p) else None)"

definition longest_wildcard :: "string \<Rightarrow> RouteConfig list \<Rightarrow> nat \<Rightarrow> nat \<Rightarrow> bool" where
  "longest_wildcard model cs i n \<longleftrightarrow> i < length cs \<and> wildcard_length model (cs ! i) = Some n \<and>
     (\<forall>j<length cs. case wildcard_length model (cs ! j) of None \<Rightarrow> True | Some m \<Rightarrow> m < n \<or> m = n \<and> i \<le> j)"

definition prefix_choice :: "string \<Rightarrow> RouteConfig list \<Rightarrow> nat option \<Rightarrow> bool" where
  "prefix_choice model cs r \<longleftrightarrow>
     (if list_ex (exact_match model) cs
      then \<exists>i<length cs. r = Some i \<and> exact_match model (cs ! i) \<and> (\<forall>j<i. \<not> exact_match model (cs ! j))
      else case r of None \<Rightarrow> list_all (\<lambda>c. wildcard_length model c = None) cs
           | Some i \<Rightarrow> \<exists>n. longest_wildcard model cs i n)"

definition prefix_state :: "string \<Rightarrow> RouteConfig list \<Rightarrow> int \<Rightarrow> nat option \<Rightarrow> bool" where
  "prefix_state model ps l sel \<longleftrightarrow> \<not> list_ex (exact_match model) ps \<and>
     (case sel of None \<Rightarrow> l = - 1 \<and> list_all (\<lambda>c. wildcard_length model c = None) ps
      | Some i \<Rightarrow> 0 \<le> l \<and> longest_wildcard model ps i (nat l))"

lemma prefix_state_snoc:
  assumes "prefix_state model ps l sel" "\<not> exact_match model c"
  shows "prefix_state model (ps @ [c])
     (case wildcard_length model c of Some n \<Rightarrow> if l < int n then int n else l | None \<Rightarrow> l)
     (case wildcard_length model c of Some n \<Rightarrow> if l < int n then Some (length ps) else sel | None \<Rightarrow> sel)"
proof (cases "wildcard_length model c")
  case None
  then show ?thesis using assms
    by (auto simp: prefix_state_def longest_wildcard_def nth_append less_Suc_eq split: option.splits)
next
  case (Some n)
  show ?thesis
  proof (cases sel)
    case None
    then show ?thesis using assms Some
      by (auto simp: prefix_state_def longest_wildcard_def nth_append less_Suc_eq list_all_length split: option.splits)
  next
    case (Some i)
    then show ?thesis using assms \<open>wildcard_length model c = Some n\<close>
      by (fastforce simp: prefix_state_def longest_wildcard_def nth_append less_Suc_eq split: option.splits if_splits)
  qed
qed

lemma prefix_index_choice:
  assumes "prefix_state model ps l sel"
  shows "prefix_choice model (ps @ cs) (prefix_index model l sel (length ps) cs)"
  using assms
proof (induction cs arbitrary: ps l sel)
  case Nil
  then show ?case by (auto simp: prefix_choice_def prefix_state_def split: option.splits)
next
  case (Cons c cs)
  show ?case
  proof (cases "exact_match model c")
    case True
    then have "prefix_index model l sel (length ps) (c # cs) = Some (length ps)" by (simp add: exact_match_def)
    moreover have "\<not> exact_match model (ps ! j)" if "j < length ps" for j
      using Cons.prems that by (auto simp: prefix_state_def list_ex_iff)
    ultimately show ?thesis using True by (auto simp: prefix_choice_def nth_append)
  next
    case False
    let ?l = "case wildcard_length model c of Some n \<Rightarrow> if l < int n then int n else l | None \<Rightarrow> l"
    let ?sel = "case wildcard_length model c of Some n \<Rightarrow> if l < int n then Some (length ps) else sel | None \<Rightarrow> sel"
    have "prefix_index model l sel (length ps) (c # cs) = prefix_index model ?l ?sel (length (ps @ [c])) cs"
      using False by (auto simp: exact_match_def wildcard_length_def Let_def)
    then show ?thesis using Cons.IH [OF prefix_state_snoc [OF Cons.prems False]] by simp
  qed
qed

subsection \<open>Properties\<close>

text \<open>C30. With non-negative weights whose sum fits, the weighted policy never panics and sends a request to
  route \<open>j\<close> for exactly \<open>weight j\<close> of the random numbers below the total: each route gets its share.\<close>

theorem weight_routing_exact:
  assumes "weights_ok (sr_routingConfigs sr)" "0 < weight_sum (sr_routingConfigs sr)" "j < length (sr_routingConfigs sr)"
  shows "card {r. 0 \<le> r \<and> r < sint (total_weight (sr_routingConfigs sr)) \<and>
            weight_index (word_of_int r) 0 0 (sr_routingConfigs sr) = j} = nat (sint (rt_Weight (sr_routingConfigs sr ! j))) \<and>
    selectByWeight randNum sr = Some (route_of (sr_routingConfigs sr) (weight_index randNum 0 0 (sr_routingConfigs sr)))"
proof
  let ?cs = "sr_routingConfigs sr"
  have tot: "sint (total_weight ?cs) = weight_sum ?cs" using assms(1) by (rule total_weight_sum)
  have nn: "list_all (\<lambda>c. 0 \<le> sint (rt_Weight c)) ?cs" using assms(1) by (simp add: weights_ok_def)
  have le: "0 \<le> weight_sum (take j ?cs)" "weight_sum (take (Suc j) ?cs) \<le> weight_sum ?cs"
    using weight_sum_take_mono [OF nn, of 0 j] weight_sum_take_mono [OF nn, of "Suc j" "length ?cs"] assms(3) by auto
  have "{r. 0 \<le> r \<and> r < sint (total_weight ?cs) \<and> weight_index (word_of_int r) 0 0 ?cs = j} =
      {weight_sum (take j ?cs) ..< weight_sum (take (Suc j) ?cs)}"
  proof (rule set_eqI)
    fix r
    show "r \<in> {r. 0 \<le> r \<and> r < sint (total_weight ?cs) \<and> weight_index (word_of_int r) 0 0 ?cs = j} \<longleftrightarrow>
        r \<in> {weight_sum (take j ?cs) ..< weight_sum (take (Suc j) ?cs)}"
      using weight_index_range [OF assms(1) _ _ assms(3), of r] le
      by (cases "0 \<le> r \<and> r < weight_sum ?cs") (simp_all add: tot, linarith)
  qed
  then show "card {r. 0 \<le> r \<and> r < sint (total_weight ?cs) \<and> weight_index (word_of_int r) 0 0 ?cs = j} = nat (sint (rt_Weight (?cs ! j)))"
    using weight_sum_take_Suc [OF assms(3)] by simp
  show "selectByWeight randNum sr = Some (route_of ?cs (weight_index randNum 0 0 ?cs))"
    using tot assms(2,3) by (auto simp: selectByWeight_def Let_def)
qed

text \<open>The prefix policy takes the first route whose prefix is the model name; if there is none, the
  route with the longest matching wildcard prefix, the first of them; and no route if none matches.\<close>

theorem prefix_routing_exact:
  "\<exists>r. prefix_choice (rc_Model rc) (sr_routingConfigs sr) r \<and>
     selectByPrefix rc sr =
       (if rc_Model rc = [] then (None, RouteInternal)
        else case r of None \<Rightarrow> (None, RouteUnknown) | Some i \<Rightarrow> route_of (sr_routingConfigs sr) i)"
proof (intro exI conjI)
  show "prefix_choice (rc_Model rc) (sr_routingConfigs sr) (prefix_index (rc_Model rc) (- 1) None 0 (sr_routingConfigs sr))"
    using prefix_index_choice [of "rc_Model rc" "[]" "- 1" None "sr_routingConfigs sr"] by (simp add: prefix_state_def)
qed (simp add: selectByPrefix_def)

subsection \<open>Joining a versioned base\<close>

lemma takeWhile_all: "list_all P xs \<Longrightarrow> (case ys of [] \<Rightarrow> True | y # _ \<Rightarrow> \<not> P y) \<Longrightarrow>
    takeWhile P (xs @ ys) = xs \<and> dropWhile P (xs @ ys) = ys"
  by (induction xs) (auto split: list.splits)

text \<open>A version at the end of the base URL is not repeated by the one the path starts with.\<close>

lemma JoinURL_version_once:
  assumes "re_URL re = host @ ''/v'' @ ds" "ds \<noteq> []" "list_all is_digit ds"
    "es \<noteq> []" "list_all is_digit es" "case rest of [] \<Rightarrow> True | c # _ \<Rightarrow> \<not> is_digit c"
  shows "JoinURL re (''/v'' @ es @ rest) = host @ ''/v'' @ ds @ rest"
proof -
  have v: "\<not> is_digit (CHR ''v'')" by (simp add: is_digit_def)
  have base: "TrimSuffix (re_URL re) ''/'' = host @ ''/v'' @ ds"
  proof -
    have "last ds \<noteq> CHR ''/''" using assms(2,3) by (auto simp: list_all_iff is_digit_def dest!: last_in_set)
    then show ?thesis using assms(1,2) by (cases ds rule: rev_cases) (auto simp: TrimSuffix_def HasSuffix_def)
  qed
  have "takeWhile is_digit (rev ds @ ''v/'' @ rev host) = rev ds \<and> dropWhile is_digit (rev ds @ ''v/'' @ rev host) = ''v/'' @ rev host"
    using assms(3) v by (intro takeWhile_all) auto
  then have "ends_with_version (host @ ''/v'' @ ds)" using assms(2) by (simp add: ends_with_version_def Let_def)
  moreover have "drop_version (''/v'' @ es @ rest) = rest"
    using takeWhile_all [OF assms(5,6)] assms(4) by (simp add: drop_version_def HasPrefix_def)
  ultimately show ?thesis using base by (simp add: JoinURL_def HasPrefix_def)
qed

subsection \<open>Witness\<close>

definition ex_route :: "string \<Rightarrow> i64 \<Rightarrow> RouteConfig" where
  "ex_route url w = \<lparr>rt_URL = url, rt_APIKey = [], rt_Model = [], rt_IsFallback = True, rt_Weight = w, rt_Prefix = ''*''\<rparr>"

definition ex_router :: ServiceRouter where
  "ex_router = NewServiceRouter (\<lambda>_. Some [ex_route ''local'' 3, ex_route ''http://a/v1'' 0, ex_route ''http://b'' 2]) ''weight'' ''[]''"

theorem weight_routing_exact_witness:
  "weights_ok (sr_routingConfigs ex_router) \<and> 0 < weight_sum (sr_routingConfigs ex_router) \<and>
   card {r. 0 \<le> r \<and> r < sint (total_weight (sr_routingConfigs ex_router)) \<and>
            weight_index (word_of_int r) 0 0 (sr_routingConfigs ex_router) = 2} = 2"
proof -
  have h: "weights_ok (sr_routingConfigs ex_router)" "0 < weight_sum (sr_routingConfigs ex_router)"
    "2 < length (sr_routingConfigs ex_router)" "nat (sint (rt_Weight (sr_routingConfigs ex_router ! 2))) = 2" by code_simp+
  from weight_routing_exact [OF h(1-3)] h show ?thesis by simp
qed

end
