(* ===== verification/Go_Heap.thy ===== *)
theory Go_Heap
  imports Go_Prelude
begin

text \<open>
  Go's \<open>container/heap\<close> on a slice: \<open>up\<close>, \<open>down\<close>, \<open>Push\<close> and \<open>Pop\<close> as the standard library has them,
  for a type whose \<open>Push\<close> appends and whose \<open>Pop\<close> removes the last element.

  Lemmas, for a comparison that is a strict weak order: both loops keep the elements; each repairs a
  slice whose heap order fails at one index only; the root is minimal, so \<open>Pop\<close> returns a minimal
  element.
\<close>

definition swap :: "'a list \<Rightarrow> nat \<Rightarrow> nat \<Rightarrow> 'a list" where
  "swap xs i j = xs[i := xs ! j, j := xs ! i]"

function up :: "('a \<Rightarrow> 'a \<Rightarrow> bool) \<Rightarrow> 'a list \<Rightarrow> nat \<Rightarrow> 'a list" where
  "up lt xs j =
     (let i = (j - 1) div 2
      in if i = j \<or> \<not> lt (xs ! j) (xs ! i) then xs else up lt (swap xs i j) i)"
  by pat_completeness auto
termination by (relation "measure (\<lambda>(lt, xs, j). j)") auto

function down :: "('a \<Rightarrow> 'a \<Rightarrow> bool) \<Rightarrow> 'a list \<Rightarrow> nat \<Rightarrow> nat \<Rightarrow> 'a list" where
  "down lt xs i n =
     (let j1 = 2 * i + 1
      in if n \<le> j1 then xs
         else let j = (if j1 + 1 < n \<and> lt (xs ! (j1 + 1)) (xs ! j1) then j1 + 1 else j1)
              in if \<not> lt (xs ! j) (xs ! i) then xs else down lt (swap xs i j) j n)"
  by pat_completeness auto
termination by (relation "measure (\<lambda>(lt, xs, i, n). n - i)") (auto split: if_splits)

declare up.simps [simp del] down.simps [simp del]

definition heap_Push :: "('a \<Rightarrow> 'a \<Rightarrow> bool) \<Rightarrow> 'a \<Rightarrow> 'a list \<Rightarrow> 'a list" where
  "heap_Push lt x xs = up lt (xs @ [x]) (length xs)"

definition heap_Pop :: "('a \<Rightarrow> 'a \<Rightarrow> bool) \<Rightarrow> 'a list \<Rightarrow> 'a \<times> 'a list" where
  "heap_Pop lt xs =
     (let n = length xs - 1;
          ys = down lt (swap xs 0 n) 0 n
      in (ys ! n, take n ys))"

subsection \<open>Elements\<close>

lemma length_swap [simp]: "length (swap xs i j) = length xs"
  by (simp add: swap_def)

lemma mset_swap_at [simp]: "i < length xs \<Longrightarrow> j < length xs \<Longrightarrow> mset (swap xs i j) = mset xs"
  by (simp add: swap_def mset_swap)

lemma nth_swap:
  "i < length xs \<Longrightarrow> j < length xs \<Longrightarrow> swap xs i j ! k = (if k = j then xs ! i else if k = i then xs ! j else xs ! k)"
  by (auto simp: swap_def nth_list_update)

lemma parent_less: "(j - 1) div 2 \<noteq> j \<Longrightarrow> (j - 1) div 2 < (j :: nat)"
  by (induction j) auto

lemma mset_up: "j < length xs \<Longrightarrow> mset (up lt xs j) = mset xs"
proof (induction lt xs j rule: up.induct)
  case (1 lt xs j)
  then show ?case using parent_less [of j] by (subst up.simps) (auto simp: Let_def)
qed

lemma mset_down: "n \<le> length xs \<Longrightarrow> mset (down lt xs i n) = mset xs"
proof (induction lt xs i n rule: down.induct)
  case (1 lt xs i n)
  then show ?case by (subst down.simps) (auto simp: Let_def)
qed

lemma down_beyond: "n \<le> length xs \<Longrightarrow> i < n \<Longrightarrow> n \<le> k \<Longrightarrow> down lt xs i n ! k = xs ! k"
proof (induction lt xs i n rule: down.induct)
  case (1 lt xs i n)
  then show ?case by (subst down.simps) (auto simp: Let_def nth_swap)
qed

lemma length_up [simp]: "j < length xs \<Longrightarrow> length (up lt xs j) = length xs"
  by (metis mset_up size_mset)

lemma length_down [simp]: "n \<le> length xs \<Longrightarrow> length (down lt xs i n) = length xs"
  by (metis mset_down size_mset)

subsection \<open>Heap order\<close>

text \<open>Heap order among the first \<open>n\<close> elements, at every index that satisfies \<open>P\<close>.\<close>

definition heap_where :: "('a \<Rightarrow> 'a \<Rightarrow> bool) \<Rightarrow> (nat \<Rightarrow> bool) \<Rightarrow> nat \<Rightarrow> 'a list \<Rightarrow> bool" where
  "heap_where lt P n xs \<longleftrightarrow> (\<forall>k. 0 < k \<longrightarrow> k < n \<longrightarrow> P k \<longrightarrow> \<not> lt (xs ! k) (xs ! ((k - 1) div 2)))"

abbreviation is_heap :: "('a \<Rightarrow> 'a \<Rightarrow> bool) \<Rightarrow> 'a list \<Rightarrow> bool" where
  "is_heap lt xs \<equiv> heap_where lt (\<lambda>_. True) (length xs) xs"

text \<open>The children of \<open>j\<close> are not before the parent of \<open>j\<close>.\<close>

definition bridged :: "('a \<Rightarrow> 'a \<Rightarrow> bool) \<Rightarrow> nat \<Rightarrow> nat \<Rightarrow> 'a list \<Rightarrow> bool" where
  "bridged lt j n xs \<longleftrightarrow>
     (\<forall>k. 0 < k \<longrightarrow> k < n \<longrightarrow> (k - 1) div 2 = j \<longrightarrow> 0 < j \<longrightarrow> \<not> lt (xs ! k) (xs ! ((j - 1) div 2)))"

lemma heap_whereD: "heap_where lt P n xs \<Longrightarrow> 0 < k \<Longrightarrow> k < n \<Longrightarrow> P k \<Longrightarrow> \<not> lt (xs ! k) (xs ! ((k - 1) div 2))"
  by (simp add: heap_where_def)

lemma bridgedD:
  "bridged lt j n xs \<Longrightarrow> 0 < k \<Longrightarrow> k < n \<Longrightarrow> (k - 1) div 2 = j \<Longrightarrow> 0 < j \<Longrightarrow> \<not> lt (xs ! k) (xs ! ((j - 1) div 2))"
  by (simp add: bridged_def)

context strict_weak_order
begin

lemma up_step:
  assumes "\<forall>x\<in>set xs. ok x" "j < length xs" "0 < j" "lt (xs ! j) (xs ! ((j - 1) div 2))"
    "heap_where lt (\<lambda>k. k \<noteq> j) (length xs) xs" "bridged lt j (length xs) xs"
  defines "i \<equiv> (j - 1) div 2" and "ys \<equiv> swap xs ((j - 1) div 2) j"
  shows "heap_where lt (\<lambda>k. k \<noteq> i) (length ys) ys" "bridged lt i (length ys) ys"
proof -
  have ij: "i < j" "i < length xs" using assms(2,3) by (auto simp: i_def)
  have o: "k < length xs \<Longrightarrow> ok (xs ! k)" for k using assms(1) by simp
  have ys: "ys ! k = (if k = j then xs ! i else if k = i then xs ! j else xs ! k)" for k
    using ij assms(2) by (simp add: ys_def nth_swap i_def)
  have ji: "\<not> lt (xs ! i) (xs ! j)" by (rule lt_asym [OF o [OF assms(2)] o [OF ij(2)] assms(4) [folded i_def]])
  have sib: "\<not> lt (xs ! k) (xs ! i)" if "0 < k" "k < length xs" "k \<noteq> j" "(k - 1) div 2 = i" for k
    using heap_whereD [OF assms(5) that(1,2)] that(3,4) by simp
  show "heap_where lt (\<lambda>k. k \<noteq> i) (length ys) ys"
    unfolding heap_where_def
  proof (intro allI impI)
    fix k assume k: "0 < k" "k < length ys" "k \<noteq> i"
    then have kn: "k < length xs" by (simp add: ys_def)
    have p: "(k - 1) div 2 < k" using k(1) by auto
    show "\<not> lt (ys ! k) (ys ! ((k - 1) div 2))"
    proof (cases "k = j")
      case True
      then have "(k - 1) div 2 = i" by (simp add: i_def)
      then show ?thesis using True ji ij by (simp add: ys)
    next
      case False
      consider "(k - 1) div 2 = j" | "(k - 1) div 2 = i" | "(k - 1) div 2 \<noteq> j" "(k - 1) div 2 \<noteq> i" by blast
      then show ?thesis
      proof cases
        case 1
        then show ?thesis using bridgedD [OF assms(6) k(1) kn 1 assms(3)] False k(3) by (simp add: ys i_def)
      next
        case 2
        then have "\<not> lt (xs ! k) (xs ! j)"
          using not_lt_trans [of "xs ! k" "xs ! i" "xs ! j"] sib [OF k(1) kn False 2] ji o kn ij assms(2) by simp
        then show ?thesis using False k(3) 2 ij by (simp add: ys)
      next
        case 3
        then show ?thesis using heap_whereD [OF assms(5) k(1) kn] False k(3) by (simp add: ys)
      qed
    qed
  qed
  show "bridged lt i (length ys) ys"
    unfolding bridged_def
  proof (intro allI impI)
    fix k assume k: "0 < k" "k < length ys" "(k - 1) div 2 = i" "0 < i"
    then have kn: "k < length xs" "k \<noteq> i" by (auto simp: ys_def)
    have pi: "(i - 1) div 2 < i" using k(4) by auto
    have up: "\<not> lt (xs ! i) (xs ! ((i - 1) div 2))" using heap_whereD [OF assms(5) k(4) ij(2)] ij by simp
    show "\<not> lt (ys ! k) (ys ! ((i - 1) div 2))"
    proof (cases "k = j")
      case False
      then have "\<not> lt (xs ! k) (xs ! ((i - 1) div 2))"
        using not_lt_trans [of "xs ! k" "xs ! i" "xs ! ((i - 1) div 2)"] sib [OF k(1) kn(1) False k(3)] up o kn ij pi by simp
      then show ?thesis using False kn pi ij by (simp add: ys)
    qed (use up pi ij in \<open>simp add: ys\<close>)
  qed
qed

lemma up_heap:
  assumes "\<forall>x\<in>set xs. ok x" "j < length xs" "heap_where lt (\<lambda>k. k \<noteq> j) (length xs) xs" "bridged lt j (length xs) xs"
  shows "is_heap lt (up lt xs j)"
  using assms
proof (induction j arbitrary: xs rule: less_induct)
  case (less j)
  let ?i = "(j - 1) div 2"
  show ?case
  proof (cases "?i = j \<or> \<not> lt (xs ! j) (xs ! ?i)")
    case True
    then have "up lt xs j = xs" by (subst up.simps) (simp add: Let_def)
    moreover have "is_heap lt xs"
      unfolding heap_where_def
    proof (intro allI impI)
      fix k assume k: "0 < k" "k < length xs"
      show "\<not> lt (xs ! k) (xs ! ((k - 1) div 2))"
      proof (cases "k = j")
        case True
        moreover have "?i \<noteq> j" using k(1) True by auto
        ultimately show ?thesis using \<open>?i = j \<or> \<not> lt (xs ! j) (xs ! ?i)\<close> by simp
      qed (use heap_whereD [OF less.prems(3) k] in simp)
    qed
    ultimately show ?thesis by simp
  next
    case False
    then have j: "0 < j" "?i < j" using parent_less by (auto intro: gr0I)
    from False have "up lt xs j = up lt (swap xs ?i j) ?i" by (subst up.simps) (simp add: Let_def)
    moreover have "set (swap xs ?i j) = set xs"
      using mset_swap_at [of ?i xs j] less.prems(2) j by (metis order.strict_trans set_mset_mset)
    ultimately show ?thesis
      using less.IH [OF j(2), of "swap xs ?i j"] up_step [OF less.prems(1,2) j(1) _ less.prems(3,4)] False less.prems j by simp
  qed
qed

lemma down_step:
  assumes "\<forall>x\<in>set xs. ok x" "n \<le> length xs" "j < n" "0 < j" "(j - 1) div 2 = i" "lt (xs ! j) (xs ! i)"
    "\<And>k. 0 < k \<Longrightarrow> k < n \<Longrightarrow> (k - 1) div 2 = i \<Longrightarrow> \<not> lt (xs ! k) (xs ! j)"
    "heap_where lt (\<lambda>k. (k - 1) div 2 \<noteq> i) n xs" "bridged lt i n xs"
  defines "ys \<equiv> swap xs i j"
  shows "heap_where lt (\<lambda>k. (k - 1) div 2 \<noteq> j) n ys" "bridged lt j n ys"
proof -
  have ij: "i < j" "i < length xs" "j < length xs" using assms(2-5) by auto
  have o: "k < length xs \<Longrightarrow> ok (xs ! k)" for k using assms(1) by simp
  have ys: "ys ! k = (if k = j then xs ! i else if k = i then xs ! j else xs ! k)" for k
    using ij by (simp add: ys_def nth_swap)
  show "heap_where lt (\<lambda>k. (k - 1) div 2 \<noteq> j) n ys"
    unfolding heap_where_def
  proof (intro allI impI)
    fix k assume k: "0 < k" "k < n" "(k - 1) div 2 \<noteq> j"
    have p: "(k - 1) div 2 < k" using k(1) by auto
    show "\<not> lt (ys ! k) (ys ! ((k - 1) div 2))"
    proof (cases "(k - 1) div 2 = i")
      case True
      show ?thesis
      proof (cases "k = j")
        case True
        then show ?thesis using lt_asym [OF o [OF ij(3)] o [OF ij(2)] assms(6)] ij assms(5) by (simp add: ys)
      next
        case False
        then show ?thesis using assms(7) [OF k(1,2) True] True p ij by (simp add: ys)
      qed
    next
      case False
      have old: "\<not> lt (xs ! k) (xs ! ((k - 1) div 2))" using heap_whereD [OF assms(8) k(1,2)] False by simp
      show ?thesis
      proof (cases "k = i")
        case True
        then have "\<not> lt (xs ! j) (xs ! ((i - 1) div 2))"
          using bridgedD [OF assms(9,4,3,5)] k(1) by simp
        then show ?thesis using True False k(3) ij by (simp add: ys)
      qed (use old False k(3) assms(5) in \<open>auto simp: ys\<close>)
    qed
  qed
  show "bridged lt j n ys"
    unfolding bridged_def
  proof (intro allI impI)
    fix k assume k: "0 < k" "k < n" "(k - 1) div 2 = j" "0 < j"
    have "j < k" using k by auto
    moreover have "\<not> lt (xs ! k) (xs ! j)" using heap_whereD [OF assms(8) k(1,2)] k(3) ij by simp
    ultimately show "\<not> lt (ys ! k) (ys ! ((j - 1) div 2))" using ij assms(5) by (simp add: ys)
  qed
qed

lemma down_heap:
  assumes "\<forall>x\<in>set xs. ok x" "n \<le> length xs" "heap_where lt (\<lambda>k. (k - 1) div 2 \<noteq> i) n xs" "bridged lt i n xs"
  shows "heap_where lt (\<lambda>_. True) n (down lt xs i n)"
  using assms
proof (induction "n - i" arbitrary: xs i rule: less_induct)
  case less
  let ?j1 = "2 * i + 1"
  let ?j = "if ?j1 + 1 < n \<and> lt (xs ! (?j1 + 1)) (xs ! ?j1) then ?j1 + 1 else ?j1"
  have o: "k < n \<Longrightarrow> ok (xs ! k)" for k using less.prems(1,2) by simp
  have kid: "k = ?j1 \<or> k = ?j1 + 1" if "0 < k" "(k - 1) div 2 = i" for k using that by auto
  have fine: "heap_where lt (\<lambda>_. True) n xs" if "\<And>k. 0 < k \<Longrightarrow> k < n \<Longrightarrow> (k - 1) div 2 = i \<Longrightarrow> \<not> lt (xs ! k) (xs ! i)"
    using that less.prems(3) by (auto simp: heap_where_def)
  show ?case
  proof (cases "n \<le> ?j1")
    case True
    then show ?thesis using fine kid by (subst down.simps) fastforce
  next
    case False
    have min: "\<not> lt (xs ! k) (xs ! ?j)" if k: "0 < k" "k < n" "(k - 1) div 2 = i" for k
      using kid [OF k(1,3)] k(2) lt_irrefl [OF o] lt_asym [OF o o] by auto
    have j: "?j < n" "0 < ?j" "(?j - 1) div 2 = i" "i < ?j" using False by auto
    have unfold: "down lt xs i n = (if \<not> lt (xs ! ?j) (xs ! i) then xs else down lt (swap xs i ?j) ?j n)"
      by (subst down.simps) (simp only: Let_def False if_False)
    show ?thesis
    proof (cases "lt (xs ! ?j) (xs ! i)")
      case lt: True
      then have "down lt xs i n = down lt (swap xs i ?j) ?j n" unfolding unfold by (simp only: not_True_eq_False if_False)
      moreover have "heap_where lt (\<lambda>_. True) n (down lt (swap xs i ?j) ?j n)"
      proof (rule less.hyps)
        show "n - ?j < n - i" by (rule diff_less_mono2 [OF j(4) less_trans [OF j(4,1)]])
        have "i < length xs" "?j < length xs" using j(1,4) less.prems(2) by linarith+
        then have "set (swap xs i ?j) = set xs" using mset_swap_at by (metis set_mset_mset)
        then show "\<forall>x\<in>set (swap xs i ?j). ok x" using less.prems(1) by blast
        show "n \<le> length (swap xs i ?j)" using less.prems(2) unfolding length_swap .
        note step = down_step [OF less.prems(1,2) j(1-3) lt min less.prems(3,4)]
        show "heap_where lt (\<lambda>k. (k - 1) div 2 \<noteq> ?j) n (swap xs i ?j)" by (rule step(1))
        show "bridged lt ?j n (swap xs i ?j)" by (rule step(2))
      qed
      ultimately show ?thesis by (rule ssubst)
    next
      case ge: False
      have "\<not> lt (xs ! k) (xs ! i)" if k: "0 < k" "k < n" "(k - 1) div 2 = i" for k
        using not_lt_trans [OF o [OF k(2)] o [OF j(1)] o min [OF k] ge] j by simp
      moreover have "down lt xs i n = xs" unfolding unfold using ge by (simp only: not_False_eq_True if_True)
      ultimately show ?thesis using fine by simp
    qed
  qed
qed

lemma heap_root_min:
  assumes "\<forall>x\<in>set xs. ok x" "is_heap lt xs" "k < length xs"
  shows "\<not> lt (xs ! k) (xs ! 0)"
  using assms(3)
proof (induction k rule: less_induct)
  case (less k)
  show ?case
  proof (cases "k = 0")
    case True
    then show ?thesis using lt_irrefl assms(1) less.prems by simp
  next
    case False
    let ?p = "(k - 1) div 2"
    have p: "?p < k" using False by auto
    have "\<not> lt (xs ! k) (xs ! ?p)" using heap_whereD [OF assms(2), of k] False less.prems by simp
    moreover have "\<not> lt (xs ! ?p) (xs ! 0)" using less.IH [OF p] p less.prems by simp
    moreover have "ok (xs ! k)" "ok (xs ! ?p)" "ok (xs ! 0)" using assms(1) less.prems p by (auto intro!: nth_mem)
    ultimately show ?thesis using not_lt_trans by blast
  qed
qed

lemma heap_Push:
  assumes "\<forall>x\<in>set xs. ok x" "ok x" "is_heap lt xs"
  shows "is_heap lt (heap_Push lt x xs)" "mset (heap_Push lt x xs) = add_mset x (mset xs)"
proof -
  let ?ys = "xs @ [x]"
  have "heap_where lt (\<lambda>k. k \<noteq> length xs) (length ?ys) ?ys"
    unfolding heap_where_def
  proof (intro allI impI)
    fix k assume k: "0 < k" "k < length ?ys" "k \<noteq> length xs"
    then have kn: "k < length xs" "(k - 1) div 2 < length xs" by auto
    show "\<not> lt (?ys ! k) (?ys ! ((k - 1) div 2))"
      using heap_whereD [OF assms(3) k(1) kn(1)] kn by (simp add: nth_append)
  qed
  moreover have "bridged lt (length xs) (length ?ys) ?ys" by (auto simp: bridged_def)
  ultimately show "is_heap lt (heap_Push lt x xs)"
    unfolding heap_Push_def using assms(1,2) by (intro up_heap) auto
  show "mset (heap_Push lt x xs) = add_mset x (mset xs)" by (simp add: heap_Push_def mset_up)
qed

lemma heap_Pop:
  assumes "\<forall>x\<in>set xs. ok x" "is_heap lt xs" "xs \<noteq> []" "heap_Pop lt xs = (x, ys)"
  shows "is_heap lt ys" "mset xs = add_mset x (mset ys)" "\<forall>y\<in>set xs. \<not> lt y x"
proof -
  define n where "n = length xs - 1"
  define zs where "zs = swap xs 0 n"
  have n: "n < length xs" "0 < length xs" "Suc n = length xs" using assms(3) by (simp_all add: n_def)
  have zs: "zs ! k = (if k = n then xs ! 0 else if k = 0 then xs ! n else xs ! k)" "length zs = length xs" for k
    using n by (simp_all add: zs_def nth_swap)
  have mset: "mset zs = mset xs" using n unfolding zs_def by (intro mset_swap_at) auto
  then have ok: "\<forall>x\<in>set zs. ok x" using assms(1) by (metis set_mset_mset)
  have "heap_where lt (\<lambda>k. (k - 1) div 2 \<noteq> 0) n zs"
    unfolding heap_where_def
  proof (intro allI impI)
    fix k assume k: "0 < k" "k < n" "(k - 1) div 2 \<noteq> 0"
    then have "(k - 1) div 2 < n" by auto
    then show "\<not> lt (zs ! k) (zs ! ((k - 1) div 2))" using heap_whereD [OF assms(2) k(1)] k n by (simp add: zs)
  qed
  moreover have "bridged lt 0 n zs" by (simp add: bridged_def)
  ultimately have heap: "heap_where lt (\<lambda>_. True) n (down lt zs 0 n)" using ok n zs(2) by (intro down_heap) auto
  have len: "length (down lt zs 0 n) = length xs" using n zs(2) by simp
  have x: "x = down lt zs 0 n ! n" and ys: "ys = take n (down lt zs 0 n)"
    using assms(4) by (auto simp: heap_Pop_def Let_def zs_def n_def)
  show "is_heap lt ys" using heap len n by (auto simp: heap_where_def ys)
  have "down lt zs 0 n = ys @ [x]" using len n take_Suc_conv_app_nth [of n "down lt zs 0 n"] by (simp add: x ys)
  then have "mset (down lt zs 0 n) = add_mset x (mset ys)" by simp
  then show "mset xs = add_mset x (mset ys)" using mset mset_down [of n zs lt 0] n zs(2) by simp
  have "x = xs ! 0"
  proof (cases "n = 0")
    case True
    then show ?thesis using zs(1) [of 0] by (simp add: x down.simps)
  next
    case False
    then show ?thesis using down_beyond [of n zs 0 n lt] n zs(2) zs(1) [of n] by (simp add: x)
  qed
  then show "\<forall>y\<in>set xs. \<not> lt y x" using heap_root_min [OF assms(1,2)] by (metis in_set_conv_nth)
qed

end

end
