(* ===== verification/Gateway_Queue.thy ===== *)
theory Gateway_Queue
  imports Go_Heap
begin

text \<open>
  The gateway's priority queue: \<open>pkg/gateway/queue/priority_queue.go\<close>.

  A queue is the heap slice, the next insertion index and the \<open>ready\<close> flag; every method holds the
  mutex.  \<open>WaitPop\<close> is \<open>None\<close> while the caller waits on the condition variable.

  Lemmas: the comparison of items is a strict order; the queue refines two FIFO lists, one per
  priority, served high before normal.
\<close>

record 'a Item =
  it_priority :: i64
  it_index :: i64
  it_task :: 'a

definition LessCompare :: "'a Item \<Rightarrow> 'a Item \<Rightarrow> bool" where
  "LessCompare x y \<longleftrightarrow>
     (if it_priority x \<noteq> it_priority y then sint (it_priority x) < sint (it_priority y)
      else sint (it_index x) < sint (it_index y))"

record 'a PriorityQueue =
  pq_h :: "'a Item list"
  pq_ready :: bool
  pq_nextIndex :: i64

definition NewPriorityQueue :: "'a PriorityQueue" where
  "NewPriorityQueue = \<lparr>pq_h = [], pq_ready = True, pq_nextIndex = 0\<rparr>"

definition pop_item :: "'a PriorityQueue \<Rightarrow> 'a PriorityQueue \<times> 'a" where
  "pop_item q = (let (x, h) = heap_Pop LessCompare (pq_h q) in (q\<lparr>pq_h := h\<rparr>, it_task x))"

definition WaitPop :: "'a PriorityQueue \<Rightarrow> ('a PriorityQueue \<times> 'a option) option" where
  "WaitPop q =
     (if pq_ready q \<and> pq_h q = [] then None
      else if \<not> pq_ready q then Some (q, None)
      else Some (let (q', t) = pop_item q in (q', Some t)))"

definition TryPop :: "'a PriorityQueue \<Rightarrow> 'a PriorityQueue \<times> 'a option" where
  "TryPop q =
     (if \<not> pq_ready q \<or> pq_h q = [] then (q, None)
      else let (q', t) = pop_item q in (q', Some t))"

definition pq_Push :: "'a \<Rightarrow> bool \<Rightarrow> 'a PriorityQueue \<Rightarrow> 'a PriorityQueue" where
  "pq_Push task isHigherPriority q =
     (let priority = (if isHigherPriority then 0 else 1);
          item = \<lparr>it_priority = priority, it_index = pq_nextIndex q, it_task = task\<rparr>
      in q\<lparr>pq_nextIndex := pq_nextIndex q + 1, pq_h := heap_Push LessCompare item (pq_h q)\<rparr>)"

definition pq_Len :: "'a PriorityQueue \<Rightarrow> nat" where
  "pq_Len q = length (pq_h q)"

definition pq_Close :: "'a PriorityQueue \<Rightarrow> 'a PriorityQueue" where
  "pq_Close q = q\<lparr>pq_ready := False\<rparr>"

subsection \<open>Operations and their specification\<close>

datatype 'a pq_op = PushOp 'a bool | TryPopOp | LenOp | CloseOp

datatype 'a pq_result = Done | Popped "'a option" | Length nat

fun pq_exec :: "'a pq_op \<Rightarrow> 'a PriorityQueue \<Rightarrow> 'a PriorityQueue \<times> 'a pq_result" where
  "pq_exec (PushOp t b) q = (pq_Push t b q, Done)"
| "pq_exec TryPopOp q = (let (q', r) = TryPop q in (q', Popped r))"
| "pq_exec LenOp q = (q, Length (pq_Len q))"
| "pq_exec CloseOp q = (pq_Close q, Done)"

text \<open>Insertion indices do not wrap: fewer than \<open>2^63\<close> tasks are pushed.\<close>

fun pq_op_ok :: "'a pq_op \<Rightarrow> 'a PriorityQueue \<Rightarrow> bool" where
  "pq_op_ok (PushOp t b) q \<longleftrightarrow> sint (pq_nextIndex q) < 2 ^ 63 - 1"
| "pq_op_ok _ q \<longleftrightarrow> True"

record 'a fifo2 =
  f_high :: "'a list"
  f_normal :: "'a list"
  f_open :: bool

fun f_pop :: "'a fifo2 \<Rightarrow> 'a fifo2 \<times> 'a option" where
  "f_pop s = (if \<not> f_open s then (s, None)
     else case f_high s of
            t # ts \<Rightarrow> (s\<lparr>f_high := ts\<rparr>, Some t)
          | [] \<Rightarrow> (case f_normal s of t # ts \<Rightarrow> (s\<lparr>f_normal := ts\<rparr>, Some t) | [] \<Rightarrow> (s, None)))"

fun f_exec :: "'a pq_op \<Rightarrow> 'a fifo2 \<Rightarrow> 'a fifo2 \<times> 'a pq_result" where
  "f_exec (PushOp t b) s =
     ((if b then s\<lparr>f_high := f_high s @ [t]\<rparr> else s\<lparr>f_normal := f_normal s @ [t]\<rparr>), Done)"
| "f_exec TryPopOp s = (let (s', r) = f_pop s in (s', Popped r))"
| "f_exec LenOp s = (s, Length (length (f_high s) + length (f_normal s)))"
| "f_exec CloseOp s = (s\<lparr>f_open := False\<rparr>, Done)"

abbreviation it_at :: "'a Item \<Rightarrow> int" where
  "it_at x \<equiv> sint (it_index x)"

definition pq_class :: "i64 \<Rightarrow> 'a PriorityQueue \<Rightarrow> 'a Item list" where
  "pq_class p q = sort_key it_at (filter (\<lambda>x. it_priority x = p) (pq_h q))"

definition pq_abs :: "'a PriorityQueue \<Rightarrow> 'a fifo2" where
  "pq_abs q = \<lparr>f_high = map it_task (pq_class 0 q), f_normal = map it_task (pq_class 1 q), f_open = pq_ready q\<rparr>"

definition pq_inv :: "'a PriorityQueue \<Rightarrow> bool" where
  "pq_inv q \<longleftrightarrow> is_heap LessCompare (pq_h q) \<and> distinct (map it_at (pq_h q)) \<and> 0 \<le> sint (pq_nextIndex q) \<and>
     (\<forall>x\<in>set (pq_h q). it_at x < sint (pq_nextIndex q) \<and> (it_priority x = 0 \<or> it_priority x = 1))"

subsection \<open>Refinement\<close>

lemma LessCompare_sint:
  "LessCompare x y \<longleftrightarrow> sint (it_priority x) < sint (it_priority y) \<or>
     sint (it_priority x) = sint (it_priority y) \<and> it_at x < it_at y"
  using word_eq_iff_signed [of "it_priority x" "it_priority y", where 'a = int] by (auto simp: LessCompare_def)

interpretation item_order: strict_weak_order LessCompare "\<lambda>_. True"
  by unfold_locales (auto simp: LessCompare_sint)

lemma sort_key_unique:
  assumes "distinct (map f xs)" "mset ys = mset xs" "sorted (map f ys)"
  shows "sort_key f xs = ys"
proof (rule properties_for_sort_key)
  fix k assume k: "k \<in> set ys"
  have inj: "inj_on f (set ys)" using assms(1,2) by (metis distinct_map set_mset_mset)
  have d: "distinct xs" "distinct ys" "set xs = set ys"
    using assms(1,2) by (metis distinct_map mset_eq_imp_distinct_iff set_mset_mset)+
  have one: "filter (\<lambda>x. f k = f x) zs = [k]" if "distinct zs" "set zs = set ys" for zs
  proof -
    have "set (filter (\<lambda>x. f k = f x) zs) = {k}" using that(2) k inj by (auto dest: inj_onD)
    moreover have "distinct (filter (\<lambda>x. f k = f x) zs)" using that(1) by simp
    ultimately show ?thesis using sorted_list_of_set_unique by (cases "filter (\<lambda>x. f k = f x) zs") (auto dest: subset_singletonD)
  qed
  show "filter (\<lambda>x. f k = f x) ys = filter (\<lambda>x. f k = f x) xs" using one d by simp
qed (use assms in simp_all)

lemma class_sorted:
  assumes "pq_inv q"
  shows "sorted (map it_at (pq_class p q))" "distinct (map it_at (filter (\<lambda>x. it_priority x = p) (pq_h q)))"
    "mset (pq_class p q) = filter_mset (\<lambda>x. it_priority x = p) (mset (pq_h q))"
    "set (pq_class p q) = {x \<in> set (pq_h q). it_priority x = p}"
  using assms by (auto simp: pq_class_def pq_inv_def distinct_map intro: inj_on_subset)

lemma pq_inv_Push:
  assumes "pq_inv q" "pq_op_ok (PushOp t b) q"
  shows "pq_inv (pq_Push t b q)"
    "pq_class p (pq_Push t b q) = pq_class p q @
       (if p = (if b then 0 else 1) then [\<lparr>it_priority = p, it_index = pq_nextIndex q, it_task = t\<rparr>] else [])"
proof -
  define x where "x = \<lparr>it_priority = (if b then 0 else 1), it_index = pq_nextIndex q, it_task = t\<rparr>"
  let ?h = "heap_Push LessCompare x (pq_h q)"
  have q: "pq_Push t b q = q\<lparr>pq_nextIndex := pq_nextIndex q + 1, pq_h := ?h\<rparr>"
    by (simp add: pq_Push_def Let_def x_def)
  have heap: "is_heap LessCompare ?h" "mset ?h = add_mset x (mset (pq_h q))"
    using item_order.heap_Push [of "pq_h q" x] assms(1) by (simp_all add: pq_inv_def)
  have set: "set ?h = insert x (set (pq_h q))" using heap(2) by (metis set_mset_add_mset_insert set_mset_mset)
  have nxt: "sint (pq_nextIndex q + 1) = sint (pq_nextIndex q) + 1"
    using assms by (intro sint_add_i64 [of _ 1, simplified]) (auto simp: pq_inv_def)
  have new: "y \<in> set (pq_h q) \<Longrightarrow> it_at y < it_at x" for y using assms(1) by (simp add: pq_inv_def x_def)
  have "distinct (map it_at ?h)"
  proof -
    have "mset (map it_at ?h) = mset (it_at x # map it_at (pq_h q))" by (simp add: heap(2))
    moreover have "distinct (it_at x # map it_at (pq_h q))" using assms(1) new by (force simp: pq_inv_def)
    ultimately show ?thesis by (metis mset_eq_imp_distinct_iff)
  qed
  moreover have "\<forall>y\<in>set ?h. it_at y < sint (pq_nextIndex q) + 1 \<and> (it_priority y = 0 \<or> it_priority y = 1)"
    using assms(1) unfolding set pq_inv_def by (auto simp: x_def)
  ultimately show inv: "pq_inv (pq_Push t b q)" using heap(1) assms(1) by (simp add: pq_inv_def q nxt)
  have "pq_class p (pq_Push t b q) = pq_class p q @ (if p = it_priority x then [x] else [])"
    unfolding pq_class_def [of p "pq_Push t b q"]
  proof (rule sort_key_unique)
    show "distinct (map it_at (filter (\<lambda>x. it_priority x = p) (pq_h (pq_Push t b q))))" by (rule class_sorted(2) [OF inv])
    show "mset (pq_class p q @ (if p = it_priority x then [x] else [])) = mset (filter (\<lambda>x. it_priority x = p) (pq_h (pq_Push t b q)))"
      using class_sorted(3) [OF assms(1), of p] by (auto simp: q heap(2))
    show "sorted (map it_at (pq_class p q @ (if p = it_priority x then [x] else [])))"
      using class_sorted(1,4) [OF assms(1), of p] new by (auto simp: sorted_append less_imp_le)
  qed
  then show "pq_class p (pq_Push t b q) = pq_class p q @
       (if p = (if b then 0 else 1) then [\<lparr>it_priority = p, it_index = pq_nextIndex q, it_task = t\<rparr>] else [])"
    by (auto simp: x_def)
qed

lemma pq_pop:
  assumes "pq_inv q" "pq_h q \<noteq> []" "heap_Pop LessCompare (pq_h q) = (x, h)"
  shows "pq_inv (q\<lparr>pq_h := h\<rparr>)" "x \<in> set (pq_h q)" "it_priority x = (if pq_class 0 q = [] then 1 else 0)"
    "pq_class p q = (if p = it_priority x then x # pq_class p (q\<lparr>pq_h := h\<rparr>) else pq_class p (q\<lparr>pq_h := h\<rparr>))"
proof -
  note pop = item_order.heap_Pop [OF _ _ assms(2,3)]
  have heap: "is_heap LessCompare h" "mset (pq_h q) = add_mset x (mset h)" "\<forall>y\<in>set (pq_h q). \<not> LessCompare y x"
    using pop assms(1) by (simp_all add: pq_inv_def)
  have set: "set (pq_h q) = insert x (set h)" using heap(2) by (metis set_mset_add_mset_insert set_mset_mset)
  then show x: "x \<in> set (pq_h q)" by simp
  have "mset (map it_at (pq_h q)) = mset (it_at x # map it_at h)" by (simp add: heap(2))
  moreover have "distinct (map it_at (pq_h q))" using assms(1) by (simp add: pq_inv_def)
  ultimately have dist: "distinct (it_at x # map it_at h)" by (metis mset_eq_imp_distinct_iff)
  show inv: "pq_inv (q\<lparr>pq_h := h\<rparr>)" using assms(1) heap(1) dist by (auto simp: pq_inv_def set)
  have prio: "it_priority x = 0 \<or> it_priority x = 1" using assms(1) x by (simp add: pq_inv_def)
  have "it_priority x \<noteq> 1" if "y \<in> set (pq_h q)" "it_priority y = 0" for y
    using heap(3) that by (auto simp: LessCompare_def)
  then show "it_priority x = (if pq_class 0 q = [] then 1 else 0)"
    using prio x class_sorted(4) [OF assms(1), of 0] by (auto simp: set_empty2 [symmetric] simp del: set_empty2)
  have least: "it_at x \<le> it_at y" if "y \<in> set h" "it_priority y = it_priority x" for y
    using heap(3) that set by (auto simp: LessCompare_def)
  let ?c = "pq_class p (q\<lparr>pq_h := h\<rparr>)"
  show "pq_class p q = (if p = it_priority x then x # ?c else ?c)"
    unfolding pq_class_def [of p q]
  proof (rule sort_key_unique)
    show "distinct (map it_at (filter (\<lambda>x. it_priority x = p) (pq_h q)))" by (rule class_sorted(2) [OF assms(1)])
    show "mset (if p = it_priority x then x # ?c else ?c) = mset (filter (\<lambda>x. it_priority x = p) (pq_h q))"
      using class_sorted(3) [OF inv, of p] by (auto simp: heap(2))
    show "sorted (map it_at (if p = it_priority x then x # ?c else ?c))"
      using class_sorted(1,4) [OF inv, of p] least by auto
  qed
qed

lemma pq_empty_iff:
  assumes "pq_inv q"
  shows "pq_h q = [] \<longleftrightarrow> pq_class 0 q = [] \<and> pq_class 1 q = []"
  using class_sorted(4) [OF assms, of 0] class_sorted(4) [OF assms, of 1] assms
  by (auto simp: pq_inv_def set_empty2 [symmetric] simp del: set_empty2)

lemma pq_TryPop:
  assumes "pq_inv q"
  shows "pq_inv (fst (TryPop q))" "f_pop (pq_abs q) = (pq_abs (fst (TryPop q)), snd (TryPop q))"
proof -
  have "pq_inv (fst (TryPop q)) \<and> f_pop (pq_abs q) = (pq_abs (fst (TryPop q)), snd (TryPop q))"
  proof (cases "pq_ready q \<and> pq_h q \<noteq> []")
    case True
    obtain x h where x: "heap_Pop LessCompare (pq_h q) = (x, h)" by fastforce
    have res: "TryPop q = (q\<lparr>pq_h := h\<rparr>, Some (it_task x))" using True x by (simp add: TryPop_def pop_item_def)
    note pop = pq_pop [OF assms _ x]
    show ?thesis
    proof (cases "pq_class 0 q = []")
      case high: True
      then have "it_priority x = 1" using pop(3) True by simp
      then show ?thesis using pop(1) pop(4) [of 0] pop(4) [of 1] True high by (simp add: res pq_abs_def)
    next
      case False
      then have "it_priority x = 0" using pop(3) True by simp
      then show ?thesis using pop(1) pop(4) [of 0] pop(4) [of 1] True by (simp add: res pq_abs_def)
    qed
  next
    case False
    then show ?thesis using assms pq_empty_iff [OF assms] by (auto simp: TryPop_def pq_abs_def)
  qed
  then show "pq_inv (fst (TryPop q))" "f_pop (pq_abs q) = (pq_abs (fst (TryPop q)), snd (TryPop q))" by simp_all
qed

lemma pq_Len_classes:
  assumes "pq_inv q"
  shows "pq_Len q = length (pq_class 0 q) + length (pq_class 1 q)"
proof -
  have "length (pq_class p q) = length (filter (\<lambda>x. it_priority x = p) (pq_h q))" for p by (simp add: pq_class_def)
  moreover have "filter (\<lambda>x. it_priority x = 1) (pq_h q) = filter (\<lambda>x. it_priority x \<noteq> 0) (pq_h q)"
    using assms by (intro filter_cong) (auto simp: pq_inv_def)
  ultimately show ?thesis using sum_length_filter_compl [of "\<lambda>x. it_priority x = 0" "pq_h q"] by (simp add: pq_Len_def)
qed

interpretation pq: refined_machine pq_exec pq_op_ok pq_inv NewPriorityQueue pq_abs f_exec
proof
  show "pq_inv NewPriorityQueue" by (simp add: pq_inv_def NewPriorityQueue_def heap_where_def)
next
  fix q :: "'a PriorityQueue" and op assume q: "pq_inv q" "pq_op_ok op q"
  show "pq_inv (fst (pq_exec op q))"
  proof (cases op)
    case (PushOp t b)
    then show ?thesis using pq_inv_Push(1) [OF q(1)] q(2) by simp
  qed (use q(1) pq_TryPop(1) [OF q(1)] in \<open>simp_all add: split_beta Let_def pq_Close_def pq_inv_def\<close>)
  show "f_exec op (pq_abs q) = (pq_abs (fst (pq_exec op q)), snd (pq_exec op q))"
  proof (cases op)
    case (PushOp t b)
    then show ?thesis using pq_inv_Push(2) [OF q(1), of t b 0] pq_inv_Push(2) [OF q(1), of t b 1] q(2)
      by (simp add: pq_abs_def) (simp add: pq_Push_def Let_def)
  next
    case TryPopOp
    then show ?thesis using pq_TryPop(2) [OF q(1)] by (simp add: split_beta Let_def del: f_pop.simps)
  qed (simp_all add: pq_abs_def pq_Len_classes [OF q(1)] pq_Close_def pq_class_def)
qed

lemma pq_abs_New: "pq_abs NewPriorityQueue = \<lparr>f_high = [], f_normal = [], f_open = True\<rparr>"
  by (simp add: pq_abs_def NewPriorityQueue_def pq_class_def)

subsection \<open>Property\<close>

text \<open>C22. Any sequence of calls on the heap-based queue behaves as two FIFO lists would: tasks of high
  priority come out before normal ones, tasks of one priority in the order they were pushed, the
  length counts all of them, and a closed queue hands out nothing.\<close>

theorem queue_refines_fifo:
  assumes "ops_ok pq_exec pq_op_ok ops NewPriorityQueue"
  shows "snd (run_ops pq_exec ops NewPriorityQueue) = snd (run_ops f_exec ops \<lparr>f_high = [], f_normal = [], f_open = True\<rparr>) \<and>
    pq_abs (fst (run_ops pq_exec ops NewPriorityQueue)) =
      fst (run_ops f_exec ops \<lparr>f_high = [], f_normal = [], f_open = True\<rparr>)"
  using pq.history_simulates [OF assms] by (simp add: pq_abs_New)

definition ex_pq_ops :: "nat pq_op list" where
  "ex_pq_ops = [PushOp 1 False, PushOp 2 True, PushOp 3 False, PushOp 4 True, LenOp, TryPopOp, TryPopOp, TryPopOp, CloseOp, TryPopOp]"

theorem queue_refines_fifo_witness:
  "ops_ok pq_exec pq_op_ok ex_pq_ops NewPriorityQueue \<and>
   snd (run_ops pq_exec ex_pq_ops NewPriorityQueue) =
     [Done, Done, Done, Done, Length 4, Popped (Some 2), Popped (Some 4), Popped (Some 1), Done, Popped None]"
proof -
  have ok: "ops_ok pq_exec pq_op_ok ex_pq_ops NewPriorityQueue" by code_simp
  have "snd (run_ops f_exec ex_pq_ops \<lparr>f_high = [], f_normal = [], f_open = True\<rparr>) =
     [Done, Done, Done, Done, Length 4, Popped (Some 2), Popped (Some 4), Popped (Some 1), Done, Popped None]" by code_simp
  with queue_refines_fifo [OF ok] ok show ?thesis by simp
qed

end
