(* ===== verification/Gateway_Workers.thy ===== *)
theory Gateway_Workers
  imports Gateway_Queue Gateway_Types "HOL-Library.Monad_Syntax"
begin

text \<open>
  The gateway's worker pools and its retry queue: \<open>pkg/gateway/queue/worker_pool.go\<close> and
  \<open>ratelimit_retry_queue.go\<close>.

  Workers and callers of \<open>Dispatch\<close> run concurrently.  Each step below is one access to the shared state
  (a method of the queue, one load or store of an atomic); \<open>Dispatch\<close> reads \<open>started\<close>, reads the length
  and pushes in three such steps.  A pool state lists the workers and the callers between these steps, together
  with the tasks that were pushed, finished, crashed and dropped so far.

  The retry loop asks its environment, attempt by attempt, whether the caller's context ended, whether
  the queue runs and what the retried call returned; it may run for ever, hence \<open>partial_function\<close>.
\<close>

subsection \<open>Worker pool\<close>

record 'a QueueWorkerPool =
  wp_priorityQueue :: "'a PriorityQueue"
  wp_capacity :: i64
  wp_started :: bool
  wp_workerSize :: i64
  wp_busyWorkers :: i32

definition NewQueueWorkerPool :: "i64 \<Rightarrow> i64 \<Rightarrow> 'a QueueWorkerPool" where
  "NewQueueWorkerPool cap workers =
     \<lparr>wp_priorityQueue = NewPriorityQueue, wp_capacity = cap, wp_started = False, wp_workerSize = workers, wp_busyWorkers = 0\<rparr>"

definition has_room :: "'a QueueWorkerPool \<Rightarrow> bool" where
  "has_room wp \<longleftrightarrow> \<not> int (pq_Len (wp_priorityQueue wp)) \<ge> sint (wp_capacity wp)"

definition push_task :: "'a \<Rightarrow> bool \<Rightarrow> 'a QueueWorkerPool \<Rightarrow> 'a QueueWorkerPool" where
  "push_task t b wp = wp\<lparr>wp_priorityQueue := pq_Push t b (wp_priorityQueue wp)\<rparr>"

definition Dispatch :: "'a \<Rightarrow> bool \<Rightarrow> 'a QueueWorkerPool \<Rightarrow> 'a QueueWorkerPool \<times> bool" where
  "Dispatch t isHighPriority wp =
     (if \<not> wp_started wp then (wp, False)
      else if \<not> has_room wp then (wp, False)
      else (push_task t isHighPriority wp, True))"

definition wp_Length :: "'a QueueWorkerPool \<Rightarrow> nat" where
  "wp_Length wp = pq_Len (wp_priorityQueue wp)"

definition BusyWorkers :: "'a QueueWorkerPool \<Rightarrow> i64" where
  "BusyWorkers wp = scast (wp_busyWorkers wp)"

text \<open>One worker goroutine: waiting in \<open>waitDequeue\<close>, holding what it returned, running a task, or gone.\<close>

datatype 'a worker = Waiting | Holding "'a option" | Running 'a | Exited

definition waitDequeue :: "'a QueueWorkerPool \<Rightarrow> ('a QueueWorkerPool \<times> 'a option) option" where
  "waitDequeue wp = map_option (apfst (\<lambda>q. wp\<lparr>wp_priorityQueue := q\<rparr>)) (WaitPop (wp_priorityQueue wp))"

definition begin_task :: "'a option \<Rightarrow> 'a QueueWorkerPool \<Rightarrow> 'a QueueWorkerPool \<times> 'a worker" where
  "begin_task r wp =
     (case r of
        None \<Rightarrow> (wp, Exited)
      | Some t \<Rightarrow> if \<not> wp_started wp then (wp, Exited)
                  else (wp\<lparr>wp_busyWorkers := wp_busyWorkers wp + 1\<rparr>, Running t))"

definition finish_task :: "'a QueueWorkerPool \<Rightarrow> 'a QueueWorkerPool \<times> 'a worker" where
  "finish_task wp = (wp\<lparr>wp_busyWorkers := wp_busyWorkers wp - 1\<rparr>, Waiting)"

text \<open>A panic of the task skips the decrement; the deferred function starts a new goroutine.\<close>

definition crash_task :: "'a QueueWorkerPool \<Rightarrow> 'a QueueWorkerPool \<times> 'a worker" where
  "crash_task wp = (wp, Waiting)"

definition wp_Start :: "'a QueueWorkerPool \<Rightarrow> 'a QueueWorkerPool \<times> 'a worker list" where
  "wp_Start wp = (wp\<lparr>wp_started := True\<rparr>, replicate (nat (sint (wp_workerSize wp))) Waiting)"

definition clear_started :: "'a QueueWorkerPool \<Rightarrow> 'a QueueWorkerPool" where
  "clear_started wp = wp\<lparr>wp_started := False\<rparr>"

definition close_queue :: "'a QueueWorkerPool \<Rightarrow> 'a QueueWorkerPool" where
  "close_queue wp = wp\<lparr>wp_priorityQueue := pq_Close (wp_priorityQueue wp)\<rparr>"

definition wp_Stop :: "'a QueueWorkerPool \<Rightarrow> 'a QueueWorkerPool" where
  "wp_Stop wp = close_queue (clear_started wp)"

subsection \<open>Pools per model\<close>

record 'a ModelQueueWorkerPool =
  mw_enableMultiModel :: bool
  mw_defaultSize :: i64
  mw_currency :: i64
  mw_workerPools :: "(string, 'a QueueWorkerPool) gmap"

definition NewModelQueueWorkerPool :: "i64 \<Rightarrow> i64 \<Rightarrow> bool \<Rightarrow> 'a ModelQueueWorkerPool" where
  "NewModelQueueWorkerPool cap consumerCurrency multi =
     \<lparr>mw_enableMultiModel = multi, mw_defaultSize = cap, mw_currency = consumerCurrency, mw_workerPools = []\<rparr>"

definition GetOrCreateModelQueueWorkerPool ::
  "string \<Rightarrow> 'a ModelQueueWorkerPool \<Rightarrow> 'a ModelQueueWorkerPool \<times> 'a QueueWorkerPool" where
  "GetOrCreateModelQueueWorkerPool model mwp =
     (let model = (if mw_enableMultiModel mwp then model else [])
      in case mget (mw_workerPools mwp) model of
           Some q \<Rightarrow> (mwp, q)
         | None \<Rightarrow>
             let newQ = fst (wp_Start (NewQueueWorkerPool (mw_defaultSize mwp) (mw_currency mwp)))
             in (mwp\<lparr>mw_workerPools := mput model newQ (mw_workerPools mwp)\<rparr>, newQ))"

definition mw_Length :: "'a ModelQueueWorkerPool \<Rightarrow> nat" where
  "mw_Length mwp = sum_list (map wp_Length (mvals (mw_workerPools mwp)))"

definition mw_BusyWorkers :: "'a ModelQueueWorkerPool \<Rightarrow> i64" where
  "mw_BusyWorkers mwp = sum_list (map BusyWorkers (mvals (mw_workerPools mwp)))"

subsection \<open>Interleavings of a pool\<close>

text \<open>A caller of \<open>Dispatch\<close> has read \<open>started\<close>, or has also found room in the queue and will push.\<close>

datatype 'a caller = Entered 'a bool | Admitted 'a bool

record 'a pool_state =
  ps_pool :: "'a QueueWorkerPool"
  ps_workers :: "'a worker list"
  ps_callers :: "'a caller list"
  ps_pushed :: "'a multiset"
  ps_done :: "'a multiset"
  ps_crashed :: "'a multiset"
  ps_dropped :: "'a multiset"

definition pool_start :: "i64 \<Rightarrow> i64 \<Rightarrow> 'a pool_state" where
  "pool_start cap workers =
     (let (wp, ws) = wp_Start (NewQueueWorkerPool cap workers)
      in \<lparr>ps_pool = wp, ps_workers = ws, ps_callers = [], ps_pushed = {#}, ps_done = {#}, ps_crashed = {#}, ps_dropped = {#}\<rparr>)"

definition opt_mset :: "'a option \<Rightarrow> 'a multiset" where
  "opt_mset r = (case r of None \<Rightarrow> {#} | Some t \<Rightarrow> {#t#})"

inductive pool_step :: "nat \<Rightarrow> 'a pool_state \<Rightarrow> 'a pool_state \<Rightarrow> bool" for k where
  enter: "wp_started (ps_pool s) \<Longrightarrow> length (ps_callers s) < k \<Longrightarrow>
    pool_step k s (s\<lparr>ps_callers := Entered t b # ps_callers s\<rparr>)"
| reject: "j < length (ps_callers s) \<Longrightarrow> ps_callers s ! j = Entered t b \<Longrightarrow> \<not> has_room (ps_pool s) \<Longrightarrow>
    pool_step k s (s\<lparr>ps_callers := take j (ps_callers s) @ drop (Suc j) (ps_callers s)\<rparr>)"
| admit: "j < length (ps_callers s) \<Longrightarrow> ps_callers s ! j = Entered t b \<Longrightarrow> has_room (ps_pool s) \<Longrightarrow>
    pool_step k s (s\<lparr>ps_callers := (ps_callers s)[j := Admitted t b]\<rparr>)"
| push: "j < length (ps_callers s) \<Longrightarrow> ps_callers s ! j = Admitted t b \<Longrightarrow>
    pq_op_ok (PushOp t b) (wp_priorityQueue (ps_pool s)) \<Longrightarrow>
    pool_step k s (s\<lparr>ps_pool := push_task t b (ps_pool s),
      ps_callers := take j (ps_callers s) @ drop (Suc j) (ps_callers s), ps_pushed := add_mset t (ps_pushed s)\<rparr>)"
| dequeue: "i < length (ps_workers s) \<Longrightarrow> ps_workers s ! i = Waiting \<Longrightarrow> waitDequeue (ps_pool s) = Some (wp, r) \<Longrightarrow>
    pool_step k s (s\<lparr>ps_pool := wp, ps_workers := (ps_workers s)[i := Holding r]\<rparr>)"
| begin_task: "i < length (ps_workers s) \<Longrightarrow> ps_workers s ! i = Holding r \<Longrightarrow> begin_task r (ps_pool s) = (wp, w) \<Longrightarrow>
    pool_step k s (s\<lparr>ps_pool := wp, ps_workers := (ps_workers s)[i := w],
      ps_dropped := (if w = Exited then opt_mset r else {#}) + ps_dropped s\<rparr>)"
| finish: "i < length (ps_workers s) \<Longrightarrow> ps_workers s ! i = Running t \<Longrightarrow> finish_task (ps_pool s) = (wp, w) \<Longrightarrow>
    pool_step k s (s\<lparr>ps_pool := wp, ps_workers := (ps_workers s)[i := w], ps_done := add_mset t (ps_done s)\<rparr>)"
| crash: "i < length (ps_workers s) \<Longrightarrow> ps_workers s ! i = Running t \<Longrightarrow> crash_task (ps_pool s) = (wp, w) \<Longrightarrow>
    pool_step k s (s\<lparr>ps_pool := wp, ps_workers := (ps_workers s)[i := w], ps_crashed := add_mset t (ps_crashed s)\<rparr>)"
| stop: "pool_step k s (s\<lparr>ps_pool := clear_started (ps_pool s)\<rparr>)"
| close: "\<not> wp_started (ps_pool s) \<Longrightarrow> pool_step k s (s\<lparr>ps_pool := close_queue (ps_pool s)\<rparr>)"

definition pool_reach :: "nat \<Rightarrow> i64 \<Rightarrow> i64 \<Rightarrow> 'a pool_state \<Rightarrow> bool" where
  "pool_reach k cap workers s \<longleftrightarrow> (pool_step k)\<^sup>*\<^sup>* (pool_start cap workers) s"

fun worker_tasks :: "'a worker \<Rightarrow> 'a multiset" where
  "worker_tasks (Holding r) = opt_mset r"
| "worker_tasks (Running t) = {#t#}"
| "worker_tasks _ = {#}"

fun is_running :: "'a worker \<Rightarrow> bool" where
  "is_running (Running _) = True"
| "is_running _ = False"

fun is_admitted :: "'a caller \<Rightarrow> bool" where
  "is_admitted (Admitted _ _) = True"
| "is_admitted _ = False"

definition running_workers :: "'a worker list \<Rightarrow> nat" where
  "running_workers ws = sum_list (map (of_bool \<circ> is_running) ws)"

definition held_tasks :: "'a worker list \<Rightarrow> 'a multiset" where
  "held_tasks ws = sum_list (map worker_tasks ws)"

definition admitted_callers :: "'a caller list \<Rightarrow> nat" where
  "admitted_callers cs = sum_list (map (of_bool \<circ> is_admitted) cs)"

definition queued_tasks :: "'a QueueWorkerPool \<Rightarrow> 'a multiset" where
  "queued_tasks wp = image_mset it_task (mset (pq_h (wp_priorityQueue wp)))"

definition pool_inv :: "nat \<Rightarrow> i64 \<Rightarrow> i64 \<Rightarrow> 'a pool_state \<Rightarrow> bool" where
  "pool_inv k cap workers s \<longleftrightarrow>
     pq_inv (wp_priorityQueue (ps_pool s)) \<and> wp_capacity (ps_pool s) = cap \<and>
     length (ps_workers s) = nat (sint workers) \<and> length (ps_callers s) \<le> k \<and>
     wp_Length (ps_pool s) + admitted_callers (ps_callers s) \<le> nat (sint cap - 1) + k \<and>
     ps_pushed s = queued_tasks (ps_pool s) + held_tasks (ps_workers s) + ps_done s + ps_crashed s + ps_dropped s \<and>
     wp_busyWorkers (ps_pool s) = of_nat (running_workers (ps_workers s) + size (ps_crashed s)) \<and>
     (wp_started (ps_pool s) \<longrightarrow> ps_dropped s = {#})"

subsection \<open>Invariant of a pool\<close>

lemma sum_list_map_update:
  fixes f :: "'a \<Rightarrow> 'b :: comm_monoid_add"
  assumes "i < length xs"
  shows "sum_list (map f (xs[i := x])) + f (xs ! i) = sum_list (map f xs) + f x"
  using assms
proof (induction xs arbitrary: i)
  case (Cons y ys)
  then show ?case by (cases i) (simp_all add: ac_simps)
qed simp

lemma sum_list_map_remove:
  fixes f :: "'a \<Rightarrow> 'b :: comm_monoid_add"
  assumes "i < length xs"
  shows "sum_list (map f (take i xs @ drop (Suc i) xs)) + f (xs ! i) = sum_list (map f xs)"
  using assms
proof (induction xs arbitrary: i)
  case (Cons y ys)
  then show ?case by (cases i) (simp_all add: ac_simps)
qed simp

lemma sum_list_of_bool_le: "sum_list (map (of_bool \<circ> P) xs) \<le> length xs"
  by (induction xs) auto

lemma sum_list_replicate_zero: "sum_list (replicate n (0 :: 'b :: comm_monoid_add)) = 0"
  by (induction n) auto

lemma push_task_effect:
  assumes "pq_inv (wp_priorityQueue wp)" "pq_op_ok (PushOp t b) (wp_priorityQueue wp)"
  shows "pq_inv (wp_priorityQueue (push_task t b wp))" "queued_tasks (push_task t b wp) = add_mset t (queued_tasks wp)"
    "wp_Length (push_task t b wp) = Suc (wp_Length wp)"
proof -
  show "pq_inv (wp_priorityQueue (push_task t b wp))" using pq_inv_Push(1) [OF assms] by (simp add: push_task_def)
  define x where "x = \<lparr>it_priority = (if b then 0 else 1), it_index = pq_nextIndex (wp_priorityQueue wp), it_task = t\<rparr>"
  have m: "mset (pq_h (wp_priorityQueue (push_task t b wp))) = add_mset x (mset (pq_h (wp_priorityQueue wp)))"
    using item_order.heap_Push [of "pq_h (wp_priorityQueue wp)" x] assms(1)
    by (simp add: push_task_def pq_Push_def Let_def pq_inv_def x_def)
  then show "queued_tasks (push_task t b wp) = add_mset t (queued_tasks wp)" by (simp add: queued_tasks_def x_def)
  show "wp_Length (push_task t b wp) = Suc (wp_Length wp)"
    using arg_cong [OF m, of size] by (simp add: wp_Length_def pq_Len_def)
qed

lemma waitDequeue_effect:
  assumes "pq_inv (wp_priorityQueue wp)" "waitDequeue wp = Some (wp', r)"
  shows "pq_inv (wp_priorityQueue wp')" "queued_tasks wp = queued_tasks wp' + opt_mset r"
    "wp_Length wp = wp_Length wp' + size (opt_mset r)"
    "wp_capacity wp' = wp_capacity wp" "wp_started wp' = wp_started wp" "wp_busyWorkers wp' = wp_busyWorkers wp"
proof -
  let ?q = "wp_priorityQueue wp"
  obtain x h where x: "heap_Pop LessCompare (pq_h ?q) = (x, h)" by fastforce
  have eqs: "wp' = wp\<lparr>wp_priorityQueue := if pq_ready ?q then ?q\<lparr>pq_h := h\<rparr> else ?q\<rparr>"
    "r = (if pq_ready ?q then Some (it_task x) else None)" "pq_ready ?q \<Longrightarrow> pq_h ?q \<noteq> []"
    using assms(2) x by (auto simp: waitDequeue_def WaitPop_def pop_item_def split: if_splits)
  show "wp_capacity wp' = wp_capacity wp" "wp_started wp' = wp_started wp" "wp_busyWorkers wp' = wp_busyWorkers wp"
    by (simp_all add: eqs(1))
  have m: "mset (pq_h ?q) = add_mset x (mset h)" if "pq_ready ?q"
    using item_order.heap_Pop [OF _ _ eqs(3) x] that assms(1) by (simp add: pq_inv_def)
  show "pq_inv (wp_priorityQueue wp')" using pq_pop(1) [OF assms(1) eqs(3) x] assms(1) by (simp add: eqs(1))
  show "queued_tasks wp = queued_tasks wp' + opt_mset r"
    using m by (simp add: eqs(1,2) queued_tasks_def opt_mset_def)
  show "wp_Length wp = wp_Length wp' + size (opt_mset r)"
    using arg_cong [OF m, of size] by (simp add: eqs(1,2) wp_Length_def pq_Len_def opt_mset_def)
qed

lemma pool_inv_start: "pool_inv k cap workers (pool_start cap workers)"
  by (simp add: pool_inv_def pool_start_def wp_Start_def NewQueueWorkerPool_def pq.inv_init wp_Length_def pq_Len_def
      admitted_callers_def queued_tasks_def held_tasks_def running_workers_def sum_list_replicate_zero map_replicate)
    (simp add: NewPriorityQueue_def)

lemma pool_inv_step:
  assumes "pool_step k s s'" "pool_inv k cap workers s"
  shows "pool_inv k cap workers s'"
  using assms
proof (induction rule: pool_step.induct)
  case (enter s t b)
  then show ?case by (simp add: pool_inv_def admitted_callers_def)
next
  case (reject j s t b)
  then show ?case using sum_list_map_remove [OF reject(1), of "of_bool \<circ> is_admitted :: _ \<Rightarrow> nat"]
    by (auto simp: pool_inv_def admitted_callers_def)
next
  case (admit j s t b)
  have "admitted_callers ((ps_callers s)[j := Admitted t b]) \<le> k"
    using sum_list_of_bool_le [of is_admitted "(ps_callers s)[j := Admitted t b]"] admit(4)
    unfolding admitted_callers_def pool_inv_def by simp
  moreover have "wp_Length (ps_pool s) \<le> nat (sint cap - 1)"
    using admit(3,4) by (simp add: has_room_def pool_inv_def wp_Length_def)
  ultimately show ?case using admit(4) by (simp add: pool_inv_def)
next
  case (push j s t b)
  then show ?case
    using sum_list_map_remove [OF push(1), of "of_bool \<circ> is_admitted :: _ \<Rightarrow> nat"] push_task_effect [OF _ push(3)]
    by (auto simp: pool_inv_def admitted_callers_def) (simp_all add: push_task_def)
next
  case (dequeue i s wp r)
  then have q: "pq_inv (wp_priorityQueue (ps_pool s))" by (simp add: pool_inv_def)
  show ?case
    using dequeue waitDequeue_effect [OF q dequeue(3)]
      sum_list_map_update [OF dequeue(1), of worker_tasks "Holding r"]
      sum_list_map_update [OF dequeue(1), of "of_bool \<circ> is_running :: _ \<Rightarrow> nat" "Holding r"]
    by (simp add: pool_inv_def held_tasks_def running_workers_def ac_simps)
next
  case (begin_task i s r wp w)
  then show ?case
    using sum_list_map_update [OF begin_task(1), of worker_tasks w]
      sum_list_map_update [OF begin_task(1), of "of_bool \<circ> is_running :: _ \<Rightarrow> nat" w]
    by (auto simp: pool_inv_def held_tasks_def running_workers_def begin_task_def opt_mset_def wp_Length_def
        queued_tasks_def ac_simps split: option.splits if_splits)
next
  case (finish i s t wp w)
  then show ?case
    using sum_list_map_update [OF finish(1), of worker_tasks w, symmetric]
      sum_list_map_update [OF finish(1), of "of_bool \<circ> is_running :: _ \<Rightarrow> nat" w, symmetric]
    by (auto simp: pool_inv_def held_tasks_def running_workers_def finish_task_def wp_Length_def queued_tasks_def
        ac_simps)
next
  case (crash i s t wp w)
  then show ?case
    using sum_list_map_update [OF crash(1), of worker_tasks w, symmetric]
      sum_list_map_update [OF crash(1), of "of_bool \<circ> is_running :: _ \<Rightarrow> nat" w, symmetric]
    by (auto simp: pool_inv_def held_tasks_def running_workers_def crash_task_def ac_simps)
next
  case (stop s)
  then show ?case by (simp add: pool_inv_def clear_started_def wp_Length_def queued_tasks_def)
next
  case (close s)
  then show ?case
    by (simp add: pool_inv_def close_queue_def wp_Length_def queued_tasks_def pq_Close_def pq_Len_def pq_inv_def)
qed

lemma pool_reach_inv:
  assumes "pool_reach k cap workers s"
  shows "pool_inv k cap workers s"
  using assms unfolding pool_reach_def
  by (induction rule: rtranclp_induct) (auto intro: pool_inv_start pool_inv_step)

subsection \<open>Retry queue\<close>

record 'a RateLimitRetryQueue =
  rq_maxQueueSize :: i64
  rq_maxRetries :: i64
  rq_initialDelay :: i64
  rq_maxDelay :: i64
  rq_workerPool :: "'a QueueWorkerPool"
  rq_started :: bool

definition NewRateLimitRetryQueue :: "i64 \<Rightarrow> i64 \<Rightarrow> i64 \<Rightarrow> i64 \<Rightarrow> i64 \<Rightarrow> 'a RateLimitRetryQueue" where
  "NewRateLimitRetryQueue maxQueueSize workerSize maxRetries initialDelay maxDelay =
     \<lparr>rq_maxQueueSize = maxQueueSize, rq_maxRetries = maxRetries, rq_initialDelay = initialDelay, rq_maxDelay = maxDelay,
      rq_workerPool = NewQueueWorkerPool maxQueueSize workerSize, rq_started = False\<rparr>"

definition IsRateLimitError :: "gw_error \<Rightarrow> bool" where
  "IsRateLimitError err \<longleftrightarrow>
     (case as_UpstreamError err of None \<Rightarrow> False | Some upstreamErr \<Rightarrow> ue_StatusCode upstreamErr = 429)"

definition rq_Len :: "'a RateLimitRetryQueue \<Rightarrow> nat" where
  "rq_Len q = wp_Length (rq_workerPool q)"

definition rq_Start :: "'a RateLimitRetryQueue \<Rightarrow> 'a RateLimitRetryQueue" where
  "rq_Start q = q\<lparr>rq_workerPool := fst (wp_Start (rq_workerPool q)), rq_started := True\<rparr>"

definition rq_Stop :: "'a RateLimitRetryQueue \<Rightarrow> 'a RateLimitRetryQueue" where
  "rq_Stop q = q\<lparr>rq_started := False, rq_workerPool := wp_Stop (rq_workerPool q)\<rparr>"

definition Enqueue :: "'a \<Rightarrow> 'a RateLimitRetryQueue \<Rightarrow> 'a RateLimitRetryQueue \<times> bool" where
  "Enqueue retryTask q =
     (if \<not> rq_started q \<or> rq_maxRetries q = 0 then (q, False)
      else let (wp, dispatched) = Dispatch retryTask False (rq_workerPool q)
           in (q\<lparr>rq_workerPool := wp\<rparr>, dispatched))"

fun backoff_loop :: "i64 \<Rightarrow> i64 \<Rightarrow> nat \<Rightarrow> i64" where
  "backoff_loop maxDelay delay 0 = (if maxDelay <s delay then maxDelay else delay)"
| "backoff_loop maxDelay delay (Suc n) =
     (let delay = delay * 2 in if maxDelay <s delay then maxDelay else backoff_loop maxDelay delay n)"

definition backoffDelay :: "'a RateLimitRetryQueue \<Rightarrow> nat \<Rightarrow> i64" where
  "backoffDelay q retryCount = backoff_loop (rq_maxDelay q) (rq_initialDelay q) retryCount"

text \<open>What one attempt meets: the context's error if the wait ends by cancellation, the flag of the
  queue, the context's error at the second check, and the result of \<open>retryFn\<close>.\<close>

record attempt =
  at_cancelledInDelay :: "gw_error option"
  at_started :: bool
  at_cancelled :: "gw_error option"
  at_result :: "gw_error option"

text \<open>The loop returns the error it sends on the result channel and how often it called \<open>retryFn\<close>.\<close>

partial_function (option) retryLoop ::
  "'a RateLimitRetryQueue \<Rightarrow> (nat \<Rightarrow> attempt) \<Rightarrow> nat \<Rightarrow> (gw_error option \<times> nat) option" where
  [code]: "retryLoop q env retryCount =
     (let a = env retryCount
      in if 0 <s backoffDelay q retryCount \<and> at_cancelledInDelay a \<noteq> None then Some (at_cancelledInDelay a, retryCount)
      else if \<not> at_started a then Some (Some ErrRateLimitRetryExhausted, retryCount)
      else if at_cancelled a \<noteq> None then Some (at_cancelled a, retryCount)
      else case at_result a of
             None \<Rightarrow> Some (None, Suc retryCount)
           | Some err \<Rightarrow>
               if \<not> IsRateLimitError err then Some (Some err, Suc retryCount)
               else if 0 <s rq_maxRetries q \<and> sint (rq_maxRetries q) \<le> int (Suc retryCount)
               then Some (Some ErrRateLimitRetryExhausted, Suc retryCount)
               else retryLoop q env (Suc retryCount))"

subsection \<open>The retry loop ends with the first decisive attempt\<close>

text \<open>What a decisive attempt sends, and whether it called \<open>retryFn\<close>; \<open>None\<close> for one that was rate limited.\<close>

definition verdict :: "'a RateLimitRetryQueue \<Rightarrow> nat \<Rightarrow> attempt \<Rightarrow> (gw_error option \<times> bool) option" where
  "verdict q n a =
     (if 0 <s backoffDelay q n \<and> at_cancelledInDelay a \<noteq> None then Some (at_cancelledInDelay a, False)
      else if \<not> at_started a then Some (Some ErrRateLimitRetryExhausted, False)
      else if at_cancelled a \<noteq> None then Some (at_cancelled a, False)
      else case at_result a of
             None \<Rightarrow> Some (None, True)
           | Some err \<Rightarrow> if IsRateLimitError err then None else Some (Some err, True))"

lemma retryLoop_verdict:
  "retryLoop q env n =
     (case verdict q n (env n) of
        Some (r, called) \<Rightarrow> Some (r, n + of_bool called)
      | None \<Rightarrow> if 0 <s rq_maxRetries q \<and> sint (rq_maxRetries q) \<le> int (Suc n)
                then Some (Some ErrRateLimitRetryExhausted, Suc n) else retryLoop q env (Suc n))"
  by (subst retryLoop.simps, cases "at_result (env n)") (simp_all add: verdict_def Let_def del: not_None_eq)

lemma retryLoop_limited:
  assumes "n \<le> m" "\<forall>i\<in>{n..<m}. verdict q i (env i) = None \<and> \<not> (0 <s rq_maxRetries q \<and> sint (rq_maxRetries q) \<le> int (Suc i))"
  shows "retryLoop q env n = retryLoop q env m"
  using assms
proof (induction m rule: dec_induct)
  case (step m)
  then have "retryLoop q env n = retryLoop q env m" by simp
  also have "\<dots> = retryLoop q env (Suc m)" using step.prems step.hyps(1) by (subst retryLoop_verdict) auto
  finally show ?case .
qed simp

lemma retryLoop_answers:
  assumes "retryLoop q env n = Some r"
  shows "(\<forall>i. verdict q i (env i) = None) \<longrightarrow> 0 <s rq_maxRetries q"
proof (rule retryLoop.raw_induct [OF _ assms])
  fix f q env n r
  assume IH: "\<And>q env n r. f q env n = Some r \<Longrightarrow> (\<forall>i. verdict q i (env i) = None) \<longrightarrow> 0 <s rq_maxRetries q"
    and run: "(let a = env n
      in if 0 <s backoffDelay q n \<and> at_cancelledInDelay a \<noteq> None then Some (at_cancelledInDelay a, n)
      else if \<not> at_started a then Some (Some ErrRateLimitRetryExhausted, n)
      else if at_cancelled a \<noteq> None then Some (at_cancelled a, n)
      else case at_result a of
             None \<Rightarrow> Some (None, Suc n)
           | Some err \<Rightarrow>
               if \<not> IsRateLimitError err then Some (Some err, Suc n)
               else if 0 <s rq_maxRetries q \<and> sint (rq_maxRetries q) \<le> int (Suc n)
               then Some (Some ErrRateLimitRetryExhausted, Suc n)
               else f q env (Suc n)) = Some r"
  show "(\<forall>i. verdict q i (env i) = None) \<longrightarrow> 0 <s rq_maxRetries q"
  proof (intro impI, rule ccontr)
    assume v: "\<forall>i. verdict q i (env i) = None" and m: "\<not> 0 <s rq_maxRetries q"
    have vn: "verdict q n (env n) = None" using v by simp
    have "f q env (Suc n) = Some r"
      using run vn m by (simp add: verdict_def Let_def split: if_splits option.splits)
    from IH [OF this] v m show False by simp
  qed
qed

text \<open>Without a limit the loop returns iff some attempt has a verdict.\<close>

lemma retryLoop_unlimited:
  assumes "\<not> 0 <s rq_maxRetries q"
  shows "retryLoop q env 0 \<noteq> None \<longleftrightarrow> (\<exists>i. verdict q i (env i) \<noteq> None)"
proof
  assume "retryLoop q env 0 \<noteq> None"
  then obtain r where "retryLoop q env 0 = Some r" by blast
  from retryLoop_answers [OF this] assms show "\<exists>i. verdict q i (env i) \<noteq> None" by blast
next
  assume ex: "\<exists>i. verdict q i (env i) \<noteq> None"
  define i where "i = (LEAST i. verdict q i (env i) \<noteq> None)"
  have i: "verdict q i (env i) \<noteq> None" "\<forall>j<i. verdict q j (env j) = None"
    using LeastI_ex [OF ex] not_less_Least [of _ "\<lambda>i. verdict q i (env i) \<noteq> None"] unfolding i_def by blast+
  have "retryLoop q env 0 = retryLoop q env i" using i(2) assms by (intro retryLoop_limited) auto
  then show "retryLoop q env 0 \<noteq> None" using i(1) by (subst (asm) (2) retryLoop_verdict) (auto split: prod.splits)
qed

lemma backoff_loop_exact:
  assumes "0 \<le> sint d" "sint d < 2 ^ 62" "sint m < 2 ^ 62"
  shows "sint (backoff_loop m d n) = min (sint d * 2 ^ n) (sint m)"
  using assms(1,2)
proof (induction n arbitrary: d)
  case 0
  then show ?case by (simp add: word_sless_alt)
next
  case (Suc n)
  have dbl: "sint (d * 2) = sint d * 2"
    using Suc.prems by (simp add: sint_word_ariths signed_take_bit_int_eq_self)
  show ?case
  proof (cases "sint m < sint d * 2")
    case True
    moreover have "sint d * 2 \<le> sint d * 2 ^ Suc n" using Suc.prems by (simp add: mult_le_cancel_left)
    ultimately show ?thesis by (simp add: Let_def word_sless_alt dbl)
  next
    case False
    then show ?thesis using Suc.IH [of "d * 2"] Suc.prems assms(3) by (simp add: Let_def word_sless_alt dbl ac_simps)
  qed
qed

subsection \<open>Properties\<close>

text \<open>C23. Whatever the interleaving of \<open>k\<close> callers of \<open>Dispatch\<close>, the workers and \<open>Stop\<close>: every task pushed
  is exactly once in the queue, in a worker's hands, finished, crashed or dropped; tasks are dropped
  only after the pool was stopped; and the queue holds at most \<open>capacity - 1 + k\<close> tasks, since the
  length is checked before the push.\<close>

theorem pool_tasks_accounted:
  assumes "pool_reach k cap workers s"
  shows "ps_pushed s = queued_tasks (ps_pool s) + held_tasks (ps_workers s) + ps_done s + ps_crashed s + ps_dropped s \<and>
    (ps_dropped s = {#} \<or> wp_started (ps_pool s) = False) \<and>
    wp_Length (ps_pool s) \<le> nat (sint cap - 1) + k"
  using pool_reach_inv [OF assms] by (auto simp: pool_inv_def)

text \<open>The busy counter is the number of workers that run a task plus the number of tasks that ever
  panicked: a crash is never subtracted.\<close>

theorem busy_counts_crashes:
  assumes "pool_reach k cap workers s"
  shows "wp_busyWorkers (ps_pool s) = of_nat (running_workers (ps_workers s) + size (ps_crashed s)) \<and>
    length (ps_workers s) = nat (sint workers)"
  using pool_reach_inv [OF assms] by (simp add: pool_inv_def)

text \<open>C24. With a positive retry limit the loop always ends and calls the upstream at most that often: it
  sends what the first attempt with a verdict gives (context error, stopped queue, success, or an
  error other than 429), and the exhaustion error if none of the allowed attempts has one.\<close>

theorem retry_outcome:
  assumes "0 < sint (rq_maxRetries q)"
  shows "retryLoop q env 0 =
    (case find (\<lambda>i. verdict q i (env i) \<noteq> None) [0..<nat (sint (rq_maxRetries q))] of
       Some i \<Rightarrow> map_option (\<lambda>(r, called). (r, i + of_bool called)) (verdict q i (env i))
     | None \<Rightarrow> Some (Some ErrRateLimitRetryExhausted, nat (sint (rq_maxRetries q))))"
proof -
  let ?m = "nat (sint (rq_maxRetries q))"
  show ?thesis
  proof (cases "find (\<lambda>i. verdict q i (env i) \<noteq> None) [0..<?m]")
    case None
    then have none: "verdict q i (env i) = None" if "i < ?m" for i using that by (simp add: find_None_iff del: not_None_eq)
    have "retryLoop q env 0 = retryLoop q env (?m - 1)" using none assms by (intro retryLoop_limited) auto
    also have "\<dots> = Some (Some ErrRateLimitRetryExhausted, ?m)"
      using none [of "?m - 1"] assms by (subst retryLoop_verdict) (simp add: word_sless_alt)
    finally show ?thesis unfolding None by simp
  next
    case (Some i)
    then have i: "i < ?m" "verdict q i (env i) \<noteq> None" "\<forall>j<i. verdict q j (env j) = None"
      by (auto simp: find_Some_iff simp del: not_None_eq)
    have "retryLoop q env 0 = retryLoop q env i" using i assms by (intro retryLoop_limited) auto
    also have "\<dots> = map_option (\<lambda>(r, called). (r, i + of_bool called)) (verdict q i (env i))"
      using i(2) by (subst retryLoop_verdict) (auto split: prod.split)
    finally show ?thesis unfolding Some by simp
  qed
qed

text \<open>The backoff delay is \<open>min (initialDelay * 2^retryCount) maxDelay\<close> at every count: the doubling
  stops before it could overflow, provided both delays are below \<open>2^62\<close> nanoseconds.\<close>

theorem backoff_exact:
  assumes "0 \<le> sint (rq_initialDelay q)" "sint (rq_initialDelay q) < 2 ^ 62" "sint (rq_maxDelay q) < 2 ^ 62"
  shows "sint (backoffDelay q n) = min (sint (rq_initialDelay q) * 2 ^ n) (sint (rq_maxDelay q))"
  unfolding backoffDelay_def by (rule backoff_loop_exact [OF assms])

subsection \<open>Witnesses\<close>

definition ex_pool0 :: "nat pool_state" where "ex_pool0 = pool_start 1 1"
definition ex_pool1 :: "nat pool_state" where "ex_pool1 = ex_pool0\<lparr>ps_callers := Entered 7 False # ps_callers ex_pool0\<rparr>"
definition ex_pool2 :: "nat pool_state" where "ex_pool2 = ex_pool1\<lparr>ps_callers := Entered 8 True # ps_callers ex_pool1\<rparr>"
definition ex_pool3 :: "nat pool_state" where "ex_pool3 = ex_pool2\<lparr>ps_callers := (ps_callers ex_pool2)[0 := Admitted 8 True]\<rparr>"
definition ex_pool4 :: "nat pool_state" where "ex_pool4 = ex_pool3\<lparr>ps_callers := (ps_callers ex_pool3)[1 := Admitted 7 False]\<rparr>"
definition ex_pool5 :: "nat pool_state" where
  "ex_pool5 = ex_pool4\<lparr>ps_pool := push_task 8 True (ps_pool ex_pool4),
     ps_callers := take 0 (ps_callers ex_pool4) @ drop (Suc 0) (ps_callers ex_pool4), ps_pushed := add_mset 8 (ps_pushed ex_pool4)\<rparr>"
definition ex_pool6 :: "nat pool_state" where
  "ex_pool6 = ex_pool5\<lparr>ps_pool := push_task 7 False (ps_pool ex_pool5),
     ps_callers := take 0 (ps_callers ex_pool5) @ drop (Suc 0) (ps_callers ex_pool5), ps_pushed := add_mset 7 (ps_pushed ex_pool5)\<rparr>"
definition ex_pool7 :: "nat pool_state" where
  "ex_pool7 = ex_pool6\<lparr>ps_pool := fst (the (waitDequeue (ps_pool ex_pool6))), ps_workers := (ps_workers ex_pool6)[0 := Holding (Some 8)]\<rparr>"
definition ex_pool8 :: "nat pool_state" where
  "ex_pool8 = ex_pool7\<lparr>ps_pool := fst (begin_task (Some 8) (ps_pool ex_pool7)), ps_workers := (ps_workers ex_pool7)[0 := Running 8],
     ps_dropped := (if Running 8 = (Exited :: nat worker) then opt_mset (Some 8) else {#}) + ps_dropped ex_pool7\<rparr>"
definition ex_pool9 :: "nat pool_state" where
  "ex_pool9 = ex_pool8\<lparr>ps_pool := ps_pool ex_pool8, ps_workers := (ps_workers ex_pool8)[0 := Waiting], ps_crashed := add_mset 8 (ps_crashed ex_pool8)\<rparr>"

lemma ex_pool_fields:
  "ps_workers ex_pool0 = [Waiting]" "ps_crashed ex_pool0 = {#}"
  "ps_workers ex_pool1 = [Waiting]" "ps_crashed ex_pool1 = {#}"
  "ps_workers ex_pool2 = [Waiting]" "ps_crashed ex_pool2 = {#}"
  "ps_workers ex_pool3 = [Waiting]" "ps_crashed ex_pool3 = {#}"
  "ps_workers ex_pool4 = [Waiting]" "ps_crashed ex_pool4 = {#}"
  "ps_workers ex_pool5 = [Waiting]" "ps_crashed ex_pool5 = {#}"
  "ps_workers ex_pool6 = [Waiting]" "ps_crashed ex_pool6 = {#}"
  "ps_workers ex_pool7 = [Holding (Some 8)]" "ps_crashed ex_pool7 = {#}"
  "ps_workers ex_pool8 = [Running 8]" "ps_crashed ex_pool8 = {#}"
  "ps_workers ex_pool9 = [Waiting]" "ps_crashed ex_pool9 = {#8#}"
proof -
  show p0: "ps_workers ex_pool0 = [Waiting]" "ps_crashed ex_pool0 = {#}"
    by (simp_all add: ex_pool0_def pool_start_def wp_Start_def NewQueueWorkerPool_def)
  show p1: "ps_workers ex_pool1 = [Waiting]" "ps_crashed ex_pool1 = {#}" by (simp_all add: ex_pool1_def p0)
  show p2: "ps_workers ex_pool2 = [Waiting]" "ps_crashed ex_pool2 = {#}" by (simp_all add: ex_pool2_def p1)
  show p3: "ps_workers ex_pool3 = [Waiting]" "ps_crashed ex_pool3 = {#}" by (simp_all add: ex_pool3_def p2)
  show p4: "ps_workers ex_pool4 = [Waiting]" "ps_crashed ex_pool4 = {#}" by (simp_all add: ex_pool4_def p3)
  show p5: "ps_workers ex_pool5 = [Waiting]" "ps_crashed ex_pool5 = {#}" by (simp_all add: ex_pool5_def p4)
  show p6: "ps_workers ex_pool6 = [Waiting]" "ps_crashed ex_pool6 = {#}" by (simp_all add: ex_pool6_def p5)
  show p7: "ps_workers ex_pool7 = [Holding (Some 8)]" "ps_crashed ex_pool7 = {#}" by (simp_all add: ex_pool7_def p6)
  show p8: "ps_workers ex_pool8 = [Running 8]" "ps_crashed ex_pool8 = {#}" by (simp_all add: ex_pool8_def p7)
  show p9: "ps_workers ex_pool9 = [Waiting]" "ps_crashed ex_pool9 = {#8#}" by (simp_all add: ex_pool9_def p8)
qed

lemma ex_pool_steps:
  "pool_step 2 ex_pool0 ex_pool1" "pool_step 2 ex_pool1 ex_pool2" "pool_step 2 ex_pool2 ex_pool3"
  "pool_step 2 ex_pool3 ex_pool4" "pool_step 2 ex_pool4 ex_pool5" "pool_step 2 ex_pool5 ex_pool6"
  "pool_step 2 ex_pool6 ex_pool7" "pool_step 2 ex_pool7 ex_pool8" "pool_step 2 ex_pool8 ex_pool9"
  subgoal unfolding ex_pool1_def by (rule pool_step.enter; code_simp)
  subgoal unfolding ex_pool2_def by (rule pool_step.enter; code_simp)
  subgoal unfolding ex_pool3_def by (rule pool_step.admit; code_simp)
  subgoal unfolding ex_pool4_def by (rule pool_step.admit; code_simp)
  subgoal unfolding ex_pool5_def by (rule pool_step.push; code_simp)
  subgoal unfolding ex_pool6_def by (rule pool_step.push; code_simp)
  subgoal unfolding ex_pool7_def by (rule pool_step.dequeue; code_simp)
  subgoal unfolding ex_pool8_def by (rule pool_step.begin_task [where r = "Some 8"]; code_simp)
  subgoal unfolding ex_pool9_def by (rule pool_step.crash [where t = 8]; simp add: crash_task_def ex_pool_fields)
  done

lemma ex_pool_reach: "pool_reach 2 1 1 ex_pool6" "pool_reach 2 1 1 ex_pool9"
proof -
  show six: "pool_reach 2 1 1 ex_pool6" unfolding pool_reach_def ex_pool0_def [symmetric]
    using ex_pool_steps(1-6) by (meson rtranclp.rtrancl_into_rtrancl rtranclp.rtrancl_refl)
  show "pool_reach 2 1 1 ex_pool9" using six ex_pool_steps(7-9) unfolding pool_reach_def
    by (meson rtranclp.rtrancl_into_rtrancl)
qed

theorem pool_tasks_accounted_witness:
  "pool_reach 2 1 1 ex_pool6 \<and> wp_Length (ps_pool ex_pool6) \<le> nat (sint (1 :: i64) - 1) + 2 \<and> wp_Length (ps_pool ex_pool6) = 2 \<and>
   sint (wp_capacity (ps_pool ex_pool6)) = 1"
proof -
  have "wp_Length (ps_pool ex_pool6) = 2 \<and> sint (wp_capacity (ps_pool ex_pool6)) = 1" by code_simp
  with pool_tasks_accounted [OF ex_pool_reach(1)] ex_pool_reach(1) show ?thesis by blast
qed

theorem busy_counts_crashes_witness:
  "pool_reach 2 1 1 ex_pool9 \<and> ps_workers ex_pool9 = [Waiting] \<and> wp_busyWorkers (ps_pool ex_pool9) = 1"
proof -
  have "ps_workers ex_pool9 = [Waiting]" "running_workers (ps_workers ex_pool9) = 0" "size (ps_crashed ex_pool9) = 1"
    by (simp_all add: ex_pool_fields running_workers_def)
  with busy_counts_crashes [OF ex_pool_reach(2)] ex_pool_reach(2) show ?thesis by simp
qed

definition ex_retry :: "nat RateLimitRetryQueue" where
  "ex_retry = NewRateLimitRetryQueue 8 2 3 100 250"

definition ex_attempts :: "nat \<Rightarrow> attempt" where
  "ex_attempts n = \<lparr>at_cancelledInDelay = None, at_started = True, at_cancelled = None,
     at_result = (if n < 2 then Some (Wrapped ''upstream'' (UpstreamError 429 [] ''http://b'' [])) else None)\<rparr>"

theorem retry_outcome_witness:
  "0 < sint (rq_maxRetries ex_retry) \<and> retryLoop ex_retry ex_attempts 0 = Some (None, 3)"
proof -
  have pos: "0 < sint (rq_maxRetries ex_retry)" by code_simp
  have "(case find (\<lambda>i. verdict ex_retry i (ex_attempts i) \<noteq> None) [0..<nat (sint (rq_maxRetries ex_retry))] of
       Some i \<Rightarrow> map_option (\<lambda>(r, called). (r, i + of_bool called)) (verdict ex_retry i (ex_attempts i))
     | None \<Rightarrow> Some (Some ErrRateLimitRetryExhausted, nat (sint (rq_maxRetries ex_retry)))) = Some (None, 3)" by code_simp
  with retry_outcome [OF pos, of ex_attempts] pos show ?thesis by simp
qed

theorem backoff_exact_witness:
  "0 \<le> sint (rq_initialDelay ex_retry) \<and> sint (rq_initialDelay ex_retry) < 2 ^ 62 \<and> sint (rq_maxDelay ex_retry) < 2 ^ 62 \<and>
   sint (backoffDelay ex_retry 1) = 200 \<and> sint (backoffDelay ex_retry 90) = 250"
proof -
  have h: "0 \<le> sint (rq_initialDelay ex_retry)" "sint (rq_initialDelay ex_retry) < 2 ^ 62" "sint (rq_maxDelay ex_retry) < 2 ^ 62"
    by code_simp+
  have "min (sint (rq_initialDelay ex_retry) * 2 ^ 1) (sint (rq_maxDelay ex_retry)) = 200"
    "min (sint (rq_initialDelay ex_retry) * 2 ^ 90) (sint (rq_maxDelay ex_retry)) = 250" by code_simp+
  with backoff_exact [OF h, of 1] backoff_exact [OF h, of 90] h show ?thesis by simp
qed

end
