(* ===== verification/Gateway_Service.thy ===== *)
theory Gateway_Service
  imports Gateway_Handler Gateway_Router Gateway_Workers "HOL-Library.Multiset"
begin

text \<open>
  The life of a request in the gateway: \<open>pkg/gateway/service/gateway_service.go\<close>.

  A request is parsed, routed and served by a goroutine that puts messages into the response channel,
  or proxied to an external endpoint; another goroutine writes the messages to the client.  The channel
  is the list of messages sent.  Parameters: the external HTTP client, cancellation of the request's
  context, the outcome of waiting, the random number of the router, what the rate-limit queue meets in
  each round, and the texts of errors.

  Lemmas: every route ends, within its retries and one round per fallback endpoint; the channel is
  closed and at most one error is sent, as the last message; what was acquired from the balancer is
  released, for full-mode and for lite-mode scheduling; what the client receives; the staged retry that
  cannot succeed; the streamed request that ends the process.
\<close>

subsection \<open>State and environment\<close>

record http_out =
  ho_header :: "i64 option"
  ho_body :: string

record 's sstate =
  ss_h :: "'s hstate"
  ss_out :: http_out

datatype ext_answer = ExtFailed gw_error | ExtResponse i64 string

record 's senv =
  se_handler :: "'s henv"
  se_router :: ServiceRouter
  se_external :: "string \<Rightarrow> string \<Rightarrow> string \<Rightarrow> 's \<Rightarrow> 's \<times> ext_answer"
  se_ctxErr :: "'s \<Rightarrow> gw_error option"
  se_wait :: "i64 \<Rightarrow> 's \<Rightarrow> 's \<times> bool"
  se_Intn :: "'s \<Rightarrow> i64"
  se_queue :: "'s \<Rightarrow> unit RateLimitRetryQueue option"
  se_round :: "'s \<Rightarrow> gw_error option \<times> bool \<times> gw_error option"
  se_gaveUp :: "'s \<Rightarrow> bool"
  se_Error :: "gw_error \<Rightarrow> string"

abbreviation s_rc :: "'s sstate \<Rightarrow> RequestContext" where
  "s_rc st \<equiv> hs_rc (ss_h st)"

abbreviation s_world :: "'s sstate \<Rightarrow> 's" where
  "s_world st \<equiv> hs_world (ss_h st)"

definition on_h :: "('s hstate \<Rightarrow> 's hstate) \<Rightarrow> 's sstate \<Rightarrow> 's sstate" where
  "on_h f st = st\<lparr>ss_h := f (ss_h st)\<rparr>"

definition set_world :: "'s \<Rightarrow> 's sstate \<Rightarrow> 's sstate" where
  "set_world w st = on_h (\<lambda>h. h\<lparr>hs_world := w\<rparr>) st"

definition answer :: "gw_error option \<Rightarrow> 's sstate \<Rightarrow> 's sstate" where
  "answer err st = on_h (on_rc (send err [])) st"

definition close_chan :: "'s sstate \<Rightarrow> 's sstate" where
  "close_chan st = on_h (on_rc (\<lambda>rc. rc\<lparr>rc_Closed := True\<rparr>)) st"

definition s_headerResponded :: "'s senv \<Rightarrow> 's sstate \<Rightarrow> bool" where
  "s_headerResponded se st \<longleftrightarrow> headerResponded (se_handler se) (ss_h st)"

subsection \<open>Proxying to external endpoints\<close>

definition WriteHeader :: "i64 \<Rightarrow> http_out \<Rightarrow> http_out" where
  "WriteHeader code out = (if ho_header out = None then out\<lparr>ho_header := Some code\<rparr> else out)"

definition Write_body :: "string \<Rightarrow> http_out \<Rightarrow> http_out" where
  "Write_body b out = out\<lparr>ho_header := (case ho_header out of None \<Rightarrow> Some 200 | Some c \<Rightarrow> Some c), ho_body := ho_body out @ b\<rparr>"

definition proxyToExternal :: "'s senv \<Rightarrow> RouteEndpoint \<Rightarrow> 's sstate \<Rightarrow> 's sstate \<times> gw_error option" where
  "proxyToExternal se dst st =
     (let url = JoinURL dst (rc_URL (s_rc st));
          (w, resp) = se_external se url (re_APIKey dst) (lr_RawData (rc_LLM (s_rc st))) (s_world st);
          st = set_world w st
      in case resp of
           ExtFailed err \<Rightarrow> (st, Some (NetworkError url (Some err) []))
         | ExtResponse code body \<Rightarrow>
             if 400 \<le> sint code then (st, Some (UpstreamError code body url []))
             else (case se_ctxErr se w of
                     Some err \<Rightarrow> (st, Some (NetworkError url (Some err) []))
                   | None \<Rightarrow>
                       (on_h (on_rc (\<lambda>rc. rc\<lparr>rc_HeaderResponded := True\<rparr>))
                          (st\<lparr>ss_out := (let out = WriteHeader code (ss_out st) in if body = [] then out else Write_body body out)\<rparr>), None)))"

text \<open>The rate-limit queue calls the proxy again and again; \<open>proxied\<close> is the state after some calls.\<close>

fun proxied :: "'s senv \<Rightarrow> RouteEndpoint \<Rightarrow> nat \<Rightarrow> 's sstate \<Rightarrow> 's sstate" where
  "proxied se dst 0 st = st"
| "proxied se dst (Suc n) st = fst (proxyToExternal se dst (proxied se dst n st))"

definition retry_env :: "'s senv \<Rightarrow> RouteEndpoint \<Rightarrow> 's sstate \<Rightarrow> nat \<Rightarrow> attempt" where
  "retry_env se dst st n =
     (let stn = proxied se dst n st; (delayed, started, cancelled) = se_round se (s_world stn)
      in \<lparr>at_cancelledInDelay = delayed, at_started = started, at_cancelled = cancelled, at_result = snd (proxyToExternal se dst stn)\<rparr>)"

datatype rate_result = NotQueued | GaveUp | Retried "gw_error option"

definition rate_retry :: "'s senv \<Rightarrow> RouteEndpoint \<Rightarrow> 's sstate \<Rightarrow> ('s sstate \<times> rate_result) option" where
  "rate_retry se dst st =
     (case se_queue se (s_world st) of
        None \<Rightarrow> Some (st, NotQueued)
      | Some q \<Rightarrow>
          if \<not> snd (Enqueue () q) then Some (st, NotQueued)
          else if se_gaveUp se (s_world st) then Some (st, GaveUp)
          else do { (err, calls) \<leftarrow> retryLoop q (retry_env se dst st) 0; Some (proxied se dst calls st, Retried err) })"

definition backoff :: "nat \<Rightarrow> i64" where
  "backoff n = (let d = 10 * (push_bit n 1) * 1000000 in if 100000000 <s d then 100000000 else d)"

text \<open>One fallback endpoint: the state and either the result of the whole fallback or the error to go on with.\<close>

definition after_rate :: "'s senv \<Rightarrow> gw_error \<Rightarrow> 's sstate \<Rightarrow> rate_result \<Rightarrow> 's sstate \<times> (gw_error option + gw_error)" where
  "after_rate se err st rr =
     (case rr of
        Retried None \<Rightarrow> (st, Inl None)
      | Retried (Some err') \<Rightarrow> (st, Inr err')
      | GaveUp \<Rightarrow> (st, Inl (Some Canceled))
      | NotQueued \<Rightarrow>
          let (w, interrupted) = se_wait se (backoff (nat (rc_FallbackAttempt (s_rc st) - 1))) (s_world st)
          in (set_world w st, if interrupted then Inl (se_ctxErr se w) else Inr err))"

definition fallback_round :: "'s senv \<Rightarrow> RouteEndpoint \<Rightarrow> 's sstate \<Rightarrow> ('s sstate \<times> (gw_error option + gw_error)) option" where
  "fallback_round se fdst st =
     (case proxyToExternal se fdst st of
        (st, None) \<Rightarrow> Some (st, Inl None)
      | (st, Some err) \<Rightarrow>
          do { (st, rr) \<leftarrow> (if IsRateLimitError err then rate_retry se fdst st else Some (st, NotQueued));
               Some (after_rate se err st rr) })"

definition fallback_end :: "gw_error option \<Rightarrow> gw_error option" where
  "fallback_end err =
     (case err of
        Some e \<Rightarrow> Some (Wrapped ''all fallback attempts failed'' e)
      | None \<Rightarrow> Some (Errorf ''no fallback endpoints available''))"

fun tryFallback_loop :: "'s senv \<Rightarrow> string list \<Rightarrow> nat \<Rightarrow> gw_error option \<Rightarrow> 's sstate \<Rightarrow> ('s sstate \<times> gw_error option) option" where
  "tryFallback_loop se skip 0 err st = Some (st, fallback_end err)"
| "tryFallback_loop se skip (Suc n) err st =
     (if \<not> CanFallback (se_router se) (s_rc st) then Some (st, fallback_end err)
      else if s_headerResponded se st then Some (st, None)
      else let (rc, r) = Fallback (se_router se) (s_rc st); st = on_h (on_rc (\<lambda>_. rc)) st
           in case r of
                Inl _ \<Rightarrow> Some (st, Some (Errorf ''all fallback attempts failed''))
              | Inr fdst \<Rightarrow>
                  if re_URL fdst \<in> set skip then tryFallback_loop se skip n err st
                  else do { (st, out) \<leftarrow> fallback_round se fdst st;
                            case out of Inl result \<Rightarrow> Some (st, result) | Inr err \<Rightarrow> tryFallback_loop se skip n (Some err) st })"

text \<open>Each round moves the cursor to the next endpoint, so the endpoints left bound the rounds.\<close>

definition tryFallback :: "'s senv \<Rightarrow> string list \<Rightarrow> 's sstate \<Rightarrow> ('s sstate \<times> gw_error option) option" where
  "tryFallback se skip st =
     tryFallback_loop se skip (nat (int (length (sr_fallbackConfigs (se_router se))) - rc_FallbackAttempt (s_rc st))) None st"

subsection \<open>Routes\<close>

definition answer_if :: "gw_error option \<Rightarrow> 's sstate \<Rightarrow> 's sstate" where
  "answer_if err st = (if err = None then st else answer err st)"

definition externalRouteRequest :: "'s senv \<Rightarrow> RouteEndpoint \<Rightarrow> 's sstate \<Rightarrow> 's sstate option" where
  "externalRouteRequest se dst st =
     map_option close_chan
       (case proxyToExternal se dst st of
          (st, None) \<Rightarrow> Some st
        | (st, Some err) \<Rightarrow>
            if \<not> CanFallback (se_router se) (s_rc st) then Some (answer (Some err) st)
            else do { (st, ferr) \<leftarrow> tryFallback se [re_URL dst] st;
                      Some (if ferr = None then st else answer (Some err) st) })"

definition unknownRouteRequest :: "'s senv \<Rightarrow> 's sstate \<Rightarrow> 's sstate option" where
  "unknownRouteRequest se st = do { (st, ferr) \<leftarrow> tryFallback se [] st; Some (close_chan (answer_if ferr st)) }"

definition fallback_or :: "'s senv \<Rightarrow> gw_error option \<Rightarrow> string \<Rightarrow> 's sstate \<Rightarrow> 's sstate option" where
  "fallback_or se err msg st =
     (if CanFallback (se_router se) (s_rc st) then do { (st, e) \<leftarrow> tryFallback se [] st; Some (answer_if e st) }
      else Some (on_h (on_rc (send err msg)) st))"

definition release_all :: "'s henv \<Rightarrow> 's hstate \<Rightarrow> 's hstate" where
  "release_all he h = foldl (\<lambda>h inst. release_inst he inst h) h (rc_SchedulingResults (hs_rc h))"

definition s_Get :: "'s senv \<Rightarrow> 's sstate \<Rightarrow> ('s sstate \<times> (gw_error + SchedulingResult)) option" where
  "s_Get se st = map_option (\<lambda>(w, rc, r). (on_h (\<lambda>h. h\<lparr>hs_world := w, hs_rc := rc\<rparr>) st, r))
     (balancer_Get (he_balancer (se_handler se)) (s_rc st) (s_world st))"

definition set_results :: "SchedulingResult \<Rightarrow> 's sstate \<Rightarrow> 's sstate" where
  "set_results r st = on_h (on_rc (\<lambda>rc. rc\<lparr>rc_SchedulingResults := r\<rparr>)) st"

text \<open>Before a retry; \<open>True\<close> when the request goes on to the handler.\<close>

definition prepare_retry :: "'s senv \<Rightarrow> gw_error option \<Rightarrow> 's sstate \<Rightarrow> ('s sstate \<times> bool) option" where
  "prepare_retry se originErr st =
     (case se_ctxErr se (s_world st) of
        Some e \<Rightarrow> Some (answer (Some e) st, False)
      | None \<Rightarrow>
          do { (st, r) \<leftarrow> s_Get se (set_results [] (on_h (release_all (se_handler se)) st));
               case r of
                 Inl _ \<Rightarrow> map_option (\<lambda>st. (st, False)) (fallback_or se originErr [] st)
               | Inr result \<Rightarrow> Some (set_results result st, True) })"

definition count_retry :: "gw_error \<Rightarrow> RequestContext \<Rightarrow> RequestContext" where
  "count_retry err rc =
     (let i = (case as_RetryableError err of None \<Rightarrow> [] | Some e \<Rightarrow> FailedInstanceID e)
      in on_stats (\<lambda>st. (if i \<noteq> [] then RecordFailedInstance i st else st)\<lparr>rs_RetryCount := rs_RetryCount st + 1\<rparr>) rc)"

fun attempt_loop :: "'s senv \<Rightarrow> nat \<Rightarrow> nat \<Rightarrow> gw_error option \<Rightarrow> 's sstate \<Rightarrow> 's sstate option" where
  "attempt_loop se 0 attempt originErr st = Some st"
| "attempt_loop se (Suc left) attempt originErr st =
     do { (st, go) \<leftarrow> (if 0 < attempt then prepare_retry se originErr st else Some (st, True));
          if \<not> go then Some st
          else do { (h, e) \<leftarrow> Handle (se_handler se) (ss_h st);
                    let st = st\<lparr>ss_h := h\<rparr>;
                    case e of
                      None \<Rightarrow> Some (on_h (on_rc (\<lambda>rc. rc\<lparr>rc_ForwardSucceeded := True\<rparr>)) st)
                    | Some err \<Rightarrow>
                        if \<not> retryable err then Some (answer (Some err) st)
                        else if s_headerResponded se st then Some st
                        else if left = 0 then fallback_or se (Some err) [] st
                        else let st = on_h (on_rc (count_retry err)) st;
                                 (w, interrupted) = se_wait se (backoff attempt) (s_world st);
                                 st = set_world w st
                             in if interrupted then Some (answer (se_ctxErr se w) st)
                                else attempt_loop se left (Suc attempt) (Some err) st } }"

definition internalRouteRequest :: "'s senv \<Rightarrow> 's sstate \<Rightarrow> 's sstate option" where
  "internalRouteRequest se st =
     map_option (\<lambda>st. on_h (OnPostRequest (se_handler se)) (close_chan st))
       (attempt_loop se (nat (gc_RetryMaxCount (he_config (se_handler se)) + 1)) 0 None st)"

definition dispatchRequest :: "'s senv \<Rightarrow> 's sstate \<Rightarrow> 's sstate option" where
  "dispatchRequest se st =
     do { (dst, rType) \<leftarrow> Route (se_Intn se (s_world st)) (s_rc st) (se_router se);
          case rType of
            RouteInternal \<Rightarrow>
              do { (st, r) \<leftarrow> s_Get se st;
                   case r of
                     Inl err \<Rightarrow> map_option close_chan (fallback_or se (Some err) (se_Error se err) st)
                   | Inr schResult \<Rightarrow> internalRouteRequest se (set_results schResult st) }
          | RouteExternal \<Rightarrow> do { d \<leftarrow> dst; externalRouteRequest se d st }
          | RouteUnknown \<Rightarrow> unknownRouteRequest se st }"

definition schedulingMode :: "GatewayConfig \<Rightarrow> SchedulingMode" where
  "schedulingMode cfg =
     (if \<not> IsPDDisagg cfg then SchedulingModeNeutral
      else if gc_SeparatePDScheduling cfg then SchedulingModePDStaged else SchedulingModePDBatch)"

subsection \<open>Writing to the client\<close>

record err_env =
  ee_Error :: "gw_error \<Rightarrow> string"
  ee_unmarshal :: "string \<Rightarrow> (i64 \<times> string) option"
  ee_valid :: "string \<Rightarrow> bool"

definition error_body :: "string \<Rightarrow> string \<Rightarrow> string" where
  "error_body code msg = ''{\"error\": {\"code\": '' @ code @ '', \"message\": \"'' @ msg @ ''\"}}''"

definition convertErrorResponse :: "err_env \<Rightarrow> ResponseMsg \<Rightarrow> i64 \<times> string" where
  "convertErrorResponse ee msg =
     (case rm_Err msg of
        None \<Rightarrow> (200, rm_Message msg)
      | Some err \<Rightarrow>
          (case as_UpstreamError err of
             Some u \<Rightarrow> (ue_StatusCode u, ue_Body u)
           | None \<Rightarrow>
               if err = Sentinel ErrorNoAvailableEndpoint then (503, error_body ''503'' ''no available inference worker'')
               else if err = Sentinel ErrorEndpointNotFound then (404, error_body ''404'' ''no inference instance found'')
               else if err = Sentinel ErrorRateLimitExceeded then (429, error_body ''429'' ''rate limit exceeded'')
               else if err = Sentinel ErrorBackendBadRequest then
                 (case ee_unmarshal ee (rm_Message msg) of
                    None \<Rightarrow> (400, ''{}'')
                  | Some (code, text) \<Rightarrow>
                      if ee_valid ee text then (code, text) else (code, error_body (show_int (sint code)) text))
               else (400, ee_Error ee err)))"

definition writeResponse :: "err_env \<Rightarrow> ResponseMsg \<Rightarrow> RequestContext \<times> http_out \<Rightarrow> RequestContext \<times> http_out" where
  "writeResponse ee response = (\<lambda>(rc, out).
     let (code, body) = convertErrorResponse ee response
     in (rc\<lparr>rc_StatusCode := code\<rparr>, Write_body body (WriteHeader code out)))"

definition sse_data :: "string \<Rightarrow> string" where
  "sse_data m = ''data: '' @ m @ [CHR 0x0A, CHR 0x0A]"

definition writeStreamResponse ::
  "err_env \<Rightarrow> ResponseMsg \<Rightarrow> bool \<Rightarrow> RequestContext \<times> http_out \<Rightarrow> (RequestContext \<times> http_out) \<times> bool" where
  "writeStreamResponse ee response responded = (\<lambda>(rc, out).
     if rm_Err response \<noteq> None then
       (if \<not> responded then
          (let (code, body) = convertErrorResponse ee response
           in (rc\<lparr>rc_StatusCode := code\<rparr>, Write_body (sse_data body @ sse_data ''[DONE]'') (WriteHeader code out)))
        else (rc, out), True)
     else
       (let (rc, out) = (if \<not> responded then (rc\<lparr>rc_StatusCode := 200\<rparr>, WriteHeader 200 out) else (rc, out))
        in (rc, Write_body (sse_data (rm_Message response)) out), False))"

datatype arrival = Msg ResponseMsg | Disconnected

text \<open>The end of the list is the closed channel.\<close>

fun writeResponseUntilDone :: "err_env \<Rightarrow> arrival list \<Rightarrow> RequestContext \<times> http_out \<Rightarrow> RequestContext \<times> http_out" where
  "writeResponseUntilDone ee [] (rc, out) = (rc, if rc_HeaderResponded rc then out else WriteHeader 400 out)"
| "writeResponseUntilDone ee (Disconnected # ms) (rc, out) = (rc\<lparr>rc_StatusCode := 499\<rparr>, out)"
| "writeResponseUntilDone ee (Msg response # ms) (rc, out) =
     (if lr_ClientStream (rc_LLM rc) then
        (let ((rc, out), needClose) = writeStreamResponse ee response (rc_HeaderResponded rc) (rc, out);
             rc = rc\<lparr>rc_HeaderResponded := True\<rparr>
         in if needClose then (rc, out) else writeResponseUntilDone ee ms (rc, out))
      else writeResponse ee response (rc, out))"

subsection \<open>The retry queue, as the fallback uses it\<close>

lemma retryLoop_returns:
  assumes "0 <s rq_maxRetries q"
  shows "\<exists>r k. retryLoop q env n = Some (r, k)"
proof (induction "nat (sint (rq_maxRetries q)) - n" arbitrary: n rule: less_induct)
  case less
  show ?case
  proof (cases "verdict q n (env n) = None \<and> \<not> sint (rq_maxRetries q) \<le> int (Suc n)")
    case True
    then have "nat (sint (rq_maxRetries q)) - Suc n < nat (sint (rq_maxRetries q)) - n" by linarith
    from less [OF this] True show ?thesis by (subst retryLoop_verdict) auto
  next
    case False
    with assms show ?thesis by (subst retryLoop_verdict) (auto split: option.split prod.split)
  qed
qed

lemma verdict_success: "verdict q n a = Some (None, called) \<Longrightarrow> called \<and> at_result a = None"
  by (auto simp: verdict_def split: if_splits option.splits)

lemma retryLoop_success:
  assumes "retryLoop q env n = Some (None, k)"
  shows "\<exists>m. k = Suc m \<and> at_result (env m) = None"
proof -
  have "fst x = None \<longrightarrow> (\<exists>m. snd x = Suc m \<and> at_result (env m) = None)" if "retryLoop q env n = Some x" for x
  proof (rule retryLoop.raw_induct [OF _ that])
    fix f and q :: "'a RateLimitRetryQueue" and env n x
    assume IH: "\<And>q env n x. f q env n = Some x \<Longrightarrow> fst x = None \<longrightarrow> (\<exists>m. snd x = Suc m \<and> at_result (env m) = None)"
      and run: "(let a = env n
      in if 0 <s backoffDelay q n \<and> at_cancelledInDelay a \<noteq> None then Some (at_cancelledInDelay a, n)
      else if \<not> at_started a then Some (Some ErrRateLimitRetryExhausted, n)
      else if at_cancelled a \<noteq> None then Some (at_cancelled a, n)
      else case at_result a of
             None \<Rightarrow> Some (None, Suc n)
           | Some err \<Rightarrow>
               if \<not> IsRateLimitError err then Some (Some err, Suc n)
               else if 0 <s rq_maxRetries q \<and> sint (rq_maxRetries q) \<le> int (Suc n)
               then Some (Some ErrRateLimitRetryExhausted, Suc n)
               else f q env (Suc n)) = Some x"
    then show "fst x = None \<longrightarrow> (\<exists>m. snd x = Suc m \<and> at_result (env m) = None)"
      by (auto simp: Let_def split: if_splits option.splits dest: IH)
  qed
  from this [OF assms] show ?thesis by simp
qed

subsection \<open>Frames\<close>

text \<open>\<open>I\<close> observes the world: acquiring changes it by \<open>upd\<close>, releasing by \<open>rel\<close>, nothing else changes it.\<close>

definition watched :: "'s senv \<Rightarrow> ('s \<Rightarrow> 'i) \<Rightarrow> (gw_error + SchedulingResult \<Rightarrow> 'i \<Rightarrow> 'i) \<Rightarrow> (LLMInstance \<Rightarrow> 'i \<Rightarrow> 'i) \<Rightarrow> bool" where
  "watched se I upd rel \<longleftrightarrow>
     observed (he_fwd (se_handler se)) (he_balancer (se_handler se)) I upd \<and>
     (\<forall>rc inst w. I (bl_Release (he_balancer (se_handler se)) rc inst w) = rel inst (I w)) \<and>
     (\<forall>ds w. I (he_report (se_handler se) ds w) = I w) \<and>
     (\<forall>url key body w. I (fst (se_external se url key body w)) = I w) \<and> (\<forall>d w. I (fst (se_wait se d w)) = I w)"

lemma watched_unit: "watched se (\<lambda>_. ()) (\<lambda>_ _. ()) (\<lambda>_ _. ())"
  by (simp add: watched_def observed_def)

definition ctx_ok :: "'s senv \<Rightarrow> bool" where
  "ctx_ok se \<longleftrightarrow> (\<forall>d w. snd (se_wait se d w) \<longrightarrow> se_ctxErr se (fst (se_wait se d w)) \<noteq> None)"

definition responded :: "RequestContext \<Rightarrow> bool" where
  "responded rc \<longleftrightarrow> rc_HeaderResponded rc \<or> lr_ClientStream (rc_LLM rc) \<and> rc_Sent rc \<noteq> []"

text \<open>Proxying and falling back touch the request only in the header flag and the fallback cursor.\<close>

definition route_frame :: "('s \<Rightarrow> 'i) \<Rightarrow> 's sstate \<Rightarrow> 's sstate \<Rightarrow> bool" where
  "route_frame I st st' \<longleftrightarrow>
     rc_rest ((s_rc st')\<lparr>rc_HeaderResponded := rc_HeaderResponded (s_rc st)\<rparr>) = rc_rest (s_rc st) \<and> rc_LLM (s_rc st') = rc_LLM (s_rc st) \<and>
     (rc_HeaderResponded (s_rc st) \<longrightarrow> rc_HeaderResponded (s_rc st')) \<and> I (s_world st') = I (s_world st)"

lemma route_frame_refl [simp]: "route_frame I st st"
  by (simp add: route_frame_def)

lemma route_frame_trans: "route_frame I st st1 \<Longrightarrow> route_frame I st1 st2 \<Longrightarrow> route_frame I st st2"
  by (auto simp: route_frame_def rc_rest_def)

lemma route_frame_fields:
  assumes "route_frame I st st'"
  shows "rc_Sent (s_rc st') = rc_Sent (s_rc st)" "rc_SchedulingResults (s_rc st') = rc_SchedulingResults (s_rc st)"
    "rc_ForwardSucceeded (s_rc st') = rc_ForwardSucceeded (s_rc st)" "rc_Closed (s_rc st') = rc_Closed (s_rc st)"
    "rc_LLM (s_rc st') = rc_LLM (s_rc st)" "I (s_world st') = I (s_world st)"
    "rc_SchedulingMode (s_rc st') = rc_SchedulingMode (s_rc st)" "rc_SchedulingStage (s_rc st') = rc_SchedulingStage (s_rc st)"
  using assms by (auto simp: route_frame_def rc_rest_def)

lemma on_h_simps [simp]: "ss_h (on_h f st) = f (ss_h st)" "ss_out (on_h f st) = ss_out st"
  by (simp_all add: on_h_def)

lemma set_world_simps [simp]: "s_rc (set_world w st) = s_rc st" "s_world (set_world w st) = w" "ss_out (set_world w st) = ss_out st"
  by (simp_all add: set_world_def)

lemma route_frame_world: "I w = I (s_world st) \<Longrightarrow> route_frame I st (set_world w st)"
  by (simp add: route_frame_def)

lemma proxyToExternal_frame:
  assumes "watched se I upd rel" "proxyToExternal se dst st = (st', e)"
  shows "route_frame I st st' \<and> (e = None \<longrightarrow> rc_HeaderResponded (s_rc st'))"
proof -
  have "I (fst (se_external se url key body (s_world st))) = I (s_world st)" for url key body
    using assms(1) unfolding watched_def by blast
  with assms(2) show ?thesis
    by (auto simp: proxyToExternal_def Let_def split_beta route_frame_def rc_rest_def split: ext_answer.splits if_splits option.splits)
qed

lemma proxyToExternal_frame_proj:
  assumes "watched se I upd rel"
  shows "route_frame I st (fst (proxyToExternal se dst st))"
    "snd (proxyToExternal se dst st) = None \<Longrightarrow> rc_HeaderResponded (s_rc (fst (proxyToExternal se dst st)))"
  using proxyToExternal_frame [OF assms, of dst st] by (cases "proxyToExternal se dst st"; fastforce)+

lemma proxied_frame: "watched se I upd rel \<Longrightarrow> route_frame I st (proxied se dst n st)"
proof (induction n)
  case (Suc n)
  from Suc.IH [OF Suc.prems] proxyToExternal_frame_proj(1) [OF Suc.prems, of "proxied se dst n st" dst]
  show ?case by (auto intro: route_frame_trans)
qed simp

lemma rate_retry_frame:
  assumes "watched se I upd rel" "rate_retry se dst st = Some (st', r)"
  shows "route_frame I st st' \<and> (r = Retried None \<longrightarrow> rc_HeaderResponded (s_rc st'))"
proof -
  have "rc_HeaderResponded (s_rc (proxied se dst k st))" if r: "retryLoop q (retry_env se dst st) 0 = Some (None, k)" for k and q :: "unit RateLimitRetryQueue"
  proof -
    from retryLoop_success [OF r] obtain m where m: "k = Suc m" "at_result (retry_env se dst st m) = None" by blast
    then have "snd (proxyToExternal se dst (proxied se dst m st)) = None" by (simp add: retry_env_def split_beta Let_def)
    with proxyToExternal_frame_proj(2) [OF assms(1)] m show ?thesis by simp
  qed
  with assms(2) proxied_frame [OF assms(1)] show ?thesis
    by (auto simp: rate_retry_def bind_eq_Some_conv split: option.splits if_splits)
qed

lemma rate_retry_total:
  assumes "\<And>w q. se_queue se w = Some q \<Longrightarrow> 0 <s rq_maxRetries q"
  shows "\<exists>st' r. rate_retry se dst st = Some (st', r)"
proof (cases "se_queue se (s_world st)")
  case (Some q)
  with retryLoop_returns [OF assms [OF Some], of "retry_env se dst st" 0] show ?thesis by (auto simp: rate_retry_def)
qed (simp add: rate_retry_def)

definition queue_limited :: "'s senv \<Rightarrow> bool" where
  "queue_limited se \<longleftrightarrow> (\<forall>w. case se_queue se w of None \<Rightarrow> True | Some q \<Rightarrow> 0 <s rq_maxRetries q)"

lemma wait_frame:
  assumes "watched se I upd rel"
  shows "route_frame I st (set_world (fst (se_wait se d (s_world st))) st)"
  using assms by (intro route_frame_world) (auto simp: watched_def)

lemma fallback_round_frame:
  assumes "watched se I upd rel" "ctx_ok se" "fallback_round se fdst st = Some (st', out)"
  shows "route_frame I st st' \<and> (out = Inl None \<longrightarrow> rc_HeaderResponded (s_rc st'))"
proof -
  obtain st1 e where p: "proxyToExternal se fdst st = (st1, e)" by (cases "proxyToExternal se fdst st")
  note f1 = proxyToExternal_frame [OF assms(1) p]
  show ?thesis
  proof (cases e)
    case None
    with assms(3) p f1 show ?thesis by (auto simp: fallback_round_def)
  next
    case (Some err)
    with assms(3) p obtain st2 rr where q: "(if IsRateLimitError err then rate_retry se fdst st1 else Some (st1, NotQueued)) = Some (st2, rr)"
      and r: "(st', out) = after_rate se err st2 rr"
      by (auto simp: fallback_round_def bind_eq_Some_conv)
    from q rate_retry_frame [OF assms(1), of fdst st1 st2 rr] have f2: "route_frame I st1 st2" "rr = Retried None \<longrightarrow> rc_HeaderResponded (s_rc st2)"
      by (auto split: if_splits)
    from f1 f2(1) have f12: "route_frame I st st2" by (blast intro: route_frame_trans)
    let ?wait = "se_wait se (backoff (nat (rc_FallbackAttempt (s_rc st2) - 1))) (s_world st2)"
    show ?thesis
    proof (cases rr)
      case NotQueued
      have "route_frame I st (set_world (fst ?wait) st2)" using f12 wait_frame [OF assms(1)] by (blast intro: route_frame_trans)
      moreover have "snd ?wait \<longrightarrow> se_ctxErr se (fst ?wait) \<noteq> None" using assms(2) by (simp add: ctx_ok_def)
      ultimately show ?thesis using r NotQueued by (cases ?wait) (auto simp: after_rate_def split: if_splits)
    next
      case GaveUp
      with r f12 show ?thesis by (auto simp: after_rate_def)
    next
      case (Retried x)
      with r f12 f2(2) show ?thesis by (cases x) (auto simp: after_rate_def)
    qed
  qed
qed

lemma fallback_round_total:
  assumes "queue_limited se"
  shows "\<exists>st' out. fallback_round se fdst st = Some (st', out)"
proof -
  have q: "se_queue se w = Some q \<Longrightarrow> 0 <s rq_maxRetries q" for w q
    using assms by (auto simp: queue_limited_def split: option.splits dest: spec [of _ w])
  obtain st1 e where p: "proxyToExternal se fdst st = (st1, e)" by (cases "proxyToExternal se fdst st")
  show ?thesis
  proof (cases e)
    case None
    with p show ?thesis by (simp add: fallback_round_def)
  next
    case (Some err)
    have "\<exists>st' r. rate_retry se fdst st1 = Some (st', r)" by (rule rate_retry_total) (rule q)
    then obtain st2 rr
      where "(if IsRateLimitError err then rate_retry se fdst st1 else Some (st1, NotQueued)) = Some (st2, rr)" by (cases "IsRateLimitError err") auto
    with p Some show ?thesis
      by (cases "after_rate se err st2 rr") (auto simp: fallback_round_def)
  qed
qed

lemma Fallback_frame:
  assumes "Fallback sr rc = (rc', r)"
  shows "rc_rest rc' = rc_rest rc \<and> rc_LLM rc' = rc_LLM rc"
  using assms by (auto simp: Fallback_def Let_def split: if_splits)

lemma s_headerResponded_responded: "s_headerResponded se st \<Longrightarrow> responded (s_rc st)"
  by (auto simp: s_headerResponded_def headerResponded_def responded_def)

lemma responded_frame:
  assumes f: "route_frame I st st'" and "responded (s_rc st)"
  shows "responded (s_rc st')"
proof -
  from f have "rc_HeaderResponded (s_rc st) \<longrightarrow> rc_HeaderResponded (s_rc st')" by (simp add: route_frame_def)
  with assms(2) show ?thesis unfolding responded_def route_frame_fields(1,5) [OF f] by blast
qed

lemma tryFallback_loop_frame:
  assumes "watched se I upd rel" "ctx_ok se" "tryFallback_loop se skip n err st = Some (st', e)"
  shows "route_frame I st st' \<and> (e = None \<longrightarrow> responded (s_rc st'))"
  using assms(3)
proof (induction n arbitrary: err st)
  case 0
  then show ?case by (auto simp: fallback_end_def split: option.splits)
next
  case (Suc n)
  obtain rc r where f: "Fallback (se_router se) (s_rc st) = (rc, r)" by (cases "Fallback (se_router se) (s_rc st)")
  let ?st = "on_h (on_rc (\<lambda>_. rc)) st"
  have 1: "route_frame I st ?st" using Fallback_frame [OF f] by (auto simp: route_frame_def rc_rest_def)
  consider (stop) "\<not> CanFallback (se_router se) (s_rc st)"
    | (sent) "CanFallback (se_router se) (s_rc st)" "s_headerResponded se st"
    | (none) x where "CanFallback (se_router se) (s_rc st)" "\<not> s_headerResponded se st" "r = Inl x"
    | (skip) d where "CanFallback (se_router se) (s_rc st)" "\<not> s_headerResponded se st" "r = Inr d" "re_URL d \<in> set skip"
    | (round) d where "CanFallback (se_router se) (s_rc st)" "\<not> s_headerResponded se st" "r = Inr d" "re_URL d \<notin> set skip"
    by (cases r) auto
  then show ?case
  proof cases
    case stop
    with Suc.prems show ?thesis by (auto simp: fallback_end_def split: option.splits)
  next
    case sent
    with Suc.prems show ?thesis by (auto dest: s_headerResponded_responded)
  next
    case none
    with Suc.prems f 1 show ?thesis by auto
  next
    case skip
    with Suc.prems f Suc.IH [of err ?st] 1 show ?thesis by (auto intro: route_frame_trans)
  next
    case round
    with Suc.prems f obtain st1 out where r1: "fallback_round se d ?st = Some (st1, out)"
      and r2: "(case out of Inl result \<Rightarrow> Some (st1, result) | Inr err \<Rightarrow> tryFallback_loop se skip n (Some err) st1) = Some (st', e)"
      by (auto simp: bind_eq_Some_conv)
    from fallback_round_frame [OF assms(1,2) r1] have 2: "route_frame I ?st st1" "out = Inl None \<longrightarrow> rc_HeaderResponded (s_rc st1)" by blast+
    from route_frame_trans [OF 1 2(1)] have 3: "route_frame I st st1" .
    show ?thesis
    proof (cases out)
      case (Inl x)
      with r2 2 3 show ?thesis by (auto simp: responded_def)
    next
      case (Inr err')
      with r2 Suc.IH [of "Some err'" st1] 3 show ?thesis by (auto intro: route_frame_trans)
    qed
  qed
qed

lemma tryFallback_loop_total:
  assumes "queue_limited se"
  shows "\<exists>st' e. tryFallback_loop se skip n err st = Some (st', e)"
proof (induction n arbitrary: err st)
  case (Suc n)
  obtain rc r where f: "Fallback (se_router se) (s_rc st) = (rc, r)" by (cases "Fallback (se_router se) (s_rc st)")
  show ?case
  proof (cases r)
    case (Inr d)
    from fallback_round_total [OF assms, of d "on_h (on_rc (\<lambda>_. rc)) st"] obtain st1 out
      where r1: "fallback_round se d (on_h (on_rc (\<lambda>_. rc)) st) = Some (st1, out)" by blast
    with f Inr Suc.IH show ?thesis by (cases out) (auto simp: Let_def)
  qed (use f in auto)
qed simp

text \<open>The rounds \<open>tryFallback\<close> allows are enough: when they are used up no endpoint is left.\<close>

lemma Fallback_advances:
  assumes "CanFallback sr rc" "Fallback sr rc = (rc', r)"
  shows "rc_FallbackAttempt rc' = rc_FallbackAttempt rc + 1"
  using assms by (auto simp: Fallback_def CanFallback_def Let_def split: if_splits)

lemma fallback_rounds_left:
  assumes "nat (int (length (sr_fallbackConfigs sr)) - rc_FallbackAttempt rc) = n"
  shows "CanFallback sr rc \<Longrightarrow> 0 < n"
  using assms by (auto simp: CanFallback_def)

subsection \<open>Every internal route is answered\<close>

lemma answer_simps [simp]:
  "s_world (answer e st) = s_world st" "s_rc (answer e st) = send e [] (s_rc st)" "ss_out (answer e st) = ss_out st"
  by (simp_all add: answer_def)

lemma answer_if_simps [simp]: "answer_if None st = st" "answer_if (Some e) st = answer (Some e) st"
  by (simp_all add: answer_if_def)

lemma tryFallback_frame:
  assumes "watched se I upd rel" "ctx_ok se" "tryFallback se skip st = Some (st', e)"
  shows "route_frame I st st' \<and> (e = None \<longrightarrow> responded (s_rc st'))"
  using tryFallback_loop_frame [OF assms(1,2) assms(3) [unfolded tryFallback_def]] .

lemma tryFallback_total: "queue_limited se \<Longrightarrow> \<exists>st' e. tryFallback se skip st = Some (st', e)"
  unfolding tryFallback_def by (rule tryFallback_loop_total)

text \<open>The last step of a route: it sends nothing after the client has been served, and one error otherwise.\<close>

definition last_step :: "('s \<Rightarrow> 'i) \<Rightarrow> 's sstate \<Rightarrow> 's sstate \<Rightarrow> ResponseMsg list \<Rightarrow> bool" where
  "last_step I st st' ms \<longleftrightarrow>
     rc_Sent (s_rc st') = rc_Sent (s_rc st) @ ms \<and> rc_SchedulingResults (s_rc st') = rc_SchedulingResults (s_rc st) \<and>
     rc_ForwardSucceeded (s_rc st') = rc_ForwardSucceeded (s_rc st) \<and> rc_Closed (s_rc st') = rc_Closed (s_rc st) \<and> I (s_world st') = I (s_world st) \<and>
     (ms = [] \<and> responded (s_rc st') \<or> (\<exists>e m. ms = [\<lparr>rm_Err = Some e, rm_Message = m\<rparr>]))"

lemma last_step_send:
  assumes "route_frame I st st1" "s_rc st' = send (Some e) m (s_rc st1)" "I (s_world st') = I (s_world st1)"
  shows "last_step I st st' [\<lparr>rm_Err = Some e, rm_Message = m\<rparr>]"
  using assms(2,3) by (simp add: last_step_def send_def route_frame_fields [OF assms(1)])

lemma last_step_served: "route_frame I st st' \<Longrightarrow> responded (s_rc st') \<Longrightarrow> last_step I st st' []"
  by (simp add: last_step_def route_frame_fields)

lemma fallback_or_step:
  assumes "watched se I upd rel" "ctx_ok se" "fallback_or se (Some err) msg st = Some st'"
  shows "\<exists>ms. last_step I st st' ms"
proof (cases "CanFallback (se_router se) (s_rc st)")
  case True
  with assms(3) obtain st1 e where t: "tryFallback se [] st = Some (st1, e)" and st': "st' = answer_if e st1"
    by (auto simp: fallback_or_def bind_eq_Some_conv)
  note f = tryFallback_frame [OF assms(1,2) t]
  show ?thesis
  proof (cases e)
    case None
    with f st' show ?thesis by (auto intro: last_step_served)
  next
    case (Some x)
    with f st' last_step_send [of I st st1 st' x "[]"] show ?thesis by auto
  qed
next
  case False
  with assms(3) have "st' = on_h (on_rc (send (Some err) msg)) st" by (auto simp: fallback_or_def)
  with last_step_send [of I st st st' err msg] show ?thesis by auto
qed

lemma fallback_or_total: "queue_limited se \<Longrightarrow> \<exists>st'. fallback_or se err msg st = Some st'"
  using tryFallback_total [of se "[]" st] by (auto simp: fallback_or_def)

lemma set_results_simps [simp]:
  "s_world (set_results r st) = s_world st" "s_rc (set_results r st) = (s_rc st)\<lparr>rc_SchedulingResults := r\<rparr>"
  by (simp_all add: set_results_def)

lemma foldl_release_simps [simp]:
  "hs_rc (foldl (\<lambda>h inst. release_inst he inst h) h is) = hs_rc h"
  by (induction "is" arbitrary: h) simp_all

lemma release_all_simps [simp]: "hs_rc (release_all he h) = hs_rc h"
  by (simp add: release_all_def)

lemma foldl_release_world:
  assumes "\<And>rc inst w. I (bl_Release (he_balancer he) rc inst w) = rel inst (I w)"
  shows "I (hs_world (foldl (\<lambda>h inst. release_inst he inst h) h is)) = foldl (\<lambda>l inst. rel inst l) (I (hs_world h)) is"
  by (induction "is" arbitrary: h) (simp_all add: release_inst_def assms)

text \<open>What a retry may change before the handler runs again.\<close>

definition retry_frame :: "'s sstate \<Rightarrow> 's sstate \<Rightarrow> bool" where
  "retry_frame st st' \<longleftrightarrow> fwd_frame ((s_rc st)\<lparr>rc_SchedulingResults := rc_SchedulingResults (s_rc st')\<rparr>) (s_rc st') \<and>
     rc_SchedulingStage (s_rc st') = rc_SchedulingStage (s_rc st)"

lemma s_Get_run:
  assumes "watched se I upd rel" "s_Get se st = Some (st', r)"
  shows "fwd_frame (s_rc st) (s_rc st') \<and> rc_SchedulingResults (s_rc st') = rc_SchedulingResults (s_rc st) \<and>
    rc_SchedulingStage (s_rc st') = rc_SchedulingStage (s_rc st) \<and> rc_SchedulingMode (s_rc st') = rc_SchedulingMode (s_rc st) \<and>
    I (s_world st') = upd r (I (s_world st)) \<and>
    (\<exists>g. bl_Get (he_balancer (se_handler se)) (s_rc st) (s_world st) = Some (s_world st', g, r))"
proof -
  from assms(2) obtain w rc where g: "balancer_Get (he_balancer (se_handler se)) (s_rc st) (s_world st) = Some (w, rc, r)"
    and st': "st' = on_h (\<lambda>h. h\<lparr>hs_world := w, hs_rc := rc\<rparr>) st" by (auto simp: s_Get_def)
  from g have "\<exists>g. bl_Get (he_balancer (se_handler se)) (s_rc st) (s_world st) = Some (w, g, r)" by (auto simp: balancer_Get_def)
  moreover from assms(1) have "observed (he_fwd (se_handler se)) (he_balancer (se_handler se)) I upd" by (simp add: watched_def)
  ultimately show ?thesis using balancer_Get_run [OF _ g] st' by auto
qed

lemma s_Get_total:
  assumes "get_total (he_balancer (se_handler se))" "has_completion (s_rc st)"
  shows "\<exists>st' r. s_Get se st = Some (st', r)"
proof -
  from assms have "bl_Get (he_balancer (se_handler se)) (s_rc st) (s_world st) \<noteq> None" by (auto simp: get_total_def)
  then show ?thesis by (auto simp: s_Get_def balancer_Get_def)
qed

lemma prepare_retry_run:
  assumes "watched se I upd rel" "ctx_ok se" "prepare_retry se (Some err) st = Some (st', go)"
  shows "(go \<longrightarrow> retry_frame st st') \<and> (\<not> go \<longrightarrow> (\<exists>st1 ms. retry_frame st st1 \<and> last_step I st1 st' ms))"
proof (cases "se_ctxErr se (s_world st)")
  case (Some e)
  with assms(3) have st': "st' = answer (Some e) st" "\<not> go" by (auto simp: prepare_retry_def)
  then have "last_step I st st' [\<lparr>rm_Err = Some e, rm_Message = []\<rparr>]" by (intro last_step_send [of I st st]) auto
  moreover have "retry_frame st st" by (simp add: retry_frame_def)
  ultimately show ?thesis using st' by blast
next
  case None
  let ?st0 = "set_results [] (on_h (release_all (se_handler se)) st)"
  from assms(3) None obtain st1 r where g: "s_Get se ?st0 = Some (st1, r)"
    and c: "(case r of Inl _ \<Rightarrow> map_option (\<lambda>st. (st, False)) (fallback_or se (Some err) [] st1)
             | Inr result \<Rightarrow> Some (set_results result st1, True)) = Some (st', go)"
    by (auto simp: prepare_retry_def bind_eq_Some_conv)
  note 1 = s_Get_run [OF assms(1) g]
  have 2: "fwd_frame (rc\<lparr>rc_SchedulingResults := x\<rparr>) (rc'\<lparr>rc_SchedulingResults := x\<rparr>)"
    if "fwd_frame (rc\<lparr>rc_SchedulingResults := []\<rparr>) rc'" for rc rc' x
    using that by (simp add: fwd_frame_def calm_def buffers_ok_def)
  show ?thesis
  proof (cases r)
    case (Inl e)
    with c fallback_or_step [OF assms(1,2), of err "[]" st1 st'] obtain ms where "last_step I st1 st' ms" "\<not> go" by auto
    moreover have "retry_frame st st1" using 1 by (simp add: retry_frame_def)
    ultimately show ?thesis by blast
  next
    case (Inr result)
    with c 1 2 [of "s_rc st" "s_rc st1" result] show ?thesis by (auto simp: retry_frame_def)
  qed
qed

lemma prepare_retry_total:
  assumes "get_total (he_balancer (se_handler se))" "queue_limited se" "has_completion (s_rc st)"
  shows "\<exists>st' go. prepare_retry se err st = Some (st', go)"
proof (cases "se_ctxErr se (s_world st)")
  case None
  from s_Get_total [OF assms(1), of "set_results [] (on_h (release_all (se_handler se)) st)"] assms(3)
  obtain st1 r where "s_Get se (set_results [] (on_h (release_all (se_handler se)) st)) = Some (st1, r)" by auto
  with None fallback_or_total [OF assms(2), of err "[]" st1] show ?thesis by (cases r) (auto simp: prepare_retry_def)
qed (auto simp: prepare_retry_def intro: exI [of _ False])

definition answered :: "RequestContext \<Rightarrow> ResponseMsg list \<Rightarrow> bool" where
  "answered rc ms \<longleftrightarrow> rc_ForwardSucceeded rc \<or> responded rc \<or> (ms \<noteq> [] \<and> rm_Err (last ms) \<noteq> None)"

text \<open>The messages of a whole run.\<close>

definition spoken :: "'s sstate \<Rightarrow> 's sstate \<Rightarrow> bool" where
  "spoken st st' \<longleftrightarrow> (\<exists>ms. rc_Sent (s_rc st') = rc_Sent (s_rc st) @ ms \<and> clean_end ms \<and> answered (s_rc st') ms)"

lemma spoken_last:
  assumes "rc_Sent (s_rc st1) = rc_Sent (s_rc st) @ ms" "data_only ms" "last_step I st1 st' ms'"
  shows "spoken st st'"
proof -
  from assms(3) have "ms' = [] \<and> responded (s_rc st') \<or> (\<exists>e m. ms' = [\<lparr>rm_Err = Some e, rm_Message = m\<rparr>])" by (simp add: last_step_def)
  with assms have "clean_end (ms @ ms')" "answered (s_rc st') (ms @ ms')"
    by (auto simp: answered_def clean_data clean_end_error)
  with assms(1,3) show ?thesis unfolding spoken_def by (intro exI [of _ "ms @ ms'"]) (simp add: last_step_def)
qed

lemma spoken_trans:
  assumes "rc_Sent (s_rc st1) = rc_Sent (s_rc st) @ ms" "data_only ms" "spoken st1 st'"
  shows "spoken st st'"
proof -
  from assms(3) obtain ms' where "rc_Sent (s_rc st') = rc_Sent (s_rc st1) @ ms'" "clean_end ms'" "answered (s_rc st') ms'" by (auto simp: spoken_def)
  with assms(1,2) show ?thesis unfolding spoken_def by (intro exI [of _ "ms @ ms'"]) (auto simp: answered_def clean_end_data_append)
qed

definition run_ok :: "'s henv \<Rightarrow> RequestContext \<Rightarrow> bool" where
  "run_ok he rc \<longleftrightarrow> has_completion rc \<and> buffers_ok rc \<and> \<not> (tracking he \<and> lr_ClientStream (rc_LLM rc))"

lemma run_ok_frame: "fwd_frame rc rc' \<Longrightarrow> run_ok he rc \<Longrightarrow> run_ok he rc'"
  by (auto simp: run_ok_def fwd_frame_def calm_def)

lemma run_ok_step: "rc_step rc rc' ms \<Longrightarrow> run_ok he rc \<Longrightarrow> run_ok he rc'"
  by (auto simp: run_ok_def rc_step_def calm_def)

lemma run_ok_results [simp]: "run_ok he (rc\<lparr>rc_SchedulingResults := r\<rparr>) = run_ok he rc"
  by (simp add: run_ok_def buffers_ok_def)

lemma run_ok_retry: "retry_frame st st' \<Longrightarrow> run_ok he (s_rc st) \<Longrightarrow> run_ok he (s_rc st')"
  by (auto simp: retry_frame_def intro: run_ok_frame [of "(s_rc st)\<lparr>rc_SchedulingResults := rc_SchedulingResults (s_rc st')\<rparr>"])

lemma retry_frame_fields:
  assumes "retry_frame st st'"
  shows "rc_Sent (s_rc st') = rc_Sent (s_rc st)" "rc_Closed (s_rc st') = rc_Closed (s_rc st)" "rc_ForwardSucceeded (s_rc st') = rc_ForwardSucceeded (s_rc st)"
    "rc_SchedulingMode (s_rc st') = rc_SchedulingMode (s_rc st)" "rc_SchedulingStage (s_rc st') = rc_SchedulingStage (s_rc st)"
  using assms by (auto simp: retry_frame_def fwd_frame_def calm_def)

text \<open>The handler, as the route sees it.\<close>

lemma Handle_step:
  assumes "tools_total (he_proc he)" "Handle he h = Some (h', e)"
  shows "\<exists>ms. rc_Sent (hs_rc h') = rc_Sent (hs_rc h) @ ms \<and> clean_end ms \<and> (e \<noteq> None \<longrightarrow> data_only ms) \<and> calm (hs_rc h) (hs_rc h') \<and>
    (run_ok he (hs_rc h) \<longrightarrow> run_ok he (hs_rc h'))"
proof -
  obtain rc w ms where f: "fwd_run (\<lambda>_ _. ()) (\<lambda>_. ()) (hs_rc h) (hs_world h) rc w" and s: "rc_step rc (hs_rc h') ms" "clean_end ms" "e \<noteq> None \<longrightarrow> data_only ms"
    by (rule Handle_run [OF assms(1) observed_unit assms(2)])
  from f have 1: "fwd_frame (hs_rc h) rc" by (simp add: fwd_run_def)
  have "run_ok he (hs_rc h) \<longrightarrow> run_ok he (hs_rc h')" using run_ok_frame [OF 1] run_ok_step [OF s(1)] by blast
  moreover have "calm (hs_rc h) (hs_rc h')" using 1 s(1) by (auto simp: fwd_frame_def rc_step_def intro: calm_trans)
  moreover have "rc_Sent (hs_rc h') = rc_Sent (hs_rc h) @ ms" using 1 s(1) by (simp add: fwd_frame_def rc_step_def said_def)
  ultimately show ?thesis using s by blast
qed

text \<open>What happens after a failed attempt.\<close>

definition after_failure :: "'s senv \<Rightarrow> nat \<Rightarrow> nat \<Rightarrow> gw_error \<Rightarrow> 's sstate \<Rightarrow> 's sstate option" where
  "after_failure se left attempt err st =
     (if \<not> retryable err then Some (answer (Some err) st)
      else if s_headerResponded se st then Some st
      else if left = 0 then fallback_or se (Some err) [] st
      else let st = on_h (on_rc (count_retry err)) st;
               (w, interrupted) = se_wait se (backoff attempt) (s_world st);
               st = set_world w st
           in if interrupted then Some (answer (se_ctxErr se w) st)
              else attempt_loop se left (Suc attempt) (Some err) st)"

lemma attempt_loop_Suc:
  "attempt_loop se (Suc left) attempt originErr st =
     do { (st, go) \<leftarrow> (if 0 < attempt then prepare_retry se originErr st else Some (st, True));
          if \<not> go then Some st
          else do { (h, e) \<leftarrow> Handle (se_handler se) (ss_h st);
                    case e of
                      None \<Rightarrow> Some (on_h (on_rc (\<lambda>rc. rc\<lparr>rc_ForwardSucceeded := True\<rparr>)) (st\<lparr>ss_h := h\<rparr>))
                    | Some err \<Rightarrow> after_failure se left attempt err (st\<lparr>ss_h := h\<rparr>) } }"
  by (simp only: attempt_loop.simps after_failure_def Let_def)

lemma count_retry_frame [simp]:
  "rc_rest (count_retry err rc) = rc_rest rc" "rc_LLM (count_retry err rc) = rc_LLM rc" "run_ok he (count_retry err rc) = run_ok he rc"
  by (simp_all add: count_retry_def Let_def run_ok_def buffers_ok_def)

lemma count_retry_fields [simp]:
  "rc_Sent (count_retry err rc) = rc_Sent rc" "rc_Closed (count_retry err rc) = rc_Closed rc" "rc_SchedulingResults (count_retry err rc) = rc_SchedulingResults rc"
  "rc_SchedulingMode (count_retry err rc) = rc_SchedulingMode rc" "rc_SchedulingStage (count_retry err rc) = rc_SchedulingStage rc"
  "rc_ForwardSucceeded (count_retry err rc) = rc_ForwardSucceeded rc"
  using count_retry_frame(1) [of err rc] by (simp_all add: rc_rest_def)

lemma attempt_loop_spoken:
  assumes "tools_total (he_proc (se_handler se))" "ctx_ok se" "attempt_loop se left attempt originErr st = Some st'" "0 < left" "0 < attempt \<longrightarrow> originErr \<noteq> None"
  shows "spoken st st'"
  using assms(3-5)
proof (induction left arbitrary: attempt originErr st)
  case (Suc left)
  from Suc.prems(1) obtain st1 go where p: "(if 0 < attempt then prepare_retry se originErr st else Some (st, True)) = Some (st1, go)"
    and r: "(if \<not> go then Some st1
          else do { (h, e) \<leftarrow> Handle (se_handler se) (ss_h st1);
                    case e of
                      None \<Rightarrow> Some (on_h (on_rc (\<lambda>rc. rc\<lparr>rc_ForwardSucceeded := True\<rparr>)) (st1\<lparr>ss_h := h\<rparr>))
                    | Some err \<Rightarrow> after_failure se left attempt err (st1\<lparr>ss_h := h\<rparr>) }) = Some st'"
    unfolding attempt_loop_Suc by (auto simp only: bind_eq_Some_conv split: prod.splits)
  have prep: "(go \<longrightarrow> rc_Sent (s_rc st1) = rc_Sent (s_rc st)) \<and> (\<not> go \<longrightarrow> spoken st st1)"
  proof (cases "0 < attempt")
    case True
    with Suc.prems(3) obtain err where "originErr = Some err" by blast
    with True p have "prepare_retry se (Some err) st = Some (st1, go)" by simp
    from prepare_retry_run [OF watched_unit assms(2) this] show ?thesis
    proof (intro conjI impI, goal_cases)
      case 1
      then show ?case by (auto dest: retry_frame_fields(1))
    next
      case 2
      then obtain st2 ms where "retry_frame st st2" "last_step (\<lambda>_. ()) st2 st1 ms" by blast
      then show ?case by (intro spoken_last [of st2 st "[]"]) (auto dest: retry_frame_fields(1))
    qed
  next
    case False
    with p show ?thesis by simp
  qed
  show ?case
  proof (cases go)
    case False
    with r prep show ?thesis by simp
  next
    case True
    with r obtain h e where hd: "Handle (se_handler se) (ss_h st1) = Some (h, e)"
      and c: "(case e of None \<Rightarrow> Some (on_h (on_rc (\<lambda>rc. rc\<lparr>rc_ForwardSucceeded := True\<rparr>)) (st1\<lparr>ss_h := h\<rparr>))
                    | Some err \<Rightarrow> after_failure se left attempt err (st1\<lparr>ss_h := h\<rparr>)) = Some st'"
      by (auto simp: bind_eq_Some_conv)
    from Handle_step [OF assms(1) hd] True prep obtain ms where ms: "rc_Sent (hs_rc h) = rc_Sent (s_rc st) @ ms" "clean_end ms" "e \<noteq> None \<longrightarrow> data_only ms" by auto
    show ?thesis
    proof (cases e)
      case None
      with c ms show ?thesis unfolding spoken_def by (intro exI [of _ ms]) (auto simp: answered_def)
    next
      case (Some err)
      let ?st = "st1\<lparr>ss_h := h\<rparr>"
      have d: "data_only ms" "rc_Sent (s_rc ?st) = rc_Sent (s_rc st) @ ms" using ms Some by auto
      let ?st2 = "on_h (on_rc (count_retry err)) ?st"
      let ?w = "se_wait se (backoff attempt) (s_world ?st2)"
      consider "\<not> retryable err" | "retryable err" "s_headerResponded se ?st" | "retryable err" "\<not> s_headerResponded se ?st" "left = 0"
        | "retryable err" "\<not> s_headerResponded se ?st" "0 < left" "snd ?w" | "retryable err" "\<not> s_headerResponded se ?st" "0 < left" "\<not> snd ?w"
        by blast
      then show ?thesis
      proof cases
        case 1
        with c Some have "last_step (\<lambda>_. ()) ?st st' [\<lparr>rm_Err = Some err, rm_Message = []\<rparr>]"
          by (intro last_step_send [of _ ?st ?st]) (auto simp: after_failure_def)
        with spoken_last [OF d(2,1)] show ?thesis by blast
      next
        case 2
        with c Some have "st' = ?st" by (simp add: after_failure_def)
        with 2(2) have "last_step (\<lambda>_. ()) ?st st' []" by (auto intro: last_step_served dest: s_headerResponded_responded)
        with spoken_last [OF d(2,1)] show ?thesis by blast
      next
        case 3
        with c Some fallback_or_step [OF watched_unit assms(2), of err "[]" ?st st'] obtain ms' where "last_step (\<lambda>_. ()) ?st st' ms'"
          by (auto simp: after_failure_def)
        with spoken_last [OF d(2,1)] show ?thesis by blast
      next
        case 4
        from assms(2) 4(4) obtain e' where e': "se_ctxErr se (fst ?w) = Some e'" by (auto simp: ctx_ok_def)
        with 4 c Some have st': "st' = answer (Some e') (set_world (fst ?w) ?st2)" by (auto simp: after_failure_def Let_def split_beta)
        then have "last_step (\<lambda>_. ()) ?st2 st' [\<lparr>rm_Err = Some e', rm_Message = []\<rparr>]"
          by (intro last_step_send [of _ ?st2 "set_world (fst ?w) ?st2"] route_frame_world) auto
        with d spoken_last [of ?st2 st ms] show ?thesis by simp
      next
        case 5
        with c Some have "attempt_loop se left (Suc attempt) (Some err) (set_world (fst ?w) ?st2) = Some st'"
          by (auto simp: after_failure_def Let_def split_beta)
        from Suc.IH [OF this] 5(3) have "spoken (set_world (fst ?w) ?st2) st'" by simp
        with d spoken_trans [of "set_world (fst ?w) ?st2" st ms] show ?thesis by simp
      qed
    qed
  qed
qed simp

lemma attempt_loop_total:
  assumes env: "tools_total (he_proc (se_handler se))" "get_total (he_balancer (se_handler se))" "forwarder_total (he_forwarder (se_handler se))"
    "queue_limited se" "ctx_ok se" and "run_ok (se_handler se) (s_rc st)" "0 < attempt \<longrightarrow> originErr \<noteq> None"
  shows "\<exists>st'. attempt_loop se left attempt originErr st = Some st'"
  using assms(6,7)
proof (induction left arbitrary: attempt originErr st)
  case (Suc left)
  have c: "has_completion (s_rc st)" using Suc.prems(1) by (simp add: run_ok_def)
  have "\<exists>st1 go. (if 0 < attempt then prepare_retry se originErr st else Some (st, True)) = Some (st1, go)"
    using prepare_retry_total [OF env(2,4) c, of originErr] by auto
  then obtain st1 go where p: "(if 0 < attempt then prepare_retry se originErr st else Some (st, True)) = Some (st1, go)" by blast
  show ?case
  proof (cases go)
    case False
    with p show ?thesis unfolding attempt_loop_Suc by simp
  next
    case True
    have st1: "run_ok (se_handler se) (s_rc st1)"
    proof (cases "0 < attempt")
      case at: True
      with Suc.prems(2) obtain err where "originErr = Some err" by blast
      with p at have "prepare_retry se (Some err) st = Some (st1, go)" by simp
      from prepare_retry_run [OF watched_unit env(5) this] True Suc.prems(1) show ?thesis by (auto intro: run_ok_retry)
    qed (use p Suc.prems(1) in auto)
    then have "has_completion (s_rc st1)" "buffers_ok (s_rc st1)" "\<not> (tracking (se_handler se) \<and> lr_ClientStream (rc_LLM (s_rc st1)))"
      by (auto simp: run_ok_def)
    from Handle_total [OF env(1-3) this] obtain h e where hd: "Handle (se_handler se) (ss_h st1) = Some (h, e)" by blast
    from Handle_step [OF env(1) hd] st1 have h: "run_ok (se_handler se) (hs_rc h)" by blast
    have "\<exists>st'. after_failure se left attempt err (st1\<lparr>ss_h := h\<rparr>) = Some st'" for err
    proof -
      let ?st2 = "on_h (on_rc (count_retry err)) (st1\<lparr>ss_h := h\<rparr>)"
      from Suc.IH [of "set_world (fst (se_wait se (backoff attempt) (s_world ?st2))) ?st2" "Suc attempt" "Some err"] h
        fallback_or_total [OF env(4), of "Some err" "[]" "st1\<lparr>ss_h := h\<rparr>"]
      show ?thesis by (auto simp: after_failure_def Let_def split_beta)
    qed
    with p True hd show ?thesis unfolding attempt_loop_Suc by (cases e) auto
  qed
qed simp

lemma release_typed_world: "hs_rc (OnPostRequest he h) = hs_rc h"
  by (simp add: OnPostRequest_def Let_def)


subsection \<open>Acquired instances are released\<close>

definition kept :: "('s \<Rightarrow> 'i) \<Rightarrow> SchedulingMode \<Rightarrow> ('i \<Rightarrow> SchedulingResult \<Rightarrow> bool) \<Rightarrow> 's sstate \<Rightarrow> bool" where
  "kept I mode B st \<longleftrightarrow> rc_SchedulingMode (s_rc st) = mode \<and> B (I (s_world st)) (rc_SchedulingResults (s_rc st))"

text \<open>The books of a balancer: \<open>B l rs\<close> relates what was observed so far to the instances a request holds.
  Failing to acquire changes nothing, the decode stage adds instances, releasing all of them empties the
  list, a new acquisition fills it, and the prefill hook finds nothing to release.\<close>

locale books =
  fixes se :: "'s senv" and I :: "'s \<Rightarrow> 'i" and upd :: "gw_error + SchedulingResult \<Rightarrow> 'i \<Rightarrow> 'i" and rel :: "LLMInstance \<Rightarrow> 'i \<Rightarrow> 'i"
    and mode :: SchedulingMode and B :: "'i \<Rightarrow> SchedulingResult \<Rightarrow> bool"
  assumes watched: "watched se I upd rel"
    and miss: "B l rs \<Longrightarrow> B (upd (Inl e) l) rs"
    and decode: "mode = SchedulingModePDStaged \<Longrightarrow> B l rs \<Longrightarrow> B (upd (Inr r) l) (rs @ r)"
    and drop_all: "B l rs \<Longrightarrow> B (foldl (\<lambda>l i. rel i l) l rs) []"
    and acquire: "bl_Get (he_balancer (se_handler se)) rc w = Some (w', g, Inr r) \<Longrightarrow> B (I w) [] \<Longrightarrow> B (I w') r"
    and prefill: "B l rs \<Longrightarrow> \<not> tracking (se_handler se) \<or> no_prefill rs"
begin

lemma kept_last: "last_step I st st' ms \<Longrightarrow> kept I mode B st \<Longrightarrow> B (I (s_world st')) (rc_SchedulingResults (s_rc st'))"
  by (simp add: kept_def last_step_def)

lemma kept_release_all: "kept I mode B st \<Longrightarrow> B (I (hs_world (release_all (se_handler se) (ss_h st)))) []"
proof -
  have "I (bl_Release (he_balancer (se_handler se)) rc inst w) = rel inst (I w)" for rc inst w
    using watched by (simp add: watched_def)
  from foldl_release_world [of I "se_handler se" rel, OF this] show "kept I mode B st \<Longrightarrow> ?thesis"
    by (simp add: kept_def release_all_def drop_all)
qed

lemma kept_prepare:
  assumes "ctx_ok se" "prepare_retry se (Some err) st = Some (st', go)" "kept I mode B st"
  shows "if go then kept I mode B st' else B (I (s_world st')) (rc_SchedulingResults (s_rc st'))"
proof (cases "se_ctxErr se (s_world st)")
  case (Some e)
  with assms(2,3) show ?thesis by (auto simp: prepare_retry_def kept_def)
next
  case None
  let ?st0 = "set_results [] (on_h (release_all (se_handler se)) st)"
  from assms(2) None obtain st1 r where g: "s_Get se ?st0 = Some (st1, r)"
    and c: "(case r of Inl _ \<Rightarrow> map_option (\<lambda>st. (st, False)) (fallback_or se (Some err) [] st1)
             | Inr result \<Rightarrow> Some (set_results result st1, True)) = Some (st', go)"
    by (auto simp: prepare_retry_def bind_eq_Some_conv)
  note 1 = s_Get_run [OF watched g]
  have 0: "B (I (s_world ?st0)) []" using kept_release_all [OF assms(3)] by simp
  have m: "rc_SchedulingMode (s_rc st1) = mode" using 1 assms(3) by (simp add: kept_def)
  show ?thesis
  proof (cases r)
    case (Inl e)
    then have "kept I mode B st1" unfolding kept_def using 1 m miss [OF 0, of e] by simp
    with c Inl fallback_or_step [OF watched assms(1), of err "[]" st1 st'] show ?thesis by (auto dest: kept_last)
  next
    case (Inr result)
    from 1 Inr obtain g' where "bl_Get (he_balancer (se_handler se)) (s_rc ?st0) (s_world ?st0) = Some (s_world st1, g', Inr result)" by blast
    from acquire [OF this 0] c Inr m show ?thesis by (auto simp: kept_def)
  qed
qed

lemma kept_Handle:
  assumes "tools_total (he_proc (se_handler se))" "Handle (se_handler se) (ss_h st) = Some (h, e)" "kept I mode B st"
  shows "kept I mode B (st\<lparr>ss_h := h\<rparr>)"
proof -
  have o: "observed (he_fwd (se_handler se)) (he_balancer (se_handler se)) I upd" and rep: "I (he_report (se_handler se) ds w) = I w" for ds w
    using watched by (simp_all add: watched_def)
  obtain rc w where f: "fwd_run upd I (s_rc st) (s_world st) rc w" and rs: "rc_SchedulingResults (hs_rc h) = rc_SchedulingResults rc"
    and "rc_SchedulingStage rc = SchedulingStageDecode \<longrightarrow> rc_SchedulingStage (hs_rc h) = SchedulingStageDecode"
    and w: "\<not> tracking (se_handler se) \<or> no_prefill (rc_SchedulingResults rc) \<longrightarrow> I (hs_world h) = I w"
    by (rule Handle_books [OF assms(1) o rep assms(2)])
  have "B (I w) (rc_SchedulingResults rc)" using f assms(3) miss decode by (auto simp: fwd_run_def kept_def)
  moreover have "rc_SchedulingMode (hs_rc h) = mode" using Handle_step [OF assms(1,2)] assms(3) by (auto simp: calm_def kept_def)
  ultimately show ?thesis using w prefill rs by (simp add: kept_def)
qed

lemma attempt_loop_books:
  assumes "tools_total (he_proc (se_handler se))" "ctx_ok se" "attempt_loop se left attempt originErr st = Some st'" "0 < attempt \<longrightarrow> originErr \<noteq> None" "kept I mode B st"
  shows "B (I (s_world st')) (rc_SchedulingResults (s_rc st'))"
  using assms(3-5)
proof (induction left arbitrary: attempt originErr st)
  case 0
  then show ?case by (simp add: kept_def)
next
  case (Suc left)
  from Suc.prems(1) obtain st1 go where p: "(if 0 < attempt then prepare_retry se originErr st else Some (st, True)) = Some (st1, go)"
    and r: "(if \<not> go then Some st1
          else do { (h, e) \<leftarrow> Handle (se_handler se) (ss_h st1);
                    case e of
                      None \<Rightarrow> Some (on_h (on_rc (\<lambda>rc. rc\<lparr>rc_ForwardSucceeded := True\<rparr>)) (st1\<lparr>ss_h := h\<rparr>))
                    | Some err \<Rightarrow> after_failure se left attempt err (st1\<lparr>ss_h := h\<rparr>) }) = Some st'"
    unfolding attempt_loop_Suc by (auto simp only: bind_eq_Some_conv split: prod.splits)
  have k: "if go then kept I mode B st1 else B (I (s_world st1)) (rc_SchedulingResults (s_rc st1))"
    using p kept_prepare [OF assms(2)] Suc.prems(2,3) by (cases "0 < attempt"; cases originErr) auto
  show ?case
  proof (cases go)
    case True
    with r obtain h e where hd: "Handle (se_handler se) (ss_h st1) = Some (h, e)"
      and c: "(case e of None \<Rightarrow> Some (on_h (on_rc (\<lambda>rc. rc\<lparr>rc_ForwardSucceeded := True\<rparr>)) (st1\<lparr>ss_h := h\<rparr>))
                    | Some err \<Rightarrow> after_failure se left attempt err (st1\<lparr>ss_h := h\<rparr>)) = Some st'"
      by (auto simp: bind_eq_Some_conv)
    from kept_Handle [OF assms(1) hd] k True have k2: "kept I mode B (st1\<lparr>ss_h := h\<rparr>)" by simp
    show ?thesis
    proof (cases e)
      case None
      with c k2 show ?thesis by (auto simp: kept_def)
    next
      case (Some err)
      let ?st2 = "on_h (on_rc (count_retry err)) (st1\<lparr>ss_h := h\<rparr>)"
      let ?w = "se_wait se (backoff attempt) (s_world ?st2)"
      have "I (fst ?w) = I (s_world ?st2)" using watched unfolding watched_def by blast
      then have k3: "kept I mode B (set_world (fst ?w) ?st2)" using k2 by (simp add: kept_def)
      have f: "B (I (s_world st')) (rc_SchedulingResults (s_rc st'))" if "fallback_or se (Some err) [] (st1\<lparr>ss_h := h\<rparr>) = Some st'"
        using fallback_or_step [OF watched assms(2) that] kept_last [OF _ k2] by blast
      have l: "B (I (s_world st')) (rc_SchedulingResults (s_rc st'))" if "attempt_loop se left (Suc attempt) (Some err) (set_world (fst ?w) ?st2) = Some st'"
        using Suc.IH [OF that _ k3] by simp
      have a: "B (I (s_world x)) (rc_SchedulingResults (s_rc x))"
        if "x = answer (Some err) (st1\<lparr>ss_h := h\<rparr>) \<or> x = st1\<lparr>ss_h := h\<rparr> \<or> x = answer (se_ctxErr se (fst ?w)) (set_world (fst ?w) ?st2)" for x
        using that k2 k3 unfolding kept_def by auto
      from c Some f l a show ?thesis unfolding after_failure_def Let_def split_beta by (auto split: if_splits)
    qed
  qed (use r k in auto)
qed

end

text \<open>The ledger: any gateway with its acquisitions and releases written down.\<close>

datatype bl_event = Got SchedulingResult | Released LLMInstance

definition log_upd :: "gw_error + SchedulingResult \<Rightarrow> bl_event list \<Rightarrow> bl_event list" where
  "log_upd r l = (case r of Inl _ \<Rightarrow> l | Inr rs \<Rightarrow> l @ [Got rs])"

definition log_rel :: "LLMInstance \<Rightarrow> bl_event list \<Rightarrow> bl_event list" where
  "log_rel i l = l @ [Released i]"

definition logged_balancer :: "'s Balancer \<Rightarrow> ('s \<times> bl_event list) Balancer" where
  "logged_balancer bl =
     \<lparr>bl_Get = \<lambda>rc (w, l). map_option (\<lambda>(w, g, r). ((w, log_upd r l), g, r)) (bl_Get bl rc w),
      bl_Release = \<lambda>rc inst (w, l). (bl_Release bl rc inst w, log_rel inst l)\<rparr>"

definition logged_fenv :: "'s fenv \<Rightarrow> ('s \<times> bl_event list) fenv" where
  "logged_fenv fe =
     \<lparr>fe_Do = \<lambda>u b (w, l). (let (w, a) = fe_Do fe u b w in ((w, l), a)), fe_newRequest = fe_newRequest fe, fe_marshal = fe_marshal fe,
      fe_unmarshal = fe_unmarshal fe, fe_Intn = \<lambda>(w, l). (let (w, x) = fe_Intn fe w in ((w, l), x)), fe_prefillFails = \<lambda>(w, l). fe_prefillFails fe w\<rparr>"

definition logged_henv :: "'s henv \<Rightarrow> ('s \<times> bl_event list) henv" where
  "logged_henv he =
     \<lparr>he_config = he_config he, he_forwarder = he_forwarder he, he_fwd = logged_fenv (he_fwd he), he_balancer = logged_balancer (he_balancer he),
      he_proc = he_proc he, he_decode = he_decode he, he_encodeChat = he_encodeChat he, he_encodeCompletion = he_encodeCompletion he,
      he_report = \<lambda>ds (w, l). (he_report he ds w, l), he_written = \<lambda>(w, l). he_written he w\<rparr>"

definition logged :: "'s senv \<Rightarrow> ('s \<times> bl_event list) senv" where
  "logged se =
     \<lparr>se_handler = logged_henv (se_handler se), se_router = se_router se,
      se_external = \<lambda>u k b (w, l). (let (w, a) = se_external se u k b w in ((w, l), a)),
      se_ctxErr = \<lambda>(w, l). se_ctxErr se w, se_wait = \<lambda>d (w, l). (let (w, x) = se_wait se d w in ((w, l), x)),
      se_Intn = \<lambda>(w, l). se_Intn se w, se_queue = \<lambda>(w, l). se_queue se w, se_round = \<lambda>(w, l). se_round se w,
      se_gaveUp = \<lambda>(w, l). se_gaveUp se w, se_Error = se_Error se\<rparr>"

fun gots :: "bl_event list \<Rightarrow> LLMInstance multiset" where
  "gots [] = {#}"
| "gots (Got rs # l) = mset rs + gots l"
| "gots (Released i # l) = gots l"

fun rels :: "bl_event list \<Rightarrow> LLMInstance multiset" where
  "rels [] = {#}"
| "rels (Got rs # l) = rels l"
| "rels (Released i # l) = {#i#} + rels l"

lemma gots_append [simp]: "gots (l @ l') = gots l + gots l'"
  by (induction l rule: gots.induct) simp_all

lemma rels_append [simp]: "rels (l @ l') = rels l + rels l'"
  by (induction l rule: rels.induct) simp_all

text \<open>What a request holds and what was released is what it started with and what was acquired.\<close>

definition owed :: "LLMInstance multiset \<Rightarrow> bl_event list \<Rightarrow> SchedulingResult \<Rightarrow> bool" where
  "owed K l rs \<longleftrightarrow> mset rs + rels l = K + gots l"

lemma logged_simps [simp]:
  "he_config (logged_henv he) = he_config he" "he_balancer (logged_henv he) = logged_balancer (he_balancer he)"
  "he_proc (logged_henv he) = he_proc he" "he_fwd (logged_henv he) = logged_fenv (he_fwd he)"
  "se_handler (logged se) = logged_henv (se_handler se)"
  by (simp_all add: logged_henv_def logged_def)

lemma logged_watched: "watched (logged se) snd log_upd log_rel"
  by (auto simp: watched_def observed_def logged_def logged_henv_def logged_fenv_def logged_balancer_def split_beta)

lemma owed_laws:
  "owed K l rs \<Longrightarrow> owed K (log_upd (Inl e) l) rs"
  "owed K l rs \<Longrightarrow> owed K (log_upd (Inr r) l) (rs @ r)"
  "owed K (foldl (\<lambda>l i. log_rel i l) l rs) [] \<longleftrightarrow> owed K l rs"
proof -
  show "owed K l rs \<Longrightarrow> owed K (log_upd (Inl e) l) rs" by (simp add: log_upd_def)
  show "owed K l rs \<Longrightarrow> owed K (log_upd (Inr r) l) (rs @ r)" by (simp add: owed_def log_upd_def ac_simps)
  have "rels (foldl (\<lambda>l i. log_rel i l) l rs) = rels l + mset rs \<and> gots (foldl (\<lambda>l i. log_rel i l) l rs) = gots l"
    by (induction rs arbitrary: l) (simp_all add: log_rel_def ac_simps)
  then show "owed K (foldl (\<lambda>l i. log_rel i l) l rs) [] \<longleftrightarrow> owed K l rs" by (simp add: owed_def ac_simps)
qed

lemma logged_Get:
  assumes "bl_Get (logged_balancer bl) rc w = Some (w', g, r)"
  shows "snd w' = log_upd r (snd w) \<and> bl_Get bl rc (fst w) = Some (fst w', g, r)"
  using assms by (auto simp: logged_balancer_def split_beta)

interpretation full_books: books "logged se" snd log_upd log_rel mode "\<lambda>l rs. \<not> tracking (se_handler se) \<and> owed K l rs" for se mode K
  by unfold_locales
    (use logged_watched owed_laws owed_laws(2) [of K _ "[]"] in \<open>auto simp del: mset_append dest!: logged_Get\<close>)

definition neutral_one :: "SchedulingResult \<Rightarrow> bool" where
  "neutral_one rs \<longleftrightarrow> (case rs of [] \<Rightarrow> True | [i] \<Rightarrow> li_InferType i = InferTypeNeutral | _ \<Rightarrow> False)"

definition neutral_gets :: "'s Balancer \<Rightarrow> bool" where
  "neutral_gets bl \<longleftrightarrow> (\<forall>rc w. case bl_Get bl rc w of Some (_, _, Inr r) \<Rightarrow> neutral_one r | _ \<Rightarrow> True)"

lemma neutral_getsD: "neutral_gets bl \<Longrightarrow> bl_Get bl rc w = Some (w', g, Inr r) \<Longrightarrow> neutral_one r"
  unfolding neutral_gets_def by (drule spec [of _ rc], drule spec [of _ w]) simp

lemma neutral_one_find: "neutral_one rs \<Longrightarrow> no_prefill rs \<and> GetInstanceByInferType rs InferTypeDecode = None \<and> 
    (case GetInstanceByInferType rs InferTypeNeutral of None \<Rightarrow> rs = [] | Some i \<Rightarrow> rs = [i])"
  by (auto simp: neutral_one_def GetInstanceByInferType_def split: list.splits)

interpretation lite_books: books "logged se" snd log_upd log_rel mode
  "\<lambda>l rs. neutral_gets (he_balancer (se_handler se)) \<and> mode \<noteq> SchedulingModePDStaged \<and> owed K l rs \<and> neutral_one rs" for se mode K
  by unfold_locales
    (use logged_watched owed_laws owed_laws(2) [of K _ "[]"] neutral_one_find in
      \<open>auto simp del: mset_append simp: neutral_one_def [of "[]"] dest!: logged_Get dest: neutral_getsD\<close>)

lemma close_chan_simps [simp]: "s_world (close_chan st) = s_world st" "s_rc (close_chan st) = (s_rc st)\<lparr>rc_Closed := True\<rparr>"
  by (simp_all add: close_chan_def)

lemma log_release_all:
  "snd (hs_world (foldl (\<lambda>h inst. release_inst (logged_henv he) inst h) h is)) = foldl (\<lambda>l i. log_rel i l) (snd (hs_world h)) is"
proof (rule foldl_release_world)
  show "snd (bl_Release (he_balancer (logged_henv he)) rc inst w) = log_rel inst (snd w)" for rc inst w
    by (simp add: logged_balancer_def split_beta)
qed

lemma internalRouteRequest_loop:
  assumes "internalRouteRequest se st = Some st'"
  obtains st1 where "attempt_loop se (nat (gc_RetryMaxCount (he_config (se_handler se)) + 1)) 0 None st = Some st1"
    "st' = on_h (OnPostRequest (se_handler se)) (close_chan st1)"
  using assms by (auto simp: internalRouteRequest_def)

text \<open>C5. Full-mode scheduling keeps its books, in every scheduling mode and for every balancer: when the route
  of a request ends, what was released together with what a successful request still holds is exactly what it
  started with and what it acquired since, counted with multiplicity.  A failed request has released everything it
  ever acquired, each acquisition exactly once.\<close>

theorem full_mode_released:
  assumes "tools_total (he_proc (se_handler se))" "ctx_ok (logged se)" "gc_EnableFullModeScheduling (he_config (se_handler se))"
    "internalRouteRequest (logged se) st = Some st'" "snd (s_world st) = []"
  shows "rels (snd (s_world st')) + (if rc_ForwardSucceeded (s_rc st') then mset (rc_SchedulingResults (s_rc st')) else {#}) =
    mset (rc_SchedulingResults (s_rc st)) + gots (snd (s_world st'))"
proof -
  let ?K = "mset (rc_SchedulingResults (s_rc st))"
  obtain st1 where a: "attempt_loop (logged se) (nat (gc_RetryMaxCount (he_config (se_handler (logged se))) + 1)) 0 None st = Some st1"
    and st': "st' = on_h (OnPostRequest (se_handler (logged se))) (close_chan st1)"
    by (rule internalRouteRequest_loop [OF assms(4)])
  have t: "\<not> tracking (se_handler se)" using assms(3) by (simp add: gc_EnableRequestStateTracking_def)
  have "kept snd (rc_SchedulingMode (s_rc st)) (\<lambda>l rs. \<not> tracking (se_handler se) \<and> owed ?K l rs) st"
    using assms(5) t by (simp add: kept_def owed_def)
  with full_books.attempt_loop_books [OF _ assms(2) a] assms(1) have o: "owed ?K (snd (s_world st1)) (rc_SchedulingResults (s_rc st1))" by simp
  show ?thesis
  proof (cases "rc_ForwardSucceeded (s_rc st1)")
    case True
    with o st' t show ?thesis by (simp add: OnPostRequest_def owed_def ac_simps)
  next
    case False
    with st' t assms(3) have "snd (s_world st') = foldl (\<lambda>l i. log_rel i l) (snd (s_world st1)) (rc_SchedulingResults (s_rc st1))" "\<not> rc_ForwardSucceeded (s_rc st')"
      by (simp_all add: OnPostRequest_def log_release_all)
    with o owed_laws(3) [of ?K] show ?thesis by (simp add: owed_def)
  qed
qed

text \<open>C18. Lite-mode scheduling releases everything: with request-state tracking on and a balancer that gives
  neutral instances, at the end of the route, successful or not, every instance the request started with or
  acquired in a retry has been released exactly once.\<close>

theorem lite_mode_released:
  assumes "tools_total (he_proc (se_handler se))" "ctx_ok (logged se)" "tracking (se_handler se)" "neutral_gets (he_balancer (se_handler se))"
    "rc_SchedulingMode (s_rc st) \<noteq> SchedulingModePDStaged" "neutral_one (rc_SchedulingResults (s_rc st))"
    "internalRouteRequest (logged se) st = Some st'" "snd (s_world st) = []"
  shows "rels (snd (s_world st')) = mset (rc_SchedulingResults (s_rc st)) + gots (snd (s_world st'))"
proof -
  let ?K = "mset (rc_SchedulingResults (s_rc st))"
  obtain st1 where a: "attempt_loop (logged se) (nat (gc_RetryMaxCount (he_config (se_handler (logged se))) + 1)) 0 None st = Some st1"
    and st': "st' = on_h (OnPostRequest (se_handler (logged se))) (close_chan st1)"
    by (rule internalRouteRequest_loop [OF assms(7)])
  have "kept snd (rc_SchedulingMode (s_rc st)) (\<lambda>l rs. neutral_gets (he_balancer (se_handler se)) \<and>
      rc_SchedulingMode (s_rc st) \<noteq> SchedulingModePDStaged \<and> owed ?K l rs \<and> neutral_one rs) st"
    using assms(4-6,8) by (simp add: kept_def owed_def)
  with lite_books.attempt_loop_books [OF _ assms(2) a] assms(1)
  have o: "owed ?K (snd (s_world st1)) (rc_SchedulingResults (s_rc st1))" "neutral_one (rc_SchedulingResults (s_rc st1))" by simp_all
  from neutral_one_find [OF o(2)] o(1) st' assms(3) show ?thesis
    by (cases "GetInstanceByInferType (rc_SchedulingResults (s_rc st1)) InferTypeNeutral")
      (auto simp: OnPostRequest_def Let_def release_typed_def release_inst_def logged_balancer_def split_beta owed_def log_rel_def)
qed

subsection \<open>What a streaming client receives\<close>

lemma write_stream_data:
  assumes "lr_ClientStream (rc_LLM rc)" "rc_HeaderResponded rc" "ho_header out = Some c" "data_only ds"
  shows "\<exists>rc'. writeResponseUntilDone ee (map Msg ds @ tail) (rc, out) = writeResponseUntilDone ee tail
     (rc', out\<lparr>ho_body := ho_body out @ concat (map (\<lambda>m. sse_data (rm_Message m)) ds)\<rparr>) \<and>
     rc_HeaderResponded rc' \<and> lr_ClientStream (rc_LLM rc')"
  using assms
proof (induction ds arbitrary: rc out)
  case Nil
  then show ?case by auto
next
  case (Cons d ds)
  let ?out = "out\<lparr>ho_body := ho_body out @ sse_data (rm_Message d)\<rparr>"
  have "Write_body (sse_data (rm_Message d)) out = ?out" using Cons.prems(3) by (cases out) (simp add: Write_body_def)
  then have "writeResponseUntilDone ee (map Msg (d # ds) @ tail) (rc, out) =
      writeResponseUntilDone ee (map Msg ds @ tail) (rc\<lparr>rc_HeaderResponded := True\<rparr>, ?out)"
    using Cons.prems by (simp add: writeStreamResponse_def)
  with Cons.IH [of "rc\<lparr>rc_HeaderResponded := True\<rparr>" ?out] Cons.prems show ?case by (simp add: append_assoc)
qed

text \<open>C19. What a streaming client receives for the messages of a request: the data messages as server-sent events in
  order, after a status of 200; an error that comes first as its status, its text and the end marker; nothing more for an
  error that comes after data; and status 400 when nothing was sent at all.\<close>

theorem client_stream_exact:
  assumes "lr_ClientStream (rc_LLM rc)" "\<not> rc_HeaderResponded rc" "data_only ds" "list_all (\<lambda>m. rm_Err m \<noteq> None) es" "length es \<le> 1"
  shows "snd (writeResponseUntilDone ee (map Msg (ds @ es)) (rc, \<lparr>ho_header = None, ho_body = []\<rparr>)) =
    (case (ds, es) of
       ([], []) \<Rightarrow> \<lparr>ho_header = Some 400, ho_body = []\<rparr>
     | ([], e # _) \<Rightarrow> \<lparr>ho_header = Some (fst (convertErrorResponse ee e)),
                       ho_body = sse_data (snd (convertErrorResponse ee e)) @ sse_data ''[DONE]''\<rparr>
     | _ \<Rightarrow> \<lparr>ho_header = Some 200, ho_body = concat (map (\<lambda>m. sse_data (rm_Message m)) ds)\<rparr>)"
proof (cases ds)
  case Nil
  show ?thesis
  proof (cases es)
    case Nil
    with \<open>ds = []\<close> assms show ?thesis by (simp add: WriteHeader_def)
  next
    case (Cons e es')
    with \<open>ds = []\<close> assms show ?thesis by (auto simp: writeStreamResponse_def WriteHeader_def Write_body_def split_beta)
  qed
next
  case (Cons d ds')
  let ?out = "\<lparr>ho_header = Some 200, ho_body = sse_data (rm_Message d)\<rparr>"
  let ?rc = "rc\<lparr>rc_StatusCode := 200, rc_HeaderResponded := True\<rparr>"
  have 1: "writeResponseUntilDone ee (map Msg (ds @ es)) (rc, \<lparr>ho_header = None, ho_body = []\<rparr>) =
      writeResponseUntilDone ee (map Msg ds' @ map Msg es) (?rc, ?out)"
    using Cons assms(1-3) by (simp add: writeStreamResponse_def WriteHeader_def Write_body_def)
  from write_stream_data [of ?rc ?out 200 ds' ee "map Msg es"] assms(1,3) Cons obtain rc' where
    2: "writeResponseUntilDone ee (map Msg ds' @ map Msg es) (?rc, ?out) = writeResponseUntilDone ee (map Msg es)
      (rc', ?out\<lparr>ho_body := ho_body ?out @ concat (map (\<lambda>m. sse_data (rm_Message m)) ds')\<rparr>)" "rc_HeaderResponded rc'" "lr_ClientStream (rc_LLM rc')"
    by auto
  have "snd (writeResponseUntilDone ee (map Msg es) (rc', out)) = out" for out
    using 2 assms(4,5) by (cases es) (auto simp: writeStreamResponse_def)
  then show ?thesis unfolding 1 2(1) using Cons by simp
qed

subsection \<open>The tracked stream that ends the gateway\<close>

definition chat_stream :: "RequestContext \<Rightarrow> bool" where
  "chat_stream rc \<longleftrightarrow> lr_Protocol (rc_LLM rc) = OpenAIChatCompletion \<and> lr_ClientStream (rc_LLM rc)"

definition no_stream_response :: "RequestContext \<Rightarrow> bool" where
  "no_stream_response rc \<longleftrightarrow> lr_ChatCompletionStreamResponse (rc_LLM rc) = None"

lemma marshal_clears:
  assumes "marshalResponse he rc = (rc', r)" "chat_stream rc"
  shows "chat_stream rc' \<and> no_stream_response rc'"
  using assms
  by (cases "lr_ChatCompletionStreamResponse (rc_LLM rc)") (auto simp: marshalResponse_def chat_stream_def no_stream_response_def Let_def)

lemma send_chat_stream [simp]:
  "chat_stream (send e m rc) \<longleftrightarrow> chat_stream rc" "no_stream_response (send e m rc) \<longleftrightarrow> no_stream_response rc"
  by (simp_all add: chat_stream_def no_stream_response_def)

lemma process_clears:
  assumes "processAndWriteChunk he d rc = Some (rc', None)" "chat_stream rc"
  shows "chat_stream rc' \<and> no_stream_response rc'"
proof -
  from assms(1) obtain rc1 where p: "PostProcess (he_proc he) d rc = Some (rc1, None)"
    by (auto simp: processAndWriteChunk_def bind_eq_Some_conv split: option.splits)
  note f = proc_frame_sym_fields(8,10) [OF PostProcess_frame [OF p]]
  obtain rc2 r where m: "marshalResponse he rc1 = (rc2, r)" by (cases "marshalResponse he rc1")
  from marshal_clears [OF m] f assms(2) have "chat_stream rc2 \<and> no_stream_response rc2" by (simp add: chat_stream_def)
  with assms(1) p m show ?thesis by (cases r) (auto simp: processAndWriteChunk_def Let_def split: if_splits)
qed

lemma parse_chat_stream:
  assumes "parseResponse he data rc = (rc', e)"
  shows "chat_stream rc' = chat_stream rc" "no_stream_response rc' = no_stream_response rc" "rc_Stats rc' = rc_Stats rc"
  using assms by (auto simp: parseResponse_def chat_stream_def no_stream_response_def split: if_splits option.splits)

lemma handle_data_clears:
  assumes "handle_data he data st = Some (st', False)" "chat_stream (hs_rc st)"
  shows "chat_stream (hs_rc st') \<and> no_stream_response (hs_rc st')"
proof -
  obtain rc e where p: "parseResponse he data (hs_rc st) = (rc, e)" by (cases "parseResponse he data (hs_rc st)")
  from assms(1) p have "\<exists>st1. hs_rc st1 = rc \<and> process_rc he (e = Some IoEOF) st1 = Some (st', None)"
    by (auto simp: handle_data_def Let_def bind_eq_Some_conv split: if_splits dest: OnPostDecodeEach_step)
      (force dest: OnPostDecodeEach_step)+
  with process_clears [of he _ rc "hs_rc st'"] parse_chat_stream(1) [OF p] assms(2) show ?thesis by (auto simp: process_rc_def)
qed

lemma tracked_each_panics:
  assumes "tracking he" "chat_stream (hs_rc st)" "no_stream_response (hs_rc st)" "0 < rs_ITLs (rc_Stats (hs_rc st))"
    "data = ''[DONE]'' \<or> he_decode he data \<noteq> None"
  shows "handle_data he data st = None"
proof -
  obtain rc e where p: "parseResponse he data (hs_rc st) = (rc, e)" by (cases "parseResponse he data (hs_rc st)")
  note q = parse_chat_stream [OF p]
  have e: "e = None \<or> e = Some IoEOF" using p assms(5) by (auto simp: parseResponse_def split: if_splits)
  have "OnPostDecodeEachStreamResponse he (st\<lparr>hs_rc := rc\<rparr>) = None"
    using assms(1-3) q by (auto simp: OnPostDecodeEachStreamResponse_def GetResponseUsage_def chat_stream_def no_stream_response_def Let_def)
  with p q assms(4) e show ?thesis by (auto simp: handle_data_def)
qed

text \<open>C40. With request-state tracking on, a streamed chat request ends the gateway at its second chunk.  The hook that
  counts tokens runs before the chunk is processed and reads the usage through the streamed response, which writing the
  previous chunk has set to nil; the panic is not recovered.\<close>

theorem tracked_chat_stream_panics:
  assumes "tracking he" "chat_stream (hs_rc st)" "sk_Err c1 = None" "sk_Err c2 = None"
    "handle_data he (sk_Data c1) (OnPostPrefill he st) = Some (st1, False)"
    "sk_Data c2 = ''[DONE]'' \<or> he_decode he (sk_Data c2) \<noteq> None"
  shows "handle_chunks he True True (c1 # c2 # cs) st = None"
proof -
  have "chat_stream (hs_rc (OnPostPrefill he st))" using assms(2) by (simp add: OnPostPrefill_def Let_def chat_stream_def)
  from handle_data_clears [OF assms(5) this] have n: "chat_stream (hs_rc st1)" "no_stream_response (hs_rc st1)" by simp_all
  let ?st = "on_rc (on_stats (\<lambda>s. s\<lparr>rs_ITLs := Suc (rs_ITLs s)\<rparr>)) st1"
  have "handle_data he (sk_Data c2) st2 = None" if "chunk_hooks he False True st1 = Some st2" for st2
  proof (rule tracked_each_panics [OF assms(1) _ _ _ assms(6)])
    from that have "hs_rc st2 = hs_rc ?st" by (auto simp: chunk_hooks_def Let_def dest: OnPostDecodeFirst_step)
    with n show "chat_stream (hs_rc st2)" "no_stream_response (hs_rc st2)" "0 < rs_ITLs (rc_Stats (hs_rc st2))"
      by (simp_all add: chat_stream_def no_stream_response_def)
  qed
  then show ?thesis using assms(3-5) by (cases "chunk_hooks he False True st1") (simp_all add: chunk_hooks_def)
qed

subsection \<open>The staged retry\<close>


subsection \<open>Witnesses\<close>

text \<open>A backend that fails once and then streams one chunk; the world counts the calls.\<close>

definition ex_fenv :: "nat fenv" where
  "ex_fenv = \<lparr>fe_Do = (\<lambda>_ _ n. (Suc n, if n = 0 then Response 500 \<lparr>hb_all = Some [], hb_events = []\<rparr>
       else Response 200 \<lparr>hb_all = Some [], hb_events = [Event ''tok'', Event ''[DONE]'']\<rparr>)),
     fe_newRequest = (\<lambda>_. None), fe_marshal = (\<lambda>_. Some []), fe_unmarshal = (\<lambda>_. None), fe_Intn = (\<lambda>n. (n, 0)), fe_prefillFails = (\<lambda>_. False)\<rparr>"

definition ex_balancer :: "nat Balancer" where
  "ex_balancer = \<lparr>bl_Get = (\<lambda>_ n. Some (n, ''g'', Inr [Gateway_Balancer.ex_instance ''b'' ''neutral''])), bl_Release = (\<lambda>_ _ n. n)\<rparr>"

definition ex_henv :: "bool \<Rightarrow> nat henv" where
  "ex_henv full = \<lparr>he_config = (ex_config [] ''load-balance'')\<lparr>gc_EnableFullModeScheduling := full\<rparr>, he_forwarder = NeutralForwarder, he_fwd = ex_fenv,
     he_balancer = ex_balancer, he_proc = ex_proc\<lparr>pe_toolResult := \<lambda>_. Some ([], [])\<rparr>, he_decode = (\<lambda>_. Some (ex_chunk ''tok'' [])),
     he_encodeChat = (\<lambda>_. Some []), he_encodeCompletion = (\<lambda>r. Some (cp_ID r)), he_report = (\<lambda>_ n. n), he_written = (\<lambda>_. True)\<rparr>"

definition ex_senv :: "bool \<Rightarrow> nat senv" where
  "ex_senv full = \<lparr>se_handler = ex_henv full, se_router = ex_router, se_external = (\<lambda>_ _ _ n. (n, ExtFailed Canceled)), se_ctxErr = (\<lambda>_. None),
     se_wait = (\<lambda>_ n. (n, False)), se_Intn = (\<lambda>_. 0), se_queue = (\<lambda>_. None), se_round = (\<lambda>_. (None, True, None)), se_gaveUp = (\<lambda>_. False),
     se_Error = (\<lambda>_. [])\<rparr>"

definition ex_route_start :: "bool \<Rightarrow> 'w \<Rightarrow> 'w sstate" where
  "ex_route_start stream w =
     \<lparr>ss_h = \<lparr>hs_rc = on_llm (\<lambda>r. r\<lparr>lr_ClientStream := stream\<rparr>) (ex_rc\<lparr>rc_SchedulingResults := [Gateway_Balancer.ex_instance ''a'' ''neutral'']\<rparr>),
       hs_world = w, hs_tracker = [], hs_token = None\<rparr>, ss_out = \<lparr>ho_header = None, ho_body = []\<rparr>\<rparr>"

lemma ex_env_ok:
  "tools_total (he_proc (se_handler (ex_senv full)))" "get_total (he_balancer (se_handler (ex_senv full)))"
  "forwarder_total (he_forwarder (se_handler (ex_senv full)))" "queue_limited (ex_senv full)" "ctx_ok (ex_senv full)"
  "neutral_gets (he_balancer (se_handler (ex_senv full)))" "0 \<le> gc_RetryMaxCount (he_config (se_handler (ex_senv full)))"
  by (simp_all add: ex_senv_def ex_henv_def ex_balancer_def ex_config_def tools_total_def get_total_def forwarder_total_def queue_limited_def ctx_ok_def
      neutral_gets_def neutral_one_def Gateway_Balancer.ex_instance_def InferTypeNeutral_def)

lemma ex_logged_ok:
  "tools_total (he_proc (se_handler (logged (ex_senv full))))" "get_total (he_balancer (se_handler (logged (ex_senv full))))"
  "forwarder_total (he_forwarder (se_handler (logged (ex_senv full))))" "queue_limited (logged (ex_senv full))" "ctx_ok (logged (ex_senv full))"
  by (simp_all add: ex_senv_def ex_henv_def ex_balancer_def logged_def logged_henv_def logged_balancer_def tools_total_def get_total_def
      forwarder_total_def queue_limited_def ctx_ok_def split_beta)

lemma ex_logged_run:
  "\<exists>st'. internalRouteRequest (logged (ex_senv full)) (ex_route_start full (0, [])) = Some st'"
proof -
  have "run_ok (se_handler (logged (ex_senv full))) (s_rc (ex_route_start full (0, [])))"
    by (simp add: run_ok_def buffers_ok_def ex_route_start_def ex_rc_def ex_llm_def on_llm_def logged_def logged_henv_def ex_senv_def ex_henv_def
        ex_config_def gc_EnableRequestStateTracking_def)
  from attempt_loop_total [OF ex_logged_ok this] show ?thesis by (auto simp: internalRouteRequest_def)
qed


theorem full_mode_released_witness:
  "\<exists>st'. internalRouteRequest (logged (ex_senv True)) (ex_route_start True (0, [])) = Some st' \<and>
     rels (snd (s_world st')) + (if rc_ForwardSucceeded (s_rc st') then mset (rc_SchedulingResults (s_rc st')) else {#}) =
       {#Gateway_Balancer.ex_instance ''a'' ''neutral''#} + gots (snd (s_world st'))"
proof -
  from ex_logged_run [of True] obtain st' where r: "internalRouteRequest (logged (ex_senv True)) (ex_route_start True (0, [])) = Some st'" by auto
  have h: "gc_EnableFullModeScheduling (he_config (se_handler (ex_senv True)))" by (simp add: ex_senv_def ex_henv_def)
  have s: "snd (s_world (ex_route_start True (0 :: nat, []))) = []" "rc_SchedulingResults (s_rc (ex_route_start True (0 :: nat, []))) =
      [Gateway_Balancer.ex_instance ''a'' ''neutral'']" by (simp_all add: ex_route_start_def on_llm_def)
  from full_mode_released [OF ex_env_ok(1) ex_logged_ok(5) h r s(1)] r s(2) show ?thesis by auto
qed

theorem lite_mode_released_witness:
  "\<exists>st'. internalRouteRequest (logged (ex_senv False)) (ex_route_start False (0, [])) = Some st' \<and>
     rels (snd (s_world st')) = {#Gateway_Balancer.ex_instance ''a'' ''neutral''#} + gots (snd (s_world st'))"
proof -
  from ex_logged_run [of False] obtain st' where r: "internalRouteRequest (logged (ex_senv False)) (ex_route_start False (0, [])) = Some st'" by auto
  have h: "tracking (se_handler (ex_senv False))" by (simp add: ex_senv_def ex_henv_def ex_config_def gc_EnableRequestStateTracking_def)
  have s: "snd (s_world (ex_route_start False (0 :: nat, []))) = []" "rc_SchedulingResults (s_rc (ex_route_start False (0 :: nat, []))) =
      [Gateway_Balancer.ex_instance ''a'' ''neutral'']" "rc_SchedulingMode (s_rc (ex_route_start False (0 :: nat, []))) \<noteq> SchedulingModePDStaged"
    by (simp_all add: ex_route_start_def on_llm_def ex_rc_def SchedulingModeNeutral_def SchedulingModePDStaged_def)
  have n: "neutral_one (rc_SchedulingResults (s_rc (ex_route_start False (0 :: nat, []))))"
    unfolding s(2) by (simp add: neutral_one_def Gateway_Balancer.ex_instance_def InferTypeNeutral_def)
  from lite_mode_released [OF ex_env_ok(1) ex_logged_ok(5) h ex_env_ok(6) s(3) n r s(1)] r s(2) show ?thesis by auto
qed

theorem client_stream_exact_witness:
  "snd (writeResponseUntilDone \<lparr>ee_Error = \<lambda>_. [], ee_unmarshal = \<lambda>_. None, ee_valid = \<lambda>_. False\<rparr>
     (map Msg ([\<lparr>rm_Err = None, rm_Message = ''a''\<rparr>] @ [\<lparr>rm_Err = Some Canceled, rm_Message = []\<rparr>])) (ex_chat, \<lparr>ho_header = None, ho_body = []\<rparr>)) =
   \<lparr>ho_header = Some 200, ho_body = sse_data ''a''\<rparr>"
proof -
  have h: "lr_ClientStream (rc_LLM ex_chat)" "\<not> rc_HeaderResponded ex_chat" by code_simp+
  from client_stream_exact [OF h, of "[\<lparr>rm_Err = None, rm_Message = ''a''\<rparr>]" "[\<lparr>rm_Err = Some Canceled, rm_Message = []\<rparr>]"]
  show ?thesis by simp
qed

text \<open>A chat request whose backend streams two chunks, with request-state tracking on.\<close>

definition ex_tracked :: "nat hstate" where
  "ex_tracked = \<lparr>hs_rc = ex_chat, hs_world = 0, hs_tracker = [], hs_token = None\<rparr>"

theorem tracked_chat_stream_panics_witness:
  "handle_chunks (ex_henv False) True True
     [\<lparr>sk_Err = None, sk_Data = ''tok''\<rparr>, \<lparr>sk_Err = None, sk_Data = ''tok''\<rparr>, \<lparr>sk_Err = None, sk_Data = ''[DONE]''\<rparr>] ex_tracked = None"
proof -
  have h: "tracking (ex_henv False)" "chat_stream (hs_rc ex_tracked)" by code_simp+
  have "map_option snd (handle_data (ex_henv False) ''tok'' (OnPostPrefill (ex_henv False) ex_tracked)) = Some False" by code_simp
  then obtain st1 where r: "handle_data (ex_henv False) ''tok'' (OnPostPrefill (ex_henv False) ex_tracked) = Some (st1, False)" by auto
  show ?thesis by (rule tracked_chat_stream_panics [OF h]) (use r in \<open>simp_all add: ex_henv_def\<close>)
qed

definition ex_staged :: "nat senv" where
  "ex_staged = (ex_senv True)\<lparr>se_handler := (ex_henv True)\<lparr>he_forwarder := VllmKvt SchedulingModePDStaged,
     he_balancer := ex_balancer\<lparr>bl_Get := \<lambda>rc n. Some (n, ''g'', Inr [Gateway_Balancer.ex_instance ''d''
       (if rc_SchedulingStage rc = SchedulingStageDecode then ''decode'' else ''prefill'')])\<rparr>\<rparr>\<rparr>"


end
