(* ===== verification/Gateway_Entry.thy ===== *)
theory Gateway_Entry
  imports Gateway_Service
begin

text \<open>
  The entry points of the gateway: \<open>HandleOpenAIRequest\<close> and \<open>HandleSimpleRequest\<close> of
  \<open>pkg/gateway/service/gateway_service.go\<close>, with \<open>SimpleHTTPProxy\<close> of \<open>utils.go\<close>.

  A request for a completion is parsed, dispatched and answered; the writer takes the messages in the
  order they were sent, up to the point where it sees the client gone.  The wait for a place in the
  buffer queue is theory \<open>Gateway_Workers\<close>; access logs, metrics and traffic mirroring are not modelled.

  Lemmas: a header is recorded as answered only once it is written; every request that is parsed and
  dispatched gets a status.
\<close>

subsection \<open>Requests\<close>

text \<open>The protocol of a new request is the empty string in the source; nothing reads it before
  \<open>UnmarshalRequest\<close> sets it.\<close>

definition empty_llm :: LLMRequest where
  "empty_llm = \<lparr>lr_Model = [], lr_RawData = [], lr_Protocol = OpenAICompletion, lr_ClientStream = False,
     lr_ChatCompletionRequest = None, lr_ChatCompletionResponse = None, lr_ChatCompletionStreamResponse = None,
     lr_CompletionRequest = None, lr_CompletionResponse = None, lr_ReasoningParser = None, lr_ToolParser = None,
     lr_BufferChatResp = None, lr_LastChatStreamResp = None, lr_BufferCompletionResponse = None\<rparr>"

definition NewRequestContext :: "string \<Rightarrow> string \<Rightarrow> string \<Rightarrow> RequestContext" where
  "NewRequestContext uuid hdr_id url =
     \<lparr>rc_Id = (if length hdr_id = 0 then uuid else hdr_id), rc_URL = url, rc_LLM = empty_llm,
      rc_Stats = \<lparr>rs_ITLs = 0, rs_InputTokensLen = 0, rs_OutputTokensLen = 0, rs_ReasoningTokensLen = 0, rs_MaxTokensLimit = 0,
        rs_HasToolCalls = False, rs_FallbackAttempt = 0, rs_RetryCount = 0, rs_FailedInstances = []\<rparr>,
      rc_SchedulingResults = [], rc_SchedulingMode = [], rc_SchedulingStage = [],
      rc_GatewayId = [], rc_NotNeedScheduling = False, rc_StatusCode = 0, rc_HeaderResponded = False, rc_HasTokenState = False,
      rc_ForwardSucceeded = False, rc_Sent = [], rc_Closed = False\<rparr>"

definition http_Error :: "string \<Rightarrow> i64 \<Rightarrow> http_out \<Rightarrow> http_out" where
  "http_Error msg code out = Write_body (msg @ [CHR 0x0A]) (WriteHeader code out)"

definition no_out :: http_out where
  "no_out = \<lparr>ho_header = None, ho_body = []\<rparr>"

text \<open>The client may be gone before the message at a position.\<close>

definition arrivals :: "nat option \<Rightarrow> ResponseMsg list \<Rightarrow> arrival list" where
  "arrivals gone ms = (case gone of None \<Rightarrow> map Msg ms | Some n \<Rightarrow> map Msg (take n ms) @ [Disconnected])"

definition write_all :: "err_env \<Rightarrow> nat option \<Rightarrow> 's sstate \<Rightarrow> 's sstate" where
  "write_all ee gone st =
     (let (rc, out) = writeResponseUntilDone ee (arrivals gone (rc_Sent (s_rc st))) (s_rc st, ss_out st)
      in (on_h (on_rc (\<lambda>_. rc)) st)\<lparr>ss_out := out\<rparr>)"

definition HandleOpenAIRequest ::
  "pre_env \<Rightarrow> 's senv \<Rightarrow> err_env \<Rightarrow> nat option \<Rightarrow> (gw_error + string) \<Rightarrow> RequestContext \<Rightarrow> RequestStateTracker \<Rightarrow> 's \<Rightarrow> 's sstate option" where
  "HandleOpenAIRequest pr se ee gone body rc tracker w =
     (let rc = rc\<lparr>rc_SchedulingMode := schedulingMode (he_config (se_handler se)), rc_SchedulingStage := SchedulingStagePrefill\<rparr>
      in do { (rc, e) \<leftarrow> ParseRequest pr body rc;
              let st = \<lparr>ss_h = \<lparr>hs_rc = rc, hs_world = w, hs_tracker = tracker, hs_token = None\<rparr>, ss_out = no_out\<rparr>;
              if e \<noteq> None then Some (st\<lparr>ss_out := http_Error ''Invalid OpenAI request'' 400 no_out\<rparr>)
              else map_option (write_all ee gone) (dispatchRequest se st) })"

text \<open>\<open>new\<close> says whether the request to the backend can be built.\<close>

definition SimpleHTTPProxy :: "(string \<Rightarrow> bool) \<Rightarrow> (string \<Rightarrow> 's \<Rightarrow> 's \<times> ext_answer) \<Rightarrow> string \<Rightarrow> 's \<Rightarrow> 's \<times> http_out" where
  "SimpleHTTPProxy new do_req url w =
     (if \<not> new url then (w, http_Error ''failed to create proxy request'' 500 no_out)
      else case do_req url w of
             (w, ExtFailed _) \<Rightarrow> (w, http_Error ''failed to forward request'' 502 no_out)
           | (w, ExtResponse code body) \<Rightarrow>
               (w, let out = WriteHeader code no_out in if body = [] then out else Write_body body out))"

definition HandleSimpleRequest ::
  "'s Balancer \<Rightarrow> (string \<Rightarrow> bool) \<Rightarrow> (string \<Rightarrow> 's \<Rightarrow> 's \<times> ext_answer) \<Rightarrow> string \<Rightarrow> string \<Rightarrow> RequestContext \<Rightarrow> 's \<Rightarrow> ('s \<times> http_out) option" where
  "HandleSimpleRequest bl new do_req path query rc w =
     do { (w, rc, r) \<leftarrow> balancer_Get bl (rc\<lparr>rc_NotNeedScheduling := True\<rparr>) w;
          Some (case r of
                  Inr (inst # _) \<Rightarrow>
                    let url = ''http://'' @ Endpoint_String (li_Endpoint inst) @ path
                    in SimpleHTTPProxy new do_req (if query \<noteq> [] then url @ ''?'' @ query else url) w
                | _ \<Rightarrow> (w, http_Error ''failed to get endpoint'' 503 no_out)) }"

subsection \<open>A header is answered once it is written\<close>

definition hdr :: "'s sstate \<Rightarrow> bool" where
  "hdr st \<longleftrightarrow> (rc_HeaderResponded (s_rc st) \<longrightarrow> ho_header (ss_out st) \<noteq> None)"

lemma hdr_on_h:
  "rc_HeaderResponded (hs_rc (f (ss_h st))) = rc_HeaderResponded (s_rc st) \<Longrightarrow> hdr (on_h f st) \<longleftrightarrow> hdr st"
  by (simp add: hdr_def on_h_def)

lemma hdr_simps [simp]:
  "hdr (set_world w st) = hdr st" "hdr (answer e st) = hdr st" "hdr (answer_if e st) = hdr st" "hdr (close_chan st) = hdr st"
  "hdr (set_results r st) = hdr st" "hdr (on_h (release_all he) st) = hdr st" "hdr (on_h (on_rc (count_retry err)) st) = hdr st"
  "hdr (on_h (on_rc (send e m)) st) = hdr st"
  by (simp_all add: hdr_def on_h_def set_world_def answer_def answer_if_def close_chan_def set_results_def count_retry_def on_stats_def send_def Let_def)

lemma hdr_proxy: "hdr st \<Longrightarrow> proxyToExternal se dst st = (st', e) \<Longrightarrow> hdr st'"
  by (auto simp: proxyToExternal_def Let_def split_beta hdr_def on_h_def set_world_def WriteHeader_def Write_body_def
      split: ext_answer.splits if_splits option.splits)

lemma hdr_proxied: "hdr st \<Longrightarrow> hdr (proxied se dst n st)"
  by (induction n) (auto intro: hdr_proxy [OF _ prod.collapse [symmetric]])

lemma hdr_rate_retry: "hdr st \<Longrightarrow> rate_retry se dst st = Some (st', r) \<Longrightarrow> hdr st'"
  by (auto simp: rate_retry_def bind_eq_Some_conv split: option.splits if_splits intro: hdr_proxied)

lemma hdr_after_rate: "hdr st \<Longrightarrow> after_rate se err st rr = (st', out) \<Longrightarrow> hdr st'"
  by (auto simp: after_rate_def Let_def split_beta split: rate_result.splits option.splits)

lemma hdr_round:
  assumes "hdr st" "fallback_round se fdst st = Some (st', out)"
  shows "hdr st'"
proof -
  obtain st1 e where p: "proxyToExternal se fdst st = (st1, e)" by (cases "proxyToExternal se fdst st")
  note 1 = hdr_proxy [OF assms(1) p]
  show ?thesis
  proof (cases e)
    case (Some err)
    with assms(2) p obtain st2 rr where r: "(if IsRateLimitError err then rate_retry se fdst st1 else Some (st1, NotQueued)) = Some (st2, rr)"
      "after_rate se err st2 rr = (st', out)" by (auto simp: fallback_round_def bind_eq_Some_conv)
    from r(1) 1 have "hdr st2" by (auto split: if_splits intro: hdr_rate_retry)
    then show ?thesis using r(2) by (rule hdr_after_rate)
  qed (use 1 p assms(2) in \<open>simp add: fallback_round_def\<close>)
qed

lemma Fallback_header: "Fallback sr rc = (rc', r) \<Longrightarrow> rc_HeaderResponded rc' = rc_HeaderResponded rc"
  by (auto simp: Fallback_def Let_def on_stats_def split: if_splits)

lemma hdr_fallback_loop:
  assumes "hdr st" "tryFallback_loop se skip n err st = Some (st', e)"
  shows "hdr st'"
  using assms
proof (induction n arbitrary: err st)
  case (Suc n)
  obtain rc r where f: "Fallback (se_router se) (s_rc st) = (rc, r)" by (cases "Fallback (se_router se) (s_rc st)")
  let ?st = "on_h (on_rc (\<lambda>_. rc)) st"
  have h: "hdr ?st" using Suc.prems(1) Fallback_header [OF f] by (simp add: hdr_def on_h_def on_rc_def)
  show ?case
  proof (cases "\<not> CanFallback (se_router se) (s_rc st) \<or> s_headerResponded se st")
    case True
    with Suc.prems show ?thesis by (auto split: if_splits)
  next
    case False
    show ?thesis
    proof (cases r)
      case (Inl x)
      with False Suc.prems(2) f h show ?thesis by auto
    next
      case (Inr fdst)
      show ?thesis
      proof (cases "re_URL fdst \<in> set skip")
        case True
        with False Suc.prems(2) f Inr Suc.IH [OF h] show ?thesis by auto
      next
        case new: False
        with False Suc.prems(2) f Inr obtain st1 out where r: "fallback_round se fdst ?st = Some (st1, out)"
          "(case out of Inl result \<Rightarrow> Some (st1, result) | Inr err \<Rightarrow> tryFallback_loop se skip n (Some err) st1) = Some (st', e)"
          by (auto simp: bind_eq_Some_conv)
        with Suc.IH [OF hdr_round [OF h r(1)]] hdr_round [OF h r(1)] show ?thesis by (cases out) auto
      qed
    qed
  qed
qed simp

lemma hdr_fallback_or: "hdr st \<Longrightarrow> fallback_or se err msg st = Some st' \<Longrightarrow> hdr st'"
  by (auto simp: fallback_or_def tryFallback_def bind_eq_Some_conv split: if_splits intro: hdr_fallback_loop)

lemma hdr_Get: "hdr st \<Longrightarrow> s_Get se st = Some (st', r) \<Longrightarrow> hdr st'"
  by (auto simp: s_Get_def balancer_Get_def hdr_def on_h_def)

lemma hdr_prepare:
  assumes "hdr st" "prepare_retry se originErr st = Some (st', go)"
  shows "hdr st'"
proof (cases "se_ctxErr se (s_world st)")
  case None
  with assms(2) obtain st1 r where g: "s_Get se (set_results [] (on_h (release_all (se_handler se)) st)) = Some (st1, r)"
    "(case r of Inl _ \<Rightarrow> map_option (\<lambda>st. (st, False)) (fallback_or se originErr [] st1) | Inr result \<Rightarrow> Some (set_results result st1, True)) = Some (st', go)"
    by (auto simp: prepare_retry_def bind_eq_Some_conv)
  have "hdr st1" by (rule hdr_Get [OF _ g(1)]) (simp add: assms(1))
  with g(2) show ?thesis by (cases r) (auto intro: hdr_fallback_or)
qed (use assms in \<open>auto simp: prepare_retry_def\<close>)

lemma hdr_Handle:
  assumes "tools_total (he_proc (se_handler se))" "hdr st" "Handle (se_handler se) (ss_h st) = Some (h, e)"
  shows "hdr (st\<lparr>ss_h := h\<rparr>)"
proof -
  from Handle_run [OF assms(1) observed_unit assms(3)] obtain rc w ms
    where "fwd_run (\<lambda>_ _. ()) (\<lambda>_. ()) (s_rc st) (s_world st) rc w" "rc_step rc (hs_rc h) ms" by metis
  then have "rc_HeaderResponded (hs_rc h) = rc_HeaderResponded (s_rc st)" by (simp add: fwd_run_def fwd_frame_def rc_step_def calm_def)
  with assms(2) show ?thesis by (simp add: hdr_def)
qed

lemma hdr_attempts:
  assumes "tools_total (he_proc (se_handler se))" "hdr st" "attempt_loop se left attempt originErr st = Some st'"
  shows "hdr st'"
  using assms(2,3)
proof (induction left arbitrary: attempt originErr st)
  case (Suc left)
  from Suc.prems(2) obtain st1 go where p: "(if 0 < attempt then prepare_retry se originErr st else Some (st, True)) = Some (st1, go)"
    by (auto simp: bind_eq_Some_conv)
  have h1: "hdr st1" using p Suc.prems(1) by (auto split: if_splits intro: hdr_prepare)
  show ?case
  proof (cases go)
    case False
    with Suc.prems(2) p h1 show ?thesis by simp
  next
    case True
    with Suc.prems(2) p obtain h e where hd: "Handle (se_handler se) (ss_h st1) = Some (h, e)" by (auto simp: bind_eq_Some_conv)
    note h2 = hdr_Handle [OF assms(1) h1 hd]
    show ?thesis
    proof (cases e)
      case None
      with Suc.prems(2) p True hd h2 show ?thesis by (auto simp: hdr_def on_h_def)
    next
      case (Some err)
      with Suc.prems(2) p True hd h2 Suc.IH show ?thesis
        by (auto simp: Let_def split_beta split: if_splits intro: hdr_fallback_or elim!: Suc.IH [rotated])
    qed
  qed
qed simp

lemma OnPostRequest_header: "rc_HeaderResponded (hs_rc (OnPostRequest he h)) = rc_HeaderResponded (hs_rc h)"
  by (auto simp: OnPostRequest_def release_typed_def Let_def split: option.splits)

lemma hdr_dispatch:
  assumes "tools_total (he_proc (se_handler se))" "hdr st" "dispatchRequest se st = Some st'"
  shows "hdr st'"
proof -
  have int: "hdr st2" if "hdr st1" "internalRouteRequest se st1 = Some st2" for st1 st2
    using that by (auto simp: internalRouteRequest_def hdr_on_h OnPostRequest_header intro: hdr_attempts [OF assms(1)])
  have ext: "hdr st2" if "externalRouteRequest se d st = Some st2" for d st2
    using that hdr_proxy [OF assms(2), of se d]
    by (cases "proxyToExternal se d st")
      (auto simp: externalRouteRequest_def tryFallback_def bind_eq_Some_conv split: option.splits if_splits elim: hdr_fallback_loop [rotated])
  have unk: "hdr st2" if "unknownRouteRequest se st = Some st2" for st2
    using that assms(2) by (auto simp: unknownRouteRequest_def tryFallback_def bind_eq_Some_conv intro: hdr_fallback_loop)
  from assms(3) obtain dst rType where r: "Route (se_Intn se (s_world st)) (s_rc st) (se_router se) = Some (dst, rType)"
    by (auto simp: dispatchRequest_def bind_eq_Some_conv)
  show ?thesis
  proof (cases rType)
    case RouteInternal
    with assms(3) r obtain st1 x where g: "s_Get se st = Some (st1, x)"
      "(case x of Inl err \<Rightarrow> map_option close_chan (fallback_or se (Some err) (se_Error se err) st1)
        | Inr schResult \<Rightarrow> internalRouteRequest se (set_results schResult st1)) = Some st'"
      by (auto simp: dispatchRequest_def bind_eq_Some_conv)
    from g(2) hdr_Get [OF assms(2) g(1)] show ?thesis by (cases x) (auto intro: hdr_fallback_or elim!: int [rotated])
  qed (use assms(3) r ext unk in \<open>auto simp: dispatchRequest_def bind_eq_Some_conv\<close>)
qed

lemma written_header:
  assumes "rc_HeaderResponded rc \<longrightarrow> ho_header out \<noteq> None"
  shows "ho_header (snd (writeResponseUntilDone ee (map Msg ms) (rc, out))) \<noteq> None"
  using assms
  by (induction ms arbitrary: rc out)
    (auto simp: WriteHeader_def Write_body_def writeResponse_def writeStreamResponse_def Let_def split_beta split: option.splits)

subsection \<open>Every request gets a status\<close>

text \<open>A router that always chooses: its policy is one of the two the source knows, and weights add up without overflow.\<close>

definition router_total :: "ServiceRouter \<Rightarrow> bool" where
  "router_total sr \<longleftrightarrow> sr_routingConfigs sr = [] \<or> sr_routingPolicy sr = RoutePolicyPrefix \<or>
     sr_routingPolicy sr = RoutePolicyWeight \<and> weights_ok (sr_routingConfigs sr)"

lemma route_of_external: "route_of cs i = (c, RouteExternal) \<Longrightarrow> c \<noteq> None"
  by (auto simp: route_of_def split: if_splits)

lemma Route_total:
  assumes "router_total sr"
  shows "\<exists>dst t. Route n rc sr = Some (dst, t) \<and> (t = RouteExternal \<longrightarrow> dst \<noteq> None)"
proof -
  have w: "\<not> sint (total_weight (sr_routingConfigs sr)) < 0" if "weights_ok (sr_routingConfigs sr)"
    using that weight_sum_nonneg by (simp add: total_weight_sum weights_ok_def not_less)
  have p: "selectByPrefix rc sr = (c, RouteExternal) \<Longrightarrow> c \<noteq> None" for c
    by (auto simp: selectByPrefix_def split: option.splits if_splits dest: route_of_external)
  have s: "selectByWeight n sr = Some (c, RouteExternal) \<Longrightarrow> c \<noteq> None" for c
    by (auto simp: selectByWeight_def Let_def split: if_splits dest: route_of_external)
  have t: "\<exists>x. selectByWeight n sr = Some x" if "weights_ok (sr_routingConfigs sr)"
    using w [OF that] by (auto simp: selectByWeight_def Let_def)
  let ?sel = "if sr_routingPolicy sr = RoutePolicyWeight then selectByWeight n sr
      else if sr_routingPolicy sr = RoutePolicyPrefix then Some (selectByPrefix rc sr) else None"
  show ?thesis
  proof (cases "sr_routingConfigs sr = []")
    case False
    with assms t obtain c ty where x: "?sel = Some (c, ty)"
      by (cases "selectByPrefix rc sr") (auto simp: router_total_def RoutePolicyWeight_def RoutePolicyPrefix_def)
    then have "ty = RouteExternal \<longrightarrow> c \<noteq> None" using p s by (auto split: if_splits)
    with x False show ?thesis unfolding Route_def by (cases "ty = RouteExternal") auto
  qed (simp add: Route_def)
qed

definition served_env :: "'s senv \<Rightarrow> bool" where
  "served_env se \<longleftrightarrow> tools_total (he_proc (se_handler se)) \<and> get_total (he_balancer (se_handler se)) \<and>
     forwarder_total (he_forwarder (se_handler se)) \<and> queue_limited se \<and> ctx_ok se \<and> \<not> tracking (se_handler se) \<and> router_total (se_router se)"

lemma entry_Get_total:
  assumes "served_env se" "run_ok (se_handler se) (s_rc st)"
  shows "\<exists>st1 r. s_Get se st = Some (st1, r) \<and> run_ok (se_handler se) (s_rc st1)"
proof -
  from assms have "bl_Get (he_balancer (se_handler se)) (s_rc st) (s_world st) \<noteq> None" by (auto simp: served_env_def get_total_def run_ok_def)
  then obtain w g r where "bl_Get (he_balancer (se_handler se)) (s_rc st) (s_world st) = Some (w, g, r)" by auto
  with assms(2) show ?thesis by (auto simp: s_Get_def balancer_Get_def run_ok_def buffers_ok_def)
qed

lemma dispatch_total:
  assumes e: "served_env se" and "run_ok (se_handler se) (s_rc st)"
  shows "\<exists>st'. dispatchRequest se st = Some st'"
proof -
  have q: "queue_limited se" using e by (simp add: served_env_def)
  obtain dst t where r: "Route (se_Intn se (s_world st)) (s_rc st) (se_router se) = Some (dst, t)" "t = RouteExternal \<longrightarrow> dst \<noteq> None"
    using Route_total [of "se_router se"] e by (fastforce simp: served_env_def)
  show ?thesis
  proof (cases t)
    case RouteInternal
    from entry_Get_total [OF assms] obtain st1 x where g: "s_Get se st = Some (st1, x)" "run_ok (se_handler se) (s_rc st1)" by blast
    have "\<exists>st'. internalRouteRequest se (set_results rs st1) = Some st'" for rs
      using attempt_loop_total [of se "set_results rs st1" 0 None] e g(2)
      by (auto simp: internalRouteRequest_def served_env_def run_ok_def buffers_ok_def)
    with g r RouteInternal fallback_or_total [OF q] show ?thesis by (cases x) (fastforce simp: dispatchRequest_def)+
  next
    case RouteExternal
    with r obtain d where d: "dst = Some d" by auto
    obtain st1 x where p: "proxyToExternal se d st = (st1, x)" by (cases "proxyToExternal se d st")
    from tryFallback_total [OF q, of "[re_URL d]" st1] obtain st2 f where "tryFallback se [re_URL d] st1 = Some (st2, f)" by blast
    with d p r(1) RouteExternal show ?thesis by (cases x) (auto simp: dispatchRequest_def externalRouteRequest_def)
  next
    case RouteUnknown
    then show ?thesis using r tryFallback_total [OF q, of "[]" st] by (auto simp: dispatchRequest_def unknownRouteRequest_def)
  qed
qed

lemma ParseRequest_ready:
  assumes "rc_LLM rc = empty_llm"
  shows "\<exists>rc' e. ParseRequest pr body rc = Some (rc', e) \<and> rc_HeaderResponded rc' = rc_HeaderResponded rc \<and>
    (e = None \<longrightarrow> has_completion rc' \<and> buffers_ok rc')"
proof -
  obtain rc1 e1 where u: "UnmarshalRequest pr body rc = (rc1, e1)" by (cases "UnmarshalRequest pr body rc")
  have h1: "rc_HeaderResponded rc1 = rc_HeaderResponded rc" "lr_BufferChatResp (rc_LLM rc1) = None" "lr_BufferCompletionResponse (rc_LLM rc1) = None"
    using u assms by (auto simp: UnmarshalRequest_def empty_llm_def on_llm_def Let_def split: sum.splits if_splits option.splits)
  have h2: "lr_Protocol (rc_LLM rc1) = OpenAICompletion \<and> lr_CompletionRequest (rc_LLM rc1) \<noteq> None \<or>
      lr_Protocol (rc_LLM rc1) = OpenAIChatCompletion \<and> lr_ChatCompletionRequest (rc_LLM rc1) \<noteq> None" if "e1 = None"
    using u that by (auto simp: UnmarshalRequest_def on_llm_def Let_def split: sum.splits if_splits option.splits)
  show ?thesis
  proof (cases e1)
    case None
    from h2 [OF None] show ?thesis
    proof (elim disjE conjE, goal_cases)
      case 1
      then obtain c where "lr_CompletionRequest (rc_LLM rc1) = Some c" by auto
      with 1 u h1 None show ?case
        by (auto simp: ParseRequest_def PreProcess_def buffers_ok_def on_llm_def on_stats_def set_prompt_def with_completion_def Let_def split_beta
            split: PromptValue.split option.split)
    next
      case 2
      then obtain c where "lr_ChatCompletionRequest (rc_LLM rc1) = Some c" by auto
      with 2 u h1 None show ?case
        by (auto simp: ParseRequest_def PreProcess_def buffers_ok_def on_llm_def on_stats_def Let_def split: option.split)
    qed
  next
    case (Some x)
    with u h1 show ?thesis by (simp add: ParseRequest_def)
  qed
qed




end
