(* ===== verification/Batch_Types.thy ===== *)
theory Batch_Types
  imports Core_Types "HOL-Library.State_Monad"
begin

text \<open>
  The data of the batch API, \<open>pkg/gateway/batch/types.go\<close>, and the actions its code is made of.

  An action runs on a world that holds Redis, the object store and the clock, and ends with a value,
  an error or a panic.  An error is its text, but for the sentinel of a changed task status; the names and
  numbers that a text only logged formats are left out.
\<close>

subsection \<open>Types\<close>

type_synonym BatchTaskStatus = string
type_synonym ShardStatus = string

abbreviation StatusValidating :: BatchTaskStatus where "StatusValidating \<equiv> ''validating''"
abbreviation StatusFailed :: BatchTaskStatus where "StatusFailed \<equiv> ''failed''"
abbreviation StatusInProgress :: BatchTaskStatus where "StatusInProgress \<equiv> ''in_progress''"
abbreviation StatusFinalizing :: BatchTaskStatus where "StatusFinalizing \<equiv> ''finalizing''"
abbreviation StatusFinalize :: BatchTaskStatus where "StatusFinalize \<equiv> ''finalize''"
abbreviation StatusCompleted :: BatchTaskStatus where "StatusCompleted \<equiv> ''completed''"
abbreviation StatusExpired :: BatchTaskStatus where "StatusExpired \<equiv> ''expired''"
abbreviation StatusCancelling :: BatchTaskStatus where "StatusCancelling \<equiv> ''cancelling''"
abbreviation StatusCancelled :: BatchTaskStatus where "StatusCancelled \<equiv> ''cancelled''"
abbreviation StatusPending :: BatchTaskStatus where "StatusPending \<equiv> ''pending''"

definition task_statuses :: "BatchTaskStatus list" where
  "task_statuses = [StatusValidating, StatusFailed, StatusInProgress, StatusFinalizing, StatusFinalize, StatusCompleted,
     StatusExpired, StatusCancelling, StatusCancelled, StatusPending]"

abbreviation ShardStatusPending :: ShardStatus where "ShardStatusPending \<equiv> ''pending''"
abbreviation ShardStatusInProgress :: ShardStatus where "ShardStatusInProgress \<equiv> ''in_progress''"
abbreviation ShardStatusCompleted :: ShardStatus where "ShardStatusCompleted \<equiv> ''completed''"
abbreviation ShardStatusFailed :: ShardStatus where "ShardStatusFailed \<equiv> ''failed''"

definition shard_statuses :: "ShardStatus list" where
  "shard_statuses = [ShardStatusPending, ShardStatusInProgress, ShardStatusCompleted, ShardStatusFailed]"

record RequestCounts =
  qc_Total :: i64
  qc_Completed :: i64
  qc_Failed :: i64

record BatchError =
  be_Code :: string
  be_Line :: i64
  be_Message :: string
  be_Param :: string

record TokensDetails =
  td_CachedTokens :: i64
  td_ReasoningTokens :: i64

record BatchUsage =
  bu_InputTokens :: i64
  bu_InputTokensDetails :: "TokensDetails option"
  bu_OutputTokens :: i64
  bu_OutputTokensDetails :: "TokensDetails option"
  bu_TotalTokens :: i64

record File =
  fl_ID :: string
  fl_Object :: string
  fl_Bytes :: i64
  fl_CreatedAt :: i64
  fl_ExpiresAt :: i64
  fl_Filename :: string
  fl_Purpose :: string

record OutputExpiresAfter =
  oe_Anchor :: string
  oe_Seconds :: i64

text \<open>\<open>Errors\<close> is the data of \<open>BatchErrors\<close>.\<close>

record BatchTask =
  bt_ID :: string
  bt_Object :: string
  bt_Endpoint :: string
  bt_Model :: string
  bt_Errors :: "BatchError list option"
  bt_InputFileID :: string
  bt_CompletionWindow :: string
  bt_Status :: BatchTaskStatus
  bt_OutputFileID :: "string option"
  bt_ErrorFileID :: "string option"
  bt_CreatedAt :: "i64 option"
  bt_InProgressAt :: "i64 option"
  bt_ExpiresAt :: i64
  bt_FinalizingAt :: "i64 option"
  bt_CompletedAt :: "i64 option"
  bt_FailedAt :: "i64 option"
  bt_ExpiredAt :: "i64 option"
  bt_CancellingAt :: "i64 option"
  bt_CancelledAt :: "i64 option"
  bt_RequestCounts :: "RequestCounts option"
  bt_Usage :: "BatchUsage option"
  bt_Metadata :: "(string, string) gmap"
  bt_OutputExpiresAfter :: "OutputExpiresAfter option"
  bt_UpdatedAt :: "i64 option"
  bt_Token :: "string option"

record FileShard =
  fs_ID :: string
  fs_CreatedAt :: "i64 option"
  fs_RequestCounts :: "RequestCounts option"
  fs_UpdatedAt :: "i64 option"

record SingleLineRequest =
  sl_CustomID :: string
  sl_Method :: string
  sl_URL :: string
  sl_Body :: "string option"

subsection \<open>Metadata\<close>

abbreviation quoted :: "string \<Rightarrow> string" where "quoted s \<equiv> CHR 0x27 # s @ [CHR 0x27]"

text \<open>The field and the message of the error; a map is visited in some order.\<close>

fun metadata_entries :: "(string, string) gmap \<Rightarrow> (string \<times> string) option" where
  "metadata_entries [] = None"
| "metadata_entries ((key, value) # m) =
     (if 64 < length key then Some (key, ''key too long: '' @ show_nat (length key) @ '' characters (maximum is 64)'')
      else if 512 < length value then Some (key, ''value too long: '' @ show_nat (length value) @ '' characters (maximum is 512)'')
      else metadata_entries m)"

definition ValidateMetadata :: "(string, string) gmap \<Rightarrow> (string \<times> string) option" where
  "ValidateMetadata metadata = 
     (if 16 < length metadata then Some ([], ''too many key-value pairs: '' @ show_nat (length metadata) @ '' (maximum is 16)'')
      else metadata_entries metadata)"

definition metadata_error :: "string \<times> string \<Rightarrow> string" where
  "metadata_error e = ''metadata validation error in field '' @ quoted (fst e) @ '': '' @ snd e"

lemma metadata_entries_None:
  "metadata_entries m = None \<longleftrightarrow> list_all (\<lambda>(k, v). length k \<le> 64 \<and> length v \<le> 512) m"
  by (induction m rule: metadata_entries.induct) auto

lemma metadata_accepted_iff:
  "ValidateMetadata m = None \<longleftrightarrow> length m \<le> 16 \<and> list_all (\<lambda>(k, v). length k \<le> 64 \<and> length v \<le> 512) m"
  by (simp add: ValidateMetadata_def metadata_entries_None not_less)

subsection \<open>Actions\<close>

datatype batch_err = StatusChanged | Text string

text \<open>\<open>Hang\<close> is an action that does not return.\<close>

datatype 'a io = Ok 'a | Err batch_err | Panic | Hang

type_synonym ('w, 'a) act = "('w, 'a io) state"

abbreviation ok :: "'a \<Rightarrow> ('w, 'a) act" where "ok x \<equiv> State_Monad.return (Ok x)"
abbreviation fail :: "string \<Rightarrow> ('w, 'a) act" where "fail s \<equiv> State_Monad.return (Err (Text s))"

text \<open>\<open>chk m f\<close> returns at once when \<open>m\<close> ends with an error; \<open>attempt m f g\<close> goes on with \<open>g\<close>.\<close>

definition attempt :: "('w, 'a) act \<Rightarrow> ('a \<Rightarrow> ('w, 'b) act) \<Rightarrow> (batch_err \<Rightarrow> ('w, 'b) act) \<Rightarrow> ('w, 'b) act" where
  "attempt m f g = do { r \<leftarrow> m; case r of Ok x \<Rightarrow> f x | Err e \<Rightarrow> g e | Panic \<Rightarrow> State_Monad.return Panic | Hang \<Rightarrow> State_Monad.return Hang }"

definition chk :: "('w, 'a) act \<Rightarrow> ('a \<Rightarrow> ('w, 'b) act) \<Rightarrow> ('w, 'b) act" where
  "chk m f = attempt m f (\<lambda>e. State_Monad.return (Err e))"

definition err_text :: "batch_err \<Rightarrow> string" where
  "err_text e = (case e of StatusChanged \<Rightarrow> ''task status changed'' | Text s \<Rightarrow> s)"

definition wrap_err :: "string \<Rightarrow> batch_err \<Rightarrow> batch_err" where
  "wrap_err pre e = Text (pre @ err_text e)"

definition wrapped :: "string \<Rightarrow> ('w, 'a) act \<Rightarrow> ('w, 'a) act" where
  "wrapped pre m = attempt m ok (\<lambda>e. State_Monad.return (Err (wrap_err pre e)))"

text \<open>An error that is only logged.\<close>

definition logged_only :: "('w, unit) act \<Rightarrow> ('w, unit) act" where
  "logged_only m = attempt m ok (\<lambda>_. ok ())"

text \<open>A deferred action, whose error is logged; it runs after a panic too.\<close>

definition deferred :: "('w, unit) act \<Rightarrow> ('w, 'a) act \<Rightarrow> ('w, 'a) act" where
  "deferred d m = do { r \<leftarrow> m; if r = Hang then State_Monad.return Hang else do { r' \<leftarrow> d; State_Monad.return (case r' of Panic \<Rightarrow> Panic | Hang \<Rightarrow> Hang | _ \<Rightarrow> r) } }"

fun for_each :: "('a \<Rightarrow> ('w, unit) act) \<Rightarrow> 'a list \<Rightarrow> ('w, unit) act" where
  "for_each f [] = ok ()"
| "for_each f (x # xs) = chk (f x) (\<lambda>_. for_each f xs)"

subsection \<open>Invariants of actions\<close>

text \<open>What an action keeps, however it ends, and what holds of the value it ends with.\<close>

definition keeps :: "('w \<Rightarrow> bool) \<Rightarrow> ('w, 'a) act \<Rightarrow> ('a \<Rightarrow> bool) \<Rightarrow> bool" where
  "keeps P m Q \<longleftrightarrow> (\<forall>w. P w \<longrightarrow> P (snd (run_state m w)) \<and> (\<forall>x. fst (run_state m w) = Ok x \<longrightarrow> Q x))"

abbreviation keeps_inv :: "('w \<Rightarrow> bool) \<Rightarrow> ('w, 'a) act \<Rightarrow> bool" where
  "keeps_inv P m \<equiv> keeps P m (\<lambda>_. True)"

named_theorems keeps_rules

lemma keepsD: "keeps P m Q \<Longrightarrow> P w \<Longrightarrow> run_state m w = (r, w') \<Longrightarrow> P w' \<and> (\<forall>x. r = Ok x \<longrightarrow> Q x)"
  by (auto simp: keeps_def)

lemma keeps_weaken: "keeps P m Q \<Longrightarrow> (\<And>x. Q x \<Longrightarrow> R x) \<Longrightarrow> keeps P m R"
  by (simp add: keeps_def)

lemma keeps_any: "keeps P m Q \<Longrightarrow> keeps_inv P m"
  by (erule keeps_weaken) simp

lemma keeps_ok [keeps_rules]: "Q x \<Longrightarrow> keeps P (ok x) Q"
  by (simp add: keeps_def)

lemma keeps_fail [keeps_rules]: "keeps P (State_Monad.return (Err e)) Q" "keeps P (State_Monad.return Panic) Q" "keeps P (State_Monad.return Hang) Q"
  by (simp_all add: keeps_def)

lemma keeps_attempt:
  assumes "keeps P m Q" "\<And>x. Q x \<Longrightarrow> keeps P (f x) R" "\<And>e. keeps P (g e) R"
  shows "keeps P (attempt m f g) R"
proof -
  have "P w' \<and> (\<forall>x. r = Ok x \<longrightarrow> R x)" if "P w" "run_state (attempt m f g) w = (r, w')" for w r w'
  proof -
    obtain r1 w1 where 1: "run_state m w = (r1, w1)" by (cases "run_state m w")
    note 2 = keepsD [OF assms(1) that(1) 1]
    show ?thesis
    proof (cases r1)
      case (Ok x)
      with 1 2 that(2) keepsD [OF assms(2)] show ?thesis by (fastforce simp: attempt_def)
    next
      case (Err e)
      with 1 2 that(2) keepsD [OF assms(3)] show ?thesis by (fastforce simp: attempt_def)
    next
      case Panic
      with 1 2 that(2) show ?thesis by (auto simp: attempt_def)
    next
      case Hang
      with 1 2 that(2) show ?thesis by (auto simp: attempt_def)
    qed
  qed
  then show ?thesis unfolding keeps_def by (metis prod.collapse)
qed

lemma keeps_chk: "keeps P m Q \<Longrightarrow> (\<And>x. Q x \<Longrightarrow> keeps P (f x) R) \<Longrightarrow> keeps P (chk m f) R"
  unfolding chk_def by (erule keeps_attempt) (auto intro: keeps_rules)

lemma keeps_chk_inv: "keeps_inv P m \<Longrightarrow> (\<And>x. keeps P (f x) R) \<Longrightarrow> keeps P (chk m f) R"
  by (rule keeps_chk)

lemma keeps_attempt_inv: "keeps_inv P m \<Longrightarrow> (\<And>x. keeps P (f x) R) \<Longrightarrow> (\<And>e. keeps P (g e) R) \<Longrightarrow> keeps P (attempt m f g) R"
  by (rule keeps_attempt)

lemma keeps_wrapped: "keeps P m Q \<Longrightarrow> keeps P (wrapped pre m) Q"
  unfolding wrapped_def by (erule keeps_attempt) (auto intro: keeps_rules)

lemma keeps_logged_only: "keeps_inv P m \<Longrightarrow> keeps_inv P (logged_only m)"
  unfolding logged_only_def by (erule keeps_attempt) (auto intro: keeps_rules)

lemma keeps_deferred:
  assumes "keeps_inv P d" "keeps P m Q"
  shows "keeps P (deferred d m) Q"
proof -
  have "P w' \<and> (\<forall>x. r = Ok x \<longrightarrow> Q x)" if "P w" "run_state (deferred d m) w = (r, w')" for w r w'
  proof -
    obtain r1 w1 where 1: "run_state m w = (r1, w1)" by (cases "run_state m w")
    obtain r2 w2 where 2: "run_state d w1 = (r2, w2)" by (cases "run_state d w1")
    note 3 = keepsD [OF assms(2) that(1) 1]
    with keepsD [OF assms(1) _ 2] have "P w2" by simp
    with 1 2 3 that(2) show ?thesis by (cases "r1 = Hang") (auto simp: deferred_def split: io.splits)
  qed
  then show ?thesis unfolding keeps_def by (metis prod.collapse)
qed

lemma keeps_for_each: "(\<And>x. x \<in> set xs \<Longrightarrow> keeps_inv P (f x)) \<Longrightarrow> keeps_inv P (for_each f xs)"
  by (induction xs) (auto intro: keeps_rules keeps_chk)

lemmas keeps_intros = keeps_chk_inv keeps_attempt_inv keeps_wrapped keeps_logged_only keeps_deferred keeps_for_each

subsection \<open>Runs\<close>

lemma run_attempt:
  "run_state (attempt m f g) w =
     (case run_state m w of (Ok x, w') \<Rightarrow> run_state (f x) w' | (Err e, w') \<Rightarrow> run_state (g e) w' | (Panic, w') \<Rightarrow> (Panic, w') | (Hang, w') \<Rightarrow> (Hang, w'))"
  by (auto simp: attempt_def split: prod.splits io.splits)

lemma run_chk:
  "run_state (chk m f) w =
     (case run_state m w of (Ok x, w') \<Rightarrow> run_state (f x) w' | (Err e, w') \<Rightarrow> (Err e, w') | (Panic, w') \<Rightarrow> (Panic, w') | (Hang, w') \<Rightarrow> (Hang, w'))"
  by (auto simp: chk_def run_attempt split: prod.splits io.splits)

lemma run_chk_Ok: "run_state m w = (Ok x, w') \<Longrightarrow> run_state (chk m f) w = run_state (f x) w'"
  by (simp add: run_chk)

lemma run_wrapped_Ok: "run_state m w = (Ok x, w') \<Longrightarrow> run_state (wrapped pre m) w = (Ok x, w')"
  by (simp add: wrapped_def run_attempt)

lemma run_logged_Ok: "run_state m w = (Ok x, w') \<Longrightarrow> run_state (logged_only m) w = (Ok x, w')"
  by (simp add: logged_only_def run_attempt)

lemma run_deferred_Ok: "run_state m w = (r, w1) \<Longrightarrow> r \<noteq> Hang \<Longrightarrow> run_state d w1 = (Ok x, w2) \<Longrightarrow> run_state (deferred d m) w = (r, w2)"
  by (simp add: deferred_def)

end
