(* ===== verification/Batch_Store.thy ===== *)
theory Batch_Store
  imports Batch_Types
begin

text \<open>
  The records of the batch service: \<open>pkg/gateway/batch/redis_store.go\<close> over
  \<open>pkg/redis/client.go\<close> and \<open>standalone.go\<close>.

  The Redis server is a parameter: a record of its commands on the world.  A call of the client may be
  lost before or after the server has done it; between calls the world may change, which is where other
  gateways act.  A script runs on the server in one step.  JSON is a parameter too.

  \<open>redis_ok\<close> states what the documentation of Redis says of the commands, through a view of the keys.
  Lemmas: the effect of each operation on the view; a task written is the task read back; moves keep a
  task in at most one set; a lock has one holder.
\<close>

subsection \<open>Server and client\<close>

datatype fault = NoFault | NotDone | NoReply

record 'w redis =
  rd_net :: "'w \<Rightarrow> fault \<times> 'w"
  rd_nano :: "'w \<Rightarrow> int"
  rd_SADD :: "string \<Rightarrow> string \<Rightarrow> 'w \<Rightarrow> bool \<times> 'w"
  rd_SREM :: "string \<Rightarrow> string \<Rightarrow> 'w \<Rightarrow> bool \<times> 'w"
  rd_SMEMBERS :: "string \<Rightarrow> 'w \<Rightarrow> string list"
  rd_SRANDMEMBER :: "string \<Rightarrow> 'w \<Rightarrow> string list \<times> 'w"
  rd_HSET :: "string \<Rightarrow> (string, string) gmap \<Rightarrow> 'w \<Rightarrow> 'w"
  rd_HGETALL :: "string \<Rightarrow> 'w \<Rightarrow> (string, string) gmap"
  rd_GET :: "string \<Rightarrow> 'w \<Rightarrow> string option"
  rd_SETEX :: "string \<Rightarrow> string \<Rightarrow> i64 \<Rightarrow> 'w \<Rightarrow> 'w"
  rd_EXPIRE :: "string \<Rightarrow> i64 \<Rightarrow> 'w \<Rightarrow> 'w"
  rd_TTL :: "string \<Rightarrow> 'w \<Rightarrow> int"
  rd_DEL :: "string list \<Rightarrow> 'w \<Rightarrow> 'w"

record json =
  js_counts :: "RequestCounts \<Rightarrow> string option"
  js_unCounts :: "string \<Rightarrow> RequestCounts option"
  js_usage :: "BatchUsage \<Rightarrow> string option"
  js_unUsage :: "string \<Rightarrow> BatchUsage option"
  js_meta :: "(string, string) gmap \<Rightarrow> string option"
  js_unMeta :: "string \<Rightarrow> (string, string) gmap \<times> bool"
  js_errors :: "BatchError list \<Rightarrow> string option"
  js_unErrors :: "string \<Rightarrow> BatchError list option"
  js_expires :: "OutputExpiresAfter \<Rightarrow> string option"
  js_unExpires :: "string \<Rightarrow> OutputExpiresAfter option"

definition call :: "'w redis \<Rightarrow> ('w \<Rightarrow> 'a \<times> 'w) \<Rightarrow> ('w, 'a) act" where
  "call rd f = State (\<lambda>w.
     case rd_net rd w of
       (NoFault, w) \<Rightarrow> (case f w of (x, w) \<Rightarrow> (Ok x, w))
     | (NotDone, w) \<Rightarrow> (Err (Text ''redis''), w)
     | (NoReply, w) \<Rightarrow> (Err (Text ''redis''), snd (f w)))"

definition HSet :: "'w redis \<Rightarrow> string \<Rightarrow> (string, string) gmap \<Rightarrow> ('w, unit) act" where
  "HSet rd key values = call rd (\<lambda>w. ((), rd_HSET rd key values w))"

text \<open>The value of one field; a missing one is the error \<open>redis: nil\<close>.\<close>

definition HGet1 :: "'w redis \<Rightarrow> string \<Rightarrow> string \<Rightarrow> ('w, string) act" where
  "HGet1 rd key field = chk (call rd (\<lambda>w. (map_of (rd_HGETALL rd key w) field, w)))
     (\<lambda>v. case v of None \<Rightarrow> fail ''redis: nil'' | Some x \<Rightarrow> ok x)"

definition HGetAll :: "'w redis \<Rightarrow> string \<Rightarrow> ('w, (string, string) gmap) act" where
  "HGetAll rd key = call rd (\<lambda>w. (rd_HGETALL rd key w, w))"

definition SAdd :: "'w redis \<Rightarrow> string \<Rightarrow> string \<Rightarrow> ('w, unit) act" where
  "SAdd rd key x = call rd (\<lambda>w. ((), snd (rd_SADD rd key x w)))"

definition SRem :: "'w redis \<Rightarrow> string \<Rightarrow> string \<Rightarrow> ('w, unit) act" where
  "SRem rd key x = call rd (\<lambda>w. ((), snd (rd_SREM rd key x w)))"

definition SMembers :: "'w redis \<Rightarrow> string \<Rightarrow> ('w, string list) act" where
  "SMembers rd key = call rd (\<lambda>w. (rd_SMEMBERS rd key w, w))"

definition SIsMember :: "'w redis \<Rightarrow> string \<Rightarrow> string \<Rightarrow> ('w, bool) act" where
  "SIsMember rd key x = call rd (\<lambda>w. (x \<in> set (rd_SMEMBERS rd key w), w))"

definition SRandMember :: "'w redis \<Rightarrow> string \<Rightarrow> ('w, string list) act" where
  "SRandMember rd key = call rd (rd_SRANDMEMBER rd key)"

definition SetNX :: "'w redis \<Rightarrow> string \<Rightarrow> string \<Rightarrow> i64 \<Rightarrow> ('w, bool) act" where
  "SetNX rd key v secs = call rd (\<lambda>w. if rd_GET rd key w = None then (True, rd_SETEX rd key v secs w) else (False, w))"

definition Del :: "'w redis \<Rightarrow> string list \<Rightarrow> ('w, unit) act" where
  "Del rd keys = call rd (\<lambda>w. ((), rd_DEL rd keys w))"

text \<open>The clock, in nanoseconds and in whole seconds.\<close>

definition clock :: "'w redis \<Rightarrow> ('w, int) act" where
  "clock rd = State (\<lambda>w. (Ok (rd_nano rd w), w))"

definition now :: "'w redis \<Rightarrow> ('w, i64) act" where
  "now rd = chk (clock rd) (\<lambda>n. ok (word_of_int (n div 10 ^ 9)))"

subsection \<open>Keys\<close>

definition getFileKey :: "string \<Rightarrow> string" where "getFileKey fileID = ''file:'' @ fileID"
definition getFileSetKey :: string where "getFileSetKey = ''files:all''"
definition getTaskLockKey :: "string \<Rightarrow> string" where "getTaskLockKey taskID = ''task:lock:'' @ taskID"
definition getShardLockKey :: "string \<Rightarrow> string \<Rightarrow> string" where "getShardLockKey taskID shardID = ''shard:lock:'' @ taskID @ '':'' @ shardID"
definition getTaskSetKey :: "BatchTaskStatus \<Rightarrow> string" where "getTaskSetKey s = ''tasks:'' @ s"
definition getGlobalTaskSetKey :: string where "getGlobalTaskSetKey = ''tasks:all''"
definition getShardSetKey :: "string \<Rightarrow> ShardStatus \<Rightarrow> string" where "getShardSetKey taskID status = ''task:'' @ taskID @ '':files:'' @ status"
definition getTaskKey :: "string \<Rightarrow> string" where "getTaskKey taskID = ''task:'' @ taskID"
definition getShardKey :: "string \<Rightarrow> string \<Rightarrow> string" where "getShardKey taskID shardID = ''shard:'' @ taskID @ '':'' @ shardID"

lemmas key_defs = getFileKey_def getFileSetKey_def getTaskLockKey_def getShardLockKey_def getTaskSetKey_def getGlobalTaskSetKey_def
  getShardSetKey_def getTaskKey_def getShardKey_def

definition show64 :: "i64 \<Rightarrow> string" where "show64 x = show_int (sint x)"

definition ParseInt :: "string \<Rightarrow> i64 option" where
  "ParseInt s = (let (x, done) = Atoi s in if done then Some x else None)"

lemma ParseInt_show64 [simp]: "ParseInt (show64 x) = Some x"
  by (simp add: ParseInt_def show64_def Atoi_show_int)

text \<open>The value of a field, the empty string when it is missing.\<close>

definition field :: "(string, string) gmap \<Rightarrow> string \<Rightarrow> string" where
  "field m k = (case mget m k of None \<Rightarrow> [] | Some v \<Rightarrow> v)"

subsection \<open>Files\<close>

definition CreateFile :: "'w redis \<Rightarrow> File \<Rightarrow> ('w, unit) act" where
  "CreateFile rd file =
     chk (HSet rd (getFileKey (fl_ID file))
            [(''id'', fl_ID file), (''object'', fl_Object file), (''bytes'', show64 (fl_Bytes file)), (''created_at'', show64 (fl_CreatedAt file)),
             (''expires_at'', show64 (fl_ExpiresAt file)), (''filename'', fl_Filename file), (''purpose'', fl_Purpose file)])
       (\<lambda>_. SAdd rd getFileSetKey (fl_ID file))"

definition file_of :: "(string, string) gmap \<Rightarrow> batch_err + File" where
  "file_of values =
     (if values = [] then Inl (Text ''file not found'')
      else case ParseInt (field values ''created_at'') of
             None \<Rightarrow> Inl (Text ''failed to parse created_at'')
           | Some createdAt \<Rightarrow>
               (case ParseInt (field values ''bytes'') of
                  None \<Rightarrow> Inl (Text ''failed to parse bytes'')
                | Some bytes \<Rightarrow>
                    Inr \<lparr>fl_ID = field values ''id'', fl_Object = field values ''object'', fl_Bytes = bytes, fl_CreatedAt = createdAt,
                      fl_ExpiresAt = (case ParseInt (field values ''expires_at'') of None \<Rightarrow> 0 | Some x \<Rightarrow> x),
                      fl_Filename = field values ''filename'', fl_Purpose = field values ''purpose''\<rparr>))"

definition lift :: "batch_err + 'a \<Rightarrow> ('w, 'a) act" where
  "lift r = State_Monad.return (case r of Inl e \<Rightarrow> Err e | Inr x \<Rightarrow> Ok x)"

definition GetFile :: "'w redis \<Rightarrow> string \<Rightarrow> ('w, File) act" where
  "GetFile rd fileID = chk (HGetAll rd (getFileKey fileID)) (\<lambda>values. lift (file_of values))"

definition DeleteFile :: "'w redis \<Rightarrow> string \<Rightarrow> ('w, unit) act" where
  "DeleteFile rd fileID = chk (Del rd [getFileKey fileID]) (\<lambda>_. SRem rd getFileSetKey fileID)"

definition GetAllFiles :: "'w redis \<Rightarrow> ('w, string list) act" where
  "GetAllFiles rd = SMembers rd getFileSetKey"

subsection \<open>Tasks\<close>

definition opt_field :: "string \<Rightarrow> ('a \<Rightarrow> string) \<Rightarrow> 'a option \<Rightarrow> batch_err + (string, string) gmap" where
  "opt_field k f x = Inr (case x of None \<Rightarrow> [] | Some v \<Rightarrow> [(k, f v)])"

definition json_field :: "string \<Rightarrow> ('a \<Rightarrow> string option) \<Rightarrow> 'a option \<Rightarrow> batch_err + (string, string) gmap" where
  "json_field k f x =
     (case x of
        None \<Rightarrow> Inr []
      | Some v \<Rightarrow> (case f v of None \<Rightarrow> Inl (Text (''failed to marshal '' @ k)) | Some s \<Rightarrow> Inr [(k, s)]))"

text \<open>The fields in order, or the first error.\<close>

fun collect :: "(batch_err + (string, string) gmap) list \<Rightarrow> batch_err + (string, string) gmap" where
  "collect [] = Inr []"
| "collect (Inl e # xs) = Inl e"
| "collect (Inr m # xs) = (case collect xs of Inl e \<Rightarrow> Inl e | Inr m' \<Rightarrow> Inr (m @ m'))"

definition marshalBatchErrors :: "json \<Rightarrow> BatchError list option \<Rightarrow> string" where
  "marshalBatchErrors js errors =
     (case errors of
        None \<Rightarrow> []
      | Some es \<Rightarrow> (case js_errors js es of None \<Rightarrow> ''error marshaling batch errors'' | Some s \<Rightarrow> s))"

definition time_fields :: "BatchTask \<Rightarrow> (batch_err + (string, string) gmap) list" where
  "time_fields t =
     [opt_field ''in_progress_at'' show64 (bt_InProgressAt t), opt_field ''finalizing_at'' show64 (bt_FinalizingAt t),
      opt_field ''completed_at'' show64 (bt_CompletedAt t), opt_field ''failed_at'' show64 (bt_FailedAt t),
      opt_field ''expired_at'' show64 (bt_ExpiredAt t), opt_field ''cancelling_at'' show64 (bt_CancellingAt t),
      opt_field ''cancelled_at'' show64 (bt_CancelledAt t)]"

definition task_fields :: "json \<Rightarrow> BatchTask \<Rightarrow> i64 \<Rightarrow> i64 \<Rightarrow> batch_err + (string, string) gmap" where
  "task_fields js t createdAt updatedAt =
     collect ([Inr [(''id'', bt_ID t), (''object'', bt_Object t), (''endpoint'', bt_Endpoint t), (''model'', bt_Model t),
                    (''errors'', marshalBatchErrors js (bt_Errors t)), (''input_file_id'', bt_InputFileID t),
                    (''completion_window'', bt_CompletionWindow t), (''status'', bt_Status t), (''created_at'', show64 createdAt),
                    (''expires_at'', show64 (bt_ExpiresAt t)), (''updated_at'', show64 updatedAt)],
               opt_field ''output_file_id'' id (bt_OutputFileID t), opt_field ''error_file_id'' id (bt_ErrorFileID t)]
              @ time_fields t
              @ [json_field ''metadata'' (js_meta js) (if 0 < length (bt_Metadata t) then Some (bt_Metadata t) else None),
                 json_field ''request_counts'' (js_counts js) (bt_RequestCounts t), json_field ''usage'' (js_usage js) (bt_Usage t),
                 json_field ''output_expires_after'' (js_expires js) (bt_OutputExpiresAfter t), opt_field ''token'' id (bt_Token t)])"

definition CreateTask :: "'w redis \<Rightarrow> json \<Rightarrow> BatchTask \<Rightarrow> ('w, unit) act" where
  "CreateTask rd js task =
     (case (bt_CreatedAt task, bt_UpdatedAt task) of
        (Some createdAt, Some updatedAt) \<Rightarrow>
          chk (lift (task_fields js task createdAt updatedAt)) (\<lambda>fields.
          chk (HSet rd (getTaskKey (bt_ID task)) fields) (\<lambda>_.
          chk (SAdd rd getGlobalTaskSetKey (bt_ID task)) (\<lambda>_.
          SAdd rd (getTaskSetKey StatusPending) (bt_ID task))))
      | _ \<Rightarrow> State_Monad.return Panic)"

definition opt_time :: "(string, string) gmap \<Rightarrow> string \<Rightarrow> i64 option" where
  "opt_time values k = (case mget values k of None \<Rightarrow> None | Some v \<Rightarrow> if v \<noteq> [] then ParseInt v else None)"

definition opt_str :: "(string, string) gmap \<Rightarrow> string \<Rightarrow> string option" where
  "opt_str values k = (case mget values k of None \<Rightarrow> None | Some v \<Rightarrow> if v \<noteq> [] then Some v else None)"

definition req_time :: "(string, string) gmap \<Rightarrow> string \<Rightarrow> batch_err + i64" where
  "req_time values k = (case ParseInt (field values k) of None \<Rightarrow> Inl (Text (''failed to parse '' @ k)) | Some x \<Rightarrow> Inr x)"

definition opt_json :: "(string, string) gmap \<Rightarrow> string \<Rightarrow> (string \<Rightarrow> 'a option) \<Rightarrow> batch_err + 'a option" where
  "opt_json values k un =
     (case opt_str values k of
        None \<Rightarrow> Inr None
      | Some v \<Rightarrow> (case un v of None \<Rightarrow> Inl (Text (''failed to unmarshal '' @ k)) | Some x \<Rightarrow> Inr (Some x)))"

definition meta_of :: "json \<Rightarrow> (string, string) gmap \<Rightarrow> (string, string) gmap" where
  "meta_of js values =
     (case opt_str values ''metadata'' of
        None \<Rightarrow> []
      | Some v \<Rightarrow> (let (m, done) = js_unMeta js v in if done then m else mput ''value'' v m))"

definition errors_of :: "json \<Rightarrow> (string, string) gmap \<Rightarrow> BatchError list option" where
  "errors_of js values =
     (case opt_str values ''errors'' of
        None \<Rightarrow> None
      | Some v \<Rightarrow> (case js_unErrors js v of
                     None \<Rightarrow> Some [\<lparr>be_Code = ''parsing_error'', be_Line = 0, be_Message = v, be_Param = []\<rparr>]
                   | Some es \<Rightarrow> Some es))"

definition task_of :: "json \<Rightarrow> (string, string) gmap \<Rightarrow> batch_err + BatchTask" where
  "task_of js values =
     (if values = [] then Inl (Text ''task not found'')
      else case req_time values ''created_at'' of Inl e \<Rightarrow> Inl e | Inr createdAt \<Rightarrow>
           (case req_time values ''expires_at'' of Inl e \<Rightarrow> Inl e | Inr expiresAt \<Rightarrow>
           (case req_time values ''updated_at'' of Inl e \<Rightarrow> Inl e | Inr updatedAt \<Rightarrow>
           (case opt_json values ''request_counts'' (js_unCounts js) of Inl e \<Rightarrow> Inl e | Inr counts \<Rightarrow>
           (case opt_json values ''usage'' (js_unUsage js) of Inl e \<Rightarrow> Inl e | Inr usage \<Rightarrow>
              Inr \<lparr>bt_ID = field values ''id'', bt_Object = field values ''object'', bt_Endpoint = field values ''endpoint'',
                bt_Model = field values ''model'', bt_Errors = errors_of js values, bt_InputFileID = field values ''input_file_id'',
                bt_CompletionWindow = field values ''completion_window'', bt_Status = field values ''status'',
                bt_OutputFileID = opt_str values ''output_file_id'', bt_ErrorFileID = opt_str values ''error_file_id'',
                bt_CreatedAt = Some createdAt, bt_InProgressAt = opt_time values ''in_progress_at'', bt_ExpiresAt = expiresAt,
                bt_FinalizingAt = opt_time values ''finalizing_at'', bt_CompletedAt = opt_time values ''completed_at'',
                bt_FailedAt = opt_time values ''failed_at'', bt_ExpiredAt = opt_time values ''expired_at'',
                bt_CancellingAt = opt_time values ''cancelling_at'', bt_CancelledAt = opt_time values ''cancelled_at'',
                bt_RequestCounts = counts, bt_Usage = usage, bt_Metadata = meta_of js values,
                bt_OutputExpiresAfter = (case opt_str values ''output_expires_after'' of None \<Rightarrow> None | Some v \<Rightarrow> js_unExpires js v),
                bt_UpdatedAt = Some updatedAt, bt_Token = opt_str values ''token''\<rparr>)))))"

definition GetTask :: "'w redis \<Rightarrow> json \<Rightarrow> string \<Rightarrow> ('w, BatchTask) act" where
  "GetTask rd js taskID = chk (HGetAll rd (getTaskKey taskID)) (\<lambda>values. lift (task_of js values))"

definition DeleteTask :: "'w redis \<Rightarrow> string \<Rightarrow> ('w, unit) act" where
  "DeleteTask rd taskID = chk (Del rd [getTaskKey taskID]) (\<lambda>_. logged_only (SRem rd getGlobalTaskSetKey taskID))"

text \<open>The field a status stamps, if any.\<close>

definition stamp_field :: "BatchTaskStatus \<Rightarrow> string option" where
  "stamp_field s =
     map_of [(StatusInProgress, ''in_progress_at''), (StatusFinalizing, ''finalizing_at''), (StatusCompleted, ''completed_at''),
       (StatusFailed, ''failed_at''), (StatusExpired, ''expired_at''), (StatusCancelling, ''cancelling_at''), (StatusCancelled, ''cancelled_at'')] s"

definition UpdateTaskStatus :: "'w redis \<Rightarrow> string \<Rightarrow> BatchTaskStatus \<Rightarrow> ('w, unit) act" where
  "UpdateTaskStatus rd taskID status =
     chk (now rd) (\<lambda>t. HSet rd (getTaskKey taskID)
       ([(''status'', status), (''updated_at'', show64 t)] @ (case stamp_field status of None \<Rightarrow> [] | Some k \<Rightarrow> [(k, show64 t)])))"

definition UpdateTaskFailure :: "'w redis \<Rightarrow> json \<Rightarrow> string \<Rightarrow> BatchError list \<Rightarrow> ('w, unit) act" where
  "UpdateTaskFailure rd js taskID batchErr =
     chk (now rd) (\<lambda>t. HSet rd (getTaskKey taskID)
       [(''status'', StatusFailed), (''errors'', marshalBatchErrors js (Some batchErr)), (''failed_at'', show64 t), (''updated_at'', show64 t)])"

definition update_fields :: "json \<Rightarrow> BatchTask \<Rightarrow> i64 \<Rightarrow> batch_err + (string, string) gmap" where
  "update_fields js t updatedAt =
     collect ([Inr [(''updated_at'', show64 updatedAt)], json_field ''request_counts'' (js_counts js) (bt_RequestCounts t),
               json_field ''usage'' (js_usage js) (bt_Usage t), opt_field ''output_file_id'' id (bt_OutputFileID t),
               opt_field ''error_file_id'' id (bt_ErrorFileID t), json_field ''output_expires_after'' (js_expires js) (bt_OutputExpiresAfter t),
               Inr [(''status'', bt_Status t)]]
              @ time_fields t)"

definition UpdateTaskFields :: "'w redis \<Rightarrow> json \<Rightarrow> string \<Rightarrow> BatchTask \<Rightarrow> ('w, unit) act" where
  "UpdateTaskFields rd js taskID task =
     (case bt_UpdatedAt task of
        None \<Rightarrow> State_Monad.return Panic
      | Some updatedAt \<Rightarrow> chk (lift (update_fields js task updatedAt)) (\<lambda>fields. HSet rd (getTaskKey taskID) fields))"

subsection \<open>Scripts\<close>

text \<open>A member moves between sets; \<open>False\<close> is the error reply.\<close>

definition move_script :: "'w redis \<Rightarrow> string \<Rightarrow> string \<Rightarrow> string \<Rightarrow> 'w \<Rightarrow> bool \<times> 'w" where
  "move_script rd x fromKey toKey w =
     (let (added, w) = rd_SADD rd toKey x w;
          (removed, w) = rd_SREM rd fromKey x w
      in if \<not> removed then (False, if added then snd (rd_SREM rd toKey x w) else w) else (True, w))"

definition stamp_script :: "'w redis \<Rightarrow> string \<Rightarrow> BatchTaskStatus \<Rightarrow> string \<Rightarrow> 'w \<Rightarrow> 'w" where
  "stamp_script rd taskKey toSetName t w =
     (let w = rd_HSET rd taskKey [(''status'', toSetName)] w;
          w = rd_HSET rd taskKey [(''updated_at'', t)] w
      in if toSetName = StatusInProgress then
           (if map_of (rd_HGETALL rd taskKey w) ''in_progress_at'' = None then rd_HSET rd taskKey [(''in_progress_at'', t)] w else w)
         else case stamp_field toSetName of None \<Rightarrow> w | Some k \<Rightarrow> rd_HSET rd taskKey [(k, t)] w)"

definition moved :: "('w, bool) act \<Rightarrow> ('w, unit) act" where
  "moved m = chk m (\<lambda>done. if done then ok () else fail ''not found in set'')"

definition MoveTaskAndUpdateStatusAtomically :: "'w redis \<Rightarrow> string \<Rightarrow> BatchTaskStatus \<Rightarrow> BatchTaskStatus \<Rightarrow> ('w, unit) act" where
  "MoveTaskAndUpdateStatusAtomically rd taskID fromSet toSet =
     chk (now rd) (\<lambda>t. moved (call rd (\<lambda>w.
       case move_script rd taskID (getTaskSetKey fromSet) (getTaskSetKey toSet) w of
         (False, w) \<Rightarrow> (False, w)
       | (True, w) \<Rightarrow> (True, stamp_script rd (getTaskKey taskID) toSet (show64 t) w))))"

definition MoveTaskAtomically :: "'w redis \<Rightarrow> string \<Rightarrow> BatchTaskStatus \<Rightarrow> BatchTaskStatus \<Rightarrow> ('w, unit) act" where
  "MoveTaskAtomically rd taskID fromSet toSet = moved (call rd (move_script rd taskID (getTaskSetKey fromSet) (getTaskSetKey toSet)))"

definition MoveShardAtomically :: "'w redis \<Rightarrow> string \<Rightarrow> string \<Rightarrow> ShardStatus \<Rightarrow> ShardStatus \<Rightarrow> ('w, unit) act" where
  "MoveShardAtomically rd taskID shardID fromStatus toStatus =
     moved (call rd (move_script rd shardID (getShardSetKey taskID fromStatus) (getShardSetKey taskID toStatus)))"

subsection \<open>Looking up tasks\<close>

definition GetTasksInStatus :: "'w redis \<Rightarrow> BatchTaskStatus \<Rightarrow> ('w, string list) act" where
  "GetTasksInStatus rd status = SMembers rd (getTaskSetKey status)"

definition GetTaskExpiresAt :: "'w redis \<Rightarrow> string \<Rightarrow> ('w, i64) act" where
  "GetTaskExpiresAt rd taskID = chk (HGet1 rd (getTaskKey taskID) ''expires_at'')
     (\<lambda>v. case ParseInt v of None \<Rightarrow> fail ''failed to parse expires_at'' | Some x \<Rightarrow> ok x)"

definition GetTaskStatus :: "'w redis \<Rightarrow> string \<Rightarrow> ('w, BatchTaskStatus) act" where
  "GetTaskStatus rd taskID = HGet1 rd (getTaskKey taskID) ''status''"

fun expired_in :: "'w redis \<Rightarrow> int \<Rightarrow> string list \<Rightarrow> ('w, string list) act" where
  "expired_in rd n [] = ok []"
| "expired_in rd n (taskID # ids) =
     attempt (GetTaskExpiresAt rd taskID)
       (\<lambda>expiresAt. chk (expired_in rd n ids) (\<lambda>xs. ok (if sint expiresAt * 10 ^ 9 < n then taskID # xs else xs)))
       (\<lambda>_. expired_in rd n ids)"

fun expired_among :: "'w redis \<Rightarrow> int \<Rightarrow> BatchTaskStatus list \<Rightarrow> ('w, string list) act" where
  "expired_among rd n [] = ok []"
| "expired_among rd n (s # ss) =
     chk (GetTasksInStatus rd s) (\<lambda>ids. chk (expired_in rd n ids) (\<lambda>xs. chk (expired_among rd n ss) (\<lambda>ys. ok (xs @ ys))))"

definition GetExpiredTasks :: "'w redis \<Rightarrow> BatchTaskStatus list \<Rightarrow> ('w, string list) act" where
  "GetExpiredTasks rd status = chk (clock rd) (\<lambda>n. expired_among rd n status)"

definition GetAllTasks :: "'w redis \<Rightarrow> ('w, string list) act" where
  "GetAllTasks rd = SMembers rd getGlobalTaskSetKey"

definition TaskInSet :: "'w redis \<Rightarrow> BatchTaskStatus \<Rightarrow> string \<Rightarrow> ('w, bool) act" where
  "TaskInSet rd s taskID = SIsMember rd (getTaskSetKey s) taskID"

definition AddToSet :: "'w redis \<Rightarrow> BatchTaskStatus \<Rightarrow> string \<Rightarrow> ('w, unit) act" where
  "AddToSet rd s taskID = SAdd rd (getTaskSetKey s) taskID"

definition RemoveFromSet :: "'w redis \<Rightarrow> BatchTaskStatus \<Rightarrow> string \<Rightarrow> ('w, unit) act" where
  "RemoveFromSet rd s taskID = SRem rd (getTaskSetKey s) taskID"

definition one_of :: "string \<Rightarrow> string list \<Rightarrow> ('w, string) act" where
  "one_of msg members = (case members of [] \<Rightarrow> fail msg | x # _ \<Rightarrow> ok x)"

definition GetTaskInStatus :: "'w redis \<Rightarrow> BatchTaskStatus \<Rightarrow> ('w, string) act" where
  "GetTaskInStatus rd s = chk (SRandMember rd (getTaskSetKey s)) (one_of ''no tasks in set'')"

subsection \<open>Shards\<close>

definition CreateOrUpdateFileShard :: "'w redis \<Rightarrow> json \<Rightarrow> string \<Rightarrow> string \<Rightarrow> FileShard \<Rightarrow> ('w, unit) act" where
  "CreateOrUpdateFileShard rd js taskID shardID shard =
     (case (fs_CreatedAt shard, fs_UpdatedAt shard) of
        (Some createdAt, Some updatedAt) \<Rightarrow>
          chk (lift (collect [Inr [(''id'', fs_ID shard), (''created_at'', show64 createdAt), (''updated_at'', show64 updatedAt)],
                              json_field ''request_counts'' (js_counts js) (fs_RequestCounts shard)]))
            (\<lambda>fields. HSet rd (getShardKey taskID shardID) fields)
      | _ \<Rightarrow> State_Monad.return Panic)"

definition shard_of :: "json \<Rightarrow> (string, string) gmap \<Rightarrow> batch_err + FileShard" where
  "shard_of js values =
     (case req_time values ''created_at'' of Inl e \<Rightarrow> Inl e | Inr createdAt \<Rightarrow>
     (case req_time values ''updated_at'' of Inl e \<Rightarrow> Inl e | Inr updatedAt \<Rightarrow>
     (case opt_json values ''request_counts'' (js_unCounts js) of Inl e \<Rightarrow> Inl e | Inr counts \<Rightarrow>
        Inr \<lparr>fs_ID = field values ''id'', fs_CreatedAt = Some createdAt, fs_RequestCounts = counts, fs_UpdatedAt = Some updatedAt\<rparr>)))"

definition GetFileShard :: "'w redis \<Rightarrow> json \<Rightarrow> string \<Rightarrow> string \<Rightarrow> ('w, FileShard) act" where
  "GetFileShard rd js taskID shardID = chk (HGetAll rd (getShardKey taskID shardID)) (\<lambda>values. lift (shard_of js values))"

definition AddShardToPendingList :: "'w redis \<Rightarrow> string \<Rightarrow> string \<Rightarrow> ('w, unit) act" where
  "AddShardToPendingList rd taskID shardID = SAdd rd (getShardSetKey taskID ShardStatusPending) shardID"

definition GetShardsInStatus :: "'w redis \<Rightarrow> string \<Rightarrow> ShardStatus \<Rightarrow> ('w, string list) act" where
  "GetShardsInStatus rd taskID status = SMembers rd (getShardSetKey taskID status)"

definition GetShardInStatus :: "'w redis \<Rightarrow> string \<Rightarrow> ShardStatus \<Rightarrow> ('w, string) act" where
  "GetShardInStatus rd taskID status = chk (SRandMember rd (getShardSetKey taskID status)) (one_of ''no shards in status'')"

definition CheckIfAllShardsAreCompleted :: "'w redis \<Rightarrow> string \<Rightarrow> ('w, bool) act" where
  "CheckIfAllShardsAreCompleted rd taskID = call rd (\<lambda>w.
     (length (rd_SMEMBERS rd (getShardSetKey taskID ShardStatusPending) w) = 0 \<and>
      length (rd_SMEMBERS rd (getShardSetKey taskID ShardStatusInProgress) w) = 0, w))"

definition RemoveShardInfo :: "'w redis \<Rightarrow> string \<Rightarrow> ShardStatus \<Rightarrow> ('w, unit) act" where
  "RemoveShardInfo rd taskID status =
     chk (GetShardsInStatus rd taskID status) (\<lambda>shardIDs. Del rd (map (getShardKey taskID) shardIDs @ [getShardSetKey taskID status]))"

subsection \<open>Locks\<close>

definition AcquireTaskLock :: "'w redis \<Rightarrow> string \<Rightarrow> string \<Rightarrow> i64 \<Rightarrow> ('w, bool) act" where
  "AcquireTaskLock rd taskID instanceID secs = SetNX rd (getTaskLockKey taskID) instanceID secs"

definition release_script :: "'w redis \<Rightarrow> string \<Rightarrow> string \<Rightarrow> 'w \<Rightarrow> unit \<times> 'w" where
  "release_script rd key owner w = ((), if rd_GET rd key w = Some owner then rd_DEL rd [key] w else w)"

definition extend_script :: "'w redis \<Rightarrow> string \<Rightarrow> string \<Rightarrow> i64 \<Rightarrow> 'w \<Rightarrow> unit \<times> 'w" where
  "extend_script rd key owner secs w = ((), if rd_GET rd key w = Some owner then rd_EXPIRE rd key secs w else w)"

definition recover_script :: "'w redis \<Rightarrow> string \<Rightarrow> string \<Rightarrow> i64 \<Rightarrow> 'w \<Rightarrow> bool \<times> 'w" where
  "recover_script rd key owner secs w =
     (case rd_GET rd key w of
        None \<Rightarrow> (True, rd_SETEX rd key owner secs w)
      | Some current \<Rightarrow>
          if current = owner then (True, rd_EXPIRE rd key secs w)
          else if rd_TTL rd key w \<le> 0 then (True, rd_SETEX rd key owner secs w)
          else (False, w))"

definition ReleaseTaskLock :: "'w redis \<Rightarrow> string \<Rightarrow> string \<Rightarrow> ('w, unit) act" where
  "ReleaseTaskLock rd taskID instanceID = call rd (release_script rd (getTaskLockKey taskID) instanceID)"

text \<open>Whether the lock was still held is not looked at.\<close>

definition ExtendTaskLock :: "'w redis \<Rightarrow> string \<Rightarrow> string \<Rightarrow> i64 \<Rightarrow> ('w, unit) act" where
  "ExtendTaskLock rd taskID instanceID secs = call rd (extend_script rd (getTaskLockKey taskID) instanceID secs)"

definition shard_owner :: "string \<Rightarrow> string \<Rightarrow> string" where
  "shard_owner instanceID workerID = instanceID @ '':'' @ workerID"

definition AcquireShardLock :: "'w redis \<Rightarrow> string \<Rightarrow> string \<Rightarrow> string \<Rightarrow> string \<Rightarrow> i64 \<Rightarrow> ('w, bool) act" where
  "AcquireShardLock rd taskID shardID instanceID workerID secs =
     SetNX rd (getShardLockKey taskID shardID) (shard_owner instanceID workerID) secs"

definition ExtendShardLock :: "'w redis \<Rightarrow> string \<Rightarrow> string \<Rightarrow> string \<Rightarrow> string \<Rightarrow> i64 \<Rightarrow> ('w, unit) act" where
  "ExtendShardLock rd taskID shardID instanceID workerID secs =
     call rd (extend_script rd (getShardLockKey taskID shardID) (shard_owner instanceID workerID) secs)"

definition AcquireOrRecoverShardLock :: "'w redis \<Rightarrow> string \<Rightarrow> string \<Rightarrow> string \<Rightarrow> string \<Rightarrow> i64 \<Rightarrow> ('w, bool) act" where
  "AcquireOrRecoverShardLock rd taskID shardID instanceID workerID secs =
     call rd (recover_script rd (getShardLockKey taskID shardID) (shard_owner instanceID workerID) secs)"

definition ReleaseShardLock :: "'w redis \<Rightarrow> string \<Rightarrow> string \<Rightarrow> string \<Rightarrow> string \<Rightarrow> ('w, unit) act" where
  "ReleaseShardLock rd taskID shardID instanceID workerID =
     call rd (release_script rd (getShardLockKey taskID shardID) (shard_owner instanceID workerID))"

definition lock_owner :: "'w redis \<Rightarrow> string \<Rightarrow> ('w, string) act" where
  "lock_owner rd key = call rd (\<lambda>w. (case rd_GET rd key w of None \<Rightarrow> [] | Some v \<Rightarrow> v, w))"

definition GetTaskLockOwner :: "'w redis \<Rightarrow> string \<Rightarrow> ('w, string) act" where
  "GetTaskLockOwner rd taskID = lock_owner rd (getTaskLockKey taskID)"

definition GetShardLockOwner :: "'w redis \<Rightarrow> string \<Rightarrow> string \<Rightarrow> ('w, string) act" where
  "GetShardLockOwner rd taskID shardID = lock_owner rd (getShardLockKey taskID shardID)"

subsection \<open>What Redis promises\<close>

record rview =
  rv_set :: "string \<Rightarrow> string set"
  rv_hash :: "string \<Rightarrow> string \<Rightarrow> string option"
  rv_str :: "string \<Rightarrow> string option"

definition set_member :: "bool \<Rightarrow> string \<Rightarrow> string \<Rightarrow> rview \<Rightarrow> rview" where
  "set_member b k x v = v\<lparr>rv_set := (rv_set v)(k := (if b then insert x (rv_set v k) else rv_set v k - {x}))\<rparr>"

definition set_fields :: "string \<Rightarrow> (string, string) gmap \<Rightarrow> rview \<Rightarrow> rview" where
  "set_fields k m v = v\<lparr>rv_hash := (rv_hash v)(k := rv_hash v k ++ map_of m)\<rparr>"

definition set_str :: "string \<Rightarrow> string option \<Rightarrow> rview \<Rightarrow> rview" where
  "set_str k x v = v\<lparr>rv_str := (rv_str v)(k := x)\<rparr>"

definition del_keys :: "string list \<Rightarrow> rview \<Rightarrow> rview" where
  "del_keys ks v = \<lparr>rv_set = (\<lambda>k. if k \<in> set ks then {} else rv_set v k), rv_hash = (\<lambda>k. if k \<in> set ks then Map.empty else rv_hash v k),
     rv_str = (\<lambda>k. if k \<in> set ks then None else rv_str v k)\<rparr>"

text \<open>The documented effect of the commands.\<close>

definition redis_ok :: "'w redis \<Rightarrow> ('w \<Rightarrow> rview) \<Rightarrow> bool" where
  "redis_ok rd V \<longleftrightarrow>
     (\<forall>k x w. V (snd (rd_SADD rd k x w)) = set_member True k x (V w) \<and> fst (rd_SADD rd k x w) = (x \<notin> rv_set (V w) k)) \<and>
     (\<forall>k x w. V (snd (rd_SREM rd k x w)) = set_member False k x (V w) \<and> fst (rd_SREM rd k x w) = (x \<in> rv_set (V w) k)) \<and>
     (\<forall>k w. set (rd_SMEMBERS rd k w) = rv_set (V w) k \<and> distinct (rd_SMEMBERS rd k w)) \<and>
     (\<forall>k w. V (snd (rd_SRANDMEMBER rd k w)) = V w \<and> set (fst (rd_SRANDMEMBER rd k w)) \<subseteq> rv_set (V w) k \<and>
        (fst (rd_SRANDMEMBER rd k w) = [] \<longleftrightarrow> rv_set (V w) k = {})) \<and>
     (\<forall>k m w. V (rd_HSET rd k m w) = set_fields k m (V w)) \<and>
     (\<forall>k w. map_of (rd_HGETALL rd k w) = rv_hash (V w) k) \<and>
     (\<forall>k w. rd_GET rd k w = rv_str (V w) k) \<and>
     (\<forall>k x n w. V (rd_SETEX rd k x n w) = set_str k (Some x) (V w)) \<and>
     (\<forall>k n w. V (rd_EXPIRE rd k n w) = V w) \<and>
     (\<forall>ks w. V (rd_DEL rd ks w) = del_keys ks (V w))"

lemma redis_okD:
  assumes "redis_ok rd V"
  shows "V (snd (rd_SADD rd k x w)) = set_member True k x (V w)" "fst (rd_SADD rd k x w) = (x \<notin> rv_set (V w) k)"
    "V (snd (rd_SREM rd k x w)) = set_member False k x (V w)" "fst (rd_SREM rd k x w) = (x \<in> rv_set (V w) k)"
    "set (rd_SMEMBERS rd k w) = rv_set (V w) k" "distinct (rd_SMEMBERS rd k w)"
    "V (snd (rd_SRANDMEMBER rd k w)) = V w" "set (fst (rd_SRANDMEMBER rd k w)) \<subseteq> rv_set (V w) k"
    "fst (rd_SRANDMEMBER rd k w) = [] \<longleftrightarrow> rv_set (V w) k = {}"
    "V (rd_HSET rd k m w) = set_fields k m (V w)" "map_of (rd_HGETALL rd k w) = rv_hash (V w) k" "rd_GET rd k w = rv_str (V w) k"
    "V (rd_SETEX rd k y n w) = set_str k (Some y) (V w)" "V (rd_EXPIRE rd k n w) = V w" "V (rd_DEL rd ks w) = del_keys ks (V w)"
  using assms unfolding redis_ok_def by simp_all

subsection \<open>The effect of the scripts\<close>

definition move_view :: "string \<Rightarrow> string \<Rightarrow> string \<Rightarrow> rview \<Rightarrow> rview" where
  "move_view x fromKey toKey v = set_member False fromKey x (set_member True toKey x v)"

lemma move_script_view:
  assumes "redis_ok rd V"
  shows "fst (move_script rd x fromKey toKey w) = (x \<in> rv_set (V w) fromKey \<or> fromKey = toKey)"
    "V (snd (move_script rd x fromKey toKey w)) =
      (if x \<in> rv_set (V w) fromKey \<or> fromKey = toKey then move_view x fromKey toKey (V w) else V w)"
proof -
  note D = redis_okD [OF assms]
  obtain added w1 where a: "rd_SADD rd toKey x w = (added, w1)" by (cases "rd_SADD rd toKey x w")
  obtain removed w2 where r: "rd_SREM rd fromKey x w1 = (removed, w2)" by (cases "rd_SREM rd fromKey x w1")
  have 1: "V w1 = set_member True toKey x (V w)" "added = (x \<notin> rv_set (V w) toKey)" using D(1,2) [of toKey x w] a by simp_all
  have 2: "V w2 = set_member False fromKey x (V w1)" "removed = (x \<in> rv_set (V w1) fromKey)" using D(3,4) [of fromKey x w1] r by simp_all
  have 3: "removed = (x \<in> rv_set (V w) fromKey \<or> fromKey = toKey)" using 1 2 by (auto simp: set_member_def)
  show "fst (move_script rd x fromKey toKey w) = (x \<in> rv_set (V w) fromKey \<or> fromKey = toKey)"
    using a r 3 by (simp add: move_script_def)
  have "set_member False toKey x (V w2) = V w" if "\<not> removed" "added"
    using that 1 2 3 by (cases "V w") (auto simp: set_member_def fun_eq_iff)
  moreover have "V w2 = V w" if "\<not> removed" "\<not> added"
    using that 1 2 3 by (cases "V w") (auto simp: set_member_def fun_eq_iff)
  ultimately show "V (snd (move_script rd x fromKey toKey w)) =
      (if x \<in> rv_set (V w) fromKey \<or> fromKey = toKey then move_view x fromKey toKey (V w) else V w)"
    using a r 1 2 3 D(3) by (simp add: move_script_def move_view_def)
qed

lemma stamp_script_sets: "redis_ok rd V \<Longrightarrow> rv_set (V (stamp_script rd k s t w)) = rv_set (V w)"
  by (simp add: stamp_script_def redis_okD set_fields_def Let_def split: option.split)

lemma stamp_script_hash:
  assumes "redis_ok rd V"
  shows "rv_hash (V (stamp_script rd k s t w)) k' = (if k' = k then rv_hash (V (stamp_script rd k s t w)) k else rv_hash (V w) k')"
    "rv_hash (V (stamp_script rd k s t w)) k ''status'' = Some s"
  by (auto simp: stamp_script_def stamp_field_def redis_okD [OF assms] set_fields_def Let_def split: option.split dest!: map_of_SomeD)

subsection \<open>A call\<close>

lemma run_call:
  "run_state (call rd f) w =
     (case fst (rd_net rd w) of
        NoFault \<Rightarrow> (Ok (fst (f (snd (rd_net rd w)))), snd (f (snd (rd_net rd w))))
      | NotDone \<Rightarrow> (Err (Text ''redis''), snd (rd_net rd w))
      | NoReply \<Rightarrow> (Err (Text ''redis''), snd (f (snd (rd_net rd w)))))"
  by (cases "rd_net rd w") (auto simp: call_def split: fault.split prod.split)

text \<open>A call keeps what the command keeps and what happens between calls keeps.\<close>

lemma keeps_call:
  assumes "\<And>w. P w \<Longrightarrow> P (snd (rd_net rd w))" "\<And>w. P w \<Longrightarrow> P (snd (f w)) \<and> Q (fst (f w))"
  shows "keeps P (call rd f) Q"
  using assms by (auto simp: keeps_def run_call split: fault.split)

lemma keeps_clock: "keeps_inv P (clock rd)"
  by (simp add: keeps_def clock_def)

lemma keeps_now: "keeps_inv P (now rd)"
  unfolding now_def by (intro keeps_chk_inv keeps_clock keeps_ok) simp

lemma keeps_lift: "(\<And>x. r = Inr x \<Longrightarrow> Q x) \<Longrightarrow> keeps P (lift r) Q"
  by (cases r) (auto simp: lift_def keeps_def)

subsection \<open>Locks\<close>

text \<open>A lock that is taken was free, and is released or extended by its holder only.\<close>

lemma lock_taken:
  assumes "redis_ok rd V" "run_state (AcquireTaskLock rd taskID instanceID secs) w = (Ok acquired, w')"
  shows "acquired \<longleftrightarrow> rv_str (V (snd (rd_net rd w))) (getTaskLockKey taskID) = None"
    "acquired \<Longrightarrow> rv_str (V w') (getTaskLockKey taskID) = Some instanceID"
  using assms(2) by (auto simp: AcquireTaskLock_def SetNX_def run_call redis_okD [OF assms(1)] set_str_def split: fault.splits if_splits)

lemma lock_released_by_holder:
  assumes "redis_ok rd V" "rv_str (V w) (getTaskLockKey taskID) = Some other" "other \<noteq> instanceID"
  shows "V (snd (release_script rd (getTaskLockKey taskID) instanceID w)) = V w"
  using assms(2,3) by (simp add: release_script_def redis_okD [OF assms(1)])

subsection \<open>A task is in one set\<close>

text \<open>A task is in at most one set, and its record, if there is one, carries a status; the tasks \<open>X\<close> are
  in the finalize set.\<close>

definition task_inv :: "string set \<Rightarrow> rview \<Rightarrow> bool" where
  "task_inv X v \<longleftrightarrow>
     (\<forall>x. \<forall>s\<in>set task_statuses. \<forall>s'\<in>set task_statuses. x \<in> rv_set v (getTaskSetKey s) \<and> x \<in> rv_set v (getTaskSetKey s') \<longrightarrow> s = s') \<and>
     (\<forall>taskID. rv_hash v (getTaskKey taskID) = Map.empty \<or> (\<exists>s\<in>set task_statuses. rv_hash v (getTaskKey taskID) ''status'' = Some s)) \<and>
     X \<subseteq> rv_set v (getTaskSetKey StatusFinalize)"

text \<open>Redis as documented, and other gateways that keep the invariant too.\<close>

definition safe :: "string set \<Rightarrow> 'w redis \<Rightarrow> ('w \<Rightarrow> rview) \<Rightarrow> bool" where
  "safe X rd V \<longleftrightarrow> redis_ok rd V \<and> (\<forall>w. task_inv X (V w) \<longrightarrow> task_inv X (V (snd (rd_net rd w))))"

abbreviation tkeeps :: "string set \<Rightarrow> ('w \<Rightarrow> rview) \<Rightarrow> ('w, 'a) act \<Rightarrow> ('a \<Rightarrow> bool) \<Rightarrow> bool" where
  "tkeeps X V m Q \<equiv> keeps (\<lambda>w. task_inv X (V w)) m Q"

lemma safe_call:
  assumes "safe X rd V" "\<And>w. task_inv X (V w) \<Longrightarrow> task_inv X (V (snd (f w))) \<and> Q (fst (f w))"
  shows "tkeeps X V (call rd f) Q"
  using assms by (intro keeps_call) (auto simp: safe_def)

lemma safe_ok: "safe X rd V \<Longrightarrow> redis_ok rd V"
  by (simp add: safe_def)

lemma task_inv_same:
  "rv_set v' = rv_set v \<Longrightarrow> (\<And>i. rv_hash v' (getTaskKey i) = rv_hash v (getTaskKey i)) \<Longrightarrow> task_inv X v' \<longleftrightarrow> task_inv X v"
  by (simp add: task_inv_def)

lemma key_ne [simp]:
  "getTaskKey i \<noteq> getFileKey j" "getFileKey j \<noteq> getTaskKey i" "getTaskKey i \<noteq> getShardKey t j" "getShardKey t j \<noteq> getTaskKey i"
  "getShardSetKey t st \<noteq> getTaskSetKey s" "getTaskSetKey s \<noteq> getShardSetKey t st" "getFileSetKey \<noteq> getTaskSetKey s"
  "getTaskSetKey s \<noteq> getFileSetKey" "getTaskSetKey s \<noteq> getFileKey f" "getTaskLockKey i \<noteq> getTaskSetKey s" "getShardLockKey i j \<noteq> getTaskSetKey s"
  "getTaskSetKey s \<noteq> getShardKey i j"
  by (simp_all add: key_defs)

lemma global_ne [simp]: "s \<in> set task_statuses \<Longrightarrow> getTaskSetKey s \<noteq> getGlobalTaskSetKey"
  by (auto simp: task_statuses_def key_defs)

lemma task_set_inj [simp]: "getTaskSetKey s = getTaskSetKey s' \<longleftrightarrow> s = s'"
  by (simp add: key_defs)

lemma task_key_inj [simp]: "getTaskKey s = getTaskKey s' \<longleftrightarrow> s = s'"
  by (simp add: key_defs)

lemma task_inv_set_str [simp]: "task_inv X (set_str k x v) \<longleftrightarrow> task_inv X v"
  by (simp add: task_inv_def set_str_def)

abbreviation fin_key :: string where "fin_key \<equiv> getTaskSetKey StatusFinalize"

lemma task_inv_del [simp]: "task_inv X v \<Longrightarrow> fin_key \<notin> set ks \<Longrightarrow> task_inv X (del_keys ks v)"
  by (auto simp: task_inv_def del_keys_def)

lemma task_inv_rem [simp]: "task_inv X v \<Longrightarrow> k \<noteq> fin_key \<or> x \<notin> X \<Longrightarrow> task_inv X (set_member False k x v)"
  by (auto simp: task_inv_def set_member_def)

lemma status_mem [simp]: "StatusFinalize \<in> set task_statuses"
  by (simp add: task_statuses_def)

lemma task_inv_add_other:
  assumes "task_inv X v" "\<And>s. s \<in> set task_statuses \<Longrightarrow> k \<noteq> getTaskSetKey s"
  shows "task_inv X (set_member True k x v)"
proof -
  have k: "rv_set (set_member True k x v) (getTaskSetKey s) = rv_set v (getTaskSetKey s)" if "s \<in> set task_statuses" for s
    using assms(2) [OF that] by (simp add: set_member_def)
  have h: "rv_hash (set_member True k x v) = rv_hash v" by (simp add: set_member_def)
  show ?thesis using assms(1) unfolding task_inv_def h by (simp add: k)
qed

lemma task_inv_fields_other: "task_inv X v \<Longrightarrow> (\<And>i. k \<noteq> getTaskKey i) \<Longrightarrow> task_inv X (set_fields k m v)"
  by (auto simp: task_inv_def set_fields_def)

lemma task_inv_fields:
  assumes "task_inv X v" "mget m ''status'' = Some s" "s \<in> set task_statuses"
  shows "task_inv X (set_fields (getTaskKey i) m v)"
  using assms by (auto simp: task_inv_def set_fields_def map_add_def)

text \<open>A move that does not take one of the tasks \<open>X\<close> out of the finalize set.\<close>

definition movable :: "string set \<Rightarrow> string \<Rightarrow> BatchTaskStatus \<Rightarrow> BatchTaskStatus \<Rightarrow> bool" where
  "movable X i from to \<longleftrightarrow> from \<in> set task_statuses \<and> to \<in> set task_statuses \<and> (i \<notin> X \<or> from \<noteq> StatusFinalize \<and> from \<noteq> to)"

lemma task_inv_move:
  assumes "task_inv X v" "x \<in> rv_set v (getTaskSetKey from) \<or> from = to" "movable X x from to"
  shows "task_inv X (move_view x (getTaskSetKey from) (getTaskSetKey to) v)" "x \<notin> X"
proof -
  have sets: "rv_set (move_view x (getTaskSetKey from) (getTaskSetKey to) v) (getTaskSetKey s) =
      (if s = from then rv_set v (getTaskSetKey s) - {x} else if s = to then insert x (rv_set v (getTaskSetKey s)) else rv_set v (getTaskSetKey s))" for s
    by (auto simp: move_view_def set_member_def)
  have hash: "rv_hash (move_view x (getTaskSetKey from) (getTaskSetKey to) v) = rv_hash v" by (simp add: move_view_def set_member_def)
  show x: "x \<notin> X" using assms status_mem unfolding task_inv_def movable_def by blast
  have "X \<subseteq> rv_set (move_view x (getTaskSetKey from) (getTaskSetKey to) v) fin_key"
    using assms(1) x unfolding task_inv_def sets by auto
  then show "task_inv X (move_view x (getTaskSetKey from) (getTaskSetKey to) v)"
    using assms unfolding task_inv_def movable_def sets hash by (auto split: if_splits)
qed

lemma tkeeps_reads:
  assumes "safe X rd V"
  shows "tkeeps X V (HGetAll rd k) (\<lambda>_. True)" "tkeeps X V (SMembers rd k) (\<lambda>_. True)" "tkeeps X V (SIsMember rd k x) (\<lambda>_. True)"
    "tkeeps X V (SRandMember rd k) (\<lambda>_. True)" "tkeeps X V (lock_owner rd k) (\<lambda>_. True)" "tkeeps X V (CheckIfAllShardsAreCompleted rd i) (\<lambda>_. True)"
  unfolding HGetAll_def SMembers_def SIsMember_def SRandMember_def lock_owner_def CheckIfAllShardsAreCompleted_def
  by (rule safe_call [OF assms]; simp add: redis_okD [OF safe_ok [OF assms]])+

lemma tkeeps_HGet1: "safe X rd V \<Longrightarrow> tkeeps X V (HGet1 rd k f) (\<lambda>_. True)"
  unfolding HGet1_def
  by (rule keeps_chk_inv) (auto intro!: safe_call keeps_ok keeps_fail split: option.split)

lemma tkeeps_writes:
  assumes "safe X rd V"
  shows "k \<noteq> fin_key \<Longrightarrow> tkeeps X V (SRem rd k x) (\<lambda>_. True)" "fin_key \<notin> set ks \<Longrightarrow> tkeeps X V (Del rd ks) (\<lambda>_. True)" "tkeeps X V (SetNX rd k x n) (\<lambda>_. True)"
    "(\<And>s. s \<in> set task_statuses \<Longrightarrow> k \<noteq> getTaskSetKey s) \<Longrightarrow> tkeeps X V (SAdd rd k x) (\<lambda>_. True)"
    "(\<And>i. k \<noteq> getTaskKey i) \<Longrightarrow> tkeeps X V (HSet rd k m) (\<lambda>_. True)"
    "mget m ''status'' = Some s \<Longrightarrow> s \<in> set task_statuses \<Longrightarrow> tkeeps X V (HSet rd (getTaskKey i) m) (\<lambda>_. True)"
    "k \<noteq> fin_key \<Longrightarrow> tkeeps X V (call rd (release_script rd k x)) (\<lambda>_. True)" "tkeeps X V (call rd (extend_script rd k x n)) (\<lambda>_. True)"
    "tkeeps X V (call rd (recover_script rd k x n)) (\<lambda>_. True)"
  unfolding SRem_def Del_def SetNX_def SAdd_def HSet_def release_script_def extend_script_def recover_script_def
  by (rule safe_call [OF assms];
      auto simp: redis_okD [OF safe_ok [OF assms]] intro: task_inv_add_other task_inv_fields_other task_inv_fields split: option.split)+

lemma tkeeps_status: "safe X rd V \<Longrightarrow> tkeeps X V (GetTaskStatus rd i) (\<lambda>s. s \<in> set task_statuses)"
  unfolding GetTaskStatus_def HGet1_def
  apply (rule keeps_chk [where Q = "\<lambda>v. \<forall>s. v = Some s \<longrightarrow> s \<in> set task_statuses"])
   apply (rule safe_call, assumption)
   apply (auto simp: redis_okD [OF safe_ok] task_inv_def dest!: spec [of _ i])[1]
  apply (auto intro: keeps_ok keeps_fail split: option.split)
  done

lemma task_of_status:
  assumes "task_of js values = Inr t" "map_of values = h" "h = Map.empty \<or> (\<exists>s\<in>set task_statuses. h ''status'' = Some s)"
  shows "bt_Status t \<in> set task_statuses" "bt_UpdatedAt t \<noteq> None"
proof -
  from assms(1) have "values \<noteq> []" by (auto simp: task_of_def)
  with assms(2,3) have "field values ''status'' \<in> set task_statuses" by (auto simp: field_def)
  with assms(1) show "bt_Status t \<in> set task_statuses" "bt_UpdatedAt t \<noteq> None" by (auto simp: task_of_def split: if_splits sum.splits)
qed

lemma tkeeps_GetTask: "safe X rd V \<Longrightarrow> tkeeps X V (GetTask rd js i) (\<lambda>t. bt_Status t \<in> set task_statuses \<and> bt_UpdatedAt t \<noteq> None)"
  unfolding GetTask_def HGetAll_def
  apply (rule keeps_chk [where Q = "\<lambda>values. map_of values = Map.empty \<or> (\<exists>s\<in>set task_statuses. map_of values ''status'' = Some s)"])
   apply (rule safe_call, assumption)
   apply (simp add: redis_okD [OF safe_ok] task_inv_def)
  apply (rule keeps_lift)
  apply (simp add: task_of_status [OF _ refl])
  done

lemma tkeeps_gets:
  assumes "safe X rd V"
  shows "tkeeps X V (GetTasksInStatus rd s) (\<lambda>_. True)" "tkeeps X V (TaskInSet rd s i) (\<lambda>_. True)" "tkeeps X V (GetTaskInStatus rd s) (\<lambda>_. True)"
    "tkeeps X V (GetShardsInStatus rd i st) (\<lambda>_. True)" "tkeeps X V (GetShardInStatus rd i st) (\<lambda>_. True)" "tkeeps X V (GetFileShard rd js i j) (\<lambda>_. True)"
    "tkeeps X V (GetFile rd f) (\<lambda>_. True)" "tkeeps X V (GetAllFiles rd) (\<lambda>_. True)" "tkeeps X V (GetAllTasks rd) (\<lambda>_. True)"
    "tkeeps X V (GetTaskExpiresAt rd i) (\<lambda>_. True)"
  unfolding GetTasksInStatus_def TaskInSet_def GetTaskInStatus_def GetShardsInStatus_def GetShardInStatus_def GetFileShard_def GetFile_def
    GetAllFiles_def GetAllTasks_def GetTaskExpiresAt_def one_of_def
  by (auto intro!: keeps_chk_inv tkeeps_reads [OF assms] tkeeps_HGet1 [OF assms] keeps_lift keeps_ok keeps_fail split: list.split option.split)

text \<open>A task found in another set is none of \<open>X\<close>.\<close>

lemma other_set:
  assumes "task_inv X v" "s \<in> set task_statuses" "s \<noteq> StatusFinalize" "i \<in> rv_set v (getTaskSetKey s)"
  shows "i \<notin> X"
  using assms status_mem unfolding task_inv_def by blast

lemma tkeeps_found:
  assumes "safe X rd V" "s \<in> set task_statuses" "s \<noteq> StatusFinalize"
  shows "tkeeps X V (GetTasksInStatus rd s) (\<lambda>ids. set ids \<inter> X = {})" "tkeeps X V (GetTaskInStatus rd s) (\<lambda>i. i \<notin> X)"
proof -
  note D = redis_okD [OF safe_ok [OF assms(1)]]
  show "tkeeps X V (GetTasksInStatus rd s) (\<lambda>ids. set ids \<inter> X = {})"
    unfolding GetTasksInStatus_def SMembers_def
    by (rule safe_call [OF assms(1)]) (auto simp: D dest: other_set [OF _ assms(2,3)])
  have "tkeeps X V (SRandMember rd (getTaskSetKey s)) (\<lambda>ids. set ids \<inter> X = {})"
    unfolding SRandMember_def
  proof (rule safe_call [OF assms(1)])
    fix w
    assume i: "task_inv X (V w)"
    have "i \<notin> X" if "i \<in> set (fst (rd_SRANDMEMBER rd (getTaskSetKey s) w))" for i
      using other_set [OF i assms(2,3)] subsetD [OF D(8) that] .
    with i show "task_inv X (V (snd (rd_SRANDMEMBER rd (getTaskSetKey s) w))) \<and> set (fst (rd_SRANDMEMBER rd (getTaskSetKey s) w)) \<inter> X = {}"
      by (auto simp: D)
  qed
  then show "tkeeps X V (GetTaskInStatus rd s) (\<lambda>i. i \<notin> X)"
    unfolding GetTaskInStatus_def one_of_def by (rule keeps_chk) (auto intro: keeps_ok keeps_fail split: list.split)
qed

lemma tkeeps_expired_in: "safe X rd V \<Longrightarrow> set ids \<inter> X = {} \<Longrightarrow> tkeeps X V (expired_in rd n ids) (\<lambda>xs. set xs \<inter> X = {})"
proof (induction ids)
  case (Cons i ids)
  then have "tkeeps X V (expired_in rd n ids) (\<lambda>xs. set xs \<inter> X = {})" by simp
  with Cons.prems show ?case
    by (auto intro!: keeps_attempt_inv tkeeps_gets keeps_ok keeps_chk [where Q = "\<lambda>xs. set xs \<inter> X = {}"] split: if_splits)
qed (simp add: keeps_ok)

lemma tkeeps_GetExpiredTasks:
  assumes "safe X rd V" "set ss \<subseteq> set task_statuses - {StatusFinalize}"
  shows "tkeeps X V (GetExpiredTasks rd ss) (\<lambda>xs. set xs \<inter> X = {})"
proof -
  have "tkeeps X V (expired_among rd n ss) (\<lambda>xs. set xs \<inter> X = {})" for n
    using assms(2)
  proof (induction ss)
    case (Cons s ss)
    then have ih: "tkeeps X V (expired_among rd n ss) (\<lambda>xs. set xs \<inter> X = {})" and s: "s \<in> set task_statuses" "s \<noteq> StatusFinalize" by auto
    show ?case
      unfolding expired_among.simps
      by (rule keeps_chk [OF tkeeps_found(1) [OF assms(1) s]], rule keeps_chk [OF tkeeps_expired_in [OF assms(1)]], assumption,
          rule keeps_chk [OF ih]) (auto intro!: keeps_ok)
  qed (simp add: keeps_ok)
  then show ?thesis unfolding GetExpiredTasks_def by (intro keeps_chk_inv keeps_clock)
qed

lemma keeps_moved: "keeps P m (\<lambda>d. d \<longrightarrow> Q) \<Longrightarrow> keeps P (moved m) (\<lambda>_. Q)"
  unfolding moved_def by (erule keeps_chk) (auto intro: keeps_ok keeps_fail)

lemma stamp_inv:
  assumes "redis_ok rd V" "to \<in> set task_statuses" "task_inv X (V w)"
  shows "task_inv X (V (stamp_script rd (getTaskKey i) to t w))"
proof -
  have "\<exists>s\<in>set task_statuses. rv_hash (V (stamp_script rd (getTaskKey i) to t w)) (getTaskKey i) ''status'' = Some s"
    using assms(2) stamp_script_hash(2) [OF assms(1)] by blast
  moreover have "rv_hash (V (stamp_script rd (getTaskKey i) to t w)) (getTaskKey j) = rv_hash (V w) (getTaskKey j)" if "j \<noteq> i" for j
    using that by (subst stamp_script_hash(1) [OF assms(1)]) simp
  ultimately have "rv_hash (V (stamp_script rd (getTaskKey i) to t w)) (getTaskKey j) = Map.empty \<or>
      (\<exists>s\<in>set task_statuses. rv_hash (V (stamp_script rd (getTaskKey i) to t w)) (getTaskKey j) ''status'' = Some s)" for j
    using assms(3) by (cases "j = i") (simp_all add: task_inv_def)
  with assms(3) show ?thesis unfolding task_inv_def stamp_script_sets [OF assms(1)] by blast
qed

text \<open>A task that a move has taken is none of \<open>X\<close>.\<close>

lemma tkeeps_move:
  assumes "safe X rd V" "movable X i from to"
  shows "tkeeps X V (MoveTaskAndUpdateStatusAtomically rd i from to) (\<lambda>_. i \<notin> X)" "tkeeps X V (MoveTaskAtomically rd i from to) (\<lambda>_. i \<notin> X)"
proof -
  note R = safe_ok [OF assms(1)]
  have m: "task_inv X (V (snd (move_script rd i (getTaskSetKey from) (getTaskSetKey to) w))) \<and>
      (fst (move_script rd i (getTaskSetKey from) (getTaskSetKey to) w) \<longrightarrow> i \<notin> X)" if "task_inv X (V w)" for w
    using that task_inv_move [OF that _ assms(2)] by (simp add: move_script_view [OF R])
  show "tkeeps X V (MoveTaskAtomically rd i from to) (\<lambda>_. i \<notin> X)"
    unfolding MoveTaskAtomically_def by (intro keeps_moved safe_call [OF assms(1)]) (rule m)
  have s: "task_inv X (V (snd (case move_script rd i (getTaskSetKey from) (getTaskSetKey to) w of
         (False, w) \<Rightarrow> (False, w) | (True, w) \<Rightarrow> (True, stamp_script rd (getTaskKey i) to t w)))) \<and>
      (fst (case move_script rd i (getTaskSetKey from) (getTaskSetKey to) w of
         (False, w) \<Rightarrow> (False, w) | (True, w) \<Rightarrow> (True, stamp_script rd (getTaskKey i) to t w)) \<longrightarrow> i \<notin> X)" if "task_inv X (V w)" for w t
  proof -
    obtain d w1 where 1: "move_script rd i (getTaskSetKey from) (getTaskSetKey to) w = (d, w1)"
      by (cases "move_script rd i (getTaskSetKey from) (getTaskSetKey to) w")
    with m [OF that] assms(2) stamp_inv [OF R, of to X w1 i t] show ?thesis by (cases d) (auto simp: movable_def)
  qed
  show "tkeeps X V (MoveTaskAndUpdateStatusAtomically rd i from to) (\<lambda>_. i \<notin> X)"
    unfolding MoveTaskAndUpdateStatusAtomically_def
    by (intro keeps_chk_inv keeps_now keeps_moved safe_call [OF assms(1)]) (rule s)
qed

lemma tkeeps_move_shard: "safe X rd V \<Longrightarrow> tkeeps X V (MoveShardAtomically rd i j from to) (\<lambda>_. True)"
  unfolding MoveShardAtomically_def
  by (intro keeps_moved [where Q = True] safe_call) (auto simp: move_script_view [OF safe_ok] move_view_def intro!: task_inv_rem task_inv_add_other)

text \<open>The fields of a record that is written.\<close>

definition getm :: "string \<Rightarrow> batch_err + (string, string) gmap \<Rightarrow> string option" where
  "getm k x = (case x of Inl _ \<Rightarrow> None | Inr m \<Rightarrow> mget m k)"

fun first_mget :: "string \<Rightarrow> (batch_err + (string, string) gmap) list \<Rightarrow> string option" where
  "first_mget k [] = None"
| "first_mget k (x # xs) = (case getm k x of Some v \<Rightarrow> Some v | None \<Rightarrow> first_mget k xs)"

lemma collect_mget: "collect xs = Inr m \<Longrightarrow> mget m k = first_mget k xs"
  by (induction xs arbitrary: m rule: collect.induct) (auto simp: getm_def map_add_def split: sum.splits option.splits)

lemma getm_simps [simp]:
  "getm k (Inr m) = mget m k"
  "getm k (opt_field k' f x) = (if k = k' then map_option f x else None)"
  "getm k (json_field k' g y) = (if k = k' then Option.bind y g else None)"
  by (auto simp: getm_def opt_field_def json_field_def split: option.splits)

lemma first_mget_append: "first_mget k (xs @ ys) = (case first_mget k xs of Some v \<Rightarrow> Some v | None \<Rightarrow> first_mget k ys)"
  by (induction xs) (auto split: option.splits)

lemma update_fields_status: "update_fields js t u = Inr m \<Longrightarrow> mget m ''status'' = Some (bt_Status t)"
  unfolding update_fields_def by (drule collect_mget [where k = "''status''"]) (simp add: time_fields_def)

lemma task_fields_status: "task_fields js t c u = Inr m \<Longrightarrow> mget m ''status'' = Some (bt_Status t)"
  unfolding task_fields_def by (drule collect_mget [where k = "''status''"]) simp

lemma tkeeps_updates:
  assumes "safe X rd V"
  shows "bt_Status t \<in> set task_statuses \<Longrightarrow> tkeeps X V (UpdateTaskFields rd js i t) (\<lambda>_. True)"
    "tkeeps X V (UpdateTaskFailure rd js i es) (\<lambda>_. True)" "tkeeps X V (CreateFile rd f) (\<lambda>_. True)" "tkeeps X V (DeleteFile rd fid) (\<lambda>_. True)"
    "tkeeps X V (CreateOrUpdateFileShard rd js i j sh) (\<lambda>_. True)" "tkeeps X V (AddShardToPendingList rd i j) (\<lambda>_. True)"
    "tkeeps X V (RemoveShardInfo rd i st) (\<lambda>_. True)"
proof -
  show "tkeeps X V (UpdateTaskFields rd js i t) (\<lambda>_. True)" if "bt_Status t \<in> set task_statuses"
    unfolding UpdateTaskFields_def using that
    by (auto split: option.split intro!: keeps_fail keeps_chk [where Q = "\<lambda>m. mget m ''status'' = Some (bt_Status t)"] keeps_lift
        tkeeps_writes(6) [OF assms] update_fields_status)
  show "tkeeps X V (UpdateTaskFailure rd js i es) (\<lambda>_. True)"
    unfolding UpdateTaskFailure_def
    by (intro keeps_chk_inv keeps_now tkeeps_writes(6) [OF assms, where s = StatusFailed]) (simp_all add: task_statuses_def)
  show "tkeeps X V (CreateFile rd f) (\<lambda>_. True)" "tkeeps X V (DeleteFile rd fid) (\<lambda>_. True)"
    unfolding CreateFile_def DeleteFile_def by (intro keeps_chk_inv tkeeps_writes [OF assms]; simp)+
  show "tkeeps X V (CreateOrUpdateFileShard rd js i j sh) (\<lambda>_. True)"
    unfolding CreateOrUpdateFileShard_def
    by (auto split: option.split intro!: keeps_fail keeps_chk_inv keeps_lift tkeeps_writes [OF assms])
  show "tkeeps X V (AddShardToPendingList rd i j) (\<lambda>_. True)" "tkeeps X V (RemoveShardInfo rd i st) (\<lambda>_. True)"
    unfolding AddShardToPendingList_def RemoveShardInfo_def by (intro keeps_chk_inv tkeeps_gets [OF assms] tkeeps_writes [OF assms]; auto)+
qed

lemma tkeeps_locks:
  assumes "safe X rd V"
  shows "tkeeps X V (AcquireTaskLock rd i ow n) (\<lambda>_. True)" "tkeeps X V (ReleaseTaskLock rd i ow) (\<lambda>_. True)" "tkeeps X V (ExtendTaskLock rd i ow n) (\<lambda>_. True)"
    "tkeeps X V (AcquireShardLock rd i j ow u n) (\<lambda>_. True)" "tkeeps X V (ExtendShardLock rd i j ow u n) (\<lambda>_. True)"
    "tkeeps X V (AcquireOrRecoverShardLock rd i j ow u n) (\<lambda>_. True)" "tkeeps X V (ReleaseShardLock rd i j ow u) (\<lambda>_. True)"
  unfolding AcquireTaskLock_def ReleaseTaskLock_def ExtendTaskLock_def AcquireShardLock_def ExtendShardLock_def AcquireOrRecoverShardLock_def
    ReleaseShardLock_def
  by (rule tkeeps_writes [OF assms]; simp)+

lemmas tkeeps_store = tkeeps_gets tkeeps_move_shard tkeeps_updates(2-) tkeeps_locks

subsection \<open>A task is read as it was written\<close>

text \<open>No call is lost, and no other gateway acts.\<close>

definition quiet :: "'w redis \<Rightarrow> ('w \<Rightarrow> rview) \<Rightarrow> bool" where
  "quiet rd V \<longleftrightarrow> (\<forall>w. fst (rd_net rd w) = NoFault \<and> V (snd (rd_net rd w)) = V w)"

lemma run_quiet:
  assumes "quiet rd V"
  obtains w1 where "run_state (call rd f) w = (Ok (fst (f w1)), snd (f w1))" "V w1 = V w"
  using assms that [of "snd (rd_net rd w)"] by (simp add: quiet_def run_call)

lemma run_HSet:
  assumes "redis_ok rd V" "quiet rd V"
  obtains w1 where "run_state (HSet rd k m) w = (Ok (), w1)" "V w1 = set_fields k m (V w)"
  by (rule run_quiet [OF assms(2), of "\<lambda>w. ((), rd_HSET rd k m w)" w]) (auto simp: HSet_def redis_okD [OF assms(1)] intro: that)

lemma run_SAdd:
  assumes "redis_ok rd V" "quiet rd V"
  obtains w1 where "run_state (SAdd rd k x) w = (Ok (), w1)" "V w1 = set_member True k x (V w)"
  by (rule run_quiet [OF assms(2), of "\<lambda>w. ((), snd (rd_SADD rd k x w))" w]) (auto simp: SAdd_def redis_okD [OF assms(1)] intro: that)

lemma run_HGetAll:
  assumes "redis_ok rd V" "quiet rd V"
  obtains w1 vs where "run_state (HGetAll rd k) w = (Ok vs, w1)" "map_of vs = rv_hash (V w) k" "V w1 = V w"
  by (rule run_quiet [OF assms(2), of "\<lambda>w. (rd_HGETALL rd k w, w)" w]) (auto simp: HGetAll_def redis_okD [OF assms(1)] intro: that)

text \<open>What JSON has to do for a value: the text is not empty and decodes to it.\<close>

definition codes :: "('a \<Rightarrow> string option) \<Rightarrow> (string \<Rightarrow> 'b) \<Rightarrow> ('a \<Rightarrow> 'b) \<Rightarrow> 'a option \<Rightarrow> bool" where
  "codes enc dec f x = (case x of None \<Rightarrow> True | Some v \<Rightarrow> (case enc v of None \<Rightarrow> False | Some s \<Rightarrow> s \<noteq> [] \<and> dec s = f v))"

definition json_ok :: "json \<Rightarrow> BatchTask \<Rightarrow> bool" where
  "json_ok js t \<longleftrightarrow> codes (js_counts js) (js_unCounts js) Some (bt_RequestCounts t) \<and> codes (js_usage js) (js_unUsage js) Some (bt_Usage t) \<and>
     codes (js_meta js) (js_unMeta js) (\<lambda>m. (m, True)) (if bt_Metadata t = [] then None else Some (bt_Metadata t)) \<and>
     codes (js_errors js) (js_unErrors js) Some (bt_Errors t) \<and> codes (js_expires js) (js_unExpires js) Some (bt_OutputExpiresAfter t)"

text \<open>An empty string is not told from a missing one.\<close>

definition drop_empty :: "string option \<Rightarrow> string option" where
  "drop_empty x = (if x = Some [] then None else x)"

definition shown :: "BatchTask \<Rightarrow> BatchTask" where
  "shown t = t\<lparr>bt_OutputFileID := drop_empty (bt_OutputFileID t), bt_ErrorFileID := drop_empty (bt_ErrorFileID t), bt_Token := drop_empty (bt_Token t)\<rparr>"

lemma show64_ne [simp]: "show64 x \<noteq> []"
proof
  assume "show64 x = []"
  then have "ParseInt [] = Some x" using ParseInt_show64 [of x] by simp
  then show False by (simp add: ParseInt_def Atoi_def)
qed

lemma collect_total: "list_all (\<lambda>x. \<exists>m. x = Inr m) xs \<Longrightarrow> \<exists>m. collect xs = Inr m"
  by (induction xs) auto

lemma json_field_total: "codes enc dec f x \<Longrightarrow> \<exists>m. json_field k enc x = Inr m"
  by (auto simp: codes_def json_field_def split: option.splits)

lemma task_fields_total: "json_ok js t \<Longrightarrow> \<exists>m. task_fields js t c u = Inr m"
  unfolding task_fields_def
  by (rule collect_total) (auto simp: json_ok_def time_fields_def opt_field_def intro: json_field_total split: if_splits)

lemma task_fields_read:
  assumes m: "task_fields js t c u = Inr m" and v: "map_of values = map_of m" and j: "json_ok js t"
    and "bt_CreatedAt t = Some c" "bt_UpdatedAt t = Some u"
  shows "task_of js values = Inr (shown t)"
proof -
  have g: "mget values k = first_mget k ([Inr [(''id'', bt_ID t), (''object'', bt_Object t), (''endpoint'', bt_Endpoint t), (''model'', bt_Model t),
                    (''errors'', marshalBatchErrors js (bt_Errors t)), (''input_file_id'', bt_InputFileID t),
                    (''completion_window'', bt_CompletionWindow t), (''status'', bt_Status t), (''created_at'', show64 c),
                    (''expires_at'', show64 (bt_ExpiresAt t)), (''updated_at'', show64 u)],
               opt_field ''output_file_id'' id (bt_OutputFileID t), opt_field ''error_file_id'' id (bt_ErrorFileID t)]
              @ time_fields t
              @ [json_field ''metadata'' (js_meta js) (if 0 < length (bt_Metadata t) then Some (bt_Metadata t) else None),
                 json_field ''request_counts'' (js_counts js) (bt_RequestCounts t), json_field ''usage'' (js_usage js) (bt_Usage t),
                 json_field ''output_expires_after'' (js_expires js) (bt_OutputExpiresAfter t), opt_field ''token'' id (bt_Token t)])" for k
    using collect_mget [OF m [unfolded task_fields_def], of k] v by simp
  have ne: "values \<noteq> []" using g [of "''id''"] by auto
  have str: "opt_str values ''output_file_id'' = drop_empty (bt_OutputFileID t)" "opt_str values ''error_file_id'' = drop_empty (bt_ErrorFileID t)"
    "opt_str values ''token'' = drop_empty (bt_Token t)"
    by (auto simp: opt_str_def drop_empty_def g time_fields_def split: option.splits)
  have time: "opt_time values ''in_progress_at'' = bt_InProgressAt t" "opt_time values ''finalizing_at'' = bt_FinalizingAt t"
    "opt_time values ''completed_at'' = bt_CompletedAt t" "opt_time values ''failed_at'' = bt_FailedAt t" "opt_time values ''expired_at'' = bt_ExpiredAt t"
    "opt_time values ''cancelling_at'' = bt_CancellingAt t" "opt_time values ''cancelled_at'' = bt_CancelledAt t"
    by (auto simp: opt_time_def g time_fields_def split: option.splits)
  have plain: "field values ''id'' = bt_ID t" "field values ''object'' = bt_Object t" "field values ''endpoint'' = bt_Endpoint t"
    "field values ''model'' = bt_Model t" "field values ''input_file_id'' = bt_InputFileID t" "field values ''completion_window'' = bt_CompletionWindow t"
    "field values ''status'' = bt_Status t" "req_time values ''created_at'' = Inr c" "req_time values ''expires_at'' = Inr (bt_ExpiresAt t)"
    "req_time values ''updated_at'' = Inr u"
    by (simp_all add: field_def req_time_def g)
  have get: "mget values ''request_counts'' = Option.bind (bt_RequestCounts t) (js_counts js)" "mget values ''usage'' = Option.bind (bt_Usage t) (js_usage js)"
    "mget values ''errors'' = Some (marshalBatchErrors js (bt_Errors t))"
    "mget values ''metadata'' = (if bt_Metadata t = [] then None else js_meta js (bt_Metadata t))"
    "mget values ''output_expires_after'' = Option.bind (bt_OutputExpiresAfter t) (js_expires js)"
    by (simp_all add: g time_fields_def split: option.split)
  note c = j [unfolded json_ok_def]
  have json: "opt_json values ''request_counts'' (js_unCounts js) = Inr (bt_RequestCounts t)" "opt_json values ''usage'' (js_unUsage js) = Inr (bt_Usage t)"
    using c by (auto simp: codes_def opt_json_def opt_str_def get split: option.splits)
  have errors: "errors_of js values = bt_Errors t"
    using c by (cases "bt_Errors t") (auto simp: codes_def errors_of_def opt_str_def get marshalBatchErrors_def split: option.splits)
  have meta: "meta_of js values = bt_Metadata t"
    using c by (cases "bt_Metadata t") (auto simp: codes_def meta_of_def opt_str_def get split: option.splits)
  have expires: "(case opt_str values ''output_expires_after'' of None \<Rightarrow> None | Some v \<Rightarrow> js_unExpires js v) = bt_OutputExpiresAfter t"
    using c by (cases "bt_OutputExpiresAfter t") (auto simp: codes_def opt_str_def get split: option.splits)
  from assms(4,5) show ?thesis
    by (simp add: task_of_def ne str time plain json errors meta expires shown_def)
qed

text \<open>C14. A task stored is the task read back: a pending task written by \<open>CreateTask\<close> is returned by \<open>GetTask\<close> with every
  field, an empty optional string aside, and is found in the pending and in the global set.\<close>

theorem task_roundtrip:
  assumes "redis_ok rd V" "quiet rd V" "json_ok js t" "bt_CreatedAt t = Some c" "bt_UpdatedAt t = Some u"
    "rv_hash (V w) (getTaskKey (bt_ID t)) = Map.empty"
  shows "\<exists>w'. run_state (CreateTask rd js t) w = (Ok (), w') \<and> fst (run_state (GetTask rd js (bt_ID t)) w') = Ok (shown t) \<and>
    bt_ID t \<in> rv_set (V w') (getTaskSetKey StatusPending) \<and> bt_ID t \<in> rv_set (V w') getGlobalTaskSetKey"
proof -
  from task_fields_total [OF assms(3)] obtain m where m: "task_fields js t c u = Inr m" by blast
  let ?i = "bt_ID t"
  obtain w1 where 1: "run_state (HSet rd (getTaskKey ?i) m) w = (Ok (), w1)" "V w1 = set_fields (getTaskKey ?i) m (V w)"
    by (rule run_HSet [OF assms(1,2)])
  obtain w2 where 2: "run_state (SAdd rd getGlobalTaskSetKey ?i) w1 = (Ok (), w2)" "V w2 = set_member True getGlobalTaskSetKey ?i (V w1)"
    by (rule run_SAdd [OF assms(1,2)])
  obtain w3 where 3: "run_state (SAdd rd (getTaskSetKey StatusPending) ?i) w2 = (Ok (), w3)" "V w3 = set_member True (getTaskSetKey StatusPending) ?i (V w2)"
    by (rule run_SAdd [OF assms(1,2)])
  obtain w4 vs where 4: "run_state (HGetAll rd (getTaskKey ?i)) w3 = (Ok vs, w4)" "map_of vs = rv_hash (V w3) (getTaskKey ?i)"
    by (rule run_HGetAll [OF assms(1,2)])
  from 1 2 3 have h: "rv_hash (V w3) (getTaskKey ?i) = map_of m" by (simp add: set_member_def set_fields_def assms(6))
  have c: "run_state (CreateTask rd js t) w = (Ok (), w3)"
    using 1 2 3 m assms(4,5) by (simp add: CreateTask_def run_chk lift_def)
  have "fst (run_state (GetTask rd js ?i) w3) = Ok (shown t)"
    using 4 task_fields_read [OF m _ assms(3-5)] h by (simp add: GetTask_def run_chk lift_def)
  with c 2 3 show ?thesis by (auto simp: set_member_def)
qed

subsection \<open>A Redis in memory\<close>

record mem =
  mm_set :: "string \<Rightarrow> string list"
  mm_hash :: "string \<Rightarrow> (string, string) gmap"
  mm_str :: "string \<Rightarrow> string option"

definition mem_redis :: "mem redis" where
  "mem_redis = \<lparr>rd_net = (\<lambda>w. (NoFault, w)), rd_nano = (\<lambda>_. 10 ^ 9),
     rd_SADD = (\<lambda>k x w. (x \<notin> set (mm_set w k), w\<lparr>mm_set := (mm_set w)(k := List.insert x (mm_set w k))\<rparr>)),
     rd_SREM = (\<lambda>k x w. (x \<in> set (mm_set w k), w\<lparr>mm_set := (mm_set w)(k := removeAll x (mm_set w k))\<rparr>)),
     rd_SMEMBERS = (\<lambda>k w. remdups (mm_set w k)),
     rd_SRANDMEMBER = (\<lambda>k w. (take 1 (mm_set w k), w)),
     rd_HSET = (\<lambda>k m w. w\<lparr>mm_hash := (mm_hash w)(k := m @ mm_hash w k)\<rparr>),
     rd_HGETALL = (\<lambda>k w. mm_hash w k), rd_GET = (\<lambda>k w. mm_str w k),
     rd_SETEX = (\<lambda>k x n w. w\<lparr>mm_str := (mm_str w)(k := Some x)\<rparr>), rd_EXPIRE = (\<lambda>k n w. w), rd_TTL = (\<lambda>k w. 1),
     rd_DEL = (\<lambda>ks w. \<lparr>mm_set = (\<lambda>k. if k \<in> set ks then [] else mm_set w k), mm_hash = (\<lambda>k. if k \<in> set ks then [] else mm_hash w k),
       mm_str = (\<lambda>k. if k \<in> set ks then None else mm_str w k)\<rparr>)\<rparr>"

definition mem_view :: "mem \<Rightarrow> rview" where
  "mem_view w = \<lparr>rv_set = (\<lambda>k. set (mm_set w k)), rv_hash = (\<lambda>k. map_of (mm_hash w k)), rv_str = mm_str w\<rparr>"

definition mem_empty :: mem where
  "mem_empty = \<lparr>mm_set = (\<lambda>_. []), mm_hash = (\<lambda>_. []), mm_str = (\<lambda>_. None)\<rparr>"

lemma mem_redis_ok: "redis_ok mem_redis mem_view"
  by (auto simp: redis_ok_def mem_redis_def mem_view_def set_member_def set_fields_def set_str_def del_keys_def fun_eq_iff take_Suc
      split: list.split dest!: in_set_takeD)

lemma mem_quiet: "quiet mem_redis mem_view"
  by (simp add: quiet_def mem_redis_def)

definition ex_task :: BatchTask where
  "ex_task = \<lparr>bt_ID = ''batch_1'', bt_Object = ''batch'', bt_Endpoint = ''/v1/completions'', bt_Model = ''m'', bt_Errors = None, bt_InputFileID = ''f'',
     bt_CompletionWindow = ''24h'', bt_Status = StatusPending, bt_OutputFileID = None, bt_ErrorFileID = None, bt_CreatedAt = Some 7, bt_InProgressAt = None,
     bt_ExpiresAt = 86407, bt_FinalizingAt = None, bt_CompletedAt = None, bt_FailedAt = None, bt_ExpiredAt = None, bt_CancellingAt = None,
     bt_CancelledAt = None, bt_RequestCounts = Some \<lparr>qc_Total = 0, qc_Completed = 0, qc_Failed = 0\<rparr>, bt_Usage = None, bt_Metadata = [],
     bt_OutputExpiresAfter = None, bt_UpdatedAt = Some 7, bt_Token = Some ''t''\<rparr>"

definition ex_json :: json where
  "ex_json = \<lparr>js_counts = (\<lambda>_. Some ''c''), js_unCounts = (\<lambda>_. Some \<lparr>qc_Total = 0, qc_Completed = 0, qc_Failed = 0\<rparr>), js_usage = (\<lambda>_. None),
     js_unUsage = (\<lambda>_. None), js_meta = (\<lambda>_. None), js_unMeta = (\<lambda>_. ([], False)), js_errors = (\<lambda>_. None), js_unErrors = (\<lambda>_. None),
     js_expires = (\<lambda>_. None), js_unExpires = (\<lambda>_. None)\<rparr>"

theorem task_roundtrip_witness:
  "\<exists>w'. run_state (CreateTask mem_redis ex_json ex_task) mem_empty = (Ok (), w') \<and>
     fst (run_state (GetTask mem_redis ex_json ''batch_1'') w') = Ok ex_task \<and> ''batch_1'' \<in> rv_set (mem_view w') (getTaskSetKey StatusPending)"
proof -
  have h: "json_ok ex_json ex_task" "bt_CreatedAt ex_task = Some 7" "bt_UpdatedAt ex_task = Some 7" "shown ex_task = ex_task" "bt_ID ex_task = ''batch_1''"
    by (simp_all add: json_ok_def codes_def ex_json_def ex_task_def shown_def drop_empty_def)
  have "rv_hash (mem_view mem_empty) (getTaskKey (bt_ID ex_task)) = Map.empty" by (simp add: mem_view_def mem_empty_def)
  from task_roundtrip [OF mem_redis_ok mem_quiet h(1-3) this] h(4,5) show ?thesis by auto
qed

end
