(* ===== verification/Batch_Objects.thy ===== *)
theory Batch_Objects
  imports Batch_Types Go_Strings
begin

text \<open>
  The object store of the batch service: \<open>pkg/gateway/batch/oss_client.go\<close>, and the paths of
  \<open>reactor.go\<close> with \<open>path.Join\<close> of the standard library.

  The bucket is a parameter.  Deleting and listing go on until the bucket says they are done, which it
  may never do.

  Lemmas: lines written are the lines read; deletion ends when every request makes progress; a
  listing of one page.
\<close>

subsection \<open>Paths\<close>

fun clean_parts :: "bool \<Rightarrow> string list \<Rightarrow> string list \<Rightarrow> string list" where
  "clean_parts rooted stack [] = rev stack"
| "clean_parts rooted stack (p # ps) =
     (if p = [] \<or> p = ''.'' then clean_parts rooted stack ps
      else if p = ''..'' then
        (case stack of
           [] \<Rightarrow> clean_parts rooted (if rooted then [] else [''..'']) ps
         | q # qs \<Rightarrow> clean_parts rooted (if q = ''..'' then ''..'' # stack else qs) ps)
      else clean_parts rooted (p # stack) ps)"

definition path_Clean :: "string \<Rightarrow> string" where
  "path_Clean s =
     (let rooted = HasPrefix s ''/'';
          t = (if rooted then ''/'' else []) @ join ''/'' (clean_parts rooted [] (split_on (CHR ''/'') s))
      in if t = [] then ''.'' else t)"

definition path_Join :: "string list \<Rightarrow> string" where
  "path_Join elems = (let es = filter (\<lambda>e. e \<noteq> []) elems in if es = [] then [] else path_Clean (join ''/'' es))"

subsection \<open>Bucket\<close>

datatype oss_err = NoSuchKey | OssErr string

record 'w bucket =
  bk_Get :: "string \<Rightarrow> 'w \<Rightarrow> (oss_err + string) \<times> 'w"
  bk_Put :: "string \<Rightarrow> string \<Rightarrow> 'w \<Rightarrow> string option \<times> 'w"
  bk_Append :: "string \<Rightarrow> string \<Rightarrow> i64 \<Rightarrow> 'w \<Rightarrow> (string + i64) \<times> 'w"
  bk_Delete :: "string list \<Rightarrow> 'w \<Rightarrow> (string + nat) \<times> 'w"
  bk_List :: "string \<Rightarrow> string \<Rightarrow> 'w \<Rightarrow> (string + string list \<times> bool \<times> string) \<times> 'w"

definition UploadFile :: "'w bucket \<Rightarrow> string \<Rightarrow> string \<Rightarrow> ('w, unit) act" where
  "UploadFile bk filePath content = State (\<lambda>w.
     case bk_Put bk filePath content w of (None, w) \<Rightarrow> (Ok (), w) | (Some e, w) \<Rightarrow> (Err (Text (''failed to upload file to OSS: '' @ e)), w))"

partial_function (option) delete_loop :: "'w bucket \<Rightarrow> string list \<Rightarrow> 'w \<Rightarrow> (unit io \<times> 'w) option" where
  "delete_loop bk paths w =
     (if paths = [] then Some (Ok (), w)
      else case bk_Delete bk (take 1000 paths) w of
             (Inl e, w) \<Rightarrow> Some (Err (Text (''failed to delete batch of files from OSS: '' @ e)), w)
           | (Inr n, w) \<Rightarrow> delete_loop bk (drop n paths) w)"

definition returned :: "'w \<Rightarrow> ('a io \<times> 'w) option \<Rightarrow> 'a io \<times> 'w" where
  "returned w r = (case r of None \<Rightarrow> (Hang, w) | Some x \<Rightarrow> x)"

definition DeleteFiles :: "'w bucket \<Rightarrow> string list \<Rightarrow> ('w, unit) act" where
  "DeleteFiles bk paths = State (\<lambda>w. returned w (delete_loop bk paths w))"

partial_function (option) list_loop :: "'w bucket \<Rightarrow> string \<Rightarrow> string \<Rightarrow> string list \<Rightarrow> 'w \<Rightarrow> (string list io \<times> 'w) option" where
  "list_loop bk prefix marker allObjects w =
     (case bk_List bk prefix marker w of
        (Inl e, w) \<Rightarrow> Some (Err (Text (''failed to list objects with prefix: '' @ e)), w)
      | (Inr (objects, truncated, token), w) \<Rightarrow>
          if \<not> truncated then Some (Ok (allObjects @ objects), w)
          else list_loop bk prefix token (allObjects @ objects) w)"

definition ListObjectsWithPrefix :: "'w bucket \<Rightarrow> string \<Rightarrow> ('w, string list) act" where
  "ListObjectsWithPrefix bk prefix = State (\<lambda>w. returned w (list_loop bk prefix [] [] w))"

definition GetObjectContent :: "'w bucket \<Rightarrow> string \<Rightarrow> ('w, string) act" where
  "GetObjectContent bk filePath = State (\<lambda>w.
     case bk_Get bk filePath w of
       (Inr content, w) \<Rightarrow> (Ok content, w)
     | (Inl e, w) \<Rightarrow> (Err (Text (''failed to get object from OSS: '' @ (case e of NoSuchKey \<Rightarrow> ''NoSuchKey'' | OssErr s \<Rightarrow> s))), w))"

abbreviation newline :: char where "newline \<equiv> CHR 0x0A"

definition split_lines :: "string \<Rightarrow> string list" where
  "split_lines content = (let ls = split_on newline content in if 0 < length ls \<and> last ls = [] then butlast ls else ls)"

definition ReadLines :: "'w bucket \<Rightarrow> string \<Rightarrow> ('w, string list) act" where
  "ReadLines bk filePath = chk (GetObjectContent bk filePath) (\<lambda>content. ok (split_lines content))"

definition join_lines :: "string list \<Rightarrow> string" where
  "join_lines ls = join [newline] ls @ [newline]"

definition WriteLines :: "'w bucket \<Rightarrow> string \<Rightarrow> string list \<Rightarrow> ('w, unit) act" where
  "WriteLines bk filePath ls = UploadFile bk filePath (join_lines ls)"

definition AppendToObject :: "'w bucket \<Rightarrow> string \<Rightarrow> string \<Rightarrow> i64 \<Rightarrow> ('w, i64) act" where
  "AppendToObject bk sourcePath destinationPath appendPosition = State (\<lambda>w.
     case bk_Get bk sourcePath w of
       (Inl NoSuchKey, w) \<Rightarrow> (Ok appendPosition, w)
     | (Inl (OssErr e), w) \<Rightarrow> (Err (Text (''failed to download object from OSS: '' @ e)), w)
     | (Inr body, w) \<Rightarrow>
         (case bk_Append bk destinationPath body appendPosition w of
            (Inl e, w) \<Rightarrow> (Err (Text (''failed to append object to OSS: '' @ e)), w)
          | (Inr next_pos, w) \<Rightarrow> (Ok next_pos, w)))"

subsection \<open>Lines\<close>

lemma split_join_lines:
  assumes "\<forall>l\<in>set ls. newline \<notin> set l"
  shows "split_on newline (join [newline] ls @ [newline]) = (if ls = [] then [[], []] else ls @ [[]])"
  using assms
proof (induction ls)
  case (Cons x ls)
  have x: "newline \<notin> set x" and ih: "split_on newline (join [newline] ls @ [newline]) = (if ls = [] then [[], []] else ls @ [[]])"
    using Cons.IH Cons.prems by simp_all
  show ?case
  proof (cases ls)
    case Nil
    with split_on_append [OF x, of "[]"] show ?thesis by simp
  next
    case (Cons y zs)
    then have ne: "ls \<noteq> []" and e: "join [newline] (x # ls) = x @ newline # join [newline] ls" by simp_all
    have "split_on newline (join [newline] ls @ [newline]) = ls @ [[]]" using ih ne by simp
    with split_on_append [OF x, of "join [newline] ls @ [newline]"] show ?thesis by (simp only: e append_assoc append_Cons) simp
  qed
qed simp

lemma lines_roundtrip:
  assumes "\<forall>l\<in>set ls. newline \<notin> set l"
  shows "split_lines (join_lines ls) = (if ls = [] then [[]] else ls)"
  using split_join_lines [OF assms] by (simp add: split_lines_def join_lines_def)

lemma delete_ends:
  assumes "\<And>ps w n w'. ps \<noteq> [] \<Longrightarrow> bk_Delete bk ps w = (Inr n, w') \<Longrightarrow> 0 < n"
  shows "\<exists>r w'. delete_loop bk paths w = Some (r, w')"
proof (induction "length paths" arbitrary: paths w rule: less_induct)
  case less
  show ?case
  proof (cases "paths = []")
    case False
    obtain x w1 where d: "bk_Delete bk (take 1000 paths) w = (x, w1)" by (cases "bk_Delete bk (take 1000 paths) w")
    show ?thesis
    proof (cases x)
      case (Inr n)
      have "take 1000 paths \<noteq> []" using False by simp
      from assms [OF this] d Inr have "0 < n" by blast
      with False have "length (drop n paths) < length paths" by (cases paths) auto
      with less [of "drop n paths" w1] d Inr False show ?thesis by (subst delete_loop.simps) simp
    qed (subst delete_loop.simps, simp add: d False)
  qed (subst delete_loop.simps, simp)
qed

lemma list_one_page: "bk_List bk prefix [] w = (Inr (objects, False, token), w') \<Longrightarrow> run_state (ListObjectsWithPrefix bk prefix) w = (Ok objects, w')"
  by (simp add: ListObjectsWithPrefix_def returned_def list_loop.simps)

end
