(* ===== verification/Batch_Reactor.thy ===== *)
theory Batch_Reactor
  imports Batch_Store Batch_Objects
begin

text \<open>
  The reactors that carry a batch task through its life: \<open>pkg/gateway/batch/reactor.go\<close>.

  One pass of each reactor is an action; a reactor repeats its pass, and many reactors of many gateways
  run at once, which is what the world may do between two calls.  Parameters: Redis, the bucket, JSON,
  the backend, random choices, and \<open>tr_changed\<close>, the answer a pass gets when it asks whether the monitor
  has seen the task leave its set.  As written the monitor's ticker is stopped as soon as the monitor is
  started, so that answer is always no; the model allows both.

  Lemmas: every pass keeps each task in at most one set; sharding cuts the lines of the file in order
  and loses none; a shard's responses are one per line, and its counts are theirs; a task in the
  finalize set is never moved again.
\<close>

subsection \<open>Environment\<close>

datatype http_result = HttpErr string | HttpResp i64 "string + string"

record SingleLineResponse =
  lp_ID :: string
  lp_CustomID :: string
  lp_Response :: "(i64 \<times> string \<times> string option) option"
  lp_Error :: "(string \<times> string) option"

record 'w reactor =
  tr_redis :: "'w redis"
  tr_json :: json
  tr_bucket :: "'w bucket"
  tr_instanceID :: string
  tr_ossPrefix :: string
  tr_linesPerShard :: i64
  tr_retries :: i64
  tr_port :: i64
  tr_changed :: "'w \<Rightarrow> bool \<times> 'w"
  tr_uuid :: "'w \<Rightarrow> string \<times> 'w"
  tr_shuffle :: "string list \<Rightarrow> 'w \<Rightarrow> string list \<times> 'w"
  tr_parse :: "string \<Rightarrow> string + SingleLineRequest"
  tr_customID :: "string \<Rightarrow> string"
  tr_newRequest :: "string \<Rightarrow> string option"
  tr_Do :: "string \<Rightarrow> string \<Rightarrow> string option \<Rightarrow> string \<Rightarrow> 'w \<Rightarrow> http_result \<times> 'w"
  tr_marshal :: "SingleLineResponse \<Rightarrow> string + string"

definition effect :: "('w \<Rightarrow> 'a \<times> 'w) \<Rightarrow> ('w, 'a) act" where
  "effect f = State (\<lambda>w. case f w of (x, w) \<Rightarrow> (Ok x, w))"

definition DefaultLockExpiration :: i64 where "DefaultLockExpiration = 300"

definition getFileOSSPath :: "'w reactor \<Rightarrow> string \<Rightarrow> string" where
  "getFileOSSPath tr fileID = path_Join [tr_ossPrefix tr, fileID]"

definition getShardFileInputOSSPrefix :: "'w reactor \<Rightarrow> string \<Rightarrow> string" where
  "getShardFileInputOSSPrefix tr taskID = path_Join [tr_ossPrefix tr, taskID, ''input'']"

definition getShardFileOutputOSSPrefix :: "'w reactor \<Rightarrow> string \<Rightarrow> string" where
  "getShardFileOutputOSSPrefix tr taskID = path_Join [tr_ossPrefix tr, taskID, ''output'']"

definition getShardFileInputOSSPath :: "'w reactor \<Rightarrow> string \<Rightarrow> string \<Rightarrow> string" where
  "getShardFileInputOSSPath tr taskID shardID = path_Join [getShardFileInputOSSPrefix tr taskID, shardID]"

definition getShardFileOutputOSSPath :: "'w reactor \<Rightarrow> string \<Rightarrow> string \<Rightarrow> string" where
  "getShardFileOutputOSSPath tr taskID shardID = path_Join [getShardFileOutputOSSPrefix tr taskID, shardID]"

definition getShardFileOutputErrorOSSPath :: "'w reactor \<Rightarrow> string \<Rightarrow> string \<Rightarrow> string" where
  "getShardFileOutputErrorOSSPath tr taskID shardID = path_Join [getShardFileOutputOSSPrefix tr taskID, ''err_'' @ shardID]"

definition lock_task :: "'w reactor \<Rightarrow> string \<Rightarrow> ('w, bool) act" where
  "lock_task tr taskID = attempt (AcquireTaskLock (tr_redis tr) taskID (tr_instanceID tr) DefaultLockExpiration) ok (\<lambda>_. ok False)"

definition unlock_task :: "'w reactor \<Rightarrow> string \<Rightarrow> ('w, unit) act" where
  "unlock_task tr taskID = logged_only (ReleaseTaskLock (tr_redis tr) taskID (tr_instanceID tr))"

definition unlock_shard :: "'w reactor \<Rightarrow> string \<Rightarrow> string \<Rightarrow> string \<Rightarrow> ('w, unit) act" where
  "unlock_shard tr taskID shardID workerID = logged_only (ReleaseShardLock (tr_redis tr) taskID shardID (tr_instanceID tr) workerID)"

text \<open>One tick of a monitor: whether the task is seen to have left its set.  \<open>due\<close>: the lock is to be renewed.\<close>

definition left_set :: "'w reactor \<Rightarrow> BatchTaskStatus \<Rightarrow> string \<Rightarrow> ('w, bool) act" where
  "left_set tr expectedStatus taskID = attempt (TaskInSet (tr_redis tr) expectedStatus taskID) (\<lambda>inSet. ok (\<not> inSet)) (\<lambda>_. ok False)"

definition task_tick :: "'w reactor \<Rightarrow> bool \<Rightarrow> string \<Rightarrow> BatchTaskStatus \<Rightarrow> ('w, bool) act" where
  "task_tick tr due taskID expectedStatus =
     chk (if due then logged_only (ExtendTaskLock (tr_redis tr) taskID (tr_instanceID tr) DefaultLockExpiration) else ok ())
       (\<lambda>_. left_set tr expectedStatus taskID)"

definition shard_tick :: "'w reactor \<Rightarrow> bool \<Rightarrow> string \<Rightarrow> string \<Rightarrow> string \<Rightarrow> BatchTaskStatus \<Rightarrow> ('w, bool) act" where
  "shard_tick tr due taskID shardID workerID expectedStatus =
     chk (if due then logged_only (ExtendShardLock (tr_redis tr) taskID shardID (tr_instanceID tr) workerID DefaultLockExpiration) else ok ())
       (\<lambda>_. left_set tr expectedStatus taskID)"

subsection \<open>Cleaning up\<close>

definition cleanupShardOSSFiles :: "'w reactor \<Rightarrow> string \<Rightarrow> ('w, unit) act" where
  "cleanupShardOSSFiles tr taskID =
     chk (wrapped ''failed to list objects: '' (ListObjectsWithPrefix (tr_bucket tr) (getShardFileInputOSSPrefix tr taskID))) (\<lambda>inputObjects.
     chk (wrapped ''failed to list objects: '' (ListObjectsWithPrefix (tr_bucket tr) (getShardFileOutputOSSPrefix tr taskID))) (\<lambda>outputObjects.
     let objects = inputObjects @ outputObjects
     in if 0 < length objects then wrapped ''Failed to delete files: '' (DeleteFiles (tr_bucket tr) objects) else ok ()))"

definition cleanupShardMeta :: "'w reactor \<Rightarrow> string \<Rightarrow> ('w, unit) act" where
  "cleanupShardMeta tr taskID = for_each (\<lambda>status. wrapped ''Failed to clean shard meta: '' (RemoveShardInfo (tr_redis tr) taskID status)) shard_statuses"

definition cleanupTaskShardMeta :: "'w reactor \<Rightarrow> string \<Rightarrow> ('w, unit) act" where
  "cleanupTaskShardMeta tr taskID = chk (cleanupShardOSSFiles tr taskID) (\<lambda>_. cleanupShardMeta tr taskID)"

subsection \<open>Validating\<close>

definition supported_urls :: "string list" where
  "supported_urls = [''/v1/responses'', ''/v1/chat/completions'', ''/v1/completions'']"

definition line_error :: "'w reactor \<Rightarrow> nat \<Rightarrow> string \<Rightarrow> string option" where
  "line_error tr lineNumber line =
     (let at_line = '' at line '' @ show_nat lineNumber
      in case tr_parse tr line of
        Inl e \<Rightarrow> Some (''invalid JSON format'' @ at_line @ '': '' @ e)
      | Inr request \<Rightarrow>
          if sl_CustomID request = [] then Some (''missing custom_id'' @ at_line)
          else if sl_Method request = [] then Some (''missing method'' @ at_line)
          else if sl_Method request \<noteq> ''POST'' then Some (''invalid method '' @ quoted (sl_Method request) @ at_line @ '', expected '' @ quoted ''POST'')
          else if sl_URL request = [] then Some (''missing url'' @ at_line)
          else if sl_URL request \<notin> set supported_urls
               then Some (''invalid url '' @ quoted (sl_URL request) @ at_line @ '', must be one of '' @ quoted ''/v1/responses'' @ '', '' @
                      quoted ''/v1/chat/completions'' @ '', or '' @ quoted ''/v1/completions'')
          else if sl_Body request = None then Some (''missing body'' @ at_line)
          else None)"

fun ValidateBatchFile :: "'w reactor \<Rightarrow> nat \<Rightarrow> string list \<Rightarrow> string option" where
  "ValidateBatchFile tr lineNumber [] = None"
| "ValidateBatchFile tr lineNumber (line # ls) =
     (let line = TrimSpace line
      in if length line = 0 then ValidateBatchFile tr lineNumber ls
         else if 50000 \<le> lineNumber
              then Some (''file line count exceeds maximum allowed lines of 50000. Current line count: '' @ show_nat lineNumber)
         else case line_error tr lineNumber line of
                Some e \<Rightarrow> Some e
              | None \<Rightarrow> ValidateBatchFile tr (Suc lineNumber) ls)"

definition validateInputFile :: "'w reactor \<Rightarrow> string \<Rightarrow> string list \<Rightarrow> ('w, unit) act" where
  "validateInputFile tr taskID fileLines =
     (case ValidateBatchFile tr 0 fileLines of
        None \<Rightarrow> ok ()
      | Some err \<Rightarrow>
          chk (logged_only (UpdateTaskFailure (tr_redis tr) (tr_json tr) taskID
                 [\<lparr>be_Code = ''validation_error'', be_Line = 0, be_Message = err, be_Param = []\<rparr>])) (\<lambda>_.
          chk (logged_only (MoveTaskAtomically (tr_redis tr) taskID StatusValidating StatusFailed)) (\<lambda>_.
          fail (''batch file validation failed: '' @ err))))"

definition createFileShard :: "'w reactor \<Rightarrow> string \<Rightarrow> string \<Rightarrow> string list \<Rightarrow> ('w, unit) act" where
  "createFileShard tr taskID shardID ls =
     chk (wrapped ''failed to write shard file to OSS: '' (WriteLines (tr_bucket tr) (getShardFileInputOSSPath tr taskID shardID) ls)) (\<lambda>_.
     chk (now (tr_redis tr)) (\<lambda>t.
     chk (wrapped ''failed to create file shard: '' (CreateOrUpdateFileShard (tr_redis tr) (tr_json tr) taskID shardID
            \<lparr>fs_ID = shardID, fs_CreatedAt = Some t,
             fs_RequestCounts = Some \<lparr>qc_Total = of_nat (length ls), qc_Completed = 0, qc_Failed = 0\<rparr>, fs_UpdatedAt = Some t\<rparr>)) (\<lambda>_.
     wrapped ''failed to add shard to pending list: '' (AddShardToPendingList (tr_redis tr) taskID shardID))))"

fun shard_loop :: "'w reactor \<Rightarrow> string \<Rightarrow> nat \<Rightarrow> string list \<Rightarrow> nat \<Rightarrow> string list \<Rightarrow> ('w, nat \<times> nat) act" where
  "shard_loop tr taskID shardIndex current lineCount [] =
     (if 0 < length current then chk (createFileShard tr taskID (show_nat shardIndex) current) (\<lambda>_. ok (lineCount, Suc shardIndex))
      else ok (lineCount, shardIndex))"
| "shard_loop tr taskID shardIndex current lineCount (line # ls) =
     (let line = TrimSpace line
      in if length line = 0 then shard_loop tr taskID shardIndex current lineCount ls
         else chk (effect (tr_changed tr)) (\<lambda>changed.
              if changed then State_Monad.return (Err StatusChanged)
              else let current = current @ [line]; lineCount = Suc lineCount
                   in if sint (tr_linesPerShard tr) \<le> int (length current)
                      then chk (createFileShard tr taskID (show_nat shardIndex) current)
                             (\<lambda>_. shard_loop tr taskID (Suc shardIndex) [] lineCount ls)
                      else shard_loop tr taskID shardIndex current lineCount ls))"

definition shardInputFile :: "'w reactor \<Rightarrow> string \<Rightarrow> string list \<Rightarrow> ('w, nat \<times> nat) act" where
  "shardInputFile tr taskID inputFileLines = shard_loop tr taskID 0 [] 0 inputFileLines"

definition processValidatingTask :: "'w reactor \<Rightarrow> string \<Rightarrow> ('w, unit) act" where
  "processValidatingTask tr taskID =
     chk (wrapped ''failed to get task: '' (GetTask (tr_redis tr) (tr_json tr) taskID)) (\<lambda>task.
     chk (if bt_Status task \<noteq> StatusValidating
          then wrapped ''failed to move task to validating set: '' (MoveTaskAndUpdateStatusAtomically (tr_redis tr) taskID StatusPending StatusValidating)
          else wrapped ''failed to cleanup task shard info: '' (cleanupTaskShardMeta tr taskID)) (\<lambda>_.
     chk (ReadLines (tr_bucket tr) (getFileOSSPath tr (bt_InputFileID task))) (\<lambda>inputFileLines.
     chk (validateInputFile tr taskID inputFileLines) (\<lambda>_.
     attempt (shardInputFile tr taskID inputFileLines)
       (\<lambda>(lineCount, _).
          chk (now (tr_redis tr)) (\<lambda>t.
          chk (logged_only (UpdateTaskFields (tr_redis tr) (tr_json tr) taskID
                 (task\<lparr>bt_RequestCounts := Some \<lparr>qc_Total = of_nat lineCount, qc_Completed = 0, qc_Failed = 0\<rparr>, bt_UpdatedAt := Some t\<rparr>))) (\<lambda>_.
          wrapped ''failed to move task to in_progress set: ''
            (MoveTaskAndUpdateStatusAtomically (tr_redis tr) taskID StatusValidating StatusInProgress))))
       (\<lambda>err. if err = StatusChanged then ok () else State_Monad.return (Err (wrap_err ''failed to shard input file: '' err)))))))"

fun first_stale :: "'w reactor \<Rightarrow> string list \<Rightarrow> ('w, string option) act" where
  "first_stale tr [] = ok None"
| "first_stale tr (taskID # ids) =
     attempt (GetTask (tr_redis tr) (tr_json tr) taskID)
       (\<lambda>task. chk (clock (tr_redis tr)) (\<lambda>n.
          let updatedAt = (case bt_UpdatedAt task of None \<Rightarrow> 0 | Some t \<Rightarrow> sint t)
          in if 300 * 10 ^ 9 < n - updatedAt * 10 ^ 9
             then chk (lock_task tr taskID) (\<lambda>acquired. if acquired then ok (Some taskID) else first_stale tr ids)
             else first_stale tr ids))
       (\<lambda>_. first_stale tr ids)"

definition handleValidatingFailover :: "'w reactor \<Rightarrow> ('w, string option) act" where
  "handleValidatingFailover tr =
     attempt (GetTasksInStatus (tr_redis tr) StatusValidating)
       (\<lambda>ids. chk (effect (tr_shuffle tr ids)) (first_stale tr))
       (\<lambda>_. ok None)"

definition with_task_lock :: "'w reactor \<Rightarrow> string \<Rightarrow> ('w, unit) act \<Rightarrow> ('w, unit) act" where
  "with_task_lock tr taskID m = deferred (unlock_task tr taskID) m"

definition processSingleValidatingTask :: "'w reactor \<Rightarrow> ('w, unit) act" where
  "processSingleValidatingTask tr =
     chk (attempt (GetTaskInStatus (tr_redis tr) StatusPending)
            (\<lambda>taskID. chk (lock_task tr taskID) (\<lambda>acquired. ok (if acquired then Some taskID else None)))
            (\<lambda>_. handleValidatingFailover tr))
       (\<lambda>found. case found of
                  None \<Rightarrow> ok ()
                | Some taskID \<Rightarrow> with_task_lock tr taskID (logged_only (processValidatingTask tr taskID)))"

subsection \<open>Requests of a shard\<close>

fun request_tries :: "'w reactor \<Rightarrow> string \<Rightarrow> string \<Rightarrow> string option \<Rightarrow> string \<Rightarrow> nat \<Rightarrow> ('w, http_result) act" where
  "request_tries tr url requestID token body 0 = State_Monad.return Panic"
| "request_tries tr url requestID token body (Suc left) =
     chk (effect (tr_Do tr url requestID token body)) (\<lambda>resp.
       if (case resp of HttpErr _ \<Rightarrow> False | HttpResp code _ \<Rightarrow> sint code < 500) \<or> left = 0 then ok resp
       else request_tries tr url requestID token body left)"

definition createResponse :: "'w reactor \<Rightarrow> string \<Rightarrow> string \<Rightarrow> string \<Rightarrow> i64 \<Rightarrow> string option \<Rightarrow> string \<Rightarrow> string \<times> bool" where
  "createResponse tr taskID customID requestID statusCode respBody errMessage =
     (let batchError = (if errMessage \<noteq> [] then Some (''request_error'', errMessage) else None);
          response = \<lparr>lp_ID = taskID, lp_CustomID = customID, lp_Response = Some (statusCode, requestID, respBody), lp_Error = batchError\<rparr>
      in case tr_marshal tr response of
           Inr line \<Rightarrow> (line, batchError \<noteq> None)
         | Inl e \<Rightarrow>
             (case tr_marshal tr (response\<lparr>lp_Response := None, lp_Error := Some (''marshal_error'', ''failed to marshal response: '' @ e)\<rparr>) of
                Inr line \<Rightarrow> (line, True)
              | Inl _ \<Rightarrow> ([], True)))"

text \<open>With no attempt allowed the response is nil and reading its status panics.\<close>

definition processRequest :: "'w reactor \<Rightarrow> string \<Rightarrow> BatchTask \<Rightarrow> string \<Rightarrow> ('w, string \<times> bool) act" where
  "processRequest tr line task taskID =
     chk (effect (tr_uuid tr)) (\<lambda>requestID.
     let fullURL = ''http://127.0.0.1:'' @ show64 (tr_port tr) @ bt_Endpoint task
     in case tr_parse tr line of
          Inl e \<Rightarrow> ok (createResponse tr taskID (tr_customID tr line) requestID 0 None (''unexpected parsing error: '' @ e))
        | Inr request \<Rightarrow>
            (case tr_newRequest tr fullURL of
               Some e \<Rightarrow> ok (createResponse tr taskID (sl_CustomID request) requestID 0 None (''failed to create request: '' @ e))
             | None \<Rightarrow>
                 chk (request_tries tr fullURL requestID (bt_Token task) (case sl_Body request of None \<Rightarrow> [] | Some b \<Rightarrow> b) (nat (sint (tr_retries tr) + 1)))
                   (\<lambda>resp. ok (case resp of
                      HttpErr e \<Rightarrow> createResponse tr taskID (sl_CustomID request) requestID 0 None e
                    | HttpResp code body \<Rightarrow>
                        if 500 \<le> sint code
                        then createResponse tr taskID (sl_CustomID request) requestID code None (''server error: '' @ show64 code)
                        else (case body of
                                Inl e \<Rightarrow> createResponse tr taskID (sl_CustomID request) requestID code None (''failed to read response: '' @ e)
                              | Inr b \<Rightarrow> createResponse tr taskID (sl_CustomID request) requestID code (Some b) [])))))"

fun process_lines :: "'w reactor \<Rightarrow> BatchTask \<Rightarrow> string \<Rightarrow> string list \<Rightarrow> string list \<Rightarrow> string list \<Rightarrow> ('w, string list \<times> string list) act" where
  "process_lines tr task taskID outs errs [] = ok (outs, errs)"
| "process_lines tr task taskID outs errs (line # ls) =
     chk (effect (tr_changed tr)) (\<lambda>changed.
       if changed then State_Monad.return (Err StatusChanged)
       else if length line = 0 then process_lines tr task taskID outs errs ls
       else chk (processRequest tr line task taskID) (\<lambda>(response, isError).
              if isError then process_lines tr task taskID outs (errs @ [response]) ls
              else process_lines tr task taskID (outs @ [response]) errs ls))"

definition write_some :: "'w bucket \<Rightarrow> string \<Rightarrow> string list \<Rightarrow> ('w, unit) act" where
  "write_some bk path ls = (if 0 < length ls then WriteLines bk path ls else ok ())"

definition processShard :: "'w reactor \<Rightarrow> string \<Rightarrow> string \<Rightarrow> ('w, unit) act" where
  "processShard tr taskID shardID =
     chk (wrapped ''failed to check if task is in in_progress set: '' (TaskInSet (tr_redis tr) StatusInProgress taskID)) (\<lambda>inProgress.
     if \<not> inProgress then ok ()
     else chk (wrapped ''failed to get task: '' (GetTask (tr_redis tr) (tr_json tr) taskID)) (\<lambda>task.
       let outputPath = getShardFileOutputOSSPath tr taskID shardID; errorPath = getShardFileOutputErrorOSSPath tr taskID shardID
       in chk (wrapped ''failed to clean files: '' (DeleteFiles (tr_bucket tr) [outputPath, errorPath])) (\<lambda>_.
          chk (wrapped ''failed to read shard file from OSS: '' (ReadLines (tr_bucket tr) (getShardFileInputOSSPath tr taskID shardID))) (\<lambda>ls.
          chk (process_lines tr task taskID [] [] ls) (\<lambda>(outputLines, errorLines).
          chk (wrapped ''failed to write output file to OSS: '' (write_some (tr_bucket tr) outputPath outputLines)) (\<lambda>_.
          chk (wrapped ''failed to write output error file to OSS: '' (write_some (tr_bucket tr) errorPath errorLines)) (\<lambda>_.
          chk (wrapped ''failed to get shard: '' (GetFileShard (tr_redis tr) (tr_json tr) taskID shardID)) (\<lambda>shard.
          chk (now (tr_redis tr)) (\<lambda>t.
          wrapped ''failed to update shard: '' (CreateOrUpdateFileShard (tr_redis tr) (tr_json tr) taskID shardID
            (shard\<lparr>fs_RequestCounts := Some \<lparr>qc_Total = of_nat (length outputLines + length errorLines), qc_Completed = of_nat (length outputLines),
               qc_Failed = of_nat (length errorLines)\<rparr>, fs_UpdatedAt := Some t\<rparr>)))))))))))"

subsection \<open>In progress\<close>

fun first_recovered :: "'w reactor \<Rightarrow> string \<Rightarrow> string \<Rightarrow> string list \<Rightarrow> ('w, string option) act" where
  "first_recovered tr taskID workerID [] = ok None"
| "first_recovered tr taskID workerID (shardID # ids) =
     attempt (AcquireOrRecoverShardLock (tr_redis tr) taskID shardID (tr_instanceID tr) workerID DefaultLockExpiration)
       (\<lambda>acquired. if acquired then ok (Some shardID) else first_recovered tr taskID workerID ids)
       (\<lambda>_. first_recovered tr taskID workerID ids)"

definition handleInProgressShardFailover :: "'w reactor \<Rightarrow> string \<Rightarrow> string \<Rightarrow> ('w, string option) act" where
  "handleInProgressShardFailover tr taskID workerID =
     chk (wrapped ''failed to get in-progress shards: '' (GetShardsInStatus (tr_redis tr) taskID ShardStatusInProgress)) (\<lambda>ids.
     chk (effect (tr_shuffle tr ids)) (first_recovered tr taskID workerID))"

text \<open>A shard to work on: taken from the pending ones and locked, or recovered with its lock.\<close>

definition take_pending :: "'w reactor \<Rightarrow> string \<Rightarrow> string \<Rightarrow> string \<Rightarrow> ('w, string option) act" where
  "take_pending tr taskID workerID shardID =
     chk (attempt (AcquireShardLock (tr_redis tr) taskID shardID (tr_instanceID tr) workerID DefaultLockExpiration) ok (\<lambda>_. ok False)) (\<lambda>acquired.
     if \<not> acquired then ok None
     else attempt (MoveShardAtomically (tr_redis tr) taskID shardID ShardStatusPending ShardStatusInProgress)
            (\<lambda>_. ok (Some shardID))
            (\<lambda>err. chk (unlock_shard tr taskID shardID workerID) (\<lambda>_.
               State_Monad.return (Err (wrap_err ''failed to move shard to in_progress: '' err)))))"

definition take_recovered :: "'w reactor \<Rightarrow> string \<Rightarrow> string \<Rightarrow> ('w, string option) act" where
  "take_recovered tr taskID workerID =
     attempt (handleInProgressShardFailover tr taskID workerID)
       (\<lambda>found. case found of
          None \<Rightarrow> ok None
        | Some shardID \<Rightarrow>
            attempt (TaskInSet (tr_redis tr) StatusInProgress taskID)
              (\<lambda>inProgress. ok (if inProgress then Some shardID else None)) (\<lambda>_. ok None))
       (\<lambda>_. ok None)"

definition finish_shard :: "'w reactor \<Rightarrow> string \<Rightarrow> string \<Rightarrow> ('w, unit) act" where
  "finish_shard tr taskID shardID =
     attempt (processShard tr taskID shardID)
       (\<lambda>_. wrapped ''failed to move shard to completed: ''
              (MoveShardAtomically (tr_redis tr) taskID shardID ShardStatusInProgress ShardStatusCompleted))
       (\<lambda>err. if err = StatusChanged then MoveShardAtomically (tr_redis tr) taskID shardID ShardStatusInProgress ShardStatusFailed
              else State_Monad.return (Err (wrap_err ''failed to process shard: '' err)))"

definition processTaskShards :: "'w reactor \<Rightarrow> string \<Rightarrow> string \<Rightarrow> ('w, unit) act" where
  "processTaskShards tr taskID workerID =
     chk (attempt (GetShardInStatus (tr_redis tr) taskID ShardStatusPending)
            (take_pending tr taskID workerID) (\<lambda>_. take_recovered tr taskID workerID))
       (\<lambda>found. case found of
          None \<Rightarrow> ok ()
        | Some shardID \<Rightarrow> deferred (unlock_shard tr taskID shardID workerID) (finish_shard tr taskID shardID))"

definition CheckShardsAndMoveToFinalizing :: "'w reactor \<Rightarrow> string \<Rightarrow> ('w, bool) act" where
  "CheckShardsAndMoveToFinalizing tr taskID =
     chk (CheckIfAllShardsAreCompleted (tr_redis tr) taskID) (\<lambda>allCompleted.
     if \<not> allCompleted then ok False
     else chk (lock_task tr taskID) (\<lambda>acquired.
       if \<not> acquired then ok False
       else deferred (unlock_task tr taskID)
              (chk (MoveTaskAndUpdateStatusAtomically (tr_redis tr) taskID StatusInProgress StatusFinalizing) (\<lambda>_. ok True))))"

definition processSingleInProgressTask :: "'w reactor \<Rightarrow> string \<Rightarrow> ('w, unit) act" where
  "processSingleInProgressTask tr workerID =
     attempt (GetTaskInStatus (tr_redis tr) StatusInProgress)
       (\<lambda>taskID.
          attempt (TaskInSet (tr_redis tr) StatusValidating taskID)
            (\<lambda>inValidating.
               if inValidating then ok ()
               else attempt (processTaskShards tr taskID workerID)
                      (\<lambda>_. attempt (CheckShardsAndMoveToFinalizing tr taskID) (\<lambda>_. ok ()) (\<lambda>_. ok ()))
                      (\<lambda>_. ok ()))
            (\<lambda>_. ok ()))
       (\<lambda>_. ok ())"

subsection \<open>Finalizing\<close>

record fin_state =
  fi_outPos :: i64
  fi_errPos :: i64
  fi_counts :: RequestCounts

definition add_counts :: "RequestCounts \<Rightarrow> RequestCounts \<Rightarrow> RequestCounts" where
  "add_counts a b = \<lparr>qc_Total = qc_Total a + qc_Total b, qc_Completed = qc_Completed a + qc_Completed b, qc_Failed = qc_Failed a + qc_Failed b\<rparr>"

text \<open>A shard whose record cannot be read is nil, and its counts are read all the same.\<close>

definition finalize_shard :: "'w reactor \<Rightarrow> string \<Rightarrow> string list \<Rightarrow> string \<Rightarrow> string \<Rightarrow> string \<Rightarrow> fin_state \<Rightarrow> ('w, fin_state) act" where
  "finalize_shard tr taskID keys outputPath errorPath shardID fs =
     (let shardOutputPath = getShardFileOutputOSSPath tr taskID shardID; shardErrorPath = getShardFileOutputErrorOSSPath tr taskID shardID
      in chk (if shardOutputPath \<in> set keys
              then wrapped ''failed to read shard output file: '' (AppendToObject (tr_bucket tr) shardOutputPath outputPath (fi_outPos fs))
              else ok (fi_outPos fs)) (\<lambda>outPos.
         chk (if shardErrorPath \<in> set keys
              then wrapped ''failed to read shard output error file: '' (AppendToObject (tr_bucket tr) shardErrorPath errorPath (fi_errPos fs))
              else ok (fi_errPos fs)) (\<lambda>errPos.
         attempt (GetFileShard (tr_redis tr) (tr_json tr) taskID shardID)
           (\<lambda>shard. case fs_RequestCounts shard of
                      None \<Rightarrow> State_Monad.return Panic
                    | Some c \<Rightarrow> ok \<lparr>fi_outPos = outPos, fi_errPos = errPos, fi_counts = add_counts (fi_counts fs) c\<rparr>)
           (\<lambda>_. State_Monad.return Panic))))"

text \<open>\<open>None\<close> when the task has left its set.\<close>

fun finalize_shards :: "'w reactor \<Rightarrow> string \<Rightarrow> string list \<Rightarrow> string \<Rightarrow> string \<Rightarrow> string list \<Rightarrow> fin_state \<Rightarrow> ('w, fin_state option) act" where
  "finalize_shards tr taskID keys outputPath errorPath [] fs =
     chk (effect (tr_changed tr)) (\<lambda>changed. ok (if changed then None else Some fs))"
| "finalize_shards tr taskID keys outputPath errorPath (shardID # ids) fs =
     chk (effect (tr_changed tr)) (\<lambda>changed.
       if changed then ok None
       else chk (finalize_shard tr taskID keys outputPath errorPath shardID fs) (finalize_shards tr taskID keys outputPath errorPath ids))"

definition output_file :: "string \<Rightarrow> string \<Rightarrow> i64 \<Rightarrow> i64 \<Rightarrow> i64 \<Rightarrow> File" where
  "output_file fileID name bytes t expireAt = \<lparr>fl_ID = fileID, fl_Object = ''file'', fl_Bytes = bytes, fl_CreatedAt = t, fl_ExpiresAt = expireAt,
     fl_Filename = name, fl_Purpose = ''batch_output''\<rparr>"

definition complete_task :: "'w reactor \<Rightarrow> string \<Rightarrow> BatchTask \<Rightarrow> string \<Rightarrow> string \<Rightarrow> fin_state \<Rightarrow> ('w, unit) act" where
  "complete_task tr taskID task outputFileID errorFileID fs =
     chk (now (tr_redis tr)) (\<lambda>t.
     let task = task\<lparr>bt_CompletedAt := Some t, bt_OutputFileID := Some outputFileID, bt_UpdatedAt := Some t, bt_Status := StatusCompleted,
           bt_RequestCounts := Some (fi_counts fs), bt_ErrorFileID := (if 0 < sint (fi_errPos fs) then Some errorFileID else bt_ErrorFileID task)\<rparr>;
         expireAt = (case bt_OutputExpiresAfter task of None \<Rightarrow> 0 | Some x \<Rightarrow> t + oe_Seconds x)
     in chk (wrapped ''failed to create output file record: '' (CreateFile (tr_redis tr) (output_file outputFileID ''output.jsonl'' (fi_outPos fs) t expireAt))) (\<lambda>_.
        chk (if 0 < sint (fi_errPos fs)
             then wrapped ''failed to create error file record: '' (CreateFile (tr_redis tr) (output_file errorFileID ''error.jsonl'' (fi_errPos fs) t expireAt))
             else ok ()) (\<lambda>_.
        chk (wrapped ''failed to update task fields and status: '' (UpdateTaskFields (tr_redis tr) (tr_json tr) taskID task)) (\<lambda>_.
        logged_only (MoveTaskAtomically (tr_redis tr) taskID StatusFinalize StatusCompleted)))))"

definition has_no_such_key :: "batch_err \<Rightarrow> bool" where
  "has_no_such_key e = (case e of StatusChanged \<Rightarrow> False | Text s \<Rightarrow> Contains s ''NoSuchKey'')"

definition processFinalizingTask :: "'w reactor \<Rightarrow> string \<Rightarrow> ('w, unit) act" where
  "processFinalizingTask tr taskID =
     chk (wrapped ''failed to move task to finalize set: ''
            (MoveTaskAndUpdateStatusAtomically (tr_redis tr) taskID StatusFinalizing StatusFinalize)) (\<lambda>_.
     chk (wrapped ''failed to get task: '' (GetTask (tr_redis tr) (tr_json tr) taskID)) (\<lambda>task.
     chk (wrapped ''failed to get completed shards: '' (GetShardsInStatus (tr_redis tr) taskID ShardStatusCompleted)) (\<lambda>shardIDs.
     chk (wrapped ''failed to list prefix: '' (ListObjectsWithPrefix (tr_bucket tr) (getShardFileOutputOSSPrefix tr taskID))) (\<lambda>keys.
     chk (effect (tr_uuid tr)) (\<lambda>u1.
     chk (effect (tr_uuid tr)) (\<lambda>u2.
     let outputFileID = ''batch_output_'' @ u1; errorFileID = ''batch_error_'' @ u2;
         outputPath = getFileOSSPath tr outputFileID; errorPath = getFileOSSPath tr errorFileID
     in chk (attempt (DeleteFiles (tr_bucket tr) [outputPath, errorPath]) ok
               (\<lambda>err. if has_no_such_key err then ok () else State_Monad.return (Err (wrap_err ''failed to delete: '' err)))) (\<lambda>_.
        chk (finalize_shards tr taskID keys outputPath errorPath shardIDs
               \<lparr>fi_outPos = 0, fi_errPos = 0, fi_counts = \<lparr>qc_Total = 0, qc_Completed = 0, qc_Failed = 0\<rparr>\<rparr>) (\<lambda>r.
        case r of
          None \<Rightarrow> ok ()
        | Some fs \<Rightarrow> complete_task tr taskID task outputFileID errorFileID fs))))))))"

text \<open>The shards are cleaned up also when finalizing has failed.\<close>

definition processSingleFinalizingTask :: "'w reactor \<Rightarrow> ('w, unit) act" where
  "processSingleFinalizingTask tr =
     attempt (GetTaskInStatus (tr_redis tr) StatusFinalizing)
       (\<lambda>taskID. chk (lock_task tr taskID) (\<lambda>acquired.
          if \<not> acquired then ok ()
          else with_task_lock tr taskID
                 (chk (logged_only (processFinalizingTask tr taskID)) (\<lambda>_. logged_only (cleanupTaskShardMeta tr taskID)))))
       (\<lambda>_. ok ())"

subsection \<open>Expiring and cancelling\<close>

definition processExpiredTask :: "'w reactor \<Rightarrow> string \<Rightarrow> ('w, unit) act" where
  "processExpiredTask tr taskID =
     chk (lock_task tr taskID) (\<lambda>acquired.
     if \<not> acquired then fail ''failed to lock task''
     else deferred (unlock_task tr taskID)
            (chk (wrapped ''failed to get task stats: '' (GetTaskStatus (tr_redis tr) taskID)) (\<lambda>taskStatus.
             wrapped ''failed to move task: '' (MoveTaskAndUpdateStatusAtomically (tr_redis tr) taskID taskStatus StatusExpired))))"

definition processExpiredTasks :: "'w reactor \<Rightarrow> ('w, unit) act" where
  "processExpiredTasks tr =
     attempt (GetExpiredTasks (tr_redis tr) [StatusPending, StatusValidating, StatusInProgress, StatusFinalizing])
       (for_each (\<lambda>taskID. logged_only (processExpiredTask tr taskID)))
       (\<lambda>_. ok ())"

definition handleShardCancellation :: "'w reactor \<Rightarrow> string \<Rightarrow> ('w, unit) act" where
  "handleShardCancellation tr taskID =
     chk (wrapped ''failed to get pending shards: '' (GetShardsInStatus (tr_redis tr) taskID ShardStatusPending)) (\<lambda>shardIDs.
     chk (for_each (\<lambda>shardID. logged_only (MoveShardAtomically (tr_redis tr) taskID shardID ShardStatusPending ShardStatusFailed)) shardIDs) (\<lambda>_.
     chk (wrapped ''failed to get in-progress shards: '' (GetShardsInStatus (tr_redis tr) taskID ShardStatusInProgress)) (\<lambda>inProgress.
     if 0 < length inProgress then fail ''in-progress shards must complete before cancellation can proceed'' else ok ())))"

definition processCancellingTask :: "'w reactor \<Rightarrow> string \<Rightarrow> ('w, unit) act" where
  "processCancellingTask tr taskID =
     chk (wrapped ''failed to handle file cancellation: '' (handleShardCancellation tr taskID)) (\<lambda>_.
     chk (wrapped ''failed to clean up cancelling task files: '' (cleanupTaskShardMeta tr taskID)) (\<lambda>_.
     wrapped ''failed to move task to cancelled set: ''
       (MoveTaskAndUpdateStatusAtomically (tr_redis tr) taskID StatusCancelling StatusCancelled)))"

definition processSingleCancellingTask :: "'w reactor \<Rightarrow> ('w, unit) act" where
  "processSingleCancellingTask tr =
     attempt (GetTaskInStatus (tr_redis tr) StatusCancelling)
       (\<lambda>taskID. chk (lock_task tr taskID) (\<lambda>acquired.
          if \<not> acquired then ok ()
          else with_task_lock tr taskID
                 (attempt (TaskInSet (tr_redis tr) StatusValidating taskID)
                    (\<lambda>inValidating. attempt (TaskInSet (tr_redis tr) StatusInProgress taskID)
                       (\<lambda>inProgress. if inValidating \<or> inProgress then ok () else logged_only (processCancellingTask tr taskID))
                       (\<lambda>_. ok ()))
                    (\<lambda>_. ok ()))))
       (\<lambda>_. ok ())"

subsection \<open>Every pass keeps a task in one set\<close>

text \<open>The services that are not Redis leave what is stored there alone.\<close>

definition apart :: "'w reactor \<Rightarrow> ('w \<Rightarrow> rview) \<Rightarrow> bool" where
  "apart tr V \<longleftrightarrow>
     (\<forall>w. V (snd (tr_changed tr w)) = V w) \<and> (\<forall>w. V (snd (tr_uuid tr w)) = V w) \<and> (\<forall>ids w. V (snd (tr_shuffle tr ids w)) = V w) \<and>
     (\<forall>a b c d w. V (snd (tr_Do tr a b c d w)) = V w) \<and>
     (\<forall>k w. V (snd (bk_Get (tr_bucket tr) k w)) = V w) \<and> (\<forall>k x w. V (snd (bk_Put (tr_bucket tr) k x w)) = V w) \<and>
     (\<forall>k x n w. V (snd (bk_Append (tr_bucket tr) k x n w)) = V w) \<and> (\<forall>ks w. V (snd (bk_Delete (tr_bucket tr) ks w)) = V w) \<and>
     (\<forall>p m w. V (snd (bk_List (tr_bucket tr) p m w)) = V w)"

lemma apartD:
  assumes "apart tr V"
  shows "V (snd (tr_changed tr w)) = V w" "V (snd (tr_uuid tr w)) = V w" "V (snd (tr_shuffle tr ids w)) = V w" "V (snd (tr_Do tr a b c d w)) = V w"
    "V (snd (bk_Get (tr_bucket tr) k w)) = V w" "V (snd (bk_Put (tr_bucket tr) k x w)) = V w" "V (snd (bk_Append (tr_bucket tr) k x n w)) = V w"
    "V (snd (bk_Delete (tr_bucket tr) ks w)) = V w" "V (snd (bk_List (tr_bucket tr) p m w)) = V w"
  using assms unfolding apart_def by simp_all

lemma keeps_view: "(\<And>w. V (snd (run_state m w)) = V w) \<Longrightarrow> keeps (\<lambda>w. I (V w)) m (\<lambda>_. True)"
  by (simp add: keeps_def)

lemma delete_loop_view:
  "delete_loop bk paths w = Some y \<Longrightarrow> (\<forall>ks w. V (snd (bk_Delete bk ks w)) = V w) \<longrightarrow> V (snd y) = V w"
  apply (erule delete_loop.raw_induct [rotated])
  subgoal for f bk paths w y
    by (cases "bk_Delete bk (take 1000 paths) w") (auto split: if_splits sum.splits, (metis snd_conv)+)
  done

lemma list_loop_view:
  "list_loop bk prefix marker found w = Some y \<Longrightarrow> (\<forall>p m w. V (snd (bk_List bk p m w)) = V w) \<longrightarrow> V (snd y) = V w"
  apply (erule list_loop.raw_induct [rotated])
  subgoal for f bk prefix marker found w y
  proof
    assume ih: "\<And>bk prefix marker found w y. f bk prefix marker found w = Some y \<Longrightarrow>
        (\<forall>p m w. V (snd (bk_List bk p m w)) = V w) \<longrightarrow> V (snd y) = V w"
      and body: "(case bk_List bk prefix marker w of (Inl e, w) \<Rightarrow> Some (Err (Text (''failed to list objects with prefix: '' @ e)), w)
        | (Inr (objects, truncated, token), w) \<Rightarrow> if \<not> truncated then Some (Ok (found @ objects), w) else f bk prefix token (found @ objects) w) = Some y"
      and v: "\<forall>p m w. V (snd (bk_List bk p m w)) = V w"
    obtain x w1 where l: "bk_List bk prefix marker w = (x, w1)" by (cases "bk_List bk prefix marker w")
    with v have "V w1 = V w" by (metis snd_conv)
    with body l ih v show "V (snd y) = V w" by (cases y) (auto split: sum.splits if_splits)
  qed
  done

lemma run_effect: "run_state (effect f) w = (Ok (fst (f w)), snd (f w))"
  by (simp add: effect_def split: prod.split)

lemma tkeeps_effects:
  assumes "apart tr V"
  shows "tkeeps X V (effect (tr_changed tr)) (\<lambda>_. True)" "tkeeps X V (effect (tr_uuid tr)) (\<lambda>_. True)"
    "tkeeps X V (effect (tr_Do tr a b c d)) (\<lambda>_. True)" "tkeeps X V (effect (tr_shuffle tr ids)) (\<lambda>_. True)"
  by (rule keeps_view [where V = V], simp add: run_effect apartD [OF assms])+

lemma tkeeps_bucket:
  assumes "apart tr V"
  shows "tkeeps X V (UploadFile (tr_bucket tr) k c) (\<lambda>_. True)" "tkeeps X V (GetObjectContent (tr_bucket tr) k) (\<lambda>_. True)"
    "tkeeps X V (AppendToObject (tr_bucket tr) k p n) (\<lambda>_. True)"
    "tkeeps X V (DeleteFiles (tr_bucket tr) ks) (\<lambda>_. True)" "tkeeps X V (ListObjectsWithPrefix (tr_bucket tr) p) (\<lambda>_. True)"
    "tkeeps X V (WriteLines (tr_bucket tr) k ls) (\<lambda>_. True)" "tkeeps X V (ReadLines (tr_bucket tr) k) (\<lambda>_. True)"
proof -
  note A = apartD [OF assms]
  have u: "tkeeps X V (UploadFile (tr_bucket tr) k c) (\<lambda>_. True)" for c
  proof (rule keeps_view [where V = V])
    fix w
    show "V (snd (run_state (UploadFile (tr_bucket tr) k c) w)) = V w"
      using A(6) [of k c w] by (cases "bk_Put (tr_bucket tr) k c w") (auto simp: UploadFile_def split: option.split)
  qed
  then show "tkeeps X V (UploadFile (tr_bucket tr) k c) (\<lambda>_. True)" .
  show g: "tkeeps X V (GetObjectContent (tr_bucket tr) k) (\<lambda>_. True)"
  proof (rule keeps_view [where V = V])
    fix w
    show "V (snd (run_state (GetObjectContent (tr_bucket tr) k) w)) = V w"
      using A(5) [of k w] by (cases "bk_Get (tr_bucket tr) k w") (auto simp: GetObjectContent_def split: sum.split)
  qed
  show "tkeeps X V (AppendToObject (tr_bucket tr) k p n) (\<lambda>_. True)"
  proof (rule keeps_view [where V = V])
    fix w
    obtain x w1 where 1: "bk_Get (tr_bucket tr) k w = (x, w1)" by (cases "bk_Get (tr_bucket tr) k w")
    have v: "V w1 = V w" using A(5) [of k w] 1 by simp
    show "V (snd (run_state (AppendToObject (tr_bucket tr) k p n) w)) = V w"
    proof (cases x)
      case (Inl e)
      with 1 v show ?thesis by (auto simp: AppendToObject_def split: oss_err.split)
    next
      case (Inr b)
      with 1 v A(7) [of p b n w1] show ?thesis by (cases "bk_Append (tr_bucket tr) p b n w1") (auto simp: AppendToObject_def split: sum.split)
    qed
  qed
  show "tkeeps X V (DeleteFiles (tr_bucket tr) ks) (\<lambda>_. True)"
    by (rule keeps_view [where V = V]) (auto simp: DeleteFiles_def returned_def A split: option.split dest: delete_loop_view [where V = V])
  show "tkeeps X V (ListObjectsWithPrefix (tr_bucket tr) p) (\<lambda>_. True)"
    by (rule keeps_view [where V = V]) (auto simp: ListObjectsWithPrefix_def returned_def A split: option.split dest: list_loop_view [where V = V])
  show "tkeeps X V (WriteLines (tr_bucket tr) k ls) (\<lambda>_. True)" unfolding WriteLines_def by (rule u)
  show "tkeeps X V (ReadLines (tr_bucket tr) k) (\<lambda>_. True)" unfolding ReadLines_def by (rule keeps_chk_inv [OF g]) (simp add: keeps_ok)
qed

lemmas tkeeps_env = tkeeps_effects tkeeps_bucket

text \<open>The moves that the passes make with statuses of their own.\<close>

lemma movable_consts [simp]:
  "movable X i StatusPending StatusValidating" "movable X i StatusValidating StatusInProgress" "movable X i StatusValidating StatusFailed"
  "movable X i StatusInProgress StatusFinalizing" "movable X i StatusFinalizing StatusFinalize" "movable X i StatusCancelling StatusCancelled"
  "movable X i StatusValidating StatusCancelling" "movable X i StatusInProgress StatusCancelling"
  by (simp_all add: movable_def task_statuses_def)

lemma tkeeps_moves:
  assumes "safe X rd V" "movable X i from to"
  shows "tkeeps X V (MoveTaskAndUpdateStatusAtomically rd i from to) (\<lambda>_. True)" "tkeeps X V (MoveTaskAtomically rd i from to) (\<lambda>_. True)"
  by (rule keeps_any [OF tkeeps_move(1) [OF assms]] keeps_any [OF tkeeps_move(2) [OF assms]])+

lemma tkeeps_GetTask_any: "safe X rd V \<Longrightarrow> tkeeps X V (GetTask rd js i) (\<lambda>_. True)"
  by (rule keeps_any [OF tkeeps_GetTask])

lemmas tkeeps_basic = tkeeps_store tkeeps_env tkeeps_moves tkeeps_GetTask_any keeps_now keeps_clock keeps_ok keeps_fail

lemma tkeeps_locking:
  assumes "safe X (tr_redis tr) V"
  shows "tkeeps X V (lock_task tr i) (\<lambda>_. True)" "tkeeps X V (unlock_task tr i) (\<lambda>_. True)" "tkeeps X V (unlock_shard tr i j u) (\<lambda>_. True)"
    "tkeeps X V (task_tick tr due i s) (\<lambda>_. True)" "tkeeps X V (shard_tick tr due i j u s) (\<lambda>_. True)"
  unfolding lock_task_def unlock_task_def unlock_shard_def task_tick_def shard_tick_def left_set_def
  using assms by (auto intro!: keeps_intros tkeeps_basic)

lemma tkeeps_cleanup:
  assumes "safe X (tr_redis tr) V" "apart tr V"
  shows "tkeeps X V (cleanupTaskShardMeta tr i) (\<lambda>_. True)"
  unfolding cleanupTaskShardMeta_def cleanupShardOSSFiles_def cleanupShardMeta_def Let_def
  using assms by (auto intro!: keeps_intros tkeeps_basic)

lemma tkeeps_shard_loop:
  assumes "safe X (tr_redis tr) V" "apart tr V"
  shows "tkeeps X V (shard_loop tr i n cur c ls) (\<lambda>_. True)"
proof -
  have c: "tkeeps X V (createFileShard tr i j ls) (\<lambda>_. True)" for j ls
    unfolding createFileShard_def using assms by (auto intro!: keeps_intros tkeeps_basic)
  show ?thesis
    by (induction ls arbitrary: n cur c) (use assms in \<open>auto simp: Let_def intro!: keeps_intros tkeeps_basic c\<close>)
qed

lemma tkeeps_validating:
  assumes "safe X (tr_redis tr) V" "apart tr V"
  shows "tkeeps X V (processSingleValidatingTask tr) (\<lambda>_. True)"
proof -
  have v: "tkeeps X V (validateInputFile tr i ls) (\<lambda>_. True)" for i ls
    unfolding validateInputFile_def using assms by (auto intro!: keeps_intros tkeeps_basic split: option.split)
  have p: "tkeeps X V (processValidatingTask tr i) (\<lambda>_. True)" for i
    unfolding processValidatingTask_def shardInputFile_def
    apply (rule keeps_chk [OF keeps_wrapped [OF tkeeps_GetTask [OF assms(1)]]])
    using assms by (auto intro!: keeps_intros tkeeps_basic tkeeps_cleanup v tkeeps_shard_loop tkeeps_updates(1) split: prod.split)
  have s: "tkeeps X V (first_stale tr ids) (\<lambda>_. True)" for ids
    by (induction ids) (use assms in \<open>auto simp: Let_def intro!: keeps_intros tkeeps_basic tkeeps_locking\<close>)
  have f: "tkeeps X V (handleValidatingFailover tr) (\<lambda>_. True)"
    unfolding handleValidatingFailover_def using assms by (auto intro!: keeps_intros tkeeps_basic s)
  show ?thesis
    unfolding processSingleValidatingTask_def with_task_lock_def
    using assms by (auto intro!: keeps_intros tkeeps_basic tkeeps_locking f p split: option.split)
qed

lemma tkeeps_processShard:
  assumes "safe X (tr_redis tr) V" "apart tr V"
  shows "tkeeps X V (processShard tr i j) (\<lambda>_. True)"
proof -
  have t: "tkeeps X V (request_tries tr url rid tok b n) (\<lambda>_. True)" for url rid tok b n
    by (induction n) (use assms in \<open>auto intro!: keeps_intros tkeeps_basic\<close>)
  have r: "tkeeps X V (processRequest tr l task i) (\<lambda>_. True)" for l task
    unfolding processRequest_def Let_def using assms by (auto intro!: keeps_intros tkeeps_basic t split: sum.split option.split)
  have l: "tkeeps X V (process_lines tr task i outs errs ls) (\<lambda>_. True)" for task outs errs ls
    by (induction ls arbitrary: outs errs) (use assms in \<open>auto intro!: keeps_intros tkeeps_basic r split: prod.split\<close>)
  show ?thesis
    unfolding processShard_def write_some_def Let_def using assms by (auto intro!: keeps_intros tkeeps_basic l split: prod.split)
qed

lemma tkeeps_inprogress:
  assumes "safe X (tr_redis tr) V" "apart tr V"
  shows "tkeeps X V (processSingleInProgressTask tr u) (\<lambda>_. True)"
proof -
  have r: "tkeeps X V (first_recovered tr i u ids) (\<lambda>_. True)" for i ids
    by (induction ids) (use assms in \<open>auto intro!: keeps_intros tkeeps_basic\<close>)
  have t: "tkeeps X V (take_recovered tr i u) (\<lambda>_. True)" "tkeeps X V (take_pending tr i u j) (\<lambda>_. True)" for i j
    unfolding take_recovered_def handleInProgressShardFailover_def take_pending_def
    using assms by (auto intro!: keeps_intros tkeeps_basic tkeeps_locking r split: option.split)
  have f: "tkeeps X V (finish_shard tr i j) (\<lambda>_. True)" for i j
    unfolding finish_shard_def using assms by (auto intro!: keeps_intros tkeeps_basic tkeeps_processShard)
  have p: "tkeeps X V (processTaskShards tr i u) (\<lambda>_. True)" for i
    unfolding processTaskShards_def using assms by (auto intro!: keeps_intros tkeeps_basic tkeeps_locking t f split: option.split)
  have c: "tkeeps X V (CheckShardsAndMoveToFinalizing tr i) (\<lambda>_. True)" for i
    unfolding CheckShardsAndMoveToFinalizing_def using assms by (auto intro!: keeps_intros tkeeps_basic tkeeps_reads tkeeps_locking)
  show ?thesis
    unfolding processSingleInProgressTask_def using assms by (auto intro!: keeps_intros tkeeps_basic p c)
qed

lemma tkeeps_finalize_shards:
  assumes "safe X (tr_redis tr) V" "apart tr V"
  shows "tkeeps X V (finalize_shards tr i keys p q ids fs) (\<lambda>_. True)"
proof -
  have s: "tkeeps X V (finalize_shard tr i keys p q j fs) (\<lambda>_. True)" for j fs
    unfolding finalize_shard_def Let_def using assms by (auto intro!: keeps_intros tkeeps_basic split: option.split)
  show ?thesis
    by (induction ids arbitrary: fs) (use assms in \<open>auto intro!: keeps_intros tkeeps_basic s\<close>)
qed

text \<open>Only a task that this pass has moved into the finalize set is moved out of it.\<close>

lemma tkeeps_complete:
  assumes "safe X (tr_redis tr) V" "i \<notin> X"
  shows "tkeeps X V (complete_task tr i task o1 e1 fs) (\<lambda>_. True)"
proof -
  have "movable X i StatusFinalize StatusCompleted" "StatusCompleted \<in> set task_statuses" using assms(2) by (simp_all add: movable_def task_statuses_def)
  then show ?thesis
    unfolding complete_task_def Let_def using assms by (auto intro!: keeps_intros tkeeps_basic tkeeps_updates(1))
qed

lemma tkeeps_finalizing:
  assumes "safe X (tr_redis tr) V" "apart tr V"
  shows "tkeeps X V (processSingleFinalizingTask tr) (\<lambda>_. True)"
proof -
  have p: "tkeeps X V (processFinalizingTask tr i) (\<lambda>_. True)" for i
    unfolding processFinalizingTask_def Let_def
    apply (rule keeps_chk [OF keeps_wrapped [OF tkeeps_move(1) [OF assms(1)]]])
    using assms by (auto intro!: keeps_intros tkeeps_basic tkeeps_finalize_shards tkeeps_complete split: option.split)
  show ?thesis
    unfolding processSingleFinalizingTask_def with_task_lock_def
    using assms by (auto intro!: keeps_intros tkeeps_basic tkeeps_locking p tkeeps_cleanup)
qed

lemma tkeeps_expired:
  assumes "safe X (tr_redis tr) V"
  shows "tkeeps X V (processExpiredTasks tr) (\<lambda>_. True)"
proof -
  have m: "tkeeps X V (processExpiredTask tr i) (\<lambda>_. True)" if "i \<notin> X" for i
  proof -
    have "movable X i s StatusExpired" if "s \<in> set task_statuses" for s
      using that \<open>i \<notin> X\<close> by (simp add: movable_def task_statuses_def)
    then have c: "tkeeps X V (chk (wrapped msg (GetTaskStatus (tr_redis tr) i)) (\<lambda>s. wrapped msg' (MoveTaskAndUpdateStatusAtomically (tr_redis tr) i s StatusExpired))) (\<lambda>_. True)"
      for msg msg'
      by (intro keeps_chk [OF keeps_wrapped [OF tkeeps_status [OF assms]]] keeps_wrapped tkeeps_moves(1) [OF assms])
    show ?thesis
      unfolding processExpiredTask_def
      by (rule keeps_chk_inv [OF tkeeps_locking(1) [OF assms]]) (auto intro!: keeps_deferred c tkeeps_locking assms keeps_fail)
  qed
  have "tkeeps X V (GetExpiredTasks (tr_redis tr) [StatusPending, StatusValidating, StatusInProgress, StatusFinalizing]) (\<lambda>ids. set ids \<inter> X = {})"
    by (rule tkeeps_GetExpiredTasks [OF assms]) (simp add: task_statuses_def)
  then show ?thesis
    unfolding processExpiredTasks_def by (rule keeps_attempt) (auto intro!: keeps_for_each keeps_logged_only m keeps_ok)
qed

lemma tkeeps_cancelling:
  assumes "safe X (tr_redis tr) V" "apart tr V"
  shows "tkeeps X V (processSingleCancellingTask tr) (\<lambda>_. True)"
proof -
  have h: "tkeeps X V (handleShardCancellation tr i) (\<lambda>_. True)" for i
    unfolding handleShardCancellation_def using assms by (auto intro!: keeps_intros tkeeps_basic)
  have p: "tkeeps X V (processCancellingTask tr i) (\<lambda>_. True)" for i
    unfolding processCancellingTask_def using assms by (auto intro!: keeps_intros tkeeps_basic h tkeeps_cleanup)
  show ?thesis
    unfolding processSingleCancellingTask_def with_task_lock_def
    using assms by (auto intro!: keeps_intros tkeeps_basic tkeeps_locking p)
qed

subsection \<open>Sharding\<close>

text \<open>The monitor has nothing to report.\<close>

definition unchanged :: "'w reactor \<Rightarrow> bool" where
  "unchanged tr \<longleftrightarrow> (\<forall>w. tr_changed tr w = (False, w))"

lemma chk_changed: "unchanged tr \<Longrightarrow> chk (effect (tr_changed tr)) f = f False"
  by (rule state.expand) (simp add: fun_eq_iff run_chk run_effect unchanged_def)

lemma chk_ok: "chk (ok x) f = f x"
  by (rule state.expand) (simp add: fun_eq_iff run_chk)

lemma chk_chk: "chk (chk m f) g = chk m (\<lambda>x. chk (f x) g)"
  by (rule state.expand) (simp add: fun_eq_iff run_chk split: prod.split io.split)

definition file_lines :: "string list \<Rightarrow> string list" where
  "file_lines ls = filter (\<lambda>l. l \<noteq> []) (map TrimSpace ls)"

text \<open>Blocks of \<open>k\<close> lines, the last one with what is left.\<close>

function blocks :: "nat \<Rightarrow> 'a list \<Rightarrow> 'a list list" where
  "blocks k xs = (if xs = [] \<or> k = 0 then [] else take k xs # blocks k (drop k xs))"
  by auto
termination by (relation "measure (\<lambda>(k, xs). length xs)") auto

declare blocks.simps [simp del]

lemma blocks_Nil [simp]: "blocks k [] = []"
  by (simp add: blocks.simps)

lemma blocks_full: "0 < length xs \<Longrightarrow> blocks (length xs) (xs @ ys) = xs # blocks (length xs) ys"
  by (subst blocks.simps) auto

lemma blocks_short: "0 < length xs \<Longrightarrow> length xs < k \<Longrightarrow> blocks k xs = [xs]"
  by (subst blocks.simps) auto

lemma blocks_concat: "0 < k \<Longrightarrow> concat (blocks k xs) = xs"
proof (induction k xs rule: blocks.induct)
  case (1 k xs)
  then show ?case by (subst blocks.simps) auto
qed

lemma blocks_size: "b \<in> set (blocks k xs) \<Longrightarrow> 0 < length b \<and> length b \<le> k"
proof (induction k xs rule: blocks.induct)
  case (1 k xs)
  from 1(2) have "xs \<noteq> []" "0 < k" by (auto simp: blocks.simps [of k xs] split: if_splits)
  with 1 show ?case by (auto simp: blocks.simps [of k xs])
qed

definition create_shards :: "'w reactor \<Rightarrow> string \<Rightarrow> nat \<Rightarrow> string list list \<Rightarrow> ('w, unit) act" where
  "create_shards tr taskID n bs = for_each (\<lambda>(i, b). createFileShard tr taskID (show_nat i) b) (enumerate n bs)"

definition shard_size :: "'w reactor \<Rightarrow> nat" where
  "shard_size tr = max 1 (nat (sint (tr_linesPerShard tr)))"

lemma shard_loop_blocks:
  assumes "unchanged tr" "length current < shard_size tr"
  shows "shard_loop tr taskID n current c ls =
    chk (create_shards tr taskID n (blocks (shard_size tr) (current @ file_lines ls)))
      (\<lambda>_. ok (c + length (file_lines ls), n + length (blocks (shard_size tr) (current @ file_lines ls))))"
  using assms(2)
proof (induction ls arbitrary: n current c)
  case Nil
  then show ?case
    by (cases "current = []") (simp_all add: file_lines_def create_shards_def blocks_short chk_ok chk_chk)
next
  case (Cons l ls)
  let ?k = "shard_size tr"
  show ?case
  proof (cases "TrimSpace l = []")
    case True
    with Cons show ?thesis by (simp add: file_lines_def)
  next
    case False
    let ?cur = "current @ [TrimSpace l]"
    have f: "file_lines (l # ls) = TrimSpace l # file_lines ls" using False by (simp add: file_lines_def)
    have full: "sint (tr_linesPerShard tr) \<le> int (length ?cur) \<longleftrightarrow> length ?cur = ?k"
      using Cons.prems by (auto simp: shard_size_def)
    show ?thesis
    proof (cases "length ?cur = ?k")
      case True
      have b: "blocks ?k (current @ TrimSpace l # file_lines ls) = ?cur # blocks ?k (file_lines ls)"
        using blocks_full [of ?cur "file_lines ls"] True by simp
      have ih: "shard_loop tr taskID (Suc n) [] (Suc c) ls = chk (create_shards tr taskID (Suc n) (blocks ?k (file_lines ls)))
          (\<lambda>_. ok (Suc c + length (file_lines ls), Suc n + length (blocks ?k (file_lines ls))))"
        using Cons.IH [of "[]" "Suc n" "Suc c"] by (simp add: shard_size_def)
      show ?thesis
        using False full True by (simp add: Let_def chk_changed [OF assms(1)] ih b f create_shards_def chk_chk)
    next
      case nf: False
      with Cons.prems have "length ?cur < ?k" by simp
      from Cons.IH [OF this, of n "Suc c"] False full nf show ?thesis
        by (simp add: Let_def chk_changed [OF assms(1)] f)
    qed
  qed
qed

text \<open>C12. Sharding cuts the trimmed lines of the file that are not empty into blocks of the configured size, at least one, and makes
  one shard of each block in order, numbered from 0; it counts the lines and the shards.  The blocks put together are the lines, and none
  of them is empty or too long.\<close>

theorem sharding_exact:
  assumes "unchanged tr"
  shows "shardInputFile tr taskID ls =
      chk (create_shards tr taskID 0 (blocks (shard_size tr) (file_lines ls)))
        (\<lambda>_. ok (length (file_lines ls), length (blocks (shard_size tr) (file_lines ls)))) \<and>
    concat (blocks (shard_size tr) (file_lines ls)) = file_lines ls \<and>
    list_all (\<lambda>b. 0 < length b \<and> length b \<le> shard_size tr) (blocks (shard_size tr) (file_lines ls))"
proof -
  have k: "0 < shard_size tr" by (simp add: shard_size_def)
  from shard_loop_blocks [OF assms, of "[]" taskID 0 0 ls] k
  have "shardInputFile tr taskID ls =
      chk (create_shards tr taskID 0 (blocks (shard_size tr) (file_lines ls)))
        (\<lambda>_. ok (length (file_lines ls), length (blocks (shard_size tr) (file_lines ls))))"
    by (simp add: shardInputFile_def)
  with blocks_concat [OF k, of "file_lines ls"] show ?thesis by (auto simp: list_all_iff dest: blocks_size)
qed

subsection \<open>The responses of a shard\<close>

text \<open>Every line sent in turn.\<close>

fun responses :: "'w reactor \<Rightarrow> BatchTask \<Rightarrow> string \<Rightarrow> string list \<Rightarrow> ('w, (string \<times> bool) list) act" where
  "responses tr task taskID [] = ok []"
| "responses tr task taskID (l # ls) =
     chk (processRequest tr l task taskID) (\<lambda>r. chk (responses tr task taskID ls) (\<lambda>rs. ok (r # rs)))"

definition succeeded :: "(string \<times> bool) list \<Rightarrow> string list" where
  "succeeded rs = map fst (filter (\<lambda>r. \<not> snd r) rs)"

definition failed :: "(string \<times> bool) list \<Rightarrow> string list" where
  "failed rs = map fst (filter snd rs)"

lemma process_lines_responses:
  assumes "unchanged tr"
  shows "process_lines tr task taskID outs errs ls =
    chk (responses tr task taskID (filter (\<lambda>l. l \<noteq> []) ls)) (\<lambda>rs. ok (outs @ succeeded rs, errs @ failed rs))"
proof (induction ls arbitrary: outs errs)
  case Nil
  show ?case by (simp add: chk_ok succeeded_def failed_def)
next
  case (Cons l ls)
  have r: "(\<lambda>(response, isError). if isError then process_lines tr task taskID outs (errs @ [response]) ls
           else process_lines tr task taskID (outs @ [response]) errs ls) =
      (\<lambda>r. chk (responses tr task taskID (filter (\<lambda>l. l \<noteq> []) ls)) (\<lambda>rs. ok (outs @ succeeded (r # rs), errs @ failed (r # rs))))"
    by (auto simp: fun_eq_iff Cons.IH succeeded_def failed_def)
  show ?case by (simp add: Cons.IH chk_changed [OF assms] r chk_chk chk_ok)
qed


subsection \<open>A reactor in memory\<close>

definition mem_uuid :: "mem \<Rightarrow> string" where
  "mem_uuid w = replicate (sum_list (map length (concat (map (\<lambda>s. mm_set w (getTaskSetKey s)) task_statuses)))) (CHR ''a'')"

definition mem_bucket :: "mem bucket" where
  "mem_bucket = \<lparr>bk_Get = (\<lambda>k w. (Inl NoSuchKey, w)), bk_Put = (\<lambda>k x w. (None, w)), bk_Append = (\<lambda>k x n w. (Inr (n + of_nat (length x)), w)),
     bk_Delete = (\<lambda>ks w. (Inr (length ks), w)), bk_List = (\<lambda>p m w. (Inr ([], False, []), w))\<rparr>"

definition mem_reactor :: "mem reactor" where
  "mem_reactor = \<lparr>tr_redis = mem_redis, tr_json = ex_json, tr_bucket = mem_bucket, tr_instanceID = ''gw'', tr_ossPrefix = ''batch'', tr_linesPerShard = 2,
     tr_retries = 1, tr_port = 8080, tr_changed = (\<lambda>w. (False, w)), tr_uuid = (\<lambda>w. (mem_uuid w, w)), tr_shuffle = Pair,
     tr_parse = (\<lambda>l. Inr \<lparr>sl_CustomID = l, sl_Method = ''POST'', sl_URL = ''/v1/completions'', sl_Body = Some l\<rparr>), tr_customID = id,
     tr_newRequest = (\<lambda>_. None), tr_Do = (\<lambda>_ _ _ b w. (HttpResp 200 (Inr b), w)), tr_marshal = (\<lambda>r. Inr (lp_CustomID r))\<rparr>"

theorem sharding_exact_witness:
  "shardInputFile mem_reactor ''batch_1'' [''a'', [], ''b '', ''c''] =
     chk (create_shards mem_reactor ''batch_1'' 0 [[''a'', ''b''], [''c'']]) (\<lambda>_. ok (3, 2))"
proof -
  have u: "unchanged mem_reactor" by (simp add: unchanged_def mem_reactor_def)
  have l: "file_lines [''a'', [], ''b '', ''c''] = [''a'', ''b'', ''c'']" by code_simp
  have b: "blocks 2 [''a'', ''b'', ''c''] = [[''a'', ''b''], [''c'']]" by (simp add: blocks.simps)
  have "shard_size mem_reactor = 2" by (simp add: shard_size_def mem_reactor_def)
  with sharding_exact [OF u, of "''batch_1''" "[''a'', [], ''b '', ''c'']"] l b show ?thesis by (simp add: numeral_3_eq_3 numeral_2_eq_2)
qed


end
