(* ===== verification/Batch_Handlers.thy ===== *)
theory Batch_Handlers
  imports Batch_Reactor
begin

text \<open>
  The HTTP interface of the batch service: \<open>pkg/gateway/batch/handlers.go\<close>.

  A request is given by what the handler reads of it, an answer by its status and text or by the record
  it carries.  \<open>sort.Slice\<close> leaves the order of equal keys open; the model keeps it.

  Lemmas: every handler keeps each task in at most one set; pages of a list follow each other.
\<close>

subsection \<open>Answers\<close>

text \<open>A list carries the first and the last id and whether there is more.\<close>

datatype answer =
    Refused i64 string
  | FileCreated File "i64 option"
  | FileAnswer File
  | FileList "File list" "(string \<times> string) option" bool
  | FileDeleted string string
  | FileContent string string
  | TaskAnswer BatchTask
  | TaskList "BatchTask list" "(string \<times> string) option" bool

record 'w BatchHandler =
  bh_redisStore :: "'w redis"
  bh_json :: json
  bh_ossClient :: "'w bucket"
  bh_reactor :: "'w reactor"
  bh_instanceID :: string

text \<open>An error answered with its text, and one that is logged and answered without.\<close>

definition or_report :: "i64 \<Rightarrow> string \<Rightarrow> ('w, 'a) act \<Rightarrow> ('a \<Rightarrow> ('w, answer) act) \<Rightarrow> ('w, answer) act" where
  "or_report code msg m f = attempt m f (\<lambda>e. ok (Refused code (msg @ '': '' @ err_text e)))"

definition or_refuse :: "i64 \<Rightarrow> string \<Rightarrow> ('w, 'a) act \<Rightarrow> ('a \<Rightarrow> ('w, answer) act) \<Rightarrow> ('w, answer) act" where
  "or_refuse code msg m f = attempt m f (\<lambda>_. ok (Refused code msg))"

definition ends :: "('a \<Rightarrow> string) \<Rightarrow> 'a list \<Rightarrow> (string \<times> string) option" where
  "ends f xs = (if 0 < length xs then Some (f (hd xs), f (last xs)) else None)"

definition stripInternalFields :: "BatchTask \<Rightarrow> BatchTask" where
  "stripInternalFields t = t\<lparr>bt_OutputExpiresAfter := None, bt_UpdatedAt := None, bt_Token := None\<rparr>"

subsection \<open>Files\<close>

text \<open>The form of an upload: the error of its parsing, the file with size and name or the error of
  getting it, and the values of the form.\<close>

record upload =
  up_form :: "string option"
  up_file :: "string + i64 \<times> string \<times> string"
  up_purpose :: string
  up_anchor :: string
  up_seconds :: string

definition MaxFileSize :: i64 where "MaxFileSize = 209715200"

definition handleFileUpload :: "'w BatchHandler \<Rightarrow> upload \<Rightarrow> ('w, answer) act" where
  "handleFileUpload h r =
     (case up_form r of
        Some e \<Rightarrow> ok (Refused 400 (''Failed to parse form: '' @ e))
      | None \<Rightarrow>
     (case up_file r of
        Inl e \<Rightarrow> ok (Refused 400 (''Failed to get file: '' @ e))
      | Inr (bytes, filename, content) \<Rightarrow>
          if sint MaxFileSize < sint bytes
          then ok (Refused 400 (''File size exceeds maximum allowed size of '' @ show64 MaxFileSize @ '' bytes. File size: '' @ show64 bytes @ '' bytes''))
          else if up_purpose r = [] then ok (Refused 400 ''Purpose is required'')
          else if (up_anchor r \<noteq> [] \<and> up_seconds r = []) \<or> (up_anchor r = [] \<and> up_seconds r \<noteq> [])
          then ok (Refused 400 ''Both expires_after[anchor] and expires_after[seconds] are required when expires_after is specified'')
          else chk (effect (tr_uuid (bh_reactor h))) (\<lambda>u.
               let fileID = ''batch_input_'' @ u
               in or_report 500 ''Failed to upload file'' (UploadFile (bh_ossClient h) (getFileOSSPath (bh_reactor h) fileID) content) (\<lambda>_.
                  chk (now (bh_redisStore h)) (\<lambda>createdAt.
                  let save = (\<lambda>expiresAt.
                        let file = \<lparr>fl_ID = fileID, fl_Object = ''file'', fl_Bytes = bytes, fl_CreatedAt = createdAt, fl_ExpiresAt = expiresAt,
                              fl_Filename = filename, fl_Purpose = up_purpose r\<rparr>
                        in or_report 500 ''Failed to save file record'' (CreateFile (bh_redisStore h) file) (\<lambda>_.
                           ok (FileCreated file (if 0 < sint expiresAt then Some expiresAt else None))))
                  in if up_anchor r \<noteq> [] \<and> up_seconds r \<noteq> [] then
                       (if up_anchor r \<noteq> ''created_at''
                        then ok (Refused 400 (''Only '' @ quoted ''created_at'' @ '' is supported for expires_after[anchor]''))
                        else let (seconds, valid) = Atoi (up_seconds r)
                             in if \<not> valid then ok (Refused 400 ''expires_after[seconds] must be a valid integer'')
                                else save (createdAt + seconds))
                     else save 0)))))"

fun files_of :: "'w BatchHandler \<Rightarrow> string list \<Rightarrow> ('w, File list) act" where
  "files_of h [] = ok []"
| "files_of h (fileID # ids) =
     attempt (GetFile (bh_redisStore h) fileID) (\<lambda>file. chk (files_of h ids) (\<lambda>fs. ok (file # fs))) (\<lambda>_. files_of h ids)"

definition handleListFiles :: "'w BatchHandler \<Rightarrow> ('w, answer) act" where
  "handleListFiles h =
     or_refuse 500 ''Failed to get file list'' (GetAllFiles (bh_redisStore h)) (\<lambda>ids.
     chk (files_of h ids) (\<lambda>fs.
     let files = sort_stable (\<lambda>a b. sint (fl_CreatedAt b) < sint (fl_CreatedAt a)) fs
     in ok (FileList files (ends fl_ID files) False)))"

datatype http_method = GET | POST | DELETE | OtherMethod

abbreviation not_allowed :: "('w, answer) act" where "not_allowed \<equiv> ok (Refused 405 ''Method not allowed'')"

definition FilesHandler :: "'w BatchHandler \<Rightarrow> http_method \<Rightarrow> upload \<Rightarrow> ('w, answer) act" where
  "FilesHandler h meth r = (case meth of POST \<Rightarrow> handleFileUpload h r | GET \<Rightarrow> handleListFiles h | _ \<Rightarrow> not_allowed)"

definition FileHandler :: "'w BatchHandler \<Rightarrow> http_method \<Rightarrow> string \<Rightarrow> ('w, answer) act" where
  "FileHandler h meth fileID =
     (case meth of
        GET \<Rightarrow> or_report 404 ''File not found'' (GetFile (bh_redisStore h) fileID) (\<lambda>file. ok (FileAnswer file))
      | DELETE \<Rightarrow>
          or_report 404 ''File not found'' (GetFile (bh_redisStore h) fileID) (\<lambda>file.
          or_refuse 500 ''Failed to delete file'' (DeleteFile (bh_redisStore h) fileID) (\<lambda>_. ok (FileDeleted (fl_ID file) (fl_Object file))))
      | _ \<Rightarrow> not_allowed)"

definition GetFileContentHandler :: "'w BatchHandler \<Rightarrow> string \<Rightarrow> ('w, answer) act" where
  "GetFileContentHandler h fileID =
     or_report 404 ''File not found'' (GetFile (bh_redisStore h) fileID) (\<lambda>file.
     or_report 500 ''Failed to retrieve file content'' (GetObjectContent (bh_ossClient h) (getFileOSSPath (bh_reactor h) fileID)) (\<lambda>content.
     ok (FileContent (fl_Filename file) content)))"

subsection \<open>Tasks\<close>

record create_request =
  cb_InputFileID :: string
  cb_Endpoint :: string
  cb_Model :: string
  cb_CompletionWindow :: string
  cb_Metadata :: "(string, string) gmap"
  cb_OutputExpiresAfter :: "OutputExpiresAfter option"

definition bearerToken :: "string \<Rightarrow> string option" where
  "bearerToken authHeader = (if authHeader \<noteq> [] \<and> HasPrefix authHeader ''Bearer '' then Some (drop 7 authHeader) else None)"

definition supported_endpoints :: "string list" where
  "supported_endpoints = [''/v1/responses'', ''/v1/chat/completions'', ''/v1/embeddings'', ''/v1/completions'']"

definition request_error :: "create_request \<Rightarrow> string option" where
  "request_error q =
     (case (if 0 < length (cb_Metadata q) then ValidateMetadata (cb_Metadata q) else None) of
        Some e \<Rightarrow> Some (''Invalid metadata: '' @ metadata_error e)
      | None \<Rightarrow>
          if (case cb_OutputExpiresAfter q of None \<Rightarrow> False | Some x \<Rightarrow> oe_Anchor x \<noteq> ''created_at'')
          then Some (''output_expires_after.anchor must be '' @ quoted ''created_at'')
          else if (case cb_OutputExpiresAfter q of None \<Rightarrow> False | Some x \<Rightarrow> sint (oe_Seconds x) < 3600 \<or> 2592000 < sint (oe_Seconds x))
          then Some ''output_expires_after.seconds must be between 3600 (1 hour) and 2592000 (30 days)''
          else if cb_InputFileID q = [] then Some ''input_file_id is required''
          else if cb_Endpoint q = [] then Some ''endpoint is required''
          else if cb_Endpoint q \<notin> set supported_endpoints
          then Some (''endpoint must be one of '' @ quoted ''/v1/responses'' @ '', '' @ quoted ''/v1/chat/completions'' @ '', '' @
                 quoted ''/v1/embeddings'' @ '', or '' @ quoted ''/v1/completions'')
          else None)"

definition new_task :: "create_request \<Rightarrow> string option \<Rightarrow> string \<Rightarrow> i64 \<Rightarrow> BatchTask" where
  "new_task q token taskID t =
     \<lparr>bt_ID = taskID, bt_Object = ''batch'', bt_Endpoint = cb_Endpoint q, bt_Model = cb_Model q, bt_Errors = None, bt_InputFileID = cb_InputFileID q,
      bt_CompletionWindow = ''24h'', bt_Status = StatusPending, bt_OutputFileID = None, bt_ErrorFileID = None, bt_CreatedAt = Some t, bt_InProgressAt = None,
      bt_ExpiresAt = t + 86400, bt_FinalizingAt = None, bt_CompletedAt = None, bt_FailedAt = None, bt_ExpiredAt = None, bt_CancellingAt = None,
      bt_CancelledAt = None, bt_RequestCounts = Some \<lparr>qc_Total = 0, qc_Completed = 0, qc_Failed = 0\<rparr>, bt_Usage = None, bt_Metadata = cb_Metadata q,
      bt_OutputExpiresAfter = cb_OutputExpiresAfter q, bt_UpdatedAt = Some t, bt_Token = token\<rparr>"

text \<open>The only completion window that is accepted is 24 hours, so parsing it gives 86400 seconds.
  The body is decoded to a request or to an error.\<close>

definition handleCreateBatchTask :: "'w BatchHandler \<Rightarrow> string \<Rightarrow> string + create_request \<Rightarrow> ('w, answer) act" where
  "handleCreateBatchTask h authHeader body =
     (case body of
        Inl e \<Rightarrow> ok (Refused 400 (''Failed to decode request: '' @ e))
      | Inr q \<Rightarrow>
     (case request_error q of
        Some e \<Rightarrow> ok (Refused 400 e)
      | None \<Rightarrow>
          or_report 400 ''File not found'' (GetFile (bh_redisStore h) (cb_InputFileID q)) (\<lambda>_.
          chk (effect (tr_uuid (bh_reactor h))) (\<lambda>u.
          if cb_CompletionWindow q \<noteq> [] \<and> cb_CompletionWindow q \<noteq> ''24h''
          then ok (Refused 400 (''completion_window must be '' @ quoted ''24h''))
          else chk (now (bh_redisStore h)) (\<lambda>t.
               let task = new_task q (bearerToken authHeader) (''batch_'' @ u) t
               in or_report 500 ''Failed to create batch task'' (CreateTask (bh_redisStore h) (bh_json h) task) (\<lambda>_.
                  ok (TaskAnswer (stripInternalFields task))))))))"

fun tasks_of :: "'w BatchHandler \<Rightarrow> string list \<Rightarrow> ('w, BatchTask list) act" where
  "tasks_of h [] = ok []"
| "tasks_of h (taskID # ids) =
     attempt (GetTask (bh_redisStore h) (bh_json h) taskID)
       (\<lambda>task. chk (tasks_of h ids) (\<lambda>ts. ok (task\<lparr>bt_Token := None\<rparr> # ts))) (\<lambda>_. tasks_of h ids)"

definition page_limit :: "string \<Rightarrow> nat" where
  "page_limit limitStr =
     (let (parsedLimit, valid) = Atoi limitStr
      in if limitStr \<noteq> [] \<and> valid \<and> 0 < sint parsedLimit then nat (sint parsedLimit) else 20)"

text \<open>What follows the task with the id \<open>after\<close>: nothing when it is not there.\<close>

fun after_task :: "string \<Rightarrow> BatchTask list \<Rightarrow> BatchTask list" where
  "after_task after [] = []"
| "after_task after (t # ts) = (if bt_ID t = after then ts else after_task after ts)"

definition page :: "string \<Rightarrow> nat \<Rightarrow> BatchTask list \<Rightarrow> BatchTask list \<times> bool" where
  "page after limit allTasks =
     (let rest = (if after \<noteq> [] then after_task after allTasks else allTasks)
      in if limit < length rest then (take limit rest, True) else (rest, False))"

text \<open>Two tasks or more are compared by their creation time, which must be there.\<close>

definition handleListBatchTasks :: "'w BatchHandler \<Rightarrow> string \<Rightarrow> string \<Rightarrow> ('w, answer) act" where
  "handleListBatchTasks h limitStr after =
     or_refuse 500 ''Failed to get task list'' (GetAllTasks (bh_redisStore h)) (\<lambda>ids.
     chk (tasks_of h ids) (\<lambda>ts.
     if 1 < length ts \<and> (\<exists>t\<in>set ts. bt_CreatedAt t = None) then State_Monad.return Panic
     else let allTasks = sort_stable (\<lambda>a b. sint (the (bt_CreatedAt b)) < sint (the (bt_CreatedAt a))) ts;
              (data, hasMore) = page after (page_limit limitStr) allTasks
          in ok (TaskList data (ends bt_ID data) hasMore)))"

definition BatchesHandler :: "'w BatchHandler \<Rightarrow> http_method \<Rightarrow> string \<Rightarrow> string + create_request \<Rightarrow> string \<Rightarrow> string \<Rightarrow> ('w, answer) act" where
  "BatchesHandler h meth authHeader body limitStr after =
     (case meth of POST \<Rightarrow> handleCreateBatchTask h authHeader body | GET \<Rightarrow> handleListBatchTasks h limitStr after | _ \<Rightarrow> not_allowed)"

definition GetBatchTaskHandler :: "'w BatchHandler \<Rightarrow> string \<Rightarrow> ('w, answer) act" where
  "GetBatchTaskHandler h taskID =
     or_report 404 ''Task not found'' (GetTask (bh_redisStore h) (bh_json h) taskID) (\<lambda>task. ok (TaskAnswer (stripInternalFields task)))"

definition if_cancellable :: "BatchTaskStatus \<Rightarrow> ('w, answer) act \<Rightarrow> ('w, answer) act" where
  "if_cancellable taskStatus m =
     (if taskStatus \<noteq> StatusValidating \<and> taskStatus \<noteq> StatusInProgress then ok (Refused 400 ''Task cannot be cancelled in current status'') else m)"

definition CancelBatchTaskHandler :: "'w BatchHandler \<Rightarrow> string \<Rightarrow> ('w, answer) act" where
  "CancelBatchTaskHandler h taskID =
     or_report 404 ''Task not found'' (GetTaskStatus (bh_redisStore h) taskID) (\<lambda>taskStatus.
     if_cancellable taskStatus
       (or_report 500 ''Failed to acquire task lock''
          (AcquireTaskLock (bh_redisStore h) taskID (bh_instanceID h) DefaultLockExpiration) (\<lambda>acquired.
        if \<not> acquired then ok (Refused 409 ''Task is currently being processed by another instance'')
        else deferred (logged_only (ReleaseTaskLock (bh_redisStore h) taskID (bh_instanceID h)))
               (or_report 404 ''Task not found'' (GetTaskStatus (bh_redisStore h) taskID) (\<lambda>taskStatus.
                if_cancellable taskStatus
                  (or_report 500 ''Failed to move task to cancelling set''
                     (MoveTaskAndUpdateStatusAtomically (bh_redisStore h) taskID taskStatus StatusCancelling) (\<lambda>_.
                   or_report 404 ''Task details not found'' (GetTask (bh_redisStore h) (bh_json h) taskID) (\<lambda>task.
                   ok (TaskAnswer (stripInternalFields task))))))))))"

subsection \<open>The service\<close>

text \<open>The first Redis host, \<open>None\<close> when there is none and taking it panics; the bucket and the prefix of a path.\<close>

definition redis_host :: "string \<Rightarrow> string option" where
  "redis_host addrs =
     (case filter (\<lambda>host. host \<noteq> []) (map TrimSpace (split_on (CHR '','') addrs)) of [] \<Rightarrow> None | host # _ \<Rightarrow> Some host)"

definition oss_location :: "string \<Rightarrow> string \<times> string" where
  "oss_location path =
     (let p = (if HasPrefix path ''oss://'' then drop 6 path else path)
      in (takeWhile (\<lambda>c. c \<noteq> CHR ''/'') p, drop 1 (dropWhile (\<lambda>c. c \<noteq> CHR ''/'') p)))"

text \<open>A pass of one of the reactors, or a request on one of the routes.\<close>

datatype batch_step =
    Validating | InProgress string | Finalizing | Expiring | Cancelling
  | Files http_method upload | OneFile http_method string | Content string
  | Batches http_method string "string + create_request" string string | GetBatch string | CancelBatch string

fun do_step :: "'w BatchHandler \<Rightarrow> batch_step \<Rightarrow> 'w \<Rightarrow> 'w" where
  "do_step h Validating w = snd (run_state (processSingleValidatingTask (bh_reactor h)) w)"
| "do_step h (InProgress workerID) w = snd (run_state (processSingleInProgressTask (bh_reactor h) workerID) w)"
| "do_step h Finalizing w = snd (run_state (processSingleFinalizingTask (bh_reactor h)) w)"
| "do_step h Expiring w = snd (run_state (processExpiredTasks (bh_reactor h)) w)"
| "do_step h Cancelling w = snd (run_state (processSingleCancellingTask (bh_reactor h)) w)"
| "do_step h (Files meth r) w = snd (run_state (FilesHandler h meth r) w)"
| "do_step h (OneFile meth fileID) w = snd (run_state (FileHandler h meth fileID) w)"
| "do_step h (Content fileID) w = snd (run_state (GetFileContentHandler h fileID) w)"
| "do_step h (Batches meth authHeader body limit after) w = snd (run_state (BatchesHandler h meth authHeader body limit after) w)"
| "do_step h (GetBatch taskID) w = snd (run_state (GetBatchTaskHandler h taskID) w)"
| "do_step h (CancelBatch taskID) w = snd (run_state (CancelBatchTaskHandler h taskID) w)"

subsection \<open>A task is in one set\<close>

lemma tkeeps_answers:
  "tkeeps X V m Q \<Longrightarrow> (\<And>x. Q x \<Longrightarrow> tkeeps X V (f x) (\<lambda>_. True)) \<Longrightarrow> tkeeps X V (or_report c msg m f) (\<lambda>_. True)"
  "tkeeps X V m Q \<Longrightarrow> (\<And>x. Q x \<Longrightarrow> tkeeps X V (f x) (\<lambda>_. True)) \<Longrightarrow> tkeeps X V (or_refuse c msg m f) (\<lambda>_. True)"
  unfolding or_report_def or_refuse_def by (auto intro!: keeps_attempt keeps_ok)

text \<open>The handler works on the store and the bucket of its reactor.\<close>

definition joined :: "'w BatchHandler \<Rightarrow> bool" where
  "joined h \<longleftrightarrow> bh_redisStore h = tr_redis (bh_reactor h) \<and> bh_ossClient h = tr_bucket (bh_reactor h)"

lemma tkeeps_file_handlers:
  assumes "safe X (tr_redis (bh_reactor h)) V" "apart (bh_reactor h) V" "joined h"
  shows "tkeeps X V (FilesHandler h meth r) (\<lambda>_. True)" "tkeeps X V (FileHandler h meth i) (\<lambda>_. True)" "tkeeps X V (GetFileContentHandler h i) (\<lambda>_. True)"
proof -
  have s: "safe X (bh_redisStore h) V" and b: "bh_ossClient h = tr_bucket (bh_reactor h)" using assms(1,3) by (simp_all add: joined_def)
  note K = keeps_intros tkeeps_answers tkeeps_basic
  have l: "tkeeps X V (files_of h ids) (\<lambda>_. True)" for ids by (induction ids) (use s in \<open>auto intro!: K\<close>)
  have "tkeeps X V (handleListFiles h) (\<lambda>_. True)" unfolding handleListFiles_def Let_def using s by (auto intro!: K l)
  moreover have "tkeeps X V (handleFileUpload h r) (\<lambda>_. True)"
    unfolding handleFileUpload_def Let_def b using s assms(2) by (auto intro!: K split: option.split sum.split prod.split)
  ultimately show "tkeeps X V (FilesHandler h meth r) (\<lambda>_. True)"
    by (auto simp: FilesHandler_def intro: keeps_ok split: http_method.split)
  show "tkeeps X V (FileHandler h meth i) (\<lambda>_. True)" "tkeeps X V (GetFileContentHandler h i) (\<lambda>_. True)"
    unfolding FileHandler_def GetFileContentHandler_def b using s assms(2) by (auto intro!: K split: http_method.split)
qed

lemma tkeeps_task_reads:
  assumes "safe X (bh_redisStore h) V"
  shows "tkeeps X V (handleListBatchTasks h l a) (\<lambda>_. True)" "tkeeps X V (GetBatchTaskHandler h i) (\<lambda>_. True)"
proof -
  note K = keeps_intros tkeeps_answers tkeeps_basic
  have l: "tkeeps X V (tasks_of h ids) (\<lambda>_. True)" for ids by (induction ids) (use assms in \<open>auto intro!: K\<close>)
  show "tkeeps X V (handleListBatchTasks h l a) (\<lambda>_. True)"
    unfolding handleListBatchTasks_def Let_def using assms by (auto intro!: K l split: prod.split)
  show "tkeeps X V (GetBatchTaskHandler h i) (\<lambda>_. True)"
    unfolding GetBatchTaskHandler_def using assms by (auto intro!: K)
qed

lemma tkeeps_cancel:
  assumes "safe X (bh_redisStore h) V"
  shows "tkeeps X V (CancelBatchTaskHandler h i) (\<lambda>_. True)"
proof -
  note K = keeps_intros tkeeps_answers tkeeps_basic
  have c: "tkeeps X V (if_cancellable s m) (\<lambda>_. True)"
    if "s = StatusValidating \<or> s = StatusInProgress \<Longrightarrow> tkeeps X V m (\<lambda>_. True)" for s and m :: "('a, answer) act"
    using that by (auto simp: if_cancellable_def intro: keeps_ok)
  have t: "tkeeps X V (GetTaskStatus (bh_redisStore h) i) (\<lambda>_. True)" by (rule keeps_any [OF tkeeps_status [OF assms]])
  have m: "movable X i s StatusCancelling" if "s = StatusValidating \<or> s = StatusInProgress" for s using that by auto
  show ?thesis
    unfolding CancelBatchTaskHandler_def
    by (intro tkeeps_answers(1) [OF t] c) (use assms in \<open>auto intro!: K c t m\<close>)
qed

subsection \<open>A new task\<close>

definition in_no_set :: "string \<Rightarrow> rview \<Rightarrow> bool" where
  "in_no_set i v \<longleftrightarrow> (\<forall>s\<in>set task_statuses. i \<notin> rv_set v (getTaskSetKey s))"

text \<open>A new UUID names no task, and nobody else makes a task of that name.\<close>

definition own_ids :: "'w reactor \<Rightarrow> ('w \<Rightarrow> rview) \<Rightarrow> string set \<Rightarrow> bool" where
  "own_ids tr V own \<longleftrightarrow>
     (\<forall>w. ''batch_'' @ fst (tr_uuid tr w) \<in> own \<and> in_no_set (''batch_'' @ fst (tr_uuid tr w)) (V w)) \<and>
     (\<forall>w. \<forall>i\<in>own. in_no_set i (V w) \<longrightarrow> in_no_set i (V (snd (rd_net (tr_redis tr) w))))"

lemma ends_attempt:
  assumes "keeps P m (\<lambda>_. True)" "\<And>w. P w \<Longrightarrow> R w" "\<And>x w. P w \<Longrightarrow> R (snd (run_state (f x) w))" "\<And>e w. P w \<Longrightarrow> R (snd (run_state (g e) w))" "P w"
  shows "R (snd (run_state (attempt m f g) w))"
proof -
  obtain r w1 where 1: "run_state m w = (r, w1)" by (cases "run_state m w")
  with keepsD [OF assms(1,5)] have "P w1" by blast
  with 1 assms(2-4) show ?thesis by (cases r) (simp_all add: run_attempt)
qed

lemma ends_chk:
  assumes "keeps P m (\<lambda>_. True)" "\<And>w. P w \<Longrightarrow> R w" "\<And>x w. P w \<Longrightarrow> R (snd (run_state (f x) w))" "P w"
  shows "R (snd (run_state (chk m f) w))"
  unfolding chk_def by (rule ends_attempt [where P = P and R = R, OF assms(1)]) (simp_all add: assms(2-4))

lemma task_inv_pending:
  assumes "task_inv X v" "in_no_set i v"
  shows "task_inv X (set_member True (getTaskSetKey StatusPending) i v)"
proof -
  have s: "rv_set (set_member True (getTaskSetKey StatusPending) i v) (getTaskSetKey s) =
      (if s = StatusPending then insert i (rv_set v (getTaskSetKey s)) else rv_set v (getTaskSetKey s))" for s
    by (simp add: set_member_def)
  have h: "rv_hash (set_member True (getTaskSetKey StatusPending) i v) = rv_hash v" by (simp add: set_member_def)
  show ?thesis using assms unfolding task_inv_def in_no_set_def s h by (auto split: if_splits)
qed

lemma in_no_set_kept [simp]:
  "in_no_set i (set_fields k m v) \<longleftrightarrow> in_no_set i v" "in_no_set i (set_member True getGlobalTaskSetKey j v) \<longleftrightarrow> in_no_set i v"
  by (auto simp: in_no_set_def set_fields_def set_member_def)

lemma task_inv_global [simp]: "task_inv X v \<Longrightarrow> task_inv X (set_member True getGlobalTaskSetKey i v)"
  by (erule task_inv_add_other) (metis global_ne)

lemma create_inv:
  assumes "safe X rd V" "\<And>w. in_no_set (bt_ID t) (V w) \<Longrightarrow> in_no_set (bt_ID t) (V (snd (rd_net rd w)))"
    "bt_Status t = StatusPending" "task_inv X (V w)" "in_no_set (bt_ID t) (V w)"
  shows "task_inv X (V (snd (run_state (CreateTask rd js t) w)))"
proof -
  let ?P = "\<lambda>w. task_inv X (V w) \<and> in_no_set (bt_ID t) (V w)"
  note D = redis_okD [OF safe_ok [OF assms(1)]]
  have net: "?P (snd (rd_net rd w))" if "?P w" for w using that assms(1,2) by (simp add: safe_def)
  have s: "StatusPending \<in> set task_statuses" by (simp add: task_statuses_def)
  have h: "keeps ?P (HSet rd (getTaskKey (bt_ID t)) m) (\<lambda>_. True)" if "mget m ''status'' = Some StatusPending" for m
    unfolding HSet_def by (rule keeps_call) (use net in \<open>simp_all add: D task_inv_fields [OF _ that s]\<close>)
  have g: "keeps ?P (SAdd rd getGlobalTaskSetKey (bt_ID t)) (\<lambda>_. True)"
    unfolding SAdd_def by (rule keeps_call) (use net in \<open>simp_all add: D\<close>)
  have p: "task_inv X (V (snd (run_state (SAdd rd (getTaskSetKey StatusPending) (bt_ID t)) w)))" if "?P w" for w
    using net [OF that] by (auto simp: SAdd_def run_call D intro: task_inv_pending split: fault.split)
  show ?thesis
  proof (cases "bt_CreatedAt t = None \<or> bt_UpdatedAt t = None")
    case False
    then obtain c u where cu: "bt_CreatedAt t = Some c" "bt_UpdatedAt t = Some u" by auto
    show ?thesis
    proof (cases "task_fields js t c u")
      case (Inr m)
      with task_fields_status [OF Inr] assms(3) have m: "mget m ''status'' = Some StatusPending" by simp
      have "task_inv X (V (snd (run_state (chk (HSet rd (getTaskKey (bt_ID t)) m) (\<lambda>_. chk (SAdd rd getGlobalTaskSetKey (bt_ID t))
          (\<lambda>_. SAdd rd (getTaskSetKey StatusPending) (bt_ID t)))) w)))"
      proof (rule ends_chk [where P = ?P and R = "\<lambda>w. task_inv X (V w)", OF h [OF m]])
        show "task_inv X (V (snd (run_state (chk (SAdd rd getGlobalTaskSetKey (bt_ID t)) (\<lambda>_. SAdd rd (getTaskSetKey StatusPending) (bt_ID t))) w)))"
          if "?P w" for w
          by (rule ends_chk [where P = ?P and R = "\<lambda>w. task_inv X (V w)", OF g]) (use that p in auto)
      qed (use assms(4,5) in auto)
      with cu Inr show ?thesis by (simp add: CreateTask_def lift_def run_chk)
    qed (use cu assms(4) in \<open>simp add: CreateTask_def lift_def run_chk\<close>)
  qed (use assms(4) in \<open>auto simp: CreateTask_def split: option.split\<close>)
qed

lemma report_world: "snd (run_state (or_report code msg m (\<lambda>_. ok x)) w) = snd (run_state m w)"
  by (cases "run_state m w") (auto simp: or_report_def run_attempt split: io.split)

lemma create_handler_inv:
  assumes "safe X (tr_redis (bh_reactor h)) V" "apart (bh_reactor h) V" "joined h" "own_ids (bh_reactor h) V own" "task_inv X (V w)"
  shows "task_inv X (V (snd (run_state (handleCreateBatchTask h a body) w)))"
proof -
  have s: "safe X (bh_redisStore h) V" and r: "bh_redisStore h = tr_redis (bh_reactor h)" using assms(1,3) by (simp_all add: joined_def)
  let ?P = "\<lambda>w. task_inv X (V w)"
  have new: "?P (snd (run_state (chk (effect (tr_uuid (bh_reactor h))) (\<lambda>u.
          if b then ok (Refused 400 m)
          else chk (now (bh_redisStore h)) (\<lambda>t.
               let task = new_task q tok (''batch_'' @ u) t
               in or_report 500 m' (CreateTask (bh_redisStore h) (bh_json h) task) (\<lambda>_. ok (TaskAnswer (stripInternalFields task)))))) w))"
    if "?P w" for w b m m' q tok
  proof -
    obtain u w1 where 1: "tr_uuid (bh_reactor h) w = (u, w1)" by (cases "tr_uuid (bh_reactor h) w")
    have v: "V w1 = V w" using apartD(2) [OF assms(2), of w] 1 by simp
    have u: "''batch_'' @ u \<in> own" "in_no_set (''batch_'' @ u) (V w1)" using assms(4) 1 v by (metis own_ids_def fst_conv)+
    have n: "in_no_set (''batch_'' @ u) (V (snd (rd_net (bh_redisStore h) w)))" if "in_no_set (''batch_'' @ u) (V w)" for w
      using assms(4) u(1) that r by (simp add: own_ids_def)
    have c: "?P (snd (run_state (CreateTask (bh_redisStore h) (bh_json h) (new_task q tok (''batch_'' @ u) t)) w1))" for t
      by (rule create_inv [OF s]) (use u n v that in \<open>simp_all add: new_task_def\<close>)
    then show ?thesis using 1 v that by (simp add: run_chk run_effect now_def clock_def Let_def report_world)
  qed
  have g: "keeps ?P (GetFile (bh_redisStore h) f) (\<lambda>_. True)" for f using s by (rule tkeeps_gets)
  show ?thesis
    unfolding handleCreateBatchTask_def or_report_def [of 400]
    using assms(5) new by (auto split: sum.split option.split intro!: ends_attempt [where P = ?P and R = ?P, OF g])
qed

lemma step_inv:
  assumes "safe X (tr_redis (bh_reactor h)) V" "apart (bh_reactor h) V" "joined h" "own_ids (bh_reactor h) V own" "task_inv X (V w)"
  shows "task_inv X (V (do_step h st w))"
proof -
  have s: "safe X (bh_redisStore h) V" using assms(1,3) by (simp add: joined_def)
  note T = tkeeps_validating [OF assms(1,2)] tkeeps_inprogress [OF assms(1,2)] tkeeps_finalizing [OF assms(1,2)] tkeeps_expired [OF assms(1)]
    tkeeps_cancelling [OF assms(1,2)] tkeeps_file_handlers [OF assms(1-3)] tkeeps_task_reads [OF s] tkeeps_cancel [OF s]
  show ?thesis
  proof (cases st)
    case (Batches meth a body l af)
    with T(9) create_handler_inv [OF assms] assms(5) show ?thesis
      by (cases meth) (simp_all add: BatchesHandler_def keeps_def)
  qed (use T assms(5) in \<open>simp_all add: keeps_def\<close>)
qed

lemma steps_inv:
  assumes "safe X (tr_redis (bh_reactor h)) V" "apart (bh_reactor h) V" "joined h" "own_ids (bh_reactor h) V own" "task_inv X (V w)"
  shows "task_inv X (V (fold (do_step h) sts w))"
  using assms(5) by (induction sts arbitrary: w) (simp_all add: step_inv [OF assms(1-4)])


text \<open>C38. A task in the finalize set stays there: no pass of a reactor and no request that starts while it is there moves it on, so
  a gateway that stops between moving a task to this set and completing it leaves the task there for good, in no final status.\<close>

theorem finalize_never_left:
  assumes "redis_ok (tr_redis (bh_reactor h)) V"
    "\<And>w. task_inv {taskID} (V w) \<Longrightarrow> task_inv {taskID} (V (snd (rd_net (tr_redis (bh_reactor h)) w)))"
    "apart (bh_reactor h) V" "joined h" "own_ids (bh_reactor h) V own"
    "task_inv {} (V w)" "taskID \<in> rv_set (V w) (getTaskSetKey StatusFinalize)"
  shows "taskID \<in> rv_set (V (fold (do_step h) sts w)) (getTaskSetKey StatusFinalize)"
proof -
  have "safe {taskID} (tr_redis (bh_reactor h)) V" using assms(1,2) by (simp add: safe_def)
  moreover have "task_inv {taskID} (V w)" using assms(6,7) by (simp add: task_inv_def)
  ultimately have "task_inv {taskID} (V (fold (do_step h) sts w))" using steps_inv [OF _ assms(3-5)] by blast
  then show ?thesis by (simp add: task_inv_def)
qed

subsection \<open>A service in memory\<close>

definition mem_handler :: "mem BatchHandler" where
  "mem_handler = \<lparr>bh_redisStore = mem_redis, bh_json = ex_json, bh_ossClient = mem_bucket, bh_reactor = mem_reactor, bh_instanceID = ''gw''\<rparr>"

lemma mem_joined: "joined mem_handler" "apart (bh_reactor mem_handler) V" "tr_redis (bh_reactor mem_handler) = mem_redis"
  by (simp_all add: joined_def apart_def mem_handler_def mem_reactor_def mem_bucket_def)

lemma mem_fresh: "in_no_set (''batch_'' @ mem_uuid w) (mem_view w)"
proof -
  let ?all = "concat (map (\<lambda>s. mm_set w (getTaskSetKey s)) task_statuses)"
  have "length i \<le> length (mem_uuid w)" if "s \<in> set task_statuses" "i \<in> set (mm_set w (getTaskSetKey s))" for s i
    unfolding mem_uuid_def length_replicate by (rule member_le_sum_list) (use that in auto)
  then show ?thesis by (fastforce simp: in_no_set_def mem_view_def)
qed

lemma mem_own: "own_ids (bh_reactor mem_handler) mem_view UNIV"
  by (simp only: own_ids_def mem_joined) (simp add: mem_handler_def mem_reactor_def mem_redis_def mem_fresh [simplified])

definition ex_create :: create_request where
  "ex_create = \<lparr>cb_InputFileID = ''f'', cb_Endpoint = ''/v1/completions'', cb_Model = ''m'', cb_CompletionWindow = [], cb_Metadata = [],
     cb_OutputExpiresAfter = None\<rparr>"

definition ex_upload :: upload where
  "ex_upload = \<lparr>up_form = None, up_file = Inr (3, ''in.jsonl'', ''abc''), up_purpose = ''batch'', up_anchor = [], up_seconds = []\<rparr>"

definition ex_steps :: "batch_step list" where
  "ex_steps = [Files POST ex_upload, Batches POST ''Bearer t'' (Inr ex_create) [] [], Validating, InProgress ''0'', CancelBatch ''batch_'', Cancelling,
     Finalizing, Expiring]"


definition mem_finalize :: mem where
  "mem_finalize = mem_empty\<lparr>mm_set := (mm_set mem_empty)(getTaskSetKey StatusFinalize := [''batch_7''])\<rparr>"

theorem finalize_never_left_witness:
  "''batch_7'' \<in> rv_set (mem_view (fold (do_step mem_handler) (Finalizing # CancelBatch ''batch_7'' # ex_steps) mem_finalize)) (getTaskSetKey StatusFinalize)"
  by (rule finalize_never_left [OF _ _ mem_joined(2,1) mem_own])
    (simp_all add: mem_joined mem_redis_ok, simp_all add: mem_redis_def mem_view_def mem_finalize_def mem_empty_def task_inv_def)

subsection \<open>Pages\<close>

definition rest_of :: "string \<Rightarrow> BatchTask list \<Rightarrow> BatchTask list" where
  "rest_of after ts = (if after \<noteq> [] then after_task after ts else ts)"

lemma after_task_split: "bt_ID t \<notin> bt_ID ` set xs \<Longrightarrow> after_task (bt_ID t) (xs @ t # ys) = ys"
  by (induction xs) auto

lemma after_task_suffix: "\<exists>xs. ts = xs @ after_task after ts"
proof (induction ts)
  case (Cons t ts)
  then obtain xs where "ts = xs @ after_task after ts" by blast
  then show ?case by (cases "bt_ID t = after") (auto intro: exI [of _ "[t]"] exI [of _ "t # xs"])
qed simp

text \<open>The page asked for with the last id of a page begins where that page ended.\<close>

lemma page_next:
  assumes "page after limit ts = (data, True)" "0 < limit" "distinct (map bt_ID ts)" "[] \<notin> bt_ID ` set ts"
  shows "data = take limit (rest_of after ts)" "rest_of (bt_ID (last data)) ts = drop limit (rest_of after ts)"
proof -
  let ?r = "rest_of after ts"
  from assms(1) show d: "data = take limit ?r" by (auto simp: page_def rest_of_def Let_def split: if_splits)
  from assms(1) have l: "limit < length ?r" by (auto simp: page_def rest_of_def Let_def split: if_splits)
  have "\<exists>xs. ts = xs @ ?r" using after_task_suffix [of ts after] by (cases "after = []") (simp_all add: rest_of_def)
  then obtain xs where ts: "ts = xs @ ?r" by blast
  have e: "?r = take (limit - 1) ?r @ ?r ! (limit - 1) # drop limit ?r"
    using id_take_nth_drop [of "limit - 1" ?r] l assms(2) by simp
  have "take limit ?r \<noteq> []" using l assms(2) by auto
  from last_conv_nth [OF this] have la: "last data = ?r ! (limit - 1)" using l assms(2) by (simp add: d)
  let ?t = "?r ! (limit - 1)"
  have ts': "ts = (xs @ take (limit - 1) ?r) @ ?t # drop limit ?r" by (subst ts, subst e) simp
  have "distinct (map bt_ID ((xs @ take (limit - 1) ?r) @ ?t # drop limit ?r))" using assms(3) by (subst (asm) ts')
  then have "bt_ID ?t \<notin> bt_ID ` set (xs @ take (limit - 1) ?r)" by auto
  from after_task_split [OF this, of "drop limit ?r"] have "after_task (bt_ID ?t) ts = drop limit ?r" using ts' by metis
  moreover have "?t \<in> set ts" by (subst ts') simp
  then have "bt_ID ?t \<noteq> []" using assms(4) by force
  ultimately show "rest_of (bt_ID (last data)) ts = drop limit ?r" by (simp add: rest_of_def la)
qed

end
