(* ===== verification/Spec2Isabelle.thy ===== *)
theory Spec2Isabelle
  imports Rescheduling Scheduler_Service Gateway_Entry Batch_Handlers
begin

text \<open>Verification of the llumnix scheduler and gateway.\<close>

end
